(* ===== verification/Prelude.thy ===== *)
theory Prelude
  imports Main "HOL-Library.Word" "HOL-Library.List_Lexorder" "HOL-Library.Sublist"
    "HOL-Library.AList"
begin

unbundle bit_operations_syntax

text \<open>
  What the components share: the machine types of the Go code, byte strings and their order, the
  big-endian numbers of the on-disk keys, and lemmas on sorted lists and prefixes. A Go
  \<^verbatim>\<open>string\<close> or \<^verbatim>\<open>[]byte\<close> that carries data is a list of 8-bit words; Go compares both
  bytewise, which is the lexicographic order of \<^verbatim>\<open>List_Lexorder\<close>. Strings the code only
  tests for equality (operation names, modes, error codes) are HOL strings.
\<close>

section \<open>Machine types\<close>

type_synonym byte = "8 word"
type_synonym bytes = "byte list"
type_synonym u64 = "64 word"
type_synonym i64 = "64 word"

named_theorems key_simps \<open>the layout of the on-disk keys: equality, order and prefixes\<close>
named_theorems batch_simps \<open>what a staged batch does to the store\<close>
named_theorems sm_frame \<open>fields of the state machine an operation leaves alone\<close>

text \<open>A string literal of the source as bytes.\<close>

definition str :: "string \<Rightarrow> bytes" where
  "str cs = map of_char cs"

lemma str_simps [simp]: "str [] = []" "str (c # cs) = of_char c # str cs"
  by (simp_all add: str_def)

lemma length_str [simp]: "length (str cs) = length cs"
  by (simp add: str_def)

section \<open>Big-endian numbers\<close>

text \<open>
  The value of a byte list read big-endian. Among lists of one length the bytewise order is the
  order of the values, which is why the code encodes group ids and revisions this way.
\<close>

fun be_val :: "bytes \<Rightarrow> nat" where
  "be_val [] = 0"
| "be_val (b # bs) = unat b * 256 ^ length bs + be_val bs"

lemma be_val_bound: "be_val bs < 256 ^ length bs"
proof (induction bs)
  case Nil
  show ?case by simp
next
  case (Cons b bs)
  have "unat b < 256"
    using unsigned_less [of b] by simp
  then have "256 ^ length bs + unat b * 256 ^ length bs \<le> 256 * 256 ^ length bs"
    using mult_le_mono1 [of "Suc (unat b)" 256 "256 ^ length bs"] by (simp only: mult_Suc)
  moreover have "be_val (b # bs) < 256 ^ length bs + unat b * 256 ^ length bs"
    using Cons.IH by simp
  ultimately have "be_val (b # bs) < 256 * 256 ^ length bs" by (rule order_less_le_trans [rotated])
  then show ?case by simp
qed

lemma be_val_less_iff:
  "length xs = length ys \<Longrightarrow> be_val xs < be_val ys \<longleftrightarrow> xs < ys"
proof (induction xs ys rule: list_induct2)
  case Nil
  show ?case by simp
next
  case (Cons x xs y ys)
  let ?p = "256 ^ length ys :: nat"
  have bx: "be_val xs < ?p" and "be_val ys < ?p"
    using be_val_bound [of xs] be_val_bound [of ys] Cons.hyps by simp_all
  have step: "unat a * ?p + u < unat c * ?p + v" if "unat a < unat c" "u < ?p" for a c :: byte and u v
  proof -
    from that(1) have "Suc (unat a) * ?p \<le> unat c * ?p" by (intro mult_le_mono1) simp
    with that(2) show ?thesis by simp
  qed
  consider "unat x < unat y" | "x = y" | "unat y < unat x"
    by (metis linorder_neqE_nat word_unat_eq_iff)
  then show ?case
  proof cases
    case 1
    with step [OF 1 bx, of "be_val ys"] Cons.hyps show ?thesis by (simp add: word_less_nat_alt)
  next
    case 2
    with Cons show ?thesis by simp
  next
    case 3
    with step [OF 3 \<open>be_val ys < ?p\<close>, of "be_val xs"] Cons.hyps show ?thesis
      by (auto simp: word_less_nat_alt)
  qed
qed

lemma be_val_inject: "length xs = length ys \<Longrightarrow> be_val xs = be_val ys \<longleftrightarrow> xs = ys"
  using be_val_less_iff [of xs ys] be_val_less_iff [of ys xs] by (metis antisym_conv3 less_irrefl)

text \<open>
  \<^verbatim>\<open>be64\<close> is the loop \<open>b[i] = byte(n >> (8 * (7 - i)))\<close> that the store and the state
  machine write their counters with, and \<^verbatim>\<open>unbe64\<close> the loop \<open>n = n<<8 | uint64(b)\<close> that
  reads them back.
\<close>

definition be64 :: "u64 \<Rightarrow> bytes" where
  "be64 n = map (\<lambda>i. ucast (drop_bit (8 * (7 - i)) n)) [0..<8]"

definition unbe64 :: "bytes \<Rightarrow> u64" where
  "unbe64 bs = foldl (\<lambda>n b. push_bit 8 n OR ucast b) 0 bs"

lemma length_be64 [simp]: "length (be64 n) = 8"
  by (simp add: be64_def)

lemma be64_nonempty [simp]: "be64 n \<noteq> []"
  using length_be64 [of n] by (metis length_0_conv zero_neq_numeral)

lemma unat_byte_of: "unat (ucast (drop_bit k n) :: byte) = (unat (n :: u64) div 2 ^ k) mod 256"
  using unsigned_less [of n, where 'a = nat]
  by (simp only: unsigned_ucast_eq unsigned_drop_bit_eq) (simp add: take_bit_eq_mod drop_bit_eq_div)

lemma be_val_be64: "be_val (be64 n) = unat n"
proof -
  define x where "x = unat n"
  have lt: "x < 2 ^ 64" unfolding x_def using unsigned_less [of n] by simp
  have dm: "x div m = x div m' * 256 + x div m mod 256" if "m' = m * 256" for m m'
    using that by (simp add: div_mult2_eq)
  have "be_val (be64 n) =
    (x div 72057594037927936 mod 256) * 72057594037927936 +
    ((x div 281474976710656 mod 256) * 281474976710656 +
    ((x div 1099511627776 mod 256) * 1099511627776 + ((x div 4294967296 mod 256) * 4294967296 +
    ((x div 16777216 mod 256) * 16777216 + ((x div 65536 mod 256) * 65536 +
    ((x div 256 mod 256) * 256 + x mod 256))))))"
    using unat_byte_of [of 0 n] by (simp add: be64_def upt_rec unat_byte_of x_def)
  also have "\<dots> = x"
  proof -
    have horner: "d7 * 72057594037927936 + (d6 * 281474976710656 + (d5 * 1099511627776 +
      (d4 * 4294967296 + (d3 * 16777216 + (d2 * 65536 + (d1 * 256 + d0)))))) = y"
      if "y = q1 * 256 + d0" "q1 = q2 * 256 + d1" "q2 = q3 * 256 + d2" "q3 = q4 * 256 + d3"
        "q4 = q5 * 256 + d4" "q5 = q6 * 256 + d5" "q6 = d7 * 256 + d6"
      for y q1 q2 q3 q4 q5 q6 d0 d1 d2 d3 d4 d5 d6 d7 :: nat
      using that by simp
    have top: "x div 72057594037927936 mod 256 = x div 72057594037927936" using lt by simp
    show ?thesis
      by (rule horner [of _ "x div 256" _ "x div 65536" _ "x div 16777216" _ "x div 4294967296" _
            "x div 1099511627776" _ "x div 281474976710656"])
        (simp, (rule dm, simp)+, subst top, rule dm, simp)
  qed
  finally show ?thesis by (simp add: x_def)
qed

lemma be64_less_iff [key_simps]: "be64 m < be64 n \<longleftrightarrow> m < n"
  using be_val_less_iff [of "be64 m" "be64 n"] by (simp add: be_val_be64 word_less_nat_alt)

lemma be64_inject [simp]: "be64 m = be64 n \<longleftrightarrow> m = n"
  using be_val_inject [of "be64 m" "be64 n"] by (simp add: be_val_be64 word_unat_eq_iff)

lemma unbe64_of_nat: "unbe64 bs = of_nat (be_val bs)"
proof -
  have step: "push_bit 8 n OR ucast b = n * 256 + of_nat (unat b)" for n :: u64 and b :: byte
  proof -
    have "push_bit 8 n AND ucast b = (0 :: u64)"
      by (rule bit_eqI) (auto simp: bit_simps dest: bit_imp_le_length)
    then have "push_bit 8 n OR ucast b = push_bit 8 n + (ucast b :: u64)"
      by (simp add: disjunctive_add_eq_or)
    then show ?thesis by (simp add: push_bit_eq_mult)
  qed
  have "foldl (\<lambda>n b. push_bit 8 n OR ucast b) n bs = n * 256 ^ length bs + of_nat (be_val bs)" for n :: u64
  proof (induction bs arbitrary: n)
    case Nil
    show ?case by simp
  next
    case (Cons b bs)
    have "foldl (\<lambda>n b. push_bit 8 n OR ucast b) n (b # bs) =
      foldl (\<lambda>n b. push_bit 8 n OR ucast b) (n * 256 + of_nat (unat b)) bs"
      by (simp only: foldl_Cons step)
    also have "\<dots> = (n * 256 + of_nat (unat b)) * 256 ^ length bs + of_nat (be_val bs)"
      by (rule Cons.IH)
    finally show ?case by (simp add: algebra_simps)
  qed
  from this [of 0] show ?thesis by (simp add: unbe64_def)
qed

lemma unbe64_be64 [simp]: "unbe64 (be64 n) = n"
  by (simp add: unbe64_of_nat be_val_be64)

text \<open>The same value over the integers, for evaluation.\<close>

lemma unbe64_int [code]: "unbe64 bs = word_of_int (foldl (\<lambda>a b. a * 256 + uint b) 0 bs)"
proof -
  have "foldl (\<lambda>a b. a * 256 + uint b) i bs = i * 256 ^ length bs + int (be_val bs)" for i
  proof (induction bs arbitrary: i)
    case (Cons b bs)
    then show ?case by (simp add: algebra_simps)
  qed simp
  from this [of 0] show ?thesis by (simp add: unbe64_of_nat)
qed

section \<open>Byte strings: order and prefixes\<close>

lemma append_less_cancel [key_simps]: "p @ xs < p @ ys \<longleftrightarrow> xs < (ys :: bytes)"
  by (induction p) auto

lemma append_le_cancel [key_simps]: "p @ xs \<le> p @ ys \<longleftrightarrow> xs \<le> (ys :: bytes)"
  by (induction p) auto

lemma prefix_imp_le: "prefix p k \<Longrightarrow> p \<le> (k :: bytes)"
proof (induction p arbitrary: k)
  case Nil
  show ?case by simp
next
  case (Cons a p)
  then show ?case by (cases k) auto
qed

lemma less_append_Cons [simp]: "xs < xs @ y # (ys :: bytes)"
  by (induction xs) auto

lemma less_snoc_iff: "k < xs @ [0] \<longleftrightarrow> k \<le> (xs :: bytes)"
proof (induction xs arbitrary: k)
  case Nil
  show ?case by (cases k) (auto simp: word_less_nat_alt)
next
  case (Cons x xs)
  then show ?case by (cases k) auto
qed

lemma snoc_zero_le_iff: "xs @ [0] \<le> k \<longleftrightarrow> xs < (k :: bytes)"
  using less_snoc_iff [of k xs] by (simp add: not_less [symmetric])

section \<open>Sorted association lists\<close>

text \<open>
  An iterator of the store delivers its entries in strictly ascending key order. Two such lists
  with the same entries are the same list, so the order of a scan is determined by the contents.
\<close>

abbreviation sorted_keys :: "('k :: linorder \<times> 'v) list \<Rightarrow> bool" where
  "sorted_keys xs \<equiv> sorted_wrt (<) (map fst xs)"

lemma sorted_wrt_less_distinct: "sorted_wrt (<) (xs :: 'a :: linorder list) \<Longrightarrow> distinct xs"
  by (simp add: strict_sorted_iff)

lemma sorted_keys_unique:
  assumes "sorted_keys xs" "sorted_keys ys" "set xs = set ys"
  shows "xs = ys"
proof (rule nth_equalityI)
  have fsts: "map fst xs = map fst ys"
    by (rule strict_sorted_equal) (use assms in \<open>simp_all\<close>)
  then show len: "length xs = length ys" by (rule map_eq_imp_length_eq)
  fix i assume i: "i < length xs"
  have "fst (xs ! i) = fst (ys ! i)"
    using arg_cong [OF fsts, of "\<lambda>l. l ! i"] i len by simp
  moreover have "xs ! i \<in> set xs" using i by simp
  moreover have "ys ! i \<in> set xs" using i len by (simp add: assms(3))
  ultimately show "xs ! i = ys ! i"
    using eq_key_imp_eq_value [OF sorted_wrt_less_distinct [OF assms(1)], of "fst (xs ! i)"
        "snd (xs ! i)" "snd (ys ! i)"]
    by (metis prod.collapse)
qed

lemma map_of_sorted_keys: "sorted_keys xs \<Longrightarrow> (k, v) \<in> set xs \<longleftrightarrow> map_of xs k = Some v"
  by (simp add: sorted_wrt_less_distinct)

end
