(* ===== verification/Store.thy ===== *)
theory Store
  imports Prelude
begin

text \<open>
  The node's store (\<^verbatim>\<open>pkg/store/store.go\<close>): the layout of the keys every other component
  writes, \<^verbatim>\<open>PrefixUpperBound\<close>, and the typed conveniences over Pebble. Pebble itself is a
  third-party engine: it is the parameter \<^verbatim>\<open>E\<close> of every definition that touches it, a
  record of the calls the code makes. The locale \<^verbatim>\<open>pebble_laws\<close> states what the code
  relies on: a get returns the current value, an iterator delivers the entries between its bounds in
  strictly ascending key order, a committed batch applies its operations in order, all or nothing.
\<close>

section \<open>Pebble as a parameter\<close>

datatype goerr = PebbleError | BadLength | DecodeError

text \<open>One operation of a Pebble batch.\<close>

datatype bop = BSet bytes bytes | BDelete bytes | BDeleteRange bytes "bytes option"

text \<open>
  The calls made on \<^verbatim>\<open>*pebble.DB\<close> (and on a \<^verbatim>\<open>*pebble.Snapshot\<close>, which is a value of
  the same type: the database as it was when the snapshot was taken). \<^verbatim>\<open>ErrNotFound\<close> is
  \<open>None\<close>, every other error is an \<open>Inl\<close>; a missing upper bound is \<open>None\<close>.
\<close>

record 'db pebble =
  DB_Get :: "'db \<Rightarrow> bytes \<Rightarrow> goerr + bytes option"
  DB_NewIter :: "'db \<Rightarrow> bytes \<Rightarrow> bytes option \<Rightarrow> goerr + (bytes \<times> bytes) list"
  DB_Commit :: "'db \<Rightarrow> bop list \<Rightarrow> goerr + 'db"

definition in_bounds :: "bytes \<Rightarrow> bytes option \<Rightarrow> bytes \<Rightarrow> bool" where
  "in_bounds lo hi k \<longleftrightarrow> lo \<le> k \<and> (case hi of None \<Rightarrow> True | Some h \<Rightarrow> k < h)"

fun apply_bop :: "bop \<Rightarrow> (bytes \<rightharpoonup> bytes) \<Rightarrow> (bytes \<rightharpoonup> bytes)" where
  "apply_bop (BSet k v) m = m(k \<mapsto> v)"
| "apply_bop (BDelete k) m = m(k := None)"
| "apply_bop (BDeleteRange lo hi) m = (\<lambda>k. if in_bounds lo hi k then None else m k)"

definition apply_batch :: "bop list \<Rightarrow> (bytes \<rightharpoonup> bytes) \<Rightarrow> (bytes \<rightharpoonup> bytes)" where
  "apply_batch b m = foldl (\<lambda>m x. apply_bop x m) m b"

lemma apply_batch_Nil [simp, batch_simps]: "apply_batch [] m = m"
  by (simp add: apply_batch_def)

lemma apply_batch_append [simp, batch_simps]:
  "apply_batch (b @ c) m = apply_batch c (apply_batch b m)"
  by (simp add: apply_batch_def)

lemma apply_batch_Cons [simp, batch_simps]: "apply_batch (x # c) m = apply_batch c (apply_bop x m)"
  by (simp add: apply_batch_def)

locale pebble_laws =
  fixes E :: "('db, 'z) pebble_scheme"
    and view :: "'db \<Rightarrow> bytes \<rightharpoonup> bytes"
  assumes DB_Get_law: "DB_Get E db k = Inr (view db k)"
    and DB_NewIter_law: "\<exists>xs. DB_NewIter E db lo hi = Inr xs \<and> sorted_keys xs \<and>
      set xs = {(k, v). view db k = Some v \<and> in_bounds lo hi k}"
    and DB_Commit_law: "\<exists>db'. DB_Commit E db b = Inr db' \<and> view db' = apply_batch b (view db)"
begin

lemma DB_NewIter_cases:
  obtains xs where "DB_NewIter E db lo hi = Inr xs" "sorted_keys xs"
    "set xs = {(k, v). view db k = Some v \<and> in_bounds lo hi k}"
  using DB_NewIter_law by blast

lemma DB_NewIter_unique:
  assumes "sorted_keys xs" "set xs = {(k, v). view db k = Some v \<and> in_bounds lo hi k}"
  shows "DB_NewIter E db lo hi = Inr xs"
proof -
  obtain ys where "DB_NewIter E db lo hi = Inr ys" "sorted_keys ys"
    "set ys = {(k, v). view db k = Some v \<and> in_bounds lo hi k}"
    by (rule DB_NewIter_cases)
  moreover from this assms have "ys = xs" by (intro sorted_keys_unique) simp_all
  ultimately show ?thesis by simp
qed

lemma DB_Commit_cases:
  obtains db' where "DB_Commit E db b = Inr db'" "view db' = apply_batch b (view db)"
  using DB_Commit_law by blast

end

section \<open>Key layout\<close>

definition u64 :: "u64 \<Rightarrow> bytes" where
  "u64 n = be64 n"

definition RaftEntryKey :: "u64 \<Rightarrow> u64 \<Rightarrow> bytes" where
  "RaftEntryKey gid index = concat [str ''r/'', u64 gid, str ''/e/'', u64 index]"

definition RaftEntryPrefix :: "u64 \<Rightarrow> bytes" where
  "RaftEntryPrefix gid = concat [str ''r/'', u64 gid, str ''/e/'']"

definition RaftHardStateKey :: "u64 \<Rightarrow> bytes" where
  "RaftHardStateKey gid = concat [str ''r/'', u64 gid, str ''/h'']"

definition RaftConfStateKey :: "u64 \<Rightarrow> bytes" where
  "RaftConfStateKey gid = concat [str ''r/'', u64 gid, str ''/c'']"

definition RaftAppliedKey :: "u64 \<Rightarrow> bytes" where
  "RaftAppliedKey gid = concat [str ''r/'', u64 gid, str ''/a'']"

definition RaftSnapMetaKey :: "u64 \<Rightarrow> bytes" where
  "RaftSnapMetaKey gid = concat [str ''r/'', u64 gid, str ''/t'']"

definition RaftSnapStagingPrefix :: "u64 \<Rightarrow> bytes" where
  "RaftSnapStagingPrefix gid = concat [str ''r/'', u64 gid, str ''/ss/'']"

definition RaftSnapStagingKey :: "u64 \<Rightarrow> byte \<Rightarrow> bytes \<Rightarrow> bytes" where
  "RaftSnapStagingKey gid section key = concat [RaftSnapStagingPrefix gid, [section], key]"

definition RaftSnapStagingSectionPrefix :: "u64 \<Rightarrow> byte \<Rightarrow> bytes" where
  "RaftSnapStagingSectionPrefix gid section = concat [RaftSnapStagingPrefix gid, [section]]"

definition RaftSnapMarkerKey :: "u64 \<Rightarrow> bytes" where
  "RaftSnapMarkerKey gid = concat [str ''r/'', u64 gid, str ''/sm'']"

definition SMKey :: "u64 \<Rightarrow> bytes \<Rightarrow> bytes" where
  "SMKey gid key = concat [str ''m/'', u64 gid, str ''/k/'', key]"

definition SMPrefix :: "u64 \<Rightarrow> bytes" where
  "SMPrefix gid = concat [str ''m/'', u64 gid, str ''/k/'']"

definition IntentKey :: "u64 \<Rightarrow> bytes \<Rightarrow> bytes" where
  "IntentKey gid key = concat [str ''m/'', u64 gid, str ''/i/'', key]"

definition IntentPrefix :: "u64 \<Rightarrow> bytes" where
  "IntentPrefix gid = concat [str ''m/'', u64 gid, str ''/i/'']"

definition RevisionKey :: "u64 \<Rightarrow> bytes" where
  "RevisionKey gid = concat [str ''m/'', u64 gid, str ''/r'']"

definition HistKeyPrefix :: "u64 \<Rightarrow> bytes \<Rightarrow> bytes" where
  "HistKeyPrefix gid key = concat [str ''m/'', u64 gid, str ''/v/'', key, [0]]"

definition HistKey :: "u64 \<Rightarrow> bytes \<Rightarrow> u64 \<Rightarrow> bytes" where
  "HistKey gid key rv = concat [HistKeyPrefix gid key, u64 rv]"

definition HistPrefix :: "u64 \<Rightarrow> bytes" where
  "HistPrefix gid = concat [str ''m/'', u64 gid, str ''/v/'']"

definition MVCCCutoffKey :: "u64 \<Rightarrow> bytes" where
  "MVCCCutoffKey gid = concat [str ''m/'', u64 gid, str ''/g'']"

definition LocalKey :: "bytes \<Rightarrow> bytes" where
  "LocalKey name = concat [str ''n/'', name]"

text \<open>A named range of the store (\<^verbatim>\<open>store.Section\<close>).\<close>

record Section =
  sec_Name :: string
  sec_Prefix :: bytes

section \<open>PrefixUpperBound\<close>

text \<open>
  The loop runs over the bytes of the prefix from the last one: the first that is below
  \<^verbatim>\<open>0xff\<close> is incremented and ends the result, the ones after it are dropped.
\<close>

fun prefixUpperLoop :: "bytes \<Rightarrow> bytes option" where
  "prefixUpperLoop [] = None"
| "prefixUpperLoop (b # bs) = (if b < 0xff then Some (rev ((b + 1) # bs)) else prefixUpperLoop bs)"

definition PrefixUpperBound :: "bytes \<Rightarrow> bytes option" where
  "PrefixUpperBound pre = prefixUpperLoop (rev pre)"

section \<open>Typed access\<close>

definition Get :: "('db, 'z) pebble_scheme \<Rightarrow> 'db \<Rightarrow> bytes \<Rightarrow> goerr + bytes option" where
  "Get E db key = (case DB_Get E db key of
     Inl e \<Rightarrow> Inl e
   | Inr None \<Rightarrow> Inr None
   | Inr (Some v) \<Rightarrow> Inr (Some v))"

definition Set :: "('db, 'z) pebble_scheme \<Rightarrow> 'db \<Rightarrow> bytes \<Rightarrow> bytes \<Rightarrow> goerr + 'db" where
  "Set E db key value = DB_Commit E db [BSet key value]"

definition Delete :: "('db, 'z) pebble_scheme \<Rightarrow> 'db \<Rightarrow> bytes \<Rightarrow> goerr + 'db" where
  "Delete E db key = DB_Commit E db [BDelete key]"

definition GetU64 :: "('db, 'z) pebble_scheme \<Rightarrow> 'db \<Rightarrow> bytes \<Rightarrow> goerr + u64" where
  "GetU64 E db key = (case Get E db key of
     Inl e \<Rightarrow> Inl e
   | Inr None \<Rightarrow> Inr 0
   | Inr (Some v) \<Rightarrow> if length v \<noteq> 8 then Inl BadLength else Inr (unbe64 v))"

definition SetU64 :: "('db, 'z) pebble_scheme \<Rightarrow> 'db \<Rightarrow> bytes \<Rightarrow> u64 \<Rightarrow> goerr + 'db" where
  "SetU64 E db key n = Set E db key (u64 n)"

section \<open>Facts about the layout\<close>

lemmas key_defs = SMKey_def SMPrefix_def IntentKey_def IntentPrefix_def RevisionKey_def
  HistKeyPrefix_def HistKey_def HistPrefix_def MVCCCutoffKey_def u64_def

lemmas raft_key_defs = RaftEntryKey_def RaftEntryPrefix_def RaftHardStateKey_def
  RaftConfStateKey_def RaftAppliedKey_def RaftSnapMetaKey_def RaftSnapStagingPrefix_def
  RaftSnapStagingKey_def RaftSnapStagingSectionPrefix_def RaftSnapMarkerKey_def u64_def

text \<open>Inside one group's namespace the keys of different kinds never meet.\<close>

lemma SMKey_inject [simp, key_simps]: "SMKey g k = SMKey h l \<longleftrightarrow> g = h \<and> k = l"
  by (simp add: key_defs)

lemma IntentKey_inject [simp, key_simps]: "IntentKey g k = IntentKey h l \<longleftrightarrow> g = h \<and> k = l"
  by (simp add: key_defs)

lemma HistKey_inject [simp, key_simps]:
  "HistKey g k r = HistKey h l q \<longleftrightarrow> g = h \<and> k = l \<and> r = q"
proof -
  have "k @ 0 # be64 r = l @ 0 # be64 q \<longleftrightarrow> k = l \<and> r = q"
    using append_eq_append_conv [of k l "0 # be64 r" "0 # be64 q"] by simp
  then show ?thesis by (simp add: key_defs)
qed

lemma key_kinds_distinct [simp, key_simps]:
  "SMKey g k \<noteq> IntentKey h l" "SMKey g k \<noteq> HistKey h l r" "SMKey g k \<noteq> RevisionKey h"
  "SMKey g k \<noteq> MVCCCutoffKey h" "IntentKey g k \<noteq> HistKey h l r" "IntentKey g k \<noteq> RevisionKey h"
  "IntentKey g k \<noteq> MVCCCutoffKey h" "HistKey g k r \<noteq> RevisionKey h" "HistKey g k r \<noteq> MVCCCutoffKey h"
  "RevisionKey g \<noteq> MVCCCutoffKey h"
  by (simp_all add: key_defs)

lemmas key_kinds_distinct' [simp, key_simps] = key_kinds_distinct [symmetric]

lemma RaftAppliedKey_distinct [simp, key_simps]:
  "RaftAppliedKey g \<noteq> SMKey h k" "RaftAppliedKey g \<noteq> IntentKey h k"
  "RaftAppliedKey g \<noteq> HistKey h k r" "RaftAppliedKey g \<noteq> RevisionKey h"
  "RaftAppliedKey g \<noteq> MVCCCutoffKey h"
  by (simp_all add: key_defs raft_key_defs)

lemmas RaftAppliedKey_distinct' [simp, key_simps] = RaftAppliedKey_distinct [symmetric]

lemma SMKey_less_iff [simp, key_simps]: "SMKey g k < SMKey g l \<longleftrightarrow> k < l"
  by (simp add: key_defs append_less_cancel)

lemma SMKey_le_iff [simp, key_simps]: "SMKey g k \<le> SMKey g l \<longleftrightarrow> k \<le> l"
  by (simp add: key_defs append_le_cancel)

text \<open>Everything that starts with a group's namespace prefix is a key of that namespace.\<close>

lemma prefix_SMPrefix_iff: "prefix (SMPrefix g) x \<longleftrightarrow> (\<exists>k. x = SMKey g k)"
  by (auto simp: key_defs prefix_def)

lemma prefix_SMKey_iff: "prefix (SMKey g p) x \<longleftrightarrow> (\<exists>k. x = SMKey g k \<and> prefix p k)"
  by (auto simp: key_defs prefix_def)

lemma prefix_IntentPrefix_iff: "prefix (IntentPrefix g) x \<longleftrightarrow> (\<exists>k. x = IntentKey g k)"
  by (auto simp: key_defs prefix_def)

lemma SMKey_append: "SMKey g k = SMPrefix g @ k"
  by (simp add: key_defs)

lemma IntentKey_append: "IntentKey g k = IntentPrefix g @ k"
  by (simp add: key_defs)

lemma HistKey_append: "HistKey g k r = HistPrefix g @ k @ 0 # be64 r"
  by (simp add: key_defs)

lemma HistKeyPrefix_append: "HistKeyPrefix g k = HistPrefix g @ k @ [0]"
  by (simp add: key_defs)

lemma drop_SMKey [simp]: "drop (length (SMPrefix g)) (SMKey g k) = k"
  by (simp add: SMKey_append)

lemma drop_IntentKey [simp]: "drop (length (IntentPrefix g)) (IntentKey g k) = k"
  by (simp add: IntentKey_append)

lemma drop_HistKey [simp]: "drop (length (HistPrefix g)) (HistKey g k r) = k @ 0 # be64 r"
  by (simp add: HistKey_append)

section \<open>The upper bound of a prefix\<close>

text \<open>The loop seen from the front of the prefix.\<close>

lemma prefixUpperLoop_snoc:
  "prefixUpperLoop (xs @ [b]) = (case prefixUpperLoop xs of
     Some u \<Rightarrow> Some (b # u) | None \<Rightarrow> if b < 0xff then Some [b + 1] else None)"
  by (induction xs) auto

lemma PrefixUpperBound_Nil: "PrefixUpperBound [] = None"
  by (simp add: PrefixUpperBound_def)

lemma PrefixUpperBound_Cons:
  "PrefixUpperBound (b # bs) = (case PrefixUpperBound bs of
     Some u \<Rightarrow> Some (b # u) | None \<Rightarrow> if b < 0xff then Some [b + 1] else None)"
  by (simp add: PrefixUpperBound_def prefixUpperLoop_snoc)

lemma byte_less_succ: "(b :: byte) < 0xff \<Longrightarrow> c < b + 1 \<longleftrightarrow> c \<le> b"
  by (simp add: word_less_nat_alt word_le_nat_alt unat_word_ariths less_Suc_eq_le)

lemma byte_top: "\<not> (b :: byte) < 0xff \<Longrightarrow> b \<le> c \<Longrightarrow> c = b"
  using unsigned_less [of b, where 'a = nat] unsigned_less [of c, where 'a = nat]
  by (simp add: word_less_nat_alt word_le_nat_alt word_unat_eq_iff)

lemma prefix_iff_in_bounds: "in_bounds p (PrefixUpperBound p) k \<longleftrightarrow> prefix p k"
proof (induction p arbitrary: k)
  case Nil
  show ?case by (simp add: in_bounds_def PrefixUpperBound_Nil)
next
  case (Cons b bs)
  show ?case
  proof (cases k)
    case Nil
    then show ?thesis by (simp add: in_bounds_def)
  next
    case k: (Cons c cs)
    show ?thesis
    proof (cases "PrefixUpperBound bs")
      case None
      with Cons.IH [of cs] have "bs \<le> cs \<longleftrightarrow> prefix bs cs" by (simp add: in_bounds_def)
      with None show ?thesis
        by (cases "b < 0xff") (auto simp: k in_bounds_def PrefixUpperBound_Cons byte_less_succ dest: byte_top)
    next
      case (Some u)
      with Cons.IH [of cs] have "bs \<le> cs \<and> cs < u \<longleftrightarrow> prefix bs cs" by (simp add: in_bounds_def)
      with Some show ?thesis by (auto simp: k in_bounds_def PrefixUpperBound_Cons)
    qed
  qed
qed

end
