(* ===== verification/Watch.thy ===== *)
theory Watch
  imports Prelude
begin

text \<open>
  The change-notification hub of one raft group (\<^verbatim>\<open>pkg/kv/watch.go\<close>): a ring buffer of the
  most recent events and the live subscribers. A subscriber's Go channel is the list of the events
  it holds, at most \<^verbatim>\<open>chanCap\<close> of them; sending to a full channel drops the event, as the
  \<^verbatim>\<open>select\<close> with a default branch does. The consumer's side is \<^verbatim>\<open>recv\<close>.

  The abstract view of the ring is the list of the events it retains, oldest first; the locale
  \<^verbatim>\<open>bounded_log\<close> says that a publish appends to that list and forgets the oldest entry once
  the capacity is reached, and everything about resuming a stream follows from it.
\<close>

section \<open>Data\<close>

record Event =
  ev_Rev :: u64
  ev_Type :: string
  ev_Key :: bytes
  ev_Value :: bytes
  ev_Blob :: bool

datatype watch_err = ErrCompacted

record subscriber =
  sub_prefix :: bytes
  sub_ch :: "Event list"

record Hub =
  hub_subs :: "(int \<times> subscriber) list"
  hub_next :: int
  hub_ring :: "Event list"
  hub_head :: int
  hub_count :: int

definition zeroEvent :: Event where
  "zeroEvent = \<lparr>ev_Rev = 0, ev_Type = [], ev_Key = [], ev_Value = [], ev_Blob = False\<rparr>"

definition chanCap :: nat where
  "chanCap = 1024"

section \<open>Operations\<close>

definition NewHub :: "int \<Rightarrow> Hub" where
  "NewHub bufferSize =
     (let n = (if bufferSize \<le> 0 then 4096 else bufferSize)
      in \<lparr>hub_subs = [], hub_next = 0, hub_ring = replicate (nat n) zeroEvent, hub_head = 0, hub_count = 0\<rparr>)"

text \<open>A non-blocking send.\<close>

definition trySend :: "Event \<Rightarrow> Event list \<Rightarrow> Event list" where
  "trySend ev ch = (if length ch < chanCap then ch @ [ev] else ch)"

definition publish :: "Event \<Rightarrow> Hub \<Rightarrow> Hub" where
  "publish ev h =
     (let n = int (length (hub_ring h));
          ring = (hub_ring h)[nat (hub_head h) := ev];
          head = (hub_head h + 1) mod n;
          count = (if hub_count h < n then hub_count h + 1 else hub_count h);
          subs = map (\<lambda>(i, sub). (i, if prefix (sub_prefix sub) (ev_Key ev)
                                      then sub\<lparr>sub_ch := trySend ev (sub_ch sub)\<rparr> else sub)) (hub_subs h)
      in h\<lparr>hub_ring := ring, hub_head := head, hub_count := count, hub_subs := subs\<rparr>)"

text \<open>The slot of the oldest retained event.\<close>

definition ringStart :: "Hub \<Rightarrow> int" where
  "ringStart h = (hub_head h - hub_count h + int (length (hub_ring h))) mod int (length (hub_ring h))"

definition oldestRevLocked :: "Hub \<Rightarrow> u64" where
  "oldestRevLocked h =
     (if hub_count h = 0 then 0 else ev_Rev (hub_ring h ! nat (ringStart h)))"

text \<open>
  The replay loop: \<open>i\<close> runs from 0, \<open>n\<close> slots are left; the loop returns at the first
  event the channel has no room for.
\<close>

fun replayLoop :: "Hub \<Rightarrow> bytes \<Rightarrow> u64 \<Rightarrow> int \<Rightarrow> nat \<Rightarrow> Event list \<Rightarrow> Event list" where
  "replayLoop h pre fromRev i 0 ch = ch"
| "replayLoop h pre fromRev i (Suc n) ch =
     (let ev = hub_ring h ! nat ((ringStart h + i) mod int (length (hub_ring h)))
      in if fromRev \<le> ev_Rev ev \<and> prefix pre (ev_Key ev)
         then (if length ch < chanCap then replayLoop h pre fromRev (i + 1) n (ch @ [ev]) else ch)
         else replayLoop h pre fromRev (i + 1) n ch)"

definition replayLocked :: "Hub \<Rightarrow> bytes \<Rightarrow> u64 \<Rightarrow> Event list \<Rightarrow> Event list" where
  "replayLocked h pre fromRev ch = replayLoop h pre fromRev 0 (nat (hub_count h)) ch"

definition Subscribe :: "bytes \<Rightarrow> u64 \<Rightarrow> Hub \<Rightarrow> watch_err + int \<times> Hub" where
  "Subscribe pre fromRev h =
     (let oldest = oldestRevLocked h
      in if fromRev > 0 \<and> (oldest = 0 \<or> fromRev < oldest) then Inl ErrCompacted
         else let ch = (if fromRev > 0 then replayLocked h pre fromRev [] else []);
                  ident = hub_next h
              in Inr (ident, h\<lparr>hub_next := ident + 1,
                   hub_subs := AList.update ident \<lparr>sub_prefix = pre, sub_ch = ch\<rparr> (hub_subs h)\<rparr>))"

definition cancel :: "int \<Rightarrow> Hub \<Rightarrow> Hub" where
  "cancel ident h = h\<lparr>hub_subs := AList.delete ident (hub_subs h)\<rparr>"

text \<open>The consumer receives the next event of its channel.\<close>

definition recv :: "int \<Rightarrow> Hub \<Rightarrow> (Event \<times> Hub) option" where
  "recv ident h = (case map_of (hub_subs h) ident of
     Some sub \<Rightarrow> (case sub_ch sub of
        ev # rest \<Rightarrow> Some (ev, h\<lparr>hub_subs := AList.update ident (sub\<lparr>sub_ch := rest\<rparr>) (hub_subs h)\<rparr>)
      | [] \<Rightarrow> None)
   | None \<Rightarrow> None)"

section \<open>A log that keeps the latest entries\<close>

definition lastn :: "nat \<Rightarrow> 'a list \<Rightarrow> 'a list" where
  "lastn n xs = drop (length xs - n) xs"

lemma length_lastn [simp]: "length (lastn n xs) = min n (length xs)"
  by (simp add: lastn_def)

lemma lastn_lastn_append: "lastn n (lastn n xs @ ys) = lastn n (xs @ ys)"
  by (cases "n \<le> length xs") (auto simp: lastn_def drop_append add.commute)

lemma lastn_all: "length xs \<le> n \<Longrightarrow> lastn n xs = xs"
  by (simp add: lastn_def)

lemma lastn_split: obtains ys where "xs = ys @ lastn n xs"
  by (metis append_take_drop_id lastn_def)

locale bounded_log =
  fixes publ :: "'e \<Rightarrow> 'h \<Rightarrow> 'h"
    and events :: "'h \<Rightarrow> 'e list"
    and capacity :: "'h \<Rightarrow> nat"
    and wf :: "'h \<Rightarrow> bool"
  assumes wf_publ: "wf h \<Longrightarrow> wf (publ e h)"
    and capacity_publ: "wf h \<Longrightarrow> capacity (publ e h) = capacity h"
    and events_publ: "wf h \<Longrightarrow> events (publ e h) = lastn (capacity h) (events h @ [e])"
    and events_bound: "wf h \<Longrightarrow> length (events h) \<le> capacity h"
begin

lemma wf_fold: "wf h \<Longrightarrow> wf (fold publ es h) \<and> capacity (fold publ es h) = capacity h"
  by (induction es arbitrary: h) (simp_all add: wf_publ capacity_publ)

lemma events_fold: "wf h \<Longrightarrow> events (fold publ es h) = lastn (capacity h) (events h @ es)"
proof (induction es arbitrary: h)
  case Nil
  then show ?case by (simp add: lastn_all events_bound)
next
  case (Cons e es)
  have "events (fold publ (e # es) h) = lastn (capacity h) (events (publ e h) @ es)"
    using Cons by (simp add: wf_publ capacity_publ)
  also have "\<dots> = lastn (capacity h) ((events h @ [e]) @ es)"
    using Cons.prems by (simp only: events_publ lastn_lastn_append)
  finally show ?case by simp
qed

end

section \<open>The ring buffer is such a log\<close>

definition hub_wf :: "Hub \<Rightarrow> bool" where
  "hub_wf h \<longleftrightarrow> hub_ring h \<noteq> [] \<and> 0 \<le> hub_head h \<and> hub_head h < int (length (hub_ring h)) \<and>
     0 \<le> hub_count h \<and> hub_count h \<le> int (length (hub_ring h))"

definition hub_slot :: "Hub \<Rightarrow> int \<Rightarrow> nat" where
  "hub_slot h i = nat ((ringStart h + i) mod int (length (hub_ring h)))"

definition hub_events :: "Hub \<Rightarrow> Event list" where
  "hub_events h = map (\<lambda>i. hub_ring h ! hub_slot h (int i)) [0..<nat (hub_count h)]"

lemma hub_slot_eq:
  "hub_slot h i = nat ((hub_head h - hub_count h + i) mod int (length (hub_ring h)))"
proof -
  let ?n = "int (length (hub_ring h))"
  have "(ringStart h + i) mod ?n = (hub_head h - hub_count h + ?n + i) mod ?n"
    unfolding ringStart_def by (rule mod_add_left_eq)
  also have "\<dots> = ((hub_head h - hub_count h + i) + ?n) mod ?n"
    by (simp add: algebra_simps)
  also have "\<dots> = (hub_head h - hub_count h + i) mod ?n"
    by (rule mod_add_self2)
  finally show ?thesis by (simp add: hub_slot_def)
qed

lemma hub_slot_less: "hub_wf h \<Longrightarrow> hub_slot h i < length (hub_ring h)"
  by (simp add: hub_slot_def hub_wf_def nat_less_iff)

lemma hub_wf_NewHub: "hub_wf (NewHub n)"
  by (simp add: hub_wf_def NewHub_def Let_def)

lemma hub_wf_publish: "hub_wf h \<Longrightarrow> hub_wf (publish ev h)"
  by (auto simp: hub_wf_def publish_def Let_def)

text \<open>The newest event sits in the slot before the head; every other slot keeps its event.\<close>

lemma hub_slot_head: "hub_wf h \<Longrightarrow> hub_slot h (hub_count h) = nat (hub_head h)"
  by (simp add: hub_slot_eq hub_wf_def)

lemma hub_slot_inj:
  assumes "hub_wf h" "0 \<le> i" "i < int (length (hub_ring h))" "0 \<le> j" "j < int (length (hub_ring h))"
    "hub_slot h i = hub_slot h j"
  shows "i = j"
proof -
  let ?n = "int (length (hub_ring h))" and ?b = "hub_head h - hub_count h"
  have n: "0 < ?n" using assms(1) by (simp add: hub_wf_def)
  have "(?b + i) mod ?n = (?b + j) mod ?n"
    using assms(6) n by (simp add: hub_slot_eq nat_eq_iff2)
  then have "?n dvd (?b + i) - (?b + j)" by (simp only: mod_eq_dvd_iff)
  then have "?n dvd i - j" by simp
  then show ?thesis
    using assms(2-5) zdvd_imp_le [of ?n "i - j"] zdvd_imp_le [of ?n "j - i"] dvd_diff_commute [of ?n i j]
    by (cases i j rule: linorder_cases) auto
qed

lemma hub_events_nth:
  "i < length (hub_events h) \<Longrightarrow> hub_events h ! i = hub_ring h ! hub_slot h (int i)"
  by (simp add: hub_events_def)

definition hub_full :: "Hub \<Rightarrow> int" where
  "hub_full h = (if hub_count h < int (length (hub_ring h)) then 0 else 1)"

lemma publish_simps:
  "hub_ring (publish ev h) = (hub_ring h)[nat (hub_head h) := ev]"
  "hub_head (publish ev h) = (hub_head h + 1) mod int (length (hub_ring h))"
  "hub_count (publish ev h) = hub_count h + 1 - hub_full h"
  by (simp_all add: publish_def Let_def hub_full_def)

lemma hub_slot_publish: "hub_slot (publish ev h) i = hub_slot h (i + hub_full h)"
proof -
  let ?n = "int (length (hub_ring h))"
  have "((hub_head h + 1) mod ?n - (hub_count h + 1 - hub_full h) + i) mod ?n =
    (hub_head h + 1 - (hub_count h + 1 - hub_full h) + i) mod ?n"
    by (metis mod_add_left_eq mod_diff_left_eq)
  then show ?thesis by (simp add: hub_slot_eq publish_simps algebra_simps)
qed

text \<open>The slots of the events that stay are not the slot the new event is written to.\<close>

lemma hub_slot_kept:
  assumes "hub_wf h" "0 \<le> i" "i + hub_full h < hub_count h"
  shows "hub_slot h (i + hub_full h) \<noteq> nat (hub_head h)"
proof (cases "hub_count h < int (length (hub_ring h))")
  case True
  then show ?thesis
    using hub_slot_inj [OF assms(1), of i "hub_count h"] hub_slot_head [OF assms(1)] assms
    by (auto simp: hub_full_def)
next
  case False
  then have "hub_count h = int (length (hub_ring h))" using assms(1) by (simp add: hub_wf_def)
  then have "hub_slot h 0 = nat (hub_head h)"
    using hub_slot_head [OF assms(1)] by (simp add: hub_slot_eq)
  then show ?thesis
    using hub_slot_inj [OF assms(1), of "i + 1" 0] assms False by (auto simp: hub_full_def hub_wf_def)
qed

lemma hub_events_publish:
  assumes "hub_wf h"
  shows "hub_events (publish ev h) = lastn (length (hub_ring h)) (hub_events h @ [ev])"
proof (rule nth_equalityI)
  let ?h = "publish ev h" and ?n = "length (hub_ring h)" and ?d = "hub_full h"
  have wf: "0 < int ?n" "0 \<le> hub_head h" "0 \<le> hub_count h" "hub_count h \<le> int ?n"
    using assms by (simp_all add: hub_wf_def)
  have off: "length (hub_events h @ [ev]) - ?n = nat ?d"
    using wf by (auto simp: hub_events_def hub_full_def)
  show lens: "length (hub_events ?h) = length (lastn ?n (hub_events h @ [ev]))"
    using wf by (auto simp: hub_events_def publish_simps hub_full_def)
  fix i assume i: "i < length (hub_events ?h)"
  then have ic: "int i + ?d < hub_count h + 1" by (simp add: hub_events_def publish_simps)
  have "lastn ?n (hub_events h @ [ev]) ! i = (hub_events h @ [ev]) ! (nat ?d + i)"
    unfolding lastn_def off using i lens by (intro nth_drop) (simp add: hub_events_def hub_full_def split: if_splits)
  moreover have "hub_events ?h ! i = (hub_ring h)[nat (hub_head h) := ev] ! hub_slot h (int i + ?d)"
    using hub_events_nth [OF i] by (simp add: hub_slot_publish publish_simps)
  moreover have "\<dots> = (hub_events h @ [ev]) ! (nat ?d + i)"
  proof (cases "int i + ?d = hub_count h")
    case True
    then have "nat ?d + i = length (hub_events h)"
      using wf by (simp add: hub_events_def hub_full_def split: if_splits)
    then show ?thesis
      using hub_slot_head [OF assms] hub_slot_less [OF assms, of "hub_count h"] True by simp
  next
    case False
    then have "int i + ?d < hub_count h" using ic by simp
    then show ?thesis
      using hub_slot_kept [OF assms, of "int i"] hub_events_nth [of "nat ?d + i" h]
      by (auto simp: nth_append hub_full_def hub_events_def add.commute split: if_splits)
  qed
  ultimately show "hub_events ?h ! i = lastn ?n (hub_events h @ [ev]) ! i" by simp
qed

interpretation hub: bounded_log publish hub_events "\<lambda>h. length (hub_ring h)" hub_wf
proof unfold_locales
  fix h e assume "hub_wf h"
  then show "hub_wf (publish e h)" by (rule hub_wf_publish)
  show "length (hub_ring (publish e h)) = length (hub_ring h)" by (simp add: publish_def Let_def)
  show "hub_events (publish e h) = lastn (length (hub_ring h)) (hub_events h @ [e])"
    by (rule hub_events_publish) fact
  show "length (hub_events h) \<le> length (hub_ring h)"
    using \<open>hub_wf h\<close> by (auto simp: hub_events_def hub_wf_def nat_le_iff)
qed

section \<open>Replay and resume\<close>

definition wanted :: "bytes \<Rightarrow> u64 \<Rightarrow> Event \<Rightarrow> bool" where
  "wanted pre fromRev ev \<longleftrightarrow> fromRev \<le> ev_Rev ev \<and> prefix pre (ev_Key ev)"

lemma replayLoop_eq:
  "length ch \<le> chanCap \<Longrightarrow> replayLoop h pre fromRev (int i) n ch =
     take chanCap (ch @ filter (wanted pre fromRev) (map (\<lambda>j. hub_ring h ! hub_slot h (int j)) [i..<i + n]))"
proof (induction n arbitrary: i ch)
  case 0
  then show ?case by simp
next
  case (Suc n)
  let ?ev = "hub_ring h ! hub_slot h (int i)"
  have upt: "[i..<i + Suc n] = i # [Suc i..<Suc i + n]" by (simp add: upt_rec)
  have nxt: "int i + 1 = int (Suc i)" by simp
  show ?case
  proof (cases "wanted pre fromRev ?ev")
    case False
    then have "replayLoop h pre fromRev (int i) (Suc n) ch = replayLoop h pre fromRev (int (Suc i)) n ch"
      by (auto simp: wanted_def hub_slot_def Let_def nxt)
    with False Suc.IH [OF Suc.prems, of "Suc i"] show ?thesis
      unfolding upt by (simp del: upt_Suc replayLoop.simps)
  next
    case True
    show ?thesis
    proof (cases "length ch < chanCap")
      case room: True
      with True have "replayLoop h pre fromRev (int i) (Suc n) ch =
        replayLoop h pre fromRev (int (Suc i)) n (ch @ [?ev])"
        by (simp add: wanted_def hub_slot_def Let_def nxt)
      with True room Suc.IH [of "ch @ [?ev]" "Suc i"] show ?thesis
        unfolding upt by (simp del: upt_Suc replayLoop.simps)
    next
      case False
      with True Suc.prems show ?thesis by (simp add: wanted_def hub_slot_def Let_def)
    qed
  qed
qed

lemma replayLocked_eq:
  "replayLocked h pre fromRev [] = take chanCap (filter (wanted pre fromRev) (hub_events h))"
  using replayLoop_eq [of "[]" h pre fromRev 0] by (simp add: replayLocked_def hub_events_def)

lemma oldestRevLocked_eq:
  assumes "hub_wf h"
  shows "oldestRevLocked h = (case hub_events h of [] \<Rightarrow> 0 | e # _ \<Rightarrow> ev_Rev e)"
proof (cases "hub_count h = 0")
  case True
  then show ?thesis by (simp add: oldestRevLocked_def hub_events_def)
next
  case False
  with assms have c: "0 < nat (hub_count h)" by (auto simp: hub_wf_def)
  have "0 \<le> ringStart h" "ringStart h < int (length (hub_ring h))"
    using assms by (simp_all add: ringStart_def hub_wf_def)
  then have "hub_slot h 0 = nat (ringStart h)" by (simp add: hub_slot_def)
  with c False show ?thesis by (simp add: oldestRevLocked_def hub_events_def upt_rec [of 0])
qed

lemma hub_events_NewHub [simp]: "hub_events (NewHub n) = []"
  by (simp add: hub_events_def NewHub_def Let_def)

definition hub_capacity :: "int \<Rightarrow> nat" where
  "hub_capacity n = (if n \<le> 0 then 4096 else nat n)"

lemma length_ring_NewHub: "length (hub_ring (NewHub n)) = hub_capacity n"
  by (simp add: NewHub_def Let_def hub_capacity_def)

lemma hub_events_published:
  "hub_events (fold publish es (NewHub n)) = lastn (hub_capacity n) es"
  using hub.events_fold [OF hub_wf_NewHub, of es n] by (simp add: length_ring_NewHub)

lemma hub_wf_published: "hub_wf (fold publish es (NewHub n))"
  using hub.wf_fold [OF hub_wf_NewHub] by blast

lemma Subscribe_channel:
  assumes "Subscribe pre fromRev h = Inr (i, h')"
  shows "map_of (hub_subs h') i = Some \<lparr>sub_prefix = pre,
     sub_ch = (if fromRev > 0 then replayLocked h pre fromRev [] else [])\<rparr>"
  using assms by (auto simp: Subscribe_def Let_def update_conv split: if_splits)

lemma sorted_filter_wanted_Nil:
  assumes "\<forall>y \<in> set ys. ev_Rev y < fromRev"
  shows "filter (wanted pre fromRev) ys = []"
  using assms by (induction ys) (auto simp: wanted_def)


text \<open>Two events and a hub that holds both, for the closed instances below.\<close>

definition demo_events :: "Event list" where
  "demo_events =
     [\<lparr>ev_Rev = 1, ev_Type = ''put'', ev_Key = str ''a'', ev_Value = [], ev_Blob = False\<rparr>,
      \<lparr>ev_Rev = 2, ev_Type = ''put'', ev_Key = str ''b'', ev_Value = [], ev_Blob = False\<rparr>]"


text \<open>
  The boundary of the resume buffer. When the event before the retained window carries the
  same revision as the oldest retained event (one command that wrote several keys, part of it
  evicted), a resume from exactly that revision is accepted, and the replay starts at the window: the
  evicted event is not delivered although it has the requested revision.
\<close>

theorem watch_resume_boundary:
  assumes "length zs = hub_capacity n" and "0 < ev_Rev a" and "ev_Rev (hd zs) = ev_Rev a"
  shows "\<exists>i h' sub. Subscribe [] (ev_Rev a) (fold publish (ys @ a # zs) (NewHub n)) = Inr (i, h') \<and>
    map_of (hub_subs h') i = Some sub \<and>
    sub_ch sub = take chanCap (filter (wanted [] (ev_Rev a)) zs) \<and> wanted [] (ev_Rev a) a"
proof -
  let ?h = "fold publish (ys @ a # zs) (NewHub n)"
  have ev: "hub_events ?h = zs"
    using assms(1) by (simp only: hub_events_published) (simp add: lastn_def)
  have "zs \<noteq> []" using assms(1) by (auto simp: hub_capacity_def split: if_splits)
  then have "oldestRevLocked ?h = ev_Rev a"
    using oldestRevLocked_eq [OF hub_wf_published, of "ys @ a # zs" n] ev assms(3) by (cases zs) simp_all
  moreover have "ev_Rev a \<noteq> 0" using assms(2) by auto
  ultimately obtain i h' where "Subscribe [] (ev_Rev a) ?h = Inr (i, h')"
    using assms(2) by (simp del: fold_append add: Subscribe_def Let_def)
  with Subscribe_channel [OF this] assms(2) ev show ?thesis
    by (auto simp del: fold_append simp: replayLocked_eq wanted_def)
qed

theorem watch_resume_boundary_witness:
  "\<exists>a b i h' sub. a \<noteq> b \<and>
    Subscribe [] 7 (fold publish ([] @ a # [b]) (NewHub 1)) = Inr (i, h') \<and>
    map_of (hub_subs h') i = Some sub \<and>
    sub_ch sub = take chanCap (filter (wanted [] 7) [b]) \<and> wanted [] 7 a"
proof -
  let ?a = "zeroEvent\<lparr>ev_Rev := 7, ev_Key := str ''a''\<rparr>" and ?b = "zeroEvent\<lparr>ev_Rev := 7, ev_Key := str ''b''\<rparr>"
  have "?a \<noteq> ?b" by (simp add: zeroEvent_def)
  moreover have "ev_Rev ?a = 7" by simp
  ultimately show ?thesis
    using watch_resume_boundary [of "[?b]" 1 ?a "[]", unfolded \<open>ev_Rev ?a = 7\<close>]
    unfolding hub_capacity_def by fastforce
qed

section \<open>Live delivery\<close>

lemma map_of_publish:
  "map_of (hub_subs (publish ev h)) i = map_option (\<lambda>sub. if prefix (sub_prefix sub) (ev_Key ev)
     then sub\<lparr>sub_ch := trySend ev (sub_ch sub)\<rparr> else sub) (map_of (hub_subs h) i)"
proof -
  have "map_of (map (\<lambda>(i, sub). (i, f sub)) xs) i = map_option f (map_of xs i)"
    for f :: "subscriber \<Rightarrow> subscriber" and xs
    by (induction xs) auto
  then show ?thesis by (simp add: publish_def Let_def)
qed

text \<open>
  Live delivery is ordered and complete up to the channel's capacity: while a subscriber does
  not drain its channel, publishing \<open>es\<close> appends to it exactly the events whose key has the
  subscriber's prefix, in publish order, and what does not fit is dropped from the end.
\<close>

theorem watch_live_delivery:
  assumes "map_of (hub_subs h) i = Some sub" and "length (sub_ch sub) \<le> chanCap"
  shows "map_of (hub_subs (fold publish es h)) i = Some (sub\<lparr>sub_ch :=
    take chanCap (sub_ch sub @ filter (\<lambda>ev. prefix (sub_prefix sub) (ev_Key ev)) es)\<rparr>)"
  using assms
proof (induction es arbitrary: h sub)
  case Nil
  then show ?case by simp
next
  case (Cons ev es)
  let ?sub = "if prefix (sub_prefix sub) (ev_Key ev)
    then sub\<lparr>sub_ch := trySend ev (sub_ch sub)\<rparr> else sub"
  have "map_of (hub_subs (publish ev h)) i = Some ?sub"
    using Cons.prems by (simp add: map_of_publish)
  moreover have "length (sub_ch ?sub) \<le> chanCap"
    using Cons.prems by (simp add: trySend_def)
  ultimately show ?case
    using Cons.IH [of "publish ev h" ?sub] Cons.prems by (auto simp: trySend_def take_Cons')
qed

theorem watch_live_delivery_witness:
  "\<exists>sub. map_of (hub_subs (fold publish demo_events
      ((NewHub 1)\<lparr>hub_subs := [(0, \<lparr>sub_prefix = str ''b'', sub_ch = []\<rparr>)]\<rparr>))) 0 = Some sub \<and>
    sub_ch sub = [demo_events ! 1]"
  using watch_live_delivery [of "(NewHub 1)\<lparr>hub_subs := [(0, \<lparr>sub_prefix = str ''b'', sub_ch = []\<rparr>)]\<rparr>"
      0 "\<lparr>sub_prefix = str ''b'', sub_ch = []\<rparr>" demo_events]
  by (simp add: demo_events_def chanCap_def)

end
