(* ===== verification/KV.thy ===== *)
theory KV
  imports Store Watch
begin

text \<open>
  The replicated state machine of one raft group (\<^verbatim>\<open>pkg/kv\<close>): its data, the reads of
  \<^verbatim>\<open>localread.go\<close> and \<^verbatim>\<open>mvcc.go\<close>, and every command that \<^verbatim>\<open>Apply\<close>
  dispatches to. This theory holds the definitions; the theories after it prove what they do.

  A state machine value is the struct \<^verbatim>\<open>SM\<close> with the committed database in it. An
  operation takes the struct and the batch under construction and returns both, as the Go methods
  mutate them: reads see the committed database only, writes go to the batch, which the raft layer
  commits after the command (\<^verbatim>\<open>applyEntry\<close> at the end). Stored values are JSON. The
  encoders and decoders are fields of the environment \<^verbatim>\<open>E\<close>, next to Pebble, and the two
  package variables that tune history are fields too.

  A Go map is an association list in the order an iteration over it takes.
\<close>

section \<open>Data\<close>

record Record =
  r_Rev :: u64
  r_Value :: bytes
  r_Blob :: bool

record TxWrite =
  w_Key :: bytes
  w_Value :: bytes
  w_Delete :: bool
  w_Blob :: bool

record Op =
  o_Type :: string
  o_Key :: bytes
  o_Value :: bytes
  o_Blob :: bool
  o_Start :: bytes
  o_End :: bytes
  o_AtRev :: u64
  o_Prefix :: bytes
  o_Cursor :: bytes
  o_Limit :: int
  o_TxID :: bytes
  o_Reads :: "(bytes \<times> u64) list"
  o_Writes :: "TxWrite list"
  o_Resource :: bytes
  o_Holder :: bytes
  o_Mode :: bytes
  o_TTLms :: i64
  o_NowMs :: i64
  o_Pairs :: "(bytes \<times> Record) list"

record ListEntry =
  le_Key :: bytes
  le_Record :: Record

record Result =
  res_Err :: string
  res_Rev :: u64
  res_Record :: "Record option"
  res_Fencing :: u64
  res_Conflict :: bytes
  res_ShardRev :: u64
  res_Entries :: "ListEntry list"

record intent =
  in_TxID :: bytes
  in_Writes :: "TxWrite list"

record lockState =
  l_Mode :: bytes
  l_Holders :: "(bytes \<times> i64) list"
  l_Fencing :: u64

record freezeRange =
  f_Start :: bytes
  f_End :: bytes

record histVersion =
  h_Rev :: u64
  h_Value :: bytes
  h_Blob :: bool
  h_Deleted :: bool

text \<open>The error codes of \<^verbatim>\<open>Result.Err\<close>.\<close>

definition ErrConflict :: string where "ErrConflict = ''Conflict''"
definition ErrLockHeld :: string where "ErrLockHeld = ''LockHeld''"
definition ErrNotHolder :: string where "ErrNotHolder = ''NotHolder''"
definition ErrValueTooLong :: string where "ErrValueTooLong = ''ValueTooLarge''"
definition ErrTxTooOld :: string where "ErrTxTooOld = ''TxTooOld''"
definition ErrShardSplitting :: string where "ErrShardSplitting = ''ShardSplitting''"

lemmas err_defs = ErrConflict_def ErrLockHeld_def ErrNotHolder_def ErrValueTooLong_def
  ErrTxTooOld_def ErrShardSplitting_def

text \<open>The zero \<^verbatim>\<open>Result\<close>, and one that carries only an error code.\<close>

definition noResult :: Result where
  "noResult = \<lparr>res_Err = [], res_Rev = 0, res_Record = None, res_Fencing = 0, res_Conflict = [],
     res_ShardRev = 0, res_Entries = []\<rparr>"

abbreviation errResult :: "string \<Rightarrow> Result" where
  "errResult e \<equiv> noResult\<lparr>res_Err := e\<rparr>"

abbreviation revResult :: "u64 \<Rightarrow> Result" where
  "revResult n \<equiv> noResult\<lparr>res_Rev := n\<rparr>"

section \<open>The environment\<close>

text \<open>
  Pebble's calls, \<^verbatim>\<open>json.Marshal\<close> and \<^verbatim>\<open>json.Unmarshal\<close> at the types the code
  stores (\<open>None\<close> is a decoding error), and the variables \<^verbatim>\<open>MVCCHistoryRevisions\<close> and
  \<^verbatim>\<open>MVCCGCEvery\<close>, which the code allows to be set once at process start.
\<close>

record 'db env = "'db pebble" +
  marshalRecord :: "Record \<Rightarrow> bytes"
  unmarshalRecord :: "bytes \<Rightarrow> Record option"
  marshalHist :: "histVersion \<Rightarrow> bytes"
  unmarshalHist :: "bytes \<Rightarrow> histVersion option"
  marshalIntent :: "intent \<Rightarrow> bytes"
  unmarshalIntent :: "bytes \<Rightarrow> intent option"
  marshalLock :: "lockState \<Rightarrow> bytes"
  unmarshalLock :: "bytes \<Rightarrow> lockState option"
  marshalFreeze :: "freezeRange \<Rightarrow> bytes"
  unmarshalFreeze :: "bytes \<Rightarrow> freezeRange option"
  unmarshalOp :: "bytes \<Rightarrow> Op option"
  unmarshalCommand :: "bytes \<Rightarrow> (bytes \<times> bytes) option"
  MVCCHistoryRevisions :: int
  MVCCGCEvery :: int

record 'db SM =
  sm_gid :: u64
  sm_st :: 'db
  sm_hub :: "Hub option"
  sm_maxValue :: int
  sm_ops :: u64
  sm_rev :: u64
  sm_cutoff :: u64
  sm_freeze :: "freezeRange option"

type_synonym 'db work = "'db SM \<times> bop list"

definition lockKeyPrefix :: bytes where
  "lockKeyPrefix = str ''locks/''"

section \<open>Opening a state machine\<close>

text \<open>The last byte of the revision key selects the singleton.\<close>

definition freezeStateKey :: "u64 \<Rightarrow> bytes" where
  "freezeStateKey gid = (let k = RevisionKey gid in k[length k - 1 := of_char CHR ''f''])"

definition loadFreeze :: "'db env \<Rightarrow> 'db \<Rightarrow> u64 \<Rightarrow> goerr + freezeRange option" where
  "loadFreeze E st gid = (case Get E st (freezeStateKey gid) of
     Inl e \<Rightarrow> Inl e
   | Inr None \<Rightarrow> Inr None
   | Inr (Some raw) \<Rightarrow> (case unmarshalFreeze E raw of
        None \<Rightarrow> Inl DecodeError
      | Some fr \<Rightarrow> Inr (Some fr)))"

definition NewSM :: "'db env \<Rightarrow> u64 \<Rightarrow> 'db \<Rightarrow> Hub option \<Rightarrow> int \<Rightarrow> goerr + 'db SM" where
  "NewSM E gid st hub maxValue = (case GetU64 E st (RevisionKey gid) of
     Inl e \<Rightarrow> Inl e
   | Inr rv \<Rightarrow> (case GetU64 E st (MVCCCutoffKey gid) of
        Inl e \<Rightarrow> Inl e
      | Inr co \<Rightarrow> (case loadFreeze E st gid of
           Inl e \<Rightarrow> Inl e
         | Inr fr \<Rightarrow> Inr \<lparr>sm_gid = gid, sm_st = st, sm_hub = hub, sm_maxValue = maxValue,
              sm_ops = 0, sm_rev = rv, sm_cutoff = co, sm_freeze = fr\<rparr>)))"

section \<open>Reads of committed state\<close>

definition readRecordFrom :: "'db env \<Rightarrow> 'db SM \<Rightarrow> 'db \<Rightarrow> bytes \<Rightarrow> goerr + Record option" where
  "readRecordFrom E s src key = (case DB_Get E src (SMKey (sm_gid s) key) of
     Inl e \<Rightarrow> Inl e
   | Inr None \<Rightarrow> Inr None
   | Inr (Some raw) \<Rightarrow> (case unmarshalRecord E raw of
        None \<Rightarrow> Inl DecodeError
      | Some r \<Rightarrow> Inr (Some r)))"

definition readRecord :: "'db env \<Rightarrow> 'db SM \<Rightarrow> bytes \<Rightarrow> goerr + Record option" where
  "readRecord E s key = (case Get E (sm_st s) (SMKey (sm_gid s) key) of
     Inl e \<Rightarrow> Inl e
   | Inr None \<Rightarrow> Inr None
   | Inr (Some raw) \<Rightarrow> (case unmarshalRecord E raw of
        None \<Rightarrow> Inl DecodeError
      | Some r \<Rightarrow> Inr (Some r)))"

definition counterFrom :: "'db env \<Rightarrow> 'db \<Rightarrow> bytes \<Rightarrow> goerr + u64" where
  "counterFrom E src key = (case DB_Get E src key of
     Inl e \<Rightarrow> Inl e
   | Inr None \<Rightarrow> Inr 0
   | Inr (Some raw) \<Rightarrow> if length raw \<noteq> 8 then Inl BadLength else Inr (unbe64 raw))"

text \<open>\<^verbatim>\<open>if limit <= 0 || limit > 10000 { limit = 1000 }\<close>\<close>

definition clampLimit :: "int \<Rightarrow> nat" where
  "clampLimit limit = (if limit \<le> 0 \<or> limit > 10000 then 1000 else nat limit)"

fun scanLoop :: "'db env \<Rightarrow> nat \<Rightarrow> nat \<Rightarrow> (bytes \<times> bytes) list \<Rightarrow> ListEntry list \<Rightarrow>
    goerr + ListEntry list" where
  "scanLoop E prefixLen limit [] out = Inr out"
| "scanLoop E prefixLen limit ((k, v) # rest) out =
     (if length out < limit
      then (case unmarshalRecord E v of
              None \<Rightarrow> Inl DecodeError
            | Some r \<Rightarrow> scanLoop E prefixLen limit rest
                (out @ [\<lparr>le_Key = drop prefixLen k, le_Record = r\<rparr>]))
      else Inr out)"

definition scanLatest :: "'db env \<Rightarrow> 'db SM \<Rightarrow> 'db \<Rightarrow> bytes \<Rightarrow> bytes option \<Rightarrow> int \<Rightarrow>
    goerr + ListEntry list" where
  "scanLatest E s src lower upper limit = (case DB_NewIter E src lower upper of
     Inl e \<Rightarrow> Inl e
   | Inr xs \<Rightarrow> scanLoop E (length (SMPrefix (sm_gid s))) (clampLimit limit) xs [])"

definition listLatestFrom :: "'db env \<Rightarrow> 'db SM \<Rightarrow> 'db \<Rightarrow> bytes \<Rightarrow> bytes \<Rightarrow> int \<Rightarrow>
    goerr + ListEntry list" where
  "listLatestFrom E s src pre cursor limit =
     (let lower = (if cursor \<noteq> [] then SMKey (sm_gid s) cursor @ [0] else SMKey (sm_gid s) pre);
          upper = PrefixUpperBound (SMKey (sm_gid s) pre)
      in scanLatest E s src lower upper limit)"

definition listRangeFrom :: "'db env \<Rightarrow> 'db SM \<Rightarrow> 'db \<Rightarrow> bytes \<Rightarrow> bytes \<Rightarrow> bytes \<Rightarrow> int \<Rightarrow>
    goerr + ListEntry list" where
  "listRangeFrom E s src start stop cursor limit =
     (let lower = (if cursor \<noteq> [] \<and> start \<le> cursor then SMKey (sm_gid s) cursor @ [0]
                   else SMKey (sm_gid s) start);
          upper = (if stop \<noteq> [] then Some (SMKey (sm_gid s) stop)
                   else PrefixUpperBound (SMPrefix (sm_gid s)))
      in scanLatest E s src lower upper limit)"

section \<open>Versioned reads\<close>

text \<open>
  \<^verbatim>\<open>readAt\<close>: the latest record when it is old enough, otherwise the newest history entry of
  the key at or below \<open>r\<close>. The reverse walk skips keys of another length (entries of a longer key
  that happens to share the prefix).
\<close>

fun readAtScan :: "'db env \<Rightarrow> nat \<Rightarrow> (bytes \<times> bytes) list \<Rightarrow> Record option" where
  "readAtScan E n [] = None"
| "readAtScan E n ((k, v) # rest) =
     (if length k \<noteq> n then readAtScan E n rest
      else (case unmarshalHist E v of
              None \<Rightarrow> None
            | Some hv \<Rightarrow> if h_Deleted hv then None
                else Some \<lparr>r_Rev = h_Rev hv, r_Value = h_Value hv, r_Blob = h_Blob hv\<rparr>))"

definition readAtHist :: "'db env \<Rightarrow> 'db SM \<Rightarrow> 'db \<Rightarrow> bytes \<Rightarrow> u64 \<Rightarrow> goerr + Record option" where
  "readAtHist E s src key r =
     (let lower = HistKeyPrefix (sm_gid s) key;
          upper = (if r = - 1 then PrefixUpperBound lower else Some (HistKey (sm_gid s) key (r + 1)))
      in case DB_NewIter E src lower upper of
           Inl e \<Rightarrow> Inl e
         | Inr xs \<Rightarrow> Inr (readAtScan E (length lower + 8) (rev xs)))"

definition readAt :: "'db env \<Rightarrow> 'db SM \<Rightarrow> 'db \<Rightarrow> bytes \<Rightarrow> u64 \<Rightarrow> goerr + Record option" where
  "readAt E s src key r = (case readRecordFrom E s src key of
     Inl e \<Rightarrow> Inl e
   | Inr (Some rec) \<Rightarrow> if r_Rev rec \<le> r then Inr (Some rec) else readAtHist E s src key r
   | Inr None \<Rightarrow> readAtHist E s src key r)"

definition applyGetAt :: "'db env \<Rightarrow> 'db SM \<Rightarrow> Op \<Rightarrow> Result" where
  "applyGetAt E s op =
     (if o_AtRev op < sm_cutoff s then errResult ErrTxTooOld
      else (case readAt E s (sm_st s) (o_Key op) (o_AtRev op) of
              Inl e \<Rightarrow> errResult ''Internal''
            | Inr rec \<Rightarrow> noResult\<lparr>res_ShardRev := o_AtRev op, res_Record := rec\<rparr>))"

text \<open>
  \<^verbatim>\<open>parseHist\<close>: the user key and the revision of a history key with the namespace prefix
  removed.
\<close>

definition parseHist :: "nat \<Rightarrow> bytes \<Rightarrow> (bytes \<times> u64) option" where
  "parseHist histPrefixLen full =
     (let k = drop histPrefixLen full
      in if length k < 9 \<or> k ! (length k - 9) \<noteq> 0 then None
         else Some (take (length k - 9) k, unbe64 (drop (length k - 8) k)))"

text \<open>
  The inner loop of \<^verbatim>\<open>listAt\<close>: consume the history entries of the key \<open>k\<close>, keeping the last
  one at or below \<open>r\<close>; malformed keys are skipped. It returns the remaining entries.
\<close>

fun gatherHist :: "'db env \<Rightarrow> nat \<Rightarrow> bytes \<Rightarrow> u64 \<Rightarrow> (bytes \<times> bytes) list \<Rightarrow> histVersion option \<Rightarrow>
    histVersion option \<times> (bytes \<times> bytes) list" where
  "gatherHist E n k r [] best = (best, [])"
| "gatherHist E n k r ((hk, v) # hs) best = (case parseHist n hk of
     None \<Rightarrow> gatherHist E n k r hs best
   | Some (histKey, histRev) \<Rightarrow>
       if histKey = k
       then gatherHist E n k r hs
         (if histRev \<le> r then (case unmarshalHist E v of Some hv \<Rightarrow> Some hv | None \<Rightarrow> best) else best)
       else (best, (hk, v) # hs))"

lemma gatherHist_shorter: "length (snd (gatherHist E n k r hs best)) \<le> length hs"
proof (induction hs arbitrary: best)
  case Nil
  show ?case by simp
next
  case (Cons x hs)
  obtain hk v where x: "x = (hk, v)" by (cases x)
  show ?case
    using Cons.IH [of best] Cons.IH [of "case unmarshalHist E v of Some hv \<Rightarrow> Some hv | None \<Rightarrow> best"]
    by (auto simp: x split: option.splits)
qed

lemma gatherHist_head:
  assumes "hs \<noteq> []" "parseHist n (fst (hd hs)) = Some (k, rv)"
  shows "length (snd (gatherHist E n k r hs best)) < length hs"
  using assms by (cases hs) (auto simp: less_Suc_eq_le gatherHist_shorter)

text \<open>The version of \<open>k\<close> that was visible at \<open>r\<close>, from the latest record and the best history entry.\<close>

definition visibleAt :: "u64 \<Rightarrow> bytes \<Rightarrow> Record option \<Rightarrow> histVersion option \<Rightarrow> ListEntry list" where
  "visibleAt r k latest best = (case latest of
     Some rec \<Rightarrow> if r_Rev rec \<le> r then [\<lparr>le_Key = k, le_Record = rec\<rparr>]
        else (case best of
          Some hv \<Rightarrow> if \<not> h_Deleted hv
            then [\<lparr>le_Key = k, le_Record = \<lparr>r_Rev = h_Rev hv, r_Value = h_Value hv, r_Blob = h_Blob hv\<rparr>\<rparr>]
            else []
        | None \<Rightarrow> [])
   | None \<Rightarrow> (case best of
          Some hv \<Rightarrow> if \<not> h_Deleted hv
            then [\<lparr>le_Key = k, le_Record = \<lparr>r_Rev = h_Rev hv, r_Value = h_Value hv, r_Blob = h_Blob hv\<rparr>\<rparr>]
            else []
        | None \<Rightarrow> []))"

text \<open>
  The merge loop of \<^verbatim>\<open>listAt\<close>: \<open>sms\<close> and \<open>hists\<close> are what is left of the two
  iterators. \<open>smN\<close> and \<open>histN\<close> are the lengths of the two namespace prefixes.
\<close>

function listAtLoop :: "'db env \<Rightarrow> nat \<Rightarrow> nat \<Rightarrow> bytes \<Rightarrow> u64 \<Rightarrow> nat \<Rightarrow> (bytes \<times> bytes) list \<Rightarrow>
    (bytes \<times> bytes) list \<Rightarrow> ListEntry list \<Rightarrow> goerr + ListEntry list" where
  "listAtLoop E smN histN cursor r limit sms hists out =
     (if (sms = [] \<and> hists = []) \<or> length out \<ge> limit then Inr out
      else if hists \<noteq> [] \<and> parseHist histN (fst (hd hists)) = None
      then listAtLoop E smN histN cursor r limit sms (tl hists) out
      else
        let smKey = drop smN (fst (hd sms));
            histKey = fst (the (parseHist histN (fst (hd hists))));
            k = (if sms = [] \<or> (hists \<noteq> [] \<and> histKey < smKey) then histKey else smKey);
            here = (sms \<noteq> [] \<and> smKey = k)
        in if here \<and> unmarshalRecord E (snd (hd sms)) = None then Inl DecodeError
           else
             let latest = (if here then unmarshalRecord E (snd (hd sms)) else None);
                 sms' = (if here then tl sms else sms);
                 (best, hists') = gatherHist E histN k r hists None;
                 out' = (if cursor \<noteq> [] \<and> k \<le> cursor then out else out @ visibleAt r k latest best)
             in listAtLoop E smN histN cursor r limit sms' hists' out')"
  by pat_completeness auto
termination
proof (relation "measure (\<lambda>(E, smN, histN, cursor, r, limit, sms, hists, out). length sms + length hists)",
    goal_cases)
  case 1
  show ?case by simp
next
  case 2
  then show ?case by (auto simp: neq_Nil_conv)
next
  case (3 E smN histN cursor r limit sms hists out smKey histKey k here latest sms' x best hists' out')
  then have g: "hists' = snd (gatherHist E histN k r hists None)" by (metis snd_conv)
  show ?case
  proof (cases here)
    case True
    with 3 have "length sms' < length sms" by auto
    moreover have "length hists' \<le> length hists" unfolding g by (rule gatherHist_shorter)
    ultimately show ?thesis by simp
  next
    case False
    with 3 have "hists \<noteq> []" "k = histKey" by (auto split: if_splits)
    moreover from this 3 obtain rv where "parseHist histN (fst (hd hists)) = Some (k, rv)" by fastforce
    ultimately have "length hists' < length hists" unfolding g by (intro gatherHist_head)
    moreover have "length sms' \<le> length sms"
      using \<open>sms' = (if here then tl sms else sms)\<close> by simp
    ultimately show ?thesis by simp
  qed
qed

declare listAtLoop.simps [simp del]

definition listAt :: "'db env \<Rightarrow> 'db SM \<Rightarrow> 'db \<Rightarrow> bytes \<Rightarrow> bytes \<Rightarrow> int \<Rightarrow> u64 \<Rightarrow>
    goerr + ListEntry list" where
  "listAt E s src pre cursor limit r =
     (let smLower = (if cursor \<noteq> [] then SMKey (sm_gid s) cursor @ [0] else SMKey (sm_gid s) pre);
          smUpper = PrefixUpperBound (SMKey (sm_gid s) pre);
          histLower = HistPrefix (sm_gid s) @ pre;
          histUpper = PrefixUpperBound histLower
      in case DB_NewIter E src smLower smUpper of
           Inl e \<Rightarrow> Inl e
         | Inr sms \<Rightarrow> (case DB_NewIter E src histLower histUpper of
              Inl e \<Rightarrow> Inl e
            | Inr hists \<Rightarrow> listAtLoop E (length (SMPrefix (sm_gid s))) (length (HistPrefix (sm_gid s)))
                cursor r (clampLimit limit) sms hists []))"

definition applyListAt :: "'db env \<Rightarrow> 'db SM \<Rightarrow> Op \<Rightarrow> Result" where
  "applyListAt E s op =
     (let r = (if o_AtRev op = 0 then sm_rev s else o_AtRev op)
      in if r < sm_cutoff s then errResult ErrTxTooOld
         else (case listAt E s (sm_st s) (o_Prefix op) (o_Cursor op) (o_Limit op) r of
                 Inl e \<Rightarrow> errResult ''Internal''
               | Inr entries \<Rightarrow> noResult\<lparr>res_Entries := entries, res_ShardRev := r\<rparr>))"

section \<open>The local read path\<close>

text \<open>
  Each method pins a Pebble snapshot (here: the committed database of that moment) and resolves
  everything from it. \<^verbatim>\<open>ErrReadTooOld\<close> is the error of a read below the horizon.
\<close>

datatype read_err = ReadErr goerr | ErrReadTooOld

abbreviation countOp :: "'db SM \<Rightarrow> 'db SM" where
  "countOp s \<equiv> s\<lparr>sm_ops := sm_ops s + 1\<rparr>"

definition GetRecord :: "'db env \<Rightarrow> 'db SM \<Rightarrow> bytes \<Rightarrow> (goerr + Record option) \<times> 'db SM" where
  "GetRecord E s key = (readRecord E s key, countOp s)"

definition GetLocal :: "'db env \<Rightarrow> 'db SM \<Rightarrow> bytes \<Rightarrow> (goerr + Record option \<times> u64) \<times> 'db SM" where
  "GetLocal E s key =
     ((let snap = sm_st s
       in case counterFrom E snap (RevisionKey (sm_gid s)) of
            Inl e \<Rightarrow> Inl e
          | Inr rv \<Rightarrow> (case readRecordFrom E s snap key of
               Inl e \<Rightarrow> Inl e
             | Inr rec \<Rightarrow> Inr (rec, rv))), countOp s)"

definition ListSM :: "'db env \<Rightarrow> 'db SM \<Rightarrow> bytes \<Rightarrow> bytes \<Rightarrow> int \<Rightarrow> (goerr + ListEntry list) \<times> 'db SM" where
  "ListSM E s pre cursor limit = (listLatestFrom E s (sm_st s) pre cursor limit, countOp s)"

definition ListLocal :: "'db env \<Rightarrow> 'db SM \<Rightarrow> bytes \<Rightarrow> bytes \<Rightarrow> int \<Rightarrow>
    (goerr + ListEntry list \<times> u64) \<times> 'db SM" where
  "ListLocal E s pre cursor limit =
     ((let snap = sm_st s
       in case counterFrom E snap (RevisionKey (sm_gid s)) of
            Inl e \<Rightarrow> Inl e
          | Inr rv \<Rightarrow> (case listLatestFrom E s snap pre cursor limit of
               Inl e \<Rightarrow> Inl e
             | Inr entries \<Rightarrow> Inr (entries, rv))), countOp s)"

definition GetAtLocal :: "'db env \<Rightarrow> 'db SM \<Rightarrow> bytes \<Rightarrow> u64 \<Rightarrow> (read_err + Record option) \<times> 'db SM" where
  "GetAtLocal E s key atRev =
     ((let snap = sm_st s
       in case counterFrom E snap (MVCCCutoffKey (sm_gid s)) of
            Inl e \<Rightarrow> Inl (ReadErr e)
          | Inr co \<Rightarrow> if atRev < co then Inl ErrReadTooOld
              else (case readAt E s snap key atRev of
                      Inl e \<Rightarrow> Inl (ReadErr e)
                    | Inr rec \<Rightarrow> Inr rec)), countOp s)"

definition ListAtLocal :: "'db env \<Rightarrow> 'db SM \<Rightarrow> bytes \<Rightarrow> bytes \<Rightarrow> int \<Rightarrow> u64 \<Rightarrow>
    (read_err + ListEntry list \<times> u64) \<times> 'db SM" where
  "ListAtLocal E s pre cursor limit atRev =
     ((let snap = sm_st s
       in case (if atRev = 0 then counterFrom E snap (RevisionKey (sm_gid s)) else Inr atRev) of
            Inl e \<Rightarrow> Inl (ReadErr e)
          | Inr r \<Rightarrow> (case counterFrom E snap (MVCCCutoffKey (sm_gid s)) of
               Inl e \<Rightarrow> Inl (ReadErr e)
             | Inr co \<Rightarrow> if r < co then Inl ErrReadTooOld
                 else (case listAt E s snap pre cursor limit r of
                         Inl e \<Rightarrow> Inl (ReadErr e)
                       | Inr entries \<Rightarrow> Inr (entries, r)))), countOp s)"

end
