(* ===== verification/KV_Apply.thy ===== *)
theory KV_Apply
  imports KV
begin

text \<open>
  The commands of the state machine (\<^verbatim>\<open>pkg/kv/kv.go\<close>, \<^verbatim>\<open>maybeGC\<close> of
  \<^verbatim>\<open>mvcc.go\<close>): the staging primitives, the split freeze, plain writes, transactions, locks,
  bulk import, history garbage collection, the dispatcher, and the raft layer's
  \<^verbatim>\<open>applyEntry\<close> that commits the batch of one log entry.
\<close>

section \<open>Staging primitives\<close>

definition bumpRev :: "u64 \<Rightarrow> 'db work \<Rightarrow> 'db work" where
  "bumpRev index sb = (case sb of (s, b) \<Rightarrow>
     (s\<lparr>sm_rev := index\<rparr>, b @ [BSet (RevisionKey (sm_gid s)) (be64 index)]))"

definition archiveVersion :: "'db env \<Rightarrow> 'db SM \<Rightarrow> bytes \<Rightarrow> histVersion \<Rightarrow> bop list \<Rightarrow> bop list" where
  "archiveVersion E s key hv b = b @ [BSet (HistKey (sm_gid s) key (h_Rev hv)) (marshalHist E hv)]"

definition histOf :: "Record \<Rightarrow> histVersion" where
  "histOf old = \<lparr>h_Rev = r_Rev old, h_Value = r_Value old, h_Blob = r_Blob old, h_Deleted = False\<rparr>"

definition tombstone :: "u64 \<Rightarrow> histVersion" where
  "tombstone n = \<lparr>h_Rev = n, h_Value = [], h_Blob = False, h_Deleted = True\<rparr>"

definition emit :: "Event \<Rightarrow> 'db SM \<Rightarrow> 'db SM" where
  "emit ev s = s\<lparr>sm_hub := map_option (publish ev) (sm_hub s)\<rparr>"

definition putRecord :: "'db env \<Rightarrow> bytes \<Rightarrow> Record \<Rightarrow> 'db work \<Rightarrow> 'db work" where
  "putRecord E key r sb = (case sb of (s, b) \<Rightarrow>
     let b1 = (case readRecord E s key of
                 Inr (Some old) \<Rightarrow> archiveVersion E s key (histOf old) b
               | _ \<Rightarrow> b);
         b2 = b1 @ [BSet (SMKey (sm_gid s) key) (marshalRecord E r)]
     in (emit \<lparr>ev_Rev = r_Rev r, ev_Type = ''put'', ev_Key = key, ev_Value = r_Value r,
           ev_Blob = r_Blob r\<rparr> s, b2))"

definition deleteRecord :: "'db env \<Rightarrow> bytes \<Rightarrow> u64 \<Rightarrow> 'db work \<Rightarrow> 'db work" where
  "deleteRecord E key n sb = (case sb of (s, b) \<Rightarrow>
     let b1 = (case readRecord E s key of
                 Inr (Some old) \<Rightarrow>
                   archiveVersion E s key (tombstone n) (archiveVersion E s key (histOf old) b)
               | _ \<Rightarrow> b);
         b2 = b1 @ [BDelete (SMKey (sm_gid s) key)]
     in (emit \<lparr>ev_Rev = n, ev_Type = ''delete'', ev_Key = key, ev_Value = [], ev_Blob = False\<rparr> s, b2))"

section \<open>Split freeze\<close>

definition frozen :: "'db SM \<Rightarrow> bytes \<Rightarrow> bool" where
  "frozen s key = (case sm_freeze s of
     None \<Rightarrow> False
   | Some fr \<Rightarrow> f_Start fr \<le> key \<and> (f_End fr = [] \<or> key < f_End fr))"

definition frozenOverlap :: "'db SM \<Rightarrow> bytes \<Rightarrow> bytes \<Rightarrow> bool" where
  "frozenOverlap s start stop = (case sm_freeze s of
     None \<Rightarrow> False
   | Some fr \<Rightarrow>
       if stop = [] \<or> stop \<le> start then False
       else if stop \<le> f_Start fr then False
       else if f_End fr \<noteq> [] \<and> f_End fr \<le> start then False
       else True)"

definition frozenWrites :: "'db SM \<Rightarrow> TxWrite list \<Rightarrow> bool" where
  "frozenWrites s writes = list_ex (\<lambda>w. frozen s (w_Key w)) writes"

definition applyFreezeRange :: "'db env \<Rightarrow> u64 \<Rightarrow> Op \<Rightarrow> 'db work \<Rightarrow> Result \<times> 'db work" where
  "applyFreezeRange E index op sb = (case sb of (s, b) \<Rightarrow>
     let fr = \<lparr>f_Start = o_Start op, f_End = o_End op\<rparr>;
         b1 = b @ [BSet (freezeStateKey (sm_gid s)) (marshalFreeze E fr)];
         s1 = s\<lparr>sm_freeze := Some fr\<rparr>
     in (revResult index, bumpRev index (s1, b1)))"

definition deleteSpan :: "'db env \<Rightarrow> u64 \<Rightarrow> bytes \<Rightarrow> bytes option \<Rightarrow> 'db work \<Rightarrow> (goerr option) \<times> 'db work" where
  "deleteSpan E n lower upper sb = (case sb of (s, b) \<Rightarrow>
     (case DB_NewIter E (sm_st s) lower upper of
        Inl e \<Rightarrow> (Some e, (s, b))
      | Inr xs \<Rightarrow> (None, fold (\<lambda>(k, v). deleteRecord E (drop (length (SMPrefix (sm_gid s))) k) n) xs (s, b))))"

definition applySplitCleanup :: "'db env \<Rightarrow> u64 \<Rightarrow> Op \<Rightarrow> 'db work \<Rightarrow> Result \<times> 'db work" where
  "applySplitCleanup E index op sb = (case sb of (s, b) \<Rightarrow>
     let (s1, b1) = (if sm_freeze s = Some \<lparr>f_Start = o_Start op, f_End = o_End op\<rparr>
                     then (s\<lparr>sm_freeze := None\<rparr>, b @ [BDelete (freezeStateKey (sm_gid s))])
                     else (s, b));
         upper = (if o_End op \<noteq> [] then Some (SMKey (sm_gid s) (o_End op))
                  else PrefixUpperBound (SMPrefix (sm_gid s)));
         (err, sb2) = deleteSpan E index (SMKey (sm_gid s) (o_Start op)) upper (bumpRev index (s1, b1))
     in (if err \<noteq> None then errResult ''Internal'' else revResult index, sb2))"

section \<open>Plain writes\<close>

definition tooLong :: "'db SM \<Rightarrow> bytes \<Rightarrow> bool" where
  "tooLong s value \<longleftrightarrow> sm_maxValue s > 0 \<and> int (length value) > sm_maxValue s"

definition applySet :: "'db env \<Rightarrow> u64 \<Rightarrow> Op \<Rightarrow> 'db work \<Rightarrow> Result \<times> 'db work" where
  "applySet E index op sb =
     (if frozen (fst sb) (o_Key op) then (errResult ErrShardSplitting, sb)
      else if tooLong (fst sb) (o_Value op) then (errResult ErrValueTooLong, sb)
      else (revResult index, putRecord E (o_Key op)
        \<lparr>r_Rev = index, r_Value = o_Value op, r_Blob = o_Blob op\<rparr> (bumpRev index sb)))"

definition applyDelete :: "'db env \<Rightarrow> u64 \<Rightarrow> Op \<Rightarrow> 'db work \<Rightarrow> Result \<times> 'db work" where
  "applyDelete E index op sb =
     (if frozen (fst sb) (o_Key op) then (errResult ErrShardSplitting, sb)
      else (revResult index, deleteRecord E (o_Key op) index (bumpRev index sb)))"

definition applyDeleteRange :: "'db env \<Rightarrow> u64 \<Rightarrow> Op \<Rightarrow> 'db work \<Rightarrow> Result \<times> 'db work" where
  "applyDeleteRange E index op sb =
     (if frozenOverlap (fst sb) (o_Start op) (o_End op) then (errResult ErrShardSplitting, sb)
      else
        let gid = sm_gid (fst sb);
            (err, sb2) = deleteSpan E index (SMKey gid (o_Start op)) (Some (SMKey gid (o_End op)))
              (bumpRev index sb)
        in (if err \<noteq> None then errResult ''Internal'' else revResult index, sb2))"

section \<open>Transactions\<close>

text \<open>\<^verbatim>\<open>_, exists, _ := s.st.Get(store.IntentKey(...))\<close>\<close>

definition intentAt :: "'db env \<Rightarrow> 'db SM \<Rightarrow> bytes \<Rightarrow> bytes option" where
  "intentAt E s key = (case Get E (sm_st s) (IntentKey (sm_gid s) key) of Inl e \<Rightarrow> None | Inr r \<Rightarrow> r)"

text \<open>\<open>Some key\<close> is a conflict on that key, \<open>None\<close> a valid read set.\<close>

fun validateReads :: "'db env \<Rightarrow> 'db SM \<Rightarrow> (bytes \<times> u64) list \<Rightarrow> bytes option" where
  "validateReads E s [] = None"
| "validateReads E s ((key, seenRev) # reads) = (case readRecord E s key of
     Inl e \<Rightarrow> Some key
   | Inr cur \<Rightarrow>
       let curRev = (case cur of Some r \<Rightarrow> r_Rev r | None \<Rightarrow> 0)
       in if curRev \<noteq> seenRev then Some key
          else if intentAt E s key \<noteq> None then Some key
          else validateReads E s reads)"

text \<open>The check loop over the write set of \<^verbatim>\<open>tx_apply\<close>; \<open>None\<close> lets the command proceed.\<close>

fun checkApplyWrites :: "'db env \<Rightarrow> 'db SM \<Rightarrow> TxWrite list \<Rightarrow> Result option" where
  "checkApplyWrites E s [] = None"
| "checkApplyWrites E s (w # ws) =
     (if intentAt E s (w_Key w) \<noteq> None then Some ((errResult ErrConflict)\<lparr>res_Conflict := w_Key w\<rparr>)
      else if tooLong s (w_Value w) then Some (errResult ErrValueTooLong)
      else checkApplyWrites E s ws)"

definition stageWrite :: "'db env \<Rightarrow> u64 \<Rightarrow> TxWrite \<Rightarrow> 'db work \<Rightarrow> 'db work" where
  "stageWrite E n w =
     (if w_Delete w then deleteRecord E (w_Key w) n
      else putRecord E (w_Key w) \<lparr>r_Rev = n, r_Value = w_Value w, r_Blob = w_Blob w\<rparr>)"

definition applyTxApply :: "'db env \<Rightarrow> u64 \<Rightarrow> Op \<Rightarrow> 'db work \<Rightarrow> Result \<times> 'db work" where
  "applyTxApply E index op sb =
     (if frozenWrites (fst sb) (o_Writes op) then (errResult ErrShardSplitting, sb)
      else (case validateReads E (fst sb) (o_Reads op) of
        Some key \<Rightarrow> ((errResult ErrConflict)\<lparr>res_Conflict := key\<rparr>, sb)
      | None \<Rightarrow> (case checkApplyWrites E (fst sb) (o_Writes op) of
           Some res \<Rightarrow> (res, sb)
         | None \<Rightarrow> (revResult index, fold (stageWrite E index) (o_Writes op) (bumpRev index sb)))))"

text \<open>The check loop of \<^verbatim>\<open>tx_prepare\<close>: only another transaction's intent conflicts.\<close>

fun checkPrepareWrites :: "'db env \<Rightarrow> 'db SM \<Rightarrow> bytes \<Rightarrow> TxWrite list \<Rightarrow> Result option" where
  "checkPrepareWrites E s txid [] = None"
| "checkPrepareWrites E s txid (w # ws) =
     (if (case intentAt E s (w_Key w) of
            None \<Rightarrow> False
          | Some raw \<Rightarrow> (case unmarshalIntent E raw of None \<Rightarrow> False | Some i \<Rightarrow> in_TxID i \<noteq> txid))
      then Some ((errResult ErrConflict)\<lparr>res_Conflict := w_Key w\<rparr>)
      else if tooLong s (w_Value w) then Some (errResult ErrValueTooLong)
      else checkPrepareWrites E s txid ws)"

definition applyTxPrepare :: "'db env \<Rightarrow> Op \<Rightarrow> 'db work \<Rightarrow> Result \<times> 'db work" where
  "applyTxPrepare E op sb = (case sb of (s, b) \<Rightarrow>
     (if frozenWrites s (o_Writes op) then (errResult ErrShardSplitting, (s, b))
      else (case validateReads E s (o_Reads op) of
        Some key \<Rightarrow> ((errResult ErrConflict)\<lparr>res_Conflict := key\<rparr>, (s, b))
      | None \<Rightarrow> (case checkPrepareWrites E s (o_TxID op) (o_Writes op) of
           Some res \<Rightarrow> (res, (s, b))
         | None \<Rightarrow>
             let raw = marshalIntent E \<lparr>in_TxID = o_TxID op, in_Writes = o_Writes op\<rparr>
             in (noResult, (s, b @ map (\<lambda>w. BSet (IntentKey (sm_gid s) (w_Key w)) raw) (o_Writes op)))))))"

text \<open>
  The inner loop of \<^verbatim>\<open>tx_commit\<close> over one intent's writes: a key already seen in this command
  is skipped.
\<close>

fun commitWrites :: "'db env \<Rightarrow> u64 \<Rightarrow> TxWrite list \<Rightarrow> bytes list \<times> 'db work \<Rightarrow> bytes list \<times> 'db work" where
  "commitWrites E n [] acc = acc"
| "commitWrites E n (w # ws) (seen, sb) =
     (if w_Key w \<in> set seen then commitWrites E n ws (seen, sb)
      else commitWrites E n ws (w_Key w # seen, stageWrite E n w sb))"

definition stageBop :: "bop \<Rightarrow> 'db work \<Rightarrow> 'db work" where
  "stageBop x sb = (fst sb, snd sb @ [x])"

fun commitIntents :: "'db env \<Rightarrow> u64 \<Rightarrow> bytes \<Rightarrow> (bytes \<times> bytes) list \<Rightarrow> bytes list \<times> 'db work \<Rightarrow>
    bytes list \<times> 'db work" where
  "commitIntents E n txid [] acc = acc"
| "commitIntents E n txid ((k, v) # rest) (seen, sb) = (case unmarshalIntent E v of
     None \<Rightarrow> commitIntents E n txid rest (seen, sb)
   | Some i \<Rightarrow> if in_TxID i \<noteq> txid then commitIntents E n txid rest (seen, sb)
       else commitIntents E n txid rest
         (commitWrites E n (in_Writes i) (seen, stageBop (BDelete k) sb)))"

definition applyTxCommit :: "'db env \<Rightarrow> u64 \<Rightarrow> Op \<Rightarrow> 'db work \<Rightarrow> Result \<times> 'db work" where
  "applyTxCommit E index op sb =
     (let gid = sm_gid (fst sb); sb1 = bumpRev index sb
      in case DB_NewIter E (sm_st (fst sb)) (IntentPrefix gid) (PrefixUpperBound (IntentPrefix gid)) of
           Inl e \<Rightarrow> (errResult ''Internal'', sb1)
         | Inr xs \<Rightarrow> (revResult index, snd (commitIntents E index (o_TxID op) xs ([], sb1))))"

definition ownIntent :: "'db env \<Rightarrow> bytes \<Rightarrow> bytes \<Rightarrow> bool" where
  "ownIntent E txid v = (case unmarshalIntent E v of None \<Rightarrow> False | Some i \<Rightarrow> in_TxID i = txid)"

definition applyTxAbort :: "'db env \<Rightarrow> Op \<Rightarrow> 'db work \<Rightarrow> Result \<times> 'db work" where
  "applyTxAbort E op sb = (case sb of (s, b) \<Rightarrow>
     (case DB_NewIter E (sm_st s) (IntentPrefix (sm_gid s)) (PrefixUpperBound (IntentPrefix (sm_gid s))) of
        Inl e \<Rightarrow> (errResult ''Internal'', (s, b))
      | Inr xs \<Rightarrow> (noResult, (s, b @ map (\<lambda>(k, v). BDelete k) (filter (\<lambda>(k, v). ownIntent E (o_TxID op) v) xs)))))"

section \<open>Locks\<close>

definition zeroLock :: lockState where
  "zeroLock = \<lparr>l_Mode = [], l_Holders = [], l_Fencing = 0\<rparr>"

definition readLock :: "'db env \<Rightarrow> 'db SM \<Rightarrow> bytes \<Rightarrow> lockState option" where
  "readLock E s resource = (case readRecord E s (lockKeyPrefix @ resource) of
     Inr (Some r) \<Rightarrow> unmarshalLock E (r_Value r)
   | _ \<Rightarrow> None)"

text \<open>\<^verbatim>\<open>int64\<close> values are compared signed.\<close>

definition pruneExpired :: "i64 \<Rightarrow> lockState \<Rightarrow> lockState" where
  "pruneExpired nowMs ls = ls\<lparr>l_Holders :=
     filter (\<lambda>(h, exp). \<not> (sint exp > 0 \<and> sint exp < sint nowMs)) (l_Holders ls)\<rparr>"

text \<open>Indexing the Go map: a missing holder reads as 0.\<close>

definition holderExpiry :: "lockState \<Rightarrow> bytes \<Rightarrow> i64" where
  "holderExpiry ls h = (case map_of (l_Holders ls) h of Some e \<Rightarrow> e | None \<Rightarrow> 0)"

text \<open>The \<^verbatim>\<open>switch\<close> of \<^verbatim>\<open>applyLock\<close>: the mode after a successful acquire, or \<open>None\<close> for \<^verbatim>\<open>LockHeld\<close>.\<close>

definition lockMode :: "lockState \<Rightarrow> Op \<Rightarrow> bytes option" where
  "lockMode ls op =
     (if length (l_Holders ls) = 0 then Some (o_Mode op)
      else if l_Mode ls = str ''shared'' \<and> o_Mode op = str ''shared'' then Some (l_Mode ls)
      else if length (l_Holders ls) = 1 \<and> holderExpiry ls (o_Holder op) \<noteq> 0 then Some (o_Mode op)
      else None)"

definition applyLock :: "'db env \<Rightarrow> u64 \<Rightarrow> Op \<Rightarrow> 'db work \<Rightarrow> Result \<times> 'db work" where
  "applyLock E index op sb =
     (let ls0 = (case readLock E (fst sb) (o_Resource op) of Some l \<Rightarrow> l | None \<Rightarrow> zeroLock);
          ls = pruneExpired (o_NowMs op) ls0
      in case lockMode ls op of
           None \<Rightarrow> (errResult ErrLockHeld, sb)
         | Some mode \<Rightarrow>
             let expiry = (if sint (o_TTLms op) > 0 then o_NowMs op + o_TTLms op else 0);
                 ls' = \<lparr>l_Mode = mode, l_Holders = AList.update (o_Holder op) expiry (l_Holders ls),
                        l_Fencing = l_Fencing ls + 1\<rparr>
             in ((revResult index)\<lparr>res_Fencing := l_Fencing ls'\<rparr>,
                 putRecord E (lockKeyPrefix @ o_Resource op)
                   \<lparr>r_Rev = index, r_Value = marshalLock E ls', r_Blob = False\<rparr> (bumpRev index sb)))"

definition applyUnlock :: "'db env \<Rightarrow> u64 \<Rightarrow> Op \<Rightarrow> 'db work \<Rightarrow> Result \<times> 'db work" where
  "applyUnlock E index op sb = (case readLock E (fst sb) (o_Resource op) of
     None \<Rightarrow> (errResult ErrNotHolder, sb)
   | Some ls \<Rightarrow>
       if holderExpiry ls (o_Holder op) = 0 then (errResult ErrNotHolder, sb)
       else
         let ls' = ls\<lparr>l_Holders := AList.delete (o_Holder op) (l_Holders ls)\<rparr>;
             sb1 = bumpRev index sb
         in (revResult index,
             if length (l_Holders ls') = 0
             then deleteRecord E (lockKeyPrefix @ o_Resource op) index sb1
             else putRecord E (lockKeyPrefix @ o_Resource op)
               \<lparr>r_Rev = index, r_Value = marshalLock E ls', r_Blob = False\<rparr> sb1))"

definition applyForceUnlock :: "'db env \<Rightarrow> u64 \<Rightarrow> Op \<Rightarrow> 'db work \<Rightarrow> Result \<times> 'db work" where
  "applyForceUnlock E index op sb =
     (revResult index, deleteRecord E (lockKeyPrefix @ o_Resource op) index (bumpRev index sb))"

section \<open>Bulk import\<close>

definition applyCopyIn :: "'db env \<Rightarrow> Op \<Rightarrow> 'db work \<Rightarrow> Result \<times> 'db work" where
  "applyCopyIn E op sb = (case sb of (s, b) \<Rightarrow>
     let b1 = b @ map (\<lambda>(key, r). BSet (SMKey (sm_gid s) key) (marshalRecord E r)) (o_Pairs op);
         maxRev = foldl (\<lambda>m (key, r). if m < r_Rev r then r_Rev r else m) (sm_rev s) (o_Pairs op);
         (s2, b2) = (if sm_rev s < maxRev
                     then (s\<lparr>sm_rev := maxRev\<rparr>, b1 @ [BSet (RevisionKey (sm_gid s)) (be64 maxRev)])
                     else (s, b1))
     in (revResult (sm_rev s2), (s2, b2)))"

section \<open>History garbage collection\<close>

text \<open>
  \<^verbatim>\<open>maybeGC\<close> collects the retained versions of every key, sorts each key's versions by
  revision and drops a version when its successor (the next version, or the latest record) is at or
  below the new cutoff, and a trailing tombstone at or below the cutoff of a key that has no record.
  The Go code walks a map of keys in unspecified order; its deletes are of distinct keys, so the order
  does not matter, and the model takes the keys as the scan meets them.
\<close>

record ver =
  v_key :: bytes
  v_rev :: u64
  v_deleted :: bool

definition gcVersion :: "'db env \<Rightarrow> nat \<Rightarrow> bytes \<times> bytes \<Rightarrow> (bytes \<times> ver) option" where
  "gcVersion E n kv = (case parseHist n (fst kv) of
     None \<Rightarrow> None
   | Some (userKey, rv) \<Rightarrow> Some (userKey, \<lparr>v_key = fst kv, v_rev = rv,
       v_deleted = (case unmarshalHist E (snd kv) of Some hv \<Rightarrow> h_Deleted hv | None \<Rightarrow> False)\<rparr>))"

text \<open>The walk over one key's sorted versions; the deleted Pebble keys.\<close>

fun gcKey :: "u64 \<Rightarrow> u64 option \<Rightarrow> ver list \<Rightarrow> bytes list" where
  "gcKey cutoff latest [] = []"
| "gcKey cutoff latest (v # vs) =
     (let succ = (case vs of v' # _ \<Rightarrow> v_rev v'
                  | [] \<Rightarrow> (case latest of Some n \<Rightarrow> n | None \<Rightarrow> - 1));
          keep = (if vs = [] \<and> latest = None \<and> v_deleted v \<and> v_rev v \<le> cutoff then False
                  else cutoff < succ)
      in (if keep then [] else [v_key v]) @ gcKey cutoff latest vs)"

definition latestRev :: "'db env \<Rightarrow> 'db SM \<Rightarrow> bytes \<Rightarrow> u64 option" where
  "latestRev E s userKey = (case readRecord E s userKey of Inr (Some r) \<Rightarrow> Some (r_Rev r) | _ \<Rightarrow> None)"

definition gcDeletes :: "'db env \<Rightarrow> 'db SM \<Rightarrow> u64 \<Rightarrow> (bytes \<times> bytes) list \<Rightarrow> bytes list" where
  "gcDeletes E s cutoff xs =
     (let vers = List.map_filter (gcVersion E (length (HistPrefix (sm_gid s)))) xs
      in concat (map (\<lambda>userKey. gcKey cutoff (latestRev E s userKey)
           (sort_key v_rev (map snd (filter (\<lambda>kv. fst kv = userKey) vers)))) (remdups (map fst vers))))"

definition maybeGC :: "'db env \<Rightarrow> u64 \<Rightarrow> 'db work \<Rightarrow> 'db work" where
  "maybeGC E index sb = (case sb of (s, b) \<Rightarrow>
     if MVCCGCEvery E \<le> 0 \<or> index mod word_of_int (MVCCGCEvery E) \<noteq> 0 then (s, b)
     else
       let horizon = word_of_int (MVCCHistoryRevisions E)
       in if index \<le> horizon then (s, b)
          else
            let cutoff = index - horizon
            in if cutoff \<le> sm_cutoff s then (s, b)
               else (case DB_NewIter E (sm_st s) (HistPrefix (sm_gid s)) (PrefixUpperBound (HistPrefix (sm_gid s))) of
                       Inl e \<Rightarrow> (s, b)
                     | Inr xs \<Rightarrow> (s\<lparr>sm_cutoff := cutoff\<rparr>,
                         b @ map BDelete (gcDeletes E s cutoff xs) @
                           [BSet (MVCCCutoffKey (sm_gid s)) (be64 cutoff)])))"

section \<open>Dispatch\<close>

definition applyOp :: "'db env \<Rightarrow> u64 \<Rightarrow> Op \<Rightarrow> 'db work \<Rightarrow> Result \<times> 'db work" where
  "applyOp E index op sb =
     (let s = fst sb
      in if o_Type op = ''get'' then
           ((case readRecord E s (o_Key op) of
               Inl e \<Rightarrow> errResult ''Internal''
             | Inr None \<Rightarrow> noResult\<lparr>res_ShardRev := sm_rev s\<rparr>
             | Inr (Some r) \<Rightarrow> noResult\<lparr>res_Record := Some r, res_ShardRev := sm_rev s\<rparr>), sb)
         else if o_Type op = ''get_at'' then (applyGetAt E s op, sb)
         else if o_Type op = ''list_at'' then (applyListAt E s op, sb)
         else if o_Type op = ''list_range'' then
           ((case listRangeFrom E s (sm_st s) (o_Start op) (o_End op) (o_Cursor op) (o_Limit op) of
               Inl e \<Rightarrow> errResult ''Internal''
             | Inr entries \<Rightarrow> noResult\<lparr>res_Entries := entries, res_ShardRev := sm_rev s\<rparr>), sb)
         else if o_Type op = ''freeze_range'' then applyFreezeRange E index op sb
         else if o_Type op = ''split_cleanup'' then applySplitCleanup E index op sb
         else if o_Type op = ''set'' then applySet E index op sb
         else if o_Type op = ''delete'' then applyDelete E index op sb
         else if o_Type op = ''delete_range'' then applyDeleteRange E index op sb
         else if o_Type op = ''tx_apply'' then applyTxApply E index op sb
         else if o_Type op = ''tx_prepare'' then applyTxPrepare E op sb
         else if o_Type op = ''tx_commit'' then applyTxCommit E index op sb
         else if o_Type op = ''tx_abort'' then applyTxAbort E op sb
         else if o_Type op = ''lock'' then applyLock E index op sb
         else if o_Type op = ''unlock'' then applyUnlock E index op sb
         else if o_Type op = ''force_unlock'' then applyForceUnlock E index op sb
         else if o_Type op = ''copy_in'' then applyCopyIn E op sb
         else (errResult ''UnknownOp'', sb))"

definition Apply :: "'db env \<Rightarrow> u64 \<Rightarrow> bytes \<Rightarrow> 'db work \<Rightarrow> Result \<times> 'db work" where
  "Apply E index data sb =
     (let sb0 = (countOp (fst sb), snd sb)
      in case unmarshalOp E data of
           None \<Rightarrow> (errResult ''BadCommand'', sb0)
         | Some op \<Rightarrow> (let (res, sb1) = applyOp E index op sb0 in (res, maybeGC E index sb1)))"

section \<open>One committed log entry\<close>

text \<open>
  \<^verbatim>\<open>Group.applyEntry\<close> of \<^verbatim>\<open>pkg/raft/group.go\<close> for a normal entry: the command runs
  against a fresh batch, the applied index joins the batch, and the batch commits. Empty and
  unparseable entries are dropped.
\<close>

definition applyEntry :: "'db env \<Rightarrow> u64 \<Rightarrow> bytes \<Rightarrow> 'db SM \<Rightarrow> goerr + Result option \<times> 'db SM" where
  "applyEntry E index data s =
     (if data = [] then Inr (None, s)
      else (case unmarshalCommand E data of
        None \<Rightarrow> Inr (None, s)
      | Some (ident, cmd) \<Rightarrow>
          let (res, (s1, b)) = Apply E index cmd (s, []);
              b1 = b @ [BSet (RaftAppliedKey (sm_gid s)) (be64 index)]
          in (case DB_Commit E (sm_st s1) b1 of
                Inl e \<Rightarrow> Inl e
              | Inr db \<Rightarrow> Inr (Some res, s1\<lparr>sm_st := db\<rparr>))))"

text \<open>The committed entries of one \<^verbatim>\<open>Ready\<close>, applied in order; an error stops the loop.\<close>

fun applyEntries :: "'db env \<Rightarrow> (u64 \<times> bytes) list \<Rightarrow> 'db SM \<Rightarrow> goerr + 'db SM" where
  "applyEntries E [] s = Inr s"
| "applyEntries E ((index, data) # es) s = (case applyEntry E index data s of
     Inl e \<Rightarrow> Inl e
   | Inr (res, s') \<Rightarrow> applyEntries E es s')"

end
