(* ===== verification/MVCC_Spec.thy ===== *)
theory MVCC_Spec
  imports KV_Apply
begin

text \<open>
  The abstract contract of the versioned store, one key at a time. A cell is the latest record of a
  key and its history, a partial map from revisions to superseded versions. The code promises that a
  read at a revision answers with what a plain read would have returned right after the entry of that
  revision: writes at later revisions and pruning at or below the revision never change it. The
  lemmas here establish this for the three things the code does to a cell (replace the record, delete
  it, prune history); that the code does exactly these things is proved in the theory after this one.
\<close>

section \<open>Cells and what they show\<close>

type_synonym history = "u64 \<Rightarrow> histVersion option"
type_synonym cell = "Record option \<times> history"

definition recOf :: "histVersion \<Rightarrow> Record" where
  "recOf hv = \<lparr>r_Rev = h_Rev hv, r_Value = h_Value hv, r_Blob = h_Blob hv\<rparr>"

lemma recOf_histOf [simp]: "recOf (histOf r) = r"
  by (simp add: recOf_def histOf_def)

lemma histOf_simps [simp]: "h_Rev (histOf r) = r_Rev r" "h_Deleted (histOf r) = False"
  by (simp_all add: histOf_def)

lemma tombstone_simps [simp]: "h_Rev (tombstone n) = n" "h_Deleted (tombstone n)"
  by (simp_all add: tombstone_def)

text \<open>The newest version at or below a revision.\<close>

definition newest :: "history \<Rightarrow> u64 \<Rightarrow> histVersion option" where
  "newest h r = (if \<exists>q \<le> r. h q \<noteq> None then h (Max {q. q \<le> r \<and> h q \<noteq> None}) else None)"

definition showHist :: "histVersion option \<Rightarrow> Record option" where
  "showHist v = (case v of None \<Rightarrow> None | Some hv \<Rightarrow> if h_Deleted hv then None else Some (recOf hv))"

lemma showHist_simps [simp]:
  "showHist None = None" "showHist (Some hv) = (if h_Deleted hv then None else Some (recOf hv))"
  by (simp_all add: showHist_def)

definition cell_at :: "cell \<Rightarrow> u64 \<Rightarrow> Record option" where
  "cell_at c r = (case fst c of
     Some rec \<Rightarrow> if r_Rev rec \<le> r then Some rec else showHist (newest (snd c) r)
   | None \<Rightarrow> showHist (newest (snd c) r))"

lemma newest_eqI:
  assumes "q \<le> r" "h q = Some hv" "\<And>q'. q' \<le> r \<Longrightarrow> h q' \<noteq> None \<Longrightarrow> q' \<le> q"
  shows "newest h r = Some hv"
proof -
  have "Max {q. q \<le> r \<and> h q \<noteq> None} = q"
    using assms by (intro Max_eqI) auto
  with assms show ?thesis by (auto simp: newest_def)
qed

lemma newest_NoneI: "(\<And>q. q \<le> r \<Longrightarrow> h q = None) \<Longrightarrow> newest h r = None"
  by (auto simp: newest_def)

lemma newest_cases:
  obtains (none) "\<And>q. q \<le> r \<Longrightarrow> h q = None" "newest h r = None"
  | (some) q hv where "q \<le> r" "h q = Some hv" "newest h r = Some hv"
      "\<And>q'. q' \<le> r \<Longrightarrow> h q' \<noteq> None \<Longrightarrow> q' \<le> q"
proof (cases "\<exists>q \<le> r. h q \<noteq> None")
  case False
  then have "h q = None" if "q \<le> r" for q using that by blast
  with newest_NoneI [of r h] show ?thesis by (intro none) simp_all
next
  case True
  let ?A = "{q. q \<le> r \<and> h q \<noteq> None}"
  have "Max ?A \<in> ?A" using True by (intro Max_in) auto
  moreover have "q' \<le> Max ?A" if "q' \<le> r" "h q' \<noteq> None" for q'
    using that by (intro Max_ge) auto
  ultimately show ?thesis using some [of "Max ?A"] True by (auto simp: newest_def)
qed

lemma newest_cong: "(\<And>q. q \<le> r \<Longrightarrow> h q = h' q) \<Longrightarrow> newest h r = newest h' r"
  by (simp add: newest_def cong: conj_cong)

section \<open>The invariant of a cell\<close>

text \<open>
  No version is newer than \<open>n\<close>, a version is stored under its own revision, history is strictly older
  than the latest record, and a key without a record has a history that ends in a tombstone.
\<close>

definition cell_ok :: "u64 \<Rightarrow> cell \<Rightarrow> bool" where
  "cell_ok n c \<longleftrightarrow>
     (\<forall>q hv. snd c q = Some hv \<longrightarrow> h_Rev hv = q \<and> q \<le> n) \<and>
     (case fst c of
        Some rec \<Rightarrow> r_Rev rec \<le> n \<and> (\<forall>q. snd c q \<noteq> None \<longrightarrow> q < r_Rev rec)
      | None \<Rightarrow> (\<forall>hv. newest (snd c) (- 1) = Some hv \<longrightarrow> h_Deleted hv))"

lemma cell_ok_mono: "cell_ok n c \<Longrightarrow> n \<le> m \<Longrightarrow> cell_ok m c"
  by (auto simp: cell_ok_def split: option.splits dest: order_trans)

lemma cell_ok_empty: "cell_ok n (None, \<lambda>_. None)"
  by (simp add: cell_ok_def newest_def)

lemma cell_ok_Some:
  "cell_ok n (Some rec, h) \<longleftrightarrow> (\<forall>q hv. h q = Some hv \<longrightarrow> h_Rev hv = q \<and> q \<le> n) \<and> r_Rev rec \<le> n \<and>
     (\<forall>q. h q \<noteq> None \<longrightarrow> q < r_Rev rec)"
  by (simp add: cell_ok_def)

text \<open>At or above its bound a cell shows the latest record.\<close>

lemma cell_at_latest:
  assumes "cell_ok n c" "n \<le> r"
  shows "cell_at c r = fst c"
proof (cases "fst c")
  case (Some rec)
  with assms have "r_Rev rec \<le> r" by (auto simp: cell_ok_def)
  with Some show ?thesis by (simp add: cell_at_def)
next
  case None
  have "newest (snd c) r = newest (snd c) (- 1)"
  proof (cases rule: newest_cases [of r "snd c"])
    case none
    have "snd c q = None" for q
      using none(1) [of q] assms by (cases "snd c q") (force simp: cell_ok_def)+
    then show ?thesis by (simp add: newest_def)
  next
    case (some q hv)
    have "q' \<le> q" if "snd c q' \<noteq> None" for q'
      using some(4) [of q'] that assms by (force simp: cell_ok_def)
    then have "newest (snd c) (- 1) = Some hv"
      using some(2) by (intro newest_eqI [of q]) auto
    with some(3) show ?thesis by simp
  qed
  with None assms(1) show ?thesis
    by (auto simp: cell_at_def cell_ok_def showHist_def split: option.splits)
qed

section \<open>Writing\<close>

definition archive :: "Record option \<Rightarrow> history \<Rightarrow> history" where
  "archive l h = (case l of None \<Rightarrow> h | Some old \<Rightarrow> h(r_Rev old \<mapsto> histOf old))"

definition cell_put :: "Record \<Rightarrow> cell \<Rightarrow> cell" where
  "cell_put rec c = (Some rec, archive (fst c) (snd c))"

definition cell_del :: "u64 \<Rightarrow> cell \<Rightarrow> cell" where
  "cell_del n c = (None, case fst c of None \<Rightarrow> snd c
     | Some old \<Rightarrow> (archive (fst c) (snd c))(n \<mapsto> tombstone n))"

lemma newest_archive:
  assumes "cell_ok n (Some old, h)"
  shows "showHist (newest (archive (Some old) h) r) = cell_at (Some old, h) r"
proof (cases "r_Rev old \<le> r")
  case True
  have "newest (h(r_Rev old \<mapsto> histOf old)) r = Some (histOf old)"
    using assms True by (intro newest_eqI [of "r_Rev old"]) (auto simp: cell_ok_Some less_le split: if_splits)
  with True show ?thesis by (simp add: archive_def cell_at_def)
next
  case False
  then have "newest (h(r_Rev old \<mapsto> histOf old)) r = newest h r"
    by (intro newest_cong) auto
  with False show ?thesis by (simp add: archive_def cell_at_def)
qed

lemma cell_put_before:
  assumes "cell_ok n c" "r < r_Rev rec"
  shows "cell_at (cell_put rec c) r = cell_at c r"
proof (cases "fst c")
  case None
  with assms(2) show ?thesis by (auto simp: cell_put_def cell_at_def archive_def)
next
  case (Some old)
  with assms(1) have "cell_ok n (Some old, snd c)" by (metis prod.collapse)
  from newest_archive [OF this, of r] Some assms(2) show ?thesis
    by (auto simp: cell_put_def cell_at_def)
qed

lemma cell_put_ok:
  assumes "cell_ok n c" "n < r_Rev rec"
  shows "cell_ok (r_Rev rec) (cell_put rec c)"
  using assms
  by (auto simp: cell_put_def cell_ok_def archive_def split: option.splits if_splits)
    (fastforce dest: order_le_less_trans order_less_imp_le)+

lemma cell_del_Some:
  "cell_del n (Some old, h) = (None, (h(r_Rev old \<mapsto> histOf old))(n \<mapsto> tombstone n))"
  by (simp add: cell_del_def archive_def)

lemma cell_del_before:
  assumes "cell_ok n c" "r < i"
  shows "cell_at (cell_del i c) r = cell_at c r"
proof (cases "fst c")
  case None
  then show ?thesis by (simp add: cell_del_def cell_at_def)
next
  case (Some old)
  then obtain h where c: "c = (Some old, h)" by (cases c) simp
  have "newest ((archive (Some old) h)(i \<mapsto> tombstone i)) r = newest (archive (Some old) h) r"
    using assms(2) by (intro newest_cong) auto
  with newest_archive [of n old h r] assms(1) show ?thesis
    by (simp add: c cell_del_def cell_at_def [of "(None, _)"])
qed

lemma cell_del_ok:
  assumes "cell_ok n c" "n < i"
  shows "cell_ok i (cell_del i c)"
proof (cases "fst c")
  case None
  then have "cell_del i c = c" by (cases c) (simp add: cell_del_def)
  with assms cell_ok_mono [of n c i] show ?thesis by simp
next
  case (Some old)
  then obtain h where c: "c = (Some old, h)" by (cases c) simp
  let ?h = "(h(r_Rev old \<mapsto> histOf old))(i \<mapsto> tombstone i)"
  have old: "h_Rev hv = q \<and> q \<le> n" if "h q = Some hv" for q hv
    using assms(1) that by (simp add: c cell_ok_Some)
  have rn: "r_Rev old \<le> n" using assms(1) by (simp add: c cell_ok_Some)
  have le: "h_Rev hv = q \<and> q \<le> i" if "?h q = Some hv" for q hv
  proof -
    consider "q = i" "hv = tombstone i" | "q = r_Rev old" "hv = histOf old" | "h q = Some hv"
      using \<open>?h q = Some hv\<close> unfolding fun_upd_apply by (metis option.inject)
    then show ?thesis
    proof cases
      case 3
      from old [OF this] assms(2) show ?thesis by (metis order_less_imp_le order_trans)
    qed (use rn assms(2) in \<open>simp_all\<close>)
  qed
  have "newest ?h (- 1) = Some (tombstone i)"
    by (rule newest_eqI [of i]) (simp, simp, use le in blast)
  then have del: "\<forall>hv. newest ?h (- 1) = Some hv \<longrightarrow> h_Deleted hv" by simp
  have "\<forall>q hv. ?h q = Some hv \<longrightarrow> h_Rev hv = q \<and> q \<le> i" using le by blast
  with del show ?thesis unfolding c cell_del_Some cell_ok_def fst_conv snd_conv option.case by blast
qed

section \<open>Pruning\<close>

text \<open>
  The successor of a version is the next version of the key, or the latest record, or nothing (the
  largest revision). A version is kept when its successor is above the cutoff, except that a trailing
  tombstone at or below the cutoff of a key without a record goes.
\<close>

definition gcSucc :: "Record option \<Rightarrow> history \<Rightarrow> u64 \<Rightarrow> u64" where
  "gcSucc l h q = (if \<exists>q' > q. h q' \<noteq> None then Min {q'. q < q' \<and> h q' \<noteq> None}
     else (case l of Some rec \<Rightarrow> r_Rev rec | None \<Rightarrow> - 1))"

definition gcKeep :: "u64 \<Rightarrow> Record option \<Rightarrow> history \<Rightarrow> u64 \<Rightarrow> bool" where
  "gcKeep co l h q \<longleftrightarrow> \<not> (\<not> (\<exists>q' > q. h q' \<noteq> None) \<and> l = None \<and>
       (\<exists>hv. h q = Some hv \<and> h_Deleted hv) \<and> q \<le> co) \<and> co < gcSucc l h q"

definition gcHist :: "u64 \<Rightarrow> Record option \<Rightarrow> history \<Rightarrow> history" where
  "gcHist co l h = (\<lambda>q. if gcKeep co l h q then h q else None)"

definition cell_gc :: "u64 \<Rightarrow> cell \<Rightarrow> cell" where
  "cell_gc co c = (fst c, gcHist co (fst c) (snd c))"

lemma gcSucc_le: "q < q' \<Longrightarrow> h q' \<noteq> None \<Longrightarrow> gcSucc l h q \<le> q'"
  by (auto simp: gcSucc_def intro!: Min_le)

lemma gcSucc_later:
  assumes "q < q'" "h q' \<noteq> None" "\<And>p. p \<le> r \<Longrightarrow> h p \<noteq> None \<Longrightarrow> p \<le> q"
  shows "r < gcSucc l h q"
proof -
  have "Min {q'. q < q' \<and> h q' \<noteq> None} \<in> {q'. q < q' \<and> h q' \<noteq> None}"
    using assms(1,2) by (intro Min_in) auto
  then have "\<not> Min {q'. q < q' \<and> h q' \<noteq> None} \<le> r" using assms(3) leD by blast
  moreover have "gcSucc l h q = Min {q'. q < q' \<and> h q' \<noteq> None}"
    using assms(1,2) unfolding gcSucc_def by (meson if_P)
  ultimately show ?thesis by (simp only: not_le)
qed

lemma newest_gc_kept:
  assumes "q \<le> r" "h q = Some hv" "\<And>p. p \<le> r \<Longrightarrow> h p \<noteq> None \<Longrightarrow> p \<le> q" "gcKeep co l h q"
  shows "newest (gcHist co l h) r = Some hv"
  using assms by (intro newest_eqI [of q]) (auto simp: gcHist_def split: if_splits)

lemma cell_gc_hist:
  assumes ok: "cell_ok n (l, h)" and co: "co \<le> r" and l: "\<And>rec. l = Some rec \<Longrightarrow> r < r_Rev rec"
  shows "showHist (newest (gcHist co l h) r) = showHist (newest h r)"
proof (cases rule: newest_cases [of r h])
  case none
  then have "newest (gcHist co l h) r = None"
    by (intro newest_NoneI) (simp add: gcHist_def)
  with none show ?thesis by simp
next
  case (some q hv)
  show ?thesis
  proof (cases "gcKeep co l h q")
    case True
    with newest_gc_kept [of q r h hv co l] some show ?thesis by simp
  next
    case False
    have last: "\<not> (\<exists>q' > q. h q' \<noteq> None)"
      using False gcSucc_later [of q _ h r l] some(4) co unfolding gcKeep_def
      by (meson order_le_less_trans)
    then have succ: "gcSucc l h q = (case l of Some rec \<Rightarrow> r_Rev rec | None \<Rightarrow> - 1)"
      unfolding gcSucc_def by (simp only: if_False)
    have "l = None"
      using False l co last succ by (cases l) (force simp: gcKeep_def)+
    have "newest h (- 1) = Some hv"
      using some(2) last by (intro newest_eqI [of q]) (auto simp: not_less)
    with ok \<open>l = None\<close> have "h_Deleted hv" by (simp add: cell_ok_def)
    with False last \<open>l = None\<close> some(2) have "q \<le> co \<or> co = - 1"
      unfolding gcKeep_def succ by (auto simp: not_less word_order.extremum_unique)
    then have "q \<le> co" by auto
    have "\<not> gcKeep co l h p" if "h p \<noteq> None" "p \<le> r" for p
    proof (cases "p = q")
      case False
      with some(4) [OF that(2,1)] have "p < q" by simp
      with gcSucc_le [of p q h l] some(2) have "gcSucc l h p \<le> q" by simp
      with \<open>q \<le> co\<close> have "\<not> co < gcSucc l h p" by simp
      then show ?thesis by (simp add: gcKeep_def)
    qed (use \<open>\<not> gcKeep co l h q\<close> in simp)
    then have "newest (gcHist co l h) r = None"
      unfolding gcHist_def by (intro newest_NoneI) (metis option.distinct(1))
    with some(3) \<open>h_Deleted hv\<close> show ?thesis by simp
  qed
qed

lemma cell_gc_at:
  assumes "cell_ok n c" "co \<le> r"
  shows "cell_at (cell_gc co c) r = cell_at c r"
proof -
  obtain l h where c: "c = (l, h)" by (cases c)
  have "showHist (newest (gcHist co l h) r) = showHist (newest h r)"
    if "\<And>rec. l = Some rec \<Longrightarrow> r < r_Rev rec"
    using cell_gc_hist [of n l h co r] assms that c by simp
  then show ?thesis
    by (cases l) (auto simp: c cell_at_def cell_gc_def not_le)
qed

lemma cell_gc_ok:
  assumes "cell_ok n c"
  shows "cell_ok n (cell_gc co c)"
proof (cases "fst c")
  case (Some rec)
  with assms show ?thesis by (auto simp: cell_ok_def cell_gc_def gcHist_def split: if_splits)
next
  case None
  have "cell_at (cell_gc co c) (- 1) = cell_at c (- 1)" using assms by (intro cell_gc_at) auto
  also have "\<dots> = None" using cell_at_latest [OF assms, of "- 1"] None by simp
  finally have "showHist (newest (snd (cell_gc co c)) (- 1)) = None"
    using None by (simp add: cell_at_def cell_gc_def)
  with assms None show ?thesis
    by (auto simp: cell_ok_def cell_gc_def gcHist_def showHist_def split: if_splits option.splits)
qed

text \<open>
  Garbage collection reads the committed history while the entry that triggers it stages its own
  versions; the staged versions are under revisions the committed history does not use, so pruning
  and the write commute.
\<close>

lemma gc_archive_commute:
  assumes "cell_ok n c"
  shows "archive (fst c) (snd (cell_gc co c)) =
    (\<lambda>q. if snd c q \<noteq> None \<and> \<not> gcKeep co (fst c) (snd c) q then None else archive (fst c) (snd c) q)"
  using assms by (auto simp: fun_eq_iff archive_def cell_gc_def gcHist_def cell_ok_def split: option.splits)

section \<open>The contract of a versioned cell\<close>

text \<open>
  What the readers of a cell rely on, as an interface: a well-formed cell shows its latest value at
  and above its bound, a write at a later revision does not change what earlier revisions show, and
  pruning at a cutoff does not change what the cutoff and later revisions show. The pinned-read
  guarantee follows from these laws alone.
\<close>

locale versioned =
  fixes ok :: "u64 \<Rightarrow> 'c \<Rightarrow> bool"
    and at :: "'c \<Rightarrow> u64 \<Rightarrow> 'r option"
    and latest :: "'c \<Rightarrow> 'r option"
    and wr :: "u64 \<Rightarrow> 'w \<Rightarrow> 'c \<Rightarrow> 'c"
    and prune :: "u64 \<Rightarrow> 'c \<Rightarrow> 'c"
  assumes ok_mono: "ok n c \<Longrightarrow> n \<le> m \<Longrightarrow> ok m c"
    and at_latest: "ok n c \<Longrightarrow> n \<le> r \<Longrightarrow> at c r = latest c"
    and wr_ok: "ok n c \<Longrightarrow> n < i \<Longrightarrow> ok i (wr i w c)"
    and wr_before: "ok n c \<Longrightarrow> r < i \<Longrightarrow> at (wr i w c) r = at c r"
    and prune_ok: "ok n c \<Longrightarrow> ok n (prune co c)"
    and prune_at: "ok n c \<Longrightarrow> co \<le> r \<Longrightarrow> at (prune co c) r = at c r"
begin

text \<open>One entry of the log as a cell sees it: its revision, perhaps a write, perhaps a pruning.\<close>

definition vstep :: "u64 \<times> 'w option \<times> u64 option \<Rightarrow> 'c \<Rightarrow> 'c" where
  "vstep e c = (case e of (i, w, co) \<Rightarrow>
     (case w of None \<Rightarrow> id | Some v \<Rightarrow> wr i v) (case co of None \<Rightarrow> c | Some x \<Rightarrow> prune x c))"

lemma vstep_ok: "ok n c \<Longrightarrow> n < i \<Longrightarrow> ok i (vstep (i, w, co) c)"
  by (auto simp: vstep_def split: option.splits intro: wr_ok prune_ok ok_mono)

lemma vstep_at:
  assumes "ok n c" "r < i" "\<And>x. co = Some x \<Longrightarrow> x \<le> r"
  shows "at (vstep (i, w, co) c) r = at c r"
  using assms wr_before [of n "case co of None \<Rightarrow> c | Some x \<Rightarrow> prune x c" r i]
  by (auto simp: vstep_def prune_at prune_ok split: option.splits)

lemma pinned:
  assumes "ok n c" "sorted_wrt (<) (map fst es)" "\<forall>e \<in> set es. n < fst e \<and> r < fst e"
    "\<forall>e \<in> set es. \<forall>x. snd (snd e) = Some x \<longrightarrow> x \<le> r"
  shows "at (fold vstep es c) r = at c r"
  using assms
proof (induction es arbitrary: n c)
  case Nil
  show ?case by simp
next
  case (Cons e es)
  obtain i w co where e: "e = (i, w, co)" by (cases e)
  have "at (fold vstep es (vstep e c)) r = at (vstep e c) r"
    by (rule Cons.IH [of i]) (use Cons.prems e in \<open>auto intro: vstep_ok\<close>)
  also have "\<dots> = at c r" unfolding e by (rule vstep_at) (use Cons.prems e in auto)
  finally show ?case by simp
qed

end

text \<open>A write of the code to a cell: a put of a value with its blob flag, or (\<open>None\<close>) a delete.\<close>

type_synonym cell_val = "(bytes \<times> bool) option"

definition cell_write :: "u64 \<Rightarrow> cell_val \<Rightarrow> cell \<Rightarrow> cell" where
  "cell_write i w c = (case w of
     None \<Rightarrow> cell_del i c
   | Some (v, bl) \<Rightarrow> cell_put \<lparr>r_Rev = i, r_Value = v, r_Blob = bl\<rparr> c)"

interpretation cells: versioned cell_ok cell_at fst cell_write cell_gc
proof (unfold_locales, goal_cases)
  case (1 n c m) then show ?case by (rule cell_ok_mono)
next
  case (2 n c r) then show ?case by (rule cell_at_latest)
next
  case (3 n c i w)
  then show ?case
    using cell_del_ok [of n c i]
      cell_put_ok [of n c "\<lparr>r_Rev = i, r_Value = fst (the w), r_Blob = snd (the w)\<rparr>"]
    by (auto simp: cell_write_def split: option.splits)
next
  case (4 n c r i w)
  then show ?case
    using cell_del_before [of n c r i] cell_put_before [of n c r]
    by (auto simp: cell_write_def split: option.splits)
next
  case (5 n c co) then show ?case by (rule cell_gc_ok)
next
  case (6 n c co r) then show ?case by (rule cell_gc_at)
qed

end
