(* ===== verification/KV_View.thy ===== *)
theory KV_View
  imports MVCC_Spec
begin

text \<open>
  The committed store of a group seen as cells: the abstraction functions from the Pebble view to
  records, histories, intents and counters, the namespace invariant, the laws of the JSON codecs the
  code relies on, and the reads. Here \<^verbatim>\<open>readAt\<close>, which walks Pebble's history namespace
  backwards, is shown to be the abstract read of a cell.
\<close>

section \<open>Abstraction\<close>

definition live :: "'db env \<Rightarrow> u64 \<Rightarrow> (bytes \<rightharpoonup> bytes) \<Rightarrow> bytes \<rightharpoonup> Record" where
  "live E g m k = Option.bind (m (SMKey g k)) (unmarshalRecord E)"

definition hist :: "'db env \<Rightarrow> u64 \<Rightarrow> (bytes \<rightharpoonup> bytes) \<Rightarrow> bytes \<Rightarrow> history" where
  "hist E g m k q = Option.bind (m (HistKey g k q)) (unmarshalHist E)"

definition cellOf :: "'db env \<Rightarrow> u64 \<Rightarrow> (bytes \<rightharpoonup> bytes) \<Rightarrow> bytes \<Rightarrow> cell" where
  "cellOf E g m k = (live E g m k, hist E g m k)"

lemma cellOf_simps [simp]: "fst (cellOf E g m k) = live E g m k" "snd (cellOf E g m k) = hist E g m k"
  by (simp_all add: cellOf_def)

text \<open>Every stored record and version decodes, and the history namespace holds history keys only.\<close>

definition ns_ok :: "'db env \<Rightarrow> u64 \<Rightarrow> (bytes \<rightharpoonup> bytes) \<Rightarrow> bool" where
  "ns_ok E g m \<longleftrightarrow>
     (\<forall>k raw. m (SMKey g k) = Some raw \<longrightarrow> unmarshalRecord E raw \<noteq> None) \<and>
     (\<forall>x raw. m x = Some raw \<longrightarrow> prefix (HistPrefix g) x \<longrightarrow>
        (\<exists>k q. x = HistKey g k q) \<and> unmarshalHist E raw \<noteq> None)"

lemma ns_ok_live: "ns_ok E g m \<Longrightarrow> m (SMKey g k) = Some raw \<Longrightarrow> unmarshalRecord E raw = live E g m k \<and> live E g m k \<noteq> None"
  by (simp add: ns_ok_def live_def)

lemma ns_ok_hist:
  assumes "ns_ok E g m" "m x = Some raw" "prefix (HistPrefix g) x"
  obtains k q hv where "x = HistKey g k q" "unmarshalHist E raw = Some hv" "hist E g m k q = Some hv"
proof -
  from assms obtain k q where x: "x = HistKey g k q" and "unmarshalHist E raw \<noteq> None"
    unfolding ns_ok_def by blast
  then obtain hv where hv: "unmarshalHist E raw = Some hv" by blast
  with x assms(2) have "hist E g m k q = Some hv" by (simp add: hist_def)
  with x hv show ?thesis by (rule that)
qed

lemma hist_Some_view: "hist E g m k q = Some hv \<Longrightarrow> \<exists>raw. m (HistKey g k q) = Some raw \<and> unmarshalHist E raw = Some hv"
  by (auto simp: hist_def bind_eq_Some_conv)

text \<open>A counter that was never written reads as 0.\<close>

definition counter :: "(bytes \<rightharpoonup> bytes) \<Rightarrow> bytes \<Rightarrow> u64 \<Rightarrow> bool" where
  "counter m x n \<longleftrightarrow> (m x = None \<and> n = 0) \<or> m x = Some (be64 n)"

definition freeze_ok :: "'db env \<Rightarrow> u64 \<Rightarrow> (bytes \<rightharpoonup> bytes) \<Rightarrow> freezeRange option \<Rightarrow> bool" where
  "freeze_ok E g m fr \<longleftrightarrow> (case m (freezeStateKey g) of
     None \<Rightarrow> fr = None | Some raw \<Rightarrow> fr \<noteq> None \<and> unmarshalFreeze E raw = fr)"

text \<open>The invariant of a state machine between log entries.\<close>

definition sm_ok :: "'db env \<Rightarrow> ('db \<Rightarrow> bytes \<rightharpoonup> bytes) \<Rightarrow> 'db SM \<Rightarrow> bool" where
  "sm_ok E view s \<longleftrightarrow>
     ns_ok E (sm_gid s) (view (sm_st s)) \<and>
     counter (view (sm_st s)) (RevisionKey (sm_gid s)) (sm_rev s) \<and>
     counter (view (sm_st s)) (MVCCCutoffKey (sm_gid s)) (sm_cutoff s) \<and>
     freeze_ok E (sm_gid s) (view (sm_st s)) (sm_freeze s) \<and>
     (\<forall>k. cell_ok (sm_rev s) (cellOf E (sm_gid s) (view (sm_st s)) k))"

abbreviation smCell :: "'db env \<Rightarrow> ('db \<Rightarrow> bytes \<rightharpoonup> bytes) \<Rightarrow> 'db SM \<Rightarrow> bytes \<Rightarrow> cell" where
  "smCell E view s \<equiv> cellOf E (sm_gid s) (view (sm_st s))"

abbreviation smLive :: "'db env \<Rightarrow> ('db \<Rightarrow> bytes \<rightharpoonup> bytes) \<Rightarrow> 'db SM \<Rightarrow> bytes \<rightharpoonup> Record" where
  "smLive E view s \<equiv> live E (sm_gid s) (view (sm_st s))"

section \<open>The window of a reverse history walk\<close>

lemma between_prefix: "p \<le> x \<Longrightarrow> x < p @ t \<Longrightarrow> prefix p (x :: bytes)"
proof (induction p arbitrary: x)
  case Nil
  show ?case by simp
next
  case (Cons a p)
  then show ?case by (cases x) auto
qed

definition histUpper :: "u64 \<Rightarrow> bytes \<Rightarrow> u64 \<Rightarrow> bytes option" where
  "histUpper g k r = (if r = - 1 then PrefixUpperBound (HistKeyPrefix g k) else Some (HistKey g k (r + 1)))"

lemma word_less_succ: "r \<noteq> - 1 \<Longrightarrow> (q :: u64) < r + 1 \<longleftrightarrow> q \<le> r"
proof -
  assume "r \<noteq> - 1"
  then have "1 + r \<noteq> 0" by (metis add.commute add_eq_0_iff2)
  then have "unat (1 + r) = Suc (unat r)" by (rule unatSuc)
  then show ?thesis by (simp add: word_less_nat_alt word_le_nat_alt add.commute less_Suc_eq_le)
qed

text \<open>Of the entries in the window, those of the right length are the versions of the key at or below \<open>r\<close>.\<close>

lemma hist_window:
  "in_bounds (HistKeyPrefix g k) (histUpper g k r) (HistKey g k' q) \<and>
     length (HistKey g k' q) = length (HistKeyPrefix g k) + 8 \<longleftrightarrow> k' = k \<and> q \<le> r"
proof (cases "k' = k")
  case True
  have "HistKeyPrefix g k \<le> HistKey g k q" by (rule prefix_imp_le) (simp add: HistKey_def)
  moreover have "prefix (HistKeyPrefix g k) (HistKey g k q)" by (simp add: HistKey_def)
  ultimately show ?thesis
    using True prefix_iff_in_bounds [of "HistKeyPrefix g k" "HistKey g k q"] word_less_succ [of r q]
    by (auto simp: histUpper_def in_bounds_def HistKey_def u64_def append_less_cancel be64_less_iff)
next
  case False
  have "\<not> prefix (HistKeyPrefix g k) (HistKey g k' q)" if "length k' = length k"
    using that False by (auto simp: HistKeyPrefix_append HistKey_append prefix_def)
  moreover have "prefix (HistKeyPrefix g k) (HistKey g k' q)"
    if "in_bounds (HistKeyPrefix g k) (histUpper g k r) (HistKey g k' q)"
    using that prefix_iff_in_bounds [of "HistKeyPrefix g k" "HistKey g k' q"]
      between_prefix [of "HistKeyPrefix g k" "HistKey g k' q" "be64 (r + 1)"]
    by (auto simp: histUpper_def in_bounds_def HistKey_def [of g k] u64_def split: if_splits)
  moreover have "length k' = length k" if "length (HistKey g k' q) = length (HistKeyPrefix g k) + 8"
    using that by (simp add: HistKey_append HistKeyPrefix_append)
  ultimately show ?thesis using False by blast
qed

section \<open>Valid UTF-8\<close>

text \<open>
  \<^verbatim>\<open>encoding/json\<close> replaces invalid UTF-8 in a string by U+FFFD, so a struct with string
  fields survives encoding and decoding only when they are valid UTF-8. A decoded command always
  carries valid strings. The definition follows \<^verbatim>\<open>utf8.Valid\<close>: no overlong forms, no surrogates,
  nothing above U+10FFFF.
\<close>

abbreviation contByte :: "byte \<Rightarrow> bool" where
  "contByte b \<equiv> 0x80 \<le> b \<and> b \<le> 0xbf"

fun valid_utf8 :: "bytes \<Rightarrow> bool" where
  "valid_utf8 [] = True"
| "valid_utf8 (a # bs) =
     (if a \<le> 0x7f then valid_utf8 bs
      else (case bs of
        [] \<Rightarrow> False
      | b # cs \<Rightarrow>
          if 0xc2 \<le> a \<and> a \<le> 0xdf then contByte b \<and> valid_utf8 cs
          else (case cs of
            [] \<Rightarrow> False
          | c # ds \<Rightarrow>
              if 0xe0 \<le> a \<and> a \<le> 0xef
              then (if a = 0xe0 then 0xa0 else 0x80) \<le> b \<and> b \<le> (if a = 0xed then 0x9f else 0xbf) \<and>
                contByte c \<and> valid_utf8 ds
              else (case ds of
                [] \<Rightarrow> False
              | d # es \<Rightarrow> 0xf0 \<le> a \<and> a \<le> 0xf4 \<and>
                  (if a = 0xf0 then 0x90 else 0x80) \<le> b \<and> b \<le> (if a = 0xf4 then 0x8f else 0xbf) \<and>
                  contByte c \<and> contByte d \<and> valid_utf8 es))))"

definition write_utf8 :: "TxWrite \<Rightarrow> bool" where
  "write_utf8 w \<longleftrightarrow> valid_utf8 (w_Key w)"

definition intent_utf8 :: "intent \<Rightarrow> bool" where
  "intent_utf8 i \<longleftrightarrow> valid_utf8 (in_TxID i) \<and> (\<forall>w \<in> set (in_Writes i). write_utf8 w)"

definition lock_utf8 :: "lockState \<Rightarrow> bool" where
  "lock_utf8 l \<longleftrightarrow> valid_utf8 (l_Mode l) \<and> (\<forall>h \<in> set (l_Holders l). valid_utf8 (fst h))"

definition op_utf8 :: "Op \<Rightarrow> bool" where
  "op_utf8 x \<longleftrightarrow> valid_utf8 (o_Key x) \<and> valid_utf8 (o_Start x) \<and> valid_utf8 (o_End x) \<and>
     valid_utf8 (o_Prefix x) \<and> valid_utf8 (o_Cursor x) \<and> valid_utf8 (o_TxID x) \<and>
     (\<forall>r \<in> set (o_Reads x). valid_utf8 (fst r)) \<and> (\<forall>w \<in> set (o_Writes x). write_utf8 w) \<and>
     valid_utf8 (o_Resource x) \<and> valid_utf8 (o_Holder x) \<and> valid_utf8 (o_Mode x) \<and>
     (\<forall>p \<in> set (o_Pairs x). valid_utf8 (fst p))"

text \<open>Contents whose keys came through JSON.\<close>

definition keys_utf8 :: "(bytes \<rightharpoonup> Record) \<Rightarrow> bool" where
  "keys_utf8 l \<longleftrightarrow> (\<forall>k. l k \<noteq> None \<longrightarrow> valid_utf8 k)"

section \<open>What the code relies on\<close>

text \<open>
  Pebble's laws and the codecs': a record and a version survive encoding and decoding (numbers,
  base64 byte slices and booleans only); an intent, a freeze and a lock do when their strings are
  valid UTF-8, a lock's holder map up to the order of its entries; a decoded command or lock has
  valid strings and maps without duplicate keys.
\<close>

locale kv_env = pebble_laws E view
  for E :: "'db env" and view :: "'db \<Rightarrow> bytes \<rightharpoonup> bytes" +
  assumes record_rt: "unmarshalRecord E (marshalRecord E r) = Some r"
    and hist_rt: "unmarshalHist E (marshalHist E hv) = Some hv"
    and intent_rt: "intent_utf8 i \<Longrightarrow> unmarshalIntent E (marshalIntent E i) = Some i"
    and freeze_rt: "valid_utf8 (f_Start fr) \<Longrightarrow> valid_utf8 (f_End fr) \<Longrightarrow>
      unmarshalFreeze E (marshalFreeze E fr) = Some fr"
    and lock_rt: "lock_utf8 l \<Longrightarrow> distinct (map fst (l_Holders l)) \<Longrightarrow>
      \<exists>l'. unmarshalLock E (marshalLock E l) = Some l' \<and> l_Mode l' = l_Mode l \<and>
        l_Fencing l' = l_Fencing l \<and> distinct (map fst (l_Holders l')) \<and>
        map_of (l_Holders l') = map_of (l_Holders l)"
    and lock_decoded: "unmarshalLock E raw = Some l \<Longrightarrow> lock_utf8 l \<and> distinct (map fst (l_Holders l))"
    and op_decoded: "unmarshalOp E raw = Some x \<Longrightarrow>
      op_utf8 x \<and> distinct (map fst (o_Reads x)) \<and> distinct (map fst (o_Pairs x))"
begin

subsection \<open>Plain reads\<close>

lemma Get_view [simp]: "Get E db x = Inr (view db x)"
  by (simp add: Get_def DB_Get_law split: option.splits)

lemma readRecord_live:
  "ns_ok E (sm_gid s) (view (sm_st s)) \<Longrightarrow> readRecord E s k = Inr (smLive E view s k)"
  using ns_ok_live [of E "sm_gid s" "view (sm_st s)" k]
  by (cases "view (sm_st s) (SMKey (sm_gid s) k)") (auto simp: readRecord_def live_def)

lemma readRecordFrom_live:
  "ns_ok E (sm_gid s) (view db) \<Longrightarrow> readRecordFrom E s db k = Inr (live E (sm_gid s) (view db) k)"
  using ns_ok_live [of E "sm_gid s" "view db" k]
  by (cases "view db (SMKey (sm_gid s) k)") (auto simp: readRecordFrom_def DB_Get_law live_def)

lemma counterFrom_counter: "counter (view db) x n \<Longrightarrow> counterFrom E db x = Inr n"
  by (auto simp: counterFrom_def DB_Get_law counter_def)

lemma GetU64_counter: "counter (view db) x n \<Longrightarrow> GetU64 E db x = Inr n"
  by (auto simp: GetU64_def counter_def)

lemma loadFreeze_ok: "freeze_ok E g (view db) fr \<Longrightarrow> loadFreeze E db g = Inr fr"
  by (auto simp: loadFreeze_def freeze_ok_def split: option.splits)

subsection \<open>Versioned reads\<close>

lemma readAtScan_filter:
  "readAtScan E n ys = (case filter (\<lambda>e. length (fst e) = n) ys of
     [] \<Rightarrow> None
   | e # _ \<Rightarrow> (case unmarshalHist E (snd e) of
        None \<Rightarrow> None | Some hv \<Rightarrow> if h_Deleted hv then None else Some (recOf hv)))"
  by (induction ys) (auto simp: recOf_def split: option.splits)

text \<open>The entries the walk looks at are exactly the versions of the key at or below \<open>r\<close>.\<close>

lemma hist_window_entries:
  assumes ok: "ns_ok E g m"
    and xs: "set xs = {(x, v). m x = Some v \<and> in_bounds (HistKeyPrefix g k) (histUpper g k r) x}"
  shows "e \<in> set (filter (\<lambda>e. length (fst e) = length (HistKeyPrefix g k) + 8) xs) \<longleftrightarrow>
    (\<exists>q \<le> r. fst e = HistKey g k q \<and> m (HistKey g k q) = Some (snd e))"
proof
  assume e: "e \<in> set (filter (\<lambda>e. length (fst e) = length (HistKeyPrefix g k) + 8) xs)"
  then have m: "m (fst e) = Some (snd e)"
    and b: "in_bounds (HistKeyPrefix g k) (histUpper g k r) (fst e)"
    and l: "length (fst e) = length (HistKeyPrefix g k) + 8"
    using xs by (auto simp: case_prod_beta)
  have "prefix (HistKeyPrefix g k) (fst e)"
    using b prefix_iff_in_bounds [of "HistKeyPrefix g k" "fst e"]
      between_prefix [of "HistKeyPrefix g k" "fst e" "be64 (r + 1)"]
    by (auto simp: histUpper_def in_bounds_def HistKey_def [of g k] u64_def split: if_splits)
  then have "prefix (HistPrefix g) (fst e)"
    by (metis HistKeyPrefix_append append_prefixD)
  then obtain k' q where "fst e = HistKey g k' q" by (rule ns_ok_hist [OF ok m])
  with b l m hist_window [of g k r k' q] show "\<exists>q \<le> r. fst e = HistKey g k q \<and> m (HistKey g k q) = Some (snd e)"
    by auto
next
  assume "\<exists>q \<le> r. fst e = HistKey g k q \<and> m (HistKey g k q) = Some (snd e)"
  then obtain q where "q \<le> r" "fst e = HistKey g k q" "m (HistKey g k q) = Some (snd e)" by blast
  with hist_window [of g k r k q] show "e \<in> set (filter (\<lambda>e. length (fst e) = length (HistKeyPrefix g k) + 8) xs)"
    using xs by (auto simp: case_prod_beta)
qed

lemma sorted_rev_hd_max:
  assumes "sorted_keys zs" "rev zs = e # es" "x \<in> set zs"
  shows "fst x \<le> fst e"
proof -
  have "zs = rev es @ [e]" using arg_cong [OF assms(2), of rev] by simp
  with assms(1,3) show ?thesis by (auto simp: sorted_wrt_append)
qed

lemma readAtHist_newest:
  assumes "ns_ok E (sm_gid s) (view db)"
  shows "readAtHist E s db k r = Inr (showHist (newest (hist E (sm_gid s) (view db) k) r))"
proof -
  let ?g = "sm_gid s" and ?P = "\<lambda>e. length (fst e) = length (HistKeyPrefix (sm_gid s) k) + 8"
  obtain xs where xs: "DB_NewIter E db (HistKeyPrefix ?g k) (histUpper ?g k r) = Inr xs" "sorted_keys xs"
    "set xs = {(x, v). view db x = Some v \<and> in_bounds (HistKeyPrefix ?g k) (histUpper ?g k r) x}"
    by (rule DB_NewIter_cases)
  note win = hist_window_entries [OF assms xs(3)]
  have sorted: "sorted_keys (filter ?P xs)"
    using xs(2) by (simp add: sorted_wrt_map sorted_wrt_filter)
  have "readAtScan E (length (HistKeyPrefix ?g k) + 8) (rev xs) = showHist (newest (hist E ?g (view db) k) r)"
  proof (cases "rev (filter ?P xs)")
    case Nil
    then have none: "\<not> (\<exists>q \<le> r. fst e = HistKey ?g k q \<and> view db (HistKey ?g k q) = Some (snd e))" for e
      using win [of e] by simp
    have "hist E ?g (view db) k q = None" if "q \<le> r" for q
      using none [of "(HistKey ?g k q, the (view db (HistKey ?g k q)))"] that
      by (cases "view db (HistKey ?g k q)") (auto simp: hist_def)
    with Nil newest_NoneI [of r "hist E ?g (view db) k"] show ?thesis
      by (simp add: readAtScan_filter rev_filter [symmetric])
  next
    case (Cons e es)
    then have "e \<in> set (filter ?P xs)" by (metis list.set_intros(1) set_rev)
    with win [of e] obtain q where q: "q \<le> r" "fst e = HistKey ?g k q" "view db (HistKey ?g k q) = Some (snd e)"
      by blast
    have "prefix (HistPrefix ?g) (HistKey ?g k q)" by (simp add: HistKey_append)
    then obtain hv where hv: "unmarshalHist E (snd e) = Some hv" "hist E ?g (view db) k q = Some hv"
      using ns_ok_hist [OF assms q(3)] by (metis HistKey_inject)
    have "q' \<le> q" if q': "q' \<le> r" "hist E ?g (view db) k q' \<noteq> None" for q'
    proof -
      from q'(2) obtain v where v: "view db (HistKey ?g k q') = Some v" by (auto simp: hist_def bind_eq_None_conv)
      with q'(1) win [of "(HistKey ?g k q', v)"] have "(HistKey ?g k q', v) \<in> set (filter ?P xs)" by auto
      with sorted_rev_hd_max [OF sorted Cons] q(2) have "HistKey ?g k q' \<le> HistKey ?g k q" by fastforce
      then have "be64 q' \<le> be64 q" by (simp add: HistKey_append append_le_cancel)
      then show ?thesis using be64_less_iff [of q q'] by (simp add: not_less [symmetric])
    qed
    with q(1) hv(2) have "newest (hist E ?g (view db) k) r = Some hv" by (intro newest_eqI [of q]) auto
    with Cons hv(1) show ?thesis by (simp add: readAtScan_filter rev_filter [symmetric])
  qed
  with xs(1) show ?thesis by (simp add: readAtHist_def histUpper_def Let_def)
qed

lemma readAt_cell_at:
  assumes "ns_ok E (sm_gid s) (view db)"
  shows "readAt E s db k r = Inr (cell_at (cellOf E (sm_gid s) (view db) k) r)"
  by (simp add: readAt_def readRecordFrom_live [OF assms] readAtHist_newest [OF assms] cell_at_def
      split: option.splits)

end

end
