(* ===== verification/KV_Stage.thy ===== *)
theory KV_Stage
  imports KV_View
begin

text \<open>
  What a command stages. While a command runs, its reads see the committed store and its writes go to
  a batch; \<^verbatim>\<open>staged\<close> relates the two: committing the batch so far writes the cells in \<open>A\<close>
  once each at the revision of the entry and leaves every other cell alone. Each primitive of the
  code extends the relation by one step, and each command is a sequence of primitives.
\<close>

section \<open>One key of the store at a time\<close>

lemma freezeStateKey_eq: "freezeStateKey g = concat [str ''m/'', be64 g, str ''/f'']"
  by (simp add: freezeStateKey_def key_defs Let_def list_update_append)

lemma freezeStateKey_distinct [simp]:
  "freezeStateKey g \<noteq> SMKey h k" "freezeStateKey g \<noteq> IntentKey h k" "freezeStateKey g \<noteq> HistKey h k r"
  "freezeStateKey g \<noteq> RevisionKey h" "freezeStateKey g \<noteq> MVCCCutoffKey h" "freezeStateKey g \<noteq> RaftAppliedKey h"
  by (simp_all add: freezeStateKey_eq key_defs RaftAppliedKey_def)

lemmas freezeStateKey_distinct' [simp] = freezeStateKey_distinct [symmetric]

lemma not_prefix_HistPrefix [simp]:
  "\<not> prefix (HistPrefix g) (SMKey h k)" "\<not> prefix (HistPrefix g) (IntentKey h k)"
  "\<not> prefix (HistPrefix g) (RevisionKey h)" "\<not> prefix (HistPrefix g) (MVCCCutoffKey h)"
  "\<not> prefix (HistPrefix g) (freezeStateKey h)" "\<not> prefix (HistPrefix g) (RaftAppliedKey h)"
  by (simp_all add: key_defs freezeStateKey_eq RaftAppliedKey_def prefix_def)

lemma prefix_HistPrefix_HistKey [simp]: "prefix (HistPrefix g) (HistKey g k q)"
  by (simp add: HistKey_append)

text \<open>Keys that hold neither records nor versions nor the three singletons of the group.\<close>

definition foreign :: "u64 \<Rightarrow> bytes \<Rightarrow> bool" where
  "foreign g x \<longleftrightarrow> (\<forall>k. x \<noteq> SMKey g k) \<and> \<not> prefix (HistPrefix g) x \<and>
     x \<noteq> RevisionKey g \<and> x \<noteq> MVCCCutoffKey g \<and> x \<noteq> freezeStateKey g"

lemma foreign_simps [simp]: "foreign g (IntentKey h k)" "foreign g (RaftAppliedKey h)"
  by (simp_all add: foreign_def)

lemma foreign_HistKey: "foreign g x \<Longrightarrow> x \<noteq> HistKey g k q"
  by (auto simp: foreign_def)

definition act :: "u64 \<Rightarrow> cell_val option \<Rightarrow> cell \<Rightarrow> cell" where
  "act n a c = (case a of None \<Rightarrow> c | Some w \<Rightarrow> cell_write n w c)"

lemma act_None [simp]: "act n None c = c"
  by (simp add: act_def)

lemma act_put [simp]: "act n (Some (Some (v, bl))) c = cell_put \<lparr>r_Rev = n, r_Value = v, r_Blob = bl\<rparr> c"
  by (simp add: act_def cell_write_def)

lemma act_del [simp]: "act n (Some None) c = cell_del n c"
  by (simp add: act_def cell_write_def)

lemma archive_twice: "archive l (archive l h) = archive l h"
  by (simp add: archive_def split: option.splits)

lemma fst_act: "fst (act n a c) = (case a of None \<Rightarrow> fst c | Some None \<Rightarrow> None
  | Some (Some (v, bl)) \<Rightarrow> Some \<lparr>r_Rev = n, r_Value = v, r_Blob = bl\<rparr>)"
  by (auto simp: act_def cell_write_def cell_put_def cell_del_def split: option.splits)

text \<open>Archiving the committed record again after an earlier write of the same command changes nothing.\<close>

lemma act_put_again:
  "a \<noteq> Some None \<Longrightarrow> archive (fst c) (snd (act n a c)) = archive (fst c) (snd c)"
  by (cases a; cases "the a") (auto simp: cell_put_def archive_twice)

lemma act_del_again:
  "(case fst c of None \<Rightarrow> snd (act n a c)
    | Some old \<Rightarrow> (archive (fst c) (snd (act n a c)))(n \<mapsto> tombstone n)) = snd (cell_del n c)"
proof (cases "fst c")
  case None
  then show ?thesis by (cases a; cases "the a") (auto simp: cell_put_def cell_del_def archive_def)
next
  case (Some old)
  then show ?thesis
    by (cases a; cases "the a") (auto simp: cell_put_def cell_del_def archive_def)
qed

text \<open>A write of a transaction as a cell sees it, and all writes of a transaction's intents in a scan.\<close>

definition writeVal :: "TxWrite \<Rightarrow> cell_val" where
  "writeVal w = (if w_Delete w then None else Some (w_Value w, w_Blob w))"

definition txWrites :: "'db env \<Rightarrow> bytes \<Rightarrow> (bytes \<times> bytes) list \<Rightarrow> TxWrite list" where
  "txWrites E txid xs = concat (map (\<lambda>(k, v). case unmarshalIntent E v of
     None \<Rightarrow> [] | Some i \<Rightarrow> if in_TxID i = txid then in_Writes i else []) xs)"

section \<open>The staging relation\<close>

definition staged :: "'db env \<Rightarrow> ('db \<Rightarrow> bytes \<rightharpoonup> bytes) \<Rightarrow> 'db SM \<Rightarrow> u64 \<Rightarrow> (bytes \<rightharpoonup> cell_val) \<Rightarrow>
    'db work \<Rightarrow> bool" where
  "staged E view s0 n A sb \<longleftrightarrow>
     (let s = fst sb; g = sm_gid s0; m = apply_batch (snd sb) (view (sm_st s0))
      in sm_ok E view s0 \<and> sm_st s = sm_st s0 \<and> sm_gid s = g \<and> sm_cutoff s = sm_cutoff s0 \<and>
         ns_ok E g m \<and> counter m (RevisionKey g) (sm_rev s) \<and> counter m (MVCCCutoffKey g) (sm_cutoff s0) \<and>
         freeze_ok E g m (sm_freeze s) \<and>
         (\<forall>k. cellOf E g m k = act n (A k) (smCell E view s0 k)) \<and>
         (sm_rev s = n \<or> sm_rev s = sm_rev s0 \<and> A = (\<lambda>_. None)))"

context kv_env
begin

lemma live_upd_SMKey: "live E g (m(SMKey g k := x)) = (live E g m)(k := Option.bind x (unmarshalRecord E))"
  by (rule ext) (simp add: live_def)

lemma live_upd_other: "(\<And>k. x \<noteq> SMKey g k) \<Longrightarrow> live E g (m(x := y)) = live E g m"
  by (rule ext) (auto simp: live_def)

lemma hist_upd_HistKey:
  "hist E g (m(HistKey g k q := x)) k' = (if k' = k then (hist E g m k)(q := Option.bind x (unmarshalHist E)) else hist E g m k')"
  by (rule ext) (simp add: hist_def)

lemma hist_upd_other: "(\<And>k q. x \<noteq> HistKey g k q) \<Longrightarrow> hist E g (m(x := y)) k = hist E g m k"
  by (rule ext) (auto simp: hist_def)

lemma ns_ok_upd:
  assumes "ns_ok E g m" "\<And>k raw. x = SMKey g k \<Longrightarrow> y = Some raw \<Longrightarrow> unmarshalRecord E raw \<noteq> None"
    "\<And>raw. prefix (HistPrefix g) x \<Longrightarrow> y = Some raw \<Longrightarrow> (\<exists>k q. x = HistKey g k q) \<and> unmarshalHist E raw \<noteq> None"
  shows "ns_ok E g (m(x := y))"
  unfolding ns_ok_def fun_upd_apply
  using assms(2,3) assms(1) [unfolded ns_ok_def] by (metis (no_types, lifting))

lemma counter_upd: "x \<noteq> z \<Longrightarrow> counter (m(x := y)) z n \<longleftrightarrow> counter m z n"
  by (simp add: counter_def)

lemma freeze_upd: "x \<noteq> freezeStateKey g \<Longrightarrow> freeze_ok E g (m(x := y)) fr \<longleftrightarrow> freeze_ok E g m fr"
  by (simp add: freeze_ok_def)

lemmas upd_simps = counter_upd freeze_upd live_upd_SMKey live_upd_other hist_upd_HistKey hist_upd_other

lemma staged_start: "sm_ok E view s \<Longrightarrow> staged E view s n (\<lambda>_. None) (s\<lparr>sm_ops := c\<rparr>, [])"
  by (simp add: staged_def sm_ok_def)

lemma staged_committed:
  assumes "staged E view s0 n A sb"
  shows "sm_st (fst sb) = sm_st s0" "sm_gid (fst sb) = sm_gid s0" "sm_cutoff (fst sb) = sm_cutoff s0" "sm_ok E view s0"
  using assms by (simp_all add: staged_def Let_def)

lemma staged_readRecord: "staged E view s0 n A sb \<Longrightarrow> readRecord E (fst sb) k = Inr (smLive E view s0 k)"
  using readRecord_live [of "fst sb" k] by (simp add: staged_def sm_ok_def Let_def)

lemma staged_bumpRev:
  assumes "staged E view s0 n A sb"
  shows "staged E view s0 n A (bumpRev n sb)"
proof -
  obtain s b where sb: "sb = (s, b)" by (cases sb)
  show ?thesis using assms unfolding sb staged_def bumpRev_def
    by (auto simp: Let_def counter_def freeze_upd cellOf_def live_upd_other hist_upd_other intro!: ns_ok_upd)
qed

lemma bumpRev_rev [simp]: "sm_rev (fst (bumpRev n sb)) = n"
  by (simp add: bumpRev_def split: prod.splits)

subsection \<open>Single writes\<close>

lemma emit_fields [simp]:
  "sm_gid (emit ev s) = sm_gid s" "sm_st (emit ev s) = sm_st s" "sm_rev (emit ev s) = sm_rev s"
  "sm_cutoff (emit ev s) = sm_cutoff s" "sm_freeze (emit ev s) = sm_freeze s" "sm_maxValue (emit ev s) = sm_maxValue s"
  by (simp_all add: emit_def)

lemma ns_ok_put: "ns_ok E g m \<Longrightarrow> ns_ok E g (m(SMKey g k \<mapsto> marshalRecord E r))"
  by (rule ns_ok_upd) (auto simp: record_rt)

lemma ns_ok_del: "ns_ok E g m \<Longrightarrow> ns_ok E g (m(SMKey g k := None))"
  by (rule ns_ok_upd) auto

lemma ns_ok_archive: "ns_ok E g m \<Longrightarrow> ns_ok E g (m(HistKey g k q \<mapsto> marshalHist E hv))"
  by (rule ns_ok_upd) (auto simp: hist_rt)

definition archived :: "u64 \<Rightarrow> bytes \<Rightarrow> Record option \<Rightarrow> (bytes \<rightharpoonup> bytes) \<Rightarrow> (bytes \<rightharpoonup> bytes)" where
  "archived g k l m = (case l of None \<Rightarrow> m | Some old \<Rightarrow> m(HistKey g k (r_Rev old) \<mapsto> marshalHist E (histOf old)))"

lemma archived_simps [simp]:
  "live E g (archived g k l m) = live E g m"
  "hist E g (archived g k l m) k' = (if k' = k then archive l (hist E g m k) else hist E g m k')"
  "ns_ok E g m \<Longrightarrow> ns_ok E g (archived g k l m)"
  "counter (archived g k l m) (RevisionKey g) n = counter m (RevisionKey g) n"
  "counter (archived g k l m) (MVCCCutoffKey g) n = counter m (MVCCCutoffKey g) n"
  "freeze_ok E g (archived g k l m) fr = freeze_ok E g m fr"
  by (auto simp: archived_def archive_def upd_simps hist_rt ns_ok_archive split: option.splits)

lemma putRecord_batch:
  assumes "staged E view s0 n A (s, b)"
  shows "apply_batch (snd (putRecord E k r (s, b))) (view (sm_st s0)) =
    (archived (sm_gid s0) k (smLive E view s0 k) (apply_batch b (view (sm_st s0))))
      (SMKey (sm_gid s0) k \<mapsto> marshalRecord E r)"
  using staged_readRecord [OF assms, of k] staged_committed [OF assms]
  by (auto simp: putRecord_def archiveVersion_def archived_def split: option.splits)

lemma deleteRecord_batch:
  assumes "staged E view s0 n A (s, b)"
  shows "apply_batch (snd (deleteRecord E k n (s, b))) (view (sm_st s0)) =
    (let m = archived (sm_gid s0) k (smLive E view s0 k) (apply_batch b (view (sm_st s0)))
     in if smLive E view s0 k = None then m(SMKey (sm_gid s0) k := None)
        else m(HistKey (sm_gid s0) k n \<mapsto> marshalHist E (tombstone n), SMKey (sm_gid s0) k := None))"
  using staged_readRecord [OF assms, of k] staged_committed [OF assms]
  by (auto simp: deleteRecord_def archiveVersion_def archived_def split: option.splits)

lemma putRecord_fields [simp]:
  "sm_gid (fst (putRecord E k r sb)) = sm_gid (fst sb)" "sm_st (fst (putRecord E k r sb)) = sm_st (fst sb)"
  "sm_rev (fst (putRecord E k r sb)) = sm_rev (fst sb)" "sm_cutoff (fst (putRecord E k r sb)) = sm_cutoff (fst sb)"
  "sm_freeze (fst (putRecord E k r sb)) = sm_freeze (fst sb)"
  by (simp_all add: putRecord_def Let_def split: prod.splits)

lemma deleteRecord_fields [simp]:
  "sm_gid (fst (deleteRecord E k n sb)) = sm_gid (fst sb)" "sm_st (fst (deleteRecord E k n sb)) = sm_st (fst sb)"
  "sm_rev (fst (deleteRecord E k n sb)) = sm_rev (fst sb)" "sm_cutoff (fst (deleteRecord E k n sb)) = sm_cutoff (fst sb)"
  "sm_freeze (fst (deleteRecord E k n sb)) = sm_freeze (fst sb)"
  by (simp_all add: deleteRecord_def Let_def split: prod.splits)

lemma staged_putRecord:
  assumes st: "staged E view s0 n A sb" and rv: "sm_rev (fst sb) = n" and a: "A k \<noteq> Some None"
  shows "staged E view s0 n (A(k \<mapsto> Some (v, bl))) (putRecord E k \<lparr>r_Rev = n, r_Value = v, r_Blob = bl\<rparr> sb)"
proof -
  obtain s b where sb: "sb = (s, b)" by (cases sb)
  let ?g = "sm_gid s0" and ?m = "apply_batch b (view (sm_st s0))" and ?l = "smLive E view s0 k"
  let ?r = "\<lparr>r_Rev = n, r_Value = v, r_Blob = bl\<rparr>"
  let ?m' = "(archived ?g k ?l ?m)(SMKey ?g k \<mapsto> marshalRecord E ?r)"
  have cells: "cellOf E ?g ?m k' = act n (A k') (smCell E view s0 k')" for k'
    using st by (simp add: sb staged_def Let_def)
  have "cellOf E ?g ?m' k' = act n ((A(k \<mapsto> Some (v, bl))) k') (smCell E view s0 k')" for k'
  proof (cases "k' = k")
    case True
    have "hist E ?g ?m k = snd (act n (A k) (smCell E view s0 k))" using cells [of k] by (simp add: cellOf_def prod_eq_iff)
    with act_put_again [OF a, where n = n and c = "smCell E view s0 k"] show ?thesis
      by (simp add: True cellOf_def [of E ?g ?m'] upd_simps record_rt cell_put_def)
  qed (use cells [of k'] in \<open>simp add: cellOf_def upd_simps\<close>)
  moreover have "ns_ok E ?g ?m'" using st by (simp add: sb staged_def Let_def ns_ok_put)
  ultimately show ?thesis
    using st rv putRecord_batch [of s0 n A s b k ?r] by (simp add: sb staged_def Let_def upd_simps)
qed

lemma staged_deleteRecord:
  assumes st: "staged E view s0 n A sb" and rv: "sm_rev (fst sb) = n"
  shows "staged E view s0 n (A(k \<mapsto> None)) (deleteRecord E k n sb)"
proof -
  obtain s b where sb: "sb = (s, b)" by (cases sb)
  let ?g = "sm_gid s0" and ?m = "apply_batch b (view (sm_st s0))" and ?l = "smLive E view s0 k"
  let ?m1 = "archived ?g k ?l ?m"
  let ?m' = "(if ?l = None then ?m1 else ?m1(HistKey ?g k n \<mapsto> marshalHist E (tombstone n)))(SMKey ?g k := None)"
  have eq: "apply_batch (snd (deleteRecord E k n (s, b))) (view (sm_st s0)) = ?m'"
    using deleteRecord_batch [of s0 n A s b k] st by (simp add: sb Let_def)
  have cells: "cellOf E ?g ?m k' = act n (A k') (smCell E view s0 k')" for k'
    using st by (simp add: sb staged_def Let_def)
  have "cellOf E ?g ?m' k' = act n ((A(k \<mapsto> None)) k') (smCell E view s0 k')" for k'
  proof (cases "k' = k")
    case True
    have "hist E ?g ?m k = snd (act n (A k) (smCell E view s0 k))" using cells [of k] by (simp add: cellOf_def prod_eq_iff)
    with act_del_again [where c = "smCell E view s0 k" and n = n and a = "A k"] show ?thesis
      by (cases ?l) (auto simp: True prod_eq_iff upd_simps hist_rt cell_del_def archive_def)
  qed (use cells [of k'] in \<open>simp add: cellOf_def upd_simps\<close>)
  moreover have "ns_ok E ?g ?m'"
    using st by (simp add: sb staged_def Let_def ns_ok_del ns_ok_archive)
  ultimately show ?thesis
    using st rv eq by (simp add: sb staged_def Let_def upd_simps)
qed

subsection \<open>Keys the cells do not live under\<close>

lemma foreign_upd:
  assumes "foreign g x"
  shows "cellOf E g (m(x := y)) k = cellOf E g m k" "ns_ok E g m \<Longrightarrow> ns_ok E g (m(x := y))"
    "counter (m(x := y)) (RevisionKey g) n = counter m (RevisionKey g) n"
    "counter (m(x := y)) (MVCCCutoffKey g) n = counter m (MVCCCutoffKey g) n"
    "freeze_ok E g (m(x := y)) fr = freeze_ok E g m fr"
  using assms foreign_HistKey [OF assms]
  by (auto simp: foreign_def cellOf_def upd_simps intro!: ns_ok_upd)

lemma staged_foreign_set: "staged E view s0 n A (s, b) \<Longrightarrow> foreign (sm_gid s0) x \<Longrightarrow> staged E view s0 n A (s, b @ [BSet x y])"
  by (simp add: staged_def Let_def foreign_upd)

lemma staged_foreign_delete: "staged E view s0 n A (s, b) \<Longrightarrow> foreign (sm_gid s0) x \<Longrightarrow> staged E view s0 n A (s, b @ [BDelete x])"
  by (simp add: staged_def Let_def foreign_upd)

lemma staged_foreign_sets:
  "staged E view s0 n A (s, b) \<Longrightarrow> (\<And>w. w \<in> set ws \<Longrightarrow> foreign (sm_gid s0) (f w)) \<Longrightarrow>
    staged E view s0 n A (s, b @ map (\<lambda>w. BSet (f w) (y w)) ws)"
proof (induction ws arbitrary: b)
  case (Cons w ws)
  from Cons.IH [OF staged_foreign_set [OF Cons.prems(1), of "f w" "y w"]] Cons.prems(2) show ?case by simp
qed simp

lemma staged_foreign_deletes:
  "staged E view s0 n A (s, b) \<Longrightarrow> (\<And>w. w \<in> set ws \<Longrightarrow> foreign (sm_gid s0) (f w)) \<Longrightarrow>
    staged E view s0 n A (s, b @ map (\<lambda>w. BDelete (f w)) ws)"
proof (induction ws arbitrary: b)
  case (Cons w ws)
  from Cons.IH [OF staged_foreign_delete [OF Cons.prems(1), of "f w"]] Cons.prems(2) show ?case by simp
qed simp

lemma staged_freeze:
  assumes "staged E view s0 n A (s, b)"
  shows "valid_utf8 (f_Start fr) \<Longrightarrow> valid_utf8 (f_End fr) \<Longrightarrow>
      staged E view s0 n A (s\<lparr>sm_freeze := Some fr\<rparr>, b @ [BSet (freezeStateKey (sm_gid s0)) (marshalFreeze E fr)])"
    and "staged E view s0 n A (s\<lparr>sm_freeze := None\<rparr>, b @ [BDelete (freezeStateKey (sm_gid s0))])"
  using assms by (auto simp: staged_def Let_def upd_simps cellOf_def freeze_ok_def freeze_rt intro!: ns_ok_upd)

subsection \<open>Write sets\<close>

lemma staged_writes:
  assumes "staged E view s0 n A sb" "sm_rev (fst sb) = n"
    "\<forall>w \<in> set ws. \<not> w_Delete w \<longrightarrow> A (w_Key w) \<noteq> Some None"
    "sorted_wrt (\<lambda>w w'. w_Delete w \<and> \<not> w_Delete w' \<longrightarrow> w_Key w \<noteq> w_Key w') ws"
  shows "staged E view s0 n (fold (\<lambda>w A. A(w_Key w \<mapsto> writeVal w)) ws A) (fold (stageWrite E n) ws sb)"
  using assms
proof (induction ws arbitrary: A sb)
  case Nil
  then show ?case by simp
next
  case (Cons w ws)
  have "staged E view s0 n (A(w_Key w \<mapsto> writeVal w)) (stageWrite E n w sb)"
    using Cons.prems(1-3) staged_putRecord [of s0 n A sb "w_Key w" "w_Value w" "w_Blob w"]
      staged_deleteRecord [of s0 n A sb "w_Key w"]
    by (auto simp: stageWrite_def writeVal_def)
  moreover have "sm_rev (fst (stageWrite E n w sb)) = n" using Cons.prems(2) by (simp add: stageWrite_def)
  moreover have "\<forall>w' \<in> set ws. \<not> w_Delete w' \<longrightarrow> (A(w_Key w \<mapsto> writeVal w)) (w_Key w') \<noteq> Some None"
    using Cons.prems(3,4) by (auto simp: writeVal_def)
  ultimately show ?case
    using Cons.prems(4) Cons.IH [of "A(w_Key w \<mapsto> writeVal w)" "stageWrite E n w sb"]
    by (simp del: fun_upd_apply)
qed

lemma staged_deletes:
  assumes "staged E view s0 n A sb" "sm_rev (fst sb) = n"
  shows "staged E view s0 n (\<lambda>k. if k \<in> f ` set xs then Some None else A k)
    (fold (\<lambda>x. deleteRecord E (f x) n) xs sb)"
  using assms
proof (induction xs arbitrary: A sb)
  case Nil
  then show ?case by simp
next
  case (Cons x xs)
  have "staged E view s0 n (\<lambda>k. if k \<in> f ` set xs then Some None else (A(f x \<mapsto> None)) k)
    (fold (\<lambda>x. deleteRecord E (f x) n) xs (deleteRecord E (f x) n sb))"
    using Cons.prems by (intro Cons.IH staged_deleteRecord) simp_all
  moreover have "(\<lambda>k. if k \<in> f ` set xs then Some None else (A(f x \<mapsto> None)) k) =
      (\<lambda>k. if k \<in> f ` set (x # xs) then Some None else A k)"
    by (rule ext) simp
  ultimately show ?case by simp
qed

subsection \<open>Committing prepared writes\<close>

lemma staged_commitWrites:
  assumes "staged E view s0 n A sb" "sm_rev (fst sb) = n" "set seen = dom A"
    "commitWrites E n ws (seen, sb) = (seen', sb')"
  shows "staged E view s0 n (map_of (map (\<lambda>w. (w_Key w, writeVal w)) ws) ++ A) sb' \<and> sm_rev (fst sb') = n \<and>
    set seen' = dom (map_of (map (\<lambda>w. (w_Key w, writeVal w)) ws) ++ A)"
  using assms
proof (induction ws arbitrary: A sb seen)
  case Nil
  then show ?case by simp
next
  case (Cons w ws)
  let ?M = "map_of (map (\<lambda>w. (w_Key w, writeVal w)) ws)"
  have "?M(w_Key w \<mapsto> writeVal w) ++ A = (if A (w_Key w) = None then ?M ++ A(w_Key w \<mapsto> writeVal w) else ?M ++ A)"
    by (rule ext) (auto simp: map_add_def split: option.splits)
  moreover have "staged E view s0 n (A(w_Key w \<mapsto> writeVal w)) (stageWrite E n w sb)" if "A (w_Key w) = None"
    using staged_writes [of s0 n A sb "[w]"] Cons.prems(1,2) that by simp
  moreover have "sm_rev (fst (stageWrite E n w sb)) = n" using Cons.prems(2) by (simp add: stageWrite_def)
  moreover have "set (w_Key w # seen) = dom (A(w_Key w \<mapsto> writeVal w))" using Cons.prems(3) by simp
  moreover have "w_Key w \<in> set seen \<longleftrightarrow> A (w_Key w) \<noteq> None" using Cons.prems(3) by (simp add: domIff)
  ultimately show ?case
    using Cons.prems Cons.IH [of A sb seen] Cons.IH [of "A(w_Key w \<mapsto> writeVal w)" "stageWrite E n w sb" "w_Key w # seen"]
    by (cases "A (w_Key w) = None") (simp_all del: fun_upd_apply map_add_upd dom_map_add dom_fun_upd list.set(2))
qed

lemma staged_commitIntents:
  assumes "staged E view s0 n A sb" "sm_rev (fst sb) = n" "set seen = dom A"
    "\<forall>e \<in> set xs. foreign (sm_gid s0) (fst e)" "commitIntents E n txid xs (seen, sb) = (seen', sb')"
  shows "staged E view s0 n (map_of (map (\<lambda>w. (w_Key w, writeVal w)) (txWrites E txid xs)) ++ A) sb' \<and> sm_rev (fst sb') = n"
  using assms
proof (induction xs arbitrary: A sb seen)
  case Nil
  then show ?case by (simp add: txWrites_def)
next
  case (Cons e xs)
  obtain k v where e: "e = (k, v)" by (cases e)
  show ?case
  proof (cases "ownIntent E txid v")
    case False
    with Cons.prems have "commitIntents E n txid xs (seen, sb) = (seen', sb')"
      by (auto simp: e ownIntent_def split: option.splits)
    with Cons.IH [OF Cons.prems(1-3)] Cons.prems(4) False show ?thesis
      by (auto simp: txWrites_def e ownIntent_def split: option.splits)
  next
    case True
    then obtain i where i: "unmarshalIntent E v = Some i" "in_TxID i = txid"
      by (auto simp: ownIntent_def split: option.splits)
    obtain seen1 sb1 where c: "commitWrites E n (in_Writes i) (seen, stageBop (BDelete k) sb) = (seen1, sb1)"
      by (cases "commitWrites E n (in_Writes i) (seen, stageBop (BDelete k) sb)")
    have "staged E view s0 n A (stageBop (BDelete k) sb)"
      using staged_foreign_delete [of s0 n A "fst sb" "snd sb" k] Cons.prems(1,4) by (simp add: stageBop_def e)
    from staged_commitWrites [OF this _ Cons.prems(3) c] Cons.prems(2)
    have c1: "staged E view s0 n (map_of (map (\<lambda>w. (w_Key w, writeVal w)) (in_Writes i)) ++ A) sb1" "sm_rev (fst sb1) = n"
      "set seen1 = dom (map_of (map (\<lambda>w. (w_Key w, writeVal w)) (in_Writes i)) ++ A)"
      by (simp_all add: stageBop_def)
    have "commitIntents E n txid xs (seen1, sb1) = (seen', sb')" using Cons.prems(5) i c by (simp add: e)
    from Cons.IH [OF c1 _ this] Cons.prems(4) i show ?thesis
      by (simp add: txWrites_def e map_add_assoc)
  qed
qed

end

end
