(* ===== verification/KV_GC.thy ===== *)
theory KV_GC
  imports KV_Stage
begin

text \<open>
  History garbage collection against the abstract pruning of cells. \<^verbatim>\<open>maybeGC\<close> groups the
  scanned versions by user key, sorts them and drops the ones it can; the set of Pebble keys it drops
  is exactly the set of versions that \<^verbatim>\<open>gcKeep\<close> does not keep. Its deletes join the batch of
  the entry that triggered it, and pruning then commutes with the writes of that entry.
\<close>

section \<open>The walk over one key's versions\<close>

lemma parseHist_HistKey [simp]: "parseHist (length (HistPrefix g)) (HistKey g k q) = Some (k, q)"
  by (simp add: parseHist_def Let_def nth_append)

text \<open>A sorted list of the versions of a history from some revision on.\<close>

definition versions_of :: "u64 \<Rightarrow> bytes \<Rightarrow> history \<Rightarrow> ver list \<Rightarrow> bool" where
  "versions_of g k h vs \<longleftrightarrow> sorted_wrt (<) (map v_rev vs) \<and>
     (\<forall>v \<in> set vs. v_key v = HistKey g k (v_rev v) \<and> (\<exists>hv. h (v_rev v) = Some hv \<and> h_Deleted hv = v_deleted v)) \<and>
     (\<forall>v \<in> set vs. \<forall>q. v_rev v \<le> q \<longrightarrow> h q \<noteq> None \<longrightarrow> q \<in> v_rev ` set vs)"

lemma versions_of_tl: "versions_of g k h (v # vs) \<Longrightarrow> versions_of g k h vs"
  unfolding versions_of_def by (auto, (metis image_iff insertE leD order_less_le_trans)+)

lemma versions_of_succ:
  assumes "versions_of g k h (v # vs)"
  shows "(\<exists>q' > v_rev v. h q' \<noteq> None) \<longleftrightarrow> vs \<noteq> []"
    and "gcSucc l h (v_rev v) = (case vs of v' # _ \<Rightarrow> v_rev v' | [] \<Rightarrow> (case l of Some rec \<Rightarrow> r_Rev rec | None \<Rightarrow> - 1))"
proof -
  have later: "q' \<in> v_rev ` set vs" if "v_rev v < q'" "h q' \<noteq> None" for q'
    using assms [unfolded versions_of_def, THEN conjunct2, THEN conjunct2, rule_format, of v q']
      order_less_imp_le [OF that(1)] that by auto
  have here: "v_rev v < v_rev v' \<and> h (v_rev v') \<noteq> None" if "v' \<in> set vs" for v'
    using assms that by (auto simp: versions_of_def)
  show ex: "(\<exists>q' > v_rev v. h q' \<noteq> None) \<longleftrightarrow> vs \<noteq> []"
    using later here by (cases vs) fastforce+
  show "gcSucc l h (v_rev v) = (case vs of v' # _ \<Rightarrow> v_rev v' | [] \<Rightarrow> (case l of Some rec \<Rightarrow> r_Rev rec | None \<Rightarrow> - 1))"
  proof (cases vs)
    case Nil
    with ex show ?thesis unfolding gcSucc_def by (metis (mono_tags, lifting) list.simps(4))
  next
    case (Cons v' vs')
    have "Min {q'. v_rev v < q' \<and> h q' \<noteq> None} = v_rev v'"
    proof (rule Min_eqI)
      show "v_rev v' \<in> {q'. v_rev v < q' \<and> h q' \<noteq> None}" using here [of v'] Cons by simp
      fix q' assume "q' \<in> {q'. v_rev v < q' \<and> h q' \<noteq> None}"
      with later [of q'] have "q' \<in> v_rev ` set vs" by simp
      with assms Cons show "v_rev v' \<le> q'" by (auto simp: versions_of_def intro: order_less_imp_le)
    qed simp
    moreover have "gcSucc l h (v_rev v) = Min {q'. v_rev v < q' \<and> h q' \<noteq> None}"
      unfolding gcSucc_def using ex Cons by (metis (mono_tags, lifting) list.distinct(1))
    ultimately show ?thesis using Cons by simp
  qed
qed

lemma gcKey_set:
  assumes "versions_of g k h vs"
  shows "set (gcKey co (map_option r_Rev l) vs) =
    {HistKey g k (v_rev v) | v. v \<in> set vs \<and> \<not> gcKeep co l h (v_rev v)}"
  using assms
proof (induction vs)
  case Nil
  show ?case by simp
next
  case (Cons v vs)
  obtain hv where hv: "h (v_rev v) = Some hv" "h_Deleted hv = v_deleted v" "v_key v = HistKey g k (v_rev v)"
    using Cons.prems by (auto simp: versions_of_def)
  have "gcKeep co l h (v_rev v) \<longleftrightarrow>
    (if vs = [] \<and> map_option r_Rev l = None \<and> v_deleted v \<and> v_rev v \<le> co then False
     else co < (case vs of v' # _ \<Rightarrow> v_rev v' | [] \<Rightarrow> (case map_option r_Rev l of Some n \<Rightarrow> n | None \<Rightarrow> - 1)))"
    unfolding gcKeep_def versions_of_succ [OF Cons.prems] using hv by (cases l; cases vs) auto
  with Cons.IH [OF versions_of_tl [OF Cons.prems]] hv(3) show ?case
    by (auto simp: Let_def)
qed

text \<open>
  The pruning step: the cutoff moves to \<open>co\<close> and every cell is pruned before the entry's own write.
\<close>

definition pruned :: "u64 \<Rightarrow> u64 \<Rightarrow> cell \<Rightarrow> cell" where
  "pruned old co c = (if co = old then c else cell_gc co c)"

section \<open>The whole pass\<close>

context kv_env
begin

lemma gcVersion_HistKey:
  assumes "ns_ok E g m" "m x = Some v" "prefix (HistPrefix g) x"
  obtains k q hv where "x = HistKey g k q" "hist E g m k q = Some hv"
    "gcVersion E (length (HistPrefix g)) (x, v) = Some (k, \<lparr>v_key = x, v_rev = q, v_deleted = h_Deleted hv\<rparr>)"
proof (rule ns_ok_hist [OF assms])
  fix k q hv
  assume "x = HistKey g k q" "unmarshalHist E v = Some hv" "hist E g m k q = Some hv"
  then show ?thesis by (intro that [of k q hv]) (simp_all add: gcVersion_def)
qed

lemma gc_versions:
  assumes ok: "ns_ok E g m" and xs: "sorted_keys xs" "set xs = {(x, v). m x = Some v \<and> prefix (HistPrefix g) x}"
  defines "vers \<equiv> List.map_filter (gcVersion E (length (HistPrefix g))) xs"
  shows "set vers = {(k, \<lparr>v_key = HistKey g k q, v_rev = q, v_deleted = h_Deleted hv\<rparr>) | k q hv. hist E g m k q = Some hv}"
    and "distinct (map (\<lambda>kv. v_key (snd kv)) vers)"
proof -
  let ?f = "gcVersion E (length (HistPrefix g))"
  have some: "\<exists>k v. ?f e = Some (k, v) \<and> v_key v = fst e" if e: "e \<in> set xs" for e
  proof -
    have "m (fst e) = Some (snd e)" "prefix (HistPrefix g) (fst e)" using e xs(2) by auto
    then show ?thesis by (rule gcVersion_HistKey [OF ok]) (metis prod.collapse ver.select_convs(1))
  qed
  have vers: "vers = map (the \<circ> ?f) xs"
  proof -
    have "filter (\<lambda>x. ?f x \<noteq> None) xs = xs" using some by (intro filter_True) fastforce
    then show ?thesis by (simp add: vers_def List.map_filter_def)
  qed
  have "map (\<lambda>kv. v_key (snd kv)) vers = map fst xs"
    unfolding vers using some by (fastforce simp: o_def)
  with xs(1) show "distinct (map (\<lambda>kv. v_key (snd kv)) vers)" by (simp add: sorted_wrt_less_distinct)
  show "set vers = {(k, \<lparr>v_key = HistKey g k q, v_rev = q, v_deleted = h_Deleted hv\<rparr>) | k q hv. hist E g m k q = Some hv}"
  proof (intro set_eqI iffI)
    fix y assume "y \<in> set vers"
    then obtain e where e: "e \<in> set xs" "y = the (?f e)" by (auto simp: vers)
    then have "m (fst e) = Some (snd e)" "prefix (HistPrefix g) (fst e)" using xs(2) by auto
    then obtain k q hv where "fst e = HistKey g k q" "hist E g m k q = Some hv"
      "?f (fst e, snd e) = Some (k, \<lparr>v_key = fst e, v_rev = q, v_deleted = h_Deleted hv\<rparr>)"
      by (rule gcVersion_HistKey [OF ok])
    moreover have "(fst e, snd e) = e" by simp
    ultimately show "y \<in> {(k, \<lparr>v_key = HistKey g k q, v_rev = q, v_deleted = h_Deleted hv\<rparr>) | k q hv. hist E g m k q = Some hv}"
      using e(2) by simp
  next
    fix y assume "y \<in> {(k, \<lparr>v_key = HistKey g k q, v_rev = q, v_deleted = h_Deleted hv\<rparr>) | k q hv. hist E g m k q = Some hv}"
    then obtain k q hv where y: "y = (k, \<lparr>v_key = HistKey g k q, v_rev = q, v_deleted = h_Deleted hv\<rparr>)"
      and "hist E g m k q = Some hv" by blast
    then obtain v where v: "m (HistKey g k q) = Some v" "unmarshalHist E v = Some hv"
      using hist_Some_view by blast
    then have "(HistKey g k q, v) \<in> set xs" using xs(2) by simp
    moreover have "the (?f (HistKey g k q, v)) = y" using v by (simp add: y gcVersion_def)
    ultimately show "y \<in> set vers" by (force simp: vers)
  qed
qed

lemma gc_versions_of:
  assumes "set vers = {(k, \<lparr>v_key = HistKey g k q, v_rev = q, v_deleted = h_Deleted hv\<rparr>) | k q hv. hist E g m k q = Some hv}"
    "distinct (map (\<lambda>kv. v_key (snd kv)) vers)"
  shows "versions_of g k (hist E g m k) (sort_key v_rev (map snd (filter (\<lambda>kv. fst kv = k) vers)))"
    and "set (sort_key v_rev (map snd (filter (\<lambda>kv. fst kv = k) vers))) =
      {\<lparr>v_key = HistKey g k q, v_rev = q, v_deleted = h_Deleted hv\<rparr> | q hv. hist E g m k q = Some hv}"
proof -
  let ?L = "map snd (filter (\<lambda>kv. fst kv = k) vers)"
  have set: "set ?L = {\<lparr>v_key = HistKey g k q, v_rev = q, v_deleted = h_Deleted hv\<rparr> | q hv. hist E g m k q = Some hv}"
  proof (rule set_eqI)
    fix v
    have "v \<in> set ?L \<longleftrightarrow> (k, v) \<in> set vers" by force
    then show "v \<in> set ?L \<longleftrightarrow> v \<in> {\<lparr>v_key = HistKey g k q, v_rev = q, v_deleted = h_Deleted hv\<rparr> | q hv. hist E g m k q = Some hv}"
      unfolding assms(1) by simp
  qed
  then show "set (sort_key v_rev ?L) = {\<lparr>v_key = HistKey g k q, v_rev = q, v_deleted = h_Deleted hv\<rparr> | q hv. hist E g m k q = Some hv}"
    by simp
  have "distinct (map v_key ?L)"
    using assms(2) by (simp add: distinct_map_filter o_def)
  moreover have "map v_key ?L = map (HistKey g k) (map v_rev ?L)"
  proof -
    have "v_key v = (HistKey g k \<circ> v_rev) v" if "v \<in> set ?L" for v using that unfolding set by auto
    then have "map v_key ?L = map (HistKey g k \<circ> v_rev) ?L" by (rule map_cong [OF refl])
    then show ?thesis by (simp only: map_map o_assoc)
  qed
  ultimately have "distinct (map v_rev ?L)" by (metis distinct_map)
  then have "distinct (map v_rev (sort_key v_rev ?L))" by (simp only: distinct_map distinct_sort set_sort)
  then have "sorted_wrt (<) (map v_rev (sort_key v_rev ?L))" by (simp add: strict_sorted_iff)
  moreover have "v_rev ` set ?L = {q. hist E g m k q \<noteq> None}" unfolding set by force
  moreover have "\<forall>v \<in> set ?L. v_key v = HistKey g k (v_rev v) \<and>
      (\<exists>hv. hist E g m k (v_rev v) = Some hv \<and> h_Deleted hv = v_deleted v)" unfolding set by auto
  ultimately show "versions_of g k (hist E g m k) (sort_key v_rev ?L)"
    unfolding versions_of_def set_sort by blast
qed

lemma gcDeletes_set:
  assumes ok: "ns_ok E (sm_gid s) (view (sm_st s))"
    and xs: "sorted_keys xs" "set xs = {(x, v). view (sm_st s) x = Some v \<and> prefix (HistPrefix (sm_gid s)) x}"
  shows "set (gcDeletes E s co xs) = {HistKey (sm_gid s) k q | k q.
    hist E (sm_gid s) (view (sm_st s)) k q \<noteq> None \<and>
    \<not> gcKeep co (smLive E view s k) (hist E (sm_gid s) (view (sm_st s)) k) q}"
proof -
  let ?g = "sm_gid s" and ?m = "view (sm_st s)"
  let ?vers = "List.map_filter (gcVersion E (length (HistPrefix ?g))) xs"
  note vs = gc_versions [OF ok xs]
  note vk = gc_versions_of [OF vs]
  have lat: "latestRev E s k = map_option r_Rev (smLive E view s k)" for k
    by (simp add: latestRev_def readRecord_live [OF ok] split: option.splits)
  have one: "set (gcKey co (latestRev E s k) (sort_key v_rev (map snd (filter (\<lambda>kv. fst kv = k) ?vers)))) =
    {HistKey ?g k q | q. hist E ?g ?m k q \<noteq> None \<and> \<not> gcKeep co (smLive E view s k) (hist E ?g ?m k) q}" for k
    unfolding lat gcKey_set [OF vk(1)] vk(2) by force
  have "k \<in> fst ` set ?vers" if "hist E ?g ?m k q \<noteq> None" for k q
    using that vs(1) by force
  then show ?thesis unfolding gcDeletes_def Let_def by (auto simp: one) blast
qed

subsection \<open>Pruning inside an entry\<close>

lemma apply_batch_deletes: "apply_batch (map BDelete ds) m = (\<lambda>x. if x \<in> set ds then None else m x)"
  by (induction ds arbitrary: m) (auto simp: fun_eq_iff)

lemma act_gc_commute:
  assumes "cell_ok r c" "r < n"
  shows "snd (act n a (cell_gc co c)) =
    (\<lambda>q. if snd c q \<noteq> None \<and> \<not> gcKeep co (fst c) (snd c) q then None else snd (act n a c) q)"
    and "fst (act n a (cell_gc co c)) = fst (act n a c)"
proof -
  have n: "snd c n = None"
    using assms by (cases "snd c n") (auto simp: cell_ok_def not_le [symmetric])
  have arch: "archive (fst c) (snd (cell_gc co c)) =
    (\<lambda>q. if snd c q \<noteq> None \<and> \<not> gcKeep co (fst c) (snd c) q then None else archive (fst c) (snd c) q)"
    by (rule gc_archive_commute [OF assms(1)])
  have fst_gc: "fst (cell_gc co c) = fst c" by (simp add: cell_gc_def)
  consider "a = None" | v bl where "a = Some (Some (v, bl))" | "a = Some None"
    by (metis option.exhaust surj_pair)
  then show "snd (act n a (cell_gc co c)) =
    (\<lambda>q. if snd c q \<noteq> None \<and> \<not> gcKeep co (fst c) (snd c) q then None else snd (act n a c) q)"
  proof cases
    case 1
    then show ?thesis by (auto simp: cell_gc_def gcHist_def)
  next
    case 2
    then show ?thesis by (simp add: cell_put_def fst_gc arch cong: if_cong)
  next
    case 3
    show ?thesis
    proof (cases "fst c")
      case None
      with 3 have "act n a c = c" "act n a (cell_gc co c) = cell_gc co c"
        by (cases c, simp_all add: cell_del_def cell_gc_def)
      then show ?thesis by (auto simp: cell_gc_def gcHist_def)
    next
      case (Some old)
      with 3 arch n show ?thesis
        by (simp add: cell_del_def fst_gc cong: if_cong) (auto simp: fun_eq_iff)
    qed
  qed
  show "fst (act n a (cell_gc co c)) = fst (act n a c)" by (cases a) (simp_all add: fst_act fst_gc)
qed

definition entered :: "'db SM \<Rightarrow> u64 \<Rightarrow> (bytes \<rightharpoonup> cell_val) \<Rightarrow> 'db work \<Rightarrow> bool" where
  "entered s0 n A sb \<longleftrightarrow>
     (let s = fst sb; g = sm_gid s0; m = apply_batch (snd sb) (view (sm_st s0))
      in sm_ok E view s0 \<and> sm_st s = sm_st s0 \<and> sm_gid s = g \<and> sm_cutoff s0 \<le> sm_cutoff s \<and>
         ns_ok E g m \<and> counter m (RevisionKey g) (sm_rev s) \<and> counter m (MVCCCutoffKey g) (sm_cutoff s) \<and>
         freeze_ok E g m (sm_freeze s) \<and>
         (\<forall>k. cellOf E g m k = act n (A k) (pruned (sm_cutoff s0) (sm_cutoff s) (smCell E view s0 k))) \<and>
         (sm_rev s = n \<or> sm_rev s = sm_rev s0 \<and> A = (\<lambda>_. None)))"

lemma staged_entered: "staged E view s0 n A sb \<Longrightarrow> entered s0 n A sb"
  by (simp add: staged_def entered_def pruned_def Let_def)

lemma without_versions:
  fixes m :: "bytes \<rightharpoonup> bytes"
  assumes ds: "set ds = {HistKey g k q | k q. P k q}"
  defines "m' \<equiv> (\<lambda>x. if x \<in> set ds then None else m x)"
  shows "ns_ok E g m \<Longrightarrow> ns_ok E g m'" "live E g m' = live E g m"
    "hist E g m' k = (\<lambda>q. if P k q then None else hist E g m k q)"
    "counter m' (RevisionKey g) n = counter m (RevisionKey g) n" "freeze_ok E g m' fr = freeze_ok E g m fr"
proof -
  show "ns_ok E g m \<Longrightarrow> ns_ok E g m'" unfolding ns_ok_def m'_def by simp
  show "live E g m' = live E g m" by (rule ext) (simp add: live_def m'_def ds)
  show "hist E g m' k = (\<lambda>q. if P k q then None else hist E g m k q)"
    by (rule ext) (simp add: hist_def m'_def ds)
  show "counter m' (RevisionKey g) n = counter m (RevisionKey g) n" by (simp add: counter_def m'_def ds)
  show "freeze_ok E g m' fr = freeze_ok E g m fr" by (simp add: freeze_ok_def m'_def ds)
qed

lemma entered_gc:
  assumes st: "staged E view s0 n A (s, b)" and n: "sm_rev s0 < n" and co: "sm_cutoff s0 < co"
    and xs: "sorted_keys xs" "set xs = {(x, v). view (sm_st s) x = Some v \<and> prefix (HistPrefix (sm_gid s)) x}"
  shows "entered s0 n A (s\<lparr>sm_cutoff := co\<rparr>,
    b @ map BDelete (gcDeletes E s co xs) @ [BSet (MVCCCutoffKey (sm_gid s)) (be64 co)])"
proof -
  let ?g = "sm_gid s0" and ?old = "view (sm_st s0)" and ?m = "apply_batch b (view (sm_st s0))"
  have s: "sm_st s = sm_st s0" "sm_gid s = ?g" "sm_ok E view s0" using staged_committed [OF st] by simp_all
  let ?P = "\<lambda>k q. hist E ?g ?old k q \<noteq> None \<and> \<not> gcKeep co (live E ?g ?old k) (hist E ?g ?old k) q"
  have ds: "set (gcDeletes E s co xs) = {HistKey ?g k q | k q. ?P k q}"
    using gcDeletes_set [of s xs co] xs s by (simp add: sm_ok_def)
  let ?new = "\<lambda>x. if x \<in> set (gcDeletes E s co xs) then None else ?m x"
  let ?m' = "?new(MVCCCutoffKey ?g \<mapsto> be64 co)"
  note wo = without_versions [where m = ?m, OF ds]
  have cells: "cellOf E ?g ?m k = act n (A k) (smCell E view s0 k)" for k
    using st by (simp add: staged_def Let_def)
  have "cellOf E ?g ?m' k = act n (A k) (cell_gc co (smCell E view s0 k))" for k
  proof -
    have ck: "cell_ok (sm_rev s0) (smCell E view s0 k)" using s(3) by (simp add: sm_ok_def)
    have "live E ?g ?m k = fst (act n (A k) (smCell E view s0 k))"
      "hist E ?g ?m k = snd (act n (A k) (smCell E view s0 k))" using cells [of k] by (simp_all add: cellOf_def prod_eq_iff)
    then show ?thesis
      using act_gc_commute [OF ck n, of "A k" co]
      by (simp add: prod_eq_iff upd_simps wo cong: if_cong)
  qed
  moreover have "ns_ok E ?g ?m'" using st wo(1) by (intro ns_ok_upd) (auto simp: staged_def Let_def)
  moreover have "apply_batch (b @ map BDelete (gcDeletes E s co xs) @ [BSet (MVCCCutoffKey ?g) (be64 co)]) ?old = ?m'"
    by (simp add: apply_batch_deletes)
  ultimately show ?thesis
    using st co by (auto simp: entered_def staged_def Let_def s pruned_def upd_simps wo counter_def [of _ "MVCCCutoffKey ?g"])
qed

lemma entered_maybeGC:
  assumes st: "staged E view s0 n A sb" and n: "sm_rev s0 < n"
  shows "entered s0 n A (maybeGC E n sb)"
proof -
  obtain s b where sb: "sb = (s, b)" by (cases sb)
  let ?g = "sm_gid s" and ?co = "n - word_of_int (MVCCHistoryRevisions E)"
  obtain xs where xs: "DB_NewIter E (sm_st s) (HistPrefix ?g) (PrefixUpperBound (HistPrefix ?g)) = Inr xs"
    "sorted_keys xs" "set xs = {(x, v). view (sm_st s) x = Some v \<and> prefix (HistPrefix ?g) x}"
    using DB_NewIter_cases [of "sm_st s" "HistPrefix ?g" "PrefixUpperBound (HistPrefix ?g)"]
    unfolding prefix_iff_in_bounds by blast
  show ?thesis
  proof (cases "sm_cutoff s < ?co")
    case True
    with st have "sm_cutoff s0 < ?co" by (simp add: sb staged_def Let_def)
    from entered_gc [OF st [unfolded sb] n this xs(2,3)] staged_entered [OF st] xs(1) show ?thesis
      by (auto simp: sb maybeGC_def Let_def)
  next
    case False
    with staged_entered [OF st] show ?thesis by (auto simp: sb maybeGC_def Let_def not_less)
  qed
qed

end

end
