(* ===== verification/KV_Ops.thy ===== *)
theory KV_Ops
  imports KV_GC
begin

text \<open>
  Every command of the state machine as a set of cell writes: for each \<^verbatim>\<open>apply...\<close> method the
  answer and the cells it stages, then the whole log entry (\<^verbatim>\<open>applyEntry\<close>), and runs of
  entries.
\<close>

section \<open>Ranges of user keys\<close>

definition inSpan :: "bytes \<Rightarrow> bytes \<Rightarrow> bytes \<Rightarrow> bool" where
  "inSpan start stop k \<longleftrightarrow> start \<le> k \<and> (stop = [] \<or> k < stop)"

lemma SMPrefix_le_SMKey: "SMPrefix g \<le> SMKey g k"
  by (rule prefix_imp_le) (simp add: SMKey_append)

lemma in_bounds_SMKeys:
  "in_bounds (SMKey g start) (Some (SMKey g stop)) x \<longleftrightarrow> (\<exists>k. x = SMKey g k \<and> start \<le> k \<and> k < stop)"
proof
  assume "in_bounds (SMKey g start) (Some (SMKey g stop)) x"
  then have b: "SMKey g start \<le> x" "x < SMKey g stop" by (simp_all add: in_bounds_def)
  with SMPrefix_le_SMKey [of g start] have "SMPrefix g \<le> x" by (rule_tac order_trans)
  with b(2) have "prefix (SMPrefix g) x" by (intro between_prefix [of _ _ stop]) (simp_all add: SMKey_append)
  then obtain k where "x = SMKey g k" by (auto simp: prefix_SMPrefix_iff)
  with b show "\<exists>k. x = SMKey g k \<and> start \<le> k \<and> k < stop" by auto
qed (auto simp: in_bounds_def)

lemma in_bounds_spanUpper:
  "in_bounds (SMKey g start) (if stop \<noteq> [] then Some (SMKey g stop) else PrefixUpperBound (SMPrefix g)) x \<longleftrightarrow>
    (\<exists>k. x = SMKey g k \<and> inSpan start stop k)"
proof (cases "stop = []")
  case True
  have "in_bounds (SMKey g start) (PrefixUpperBound (SMPrefix g)) x \<longleftrightarrow>
    SMKey g start \<le> x \<and> in_bounds (SMPrefix g) (PrefixUpperBound (SMPrefix g)) x"
    using SMPrefix_le_SMKey [of g start] by (auto simp: in_bounds_def)
  also have "\<dots> \<longleftrightarrow> (\<exists>k. x = SMKey g k \<and> start \<le> k)"
    by (auto simp: prefix_iff_in_bounds prefix_SMPrefix_iff)
  finally show ?thesis using True by (simp add: inSpan_def)
qed (simp add: in_bounds_SMKeys inSpan_def)

section \<open>What a committed entry leaves\<close>

definition overlay :: "u64 \<Rightarrow> (bytes \<rightharpoonup> cell_val) \<Rightarrow> (bytes \<rightharpoonup> Record) \<Rightarrow> (bytes \<rightharpoonup> Record)" where
  "overlay n A l k = (case A k of
     None \<Rightarrow> l k
   | Some None \<Rightarrow> None
   | Some (Some (v, bl)) \<Rightarrow> Some \<lparr>r_Rev = n, r_Value = v, r_Blob = bl\<rparr>)"

lemma overlay_empty [simp]: "overlay n (\<lambda>_. None) l = l"
  by (rule ext) (simp add: overlay_def)

lemma overlay_upd [simp]:
  "overlay n (A(k \<mapsto> Some (v, bl))) l = (overlay n A l)(k \<mapsto> \<lparr>r_Rev = n, r_Value = v, r_Blob = bl\<rparr>)"
  "overlay n (A(k \<mapsto> None)) l = (overlay n A l)(k := None)"
  by (rule ext, simp add: overlay_def)+

text \<open>The struct and the empty batch a command starts with.\<close>

abbreviation start :: "'db SM \<Rightarrow> 'db work" where
  "start s \<equiv> (countOp s, [])"

definition spanDel :: "(bytes \<rightharpoonup> Record) \<Rightarrow> (bytes \<Rightarrow> bool) \<Rightarrow> bytes \<rightharpoonup> cell_val" where
  "spanDel l P k = (if P k \<and> l k \<noteq> None then Some None else None)"

lemma overlay_spanDel: "overlay n (spanDel l P) l = (\<lambda>k. if P k then None else l k)"
  by (rule ext) (simp add: overlay_def spanDel_def)

definition txActs :: "TxWrite list \<Rightarrow> bytes \<rightharpoonup> cell_val" where
  "txActs ws = fold (\<lambda>w A. A(w_Key w \<mapsto> writeVal w)) ws (\<lambda>_. None)"

text \<open>No key is put after it was deleted by the same transaction.\<close>

definition no_rewrite :: "TxWrite list \<Rightarrow> bool" where
  "no_rewrite ws \<longleftrightarrow> sorted_wrt (\<lambda>w w'. w_Delete w \<and> \<not> w_Delete w' \<longrightarrow> w_Key w \<noteq> w_Key w') ws"

text \<open>
  The lock record an acquire works on (expired holders pruned) and the one it writes. 
\<close>

abbreviation lockKey :: "Op \<Rightarrow> bytes" where
  "lockKey x \<equiv> lockKeyPrefix @ o_Resource x"

definition lockBefore :: "'db env \<Rightarrow> 'db SM \<Rightarrow> Op \<Rightarrow> lockState" where
  "lockBefore E s x = pruneExpired (o_NowMs x)
     (case readLock E s (o_Resource x) of Some l \<Rightarrow> l | None \<Rightarrow> zeroLock)"

definition lockGrant :: "bytes \<Rightarrow> Op \<Rightarrow> lockState \<Rightarrow> lockState" where
  "lockGrant mode x l = \<lparr>l_Mode = mode,
     l_Holders = AList.update (o_Holder x) (if sint (o_TTLms x) > 0 then o_NowMs x + o_TTLms x else 0) (l_Holders l),
     l_Fencing = l_Fencing l + 1\<rparr>"

lemma applyOp_split:
  assumes "\<And>r. P (r, sb)" "P (applyFreezeRange E n x sb)" "P (applySplitCleanup E n x sb)"
    "P (applySet E n x sb)" "P (applyDelete E n x sb)" "P (applyDeleteRange E n x sb)"
    "o_Type x = ''tx_apply'' \<Longrightarrow> P (applyTxApply E n x sb)" "P (applyTxPrepare E x sb)"
    "P (applyTxCommit E n x sb)" "P (applyTxAbort E x sb)" "P (applyLock E n x sb)"
    "P (applyUnlock E n x sb)" "P (applyForceUnlock E n x sb)" "o_Type x = ''copy_in'' \<Longrightarrow> P (applyCopyIn E x sb)"
  shows "P (applyOp E n x sb)"
  using assms by (simp add: applyOp_def Let_def)

text \<open>The horizon stays, or moves up to \<^verbatim>\<open>MVCCHistoryRevisions\<close> behind the entry.\<close>

definition cutoffStep :: "'db env \<Rightarrow> u64 \<Rightarrow> 'db SM \<Rightarrow> 'db SM \<Rightarrow> bool" where
  "cutoffStep E n s s' \<longleftrightarrow> sm_cutoff s' = sm_cutoff s \<or>
     sm_cutoff s < sm_cutoff s' \<and> word_of_int (MVCCHistoryRevisions E) < n \<and>
     sm_cutoff s' = n - word_of_int (MVCCHistoryRevisions E)"

lemma cutoffStep_mono: "cutoffStep E n s s' \<Longrightarrow> sm_cutoff s \<le> sm_cutoff s'"
  by (auto simp: cutoffStep_def)

text \<open>
  An entry with the command \<open>x\<close> that staged the writes \<open>A\<close>: the invariant holds again, every cell
  took one step of the versioned contract, and keys outside the records and versions of the group hold
  what the batch left there.
\<close>

definition entryDone :: "'db env \<Rightarrow> ('db \<Rightarrow> bytes \<rightharpoonup> bytes) \<Rightarrow> 'db SM \<Rightarrow> u64 \<Rightarrow> (bytes \<rightharpoonup> cell_val) \<Rightarrow> 'db SM \<Rightarrow> bool" where
  "entryDone E view s n A s' \<longleftrightarrow> sm_ok E view s' \<and> sm_gid s' = sm_gid s \<and>
     (sm_rev s' = n \<or> sm_rev s' = sm_rev s \<and> A = (\<lambda>_. None)) \<and> cutoffStep E n s s' \<and>
     smLive E view s' = overlay n A (smLive E view s) \<and>
     (\<forall>k. smCell E view s' k = act n (A k) (pruned (sm_cutoff s) (sm_cutoff s') (smCell E view s k)))"

lemma entryDoneD:
  assumes "entryDone E view s n A s'"
  shows "sm_ok E view s'" "sm_gid s' = sm_gid s" "smLive E view s' = overlay n A (smLive E view s)"
    "sm_rev s' = n \<or> sm_rev s' = sm_rev s \<and> A = (\<lambda>_. None)"
  using assms unfolding entryDone_def by blast+

text \<open>Counting an operation changes nothing a command reads.\<close>

lemma count_frame [simp, sm_frame]:
  "frozen (s\<lparr>sm_ops := c\<rparr>) = frozen s" "frozenOverlap (s\<lparr>sm_ops := c\<rparr>) = frozenOverlap s"
  "frozenWrites (s\<lparr>sm_ops := c\<rparr>) = frozenWrites s" "tooLong (s\<lparr>sm_ops := c\<rparr>) = tooLong s"
  "readRecord E (s\<lparr>sm_ops := c\<rparr>) = readRecord E s" "intentAt E (s\<lparr>sm_ops := c\<rparr>) = intentAt E s"
  "readLock E (s\<lparr>sm_ops := c\<rparr>) = readLock E s"
  by (auto simp: fun_eq_iff frozen_def frozenOverlap_def frozenWrites_def tooLong_def readRecord_def
      intentAt_def readLock_def)

lemma count_frame_checks [simp, sm_frame]:
  "validateReads E (s\<lparr>sm_ops := c\<rparr>) rs = validateReads E s rs"
  "checkApplyWrites E (s\<lparr>sm_ops := c\<rparr>) ws = checkApplyWrites E s ws"
  "checkPrepareWrites E (s\<lparr>sm_ops := c\<rparr>) tx ws = checkPrepareWrites E s tx ws"
proof -
  show "validateReads E (s\<lparr>sm_ops := c\<rparr>) rs = validateReads E s rs"
    by (induction E s rs rule: validateReads.induct) (auto split: option.splits sum.splits)
qed (induction ws; simp)+

context kv_env
begin

lemma staged_begin: "sm_ok E view s \<Longrightarrow> staged E view s n (\<lambda>_. None) (start s)"
  by (rule staged_start)

lemma staged_bump0: "sm_ok E view s \<Longrightarrow> staged E view s n (\<lambda>_. None) (bumpRev n (start s))"
  by (intro staged_bumpRev staged_begin)

subsection \<open>Commands\<close>

lemma applySet_staged:
  assumes "sm_ok E view s" "\<not> frozen s (o_Key x)" "\<not> tooLong s (o_Value x)"
  shows "fst (applySet E n x (start s)) = revResult n \<and>
    staged E view s n [o_Key x \<mapsto> Some (o_Value x, o_Blob x)] (snd (applySet E n x (start s)))"
  using assms staged_putRecord [OF staged_bump0, of s n "o_Key x" "o_Value x" "o_Blob x"]
  by (simp add: applySet_def)

lemma applyDelete_staged:
  assumes "sm_ok E view s" "\<not> frozen s (o_Key x)"
  shows "fst (applyDelete E n x (start s)) = revResult n \<and>
    staged E view s n [o_Key x \<mapsto> None] (snd (applyDelete E n x (start s)))"
  using assms staged_deleteRecord [OF staged_bump0, of s n "o_Key x"]
  by (simp add: applyDelete_def)

lemma deleteSpan_fields:
  "sm_freeze (fst (snd (deleteSpan E n lower upper sb))) = sm_freeze (fst sb)"
proof -
  have "sm_freeze (fst (fold (\<lambda>e. deleteRecord E (f e) n) xs sb)) = sm_freeze (fst sb)" for f and xs :: "(bytes \<times> bytes) list"
    by (induction xs arbitrary: sb) simp_all
  from this [of "\<lambda>e. drop (length (SMPrefix (sm_gid (fst sb)))) (fst e)"] show ?thesis
    by (auto simp: deleteSpan_def case_prod_unfold split: sum.splits)
qed

lemma deleteSpan_staged:
  assumes st: "staged E view s0 n (\<lambda>_. None) sb" "sm_rev (fst sb) = n"
    and bd: "\<And>x. in_bounds lower upper x \<longleftrightarrow> (\<exists>k. x = SMKey (sm_gid s0) k \<and> P k)"
  shows "fst (deleteSpan E n lower upper sb) = None \<and>
    staged E view s0 n (spanDel (smLive E view s0) P) (snd (deleteSpan E n lower upper sb))"
proof -
  obtain s b where sb: "sb = (s, b)" by (cases sb)
  let ?f = "\<lambda>e. drop (length (SMPrefix (sm_gid s0))) (fst e)"
  have s: "sm_st s = sm_st s0" "sm_gid s = sm_gid s0" "ns_ok E (sm_gid s0) (view (sm_st s0))"
    using st(1) by (simp_all add: sb staged_def Let_def sm_ok_def)
  obtain xs where xs: "DB_NewIter E (sm_st s) lower upper = Inr xs"
    "set xs = {(x, v). view (sm_st s) x = Some v \<and> in_bounds lower upper x}"
    by (rule DB_NewIter_cases)
  have "?f ` set xs = {k. P k \<and> smLive E view s0 k \<noteq> None}"
  proof (intro set_eqI iffI)
    fix k assume "k \<in> ?f ` set xs"
    then obtain raw where "view (sm_st s0) (SMKey (sm_gid s0) k) = Some raw" "P k"
      using xs(2) bd s by auto
    with ns_ok_live [OF s(3)] show "k \<in> {k. P k \<and> smLive E view s0 k \<noteq> None}" by blast
  next
    fix k assume k: "k \<in> {k. P k \<and> smLive E view s0 k \<noteq> None}"
    then obtain raw where "view (sm_st s0) (SMKey (sm_gid s0) k) = Some raw" by (auto simp: live_def bind_eq_None_conv)
    with k have "(SMKey (sm_gid s0) k, raw) \<in> set xs" using xs(2) bd s by auto
    then show "k \<in> ?f ` set xs" by force
  qed
  with staged_deletes [OF st, of ?f xs] have "staged E view s0 n (spanDel (smLive E view s0) P)
      (fold (\<lambda>e. deleteRecord E (?f e) n) xs sb)"
    unfolding spanDel_def by (simp cong: if_cong)
  then show ?thesis using xs(1) s(2) by (simp add: deleteSpan_def sb case_prod_unfold)
qed

lemma applyDeleteRange_staged:
  assumes "sm_ok E view s" "\<not> frozenOverlap s (o_Start x) (o_End x)"
  shows "fst (applyDeleteRange E n x (start s)) = revResult n \<and>
    staged E view s n (spanDel (smLive E view s) (\<lambda>k. o_Start x \<le> k \<and> k < o_End x)) (snd (applyDeleteRange E n x (start s)))"
  using assms deleteSpan_staged [OF staged_bump0 _ in_bounds_SMKeys, of s n "o_Start x" "o_End x"]
  by (simp add: applyDeleteRange_def Let_def case_prod_beta)

lemma applySplitCleanup_staged:
  assumes "sm_ok E view s"
  shows "fst (applySplitCleanup E n x (start s)) = revResult n \<and>
    sm_freeze (fst (snd (applySplitCleanup E n x (start s)))) =
      (if sm_freeze s = Some \<lparr>f_Start = o_Start x, f_End = o_End x\<rparr> then None else sm_freeze s) \<and>
    staged E view s n (spanDel (smLive E view s) (inSpan (o_Start x) (o_End x))) (snd (applySplitCleanup E n x (start s)))"
proof -
  let ?same = "sm_freeze s = Some \<lparr>f_Start = o_Start x, f_End = o_End x\<rparr>"
  define sb where "sb = (if ?same then ((countOp s)\<lparr>sm_freeze := None\<rparr>, [] @ [BDelete (freezeStateKey (sm_gid s))]) else start s)"
  define upper where "upper = (if o_End x \<noteq> [] then Some (SMKey (sm_gid s) (o_End x)) else PrefixUpperBound (SMPrefix (sm_gid s)))"
  let ?out = "deleteSpan E n (SMKey (sm_gid s) (o_Start x)) upper (bumpRev n sb)"
  have "staged E view s n (\<lambda>_. None) sb"
    using staged_begin [OF assms, of n] staged_freeze(2) [OF staged_begin [OF assms], of n] by (simp add: sb_def)
  from deleteSpan_staged [OF staged_bumpRev [OF this] bumpRev_rev in_bounds_spanUpper, of "o_Start x" "o_End x"]
  have out: "fst ?out = None" "staged E view s n (spanDel (smLive E view s) (inSpan (o_Start x) (o_End x))) (snd ?out)"
    by (simp_all add: upper_def)
  have "sm_freeze (fst (bumpRev n sb)) = (if ?same then None else sm_freeze s)" by (simp add: bumpRev_def sb_def)
  with deleteSpan_fields have fr: "sm_freeze (fst (snd ?out)) = (if ?same then None else sm_freeze s)" by simp
  have "applySplitCleanup E n x (start s) = (if fst ?out \<noteq> None then errResult ''Internal'' else revResult n, snd ?out)"
    by (auto simp: applySplitCleanup_def sb_def upper_def Let_def case_prod_beta)
  with out fr show ?thesis by simp
qed

lemma applyFreezeRange_staged:
  assumes "sm_ok E view s" "valid_utf8 (o_Start x)" "valid_utf8 (o_End x)"
  shows "fst (applyFreezeRange E n x (start s)) = revResult n \<and>
    sm_freeze (fst (snd (applyFreezeRange E n x (start s)))) = Some \<lparr>f_Start = o_Start x, f_End = o_End x\<rparr> \<and>
    staged E view s n (\<lambda>_. None) (snd (applyFreezeRange E n x (start s)))"
proof -
  let ?fr = "\<lparr>f_Start = o_Start x, f_End = o_End x\<rparr>"
  have "staged E view s n (\<lambda>_. None) ((countOp s)\<lparr>sm_freeze := Some ?fr\<rparr>,
      [] @ [BSet (freezeStateKey (sm_gid s)) (marshalFreeze E ?fr)])"
    using assms staged_freeze(1) [OF staged_begin, of s ?fr n] by simp
  from staged_bumpRev [OF this] show ?thesis
    by (simp add: applyFreezeRange_def Let_def bumpRev_def)
qed

subsection \<open>Transactions\<close>

lemma applyTxApply_staged:
  assumes "sm_ok E view s" "\<not> frozenWrites s (o_Writes x)" "validateReads E s (o_Reads x) = None"
    "checkApplyWrites E s (o_Writes x) = None" "no_rewrite (o_Writes x)"
  shows "fst (applyTxApply E n x (start s)) = revResult n \<and>
    staged E view s n (txActs (o_Writes x)) (snd (applyTxApply E n x (start s)))"
  using assms staged_writes [OF staged_bump0 [of s n] bumpRev_rev, of "o_Writes x"]
  by (simp add: applyTxApply_def txActs_def no_rewrite_def)

lemma applyTxPrepare_staged:
  assumes "sm_ok E view s"
  shows "staged E view s n (\<lambda>_. None) (snd (applyTxPrepare E x (start s)))"
  using staged_begin [OF assms, of n] staged_foreign_sets [OF staged_begin [OF assms, of n], of "o_Writes x" "\<lambda>w. IntentKey (sm_gid s) (w_Key w)"]
  by (auto simp: applyTxPrepare_def Let_def split: option.splits)

lemma intents_scan:
  obtains xs where "DB_NewIter E db (IntentPrefix g) (PrefixUpperBound (IntentPrefix g)) = Inr xs" "sorted_keys xs"
    "set xs = {(IntentKey g k, v) | k v. view db (IntentKey g k) = Some v}"
proof -
  obtain xs where "DB_NewIter E db (IntentPrefix g) (PrefixUpperBound (IntentPrefix g)) = Inr xs" "sorted_keys xs"
    "set xs = {(x, v). view db x = Some v \<and> prefix (IntentPrefix g) x}"
    using DB_NewIter_cases [of db "IntentPrefix g" "PrefixUpperBound (IntentPrefix g)"]
    unfolding prefix_iff_in_bounds by blast
  with that show ?thesis by (auto simp: prefix_IntentPrefix_iff)
qed

lemma applyTxCommit_staged:
  assumes "sm_ok E view s"
    and xs: "DB_NewIter E (sm_st s) (IntentPrefix (sm_gid s)) (PrefixUpperBound (IntentPrefix (sm_gid s))) = Inr xs"
      "set xs = {(IntentKey (sm_gid s) k, v) | k v. view (sm_st s) (IntentKey (sm_gid s) k) = Some v}"
  shows "fst (applyTxCommit E n x (start s)) = revResult n \<and>
    staged E view s n (map_of (map (\<lambda>w. (w_Key w, writeVal w)) (txWrites E (o_TxID x) xs)))
      (snd (applyTxCommit E n x (start s)))"
proof -
  obtain seen sb where c: "commitIntents E n (o_TxID x) xs ([], bumpRev n (start s)) = (seen, sb)"
    by (cases "commitIntents E n (o_TxID x) xs ([], bumpRev n (start s))")
  have "\<forall>e \<in> set xs. foreign (sm_gid s) (fst e)" using xs(2) by auto
  from staged_commitIntents [OF staged_bump0 bumpRev_rev _ this c] assms(1) c xs(1) show ?thesis
    by (simp add: applyTxCommit_def Let_def)
qed

lemma applyTxAbort_staged:
  assumes "sm_ok E view s"
  shows "fst (applyTxAbort E x (start s)) = noResult \<and> staged E view s n (\<lambda>_. None) (snd (applyTxAbort E x (start s)))"
proof -
  obtain xs where xs: "DB_NewIter E (sm_st s) (IntentPrefix (sm_gid s)) (PrefixUpperBound (IntentPrefix (sm_gid s))) = Inr xs"
      "set xs = {(IntentKey (sm_gid s) k, v) | k v. view (sm_st s) (IntentKey (sm_gid s) k) = Some v}"
    by (rule intents_scan)
  have "staged E view s n (\<lambda>_. None) (countOp s, [] @ map (\<lambda>e. BDelete (fst e)) (filter (\<lambda>(k, v). ownIntent E (o_TxID x) v) xs))"
    using xs(2) by (intro staged_foreign_deletes staged_begin [OF assms]) auto
  with xs(1) show ?thesis by (simp add: applyTxAbort_def case_prod_unfold)
qed

subsection \<open>Locks\<close>

lemma applyLock_held:
  "lockMode (lockBefore E s x) x = None \<Longrightarrow> applyLock E n x (start s) = (errResult ErrLockHeld, start s)"
  by (simp add: applyLock_def lockBefore_def Let_def)

lemma applyLock_granted:
  "lockMode (lockBefore E s x) x = Some mode \<Longrightarrow> applyLock E n x (start s) =
    ((revResult n)\<lparr>res_Fencing := l_Fencing (lockBefore E s x) + 1\<rparr>,
     putRecord E (lockKey x) \<lparr>r_Rev = n, r_Value = marshalLock E (lockGrant mode x (lockBefore E s x)), r_Blob = False\<rparr>
       (bumpRev n (start s)))"
  by (simp add: applyLock_def lockBefore_def lockGrant_def Let_def)

lemma applyLock_staged:
  assumes "sm_ok E view s" "lockMode (lockBefore E s x) x = Some mode"
  shows "staged E view s n [lockKey x \<mapsto> Some (marshalLock E (lockGrant mode x (lockBefore E s x)), False)]
    (snd (applyLock E n x (start s)))"
  using staged_putRecord [OF staged_bump0 [OF assms(1), of n] bumpRev_rev, of "lockKey x"]
  unfolding applyLock_granted [OF assms(2)] by simp

lemma applyUnlock_rejected:
  "(\<And>l. readLock E s (o_Resource x) = Some l \<Longrightarrow> holderExpiry l (o_Holder x) = 0) \<Longrightarrow>
    applyUnlock E n x (start s) = (errResult ErrNotHolder, start s)"
  by (auto simp: applyUnlock_def split: option.splits)

lemma applyUnlock_staged:
  assumes "sm_ok E view s" "readLock E s (o_Resource x) = Some l" "holderExpiry l (o_Holder x) \<noteq> 0"
  shows "fst (applyUnlock E n x (start s)) = revResult n \<and>
    staged E view s n [lockKey x \<mapsto>
      (if AList.delete (o_Holder x) (l_Holders l) = [] then None
       else Some (marshalLock E (l\<lparr>l_Holders := AList.delete (o_Holder x) (l_Holders l)\<rparr>), False))]
      (snd (applyUnlock E n x (start s)))"
  using assms staged_putRecord [OF staged_bump0 [OF assms(1), of n] bumpRev_rev, of "lockKey x"]
    staged_deleteRecord [OF staged_bump0 [OF assms(1), of n] bumpRev_rev, of "lockKey x"]
  by (simp add: applyUnlock_def Let_def)

lemma applyForceUnlock_staged:
  assumes "sm_ok E view s"
  shows "staged E view s n [lockKey x \<mapsto> None] (snd (applyForceUnlock E n x (start s)))"
  using staged_deleteRecord [OF staged_bump0 [OF assms] bumpRev_rev] by (simp add: applyForceUnlock_def)

subsection \<open>Any command\<close>

lemma staged_any:
  assumes ok: "sm_ok E view s" and utf: "op_utf8 x" and ci: "o_Type x \<noteq> ''copy_in''"
    and nr: "o_Type x = ''tx_apply'' \<longrightarrow> no_rewrite (o_Writes x)"
  shows "\<exists>A. staged E view s n A (snd (applyOp E n x (start s)))"
proof -
  note start = staged_begin [OF ok, of n]
  have "\<exists>A. staged E view s n A (snd (applySet E n x (start s)))"
    using applySet_staged [OF ok] start by (cases "frozen s (o_Key x) \<or> tooLong s (o_Value x)") (auto simp: applySet_def)
  moreover have "\<exists>A. staged E view s n A (snd (applyDelete E n x (start s)))"
    using applyDelete_staged [OF ok] start by (cases "frozen s (o_Key x)") (auto simp: applyDelete_def)
  moreover have "\<exists>A. staged E view s n A (snd (applyDeleteRange E n x (start s)))"
    using applyDeleteRange_staged [OF ok] start by (cases "frozenOverlap s (o_Start x) (o_End x)") (auto simp: applyDeleteRange_def)
  moreover have "\<exists>A. staged E view s n A (snd (applyFreezeRange E n x (start s)))"
    using applyFreezeRange_staged [OF ok] utf by (auto simp: op_utf8_def)
  moreover have "\<exists>A. staged E view s n A (snd (applySplitCleanup E n x (start s)))"
    using applySplitCleanup_staged [OF ok] by blast
  moreover have "\<exists>A. staged E view s n A (snd (applyTxApply E n x (start s)))" if "no_rewrite (o_Writes x)"
    using applyTxApply_staged [OF ok _ _ _ that] start
    by (cases "frozenWrites s (o_Writes x)"; cases "validateReads E s (o_Reads x)"; cases "checkApplyWrites E s (o_Writes x)")
      (auto simp: applyTxApply_def)
  moreover have "\<exists>A. staged E view s n A (snd (applyTxPrepare E x (start s)))"
    using applyTxPrepare_staged [OF ok] by blast
  moreover have "\<exists>A. staged E view s n A (snd (applyTxCommit E n x (start s)))"
    by (rule intents_scan [of "sm_st s" "sm_gid s"]) (use applyTxCommit_staged [OF ok] in blast)
  moreover have "\<exists>A. staged E view s n A (snd (applyTxAbort E x (start s)))"
    using applyTxAbort_staged [OF ok] by blast
  moreover have "\<exists>A. staged E view s n A (snd (applyLock E n x (start s)))"
    using applyLock_staged [OF ok] applyLock_held [of s x n] start by (cases "lockMode (lockBefore E s x) x") auto
  moreover have "\<exists>A. staged E view s n A (snd (applyUnlock E n x (start s)))"
  proof (cases "\<exists>l. readLock E s (o_Resource x) = Some l \<and> holderExpiry l (o_Holder x) \<noteq> 0")
    case True
    then show ?thesis using applyUnlock_staged [OF ok] by blast
  next
    case False
    then have "applyUnlock E n x (start s) = (errResult ErrNotHolder, start s)"
      by (intro applyUnlock_rejected) simp
    with start show ?thesis by auto
  qed
  moreover have "\<exists>A. staged E view s n A (snd (applyForceUnlock E n x (start s)))"
    using applyForceUnlock_staged [OF ok] by blast
  moreover have "\<exists>A. staged E view s n A (start s)" using start by blast
  ultimately show ?thesis using ci nr applyOp_split [where P = "\<lambda>out. \<exists>A. staged E view s n A (snd out)" and sb = "start s"] by simp
qed

subsection \<open>A committed entry\<close>

lemma maybeGC_cutoff:
  "sm_cutoff (fst sb) = sm_cutoff s \<Longrightarrow> cutoffStep E n s (fst (maybeGC E n sb))"
  by (auto simp: maybeGC_def cutoffStep_def Let_def not_le split: prod.splits sum.splits)

lemma entered_done:
  assumes en: "entered s n A (s1, b)" and n: "sm_rev s < n" and co: "cutoffStep E n s s1" and s': "sm_gid s' = sm_gid s1" "sm_rev s' = sm_rev s1"
    "sm_cutoff s' = sm_cutoff s1" "sm_freeze s' = sm_freeze s1"
    "view (sm_st s') = (apply_batch b (view (sm_st s)))(RaftAppliedKey (sm_gid s) \<mapsto> be64 n)"
  shows "entryDone E view s n A s'"
proof -
  let ?g = "sm_gid s" and ?m = "apply_batch b (view (sm_st s))"
  note fu = foreign_upd [of ?g "RaftAppliedKey ?g"]
  have s1: "sm_gid s1 = ?g" "sm_ok E view s" "ns_ok E ?g ?m" "sm_rev s1 = n \<or> sm_rev s1 = sm_rev s \<and> A = (\<lambda>_. None)"
    and cells: "\<And>k. cellOf E ?g ?m k = act n (A k) (pruned (sm_cutoff s) (sm_cutoff s1) (smCell E view s k))"
    using en by (simp_all add: entered_def Let_def)
  have cells': "smCell E view s' k = act n (A k) (pruned (sm_cutoff s) (sm_cutoff s1) (smCell E view s k))" for k
    using cells [of k] fu(1) by (simp add: s' s1)
  have "cell_ok (sm_rev s1) (smCell E view s' k)" for k
  proof -
    have "cell_ok (sm_rev s) (smCell E view s k)" using s1(2) by (simp add: sm_ok_def)
    then have p: "cell_ok (sm_rev s) (pruned (sm_cutoff s) (sm_cutoff s1) (smCell E view s k))"
      by (simp add: pruned_def cell_gc_ok)
    with s1(4) show ?thesis
      unfolding cells' using cells.wr_ok [OF p n] cells.ok_mono [OF p, of n] n
      by (cases "A k") (auto simp: act_def)
  qed
  moreover have "smLive E view s' = overlay n A (smLive E view s)"
  proof
    fix k
    have "smLive E view s' k = fst (smCell E view s' k)" by simp
    also have "\<dots> = overlay n A (smLive E view s) k"
      unfolding cells' by (simp add: fst_act overlay_def pruned_def cell_gc_def split: option.splits)
    finally show "smLive E view s' k = overlay n A (smLive E view s) k" .
  qed
  ultimately show ?thesis
    using en s1 fu cells' co by (simp add: entryDone_def sm_ok_def entered_def Let_def s' cutoffStep_def)
qed

lemma maybeGC_foreign:
  assumes st: "staged E view s0 n A sb" and x: "foreign (sm_gid s0) x"
  shows "apply_batch (snd (maybeGC E n sb)) m x = apply_batch (snd sb) m x"
proof -
  obtain s b where sb: "sb = (s, b)" by (cases sb)
  let ?g = "sm_gid s"
  obtain xs where xs: "DB_NewIter E (sm_st s) (HistPrefix ?g) (PrefixUpperBound (HistPrefix ?g)) = Inr xs"
    "sorted_keys xs" "set xs = {(x, v). view (sm_st s) x = Some v \<and> prefix (HistPrefix ?g) x}"
    using DB_NewIter_cases [of "sm_st s" "HistPrefix ?g" "PrefixUpperBound (HistPrefix ?g)"]
    unfolding prefix_iff_in_bounds by blast
  have s: "sm_st s = sm_st s0" "?g = sm_gid s0" "sm_ok E view s0" using staged_committed [OF st] by (simp_all add: sb)
  have "x \<notin> set (gcDeletes E s co xs)" for co
    using gcDeletes_set [of s xs co] xs s foreign_HistKey [OF x] by (auto simp: sm_ok_def)
  moreover have "x \<noteq> MVCCCutoffKey ?g" using x s by (simp add: foreign_def)
  ultimately show ?thesis using xs(1) by (simp add: sb maybeGC_def Let_def apply_batch_deletes)
qed

lemma maybeGC_fields:
  "sm_hub (fst (maybeGC E n sb)) = sm_hub (fst sb)" "sm_freeze (fst (maybeGC E n sb)) = sm_freeze (fst sb)"
  "sm_rev (fst (maybeGC E n sb)) = sm_rev (fst sb)"
  by (auto simp: maybeGC_def Let_def split: prod.splits sum.splits)

lemma applyEntry_done:
  assumes ok: "sm_ok E view s" and n: "sm_rev s < n"
    and cmd: "data \<noteq> []" "unmarshalCommand E data = Some (ident, cmd)" "unmarshalOp E cmd = Some x"
    and st: "staged E view s n A (snd (applyOp E n x (start s)))"
  obtains s' where "applyEntry E n data s = Inr (Some (fst (applyOp E n x (start s))), s')"
    "entryDone E view s n A s'" "sm_freeze s' = sm_freeze (fst (snd (applyOp E n x (start s))))"
    "sm_hub s' = sm_hub (fst (snd (applyOp E n x (start s))))"
    "sm_rev s' = sm_rev (fst (snd (applyOp E n x (start s))))"
    "\<And>k. view (sm_st s') (IntentKey (sm_gid s) k) =
      apply_batch (snd (snd (applyOp E n x (start s)))) (view (sm_st s)) (IntentKey (sm_gid s) k)"
proof -
  obtain s1 b where gc: "maybeGC E n (snd (applyOp E n x (start s))) = (s1, b)"
    by (cases "maybeGC E n (snd (applyOp E n x (start s)))")
  with entered_maybeGC [OF st n] have en: "entered s n A (s1, b)" by simp
  then have s1: "sm_st s1 = sm_st s" "sm_gid s1 = sm_gid s" by (simp_all add: entered_def Let_def)
  obtain db where db: "DB_Commit E (sm_st s) (b @ [BSet (RaftAppliedKey (sm_gid s)) (be64 n)]) = Inr db"
    "view db = apply_batch (b @ [BSet (RaftAppliedKey (sm_gid s)) (be64 n)]) (view (sm_st s))"
    by (rule DB_Commit_cases)
  have "sm_freeze s1 = sm_freeze (fst (snd (applyOp E n x (start s))))" "sm_hub s1 = sm_hub (fst (snd (applyOp E n x (start s))))"
    "sm_rev s1 = sm_rev (fst (snd (applyOp E n x (start s))))"
    using maybeGC_fields [of n "snd (applyOp E n x (start s))"] gc by simp_all
  moreover have "view db (IntentKey (sm_gid s) k) =
      apply_batch (snd (snd (applyOp E n x (start s)))) (view (sm_st s)) (IntentKey (sm_gid s) k)" for k
    using maybeGC_foreign [OF st, of "IntentKey (sm_gid s) k" "view (sm_st s)"] gc db(2) by simp
  moreover have "applyEntry E n data s = Inr (Some (fst (applyOp E n x (start s))), s1\<lparr>sm_st := db\<rparr>)"
    using cmd gc db(1) s1 by (simp add: applyEntry_def Apply_def Let_def case_prod_beta)
  moreover have "entryDone E view s n A (s1\<lparr>sm_st := db\<rparr>)"
    using db(2) maybeGC_cutoff [OF staged_committed(3) [OF st], of n] gc by (intro entered_done [OF en n]) simp_all
  ultimately show ?thesis by (intro that [of "s1\<lparr>sm_st := db\<rparr>"]) simp_all
qed

end

end
