(* ===== verification/KV_Run.thy ===== *)
theory KV_Run
  imports KV_Ops
begin

text \<open>
  Runs of committed entries and the pinned-read guarantee: a read at a revision that was current
  before the run answers what a plain read answered then, as long as the revision is not below the
  horizon, whatever the entries in between wrote, deleted or pruned.
\<close>

section \<open>Well-formed runs\<close>

text \<open>
  Entries of the log have ascending indices. Two commands are excluded: \<^verbatim>\<open>copy_in\<close>, the bulk
  import that keeps foreign revisions, and a \<^verbatim>\<open>tx_apply\<close> that puts a key after deleting it.
\<close>

definition entry_fine :: "'db env \<Rightarrow> bytes \<Rightarrow> bool" where
  "entry_fine E data \<longleftrightarrow> (\<forall>ident cmd x. unmarshalCommand E data = Some (ident, cmd) \<longrightarrow> unmarshalOp E cmd = Some x \<longrightarrow>
     o_Type x \<noteq> ''copy_in'' \<and> (o_Type x = ''tx_apply'' \<longrightarrow> no_rewrite (o_Writes x)))"

definition run_fine :: "'db env \<Rightarrow> u64 \<Rightarrow> (u64 \<times> bytes) list \<Rightarrow> bool" where
  "run_fine E r es \<longleftrightarrow> sorted_wrt (<) (map fst es) \<and> (\<forall>e \<in> set es. r < fst e \<and> entry_fine E (snd e))"

lemma run_fine_Cons:
  "run_fine E r ((n, data) # es) \<longleftrightarrow> r < n \<and> entry_fine E data \<and> run_fine E n es"
  by (auto simp: run_fine_def)

context kv_env
begin

section \<open>One entry, decodable or not\<close>

lemma applyEntry_bad:
  assumes ok: "sm_ok E view s" and n: "sm_rev s < n"
    and cmd: "data \<noteq> []" "unmarshalCommand E data = Some (ident, cmd)" "unmarshalOp E cmd = None"
  obtains s' where "applyEntry E n data s = Inr (Some (errResult ''BadCommand''), s')"
    "entryDone E view s n (\<lambda>_. None) s'" "sm_freeze s' = sm_freeze s" "sm_rev s' = sm_rev s"
proof -
  obtain db where db: "DB_Commit E (sm_st s) [BSet (RaftAppliedKey (sm_gid s)) (be64 n)] = Inr db"
    "view db = apply_batch [BSet (RaftAppliedKey (sm_gid s)) (be64 n)] (view (sm_st s))"
    by (rule DB_Commit_cases)
  have "applyEntry E n data s = Inr (Some (errResult ''BadCommand''), (countOp s)\<lparr>sm_st := db\<rparr>)"
    using cmd db(1) by (simp add: applyEntry_def Apply_def)
  moreover have "entryDone E view s n (\<lambda>_. None) ((countOp s)\<lparr>sm_st := db\<rparr>)"
    using db(2) by (intro entered_done [OF staged_entered [OF staged_begin [OF ok]] n]) (simp_all add: cutoffStep_def)
  ultimately show ?thesis by (intro that [of "(countOp s)\<lparr>sm_st := db\<rparr>"]) simp_all
qed

lemma entry_cases:
  assumes ok: "sm_ok E view s" and n: "sm_rev s < n" and fine: "entry_fine E data"
  obtains res s' A where "applyEntry E n data s = Inr (res, s')" "entryDone E view s n A s'"
proof (cases "data = [] \<or> unmarshalCommand E data = None")
  case True
  have "entryDone E view s n (\<lambda>_. None) s" using ok by (simp add: entryDone_def cutoffStep_def pruned_def)
  with True show ?thesis by (intro that [of None s]) (auto simp: applyEntry_def)
next
  case False
  then obtain ident cmd where cmd: "data \<noteq> []" "unmarshalCommand E data = Some (ident, cmd)" by fastforce
  show ?thesis
  proof (cases "unmarshalOp E cmd")
    case None
    then show ?thesis by (rule applyEntry_bad [OF ok n cmd]) (rule that)
  next
    case (Some x)
    have "op_utf8 x" using op_decoded [OF Some] by simp
    with staged_any [OF ok this, of n] fine cmd Some obtain A where
      "staged E view s n A (snd (applyOp E n x (start s)))" by (auto simp: entry_fine_def)
    then show ?thesis by (rule applyEntry_done [OF ok n cmd Some]) (rule that)
  qed
qed

section \<open>Runs\<close>

definition cutoffs_upto :: "u64 \<Rightarrow> (u64 \<times> cell_val option \<times> u64 option) list \<Rightarrow> bool" where
  "cutoffs_upto co st \<longleftrightarrow> (\<forall>e \<in> set st. \<forall>x. snd (snd e) = Some x \<longrightarrow> x \<le> co)"

lemma vstep_entry:
  "act n a (pruned old co c) = cells.vstep (n, a, if co = old then None else Some co) c"
  by (simp add: cells.vstep_def act_def pruned_def split: option.splits)

lemma run_cells:
  assumes "sm_ok E view s" "run_fine E (sm_rev s) es"
  obtains s' where "applyEntries E es s = Inr s'" "sm_ok E view s'" "sm_gid s' = sm_gid s" "sm_cutoff s \<le> sm_cutoff s'"
    "sm_rev s' = sm_rev s \<or> sm_rev s' \<in> fst ` set es"
    "sm_cutoff s' = sm_cutoff s \<or> (\<exists>n \<in> fst ` set es. word_of_int (MVCCHistoryRevisions E) < n \<and>
        sm_cutoff s' = n - word_of_int (MVCCHistoryRevisions E))"
    "\<And>k. \<exists>st. map fst st = map fst es \<and> cutoffs_upto (sm_cutoff s') st \<and>
        smCell E view s' k = fold cells.vstep st (smCell E view s k)"
  using assms
proof (induction es arbitrary: s thesis)
  case Nil
  show ?case by (rule Nil.prems(1) [of s]) (use Nil.prems in \<open>auto simp: cutoffs_upto_def\<close>)
next
  case (Cons e es)
  obtain n data where e: "e = (n, data)" by (cases e)
  with Cons.prems(3) have n: "sm_rev s < n" "entry_fine E data" "run_fine E n es" by (simp_all add: run_fine_Cons)
  obtain res s1 A where s1: "applyEntry E n data s = Inr (res, s1)" "entryDone E view s n A s1"
    by (rule entry_cases [OF Cons.prems(2) n(1,2)])
  from s1(2) have done1: "sm_ok E view s1" "sm_gid s1 = sm_gid s" "sm_rev s1 = n \<or> sm_rev s1 = sm_rev s" "cutoffStep E n s s1"
    "\<And>k. smCell E view s1 k = act n (A k) (pruned (sm_cutoff s) (sm_cutoff s1) (smCell E view s k))"
    by (auto simp: entryDone_def)
  have fine: "run_fine E (sm_rev s1) es" using n done1(3) by (auto simp: run_fine_def)
  obtain s' where s': "applyEntries E es s1 = Inr s'" "sm_ok E view s'" "sm_gid s' = sm_gid s1" "sm_cutoff s1 \<le> sm_cutoff s'"
    "sm_rev s' = sm_rev s1 \<or> sm_rev s' \<in> fst ` set es"
    "sm_cutoff s' = sm_cutoff s1 \<or> (\<exists>n \<in> fst ` set es. word_of_int (MVCCHistoryRevisions E) < n \<and>
        sm_cutoff s' = n - word_of_int (MVCCHistoryRevisions E))"
    "\<And>k. \<exists>st. map fst st = map fst es \<and> cutoffs_upto (sm_cutoff s') st \<and>
        smCell E view s' k = fold cells.vstep st (smCell E view s1 k)"
    by (rule Cons.IH [OF _ done1(1) fine]) (rule that)
  show ?case
  proof (rule Cons.prems(1) [of s'])
    show "applyEntries E (e # es) s = Inr s'" using s1(1) s'(1) by (simp add: e)
    show "sm_cutoff s \<le> sm_cutoff s'" using cutoffStep_mono [OF done1(4)] s'(4) by simp
    show "sm_rev s' = sm_rev s \<or> sm_rev s' \<in> fst ` set (e # es)" using done1(3) s'(5) by (auto simp: e)
    show "sm_cutoff s' = sm_cutoff s \<or> (\<exists>n \<in> fst ` set (e # es). word_of_int (MVCCHistoryRevisions E) < n \<and>
        sm_cutoff s' = n - word_of_int (MVCCHistoryRevisions E))"
      using done1(4) s'(6) by (auto simp: e cutoffStep_def)
    fix k
    obtain st where st: "map fst st = map fst es" "cutoffs_upto (sm_cutoff s') st"
      "smCell E view s' k = fold cells.vstep st (smCell E view s1 k)" using s'(7) [of k] by blast
    let ?h = "(n, A k, if sm_cutoff s1 = sm_cutoff s then None else Some (sm_cutoff s1))"
    have "map fst (?h # st) = map fst (e # es)" using st(1) by (simp add: e)
    moreover have "cutoffs_upto (sm_cutoff s') (?h # st)" using st(2) s'(4) by (auto simp: cutoffs_upto_def)
    moreover have "smCell E view s' k = fold cells.vstep (?h # st) (smCell E view s k)"
      using st(3) done1(5) [of k] by (simp add: vstep_entry)
    ultimately show "\<exists>st. map fst st = map fst (e # es) \<and> cutoffs_upto (sm_cutoff s') st \<and>
        smCell E view s' k = fold cells.vstep st (smCell E view s k)" by blast
  qed (use s' done1 in simp_all)
qed

section \<open>Reads of a well-formed state\<close>

lemma GetLocal_live: "sm_ok E view s \<Longrightarrow> GetLocal E s k = (Inr (smLive E view s k, sm_rev s), countOp s)"
  using counterFrom_counter [of "sm_st s" "RevisionKey (sm_gid s)" "sm_rev s"]
  by (simp add: GetLocal_def Let_def sm_ok_def readRecordFrom_live)

lemma GetAtLocal_cell:
  "sm_ok E view s \<Longrightarrow> GetAtLocal E s k r =
    (if r < sm_cutoff s then Inl ErrReadTooOld else Inr (cell_at (smCell E view s k) r), countOp s)"
  using counterFrom_counter [of "sm_st s" "MVCCCutoffKey (sm_gid s)" "sm_cutoff s"]
  by (simp add: GetAtLocal_def Let_def sm_ok_def readAt_cell_at)

lemma applyGetAt_cell:
  "sm_ok E view s \<Longrightarrow> applyGetAt E s x =
    (if o_AtRev x < sm_cutoff s then errResult ErrTxTooOld
     else noResult\<lparr>res_ShardRev := o_AtRev x, res_Record := cell_at (smCell E view s (o_Key x)) (o_AtRev x)\<rparr>)"
  by (simp add: applyGetAt_def sm_ok_def readAt_cell_at)

lemma pinned_run:
  assumes ok: "sm_ok E view s" and r: "sm_rev s \<le> r" and fine: "run_fine E r es"
  obtains s' where "applyEntries E es s = Inr s'" "sm_ok E view s'" "sm_cutoff s \<le> sm_cutoff s'"
    "sm_cutoff s' = sm_cutoff s \<or> (\<exists>n \<in> fst ` set es. word_of_int (MVCCHistoryRevisions E) < n \<and>
        sm_cutoff s' = n - word_of_int (MVCCHistoryRevisions E))"
    "\<And>k. sm_cutoff s' \<le> r \<Longrightarrow> cell_at (smCell E view s' k) r = smLive E view s k"
proof -
  have fine': "run_fine E (sm_rev s) es" using fine r by (auto simp: run_fine_def)
  obtain s' where s': "applyEntries E es s = Inr s'" "sm_ok E view s'" "sm_gid s' = sm_gid s" "sm_cutoff s \<le> sm_cutoff s'"
    "sm_rev s' = sm_rev s \<or> sm_rev s' \<in> fst ` set es"
    "sm_cutoff s' = sm_cutoff s \<or> (\<exists>n \<in> fst ` set es. word_of_int (MVCCHistoryRevisions E) < n \<and>
        sm_cutoff s' = n - word_of_int (MVCCHistoryRevisions E))"
    "\<And>k. \<exists>st. map fst st = map fst es \<and> cutoffs_upto (sm_cutoff s') st \<and>
        smCell E view s' k = fold cells.vstep st (smCell E view s k)"
    by (rule run_cells [OF ok fine']) (rule that)
  have "cell_at (smCell E view s' k) r = smLive E view s k" if co: "sm_cutoff s' \<le> r" for k
  proof -
    obtain st where st: "map fst st = map fst es" "cutoffs_upto (sm_cutoff s') st"
      "smCell E view s' k = fold cells.vstep st (smCell E view s k)" using s'(7) by blast
    have c: "cell_ok (sm_rev s) (smCell E view s k)" using ok by (simp add: sm_ok_def)
    have idx: "n < fst e" if "e \<in> set st" "\<forall>e \<in> set es. n < fst e" for e n
    proof -
      have "fst e \<in> fst ` set es" using st(1) that(1) by (metis image_eqI set_map)
      with that(2) show ?thesis by auto
    qed
    have "cell_at (fold cells.vstep st (smCell E view s k)) r = cell_at (smCell E view s k) r"
    proof (rule cells.pinned [OF c])
      show "sorted_wrt (<) (map fst st)" using st(1) fine by (simp add: run_fine_def)
      show "\<forall>e \<in> set st. sm_rev s < fst e \<and> r < fst e"
        using idx [of _ r] fine r by (auto simp: run_fine_def intro: order_le_less_trans)
      show "\<forall>e \<in> set st. \<forall>x. snd (snd e) = Some x \<longrightarrow> x \<le> r"
        using st(2) co unfolding cutoffs_upto_def by (meson order_trans)
    qed
    also have "\<dots> = smLive E view s k" using cells.at_latest [OF c r] by simp
    finally show ?thesis using st(3) by simp
  qed
  with s' show ?thesis by (intro that) auto
qed

end

end
