(* ===== verification/Codec.thy ===== *)
theory Codec
  imports Prelude
begin

text \<open>
  A self-delimiting byte encoding for the concrete environments of the development: encoders and decoders of
  numbers, text, pairs and lists, and that each decoder inverts its encoder in front of any rest.
\<close>

section \<open>Encoders and their decoders\<close>

text \<open>A decoder returns the value and the rest; it inverts its encoder in front of any rest.\<close>

definition inverts :: "('a \<Rightarrow> bytes) \<Rightarrow> (bytes \<Rightarrow> ('a \<times> bytes) option) \<Rightarrow> bool" where
  "inverts enc dec \<longleftrightarrow> (\<forall>x r. dec (enc x @ r) = Some (x, r))"

definition decAll :: "(bytes \<Rightarrow> ('a \<times> bytes) option) \<Rightarrow> bytes \<Rightarrow> 'a option" where
  "decAll dec raw = map_option fst (dec raw)"

lemma decAll_inverts: "inverts enc dec \<Longrightarrow> decAll dec (enc x) = Some x"
  unfolding inverts_def decAll_def by (metis append_Nil2 fst_conv option.simps(9))

definition decU64 :: "bytes \<Rightarrow> (u64 \<times> bytes) option" where
  "decU64 bs = (if length bs < 8 then None else Some (unbe64 (take 8 bs), drop 8 bs))"

lemma inverts_u64: "inverts be64 decU64"
  by (simp add: inverts_def decU64_def)

definition encBool :: "bool \<Rightarrow> bytes" where
  "encBool b = [if b then 1 else 0]"

definition decBool :: "bytes \<Rightarrow> (bool \<times> bytes) option" where
  "decBool bs = (case bs of [] \<Rightarrow> None | b # r \<Rightarrow> Some (b \<noteq> 0, r))"

lemma inverts_bool: "inverts encBool decBool"
  by (simp add: inverts_def encBool_def decBool_def)

definition encPair :: "('a \<Rightarrow> bytes) \<Rightarrow> ('b \<Rightarrow> bytes) \<Rightarrow> 'a \<times> 'b \<Rightarrow> bytes" where
  "encPair f g p = f (fst p) @ g (snd p)"

definition decPair :: "(bytes \<Rightarrow> ('a \<times> bytes) option) \<Rightarrow> (bytes \<Rightarrow> ('b \<times> bytes) option) \<Rightarrow> bytes \<Rightarrow> (('a \<times> 'b) \<times> bytes) option" where
  "decPair f g bs = (case f bs of None \<Rightarrow> None | Some (x, r) \<Rightarrow>
     (case g r of None \<Rightarrow> None | Some (y, r') \<Rightarrow> Some ((x, y), r')))"

lemma inverts_pair: "inverts f f' \<Longrightarrow> inverts g g' \<Longrightarrow> inverts (encPair f g) (decPair f' g')"
  by (simp add: inverts_def encPair_def decPair_def)

text \<open>A list: every element is announced by 1, the end by 0. The fuel of the decoder is the input's length.\<close>

definition encList :: "('a \<Rightarrow> bytes) \<Rightarrow> 'a list \<Rightarrow> bytes" where
  "encList f xs = concat (map (\<lambda>x. 1 # f x) xs) @ [0]"

fun decListN :: "nat \<Rightarrow> (bytes \<Rightarrow> ('a \<times> bytes) option) \<Rightarrow> bytes \<Rightarrow> ('a list \<times> bytes) option" where
  "decListN 0 f bs = None"
| "decListN (Suc n) f [] = None"
| "decListN (Suc n) f (b # bs) =
     (if b = 0 then Some ([], bs)
      else (case f bs of None \<Rightarrow> None | Some (x, r) \<Rightarrow>
        (case decListN n f r of None \<Rightarrow> None | Some (xs, r') \<Rightarrow> Some (x # xs, r'))))"

definition decList :: "(bytes \<Rightarrow> ('a \<times> bytes) option) \<Rightarrow> bytes \<Rightarrow> ('a list \<times> bytes) option" where
  "decList f bs = decListN (length bs) f bs"

lemma decListN_encList:
  "inverts f f' \<Longrightarrow> length xs < n \<Longrightarrow> decListN n f' (encList f xs @ r) = Some (xs, r)"
proof (induction xs arbitrary: n)
  case Nil
  then show ?case by (cases n) (simp_all add: encList_def)
next
  case (Cons x xs)
  then obtain n' where n: "n = Suc n'" "length xs < n'" by (cases n) auto
  from Cons.prems(1) have "f' (f x @ encList f xs @ r) = Some (x, encList f xs @ r)"
    unfolding inverts_def by (metis append_assoc)
  with Cons.IH [OF Cons.prems(1) n(2)] show ?case by (simp add: n(1) encList_def)
qed

lemma encList_longer: "length xs < length (encList f xs)"
  by (induction xs) (simp_all add: encList_def)

lemma inverts_list: "inverts f f' \<Longrightarrow> inverts (encList f) (decList f')"
  unfolding inverts_def decList_def
  using decListN_encList [of f f'] encList_longer [of _ f]
  by (simp add: inverts_def trans_less_add1)

lemma inverts_conv:
  assumes "inverts f f'" "\<And>x. k (h x) = x"
  shows "inverts (f \<circ> h) (\<lambda>bs. map_option (\<lambda>(y, r). (k y, r)) (f' bs))"
  using assms by (simp add: inverts_def)

fun encBytes :: "bytes \<Rightarrow> bytes" where
  "encBytes [] = [0]"
| "encBytes (b # bs) = 1 # b # encBytes bs"

fun decBytes :: "bytes \<Rightarrow> (bytes \<times> bytes) option" where
  "decBytes [] = None"
| "decBytes (x # bs) =
     (if x = 0 then Some ([], bs)
      else (case bs of [] \<Rightarrow> None | b # r \<Rightarrow> map_option (\<lambda>(ys, r'). (b # ys, r')) (decBytes r)))"

lemma inverts_bytes: "inverts encBytes decBytes"
proof -
  have "decBytes (encBytes xs @ r) = Some (xs, r)" for xs r by (induction xs) simp_all
  then show ?thesis by (simp add: inverts_def)
qed

lemmas inverts_intros = inverts_u64 inverts_bool inverts_bytes inverts_pair inverts_list

lemma inverts_convI: "inverts f f' \<Longrightarrow> (\<And>x. k (h x) = x) \<Longrightarrow> e = f \<circ> h \<Longrightarrow>
    d = (\<lambda>bs. map_option (\<lambda>(y, r). (k y, r)) (f' bs)) \<Longrightarrow> inverts e d"
  using inverts_conv [of f f' k h] by simp

section \<open>Numbers and text\<close>

fun natBytes :: "nat \<Rightarrow> bytes" where
  "natBytes n = (if n = 0 then [] else of_nat (n mod 256) # natBytes (n div 256))"

declare natBytes.simps [simp del]

definition bytesNat :: "bytes \<Rightarrow> nat" where
  "bytesNat bs = foldr (\<lambda>b a. unat b + 256 * a) bs 0"

lemma bytesNat_natBytes [simp]: "bytesNat (natBytes n) = n"
proof (induction n rule: natBytes.induct)
  case (1 n)
  then show ?case by (subst natBytes.simps) (simp add: bytesNat_def unat_of_nat)
qed

definition encInt :: "int \<Rightarrow> bytes" where
  "encInt = encPair encBool encBytes \<circ> (\<lambda>i. (i < 0, natBytes (nat (abs i))))"

definition decInt :: "bytes \<Rightarrow> (int \<times> bytes) option" where
  "decInt bs = map_option (\<lambda>(y, r). ((\<lambda>(neg, b). if neg then - int (bytesNat b) else int (bytesNat b)) y, r))
     (decPair decBool decBytes bs)"

lemma inverts_int: "inverts encInt decInt"
  unfolding encInt_def decInt_def by (rule inverts_conv) (intro inverts_intros, simp)

fun encChar :: "char \<Rightarrow> bytes" where
  "encChar (Char a b c d e f g h) = map (\<lambda>x. if x then 1 else 0) [a, b, c, d, e, f, g, h]"

fun decChar :: "bytes \<Rightarrow> (char \<times> bytes) option" where
  "decChar (a # b # c # d # e # f # g # h # r) =
     Some (Char (a \<noteq> 0) (b \<noteq> 0) (c \<noteq> 0) (d \<noteq> 0) (e \<noteq> 0) (f \<noteq> 0) (g \<noteq> 0) (h \<noteq> 0), r)"
| "decChar _ = None"

lemma inverts_char: "inverts encChar decChar"
proof -
  have "decChar (encChar x @ r) = Some (x, r)" for x r by (cases x) simp
  then show ?thesis by (simp add: inverts_def)
qed

definition encText :: "string \<Rightarrow> bytes" where
  "encText = encList encChar"

definition decText :: "bytes \<Rightarrow> (string \<times> bytes) option" where
  "decText = decList decChar"

lemma inverts_text: "inverts encText decText"
  unfolding encText_def decText_def by (rule inverts_list) (rule inverts_char)

end
