(* ===== verification/Reference.thy ===== *)
theory Reference
  imports KV_Run Codec
begin

text \<open>
  A reference environment for the state machine: an association list in place of Pebble and a
  self-delimiting byte encoding in place of JSON. It satisfies every law the development assumes of
  the two libraries (the interpretation at the end), so the assumptions can hold together, and it
  computes, so the theorems can be applied to concrete runs.
\<close>

section \<open>The store\<close>

type_synonym refdb = "(bytes \<times> bytes) list"

definition refIter :: "refdb \<Rightarrow> bytes \<Rightarrow> bytes option \<Rightarrow> (bytes \<times> bytes) list" where
  "refIter db lo hi = map (\<lambda>k. (k, the (map_of db k))) (sort (remdups (filter (in_bounds lo hi) (map fst db))))"

fun refApply :: "bop \<Rightarrow> refdb \<Rightarrow> refdb" where
  "refApply (BSet k v) db = AList.update k v db"
| "refApply (BDelete k) db = AList.delete k db"
| "refApply (BDeleteRange lo hi) db = filter (\<lambda>e. \<not> in_bounds lo hi (fst e)) db"

definition refCommit :: "refdb \<Rightarrow> bop list \<Rightarrow> refdb" where
  "refCommit db b = foldl (\<lambda>db x. refApply x db) db b"

lemma map_of_filter_fst: "map_of (filter (\<lambda>e. P (fst e)) db) k = (if P k then map_of db k else None)"
  by (induction db) auto

lemma map_of_refApply: "map_of (refApply x db) = apply_bop x (map_of db)"
proof (cases x)
  case (BDeleteRange lo hi)
  then show ?thesis using map_of_filter_fst [of "\<lambda>k. \<not> in_bounds lo hi k" db] by (auto simp: fun_eq_iff)
qed (simp_all add: update_conv' delete_conv')

lemma map_of_refCommit: "map_of (refCommit db b) = apply_batch b (map_of db)"
proof (induction b arbitrary: db)
  case (Cons x b)
  from Cons.IH [of "refApply x db"] show ?case by (simp add: refCommit_def map_of_refApply)
qed (simp add: refCommit_def)

lemma refIter_sorted: "sorted_keys (refIter db lo hi)"
proof -
  have "map fst (refIter db lo hi) = sort (remdups (filter (in_bounds lo hi) (map fst db)))"
    by (simp add: refIter_def o_def)
  then show ?thesis by (simp add: strict_sorted_iff)
qed

lemma refIter_set: "set (refIter db lo hi) = {(k, v). map_of db k = Some v \<and> in_bounds lo hi k}"
proof (intro set_eqI iffI)
  fix e assume "e \<in> set (refIter db lo hi)"
  then obtain k where "e = (k, the (map_of db k))" "in_bounds lo hi k" "k \<in> fst ` set db" by (auto simp: refIter_def)
  then show "e \<in> {(k, v). map_of db k = Some v \<and> in_bounds lo hi k}"
    by (cases "map_of db k") (auto simp: map_of_eq_None_iff)
next
  fix e assume "e \<in> {(k, v). map_of db k = Some v \<and> in_bounds lo hi k}"
  then obtain k v where e: "e = (k, v)" "map_of db k = Some v" "in_bounds lo hi k" by blast
  then have "k \<in> fst ` set db" by (metis map_of_eq_None_iff option.distinct(1))
  with e show "e \<in> set (refIter db lo hi)" by (force simp: refIter_def)
qed

section \<open>The values the state machine stores\<close>

definition encRecord :: "Record \<Rightarrow> bytes" where
  "encRecord = encPair be64 (encPair encBytes encBool) \<circ> (\<lambda>r. (r_Rev r, r_Value r, r_Blob r))"

definition decRecord :: "bytes \<Rightarrow> (Record \<times> bytes) option" where
  "decRecord bs = map_option (\<lambda>(y, r). ((\<lambda>(a, b, c). \<lparr>r_Rev = a, r_Value = b, r_Blob = c\<rparr>) y, r))
     (decPair decU64 (decPair decBytes decBool) bs)"

definition encHist :: "histVersion \<Rightarrow> bytes" where
  "encHist = encPair be64 (encPair encBytes (encPair encBool encBool)) \<circ>
     (\<lambda>h. (h_Rev h, h_Value h, h_Blob h, h_Deleted h))"

definition decHist :: "bytes \<Rightarrow> (histVersion \<times> bytes) option" where
  "decHist bs = map_option (\<lambda>(y, r). ((\<lambda>(a, b, c, d). \<lparr>h_Rev = a, h_Value = b, h_Blob = c, h_Deleted = d\<rparr>) y, r))
     (decPair decU64 (decPair decBytes (decPair decBool decBool)) bs)"

definition encWrite :: "TxWrite \<Rightarrow> bytes" where
  "encWrite = encPair encBytes (encPair encBytes (encPair encBool encBool)) \<circ>
     (\<lambda>w. (w_Key w, w_Value w, w_Delete w, w_Blob w))"

definition decWrite :: "bytes \<Rightarrow> (TxWrite \<times> bytes) option" where
  "decWrite bs = map_option (\<lambda>(y, r). ((\<lambda>(a, b, c, d). \<lparr>w_Key = a, w_Value = b, w_Delete = c, w_Blob = d\<rparr>) y, r))
     (decPair decBytes (decPair decBytes (decPair decBool decBool)) bs)"

definition encIntent :: "intent \<Rightarrow> bytes" where
  "encIntent = encPair encBytes (encList encWrite) \<circ> (\<lambda>i. (in_TxID i, in_Writes i))"

definition decIntent :: "bytes \<Rightarrow> (intent \<times> bytes) option" where
  "decIntent bs = map_option (\<lambda>(y, r). ((\<lambda>(a, b). \<lparr>in_TxID = a, in_Writes = b\<rparr>) y, r))
     (decPair decBytes (decList decWrite) bs)"

definition encFreeze :: "freezeRange \<Rightarrow> bytes" where
  "encFreeze = encPair encBytes encBytes \<circ> (\<lambda>f. (f_Start f, f_End f))"

definition decFreeze :: "bytes \<Rightarrow> (freezeRange \<times> bytes) option" where
  "decFreeze bs = map_option (\<lambda>(y, r). ((\<lambda>(a, b). \<lparr>f_Start = a, f_End = b\<rparr>) y, r)) (decPair decBytes decBytes bs)"

definition encLock :: "lockState \<Rightarrow> bytes" where
  "encLock = encPair encBytes (encPair (encList (encPair encBytes be64)) be64) \<circ> (\<lambda>l. (l_Mode l, l_Holders l, l_Fencing l))"

definition decLock :: "bytes \<Rightarrow> (lockState \<times> bytes) option" where
  "decLock bs = map_option (\<lambda>(y, r). ((\<lambda>(a, b, c). \<lparr>l_Mode = a, l_Holders = b, l_Fencing = c\<rparr>) y, r))
     (decPair decBytes (decPair (decList (decPair decBytes decU64)) decU64) bs)"

lemma inverts_record: "inverts encRecord decRecord"
  unfolding encRecord_def decRecord_def by (rule inverts_conv) (intro inverts_intros, simp)

lemma inverts_hist: "inverts encHist decHist"
  unfolding encHist_def decHist_def by (rule inverts_conv) (intro inverts_intros, simp)

lemma inverts_write: "inverts encWrite decWrite"
  unfolding encWrite_def decWrite_def by (rule inverts_conv) (intro inverts_intros, simp)

lemma inverts_intent: "inverts encIntent decIntent"
  unfolding encIntent_def decIntent_def by (rule inverts_conv) (intro inverts_intros inverts_write, simp)

lemma inverts_freeze: "inverts encFreeze decFreeze"
  unfolding encFreeze_def decFreeze_def by (rule inverts_conv) (intro inverts_intros, simp)

lemma inverts_lock: "inverts encLock decLock"
  unfolding encLock_def decLock_def by (rule inverts_conv) (intro inverts_intros, simp)

section \<open>The environment\<close>

text \<open>
  Commands are looked up in a table, so that a concrete log can be written down; a command with
  strings that JSON could not have produced is refused.
\<close>

definition refOp :: "(bytes \<times> Op) list \<Rightarrow> bytes \<Rightarrow> Op option" where
  "refOp t raw = (case map_of t raw of
     None \<Rightarrow> None
   | Some x \<Rightarrow> if op_utf8 x \<and> distinct (map fst (o_Reads x)) \<and> distinct (map fst (o_Pairs x)) then Some x else None)"

definition refLock :: "bytes \<Rightarrow> lockState option" where
  "refLock raw = (case decAll decLock raw of
     None \<Rightarrow> None
   | Some l \<Rightarrow> if lock_utf8 l \<and> distinct (map fst (l_Holders l)) then Some l else None)"

definition refEnv :: "(bytes \<times> Op) list \<Rightarrow> int \<Rightarrow> int \<Rightarrow> refdb env" where
  "refEnv t h e = \<lparr>
     DB_Get = (\<lambda>db k. Inr (map_of db k)),
     DB_NewIter = (\<lambda>db lo hi. Inr (refIter db lo hi)),
     DB_Commit = (\<lambda>db b. Inr (refCommit db b)),
     marshalRecord = encRecord, unmarshalRecord = decAll decRecord,
     marshalHist = encHist, unmarshalHist = decAll decHist,
     marshalIntent = encIntent, unmarshalIntent = decAll decIntent,
     marshalLock = encLock, unmarshalLock = refLock,
     marshalFreeze = encFreeze, unmarshalFreeze = decAll decFreeze,
     unmarshalOp = refOp t, unmarshalCommand = (\<lambda>raw. Some ([], raw)),
     MVCCHistoryRevisions = h, MVCCGCEvery = e\<rparr>"

interpretation ref: kv_env "refEnv t h e" map_of for t h e
proof (unfold_locales, goal_cases)
  case (2 db lo hi)
  have "DB_NewIter (refEnv t h e) db lo hi = Inr (refIter db lo hi)" by (simp add: refEnv_def)
  with refIter_sorted [of db lo hi] refIter_set [of db lo hi] show ?case by blast
next
  case (3 db b)
  have "DB_Commit (refEnv t h e) db b = Inr (refCommit db b)" by (simp add: refEnv_def)
  with map_of_refCommit [of db b] show ?case by blast
next
  case (8 l)
  have "unmarshalLock (refEnv t h e) (marshalLock (refEnv t h e) l) = Some l"
    using 8 by (simp add: refEnv_def refLock_def decAll_inverts [OF inverts_lock])
  with 8 show ?case by blast
next
  case (9 raw l)
  then show ?case by (simp add: refEnv_def refLock_def split: option.splits if_splits)
next
  case (10 raw x)
  then show ?case by (simp add: refEnv_def refOp_def split: option.splits if_splits)
qed (simp_all add: refEnv_def decAll_inverts inverts_record inverts_hist inverts_intent inverts_freeze)

end
