(* ===== verification/KV_Props.thy ===== *)
theory KV_Props
  imports Reference
begin

text \<open>
  The properties of the state machine as its clients see them: what each command answers and what a
  read through \<^verbatim>\<open>localread.go\<close> returns afterwards. Every property is about an arbitrary
  environment that satisfies the laws of \<^verbatim>\<open>kv_env\<close>; the witnesses run concrete logs against
  the reference environment.
\<close>

section \<open>Shared vocabulary\<close>

text \<open>The command of a log entry, as \<^verbatim>\<open>applyEntry\<close> and \<^verbatim>\<open>Apply\<close> decode it.\<close>

definition entryOp :: "'db env \<Rightarrow> bytes \<Rightarrow> Op option" where
  "entryOp E data = (if data = [] then None
     else (case unmarshalCommand E data of None \<Rightarrow> None | Some (ident, cmd) \<Rightarrow> unmarshalOp E cmd))"

text \<open>The zero command, and a state machine over an empty store.\<close>

definition op0 :: Op where
  "op0 = \<lparr>o_Type = [], o_Key = [], o_Value = [], o_Blob = False, o_Start = [], o_End = [], o_AtRev = 0,
     o_Prefix = [], o_Cursor = [], o_Limit = 0, o_TxID = [], o_Reads = [], o_Writes = [], o_Resource = [],
     o_Holder = [], o_Mode = [], o_TTLms = 0, o_NowMs = 0, o_Pairs = []\<rparr>"

definition sm0 :: "refdb SM" where
  "sm0 = \<lparr>sm_gid = 7, sm_st = [], sm_hub = None, sm_maxValue = 0, sm_ops = 0, sm_rev = 0, sm_cutoff = 0, sm_freeze = None\<rparr>"

lemma sm0_ok: "sm_ok (refEnv t h e) map_of sm0"
proof -
  have "hist (refEnv t h e) g (\<lambda>_. None) k = (\<lambda>_. None)" for g k by (rule ext) (simp add: hist_def)
  then show ?thesis
    by (simp add: sm_ok_def sm0_def ns_ok_def counter_def freeze_ok_def cellOf_def live_def cell_ok_empty)
qed

context kv_env
begin

lemma entryOp_done:
  assumes ok: "sm_ok E view s" and n: "sm_rev s < n" and x: "entryOp E data = Some x"
    and st: "staged E view s n A (snd (applyOp E n x (start s)))"
  obtains s' where "applyEntry E n data s = Inr (Some (fst (applyOp E n x (start s))), s')"
    "entryDone E view s n A s'" "sm_freeze s' = sm_freeze (fst (snd (applyOp E n x (start s))))"
    "sm_hub s' = sm_hub (fst (snd (applyOp E n x (start s))))"
    "sm_rev s' = sm_rev (fst (snd (applyOp E n x (start s))))"
    "\<And>k. view (sm_st s') (IntentKey (sm_gid s) k) =
      apply_batch (snd (snd (applyOp E n x (start s)))) (view (sm_st s)) (IntentKey (sm_gid s) k)"
proof -
  obtain ident cmd where "data \<noteq> []" "unmarshalCommand E data = Some (ident, cmd)" "unmarshalOp E cmd = Some x"
    using x by (auto simp: entryOp_def split: if_splits option.splits)
  then show ?thesis by (rule applyEntry_done [OF ok n _ _ _ st]) (rule that)
qed

lemma entryOp_utf8: "entryOp E data = Some x \<Longrightarrow> op_utf8 x"
  using op_decoded by (auto simp: entryOp_def split: if_splits option.splits)

text \<open>Rejected commands stage nothing.\<close>

lemma err_nonempty [simp]:
  "ErrConflict \<noteq> []" "ErrLockHeld \<noteq> []" "ErrNotHolder \<noteq> []" "ErrValueTooLong \<noteq> []" "ErrTxTooOld \<noteq> []" "ErrShardSplitting \<noteq> []"
  by (simp_all add: err_defs)

lemma noResult_Err [simp]: "res_Err noResult = []"
  by (simp add: noResult_def)

lemma applyOp_err:
  assumes ok: "sm_ok E view s" and err: "res_Err (fst (applyOp E n x (start s))) \<noteq> []"
  shows "snd (applyOp E n x (start s)) = start s"
proof -
  define P where "P out \<longleftrightarrow> (res_Err (fst out) \<noteq> [] \<longrightarrow> snd out = start s)" for out :: "Result \<times> 'db work"
  have "P (applySet E n x (start s))" by (simp add: P_def applySet_def)
  moreover have "P (applyDelete E n x (start s))" by (simp add: P_def applyDelete_def)
  moreover have "P (applyTxApply E n x (start s))" by (simp add: P_def applyTxApply_def split: option.splits)
  moreover have "P (applyTxPrepare E x (start s))" by (simp add: P_def applyTxPrepare_def Let_def split: option.splits)
  moreover have "P (applyUnlock E n x (start s))" by (simp add: P_def applyUnlock_def Let_def split: option.splits)
  moreover have "P (applyForceUnlock E n x (start s))" by (simp add: P_def applyForceUnlock_def)
  moreover have "P (applyLock E n x (start s))"
    using applyLock_held [of s x n] applyLock_granted [of s x _ n] by (cases "lockMode (lockBefore E s x) x") (auto simp: P_def)
  moreover have "P (applyFreezeRange E n x (start s))" by (simp add: P_def applyFreezeRange_def Let_def)
  moreover have "P (applyCopyIn E x (start s))" by (simp add: P_def applyCopyIn_def Let_def split: prod.splits)
  moreover have "P (applyDeleteRange E n x (start s))"
    using applyDeleteRange_staged [OF ok, of x n] by (cases "frozenOverlap s (o_Start x) (o_End x)") (auto simp: P_def applyDeleteRange_def)
  moreover have "P (applySplitCleanup E n x (start s))" using applySplitCleanup_staged [OF ok, of n x] by (simp add: P_def)
  moreover have "P (applyTxCommit E n x (start s))"
    by (rule intents_scan [of "sm_st s" "sm_gid s"]) (use applyTxCommit_staged [OF ok, of _ n x] in \<open>simp add: P_def\<close>)
  moreover have "P (applyTxAbort E x (start s))" using applyTxAbort_staged [OF ok] by (simp add: P_def)
  moreover have "P (r, start s)" for r by (simp add: P_def)
  ultimately have "P (applyOp E n x (start s))" by - (rule applyOp_split [where P = P])
  with err show ?thesis by (simp add: P_def)
qed

end

section \<open>A demonstration log\<close>

text \<open>
  Commands \<open>[1]\<close> to \<open>[3]\<close>: put \<^verbatim>\<open>a\<close>, put it again, delete it. The environment keeps two revisions of
  history and prunes at every second entry.
\<close>

abbreviation setOp :: "string \<Rightarrow> bytes \<Rightarrow> Op" where
  "setOp k v \<equiv> op0\<lparr>o_Type := ''set'', o_Key := str k, o_Value := v\<rparr>"

definition demoEnv :: "refdb env" where
  "demoEnv = refEnv [([1], setOp ''a'' [10]), ([2], setOp ''a'' [20]),
     ([3], op0\<lparr>o_Type := ''delete'', o_Key := str ''a''\<rparr>)] 2 2"

definition demo1 :: "refdb SM" where
  "demo1 = projr (applyEntries demoEnv [(1, [1])] sm0)"

lemma demo_env: "kv_env demoEnv map_of"
  unfolding demoEnv_def by (rule ref.kv_env_axioms)

text \<open>The state after a well-formed log from an empty store satisfies the invariant.\<close>

lemma ref_run_ok:
  assumes "run_fine (refEnv t h e) 0 es"
  shows "sm_ok (refEnv t h e) map_of (projr (applyEntries (refEnv t h e) es sm0))"
proof -
  have fine: "run_fine (refEnv t h e) (sm_rev sm0) es" using assms by (simp add: sm0_def)
  obtain s' where "applyEntries (refEnv t h e) es sm0 = Inr s'" "sm_ok (refEnv t h e) map_of s'"
    by (rule ref.run_cells [OF sm0_ok fine])
  then show ?thesis by simp
qed

lemmas fine_simps = run_fine_def entry_fine_def refEnv_def refOp_def op0_def

lemma demo1_ok: "sm_ok demoEnv map_of demo1"
  unfolding demo1_def demoEnv_def by (rule ref_run_ok) (simp add: fine_simps)

lemma demo_fine: "run_fine demoEnv 1 [(2, [2]), (3, [3])]"
  by (simp add: demoEnv_def fine_simps)

lemma demo1_rev: "sm_rev demo1 = 1" "sm_cutoff demo1 = 0"
  by code_simp+

section \<open>Pinned reads\<close>



text \<open>
  C7. History is kept long enough. With a horizon of \<open>H\<close> revisions, a pin at \<open>r\<close> that is not yet below the
  horizon stays readable while the log has advanced at most \<open>H\<close> entries past \<open>r\<close>: the pinned read answers
  the record itself, never that the revision is too old.
\<close>

theorem pinned_read_available:
  assumes "kv_env E view" "sm_ok E view s" "sm_rev s \<le> r" "sm_cutoff s \<le> r" "run_fine E r es"
    "0 \<le> MVCCHistoryRevisions E" "MVCCHistoryRevisions E < 2 ^ 64"
    "\<forall>e \<in> set es. int (unat (fst e)) \<le> int (unat r) + MVCCHistoryRevisions E"
  shows "\<exists>s' rec. applyEntries E es s = Inr s' \<and> fst (GetLocal E s k) = Inr (rec, sm_rev s) \<and>
    fst (GetAtLocal E s' k r) = Inr rec"
proof -
  let ?h = "word_of_int (MVCCHistoryRevisions E) :: u64"
  obtain s' where s': "applyEntries E es s = Inr s'" "sm_ok E view s'"
    "sm_cutoff s' = sm_cutoff s \<or> (\<exists>n \<in> fst ` set es. ?h < n \<and> sm_cutoff s' = n - ?h)"
    "\<And>k. sm_cutoff s' \<le> r \<Longrightarrow> cell_at (smCell E view s' k) r = smLive E view s k"
    by (rule kv_env.pinned_run [OF assms(1-3,5)]) (rule that)
  have "n - ?h \<le> r" if "n \<in> fst ` set es" "?h < n" for n
  proof -
    have "unat ?h = nat (MVCCHistoryRevisions E)"
      using assms(6,7) by (simp add: unsigned_of_int take_bit_int_eq_self)
    moreover have "unat (n - ?h) = unat n - unat ?h" using that(2) by (simp add: unat_sub less_imp_le)
    moreover have "int (unat n) \<le> int (unat r) + MVCCHistoryRevisions E" using that(1) assms(8) by auto
    ultimately show ?thesis using assms(6) unfolding word_le_nat_alt by arith
  qed
  with s'(3) assms(4) have "sm_cutoff s' \<le> r" by metis
  with s' show ?thesis
    using kv_env.GetLocal_live [OF assms(1,2), of k] kv_env.GetAtLocal_cell [OF assms(1) s'(2), of k r] by simp
qed

theorem pinned_read_available_witness:
  "\<exists>s' rec. applyEntries demoEnv [(2, [2]), (3, [3])] demo1 = Inr s' \<and>
      fst (GetLocal demoEnv demo1 (str ''a'')) = Inr (rec, sm_rev demo1) \<and>
      fst (GetAtLocal demoEnv s' (str ''a'') 1) = Inr rec"
  by (rule pinned_read_available [OF demo_env demo1_ok _ _ demo_fine])
    (simp_all add: demo1_rev, simp_all add: demoEnv_def refEnv_def)

text \<open>
  C6. Restart. After any well-formed run the state machine can be reopened from its store alone: the
  reopened machine has the same revision, horizon and split freeze, and answers every plain and every
  pinned read as the running one.
\<close>

theorem restart_recovers:
  assumes "kv_env E view" "sm_ok E view s" "run_fine E (sm_rev s) es"
  shows "\<exists>s' s2. applyEntries E es s = Inr s' \<and> NewSM E (sm_gid s') (sm_st s') hub mv = Inr s2 \<and>
    sm_rev s2 = sm_rev s' \<and> sm_cutoff s2 = sm_cutoff s' \<and> sm_freeze s2 = sm_freeze s' \<and>
    (\<forall>k r. fst (GetLocal E s2 k) = fst (GetLocal E s' k) \<and> fst (GetAtLocal E s2 k r) = fst (GetAtLocal E s' k r))"
proof -
  obtain s' where s': "applyEntries E es s = Inr s'" "sm_ok E view s'"
    by (rule kv_env.run_cells [OF assms(1-3)])
  let ?s2 = "\<lparr>sm_gid = sm_gid s', sm_st = sm_st s', sm_hub = hub, sm_maxValue = mv, sm_ops = 0,
    sm_rev = sm_rev s', sm_cutoff = sm_cutoff s', sm_freeze = sm_freeze s'\<rparr>"
  have new: "NewSM E (sm_gid s') (sm_st s') hub mv = Inr ?s2"
    using s'(2) kv_env.GetU64_counter [OF assms(1)] kv_env.loadFreeze_ok [OF assms(1)]
    by (auto simp: NewSM_def sm_ok_def split: sum.splits)
  have ok2: "sm_ok E view ?s2" using s'(2) by (simp add: sm_ok_def)
  have "fst (GetLocal E ?s2 k) = fst (GetLocal E s' k)" "fst (GetAtLocal E ?s2 k r) = fst (GetAtLocal E s' k r)" for k r
    using kv_env.GetLocal_live [OF assms(1) ok2, of k] kv_env.GetLocal_live [OF assms(1) s'(2), of k]
      kv_env.GetAtLocal_cell [OF assms(1) ok2, of k r] kv_env.GetAtLocal_cell [OF assms(1) s'(2), of k r] by simp_all
  with s'(1) new show ?thesis by (intro exI [of _ s'] exI [of _ ?s2]) simp
qed

theorem restart_recovers_witness:
  "\<exists>s' s2. applyEntries demoEnv [(2, [2]), (3, [3])] demo1 = Inr s' \<and> NewSM demoEnv (sm_gid s') (sm_st s') None 0 = Inr s2 \<and>
    sm_rev s2 = sm_rev s' \<and> sm_cutoff s2 = sm_cutoff s' \<and> sm_freeze s2 = sm_freeze s' \<and>
    (\<forall>k r. fst (GetLocal demoEnv s2 k) = fst (GetLocal demoEnv s' k) \<and> fst (GetAtLocal demoEnv s2 k r) = fst (GetAtLocal demoEnv s' k r))"
  by (rule restart_recovers [OF demo_env demo1_ok]) (simp add: demo1_rev demo_fine)

end
