(* ===== verification/KV_Writes.thy ===== *)
theory KV_Writes
  imports KV_Props
begin

text \<open>
  Plain writes and the split freeze: what \<^verbatim>\<open>set\<close>, \<^verbatim>\<open>delete_range\<close>,
  \<^verbatim>\<open>freeze_range\<close> and \<^verbatim>\<open>split_cleanup\<close> answer and what the store reads
  afterwards, and that a rejected command changes nothing.
\<close>

section \<open>Answers and effects\<close>

text \<open>The dispatcher at each command name.\<close>

lemma applyOp_simps:
  "o_Type x = ''set'' \<Longrightarrow> applyOp E n x sb = applySet E n x sb"
  "o_Type x = ''delete'' \<Longrightarrow> applyOp E n x sb = applyDelete E n x sb"
  "o_Type x = ''delete_range'' \<Longrightarrow> applyOp E n x sb = applyDeleteRange E n x sb"
  "o_Type x = ''freeze_range'' \<Longrightarrow> applyOp E n x sb = applyFreezeRange E n x sb"
  "o_Type x = ''split_cleanup'' \<Longrightarrow> applyOp E n x sb = applySplitCleanup E n x sb"
  "o_Type x = ''tx_apply'' \<Longrightarrow> applyOp E n x sb = applyTxApply E n x sb"
  "o_Type x = ''tx_prepare'' \<Longrightarrow> applyOp E n x sb = applyTxPrepare E x sb"
  "o_Type x = ''tx_commit'' \<Longrightarrow> applyOp E n x sb = applyTxCommit E n x sb"
  "o_Type x = ''tx_abort'' \<Longrightarrow> applyOp E n x sb = applyTxAbort E x sb"
  "o_Type x = ''lock'' \<Longrightarrow> applyOp E n x sb = applyLock E n x sb"
  "o_Type x = ''unlock'' \<Longrightarrow> applyOp E n x sb = applyUnlock E n x sb"
  "o_Type x = ''force_unlock'' \<Longrightarrow> applyOp E n x sb = applyForceUnlock E n x sb"
  "o_Type x = ''copy_in'' \<Longrightarrow> applyOp E n x sb = applyCopyIn E x sb"
  by (simp_all add: applyOp_def Let_def)

lemma putRecord_hub: "sm_hub (fst (putRecord E k r sb)) =
    map_option (publish \<lparr>ev_Rev = r_Rev r, ev_Type = ''put'', ev_Key = k, ev_Value = r_Value r, ev_Blob = r_Blob r\<rparr>) (sm_hub (fst sb))"
  by (simp add: putRecord_def emit_def Let_def split: prod.splits)

lemma bumpRev_hub [simp]: "sm_hub (fst (bumpRev n sb)) = sm_hub (fst sb)"
  by (simp add: bumpRev_def split: prod.splits)

context kv_env
begin

lemma entryDone_reads:
  assumes "entryDone E view s n A s'"
  shows "fst (GetLocal E s' k) = Inr (overlay n A (smLive E view s) k, sm_rev s')"
  using GetLocal_live [OF entryDoneD(1) [OF assms], of k] unfolding entryDoneD(3) [OF assms] by simp

text \<open>A frozen key is outside every range a command is allowed to delete.\<close>

lemma frozenOverlap_sound: "\<not> frozenOverlap s a b \<Longrightarrow> frozen s k \<Longrightarrow> \<not> (a \<le> k \<and> k < b)"
  by (auto simp: frozenOverlap_def frozen_def split: option.splits if_splits)

lemma deleteRecord_freeze [simp]: "sm_freeze (fst (fold (\<lambda>x. deleteRecord E (f x) n) xs sb)) = sm_freeze (fst sb)"
  by (induction xs arbitrary: sb) simp_all

lemma stageWrites_freeze [simp]: "sm_freeze (fst (fold (stageWrite E n) ws sb)) = sm_freeze (fst sb)"
  by (induction ws arbitrary: sb) (simp_all add: stageWrite_def)

lemma bumpRev_freeze [simp]: "sm_freeze (fst (bumpRev n sb)) = sm_freeze (fst sb)"
  by (simp add: bumpRev_def split: prod.splits)

end

section \<open>Rejected commands\<close>


section \<open>A log with a freeze\<close>

text \<open>
  Put \<^verbatim>\<open>a\<close>, put \<^verbatim>\<open>m\<close>, freeze \<^verbatim>\<open>[a, c)\<close>; the other commands are used against the frozen state.
\<close>

definition frzEnv :: "refdb env" where
  "frzEnv = refEnv [([1], setOp ''a'' [10]), ([2], setOp ''m'' [20]),
     ([3], op0\<lparr>o_Type := ''freeze_range'', o_Start := str ''a'', o_End := str ''c''\<rparr>),
     ([4], setOp ''b'' [30]), ([5], setOp ''m'' [40]),
     ([6], op0\<lparr>o_Type := ''delete_range'', o_Start := str ''c'', o_End := str ''z''\<rparr>),
     ([7], op0\<lparr>o_Type := ''split_cleanup'', o_Start := str ''a'', o_End := str ''c''\<rparr>)] 100 10"

definition frz :: "refdb SM" where
  "frz = projr (applyEntries frzEnv [(1, [1]), (2, [2]), (3, [3])] sm0)"

lemma frz_env: "kv_env frzEnv map_of"
  unfolding frzEnv_def by (rule ref.kv_env_axioms)

lemma frz_ok: "sm_ok frzEnv map_of frz"
  unfolding frz_def frzEnv_def by (rule ref_run_ok) (simp add: fine_simps)

lemma frz_simps: "sm_rev frz = 3" "sm_freeze frz = Some \<lparr>f_Start = str ''a'', f_End = str ''c''\<rparr>" "sm_maxValue frz = 0"
  by code_simp+


section \<open>Plain writes\<close>

text \<open>
  A put that is neither frozen nor too large answers the entry's revision; afterwards the key reads as
  the new value at that revision, every other key as before, and the watch hub got exactly the event of
  the put.
\<close>

theorem set_applied:
  assumes "kv_env E view" "sm_ok E view s" "sm_rev s < n" "entryOp E data = Some x" "o_Type x = ''set''"
    "\<not> frozen s (o_Key x)" "\<not> tooLong s (o_Value x)"
  shows "\<exists>s'. applyEntry E n data s = Inr (Some (revResult n), s') \<and> sm_ok E view s' \<and>
    fst (GetLocal E s' (o_Key x)) = Inr (Some \<lparr>r_Rev = n, r_Value = o_Value x, r_Blob = o_Blob x\<rparr>, n) \<and>
    (\<forall>k. k \<noteq> o_Key x \<longrightarrow> map_sum id fst (fst (GetLocal E s' k)) = map_sum id fst (fst (GetLocal E s k))) \<and>
    sm_hub s' = map_option (publish \<lparr>ev_Rev = n, ev_Type = ''put'', ev_Key = o_Key x, ev_Value = o_Value x,
      ev_Blob = o_Blob x\<rparr>) (sm_hub s)"
proof -
  note set = applyOp_simps(1) [OF assms(5), of E n "start s"]
  note st = kv_env.applySet_staged [OF assms(1,2,6,7), where n = n]
  obtain s' where s': "applyEntry E n data s = Inr (Some (fst (applyOp E n x (start s))), s')"
    "entryDone E view s n [o_Key x \<mapsto> Some (o_Value x, o_Blob x)] s'"
    "sm_hub s' = sm_hub (fst (snd (applyOp E n x (start s))))"
    using kv_env.entryOp_done [OF assms(1-4), of "[o_Key x \<mapsto> Some (o_Value x, o_Blob x)]"] st unfolding set by metis
  have "sm_hub (fst (snd (applySet E n x (start s)))) = map_option (publish \<lparr>ev_Rev = n, ev_Type = ''put'',
      ev_Key = o_Key x, ev_Value = o_Value x, ev_Blob = o_Blob x\<rparr>) (sm_hub s)"
    using assms(6,7) by (simp add: applySet_def putRecord_hub)
  moreover have "sm_rev s' = n" using entryDoneD(4) [OF s'(2)] by (auto dest: fun_cong [of _ _ "o_Key x"])
  ultimately show ?thesis
    using s' st kv_env.entryDone_reads [OF assms(1) s'(2)] kv_env.GetLocal_live [OF assms(1,2)] entryDoneD(1) [OF s'(2)]
    unfolding set by simp
qed

theorem set_applied_witness:
  "\<exists>s'. applyEntry frzEnv 4 [5] frz = Inr (Some (revResult 4), s') \<and>
    fst (GetLocal frzEnv s' (str ''m'')) = Inr (Some \<lparr>r_Rev = 4, r_Value = [40], r_Blob = False\<rparr>, 4)"
proof -
  have x: "entryOp frzEnv [5] = Some (setOp ''m'' [40])" by code_simp
  have "\<not> frozen frz (o_Key (setOp ''m'' [40]))" "\<not> tooLong frz (o_Value (setOp ''m'' [40]))" by code_simp+
  from set_applied [OF frz_env frz_ok _ x _ this, of 4] show ?thesis by (auto simp: frz_simps op0_def)
qed

text \<open>
  A range delete whose range does not touch a frozen one removes exactly the keys in the half-open
  range: afterwards a key from \<open>o_Start\<close> up to but excluding \<open>o_End\<close> reads as missing and every other key
  reads as before. An empty \<open>o_End\<close> removes nothing.
\<close>

theorem deleteRange_applied:
  assumes "kv_env E view" "sm_ok E view s" "sm_rev s < n" "entryOp E data = Some x" "o_Type x = ''delete_range''"
    "\<not> frozenOverlap s (o_Start x) (o_End x)"
  shows "\<exists>s'. applyEntry E n data s = Inr (Some (revResult n), s') \<and> sm_ok E view s' \<and>
    (\<forall>k. map_sum id fst (fst (GetLocal E s' k)) =
      (if o_Start x \<le> k \<and> k < o_End x then Inr None else map_sum id fst (fst (GetLocal E s k))))"
proof -
  note op = applyOp_simps(3) [OF assms(5), of E n "start s"]
  note st = kv_env.applyDeleteRange_staged [OF assms(1,2,6), where n = n]
  obtain s' where s': "applyEntry E n data s = Inr (Some (fst (applyOp E n x (start s))), s')"
    "entryDone E view s n (spanDel (smLive E view s) (\<lambda>k. o_Start x \<le> k \<and> k < o_End x)) s'"
    by (rule kv_env.entryOp_done [OF assms(1-4), unfolded op, OF conjunct2 [OF st]]) (rule that [unfolded op])
  then show ?thesis
    using st kv_env.entryDone_reads [OF assms(1) s'(2)] kv_env.GetLocal_live [OF assms(1,2)] entryDoneD(1) [OF s'(2)]
    unfolding op by (simp add: overlay_spanDel)
qed

theorem deleteRange_applied_witness:
  "\<exists>s'. applyEntry frzEnv 4 [6] frz = Inr (Some (revResult 4), s') \<and>
    map_sum id fst (fst (GetLocal frzEnv s' (str ''m''))) = Inr None \<and>
    map_sum id fst (fst (GetLocal frzEnv frz (str ''m''))) \<noteq> Inr None"
proof -
  let ?x = "op0\<lparr>o_Type := ''delete_range'', o_Start := str ''c'', o_End := str ''z''\<rparr>"
  have x: "entryOp frzEnv [6] = Some ?x" by code_simp
  have "\<not> frozenOverlap frz (o_Start ?x) (o_End ?x)" by code_simp
  from deleteRange_applied [OF frz_env frz_ok _ x _ this, of 4] obtain s' where
    "applyEntry frzEnv 4 [6] frz = Inr (Some (revResult 4), s')"
    "\<forall>k. map_sum id fst (fst (GetLocal frzEnv s' k)) =
      (if str ''c'' \<le> k \<and> k < str ''z'' then Inr None else map_sum id fst (fst (GetLocal frzEnv frz k)))"
    by (auto simp: frz_simps op0_def)
  moreover have "str ''c'' \<le> str ''m'' \<and> str ''m'' < str ''z''" by code_simp
  moreover have "map_sum id fst (fst (GetLocal frzEnv frz (str ''m''))) \<noteq> Inr None" by code_simp
  ultimately show ?thesis by auto
qed

section \<open>The split freeze\<close>

text \<open>Client traffic: everything but the split driver's own commands, 2PC commits and locks.\<close>

definition clientOp :: "Op \<Rightarrow> bool" where
  "clientOp x \<longleftrightarrow> o_Type x \<in> set [''set'', ''delete'', ''delete_range'', ''tx_apply'', ''tx_prepare'', ''tx_abort'',
     ''get'', ''get_at'', ''list_at'', ''list_range'']"

context kv_env
begin

lemma client_frozen_any:
  assumes ok: "sm_ok E view s" and x: "clientOp x" "o_Type x = ''tx_apply'' \<longrightarrow> no_rewrite (o_Writes x)"
    and utf8: "op_utf8 x"
  shows "\<exists>A. staged E view s n A (snd (applyOp E n x (start s))) \<and> (\<forall>k. frozen s k \<longrightarrow> A k = None) \<and>
    (\<forall>k. A k \<noteq> None \<longrightarrow> valid_utf8 k \<or> smLive E view s k \<noteq> None) \<and>
    sm_freeze (fst (snd (applyOp E n x (start s)))) = sm_freeze s"
proof -
  define P where "P out \<longleftrightarrow> (\<exists>A. staged E view s n A (snd out) \<and> (\<forall>k. frozen s k \<longrightarrow> A k = None) \<and>
    (\<forall>k. A k \<noteq> None \<longrightarrow> valid_utf8 k \<or> smLive E view s k \<noteq> None) \<and>
    sm_freeze (fst (snd out)) = sm_freeze s)" for out :: "Result \<times> 'db work"
  have key: "valid_utf8 (o_Key x)" "\<And>w. w \<in> set (o_Writes x) \<Longrightarrow> valid_utf8 (w_Key w)"
    using utf8 by (auto simp: op_utf8_def write_utf8_def)
  have st: "P (r, start s)" for r using staged_begin [OF ok, of n] by (auto simp: P_def)
  have "P (applySet E n x (start s))"
  proof (cases "frozen s (o_Key x) \<or> tooLong s (o_Value x)")
    case True
    with st show ?thesis by (auto simp: applySet_def)
  next
    case False
    with applySet_staged [OF ok, of x n] show ?thesis
      unfolding P_def by (intro exI [of _ "[o_Key x \<mapsto> Some (o_Value x, o_Blob x)]"]) (auto simp: applySet_def key)
  qed
  moreover have "P (applyDelete E n x (start s))"
  proof (cases "frozen s (o_Key x)")
    case True
    with st show ?thesis by (auto simp: applyDelete_def)
  next
    case False
    with applyDelete_staged [OF ok, of x n] show ?thesis
      unfolding P_def by (intro exI [of _ "[o_Key x \<mapsto> None]"]) (auto simp: applyDelete_def key)
  qed
  moreover have "P (applyDeleteRange E n x (start s))"
  proof (cases "frozenOverlap s (o_Start x) (o_End x)")
    case True
    with st show ?thesis by (auto simp: applyDeleteRange_def)
  next
    case False
    with applyDeleteRange_staged [OF ok, of x n] frozenOverlap_sound [OF False] show ?thesis unfolding P_def
      by (intro exI [of _ "spanDel (smLive E view s) (\<lambda>k. o_Start x \<le> k \<and> k < o_End x)"])
        (auto simp: spanDel_def applyDeleteRange_def Let_def deleteSpan_fields case_prod_beta)
  qed
  moreover have "P (applyTxApply E n x (start s))" if nr: "no_rewrite (o_Writes x)"
  proof (cases "frozenWrites s (o_Writes x) \<or> validateReads E s (o_Reads x) \<noteq> None \<or> checkApplyWrites E s (o_Writes x) \<noteq> None")
    case True
    with st show ?thesis by (auto simp: applyTxApply_def split: option.splits)
  next
    case False
    have "fold (\<lambda>w A. A(w_Key w \<mapsto> writeVal w)) ws A k = A k" if "k \<notin> w_Key ` set ws" for ws k and A :: "bytes \<rightharpoonup> cell_val"
      using that by (induction ws arbitrary: A) auto
    then have none: "txActs (o_Writes x) k = None" if "k \<notin> w_Key ` set (o_Writes x)" for k using that by (simp add: txActs_def)
    moreover have "k \<notin> w_Key ` set (o_Writes x)" if "frozen s k" for k
      using False that by (auto simp: frozenWrites_def list_ex_iff)
    ultimately have "txActs (o_Writes x) k = None" if "frozen s k" for k using that by blast
    moreover have "valid_utf8 k" if "txActs (o_Writes x) k \<noteq> None" for k using none [of k] that key(2) by auto
    ultimately show ?thesis using False applyTxApply_staged [OF ok, of x n] nr
      unfolding P_def by (intro exI [of _ "txActs (o_Writes x)"]) (simp add: applyTxApply_def)
  qed
  moreover have "P (applyTxPrepare E x (start s))"
    using applyTxPrepare_staged [OF ok, of n x] unfolding P_def
    by (intro exI [of _ "\<lambda>_. None"]) (simp add: applyTxPrepare_def Let_def split: option.splits)
  moreover have "P (applyTxAbort E x (start s))"
    using applyTxAbort_staged [OF ok, of x n] unfolding P_def
    by (intro exI [of _ "\<lambda>_. None"]) (simp add: applyTxAbort_def split: sum.splits)
  ultimately have "P (applyOp E n x (start s))"
    using x st by (auto simp: clientOp_def applyOp_def Let_def)
  then show ?thesis by (simp add: P_def)
qed

text \<open>Client traffic only stores keys of its commands, which are valid UTF-8.\<close>

lemma client_frozen_entry:
  assumes ok: "sm_ok E view s" and n: "sm_rev s < n" and fine: "entry_fine E data"
    and cl: "\<And>x. entryOp E data = Some x \<Longrightarrow> clientOp x"
  obtains res s' where "applyEntry E n data s = Inr (res, s')" "sm_ok E view s'" "sm_rev s' = n \<or> sm_rev s' = sm_rev s"
    "sm_freeze s' = sm_freeze s" "\<And>k. frozen s k \<Longrightarrow> smLive E view s' k = smLive E view s k"
    "keys_utf8 (smLive E view s) \<Longrightarrow> keys_utf8 (smLive E view s')"
proof (cases "data = [] \<or> unmarshalCommand E data = None")
  case True
  with ok show ?thesis by (intro that [of None s]) (auto simp: applyEntry_def)
next
  case False
  then obtain ident cmd where cmd: "data \<noteq> []" "unmarshalCommand E data = Some (ident, cmd)" by fastforce
  show ?thesis
  proof (cases "unmarshalOp E cmd")
    case None
    obtain s' where s': "applyEntry E n data s = Inr (Some (errResult ''BadCommand''), s')"
      "entryDone E view s n (\<lambda>_. None) s'" "sm_freeze s' = sm_freeze s"
      by (rule applyEntry_bad [OF ok n cmd None]) (rule that)
    then show ?thesis using entryDoneD [OF s'(2)] by (intro that [OF s'(1)]) auto
  next
    case (Some x)
    then have x: "entryOp E data = Some x" using cmd by (simp add: entryOp_def)
    have "o_Type x = ''tx_apply'' \<longrightarrow> no_rewrite (o_Writes x)" using fine cmd Some by (simp add: entry_fine_def)
    from client_frozen_any [OF ok cl [OF x] this entryOp_utf8 [OF x], of n] obtain A where
      st: "staged E view s n A (snd (applyOp E n x (start s)))" and A: "\<forall>k. frozen s k \<longrightarrow> A k = None"
      "\<forall>k. A k \<noteq> None \<longrightarrow> valid_utf8 k \<or> smLive E view s k \<noteq> None"
      and fr: "sm_freeze (fst (snd (applyOp E n x (start s)))) = sm_freeze s" by blast
    obtain s' where s': "applyEntry E n data s = Inr (Some (fst (applyOp E n x (start s))), s')"
      "entryDone E view s n A s'" "sm_freeze s' = sm_freeze (fst (snd (applyOp E n x (start s))))"
      by (rule entryOp_done [OF ok n x st]) (rule that)
    moreover have "keys_utf8 (smLive E view s')" if "keys_utf8 (smLive E view s)"
      unfolding keys_utf8_def
    proof (intro allI impI)
      fix k assume "smLive E view s' k \<noteq> None"
      then have "A k \<noteq> None \<or> smLive E view s k \<noteq> None"
        using entryDoneD(3) [OF s'(2)] by (auto simp: overlay_def split: option.splits)
      with A(2) that show "valid_utf8 k" by (auto simp: keys_utf8_def)
    qed
    ultimately show ?thesis using entryDoneD [OF s'(2)] A(1) fr by (intro that [OF s'(1)]) (auto simp: overlay_def)
  qed
qed

lemma client_frozen_run:
  assumes "sm_ok E view s" "run_fine E (sm_rev s) es" "\<forall>e \<in> set es. \<forall>x. entryOp E (snd e) = Some x \<longrightarrow> clientOp x"
  shows "\<exists>s'. applyEntries E es s = Inr s' \<and> sm_ok E view s' \<and> sm_freeze s' = sm_freeze s \<and>
    (\<forall>k. frozen s k \<longrightarrow> smLive E view s' k = smLive E view s k)"
  using assms
proof (induction es arbitrary: s)
  case Nil
  then show ?case by simp
next
  case (Cons e es)
  obtain n data where e: "e = (n, data)" by (cases e)
  from Cons.prems(2) have fine: "sm_rev s < n" "entry_fine E data" "run_fine E n es" by (simp_all add: e run_fine_Cons)
  obtain res s1 where s1: "applyEntry E n data s = Inr (res, s1)" "sm_ok E view s1" "sm_rev s1 = n \<or> sm_rev s1 = sm_rev s"
    "sm_freeze s1 = sm_freeze s" "\<And>k. frozen s k \<Longrightarrow> smLive E view s1 k = smLive E view s k"
    by (rule client_frozen_entry [OF Cons.prems(1) fine(1,2)]) (use Cons.prems(3) e in auto)
  have "run_fine E (sm_rev s1) es" using fine s1(3) by (auto simp: run_fine_def)
  from Cons.IH [OF s1(2) this] Cons.prems(3) obtain s' where s': "applyEntries E es s1 = Inr s'" "sm_ok E view s'"
    "sm_freeze s' = sm_freeze s1" "\<forall>k. frozen s1 k \<longrightarrow> smLive E view s' k = smLive E view s1 k" by auto
  have "frozen s1 = frozen s" using s1(4) by (simp add: fun_eq_iff frozen_def)
  with s1 s' show ?case by (intro exI [of _ s']) (simp add: e)
qed

end



text \<open>
  Split cleanup. The command answers its revision, removes exactly the keys of the moved range (an
  empty end means to the end of the keyspace), leaves every other key as it was, and lifts the freeze when,
  and only when, it is the freeze of this very range.
\<close>

theorem splitCleanup_applied:
  assumes "kv_env E view" "sm_ok E view s" "sm_rev s < n" "entryOp E data = Some x" "o_Type x = ''split_cleanup''"
  shows "\<exists>s'. applyEntry E n data s = Inr (Some (revResult n), s') \<and> sm_ok E view s' \<and>
    sm_freeze s' = (if sm_freeze s = Some \<lparr>f_Start = o_Start x, f_End = o_End x\<rparr> then None else sm_freeze s) \<and>
    (\<forall>k. map_sum id fst (fst (GetLocal E s' k)) =
      (if o_Start x \<le> k \<and> (o_End x = [] \<or> k < o_End x) then Inr None else map_sum id fst (fst (GetLocal E s k))))"
proof -
  note op = applyOp_simps(5) [OF assms(5), of E n "start s"]
  note st = kv_env.applySplitCleanup_staged [OF assms(1,2), where n = n and x = x]
  obtain s' where s': "applyEntry E n data s = Inr (Some (fst (applyOp E n x (start s))), s')"
    "entryDone E view s n (spanDel (smLive E view s) (inSpan (o_Start x) (o_End x))) s'"
    "sm_freeze s' = sm_freeze (fst (snd (applyOp E n x (start s))))"
    by (rule kv_env.entryOp_done [OF assms(1-4), unfolded op, OF conjunct2 [OF conjunct2 [OF st]]]) (rule that [unfolded op])
  then show ?thesis
    using st kv_env.entryDone_reads [OF assms(1) s'(2)] kv_env.GetLocal_live [OF assms(1,2)] entryDoneD(1) [OF s'(2)]
    unfolding op by (auto simp: overlay_spanDel inSpan_def)
qed

theorem splitCleanup_applied_witness:
  "\<exists>s'. applyEntry frzEnv 4 [7] frz = Inr (Some (revResult 4), s') \<and> sm_freeze s' = None \<and>
    map_sum id fst (fst (GetLocal frzEnv s' (str ''a''))) = Inr None \<and>
    map_sum id fst (fst (GetLocal frzEnv s' (str ''m''))) = map_sum id fst (fst (GetLocal frzEnv frz (str ''m'')))"
proof -
  let ?x = "op0\<lparr>o_Type := ''split_cleanup'', o_Start := str ''a'', o_End := str ''c''\<rparr>"
  have x: "entryOp frzEnv [7] = Some ?x" by code_simp
  have "str ''a'' < str ''c''" "\<not> str ''m'' < str ''c''" by code_simp+
  then show ?thesis
    using splitCleanup_applied [OF frz_env frz_ok _ x, of 4] by (auto simp: frz_simps op0_def)
qed

end
