(* ===== verification/KV_Tx.thy ===== *)
theory KV_Tx
  imports KV_Writes
begin

text \<open>
  Transactions. The one-shot \<^verbatim>\<open>tx_apply\<close> is optimistic concurrency control: it commits exactly when
  every key it read still has the revision it saw. Two-phase commit keeps its writes in intents; they
  survive any interleaving of other commands until the transaction's own commit or abort.
\<close>

section \<open>Optimistic validation\<close>

definition curRev :: "(bytes \<rightharpoonup> Record) \<Rightarrow> bytes \<Rightarrow> u64" where
  "curRev l k = (case l k of Some r \<Rightarrow> r_Rev r | None \<Rightarrow> 0)"

abbreviation smIntent :: "('db \<Rightarrow> bytes \<rightharpoonup> bytes) \<Rightarrow> 'db SM \<Rightarrow> bytes \<Rightarrow> bytes option" where
  "smIntent view s k \<equiv> view (sm_st s) (IntentKey (sm_gid s) k)"

text \<open>The condition under which a one-shot transaction may commit.\<close>

definition txValid :: "'db env \<Rightarrow> ('db \<Rightarrow> bytes \<rightharpoonup> bytes) \<Rightarrow> 'db SM \<Rightarrow> Op \<Rightarrow> bool" where
  "txValid E view s x \<longleftrightarrow>
     (\<forall>(k, r) \<in> set (o_Reads x). curRev (smLive E view s) k = r \<and> smIntent view s k = None) \<and>
     (\<forall>w \<in> set (o_Writes x). \<not> frozen s (w_Key w) \<and> smIntent view s (w_Key w) = None \<and> \<not> tooLong s (w_Value w))"

text \<open>The last write to a key wins.\<close>

definition lastWrite :: "TxWrite list \<Rightarrow> bytes \<Rightarrow> TxWrite option" where
  "lastWrite ws k = find (\<lambda>w. w_Key w = k) (rev ws)"

lemma find_append: "find P (xs @ ys) = (case find P xs of Some x \<Rightarrow> Some x | None \<Rightarrow> find P ys)"
  by (induction xs) auto

lemma txActs_lastWrite: "txActs ws k = map_option writeVal (lastWrite ws k)"
proof -
  have "fold (\<lambda>w A. A(w_Key w \<mapsto> writeVal w)) ws A k =
    (case lastWrite ws k of Some w \<Rightarrow> Some (writeVal w) | None \<Rightarrow> A k)" for A
    by (induction ws arbitrary: A) (auto simp: lastWrite_def find_append split: option.splits)
  then show ?thesis by (simp add: txActs_def split: option.splits)
qed

text \<open>What a key reads after a set of transaction writes at revision \<open>n\<close>.\<close>

definition afterWrite :: "u64 \<Rightarrow> TxWrite option \<Rightarrow> Record option \<Rightarrow> Record option" where
  "afterWrite n w old = (case w of None \<Rightarrow> old
     | Some v \<Rightarrow> if w_Delete v then None else Some \<lparr>r_Rev = n, r_Value = w_Value v, r_Blob = w_Blob v\<rparr>)"

lemma overlay_writes: "A k = map_option writeVal w \<Longrightarrow> overlay n A l k = afterWrite n w (l k)"
  by (auto simp: overlay_def afterWrite_def writeVal_def split: option.splits)

context kv_env
begin

lemma intentAt_view: "intentAt E s k = smIntent view s k"
  by (simp add: intentAt_def)

lemma validateReads_iff:
  assumes "sm_ok E view s"
  shows "validateReads E s rs = None \<longleftrightarrow> (\<forall>(k, r) \<in> set rs. curRev (smLive E view s) k = r \<and> smIntent view s k = None)"
proof (induction rs)
  case Nil
  show ?case by simp
next
  case (Cons e rs)
  obtain k r where e: "e = (k, r)" by (cases e)
  have "readRecord E s k = Inr (smLive E view s k)" using assms by (intro readRecord_live) (simp add: sm_ok_def)
  with Cons show ?case by (auto simp: e intentAt_view curRev_def Let_def)
qed

lemma checkApplyWrites_iff:
  "checkApplyWrites E s ws = None \<longleftrightarrow> (\<forall>w \<in> set ws. smIntent view s (w_Key w) = None \<and> \<not> tooLong s (w_Value w))"
  by (induction ws) (auto simp: intentAt_view)

lemma txValid_iff:
  "sm_ok E view s \<Longrightarrow> txValid E view s x \<longleftrightarrow> \<not> frozenWrites s (o_Writes x) \<and>
    validateReads E s (o_Reads x) = None \<and> checkApplyWrites E s (o_Writes x) = None"
  by (auto simp: txValid_def validateReads_iff checkApplyWrites_iff frozenWrites_def list_ex_iff)

lemma checkApplyWrites_err: "checkApplyWrites E s ws = Some res \<Longrightarrow> res_Err res \<noteq> []"
  by (induction ws) (auto split: if_splits)

lemma applyTxApply_rejected:
  "sm_ok E view s \<Longrightarrow> \<not> txValid E view s x \<Longrightarrow> res_Err (fst (applyTxApply E n x (start s))) \<noteq> []"
  by (auto simp: txValid_iff applyTxApply_def split: option.splits dest: checkApplyWrites_err)

end

text \<open>
  C5. One-shot transactions are optimistic and atomic. The command commits exactly when every read key
  still has the revision the transaction saw (0 for a missing key), no read or written key carries an
  intent, no written key is frozen and no value is too large. When it commits, it answers the entry's
  revision, every written key reads as its last write at that revision and every other key as before;
  otherwise it answers an error and no key changes.
\<close>

theorem txApply_atomic:
  assumes "kv_env E view" "sm_ok E view s" "sm_rev s < n" "entryOp E data = Some x" "o_Type x = ''tx_apply''"
    "no_rewrite (o_Writes x)"
  shows "\<exists>res s'. applyEntry E n data s = Inr (Some res, s') \<and> sm_ok E view s' \<and>
    (if txValid E view s x
     then res = revResult n \<and> (\<forall>k. fst (GetLocal E s' k) = Inr (afterWrite n (lastWrite (o_Writes x) k) (smLive E view s k), n))
     else res_Err res \<noteq> [] \<and> (\<forall>k. fst (GetLocal E s' k) = Inr (smLive E view s k, sm_rev s)))"
proof -
  note op = applyOp_simps(6) [OF assms(5), of E n "start s"]
  show ?thesis
  proof (cases "txValid E view s x")
    case True
    then have ok: "\<not> frozenWrites s (o_Writes x)" "validateReads E s (o_Reads x) = None" "checkApplyWrites E s (o_Writes x) = None"
      using kv_env.txValid_iff [OF assms(1,2)] by simp_all
    note st = kv_env.applyTxApply_staged [OF assms(1,2) ok assms(6), where n = n]
    obtain s' where s': "applyEntry E n data s = Inr (Some (fst (applyOp E n x (start s))), s')"
      "entryDone E view s n (txActs (o_Writes x)) s'" "sm_rev s' = sm_rev (fst (snd (applyOp E n x (start s))))"
      by (rule kv_env.entryOp_done [OF assms(1-4), unfolded op, OF conjunct2 [OF st]]) (rule that [unfolded op])
    have "sm_rev (fst (fold (stageWrite E n) ws sb)) = sm_rev (fst sb)" for ws and sb :: "'a work"
      using kv_env.putRecord_fields [OF assms(1)] kv_env.deleteRecord_fields [OF assms(1)]
      by (induction ws arbitrary: sb) (simp_all add: stageWrite_def)
    then have "sm_rev s' = n" using s'(3) ok kv_env.bumpRev_rev [OF assms(1)] unfolding op by (simp add: applyTxApply_def)
    then show ?thesis
      using s'(1) st kv_env.entryDone_reads [OF assms(1) s'(2)] entryDoneD(1) [OF s'(2)] True unfolding op
      by (simp add: overlay_writes [OF txActs_lastWrite])
  next
    case False
    then have err: "res_Err (fst (applyOp E n x (start s))) \<noteq> []"
      using kv_env.applyTxApply_rejected [OF assms(1,2)] unfolding op by simp
    then have "staged E view s n (\<lambda>_. None) (snd (applyOp E n x (start s)))"
      using kv_env.applyOp_err [OF assms(1,2) err] kv_env.staged_begin [OF assms(1,2)] by simp
    then obtain s' where s': "applyEntry E n data s = Inr (Some (fst (applyOp E n x (start s))), s')"
      "entryDone E view s n (\<lambda>_. None) s'" "sm_rev s' = sm_rev (fst (snd (applyOp E n x (start s))))"
      by (rule kv_env.entryOp_done [OF assms(1-4)]) (rule that)
    then show ?thesis
      using False err kv_env.applyOp_err [OF assms(1,2) err] kv_env.entryDone_reads [OF assms(1) s'(2)] entryDoneD(1) [OF s'(2)] by simp
  qed
qed

section \<open>A log with transactions\<close>

text \<open>
  Command \<open>[2]\<close> is a one-shot transaction that read \<^verbatim>\<open>a\<close> at revision 1 and writes \<^verbatim>\<open>a\<close> and
  \<^verbatim>\<open>b\<close>; \<open>[3]\<close> prepares the same writes for the transaction \<^verbatim>\<open>t\<close>, \<open>[4]\<close> commits it, \<open>[5]\<close> aborts
  it, \<open>[6]\<close> is an unrelated put and \<open>[7]\<close> a prepare of another transaction on \<^verbatim>\<open>b\<close>.
\<close>

definition putW :: "string \<Rightarrow> bytes \<Rightarrow> TxWrite" where
  "putW k v = \<lparr>w_Key = str k, w_Value = v, w_Delete = False, w_Blob = False\<rparr>"

definition txWs :: "TxWrite list" where
  "txWs = [putW ''a'' [20], putW ''b'' [30]]"

definition txEnv :: "refdb env" where
  "txEnv = refEnv [([1], setOp ''a'' [10]),
     ([2], op0\<lparr>o_Type := ''tx_apply'', o_Reads := [(str ''a'', 1)], o_Writes := txWs\<rparr>),
     ([3], op0\<lparr>o_Type := ''tx_prepare'', o_TxID := str ''t'', o_Reads := [(str ''a'', 1)], o_Writes := txWs\<rparr>),
     ([4], op0\<lparr>o_Type := ''tx_commit'', o_TxID := str ''t''\<rparr>),
     ([5], op0\<lparr>o_Type := ''tx_abort'', o_TxID := str ''t''\<rparr>),
     ([6], setOp ''c'' [60]),
     ([7], op0\<lparr>o_Type := ''tx_prepare'', o_TxID := str ''u'', o_Writes := [putW ''b'' [70]]\<rparr>)] 100 10"

definition tx1 :: "refdb SM" where
  "tx1 = projr (applyEntries txEnv [(1, [1])] sm0)"

lemma tx_env: "kv_env txEnv map_of"
  unfolding txEnv_def by (rule ref.kv_env_axioms)

lemma tx1_ok: "sm_ok txEnv map_of tx1"
  unfolding tx1_def txEnv_def by (rule ref_run_ok) (simp add: fine_simps)

lemma tx1_rev: "sm_rev tx1 = 1"
  by code_simp

theorem txApply_atomic_witness:
  "\<exists>s'. applyEntry txEnv 2 [2] tx1 = Inr (Some (revResult 2), s') \<and>
    fst (GetLocal txEnv s' (str ''b'')) = Inr (Some \<lparr>r_Rev = 2, r_Value = [30], r_Blob = False\<rparr>, 2)"
proof -
  let ?x = "op0\<lparr>o_Type := ''tx_apply'', o_Reads := [(str ''a'', 1)], o_Writes := txWs\<rparr>"
  have x: "entryOp txEnv [2] = Some ?x" by code_simp
  have nr: "no_rewrite (o_Writes ?x)" by (simp add: no_rewrite_def txWs_def putW_def)
  have valid: "txValid txEnv map_of tx1 ?x" by code_simp
  have last: "lastWrite (o_Writes ?x) (str ''b'') = Some (putW ''b'' [30])" by code_simp
  from txApply_atomic [OF tx_env tx1_ok _ x _ nr, of 2] valid last show ?thesis
    by (auto simp: tx1_rev afterWrite_def putW_def op0_def)
qed

section \<open>Intents\<close>

text \<open>The intents of one transaction.\<close>

definition smOwn :: "'db env \<Rightarrow> ('db \<Rightarrow> bytes \<rightharpoonup> bytes) \<Rightarrow> 'db SM \<Rightarrow> bytes \<Rightarrow> bytes \<rightharpoonup> bytes" where
  "smOwn E view s t k = (case smIntent view s k of
     None \<Rightarrow> None | Some raw \<Rightarrow> if ownIntent E t raw then Some raw else None)"

text \<open>A command of another transaction, or of none, leaves a transaction's intents alone.\<close>

definition foreignTo :: "bytes \<Rightarrow> Op \<Rightarrow> bool" where
  "foreignTo t x \<longleftrightarrow> (o_Type x \<in> {''tx_prepare'', ''tx_commit'', ''tx_abort''} \<longrightarrow> o_TxID x \<noteq> t)"

text \<open>Operations on keys other than intents.\<close>

definition plainBops :: "bop list \<Rightarrow> bool" where
  "plainBops b \<longleftrightarrow> (\<forall>x \<in> set b. \<exists>y v. (x = BSet y v \<or> x = BDelete y) \<and> (\<forall>h k. y \<noteq> IntentKey h k))"

lemma plainBops_Nil [simp]: "plainBops []"
  by (simp add: plainBops_def)

lemma plainBops_append [simp]: "plainBops (a @ b) \<longleftrightarrow> plainBops a \<and> plainBops b"
  by (auto simp: plainBops_def)

lemma plainBops_Cons [simp]:
  "plainBops (BSet y v # b) \<longleftrightarrow> (\<forall>h k. y \<noteq> IntentKey h k) \<and> plainBops b"
  "plainBops (BDelete y # b) \<longleftrightarrow> (\<forall>h k. y \<noteq> IntentKey h k) \<and> plainBops b"
  by (auto simp: plainBops_def)

lemma plainBops_intents: "plainBops b \<Longrightarrow> apply_batch b m (IntentKey g k) = m (IntentKey g k)"
proof (induction b arbitrary: m)
  case (Cons x b)
  have "plainBops b" using Cons.prems by (simp add: plainBops_def)
  from Cons.IH [OF this, of "apply_bop x m"] Cons.prems show ?case by (auto simp: plainBops_def)
qed simp

lemma plainBops_primitives [simp]:
  "plainBops (snd (bumpRev n sb)) = plainBops (snd sb)"
  "plainBops (snd (putRecord E k r sb)) = plainBops (snd sb)"
  "plainBops (snd (deleteRecord E k n sb)) = plainBops (snd sb)"
  by (auto simp: bumpRev_def putRecord_def deleteRecord_def archiveVersion_def Let_def split: prod.splits sum.splits option.splits)

lemma plainBops_stageWrite [simp]: "plainBops (snd (stageWrite E n w sb)) = plainBops (snd sb)"
  by (simp add: stageWrite_def)

lemma plainBops_fold:
  "(\<And>x sb. plainBops (snd (f x sb)) = plainBops (snd sb)) \<Longrightarrow> plainBops (snd (fold f xs sb)) = plainBops (snd sb)"
  by (induction xs arbitrary: sb) simp_all

lemma plainBops_deleteSpan [simp]: "plainBops (snd (snd (deleteSpan E n lo hi sb))) = plainBops (snd sb)"
  by (auto simp: deleteSpan_def plainBops_fold case_prod_unfold split: sum.splits prod.splits)

lemma freezeStateKey_not_intent: "freezeStateKey g \<noteq> IntentKey h k"
  by simp

text \<open>Commands other than the two-phase ones never touch an intent.\<close>

lemma plainBops_applyOp:
  assumes "o_Type x \<notin> {''tx_prepare'', ''tx_commit'', ''tx_abort''}"
  shows "plainBops (snd (snd (applyOp E n x (start s))))"
proof -
  have "plainBops (snd (snd (applyCopyIn E x (start s))))"
    by (auto simp: applyCopyIn_def Let_def plainBops_def split: if_splits)
  moreover have "plainBops (snd (snd (applySplitCleanup E n x (start s))))"
    by (auto simp: applySplitCleanup_def Let_def case_prod_beta split: if_splits)
  moreover have "plainBops (snd (snd (applyTxApply E n x (start s))))"
    by (auto simp: applyTxApply_def plainBops_fold split: option.splits)
  moreover have "plainBops (snd (snd (applyLock E n x (start s))))"
    by (simp add: applyLock_def Let_def split: option.splits)
  moreover have "plainBops (snd (snd (applyUnlock E n x (start s))))"
    by (simp add: applyUnlock_def Let_def split: option.splits)
  ultimately show ?thesis
    using assms
    by (auto simp: applyOp_def Let_def applyFreezeRange_def applySet_def applyDelete_def applyDeleteRange_def
        applyForceUnlock_def case_prod_beta)
qed

text \<open>Two-phase commands: what they do to the intents of the group.\<close>

lemma stageWrite_appends: "\<exists>b. snd (stageWrite E n w sb) = snd sb @ b \<and> plainBops b"
  by (auto simp: stageWrite_def putRecord_def deleteRecord_def archiveVersion_def Let_def
      split: prod.splits sum.splits option.splits)

lemma commitWrites_intents:
  "apply_batch (snd (snd (commitWrites E n ws acc))) m (IntentKey g k) = apply_batch (snd (snd acc)) m (IntentKey g k)"
proof (induction E n ws acc rule: commitWrites.induct)
  case (2 E n w ws seen sb)
  have "apply_batch (snd (stageWrite E n w sb)) m (IntentKey g k) = apply_batch (snd sb) m (IntentKey g k)"
    using stageWrite_appends [of E n w sb] by (auto simp: plainBops_intents)
  with 2 show ?case by simp
qed simp

lemma commitIntents_intents:
  assumes "\<forall>e \<in> set xs. \<exists>k. fst e = IntentKey g k"
  shows "apply_batch (snd (snd (commitIntents E n t xs acc))) m (IntentKey g k) =
    (if \<exists>v. (IntentKey g k, v) \<in> set xs \<and> ownIntent E t v then None else apply_batch (snd (snd acc)) m (IntentKey g k))"
  using assms
proof (induction xs arbitrary: acc)
  case Nil
  show ?case by simp
next
  case (Cons e xs)
  obtain y v where e: "e = (y, v)" by (cases e)
  obtain seen sb where acc: "acc = (seen, sb)" by (cases acc)
  have "apply_batch (snd (snd (commitWrites E n ws (seen, stageBop (BDelete y) sb)))) m (IntentKey g k) =
    (if y = IntentKey g k then None else apply_batch (snd sb) m (IntentKey g k))" for ws
    by (simp add: commitWrites_intents stageBop_def)
  moreover have "ownIntent E t v \<longleftrightarrow> (\<exists>i. unmarshalIntent E v = Some i \<and> in_TxID i = t)"
    by (auto simp: ownIntent_def split: option.splits)
  ultimately show ?case
    using Cons by (cases "unmarshalIntent E v") (auto simp: e acc)
qed

context kv_env
begin

lemma applyTxCommit_intents:
  "apply_batch (snd (snd (applyTxCommit E n x (start s)))) (view (sm_st s)) (IntentKey (sm_gid s) k) =
    (if smOwn E view s (o_TxID x) k \<noteq> None then None else smIntent view s k)"
proof -
  obtain xs where xs: "DB_NewIter E (sm_st s) (IntentPrefix (sm_gid s)) (PrefixUpperBound (IntentPrefix (sm_gid s))) = Inr xs"
      "set xs = {(IntentKey (sm_gid s) k, v) | k v. smIntent view s k = Some v}"
    by (rule intents_scan)
  have "\<forall>e \<in> set xs. \<exists>k. fst e = IntentKey (sm_gid s) k" using xs(2) by auto
  moreover have "(\<exists>v. (IntentKey (sm_gid s) k, v) \<in> set xs \<and> ownIntent E (o_TxID x) v) \<longleftrightarrow> smOwn E view s (o_TxID x) k \<noteq> None"
    using xs(2) by (auto simp: smOwn_def split: option.splits)
  moreover have "apply_batch (snd (bumpRev n (start s))) (view (sm_st s)) (IntentKey (sm_gid s) k) = smIntent view s k"
    by (simp add: bumpRev_def)
  ultimately show ?thesis
    using xs(1) commitIntents_intents [of xs "sm_gid s" E n "o_TxID x"] by (simp add: applyTxCommit_def Let_def)
qed

lemma apply_batch_map_delete:
  "apply_batch (map (\<lambda>(k, v). BDelete k) xs) m y = (if y \<in> fst ` set xs then None else m y)"
  by (induction xs arbitrary: m) auto

lemma applyTxAbort_intents:
  "apply_batch (snd (snd (applyTxAbort E x (start s)))) (view (sm_st s)) (IntentKey (sm_gid s) k) =
    (if smOwn E view s (o_TxID x) k \<noteq> None then None else smIntent view s k)"
proof -
  obtain xs where xs: "DB_NewIter E (sm_st s) (IntentPrefix (sm_gid s)) (PrefixUpperBound (IntentPrefix (sm_gid s))) = Inr xs"
      "set xs = {(IntentKey (sm_gid s) k, v) | k v. smIntent view s k = Some v}"
    by (rule intents_scan)
  have "IntentKey (sm_gid s) k \<in> fst ` set (filter (\<lambda>(k, v). ownIntent E (o_TxID x) v) xs) \<longleftrightarrow> smOwn E view s (o_TxID x) k \<noteq> None"
    using xs(2) by (force simp: smOwn_def split: option.splits)
  with xs(1) show ?thesis by (simp add: applyTxAbort_def apply_batch_map_delete)
qed

lemma applyTxPrepare_intents:
  "res_Err (fst (applyTxPrepare E x (start s))) = [] \<Longrightarrow>
   apply_batch (snd (snd (applyTxPrepare E x (start s)))) (view (sm_st s)) (IntentKey (sm_gid s) k) =
    (if k \<in> w_Key ` set (o_Writes x) then Some (marshalIntent E \<lparr>in_TxID = o_TxID x, in_Writes = o_Writes x\<rparr>)
     else smIntent view s k)"
proof -
  have "apply_batch (map (\<lambda>w. BSet (IntentKey g (w_Key w)) raw) ws) m (IntentKey g k) =
    (if k \<in> w_Key ` set ws then Some raw else m (IntentKey g k))" for ws :: "TxWrite list" and raw m g
    by (induction ws arbitrary: m) auto
  moreover have "res_Err r \<noteq> []" if "checkPrepareWrites E s t ws = Some r" for r t ws
    using that by (induction ws) (auto split: if_splits)
  moreover assume "res_Err (fst (applyTxPrepare E x (start s))) = []"
  ultimately show ?thesis by (auto simp: applyTxPrepare_def Let_def split: if_splits option.splits)
qed

lemma checkPrepareWrites_own:
  assumes "checkPrepareWrites E s u ws = None" "w \<in> set ws" "t \<noteq> u"
  shows "smOwn E view s t (w_Key w) = None"
  using assms by (induction ws) (auto simp: smOwn_def intentAt_view ownIntent_def split: if_splits option.splits)

lemma ownIntent_unique: "ownIntent E t raw \<Longrightarrow> ownIntent E u raw \<Longrightarrow> t = u"
  by (auto simp: ownIntent_def split: option.splits)

lemma own_kept_op:
  assumes ok: "sm_ok E view s" and utf: "op_utf8 x" and x: "foreignTo t x"
  shows "(case apply_batch (snd (snd (applyOp E n x (start s)))) (view (sm_st s)) (IntentKey (sm_gid s) k) of
      None \<Rightarrow> None | Some raw \<Rightarrow> if ownIntent E t raw then Some raw else None) = smOwn E view s t k"
proof -
  consider "o_Type x \<notin> {''tx_prepare'', ''tx_commit'', ''tx_abort''}" | "o_Type x = ''tx_prepare''" "o_TxID x \<noteq> t"
    | "o_Type x = ''tx_commit''" "o_TxID x \<noteq> t" | "o_Type x = ''tx_abort''" "o_TxID x \<noteq> t"
    using x unfolding foreignTo_def by blast
  then show ?thesis
  proof cases
    case 1
    then show ?thesis using plainBops_intents [OF plainBops_applyOp [OF 1, of E n s]] by (simp add: smOwn_def)
  next
    case 2
    note op = applyOp_simps(7) [OF 2(1), of E n "start s"]
    show ?thesis
    proof (cases "res_Err (fst (applyTxPrepare E x (start s))) = []")
      case False
      then have "snd (applyTxPrepare E x (start s)) = start s" using applyOp_err [OF ok, of n x] unfolding op by simp
      then show ?thesis unfolding op by (simp add: smOwn_def)
    next
      case True
      let ?i = "\<lparr>in_TxID = o_TxID x, in_Writes = o_Writes x\<rparr>"
      have "unmarshalIntent E (marshalIntent E ?i) = Some ?i"
        using utf by (intro intent_rt) (simp add: op_utf8_def intent_utf8_def)
      then have "\<not> ownIntent E t (marshalIntent E ?i)" using 2(2) by (simp add: ownIntent_def)
      moreover have "checkPrepareWrites E s (o_TxID x) (o_Writes x) = None"
      proof (rule ccontr)
        assume "checkPrepareWrites E s (o_TxID x) (o_Writes x) \<noteq> None"
        then obtain r where r: "checkPrepareWrites E s (o_TxID x) (o_Writes x) = Some r" by blast
        have "res_Err r \<noteq> []" if "checkPrepareWrites E s t ws = Some r" for r t ws
          using that by (induction ws) (auto split: if_splits)
        with r True show False by (auto simp: applyTxPrepare_def split: if_splits option.splits)
      qed
      ultimately show ?thesis
        using applyTxPrepare_intents [OF True, of k] checkPrepareWrites_own [of s "o_TxID x" "o_Writes x" _ t] 2(2)
        unfolding op by (auto simp: smOwn_def)
    qed
  next
    case 3
    then show ?thesis
      using applyTxCommit_intents [of n x s k] unfolding applyOp_simps(8) [OF 3(1), of E n "start s"]
      by (auto simp: smOwn_def ownIntent_unique split: option.splits if_splits dest: ownIntent_unique)
  next
    case 4
    then show ?thesis
      using applyTxAbort_intents [of x s k] unfolding applyOp_simps(9) [OF 4(1), of E n "start s"]
      by (auto simp: smOwn_def split: option.splits if_splits dest: ownIntent_unique)
  qed
qed

lemma own_kept_entry:
  assumes ok: "sm_ok E view s" and n: "sm_rev s < n" and fine: "entry_fine E data"
    and x: "\<And>x. entryOp E data = Some x \<Longrightarrow> foreignTo t x"
  obtains res s' where "applyEntry E n data s = Inr (res, s')" "sm_ok E view s'" "sm_rev s' = n \<or> sm_rev s' = sm_rev s"
    "smOwn E view s' t = smOwn E view s t"
proof (cases "entryOp E data")
  case None
  show ?thesis
  proof (cases "data = [] \<or> unmarshalCommand E data = None")
    case True
    with ok show ?thesis by (intro that [of None s]) (auto simp: applyEntry_def)
  next
    case False
    then obtain ident cmd where cmd: "data \<noteq> []" "unmarshalCommand E data = Some (ident, cmd)" by fastforce
    with None have "unmarshalOp E cmd = None" by (simp add: entryOp_def)
    then obtain db where db: "DB_Commit E (sm_st s) [BSet (RaftAppliedKey (sm_gid s)) (be64 n)] = Inr db"
      "view db = apply_batch [BSet (RaftAppliedKey (sm_gid s)) (be64 n)] (view (sm_st s))"
      using DB_Commit_cases [of "sm_st s" "[BSet (RaftAppliedKey (sm_gid s)) (be64 n)]"] by blast
    have ap: "applyEntry E n data s = Inr (Some (errResult ''BadCommand''), (countOp s)\<lparr>sm_st := db\<rparr>)"
      using cmd db(1) \<open>unmarshalOp E cmd = None\<close> by (simp add: applyEntry_def Apply_def)
    obtain s' where s': "applyEntry E n data s = Inr (Some (errResult ''BadCommand''), s')"
      "entryDone E view s n (\<lambda>_. None) s'" "sm_rev s' = sm_rev s"
      by (rule applyEntry_bad [OF ok n cmd \<open>unmarshalOp E cmd = None\<close>]) (rule that)
    with ap db(2) have "smOwn E view s' t = smOwn E view s t" by (auto simp: fun_eq_iff smOwn_def)
    with s' show ?thesis using entryDoneD(1) [OF s'(2)] by (intro that [OF s'(1)]) simp_all
  qed
next
  case (Some x)
  have utf: "op_utf8 x" by (rule entryOp_utf8 [OF Some])
  have "o_Type x \<noteq> ''copy_in''" "o_Type x = ''tx_apply'' \<longrightarrow> no_rewrite (o_Writes x)"
    using fine Some by (auto simp: entry_fine_def entryOp_def split: if_splits option.splits)
  from staged_any [OF ok utf this, of n] obtain A where "staged E view s n A (snd (applyOp E n x (start s)))" by blast
  then obtain s' where s': "applyEntry E n data s = Inr (Some (fst (applyOp E n x (start s))), s')" "entryDone E view s n A s'"
    "\<And>k. view (sm_st s') (IntentKey (sm_gid s) k) =
      apply_batch (snd (snd (applyOp E n x (start s)))) (view (sm_st s)) (IntentKey (sm_gid s) k)"
    by (rule entryOp_done [OF ok n Some]) (rule that)
  note d = entryDoneD [OF s'(2)]
  have "smOwn E view s' t = smOwn E view s t"
  proof
    fix k
    show "smOwn E view s' t k = smOwn E view s t k"
      using own_kept_op [OF ok utf assms(4) [OF Some], of n k] s'(3) [of k]
      by (simp add: smOwn_def [of E view s'] d(2))
  qed
  with s'(1) d show ?thesis by (intro that [OF s'(1)]) auto
qed

lemma own_kept_run:
  assumes "sm_ok E view s" "run_fine E (sm_rev s) es" "\<forall>e \<in> set es. \<forall>x. entryOp E (snd e) = Some x \<longrightarrow> foreignTo t x"
  shows "\<exists>s'. applyEntries E es s = Inr s' \<and> sm_ok E view s' \<and> (sm_rev s' = sm_rev s \<or> sm_rev s' \<in> fst ` set es) \<and>
    smOwn E view s' t = smOwn E view s t"
  using assms
proof (induction es arbitrary: s)
  case Nil
  then show ?case by simp
next
  case (Cons e es)
  obtain n data where e: "e = (n, data)" by (cases e)
  from Cons.prems(2) have fine: "sm_rev s < n" "entry_fine E data" "run_fine E n es" by (simp_all add: e run_fine_Cons)
  obtain res s1 where s1: "applyEntry E n data s = Inr (res, s1)" "sm_ok E view s1" "sm_rev s1 = n \<or> sm_rev s1 = sm_rev s"
    "smOwn E view s1 t = smOwn E view s t"
    by (rule own_kept_entry [OF Cons.prems(1) fine(1,2), of t]) (use Cons.prems(3) e in auto)
  have "run_fine E (sm_rev s1) es" using fine s1(3) by (auto simp: run_fine_def)
  from Cons.IH [OF s1(2) this] Cons.prems(3) obtain s' where s': "applyEntries E es s1 = Inr s'" "sm_ok E view s'"
    "sm_rev s' = sm_rev s1 \<or> sm_rev s' \<in> fst ` set es" "smOwn E view s' t = smOwn E view s1 t" by auto
  with s1 show ?case by (intro exI [of _ s']) (auto simp: e)
qed

end

section \<open>Two-phase commit\<close>

text \<open>The first write to a key in an intent wins.\<close>

definition firstWrite :: "TxWrite list \<Rightarrow> bytes \<Rightarrow> TxWrite option" where
  "firstWrite ws k = find (\<lambda>w. w_Key w = k) ws"

lemma map_of_firstWrite: "map_of (map (\<lambda>w. (w_Key w, writeVal w)) ws) k = map_option writeVal (firstWrite ws k)"
  by (induction ws) (auto simp: firstWrite_def)

lemma firstWrite_append: "firstWrite (xs @ ys) k = (case firstWrite xs k of Some w \<Rightarrow> Some w | None \<Rightarrow> firstWrite ys k)"
  unfolding firstWrite_def by (rule find_append)

lemma firstWrite_None: "firstWrite ws k = None \<longleftrightarrow> k \<notin> w_Key ` set ws"
  by (auto simp: firstWrite_def find_None_iff)

context kv_env
begin

text \<open>When all intents of a transaction carry the same writes, a scan finds those writes.\<close>

lemma firstWrite_txWrites:
  assumes "\<forall>e \<in> set xs. ownIntent E t (snd e) \<longrightarrow> unmarshalIntent E (snd e) = Some \<lparr>in_TxID = t, in_Writes = ws\<rparr>"
  shows "firstWrite (txWrites E t xs) k = (if \<exists>e \<in> set xs. ownIntent E t (snd e) then firstWrite ws k else None)"
  using assms
proof (induction xs)
  case Nil
  show ?case by (simp add: txWrites_def firstWrite_def)
next
  case (Cons e xs)
  obtain y v where e: "e = (y, v)" by (cases e)
  have tx: "txWrites E t (e # xs) = (if ownIntent E t v then ws else []) @ txWrites E t xs"
  proof (cases "ownIntent E t v")
    case True
    with Cons.prems have "unmarshalIntent E v = Some \<lparr>in_TxID = t, in_Writes = ws\<rparr>" by (simp add: e)
    with True show ?thesis by (simp add: txWrites_def e)
  qed (auto simp: txWrites_def e ownIntent_def split: option.splits)
  from Cons show ?case unfolding tx firstWrite_append by (cases "ownIntent E t v"; cases "firstWrite ws k") (auto simp: e firstWrite_def)
qed

lemma prepared_commit:
  assumes ok: "sm_ok E view s" and n: "sm_rev s < n" and x: "entryOp E data = Some x" "o_Type x = ''tx_commit''"
    and own: "\<And>k. smOwn E view s (o_TxID x) k = (if k \<in> w_Key ` set ws then Some raw else None)"
    and raw: "unmarshalIntent E raw = Some \<lparr>in_TxID = o_TxID x, in_Writes = ws\<rparr>"
  obtains s' where "applyEntry E n data s = Inr (Some (revResult n), s')" "sm_ok E view s'"
    "\<And>k. smLive E view s' k = afterWrite n (firstWrite ws k) (smLive E view s k)" "\<And>k. smOwn E view s' (o_TxID x) k = None"
proof -
  let ?t = "o_TxID x" and ?g = "sm_gid s"
  note op = applyOp_simps(8) [OF x(2), of E n "start s"]
  obtain xs where xs: "DB_NewIter E (sm_st s) (IntentPrefix ?g) (PrefixUpperBound (IntentPrefix ?g)) = Inr xs"
      "set xs = {(IntentKey ?g k, v) | k v. smIntent view s k = Some v}"
    by (rule intents_scan)
  note st = applyTxCommit_staged [OF ok xs, where n = n and x = x]
  have mine: "v = raw \<and> k \<in> w_Key ` set ws" if "smIntent view s k = Some v" "ownIntent E ?t v" for k v
    using own [of k] that by (auto simp: smOwn_def split: if_splits)
  have "\<forall>e \<in> set xs. ownIntent E ?t (snd e) \<longrightarrow> unmarshalIntent E (snd e) = Some \<lparr>in_TxID = ?t, in_Writes = ws\<rparr>"
    using xs(2) mine raw by auto
  note fw = firstWrite_txWrites [OF this]
  have "firstWrite (txWrites E ?t xs) k = firstWrite ws k" for k
  proof (cases "k \<in> w_Key ` set ws")
    case True
    with own [of k] have "smIntent view s k = Some raw \<and> ownIntent E ?t raw" by (auto simp: smOwn_def split: option.splits if_splits)
    then have "\<exists>e \<in> set xs. ownIntent E ?t (snd e)" using xs(2) by force
    then show ?thesis by (simp add: fw)
  next
    case False
    then have "firstWrite ws k = None" by (simp only: firstWrite_None not_False_eq_True)
    then show ?thesis by (simp add: fw)
  qed
  note A = map_of_firstWrite [of "txWrites E ?t xs", unfolded this]
  obtain s' where s': "applyEntry E n data s = Inr (Some (fst (applyOp E n x (start s))), s')"
    "entryDone E view s n (map_of (map (\<lambda>w. (w_Key w, writeVal w)) (txWrites E ?t xs))) s'"
    "\<And>k. view (sm_st s') (IntentKey ?g k) = apply_batch (snd (snd (applyOp E n x (start s)))) (view (sm_st s)) (IntentKey ?g k)"
    by (rule entryOp_done [OF ok n x(1), unfolded op, OF conjunct2 [OF st]]) (rule that [unfolded op])
  note d = entryDoneD [OF s'(2)]
  have "smOwn E view s' ?t k = None" for k
    using s'(3) [of k] applyTxCommit_intents [of n x s k] unfolding op
    by (auto simp: smOwn_def d(2) split: if_splits)
  moreover have "smLive E view s' k = afterWrite n (firstWrite ws k) (smLive E view s k)" for k
    unfolding d(3) by (rule overlay_writes) (rule A)
  ultimately show ?thesis using s'(1) d(1) st unfolding op by (intro that [of s']) simp_all
qed

end

text \<open>
  C2. Two-phase commit is atomic under interleaving. Let a fresh transaction's prepare succeed, then let
  any well-formed entries follow that are not two-phase commands of this transaction, and then its
  commit. Every entry applies; the commit answers its own revision \<open>n2\<close>, every key of the prepared write
  set reads as its prepared write at \<open>n2\<close>, every other key reads as just before the commit, and no intent
  of the transaction is left.
\<close>

theorem two_phase_commit:
  assumes "kv_env E view" "sm_ok E view s" "sm_rev s < n1"
    "entryOp E d1 = Some x1" "o_Type x1 = ''tx_prepare''" "applyEntry E n1 d1 s = Inr (Some res, s1)" "res_Err res = []"
    "\<forall>k. smOwn E view s (o_TxID x1) k = None"
    "run_fine E n1 (es @ [(n2, d2)])" "\<forall>e \<in> set es. \<forall>x. entryOp E (snd e) = Some x \<longrightarrow> foreignTo (o_TxID x1) x"
    "entryOp E d2 = Some x2" "o_Type x2 = ''tx_commit''" "o_TxID x2 = o_TxID x1"
  shows "\<exists>s2 s3. applyEntries E es s1 = Inr s2 \<and> applyEntry E n2 d2 s2 = Inr (Some (revResult n2), s3) \<and>
    (\<forall>k. smOwn E view s3 (o_TxID x1) k = None) \<and>
    (\<forall>k. \<exists>old. map_sum id fst (fst (GetLocal E s2 k)) = Inr old \<and>
      map_sum id fst (fst (GetLocal E s3 k)) = Inr (afterWrite n2 (firstWrite (o_Writes x1) k) old))"
proof -
  let ?t = "o_TxID x1" and ?i = "\<lparr>in_TxID = o_TxID x1, in_Writes = o_Writes x1\<rparr>"
  note op = applyOp_simps(7) [OF assms(5), of E n1 "start s"]
  obtain s1' where s1': "applyEntry E n1 d1 s = Inr (Some (fst (applyOp E n1 x1 (start s))), s1')"
    "entryDone E view s n1 (\<lambda>_. None) s1'"
    "\<And>k. view (sm_st s1') (IntentKey (sm_gid s) k) = apply_batch (snd (snd (applyOp E n1 x1 (start s)))) (view (sm_st s)) (IntentKey (sm_gid s) k)"
    by (rule kv_env.entryOp_done [OF assms(1-4), unfolded op, OF kv_env.applyTxPrepare_staged [OF assms(1,2)]]) (rule that [unfolded op])
  then have s1: "s1' = s1" "fst (applyTxPrepare E x1 (start s)) = res" using assms(6) unfolding op by simp_all
  note d = entryDoneD [OF s1'(2), unfolded s1]
  have raw: "unmarshalIntent E (marshalIntent E ?i) = Some ?i"
    using kv_env.entryOp_utf8 [OF assms(1,4)] by (intro kv_env.intent_rt [OF assms(1)]) (simp add: op_utf8_def intent_utf8_def)
  have own1: "smOwn E view s1 ?t k = (if k \<in> w_Key ` set (o_Writes x1) then Some (marshalIntent E ?i) else None)" for k
    using s1'(3) [of k] kv_env.applyTxPrepare_intents [OF assms(1), of x1 s k] assms(7,8) s1 raw unfolding op
    by (auto simp: smOwn_def d(2) ownIntent_def)
  have rev1: "sm_rev s1 \<le> n1" using d(4) assms(3) by auto
  have fine: "run_fine E (sm_rev s1) es" "n1 < n2" "\<forall>e \<in> set es. fst e < n2"
    using assms(9) rev1 by (auto simp: run_fine_def sorted_wrt_append)
  obtain s2 where s2: "applyEntries E es s1 = Inr s2" "sm_ok E view s2" "sm_rev s2 = sm_rev s1 \<or> sm_rev s2 \<in> fst ` set es"
    "smOwn E view s2 ?t = smOwn E view s1 ?t"
    using kv_env.own_kept_run [OF assms(1) d(1) fine(1) assms(10)] by blast
  have n2: "sm_rev s2 < n2" using s2(3) fine(2,3) rev1 by auto
  obtain s3 where s3: "applyEntry E n2 d2 s2 = Inr (Some (revResult n2), s3)" "sm_ok E view s3"
    "\<And>k. smLive E view s3 k = afterWrite n2 (firstWrite (o_Writes x1) k) (smLive E view s2 k)" "\<And>k. smOwn E view s3 ?t k = None"
    by (rule kv_env.prepared_commit [OF assms(1) s2(2) n2 assms(11,12), of "o_Writes x1" "marshalIntent E ?i"])
      (use own1 s2(4) raw assms(13) that in \<open>simp_all\<close>)
  then show ?thesis
    using s2 kv_env.GetLocal_live [OF assms(1) s2(2)] kv_env.GetLocal_live [OF assms(1) s3(2)] by auto
qed

theorem two_phase_commit_witness:
  "\<exists>s1 s2 s3. applyEntry txEnv 2 [3] tx1 = Inr (Some noResult, s1) \<and> applyEntries txEnv [(3, [6]), (4, [7])] s1 = Inr s2 \<and>
    applyEntry txEnv 5 [4] s2 = Inr (Some (revResult 5), s3) \<and>
    map_sum id fst (fst (GetLocal txEnv s3 (str ''b''))) = Inr (Some \<lparr>r_Rev = 5, r_Value = [30], r_Blob = False\<rparr>)"
proof -
  let ?x1 = "op0\<lparr>o_Type := ''tx_prepare'', o_TxID := str ''t'', o_Reads := [(str ''a'', 1)], o_Writes := txWs\<rparr>"
  let ?x2 = "op0\<lparr>o_Type := ''tx_commit'', o_TxID := str ''t''\<rparr>"
  have x1: "entryOp txEnv [3] = Some ?x1" and x2: "entryOp txEnv [4] = Some ?x2" by code_simp+
  have ty: "o_Type ?x1 = ''tx_prepare''" "o_Type ?x2 = ''tx_commit''" "o_TxID ?x2 = o_TxID ?x1" by (simp_all add: op0_def)
  have "map_sum id fst (applyEntry txEnv 2 [3] tx1) = Inr (Some noResult)" by code_simp
  then obtain s1 where s1: "applyEntry txEnv 2 [3] tx1 = Inr (Some noResult, s1)"
    by (cases "applyEntry txEnv 2 [3] tx1") auto
  have "filter (\<lambda>e. prefix (IntentPrefix (sm_gid tx1)) (fst e)) (sm_st tx1) = []" by code_simp
  then have "map_of (sm_st tx1) (IntentKey (sm_gid tx1) k) = None" for k
    by (force simp: filter_empty_conv map_of_eq_None_iff IntentKey_append)
  then have none: "\<forall>k. smOwn txEnv map_of tx1 (o_TxID ?x1) k = None" by (simp add: smOwn_def)
  have fine: "run_fine txEnv 2 ([(3, [6]), (4, [7])] @ [(5, [4])])" by (simp add: txEnv_def fine_simps)
  have "foreignTo (str ''t'') (setOp ''c'' [60])" "foreignTo (str ''t'') (op0\<lparr>o_Type := ''tx_prepare'', o_TxID := str ''u'', o_Writes := [putW ''b'' [70]]\<rparr>)"
    by (simp_all add: foreignTo_def op0_def)
  moreover have "entryOp txEnv [6] = Some (setOp ''c'' [60])"
    "entryOp txEnv [7] = Some (op0\<lparr>o_Type := ''tx_prepare'', o_TxID := str ''u'', o_Writes := [putW ''b'' [70]]\<rparr>)" by code_simp+
  ultimately have foreign: "\<forall>e \<in> set [(3 :: u64, [6 :: byte]), (4, [7])]. \<forall>x. entryOp txEnv (snd e) = Some x \<longrightarrow> foreignTo (o_TxID ?x1) x"
    by (simp add: op0_def)
  have "res_Err noResult = []" by (simp add: noResult_def)
  from two_phase_commit [OF tx_env tx1_ok _ x1 ty(1) s1 this none fine foreign x2 ty(2,3)]
  obtain s2 s3 where "applyEntries txEnv [(3, [6]), (4, [7])] s1 = Inr s2" "applyEntry txEnv 5 [4] s2 = Inr (Some (revResult 5), s3)"
    and reads: "\<forall>k. \<exists>old. map_sum id fst (fst (GetLocal txEnv s2 k)) = Inr old \<and>
      map_sum id fst (fst (GetLocal txEnv s3 k)) = Inr (afterWrite 5 (firstWrite (o_Writes ?x1) k) old)"
    by (auto simp: tx1_rev)
  have "afterWrite 5 (firstWrite (o_Writes ?x1) (str ''b'')) old = Some \<lparr>r_Rev = 5, r_Value = [30], r_Blob = False\<rparr>" for old
  proof -
    have "firstWrite (o_Writes ?x1) (str ''b'') = Some (putW ''b'' [30])" by code_simp
    then show ?thesis unfolding afterWrite_def by (simp add: putW_def)
  qed
  with reads have "map_sum id fst (fst (GetLocal txEnv s3 (str ''b''))) = Inr (Some \<lparr>r_Rev = 5, r_Value = [30], r_Blob = False\<rparr>)"
    by metis
  with s1 \<open>applyEntries txEnv [(3, [6]), (4, [7])] s1 = Inr s2\<close> \<open>applyEntry txEnv 5 [4] s2 = Inr (Some (revResult 5), s3)\<close>
  show ?thesis by blast
qed

section \<open>A key written twice\<close>

definition dupWs :: "TxWrite list" where
  "dupWs = [putW ''k'' [1], putW ''k'' [2]]"

definition dupEnv :: "refdb env" where
  "dupEnv = refEnv [([1], op0\<lparr>o_Type := ''tx_apply'', o_Writes := dupWs\<rparr>),
     ([2], op0\<lparr>o_Type := ''tx_prepare'', o_TxID := str ''t'', o_Writes := dupWs\<rparr>),
     ([3], op0\<lparr>o_Type := ''tx_commit'', o_TxID := str ''t''\<rparr>)] 100 10"

text \<open>
  The two commit paths disagree on a transaction that writes one key twice. The client appends every
  write to the transaction's list; on one shard \<^verbatim>\<open>tx_apply\<close> lets the last write win, while prepare and
  commit let the first one win, so what the transaction means depends on how its keys are sharded.
\<close>

theorem tx_duplicate_write:
  "map_sum id fst (fst (GetLocal dupEnv (projr (applyEntries dupEnv [(1, [1])] sm0)) (str ''k''))) =
     Inr (Some \<lparr>r_Rev = 1, r_Value = [2], r_Blob = False\<rparr>) \<and>
   map_sum id fst (fst (GetLocal dupEnv (projr (applyEntries dupEnv [(1, [2]), (2, [3])] sm0)) (str ''k''))) =
     Inr (Some \<lparr>r_Rev = 2, r_Value = [1], r_Blob = False\<rparr>)"
  by code_simp

section \<open>Delete and put in one transaction\<close>

definition rewriteEnv :: "refdb env" where
  "rewriteEnv = refEnv [([1], setOp ''k'' [1]),
     ([2], op0\<lparr>o_Type := ''tx_apply'', o_Writes := [(putW ''k'' [])\<lparr>w_Delete := True\<rparr>, putW ''k'' [2]]\<rparr>),
     ([3], setOp ''other'' [3]), ([4], setOp ''k'' [4])] 2 4"


section \<open>Bulk import\<close>

definition copyEnv :: "refdb env" where
  "copyEnv = refEnv [([1], op0\<lparr>o_Type := ''copy_in'', o_Pairs := [(str ''k'', \<lparr>r_Rev = 1000, r_Value = [1], r_Blob = False\<rparr>)]\<rparr>),
     ([2], setOp ''k'' [2])] 100 10"

text \<open>
  Revisions go backwards after a bulk import. The import raises the revision counter to the largest
  imported revision, but the next write sets it to its own log index: after importing a record at
  revision 1000 into a fresh group, the write at index 2 gets revision 2, and a read pinned at the
  revision 1000 that the group had answered before the write returns the later value.
\<close>

theorem copyIn_revision_regresses:
  "fst (GetLocal copyEnv (projr (applyEntries copyEnv [(1, [1])] sm0)) (str ''k'')) =
     Inr (Some \<lparr>r_Rev = 1000, r_Value = [1], r_Blob = False\<rparr>, 1000) \<and>
   fst (GetLocal copyEnv (projr (applyEntries copyEnv [(1, [1]), (2, [2])] sm0)) (str ''k'')) =
     Inr (Some \<lparr>r_Rev = 2, r_Value = [2], r_Blob = False\<rparr>, 2) \<and>
   fst (GetAtLocal copyEnv (projr (applyEntries copyEnv [(1, [1]), (2, [2])] sm0)) (str ''k'') 1000) =
     Inr (Some \<lparr>r_Rev = 2, r_Value = [2], r_Blob = False\<rparr>)"
  by code_simp

end
