(* ===== verification/KV_Lock.thy ===== *)
theory KV_Lock
  imports KV_Writes
begin

text \<open>
  Locks. A lock is a record under \<^verbatim>\<open>locks/\<close> whose value lists its holders with their expiry and the
  fencing token of the last acquisition. The acquire rules are shown to exclude: an incompatible live
  holder always makes an acquire fail, and an exclusive acquire leaves its holder alone. Two defects of
  the release paths are recorded with proofs.
\<close>

section \<open>Who holds a lock\<close>

definition expired :: "i64 \<Rightarrow> i64 \<Rightarrow> bool" where
  "expired now e \<longleftrightarrow> sint e > 0 \<and> sint e < sint now"

lemma pruneExpired_holders:
  "l_Holders (pruneExpired now l) = filter (\<lambda>h. \<not> expired now (snd h)) (l_Holders l)"
  by (simp add: pruneExpired_def expired_def case_prod_unfold)

lemma pruneExpired_fields [simp]: "l_Mode (pruneExpired now l) = l_Mode l" "l_Fencing (pruneExpired now l) = l_Fencing l"
  by (simp_all add: pruneExpired_def)

text \<open>The mode switch refuses when somebody else is there and not both sides share.\<close>

lemma lockMode_refused:
  assumes "(h, e) \<in> set (l_Holders l)" "h \<noteq> o_Holder x" "\<not> (l_Mode l = str ''shared'' \<and> o_Mode x = str ''shared'')"
  shows "lockMode l x = None"
proof -
  have "length (l_Holders l) \<noteq> 0" using assms(1) by auto
  moreover have "holderExpiry l (o_Holder x) = 0" if "length (l_Holders l) = 1"
  proof -
    from that assms(1) have "l_Holders l = [(h, e)]" by (cases "l_Holders l") auto
    with assms(2) show ?thesis by (simp add: holderExpiry_def)
  qed
  ultimately show ?thesis using assms(3) by (auto simp: lockMode_def)
qed

text \<open>A granted lock has the requested mode, and unless it is shared nobody else is in it.\<close>

lemma lockMode_granted:
  assumes "lockMode l x = Some mode"
  shows "mode = o_Mode x"
    and "o_Mode x \<noteq> str ''shared'' \<Longrightarrow> fst ` set (l_Holders l) \<subseteq> {o_Holder x}"
proof -
  show "mode = o_Mode x" using assms by (auto simp: lockMode_def split: if_splits)
  assume "o_Mode x \<noteq> str ''shared''"
  with assms consider "l_Holders l = []" | h e where "l_Holders l = [(h, e)]" "holderExpiry l (o_Holder x) \<noteq> 0"
    by (auto simp: lockMode_def length_Suc_conv split: if_splits)
  then show "fst ` set (l_Holders l) \<subseteq> {o_Holder x}"
    by cases (auto simp: holderExpiry_def split: if_splits)
qed

lemma lock_utf8_names: "lock_utf8 l \<longleftrightarrow> valid_utf8 (l_Mode l) \<and> (\<forall>h \<in> fst ` set (l_Holders l). valid_utf8 h)"
  by (simp add: lock_utf8_def)

section \<open>Acquiring\<close>

context kv_env
begin

lemma lockBefore_wf:
  assumes "op_utf8 x"
  shows "lock_utf8 (lockGrant mode x (lockBefore E s x)) \<longleftrightarrow> valid_utf8 mode"
    and "distinct (map fst (l_Holders (lockGrant mode x (lockBefore E s x))))"
proof -
  have wf: "lock_utf8 (case readLock E s (o_Resource x) of Some l \<Rightarrow> l | None \<Rightarrow> zeroLock)"
    "distinct (map fst (l_Holders (case readLock E s (o_Resource x) of Some l \<Rightarrow> l | None \<Rightarrow> zeroLock)))"
    using lock_decoded by (auto simp: readLock_def zeroLock_def lock_utf8_def split: option.splits sum.splits)
  have sub: "set (l_Holders (lockBefore E s x)) \<subseteq> set (l_Holders (case readLock E s (o_Resource x) of Some l \<Rightarrow> l | None \<Rightarrow> zeroLock))"
    by (auto simp: lockBefore_def pruneExpired_holders)
  have "valid_utf8 (o_Holder x)" using assms by (simp add: op_utf8_def)
  then show "lock_utf8 (lockGrant mode x (lockBefore E s x)) \<longleftrightarrow> valid_utf8 mode"
    using wf(1) sub unfolding lock_utf8_names lockGrant_def by (auto simp: dom_update)
  show "distinct (map fst (l_Holders (lockGrant mode x (lockBefore E s x))))"
    using wf(2) by (simp add: lockGrant_def distinct_update lockBefore_def pruneExpired_holders distinct_map_filter)
qed

lemma lock_read_back:
  assumes "sm_ok E view s'" "smLive E view s' (lockKey x) = Some r" "r_Value r = marshalLock E l"
    "lock_utf8 l" "distinct (map fst (l_Holders l))"
  obtains l' where "readLock E s' (o_Resource x) = Some l'" "l_Mode l' = l_Mode l" "l_Fencing l' = l_Fencing l"
    "distinct (map fst (l_Holders l'))" "map_of (l_Holders l') = map_of (l_Holders l)"
proof -
  obtain l' where "unmarshalLock E (marshalLock E l) = Some l'" "l_Mode l' = l_Mode l" "l_Fencing l' = l_Fencing l"
    "distinct (map fst (l_Holders l'))" "map_of (l_Holders l') = map_of (l_Holders l)"
    using lock_rt [OF assms(4,5)] by blast
  moreover have "readRecord E s' (lockKey x) = Inr (Some r)"
    using readRecord_live [of s' "lockKey x"] assms(1,2) by (simp add: sm_ok_def)
  ultimately show ?thesis using assms(3) by (intro that [of l']) (simp_all add: readLock_def)
qed

lemma lock_entry_granted:
  assumes ok: "sm_ok E view s" and n: "sm_rev s < n" and x: "entryOp E data = Some x" "o_Type x = ''lock''"
    and mode: "lockMode (lockBefore E s x) x = Some mode"
  obtains s' l' where "applyEntry E n data s = Inr (Some ((revResult n)\<lparr>res_Fencing := l_Fencing (lockBefore E s x) + 1\<rparr>), s')"
    "sm_ok E view s'" "sm_rev s' = n" "readLock E s' (o_Resource x) = Some l'" "l_Mode l' = o_Mode x"
    "l_Fencing l' = l_Fencing (lockBefore E s x) + 1" "distinct (map fst (l_Holders l'))"
    "map_of (l_Holders l') = (map_of (l_Holders (lockBefore E s x)))(o_Holder x \<mapsto>
       (if sint (o_TTLms x) > 0 then o_NowMs x + o_TTLms x else 0))"
proof -
  let ?l = "lockGrant mode x (lockBefore E s x)"
  note op = applyOp_simps(10) [OF x(2), of E n "start s"]
  note md = lockMode_granted(1) [OF mode]
  have utf: "op_utf8 x" by (rule entryOp_utf8 [OF x(1)])
  obtain s' where s': "applyEntry E n data s = Inr (Some (fst (applyOp E n x (start s))), s')"
    "entryDone E view s n [lockKey x \<mapsto> Some (marshalLock E ?l, False)] s'" "sm_rev s' = sm_rev (fst (snd (applyOp E n x (start s))))"
    by (rule entryOp_done [OF ok n x(1), unfolded op, OF applyLock_staged [OF ok mode]]) (rule that [unfolded op])
  note d = entryDoneD [OF s'(2)]
  have "smLive E view s' (lockKey x) = Some \<lparr>r_Rev = n, r_Value = marshalLock E ?l, r_Blob = False\<rparr>" unfolding d(3) by simp
  moreover have "lock_utf8 ?l" using lockBefore_wf(1) [OF utf] utf md by (simp add: op_utf8_def)
  ultimately obtain l' where l': "readLock E s' (o_Resource x) = Some l'" "l_Mode l' = l_Mode ?l" "l_Fencing l' = l_Fencing ?l"
    "distinct (map fst (l_Holders l'))" "map_of (l_Holders l') = map_of (l_Holders ?l)"
    using lock_read_back [OF d(1) _ _ _ lockBefore_wf(2) [OF utf]] by (metis Record.select_convs(2))
  show ?thesis
    by (rule that [of s' l']) (use s' l' d(1) md applyLock_granted [OF mode, of n] op in
      \<open>simp_all add: lockGrant_def update_conv'\<close>)
qed

end

text \<open>
  C4. Mutual exclusion. If a lock is held by somebody else whose holding has not expired at the time of the
  request, and not both the lock and the request are shared, then an acquire is answered with
  \<^verbatim>\<open>LockHeld\<close>, and the lock and every other key stay as they are.
\<close>

theorem lock_excludes:
  assumes "kv_env E view" "sm_ok E view s" "sm_rev s < n" "entryOp E data = Some x" "o_Type x = ''lock''"
    "readLock E s (o_Resource x) = Some l" "(h, e) \<in> set (l_Holders l)" "h \<noteq> o_Holder x" "\<not> expired (o_NowMs x) e"
    "\<not> (l_Mode l = str ''shared'' \<and> o_Mode x = str ''shared'')"
  shows "\<exists>s'. applyEntry E n data s = Inr (Some (errResult ErrLockHeld), s') \<and>
    (\<forall>k. fst (GetLocal E s' k) = fst (GetLocal E s k)) \<and> readLock E s' (o_Resource x) = Some l"
proof -
  note op = applyOp_simps(10) [OF assms(5), of E n "start s"]
  have "(h, e) \<in> set (l_Holders (lockBefore E s x))" "l_Mode (lockBefore E s x) = l_Mode l"
    using assms(6,7,9) by (simp_all add: lockBefore_def pruneExpired_holders)
  then have "lockMode (lockBefore E s x) x = None" using assms(8,10) by (intro lockMode_refused) simp_all
  then have held: "applyLock E n x (start s) = (errResult ErrLockHeld, start s)"
    by (rule kv_env.applyLock_held [OF assms(1)])
  then have "staged E view s n (\<lambda>_. None) (snd (applyOp E n x (start s)))"
    using kv_env.staged_begin [OF assms(1,2)] unfolding op by simp
  then obtain s' where s': "applyEntry E n data s = Inr (Some (fst (applyOp E n x (start s))), s')"
    "entryDone E view s n (\<lambda>_. None) s'" "sm_rev s' = sm_rev (fst (snd (applyOp E n x (start s))))"
    by (rule kv_env.entryOp_done [OF assms(1-4)]) (rule that)
  note d = entryDoneD [OF s'(2)]
  have live: "smLive E view s' = smLive E view s" unfolding d(3) by simp
  have "readRecord E s' k = readRecord E s k" for k
    using kv_env.readRecord_live [OF assms(1), of s' k] kv_env.readRecord_live [OF assms(1), of s k] d(1) assms(2) live
    by (simp add: sm_ok_def)
  then have "readLock E s' (o_Resource x) = Some l" using assms(6) by (simp add: readLock_def)
  moreover have "fst (GetLocal E s' k) = fst (GetLocal E s k)" for k
    using kv_env.GetLocal_live [OF assms(1) d(1), of k] kv_env.GetLocal_live [OF assms(1,2), of k] s'(3) held live
    unfolding op by simp
  ultimately show ?thesis using s'(1) held unfolding op by simp
qed

section \<open>A log with locks\<close>

text \<open>
  Commands \<open>[1]\<close> and \<open>[2]\<close> are exclusive acquires of the same resource by \<^verbatim>\<open>p\<close> and \<^verbatim>\<open>q\<close> with
  a time to live of a minute, \<open>[3]\<close> releases it for \<^verbatim>\<open>p\<close>, \<open>[4]\<close> forces the release, \<open>[5]\<close> is an acquire by
  \<^verbatim>\<open>p\<close> without a time to live.
\<close>

abbreviation lockOp :: "string \<Rightarrow> string \<Rightarrow> i64 \<Rightarrow> i64 \<Rightarrow> Op" where
  "lockOp ty h ttl now \<equiv> op0\<lparr>o_Type := ty, o_Resource := str ''job'', o_Holder := str h, o_Mode := str ''exclusive'',
     o_TTLms := ttl, o_NowMs := now\<rparr>"

definition lockEnv :: "refdb env" where
  "lockEnv = refEnv [([1], lockOp ''lock'' ''p'' 60000 1000), ([2], lockOp ''lock'' ''q'' 60000 2000),
     ([3], lockOp ''unlock'' ''p'' 0 0), ([4], lockOp ''force_unlock'' [] 0 0), ([5], lockOp ''lock'' ''p'' 0 1000)] 100 10"

definition lock1 :: "refdb SM" where
  "lock1 = projr (applyEntries lockEnv [(1, [1])] sm0)"

lemma lock_env: "kv_env lockEnv map_of"
  unfolding lockEnv_def by (rule ref.kv_env_axioms)

lemma lock1_ok: "sm_ok lockEnv map_of lock1"
  unfolding lock1_def lockEnv_def by (rule ref_run_ok) (simp add: fine_simps)

lemma lock1_rev: "sm_rev lock1 = 1"
  by code_simp

theorem lock_excludes_witness:
  "\<exists>s'. applyEntry lockEnv 2 [2] lock1 = Inr (Some (errResult ErrLockHeld), s') \<and>
    (\<forall>k. fst (GetLocal lockEnv s' k) = fst (GetLocal lockEnv lock1 k))"
proof -
  let ?x = "lockOp ''lock'' ''q'' 60000 2000"
  let ?l = "\<lparr>l_Mode = str ''exclusive'', l_Holders = [(str ''p'', 61000)], l_Fencing = 1\<rparr>"
  have x: "entryOp lockEnv [2] = Some ?x" by code_simp
  have l: "readLock lockEnv lock1 (o_Resource ?x) = Some ?l" by code_simp
  have "str ''p'' \<noteq> o_Holder ?x" "\<not> expired (o_NowMs ?x) 61000" "l_Mode ?l \<noteq> str ''shared''" by code_simp+
  then show ?thesis
    using lock_excludes [OF lock_env lock1_ok _ x _ l, of 2 "str ''p''" 61000] by (auto simp: lock1_rev op0_def)
qed

section \<open>Fencing\<close>

text \<open>
  What an acquire establishes. When the acquire rules grant a lock, the answer carries the next fencing
  token, one above the token of the lock record before it, and the lock read back has this token, the
  requested mode and the requester among its holders; when the mode is not shared, the requester is the
  only holder.
\<close>

theorem lock_granted:
  assumes "kv_env E view" "sm_ok E view s" "sm_rev s < n" "entryOp E data = Some x" "o_Type x = ''lock''"
    "lockMode (lockBefore E s x) x \<noteq> None"
  shows "\<exists>s' l'. applyEntry E n data s = Inr (Some ((revResult n)\<lparr>res_Fencing := l_Fencing l'\<rparr>), s') \<and>
    readLock E s' (o_Resource x) = Some l' \<and> l_Mode l' = o_Mode x \<and>
    l_Fencing l' = (case readLock E s (o_Resource x) of Some l \<Rightarrow> l_Fencing l + 1 | None \<Rightarrow> 1) \<and>
    map_of (l_Holders l') (o_Holder x) = Some (if sint (o_TTLms x) > 0 then o_NowMs x + o_TTLms x else 0) \<and>
    (o_Mode x \<noteq> str ''shared'' \<longrightarrow> (\<forall>h. h \<noteq> o_Holder x \<longrightarrow> map_of (l_Holders l') h = None))"
proof -
  obtain mode where mode: "lockMode (lockBefore E s x) x = Some mode" using assms(6) by blast
  obtain s' l' where s': "applyEntry E n data s = Inr (Some ((revResult n)\<lparr>res_Fencing := l_Fencing (lockBefore E s x) + 1\<rparr>), s')"
    "readLock E s' (o_Resource x) = Some l'" "l_Mode l' = o_Mode x"
    "l_Fencing l' = l_Fencing (lockBefore E s x) + 1"
    "map_of (l_Holders l') = (map_of (l_Holders (lockBefore E s x)))(o_Holder x \<mapsto>
       (if sint (o_TTLms x) > 0 then o_NowMs x + o_TTLms x else 0))"
    by (rule kv_env.lock_entry_granted [OF assms(1-5) mode])
  have "l_Fencing (lockBefore E s x) + 1 = (case readLock E s (o_Resource x) of Some l \<Rightarrow> l_Fencing l + 1 | None \<Rightarrow> 1)"
    by (simp add: lockBefore_def zeroLock_def split: option.splits)
  moreover have "map_of (l_Holders (lockBefore E s x)) h = None" if "o_Mode x \<noteq> str ''shared''" "h \<noteq> o_Holder x" for h
    using lockMode_granted(2) [OF mode that(1)] that(2) by (auto simp: map_of_eq_None_iff)
  ultimately show ?thesis using s' by (intro exI [of _ s'] exI [of _ l']) simp
qed

theorem lock_granted_witness:
  "\<exists>s' (l' :: lockState). applyEntry lockEnv 2 [1] lock1 = Inr (Some ((revResult 2)\<lparr>res_Fencing := l_Fencing l'\<rparr>), s') \<and> l_Fencing l' = 2"
proof -
  let ?x = "lockOp ''lock'' ''p'' 60000 1000"
  have x: "entryOp lockEnv [1] = Some ?x" by code_simp
  have mode: "lockMode (lockBefore lockEnv lock1 ?x) ?x \<noteq> None" by code_simp
  have n: "sm_rev lock1 < 2" and t: "o_Type ?x = ''lock''" by (simp_all add: lock1_rev op0_def)
  have l: "readLock lockEnv lock1 (o_Resource ?x) = Some \<lparr>l_Mode = str ''exclusive'', l_Holders = [(str ''p'', 61000)], l_Fencing = 1\<rparr>"
    by code_simp
  from lock_granted [OF lock_env lock1_ok n x t mode] obtain s' and l' :: lockState where
    "applyEntry lockEnv 2 [1] lock1 = Inr (Some ((revResult 2)\<lparr>res_Fencing := l_Fencing l'\<rparr>), s')"
    "l_Fencing l' = (case readLock lockEnv lock1 (o_Resource ?x) of Some l \<Rightarrow> l_Fencing l + 1 | None \<Rightarrow> 1)" by blast
  then show ?thesis unfolding l by (intro exI [of _ s'] exI [of _ l']) simp
qed

text \<open>
  A lock acquired without a time to live cannot be released by its holder: the release right after the
  acquire is answered with \<^verbatim>\<open>NotHolder\<close>, because an expiry of 0 is what a missing holder reads as.
\<close>

theorem unlock_without_ttl:
  assumes "kv_env E view" "sm_ok E view s" "sm_rev s < n" "entryOp E data = Some x" "o_Type x = ''lock''"
    "lockMode (lockBefore E s x) x \<noteq> None" "sint (o_TTLms x) \<le> 0"
    "n < n'" "entryOp E data' = Some y" "o_Type y = ''unlock''" "o_Resource y = o_Resource x" "o_Holder y = o_Holder x"
  shows "\<exists>res s1 s2. applyEntry E n data s = Inr (Some res, s1) \<and> res_Err res = [] \<and>
    applyEntry E n' data' s1 = Inr (Some (errResult ErrNotHolder), s2)"
proof -
  obtain mode where mode: "lockMode (lockBefore E s x) x = Some mode" using assms(6) by blast
  obtain s1 l' where s1: "applyEntry E n data s = Inr (Some ((revResult n)\<lparr>res_Fencing := l_Fencing (lockBefore E s x) + 1\<rparr>), s1)"
    "sm_ok E view s1" "sm_rev s1 = n" "readLock E s1 (o_Resource x) = Some l'"
    "map_of (l_Holders l') = (map_of (l_Holders (lockBefore E s x)))(o_Holder x \<mapsto>
       (if sint (o_TTLms x) > 0 then o_NowMs x + o_TTLms x else 0))"
    by (rule kv_env.lock_entry_granted [OF assms(1-5) mode])
  note op = applyOp_simps(11) [OF assms(10), of E n' "start s1"]
  have rej: "applyUnlock E n' y (start s1) = (errResult ErrNotHolder, start s1)"
    using s1(4,5) assms(7,11,12) by (intro kv_env.applyUnlock_rejected [OF assms(1)]) (simp add: holderExpiry_def)
  then have st: "staged E view s1 n' (\<lambda>_. None) (snd (applyOp E n' y (start s1)))"
    using kv_env.staged_begin [OF assms(1) s1(2)] unfolding op by simp
  have "sm_rev s1 < n'" using s1(3) assms(8) by simp
  then obtain s2 where "applyEntry E n' data' s1 = Inr (Some (fst (applyOp E n' y (start s1))), s2)"
    by (rule kv_env.entryOp_done [OF assms(1) s1(2) _ assms(9) st])
  with s1(1) rej show ?thesis unfolding op by (auto simp: noResult_def)
qed

theorem unlock_without_ttl_witness:
  "\<exists>res s1 s2. applyEntry lockEnv 1 [5] sm0 = Inr (Some res, s1) \<and> res_Err res = [] \<and>
    applyEntry lockEnv 2 [3] s1 = Inr (Some (errResult ErrNotHolder), s2)"
proof -
  let ?x = "lockOp ''lock'' ''p'' 0 1000" and ?y = "lockOp ''unlock'' ''p'' 0 0"
  have x: "entryOp lockEnv [5] = Some ?x" and y: "entryOp lockEnv [3] = Some ?y" by code_simp+
  have "sm_ok lockEnv map_of sm0" unfolding lockEnv_def by (rule sm0_ok)
  moreover have "lockMode (lockBefore lockEnv sm0 ?x) ?x \<noteq> None" "sm_rev sm0 < 1" by code_simp+
  ultimately show ?thesis
    using unlock_without_ttl [OF lock_env _ _ x _ _ _ _ y, of sm0 1 2] by (auto simp: op0_def)
qed

text \<open>
  Fencing tokens restart after a forced release. The token lives in the lock record, which a release
  deletes: after \<^verbatim>\<open>p\<close> acquired twice (tokens 1 and 2) and the lock was forced open, \<^verbatim>\<open>q\<close> gets token
  1, below the token the evicted holder still presents.
\<close>

theorem fencing_restarts:
  "map_sum id (map_option res_Fencing \<circ> fst) (applyEntry lockEnv 2 [1] lock1) = Inr (Some 2) \<and>
   map_sum id (map_option res_Fencing \<circ> fst)
     (applyEntry lockEnv 4 [2] (projr (applyEntries lockEnv [(2, [1]), (3, [4])] lock1))) = Inr (Some 1)"
  by code_simp

end
