(* ===== verification/KV_List.thy ===== *)
theory KV_List
  imports KV_Writes
begin

text \<open>
  Listings. A range or prefix scan answers a page: the first entries of the sorted list of everything in
  the range. The range scan is exact for every cursor; the prefix scan is exact for cursors at or above
  the prefix, and escapes the prefix for smaller ones.
\<close>

section \<open>Pages\<close>

text \<open>The sorted contents of a store restricted to the keys that satisfy \<open>P\<close>.\<close>

definition listing :: "(bytes \<rightharpoonup> Record) \<Rightarrow> (bytes \<Rightarrow> bool) \<Rightarrow> ListEntry list \<Rightarrow> bool" where
  "listing l P es \<longleftrightarrow> sorted_wrt (<) (map le_Key es) \<and>
     set es = {\<lparr>le_Key = k, le_Record = r\<rparr> | k r. l k = Some r \<and> P k}"

text \<open>There is at most one such list.\<close>

lemma listing_unique:
  assumes "listing l P xs" "listing l P ys"
  shows "xs = ys"
proof -
  let ?f = "\<lambda>e :: ListEntry. (le_Key e, le_Record e)"
  have "map ?f xs = map ?f ys"
    using assms by (intro sorted_keys_unique) (auto simp: listing_def o_def)
  moreover have "inj ?f" by (rule injI) (auto intro: ListEntry.equality)
  ultimately show ?thesis by (simp add: inj_map_eq_map)
qed

lemma scanLoop_take:
  assumes "\<forall>e \<in> set xs. unmarshalRecord E (snd e) \<noteq> None"
  shows "scanLoop E n limit xs out = Inr (out @ take (limit - length out)
    (map (\<lambda>e. \<lparr>le_Key = drop n (fst e), le_Record = the (unmarshalRecord E (snd e))\<rparr>) xs))"
  using assms
proof (induction E n limit xs out rule: scanLoop.induct)
  case (2 E n limit k v rest out)
  then obtain r where r: "unmarshalRecord E v = Some r" by auto
  show ?case
  proof (cases "length out < limit")
    case True
    with 2 r have "scanLoop E n limit ((k, v) # rest) out = Inr ((out @ [\<lparr>le_Key = drop n k, le_Record = r\<rparr>]) @ take (limit - Suc (length out))
      (map (\<lambda>e. \<lparr>le_Key = drop n (fst e), le_Record = the (unmarshalRecord E (snd e))\<rparr>) rest))" by simp
    moreover have "limit - length out = Suc (limit - Suc (length out))" using True by simp
    ultimately show ?thesis using r by simp
  qed simp
qed simp

context kv_env
begin

lemma scanLatest_page:
  assumes ok: "sm_ok E view s" and bd: "\<And>x. in_bounds lower upper x \<longleftrightarrow> (\<exists>k. x = SMKey (sm_gid s) k \<and> P k)"
  obtains es where "scanLatest E s (sm_st s) lower upper limit = Inr (take (clampLimit limit) es)" "listing (smLive E view s) P es"
proof -
  let ?g = "sm_gid s" and ?m = "view (sm_st s)"
  let ?f = "\<lambda>e. \<lparr>le_Key = drop (length (SMPrefix ?g)) (fst e), le_Record = the (unmarshalRecord E (snd e))\<rparr>"
  obtain xs where xs: "DB_NewIter E (sm_st s) lower upper = Inr xs" "sorted_keys xs"
    "set xs = {(x, v). ?m x = Some v \<and> in_bounds lower upper x}"
    by (rule DB_NewIter_cases)
  have ns: "ns_ok E ?g ?m" using ok by (simp add: sm_ok_def)
  have elem: "e \<in> set xs \<longleftrightarrow> (\<exists>k r. fst e = SMKey ?g k \<and> P k \<and> ?m (SMKey ?g k) = Some (snd e) \<and>
      unmarshalRecord E (snd e) = Some r \<and> smLive E view s k = Some r)" for e
  proof
    assume "e \<in> set xs"
    then have m: "?m (fst e) = Some (snd e)" "in_bounds lower upper (fst e)" using xs(3) by auto
    with bd obtain k where k: "fst e = SMKey ?g k" "P k" by blast
    with ns_ok_live [OF ns, of k "snd e"] m(1) show "\<exists>k r. fst e = SMKey ?g k \<and> P k \<and> ?m (SMKey ?g k) = Some (snd e) \<and>
      unmarshalRecord E (snd e) = Some r \<and> smLive E view s k = Some r" by auto
  next
    assume "\<exists>k r. fst e = SMKey ?g k \<and> P k \<and> ?m (SMKey ?g k) = Some (snd e) \<and>
      unmarshalRecord E (snd e) = Some r \<and> smLive E view s k = Some r"
    then show "e \<in> set xs" using xs(3) bd by (cases e) auto
  qed
  have "sorted_wrt (<) (map le_Key (map ?f xs))"
  proof -
    have "sorted_wrt (\<lambda>a b. fst a < fst b) xs" using xs(2) by (simp add: sorted_wrt_map)
    then have "sorted_wrt (\<lambda>a b. le_Key (?f a) < le_Key (?f b)) xs"
    proof (rule sorted_wrt_mono_rel [rotated])
      fix a b assume "a \<in> set xs" "b \<in> set xs" "fst a < fst b"
      with elem [of a] elem [of b] show "le_Key (?f a) < le_Key (?f b)" by auto
    qed
    then show ?thesis by (simp add: sorted_wrt_map)
  qed
  moreover have "set (map ?f xs) = {\<lparr>le_Key = k, le_Record = r\<rparr> | k r. smLive E view s k = Some r \<and> P k}"
  proof (intro set_eqI iffI)
    fix y assume "y \<in> set (map ?f xs)"
    then obtain e where "e \<in> set xs" "y = ?f e" by auto
    with elem [of e] show "y \<in> {\<lparr>le_Key = k, le_Record = r\<rparr> | k r. smLive E view s k = Some r \<and> P k}" by auto
  next
    fix y assume "y \<in> {\<lparr>le_Key = k, le_Record = r\<rparr> | k r. smLive E view s k = Some r \<and> P k}"
    then obtain k r where y: "y = \<lparr>le_Key = k, le_Record = r\<rparr>" "smLive E view s k = Some r" "P k" by blast
    then obtain raw where "?m (SMKey ?g k) = Some raw" "unmarshalRecord E raw = Some r" by (auto simp: live_def bind_eq_Some_conv)
    then have "(SMKey ?g k, raw) \<in> set xs" "y = ?f (SMKey ?g k, raw)" using y by (simp_all add: elem)
    then show "y \<in> set (map ?f xs)" unfolding set_map by (rule rev_image_eqI)
  qed
  ultimately have "listing (smLive E view s) P (map ?f xs)" by (simp add: listing_def)
  moreover have "scanLatest E s (sm_st s) lower upper limit = Inr (take (clampLimit limit) (map ?f xs))"
  proof -
    have "\<forall>e \<in> set xs. unmarshalRecord E (snd e) \<noteq> None" using elem by blast
    from scanLoop_take [OF this] show ?thesis by (simp add: scanLatest_def xs(1))
  qed
  ultimately show ?thesis by (intro that)
qed

lemma in_bounds_after:
  "in_bounds (SMKey g cursor @ [0]) (if stop \<noteq> [] then Some (SMKey g stop) else PrefixUpperBound (SMPrefix g)) x \<longleftrightarrow>
    (\<exists>k. x = SMKey g k \<and> cursor < k \<and> (stop = [] \<or> k < stop))"
proof -
  let ?hi = "if stop \<noteq> [] then Some (SMKey g stop) else PrefixUpperBound (SMPrefix g)"
  have "in_bounds (SMKey g cursor @ [0]) ?hi x \<longleftrightarrow> in_bounds (SMKey g cursor) ?hi x \<and> x \<noteq> SMKey g cursor"
    unfolding in_bounds_def snoc_zero_le_iff by (auto simp: less_le)
  also have "\<dots> \<longleftrightarrow> (\<exists>k. x = SMKey g k \<and> inSpan cursor stop k) \<and> x \<noteq> SMKey g cursor"
    by (simp only: in_bounds_spanUpper)
  also have "\<dots> \<longleftrightarrow> (\<exists>k. x = SMKey g k \<and> cursor < k \<and> (stop = [] \<or> k < stop))"
    by (auto simp: inSpan_def less_le)
  finally show ?thesis .
qed

lemma listRangeFrom_page:
  assumes ok: "sm_ok E view s"
  obtains es where "listRangeFrom E s (sm_st s) lo stop cursor limit = Inr (take (clampLimit limit) es)"
    "listing (smLive E view s) (\<lambda>k. inSpan lo stop k \<and> (cursor = [] \<or> cursor < k)) es"
proof (cases "cursor \<noteq> [] \<and> lo \<le> cursor")
  case True
  have iff: "(\<lambda>k. cursor < k \<and> (stop = [] \<or> k < stop)) = (\<lambda>k. inSpan lo stop k \<and> (cursor = [] \<or> cursor < k))"
    using True by (auto simp: inSpan_def fun_eq_iff)
  obtain es where "scanLatest E s (sm_st s) (SMKey (sm_gid s) cursor @ [0])
      (if stop \<noteq> [] then Some (SMKey (sm_gid s) stop) else PrefixUpperBound (SMPrefix (sm_gid s))) limit = Inr (take (clampLimit limit) es)"
    "listing (smLive E view s) (\<lambda>k. cursor < k \<and> (stop = [] \<or> k < stop)) es"
    by (rule scanLatest_page [OF ok in_bounds_after])
  with True iff show ?thesis by (intro that [of es]) (simp_all add: listRangeFrom_def Let_def)
next
  case False
  have iff: "inSpan lo stop = (\<lambda>k. inSpan lo stop k \<and> (cursor = [] \<or> cursor < k))"
    using False by (auto simp: inSpan_def fun_eq_iff)
  obtain es where "scanLatest E s (sm_st s) (SMKey (sm_gid s) lo)
      (if stop \<noteq> [] then Some (SMKey (sm_gid s) stop) else PrefixUpperBound (SMPrefix (sm_gid s))) limit = Inr (take (clampLimit limit) es)"
    "listing (smLive E view s) (inSpan lo stop) es"
    by (rule scanLatest_page [OF ok in_bounds_spanUpper])
  with False iff show ?thesis by (intro that [of es]) (auto simp: listRangeFrom_def Let_def)
qed

end

context kv_env
begin

text \<open>A prefix scan covers the keys above the cursor and below the end of the prefix.\<close>

lemma in_bounds_prefix:
  "in_bounds (SMKey g pre) (PrefixUpperBound (SMKey g pre)) x \<longleftrightarrow> (\<exists>k. x = SMKey g k \<and> prefix pre k)"
  by (simp add: prefix_iff_in_bounds prefix_SMKey_iff)

lemma in_bounds_prefix_after:
  assumes "pre \<le> cursor"
  shows "in_bounds (SMKey g cursor @ [0]) (PrefixUpperBound (SMKey g pre)) x \<longleftrightarrow> (\<exists>k. x = SMKey g k \<and> prefix pre k \<and> cursor < k)"
proof -
  have "in_bounds (SMKey g cursor @ [0]) (PrefixUpperBound (SMKey g pre)) x \<longleftrightarrow>
    in_bounds (SMKey g pre) (PrefixUpperBound (SMKey g pre)) x \<and> SMKey g cursor < x"
  proof -
    have "SMKey g pre \<le> x" if "SMKey g cursor < x"
    proof -
      have "SMKey g pre \<le> SMKey g cursor" using assms by simp
      from order_le_less_trans [OF this that] show ?thesis by (rule order_less_imp_le)
    qed
    then show ?thesis unfolding in_bounds_def snoc_zero_le_iff by blast
  qed
  also have "\<dots> \<longleftrightarrow> (\<exists>k. x = SMKey g k \<and> prefix pre k \<and> cursor < k)" unfolding in_bounds_prefix by auto
  finally show ?thesis .
qed

lemma listLatestFrom_page:
  assumes ok: "sm_ok E view s" and c: "cursor = [] \<or> pre \<le> cursor"
  obtains es where "listLatestFrom E s (sm_st s) pre cursor limit = Inr (take (clampLimit limit) es)"
    "listing (smLive E view s) (\<lambda>k. prefix pre k \<and> (cursor = [] \<or> cursor < k)) es"
proof (cases "cursor = []")
  case True
  obtain es where "scanLatest E s (sm_st s) (SMKey (sm_gid s) pre) (PrefixUpperBound (SMKey (sm_gid s) pre)) limit = Inr (take (clampLimit limit) es)"
    "listing (smLive E view s) (prefix pre) es"
    by (rule scanLatest_page [OF ok in_bounds_prefix])
  with True show ?thesis by (intro that [of es]) (simp_all add: listLatestFrom_def Let_def)
next
  case False
  with c have "pre \<le> cursor" by simp
  obtain es where "scanLatest E s (sm_st s) (SMKey (sm_gid s) cursor @ [0]) (PrefixUpperBound (SMKey (sm_gid s) pre)) limit = Inr (take (clampLimit limit) es)"
    "listing (smLive E view s) (\<lambda>k. prefix pre k \<and> cursor < k) es"
    by (rule scanLatest_page [OF ok in_bounds_prefix_after [OF \<open>pre \<le> cursor\<close>]])
  with False show ?thesis by (intro that [of es]) (simp_all add: listLatestFrom_def Let_def)
qed

end

section \<open>Properties\<close>

text \<open>
  C10. Range pages are exact. A range scan answers the first entries, at most the page size, of the sorted
  list of all records with a key in the half-open range (an empty end is unbounded) and above the cursor,
  whatever the cursor is. The page size is the requested limit when it is between 1 and 10000, else 1000.
\<close>

theorem listRange_exact:
  assumes "kv_env E view" "sm_ok E view s"
  shows "\<exists>es. listRangeFrom E s (sm_st s) lo hi cursor limit = Inr (take (clampLimit limit) es) \<and>
    sorted_wrt (<) (map le_Key es) \<and>
    set es = {\<lparr>le_Key = k, le_Record = r\<rparr> | k r. fst (GetLocal E s k) = Inr (Some r, sm_rev s) \<and>
      lo \<le> k \<and> (hi = [] \<or> k < hi) \<and> (cursor = [] \<or> cursor < k)}"
proof -
  obtain es where "listRangeFrom E s (sm_st s) lo hi cursor limit = Inr (take (clampLimit limit) es)"
    "listing (smLive E view s) (\<lambda>k. inSpan lo hi k \<and> (cursor = [] \<or> cursor < k)) es"
    by (rule kv_env.listRangeFrom_page [OF assms])
  then show ?thesis
    using kv_env.GetLocal_live [OF assms] by (intro exI [of _ es]) (simp add: listing_def inSpan_def conj_assoc)
qed

theorem listRange_exact_witness:
  "\<exists>es. listRangeFrom frzEnv frz (sm_st frz) (str ''b'') [] [] 1 = Inr (take (clampLimit 1) es) \<and>
    listRangeFrom frzEnv frz (sm_st frz) (str ''b'') [] [] 1 =
      Inr [\<lparr>le_Key = str ''m'', le_Record = \<lparr>r_Rev = 2, r_Value = [20], r_Blob = False\<rparr>\<rparr>]"
proof -
  have "listRangeFrom frzEnv frz (sm_st frz) (str ''b'') [] [] 1 =
      Inr [\<lparr>le_Key = str ''m'', le_Record = \<lparr>r_Rev = 2, r_Value = [20], r_Blob = False\<rparr>\<rparr>]" by code_simp
  with listRange_exact [OF frz_env frz_ok, of "str ''b''" "[]" "[]" 1] show ?thesis by auto
qed

text \<open>
  Prefix pages are exact for cursors that are empty or not below the prefix (the last key of a previous
  page is one): the scan answers the first entries of the sorted list of all records whose key starts with
  the prefix and is above the cursor, together with the revision of the group.
\<close>

theorem listLocal_exact:
  assumes "kv_env E view" "sm_ok E view s" "cursor = [] \<or> pre \<le> cursor"
  shows "\<exists>es. fst (ListLocal E s pre cursor limit) = Inr (take (clampLimit limit) es, sm_rev s) \<and>
    sorted_wrt (<) (map le_Key es) \<and>
    set es = {\<lparr>le_Key = k, le_Record = r\<rparr> | k r. fst (GetLocal E s k) = Inr (Some r, sm_rev s) \<and>
      prefix pre k \<and> (cursor = [] \<or> cursor < k)}"
proof -
  obtain es where "listLatestFrom E s (sm_st s) pre cursor limit = Inr (take (clampLimit limit) es)"
    "listing (smLive E view s) (\<lambda>k. prefix pre k \<and> (cursor = [] \<or> cursor < k)) es"
    by (rule kv_env.listLatestFrom_page [OF assms])
  moreover have "counterFrom E (sm_st s) (RevisionKey (sm_gid s)) = Inr (sm_rev s)"
    using kv_env.counterFrom_counter [OF assms(1)] assms(2) by (simp add: sm_ok_def)
  ultimately show ?thesis
    using kv_env.GetLocal_live [OF assms(1,2)] by (intro exI [of _ es]) (simp add: listing_def ListLocal_def Let_def)
qed

theorem listLocal_exact_witness:
  "\<exists>es. fst (ListLocal frzEnv frz (str ''m'') [] 5) = Inr (take (clampLimit 5) es, sm_rev frz) \<and>
    map_sum id (map le_Key \<circ> fst) (fst (ListLocal frzEnv frz (str ''m'') [] 5)) = Inr [str ''m'']"
proof -
  have "map_sum id (map le_Key \<circ> fst) (fst (ListLocal frzEnv frz (str ''m'') [] 5)) = Inr [str ''m'']" by code_simp
  with listLocal_exact [OF frz_env frz_ok, of "[]" "str ''m''" 5] show ?thesis by auto
qed


end
