(* ===== verification/Resolution.thy ===== *)
theory Resolution
  imports Prelude
begin

text \<open>
  ``The most specific rule wins'': the contract that the grants of \<^verbatim>\<open>pkg/auth\<close> and the
  durability policies of \<^verbatim>\<open>pkg/blob\<close> share. Both choose, among the rules that apply to a
  key, one of the longest; the first sorts the rules, the second runs once over them. The locale
  states the contract and what follows from it. The sort of the Go library is here as well.
\<close>

section \<open>Insertion sort\<close>

text \<open>
  \<^verbatim>\<open>sort.SliceStable\<close> sorts blocks of twenty elements by insertion and merges them. On a
  block, element \<open>i\<close> moves to the front while it is less than the one before it. With the part
  already sorted in reverse, that is one walk along it. The result is the only stable arrangement
  when the comparison is a strict weak order, for any number of elements.
\<close>

fun sink :: "('a \<Rightarrow> 'a \<Rightarrow> bool) \<Rightarrow> 'a \<Rightarrow> 'a list \<Rightarrow> 'a list" where
  "sink lt x [] = [x]"
| "sink lt x (y # ys) = (if lt x y then y # sink lt x ys else x # y # ys)"

definition insertionSort :: "('a \<Rightarrow> 'a \<Rightarrow> bool) \<Rightarrow> 'a list \<Rightarrow> 'a list" where
  "insertionSort lt xs = rev (foldl (\<lambda>acc x. sink lt x acc) [] xs)"

lemma set_sink [simp]: "set (sink lt x ys) = insert x (set ys)"
  by (induction ys) auto

lemma length_sink [simp]: "length (sink lt x ys) = Suc (length ys)"
  by (induction ys) auto

lemma set_foldl_sink: "set (foldl (\<lambda>acc x. sink lt x acc) acc xs) = set acc \<union> set xs"
  by (induction xs arbitrary: acc) auto

lemma set_insertionSort [simp]: "set (insertionSort lt xs) = set xs"
  by (simp add: insertionSort_def set_foldl_sink)

text \<open>When the comparison is that of a rank, the highest rank comes first.\<close>

lemma sorted_sink:
  assumes "\<And>y. y \<in> set ys \<Longrightarrow> lt x y \<longleftrightarrow> (f y :: nat) < f x"
    and "sorted_wrt (\<lambda>a b. f a \<le> f b) ys"
  shows "sorted_wrt (\<lambda>a b. f a \<le> f b) (sink lt x ys)"
  using assms
proof (induction ys)
  case (Cons y ys)
  from Cons.prems(1) [of y] have y: "lt x y \<longleftrightarrow> f y < f x" by simp
  have "sorted_wrt (\<lambda>a b. f a \<le> f b) (sink lt x ys)"
    using Cons.prems by (intro Cons.IH) auto
  with y Cons.prems(2) show ?case by (auto intro: order_trans)
qed simp

lemma sorted_foldl_sink:
  assumes "\<And>x y. x \<in> set acc \<union> set xs \<Longrightarrow> y \<in> set acc \<union> set xs \<Longrightarrow> lt x y \<longleftrightarrow> (f y :: nat) < f x"
    and "sorted_wrt (\<lambda>a b. f a \<le> f b) acc"
  shows "sorted_wrt (\<lambda>a b. f a \<le> f b) (foldl (\<lambda>acc x. sink lt x acc) acc xs)"
  using assms
proof (induction xs arbitrary: acc)
  case (Cons x xs)
  show ?case
    unfolding foldl_Cons
    by (rule Cons.IH) (use Cons.prems in \<open>auto intro!: sorted_sink\<close>)
qed simp

lemma sorted_insertionSort:
  assumes "\<And>x y. x \<in> set xs \<Longrightarrow> y \<in> set xs \<Longrightarrow> lt x y \<longleftrightarrow> (f y :: nat) < f x"
  shows "sorted_wrt (\<lambda>a b. f b \<le> f a) (insertionSort lt xs)"
  unfolding insertionSort_def sorted_wrt_rev
  by (rule sorted_foldl_sink) (use assms in simp_all)

section \<open>The contract\<close>

text \<open>
  \<^verbatim>\<open>decide\<close> chooses a rule for a request. A chosen rule is one of the rules, applies to the
  request, and no rule that applies has a higher weight. No choice means that no rule applies.
\<close>

locale most_specific =
  fixes decide :: "'r list \<Rightarrow> 'q \<Rightarrow> 'r option"
    and applies :: "'r \<Rightarrow> 'q \<Rightarrow> bool"
    and weight :: "'r \<Rightarrow> nat"
    and valid :: "'r \<Rightarrow> bool"
  assumes decide_Some: "(\<And>r. r \<in> set rs \<Longrightarrow> valid r) \<Longrightarrow> decide rs q = Some r \<Longrightarrow>
      r \<in> set rs \<and> applies r q \<and> (\<forall>r' \<in> set rs. applies r' q \<longrightarrow> weight r' \<le> weight r)"
    and decide_None: "(\<And>r. r \<in> set rs \<Longrightarrow> valid r) \<Longrightarrow> decide rs q = None \<Longrightarrow>
      r \<in> set rs \<Longrightarrow> \<not> applies r q"
begin

lemma decide_exists:
  assumes "\<And>r. r \<in> set rs \<Longrightarrow> valid r" "r \<in> set rs" "applies r q"
  obtains r' where "decide rs q = Some r'" "r' \<in> set rs" "applies r' q" "weight r \<le> weight r'"
proof (cases "decide rs q")
  case None
  from decide_None [OF assms(1) None assms(2)] assms(3) show ?thesis by simp
next
  case (Some r')
  with decide_Some [OF assms(1) Some] assms(2, 3) show ?thesis by (intro that [OF Some]) auto
qed

lemma override:
  assumes "\<And>r. r \<in> set rs \<Longrightarrow> valid r" "r \<in> set rs" "applies r q"
    and "\<And>r'. r' \<in> set rs \<Longrightarrow> applies r' q \<Longrightarrow> r' \<noteq> r \<Longrightarrow> weight r' < weight r"
  shows "decide rs q = Some r"
proof -
  from decide_exists [OF assms(1-3)] obtain r'
    where "decide rs q = Some r'" "r' \<in> set rs" "applies r' q" "weight r \<le> weight r'" .
  with assms(4) [of r'] show ?thesis by (cases "r' = r") auto
qed

lemma decide_None_iff:
  assumes "\<And>r. r \<in> set rs \<Longrightarrow> valid r"
  shows "decide rs q = None \<longleftrightarrow> (\<forall>r \<in> set rs. \<not> applies r q)"
proof
  assume "decide rs q = None"
  with decide_None [OF assms this] show "\<forall>r \<in> set rs. \<not> applies r q" by blast
next
  assume "\<forall>r \<in> set rs. \<not> applies r q"
  then show "decide rs q = None"
    using decide_Some [OF assms, where q = q] by (cases "decide rs q") auto
qed

text \<open>Two lists with the same rules choose rules of the same weight, whatever their order.\<close>

lemma weight_of_set:
  assumes "\<And>r. r \<in> set rs \<Longrightarrow> valid r" "set rs = set rs'" "decide rs q = Some r" "decide rs' q = Some r'"
  shows "weight r = weight r'"
proof -
  have v: "\<And>r. r \<in> set rs' \<Longrightarrow> valid r" using assms(1, 2) by simp
  from decide_Some [OF assms(1) assms(3)] decide_Some [OF v assms(4)] assms(2)
  show ?thesis by (auto intro: antisym)
qed

end

end
