(* ===== verification/Auth.thy ===== *)
theory Auth
  imports Resolution Store
begin

text \<open>
  Authorization (\<^verbatim>\<open>pkg/auth/grants.go\<close>, the credential types of
  \<^verbatim>\<open>pkg/auth/users.go\<close>, the checks of \<^verbatim>\<open>pkg/server/authsvc.go\<close> and
  \<^verbatim>\<open>pkg/service/s3/auth.go\<close> that use them) and the range check of
  \<^verbatim>\<open>pkg/routes/v1api/v1api.go\<close>, which decides once for all keys of a range what
  \<^verbatim>\<open>Allowed\<close> decides per key. Keys and prefixes are bytes; verbs, effects and error texts
  are strings the code only compares.
\<close>

section \<open>Data\<close>

type_synonym Verb = string

definition VerbList :: Verb where "VerbList = ''list''"
definition VerbRead :: Verb where "VerbRead = ''read''"
definition VerbWrite :: Verb where "VerbWrite = ''write''"
definition VerbDelete :: Verb where "VerbDelete = ''delete''"
definition VerbWatch :: Verb where "VerbWatch = ''watch''"
definition VerbLock :: Verb where "VerbLock = ''lock''"
definition VerbAdmin :: Verb where "VerbAdmin = ''admin''"

definition AllVerbs :: "Verb list" where
  "AllVerbs = [VerbList, VerbRead, VerbWrite, VerbDelete, VerbWatch, VerbLock, VerbAdmin]"

definition ValidVerb :: "string \<Rightarrow> bool" where
  "ValidVerb s = list_ex (\<lambda>v. v = s) AllVerbs"

record Grant =
  g_Prefix :: bytes
  g_Effect :: string
  g_Verbs :: "Verb list"

record User =
  u_Name :: bytes
  u_PasswordHash :: bytes
  u_Grants :: "Grant list"
  u_CreatedAt :: int

record Token =
  t_User :: bytes
  t_ExpiresAt :: int

record AccessKey =
  k_KeyID :: bytes
  k_Secret :: bytes
  k_User :: bytes
  k_CreatedAt :: int
  k_Scopes :: "bytes list"

definition RootUser :: bytes where "RootUser = str ''root''"

section \<open>Grants\<close>

definition mentions :: "Grant \<Rightarrow> Verb \<Rightarrow> bool" where
  "mentions g v = list_ex (\<lambda>gv. gv = v) (g_Verbs g)"

text \<open>The comparison \<^verbatim>\<open>Allowed\<close> hands to the sort, and the walk over the sorted grants.\<close>

definition grantLess :: "Grant \<Rightarrow> Grant \<Rightarrow> bool" where
  "grantLess gi gj =
     (let li = length (g_Prefix gi); lj = length (g_Prefix gj)
      in if li \<noteq> lj then li > lj else g_Effect gi = ''deny'' \<and> g_Effect gj = ''allow'')"

fun firstMention :: "Grant list \<Rightarrow> Verb \<Rightarrow> bool" where
  "firstMention [] verb = False"
| "firstMention (g # gs) verb =
     (if mentions g verb then g_Effect g = ''allow'' else firstMention gs verb)"

definition Allowed :: "Grant list \<Rightarrow> bytes \<Rightarrow> Verb \<Rightarrow> bool" where
  "Allowed grants key verb =
     (let matching = filter (\<lambda>g. prefix (g_Prefix g) key) grants
      in firstMention (insertionSort grantLess matching) verb)"

section \<open>Users, tokens and access keys\<close>

definition Expired :: "Token \<Rightarrow> int \<Rightarrow> bool" where
  "Expired t now = (t_ExpiresAt t < now)"

definition InScope :: "AccessKey \<Rightarrow> bytes \<Rightarrow> bool" where
  "InScope k storageKey =
     (if k_Scopes k = [] then True else list_ex (\<lambda>p. prefix p storageKey) (k_Scopes k))"

text \<open>\<^verbatim>\<open>Server.Authorize\<close> and \<^verbatim>\<open>Server.AuthorizeAdmin\<close>: no error is \<open>None\<close>.\<close>

definition ErrUnauthorized :: string where "ErrUnauthorized = ''Unauthorized''"

definition Authorize :: "User \<Rightarrow> bytes \<Rightarrow> Verb \<Rightarrow> string option" where
  "Authorize u key verb =
     (if u_Name u = RootUser then None
      else if Allowed (u_Grants u) key verb then None
      else Some ErrUnauthorized)"

definition AuthorizeAdmin :: "User \<Rightarrow> string option" where
  "AuthorizeAdmin u =
     (if u_Name u = RootUser then None
      else if list_ex (\<lambda>g. g_Effect g = ''allow'' \<and> list_ex (\<lambda>v. v = VerbAdmin) (g_Verbs g)) (u_Grants u)
      then None
      else Some ErrUnauthorized)"

text \<open>The caller of the S3 gateway: the credential's scope binds first, for root as well.\<close>

record caller =
  c_user :: bytes
  c_isRoot :: bool
  c_grants :: "Grant list"
  c_key :: AccessKey

definition authorize :: "caller \<Rightarrow> bytes \<Rightarrow> Verb \<Rightarrow> bool" where
  "authorize c key verb =
     (if \<not> InScope (c_key c) key then False
      else if c_isRoot c then True
      else Allowed (c_grants c) key verb)"

section \<open>The range check\<close>

text \<open>
  \<^verbatim>\<open>prefixUpperBound\<close> of the API layer is the loop of the store's
  \<^verbatim>\<open>PrefixUpperBound\<close> on strings, with \<^verbatim>\<open>""\<close> for ``no bound''.
\<close>

fun upperLoop :: "bytes \<Rightarrow> bytes" where
  "upperLoop [] = []"
| "upperLoop (b # bs) = (if b < 0xff then rev ((b + 1) # bs) else upperLoop bs)"

definition prefixUpperBound :: "bytes \<Rightarrow> bytes" where
  "prefixUpperBound p = upperLoop (rev p)"

definition grantMentions :: "Grant \<Rightarrow> Verb \<Rightarrow> bool" where
  "grantMentions g v = list_ex (\<lambda>gv. gv = v) (g_Verbs g)"

text \<open>One step of the first loop: the longest allow grant whose subtree contains the range.\<close>

definition coverStep :: "bytes \<Rightarrow> bytes \<Rightarrow> Verb \<Rightarrow> Grant option \<Rightarrow> Grant \<Rightarrow> Grant option" where
  "coverStep start end' verb covering g =
     (if g_Effect g \<noteq> ''allow'' \<or> \<not> grantMentions g verb \<or> \<not> prefix (g_Prefix g) start then covering
      else let up = prefixUpperBound (g_Prefix g)
      in if up \<noteq> [] \<and> end' > up then covering
      else case covering of
          None \<Rightarrow> Some g
        | Some c \<Rightarrow> if length (g_Prefix g) > length (g_Prefix c) then Some g else covering)"

text \<open>The test of the second loop: a deny grant at least as specific that meets the range.\<close>

definition denyBlocks :: "bytes \<Rightarrow> bytes \<Rightarrow> Verb \<Rightarrow> nat \<Rightarrow> Grant \<Rightarrow> bool" where
  "denyBlocks start end' verb allowLen g =
     (if g_Effect g \<noteq> ''deny'' \<or> \<not> grantMentions g verb \<or> length (g_Prefix g) < allowLen then False
      else if g_Prefix g \<ge> end' then False
      else let up = prefixUpperBound (g_Prefix g)
      in if up \<noteq> [] \<and> up \<le> start then False else True)"

definition rangeCoveredByGrants :: "Grant list \<Rightarrow> bytes \<Rightarrow> bytes \<Rightarrow> Verb \<Rightarrow> bool" where
  "rangeCoveredByGrants grants start end' verb =
     (if end' = [] then False
      else case foldl (coverStep start end' verb) None grants of
          None \<Rightarrow> False
        | Some c \<Rightarrow> \<not> list_ex (denyBlocks start end' verb (length (g_Prefix c))) grants)"

section \<open>The grant that decides\<close>

text \<open>
  The effects \<^verbatim>\<open>GrantAdd\<close> lets in, the grants that speak about a request, and the rank
  the comparison orders by: the length, and deny before allow at one length.
\<close>

definition effect_ok :: "Grant \<Rightarrow> bool" where
  "effect_ok g = (g_Effect g = ''allow'' \<or> g_Effect g = ''deny'')"

definition speaks :: "Grant \<Rightarrow> bytes \<times> Verb \<Rightarrow> bool" where
  "speaks g q = (prefix (g_Prefix g) (fst q) \<and> mentions g (snd q))"

definition rank :: "Grant \<Rightarrow> nat" where
  "rank g = 2 * length (g_Prefix g) + (if g_Effect g = ''deny'' then 1 else 0)"

definition decidingGrant :: "Grant list \<Rightarrow> bytes \<times> Verb \<Rightarrow> Grant option" where
  "decidingGrant grants q =
     find (\<lambda>g. mentions g (snd q))
       (insertionSort grantLess (filter (\<lambda>g. prefix (g_Prefix g) (fst q)) grants))"

lemma grantLess_rank: "effect_ok x \<Longrightarrow> effect_ok y \<Longrightarrow> grantLess x y \<longleftrightarrow> rank y < rank x"
  by (auto simp: grantLess_def rank_def effect_ok_def Let_def split: if_splits)

lemma find_sorted:
  assumes "sorted_wrt (\<lambda>a b. f b \<le> f a) xs" "find P xs = Some x"
  shows "x \<in> set xs \<and> P x \<and> (\<forall>y \<in> set xs. P y \<longrightarrow> f y \<le> (f x :: nat))"
  using assms by (induction xs) (auto split: if_splits)

lemma firstMention_find: "firstMention gs v = (case find (\<lambda>g. mentions g v) gs of None \<Rightarrow> False | Some g \<Rightarrow> g_Effect g = ''allow'')"
  by (induction gs) auto

lemma Allowed_deciding:
  "Allowed grants key verb =
     (case decidingGrant grants (key, verb) of None \<Rightarrow> False | Some g \<Rightarrow> g_Effect g = ''allow'')"
  by (simp add: Allowed_def decidingGrant_def firstMention_find)

interpretation grants: most_specific decidingGrant speaks rank effect_ok
proof
  fix rs :: "Grant list" and q :: "bytes \<times> Verb" and r
  assume ok: "\<And>r. r \<in> set rs \<Longrightarrow> effect_ok r"
  define ys where "ys = insertionSort grantLess (filter (\<lambda>g. prefix (g_Prefix g) (fst q)) rs)"
  have sorted: "sorted_wrt (\<lambda>a b. rank b \<le> rank a) ys"
    unfolding ys_def by (rule sorted_insertionSort) (simp add: ok grantLess_rank)
  have set: "set ys = {g \<in> set rs. prefix (g_Prefix g) (fst q)}" by (simp add: ys_def)
  have dec: "decidingGrant rs q = find (\<lambda>g. mentions g (snd q)) ys"
    by (simp add: decidingGrant_def ys_def)
  {
    assume "decidingGrant rs q = Some r"
    from find_sorted [OF sorted this [unfolded dec]]
    show "r \<in> set rs \<and> speaks r q \<and> (\<forall>r' \<in> set rs. speaks r' q \<longrightarrow> rank r' \<le> rank r)"
      by (auto simp: set speaks_def)
  next
    assume "decidingGrant rs q = None" "r \<in> set rs"
    then show "\<not> speaks r q" by (auto simp: dec find_None_iff set speaks_def)
  }
qed

text \<open>
  C11. A request is allowed exactly when some allow grant speaks about it and every deny grant that
  speaks about it is shadowed by a longer allow grant: the longest prefix wins, deny wins a tie,
  silence is a refusal, and the order in which the grants were added does not matter.
\<close>

theorem Allowed_iff:
  assumes "\<forall>g \<in> set grants. effect_ok g"
  shows "Allowed grants key verb \<longleftrightarrow>
    (\<exists>a \<in> set grants. speaks a (key, verb) \<and> g_Effect a = ''allow'') \<and>
    (\<forall>d \<in> set grants. speaks d (key, verb) \<and> g_Effect d = ''deny'' \<longrightarrow>
       (\<exists>a \<in> set grants. speaks a (key, verb) \<and> g_Effect a = ''allow'' \<and>
          length (g_Prefix d) < length (g_Prefix a)))"
proof (cases "decidingGrant grants (key, verb)")
  case None
  with grants.decide_None [of grants "(key, verb)"] assms show ?thesis
    by (auto simp: Allowed_deciding)
next
  case (Some g)
  from assms have ok: "\<And>r. r \<in> set grants \<Longrightarrow> effect_ok r" by simp
  from grants.decide_Some [OF ok Some]
  have g: "g \<in> set grants" "speaks g (key, verb)"
    and max: "\<And>r. r \<in> set grants \<Longrightarrow> speaks r (key, verb) \<Longrightarrow> rank r \<le> rank g" by auto
  show ?thesis
  proof (cases "g_Effect g = ''allow''")
    case True
    have "length (g_Prefix d) < length (g_Prefix g)"
      if "d \<in> set grants" "speaks d (key, verb)" "g_Effect d = ''deny''" for d
      using max [OF that(1, 2)] that(3) True by (simp add: rank_def)
    with g True show ?thesis by (auto simp: Allowed_deciding Some)
  next
    case False
    with ok [OF g(1)] have deny: "g_Effect g = ''deny''" by (simp add: effect_ok_def)
    have "length (g_Prefix a) \<le> length (g_Prefix g)"
      if "a \<in> set grants" "speaks a (key, verb)" "g_Effect a = ''allow''" for a
      using max [OF that(1, 2)] that(3) deny by (simp add: rank_def)
    with g deny show ?thesis by (fastforce simp: Allowed_deciding Some)
  qed
qed

text \<open>Alice may read everything under \<^verbatim>\<open>/a\<close> except \<^verbatim>\<open>/a/x\<close>.\<close>

definition aliceGrants :: "Grant list" where
  "aliceGrants =
     [\<lparr>g_Prefix = str ''/a/x'', g_Effect = ''deny'', g_Verbs = [VerbRead]\<rparr>,
      \<lparr>g_Prefix = str ''/a'', g_Effect = ''allow'', g_Verbs = [VerbRead, VerbList]\<rparr>]"

lemma aliceGrants_ok: "\<forall>g \<in> set aliceGrants. effect_ok g"
  by (simp add: aliceGrants_def effect_ok_def)

theorem Allowed_iff_witness:
  "list_all effect_ok aliceGrants \<and> Allowed aliceGrants (str ''/a/b'') VerbRead \<and>
   \<not> Allowed aliceGrants (str ''/a/x/1'') VerbRead"
  using Allowed_iff [OF aliceGrants_ok, of "str ''/a/b''" VerbRead]
    Allowed_iff [OF aliceGrants_ok, of "str ''/a/x/1''" VerbRead] aliceGrants_ok
  by (simp add: list_all_iff aliceGrants_def speaks_def mentions_def VerbRead_def VerbList_def)

section \<open>Ranges\<close>

lemma upperLoop_prefixUpperLoop:
  "upperLoop bs = (case prefixUpperLoop bs of None \<Rightarrow> [] | Some u \<Rightarrow> u) \<and> prefixUpperLoop bs \<noteq> Some []"
  by (induction bs) auto

lemma prefixUpperBound_eq: "prefixUpperBound p = (case PrefixUpperBound p of None \<Rightarrow> [] | Some u \<Rightarrow> u)"
  using upperLoop_prefixUpperLoop [of "rev p"] by (simp add: prefixUpperBound_def PrefixUpperBound_def)

lemma PrefixUpperBound_not_empty: "PrefixUpperBound p \<noteq> Some []"
  using upperLoop_prefixUpperLoop [of "rev p"] by (simp add: PrefixUpperBound_def)

text \<open>A key carries a prefix exactly when it lies between the prefix and its upper bound.\<close>

lemma prefix_iff_upper:
  "prefix p k \<longleftrightarrow> p \<le> k \<and> (prefixUpperBound p = [] \<or> k < prefixUpperBound p)"
  using prefix_iff_in_bounds [of p k] PrefixUpperBound_not_empty [of p]
  by (cases "PrefixUpperBound p") (auto simp: in_bounds_def prefixUpperBound_eq)

lemma grantMentions_eq [simp]: "grantMentions g v = mentions g v"
  by (simp add: grantMentions_def mentions_def)

definition covers :: "bytes \<Rightarrow> bytes \<Rightarrow> Verb \<Rightarrow> Grant \<Rightarrow> bool" where
  "covers start end' verb g =
     (g_Effect g = ''allow'' \<and> mentions g verb \<and> prefix (g_Prefix g) start \<and>
      (prefixUpperBound (g_Prefix g) = [] \<or> end' \<le> prefixUpperBound (g_Prefix g)))"

lemma coverStep_eq:
  "coverStep start end' verb c g =
     (if covers start end' verb g \<and> (\<forall>c'. c = Some c' \<longrightarrow> length (g_Prefix c') < length (g_Prefix g))
      then Some g else c)"
  by (cases c) (auto simp: coverStep_def covers_def Let_def)

lemma foldl_coverStep:
  assumes "foldl (coverStep start end' verb) c gs = Some a"
    and "c = None \<or> (\<exists>c'. c = Some c' \<and> covers start end' verb c' \<and> c' \<in> S)"
  shows "covers start end' verb a \<and> a \<in> S \<union> set gs"
  using assms
proof (induction gs arbitrary: c S)
  case (Cons g gs)
  have "covers start end' verb a \<and> a \<in> insert g S \<union> set gs"
    by (rule Cons.IH [OF Cons.prems(1) [unfolded foldl_Cons]]) (use Cons.prems(2) in \<open>auto simp: coverStep_eq\<close>)
  then show ?case by auto
qed simp

lemma covers_prefix:
  assumes "covers start end' verb a" "start \<le> k" "k < end'"
  shows "prefix (g_Prefix a) k"
proof -
  from assms(1) have "g_Prefix a \<le> start" by (auto simp: covers_def prefix_imp_le)
  with assms show ?thesis
    by (auto simp: prefix_iff_upper covers_def dest: order_trans less_le_trans)
qed

text \<open>
  C12. The range check is sound: when it accepts \<^verbatim>\<open>[start, end)\<close>, every key of the range is
  one that \<^verbatim>\<open>Allowed\<close> accepts, so a range delete touches no key its caller could not
  delete alone.
\<close>

theorem rangeCovered_sound:
  assumes "\<forall>g \<in> set grants. effect_ok g"
    and "rangeCoveredByGrants grants start end' verb"
    and "start \<le> k" "k < end'"
  shows "Allowed grants k verb"
proof -
  from assms(2) obtain c where c: "foldl (coverStep start end' verb) None grants = Some c"
    and deny: "\<And>d. d \<in> set grants \<Longrightarrow> \<not> denyBlocks start end' verb (length (g_Prefix c)) d"
    by (auto simp: rangeCoveredByGrants_def list_ex_iff split: if_splits option.splits)
  from foldl_coverStep [OF c, of "{}"] have cov: "covers start end' verb c" and mem: "c \<in> set grants" by auto
  have sp: "speaks c (k, verb)"
    using covers_prefix [OF cov assms(3, 4)] cov by (simp add: speaks_def covers_def)
  have longer: "length (g_Prefix d) < length (g_Prefix c)"
    if "d \<in> set grants" "speaks d (k, verb)" "g_Effect d = ''deny''" for d
  proof (rule ccontr)
    assume "\<not> length (g_Prefix d) < length (g_Prefix c)"
    moreover from that(2) have "g_Prefix d \<le> k"
      "prefixUpperBound (g_Prefix d) = [] \<or> k < prefixUpperBound (g_Prefix d)"
      by (auto simp: speaks_def prefix_iff_upper)
    ultimately have "denyBlocks start end' verb (length (g_Prefix c)) d"
      using that(2, 3) assms(3, 4) by (auto simp: denyBlocks_def speaks_def Let_def)
    with deny [OF that(1)] show False by simp
  qed
  from cov have "g_Effect c = ''allow''" by (simp add: covers_def)
  with longer sp mem show ?thesis unfolding Allowed_iff [OF assms(1)] by blast
qed
theorem rangeCovered_sound_witness:
  "list_all effect_ok aliceGrants \<and>
   rangeCoveredByGrants aliceGrants (str ''/a/b'') (str ''/a/c'') VerbRead \<and>
   str ''/a/b'' \<le> str ''/a/b7'' \<and> str ''/a/b7'' < str ''/a/c'' \<and>
   Allowed aliceGrants (str ''/a/b7'') VerbRead"
proof -
  have cov: "rangeCoveredByGrants aliceGrants (str ''/a/b'') (str ''/a/c'') VerbRead" by code_simp
  have lo: "str ''/a/b'' \<le> str ''/a/b7''" and hi: "str ''/a/b7'' < str ''/a/c''" by code_simp+
  from rangeCovered_sound [OF aliceGrants_ok cov lo hi] cov lo hi aliceGrants_ok show ?thesis
    by (simp only: list_all_iff simp_thms)
qed

definition adjacentGrants :: "Grant list" where
  "adjacentGrants =
     [\<lparr>g_Prefix = str ''/a'', g_Effect = ''allow'', g_Verbs = [VerbDelete]\<rparr>,
      \<lparr>g_Prefix = str ''/b'', g_Effect = ''allow'', g_Verbs = [VerbDelete]\<rparr>]"

lemma byte_between: "(97 :: byte) \<le> b \<Longrightarrow> b < 99 \<Longrightarrow> b = 97 \<or> b = 98"
  by (auto simp: word_less_nat_alt word_le_nat_alt word_unat_eq_iff)

lemma between_adjacent:
  assumes "str ''/a'' \<le> k" "k < str ''/c''"
  shows "prefix (str ''/a'') k \<or> prefix (str ''/b'') k"
proof -
  from assms obtain x k' where k: "k = x # k'" by (cases k) auto
  from assms have x: "x = of_char CHR ''/''" unfolding k by auto
  from assms obtain y k'' where k': "k' = y # k''" unfolding k x by (cases k') auto
  from assms have "of_char CHR ''a'' \<le> y" "y < of_char CHR ''c''" unfolding k x k' by auto
  with byte_between [of y] show ?thesis unfolding k x k' by auto
qed

text \<open>
  The check is not exact, as its comment says: two adjacent allow grants cover every key of a
  range, and the check refuses the range because no single grant contains it.
\<close>

theorem rangeCovered_incomplete:
  "(\<forall>k. str ''/a'' \<le> k \<and> k < str ''/c'' \<longrightarrow> Allowed adjacentGrants k VerbDelete) \<and>
   \<not> rangeCoveredByGrants adjacentGrants (str ''/a'') (str ''/c'') VerbDelete"
proof (intro conjI allI impI)
  fix k assume "str ''/a'' \<le> k \<and> k < str ''/c''"
  then have "prefix (str ''/a'') k \<or> prefix (str ''/b'') k" using between_adjacent by blast
  then show "Allowed adjacentGrants k VerbDelete"
    by (auto simp: Allowed_iff adjacentGrants_def effect_ok_def speaks_def mentions_def simp del: str_simps)
next
  show "\<not> rangeCoveredByGrants adjacentGrants (str ''/a'') (str ''/c'') VerbDelete" by code_simp
qed

theorem rangeCovered_incomplete_witness:
  "str ''/a'' \<le> str ''/a'' \<and> str ''/a'' < str ''/c'' \<and> Allowed adjacentGrants (str ''/a'') VerbDelete \<and>
   \<not> rangeCoveredByGrants adjacentGrants (str ''/a'') (str ''/c'') VerbDelete"
proof -
  have "str ''/a'' \<le> str ''/a'' \<and> str ''/a'' < str ''/c''" by code_simp
  with rangeCovered_incomplete show ?thesis by blast
qed

end
