(* ===== verification/Policy.thy ===== *)
theory Policy
  imports Resolution
begin

text \<open>
  The durability policy of a blob key (\<^verbatim>\<open>pkg/blob/policy.go\<close>): stored rules per path, the
  most specific path that governs the key wins, and rules that do not validate are passed over.
  JSON decoding of a rule is a parameter; \<open>None\<close> is a decoding error. A Go map is an association
  list in the order an iteration takes, with every key once.
\<close>

section \<open>Data and resolution\<close>

record Policy =
  p_Replicas :: int
  p_DataShards :: nat
  p_ParityShards :: nat
  p_ECEnabled :: bool

definition DefaultPolicy :: "int \<Rightarrow> Policy" where
  "DefaultPolicy replicas =
     (let replicas = (if replicas < 1 then 2 else replicas)
      in \<lparr>p_Replicas = replicas, p_DataShards = 4, p_ParityShards = 2, p_ECEnabled = True\<rparr>)"

record ReplicationRule =
  rr_Replicas :: int

record ECRule =
  ec_Data :: int
  ec_Parity :: int
  ec_Enabled :: bool

record ruleCodec =
  unmarshalRepl :: "bytes \<Rightarrow> ReplicationRule option"
  unmarshalEC :: "bytes \<Rightarrow> ECRule option"

definition ParseReplicationRule :: "ruleCodec \<Rightarrow> bytes \<Rightarrow> ReplicationRule option" where
  "ParseReplicationRule C raw = (case unmarshalRepl C raw of
     None \<Rightarrow> None
   | Some r \<Rightarrow> if rr_Replicas r < 1 \<or> rr_Replicas r > 16 then None else Some r)"

definition ParseECRule :: "ruleCodec \<Rightarrow> bytes \<Rightarrow> ECRule option" where
  "ParseECRule C raw = (case unmarshalEC C raw of
     None \<Rightarrow> None
   | Some r \<Rightarrow>
       if ec_Enabled r then
         if ec_Data r < 1 \<or> ec_Parity r < 1 \<or> ec_Data r + ec_Parity r > 32 then None else Some r
       else Some r)"

definition pathGoverns :: "bytes \<Rightarrow> bytes \<Rightarrow> bool" where
  "pathGoverns path key =
     (if path = [] \<or> \<not> prefix path key then False
      else length key = length path \<or> suffix (str ''/'') path \<or> key ! length path = of_char CHR ''/'')"

definition bestStep :: "bytes \<Rightarrow> bytes \<times> bool \<Rightarrow> bytes \<Rightarrow> bytes \<times> bool" where
  "bestStep key acc p = (case acc of (best, found) \<Rightarrow>
     if \<not> pathGoverns p key then (best, found)
     else if \<not> found \<or> length p > length best then (p, True)
     else (best, found))"

definition BestMatch :: "bytes \<Rightarrow> bytes list \<Rightarrow> bytes \<times> bool" where
  "BestMatch key paths = foldl (bestStep key) ([], False) paths"

definition ruleKeys :: "(bytes \<times> bytes) list \<Rightarrow> bytes list" where
  "ruleKeys rules = map fst rules"

definition applyRepl :: "ruleCodec \<Rightarrow> bytes \<Rightarrow> (bytes \<times> bytes) list \<Rightarrow> Policy \<Rightarrow> Policy" where
  "applyRepl C key repl pol = (case BestMatch key (ruleKeys repl) of (path, ok) \<Rightarrow>
     if \<not> ok then pol
     else case map_of repl path of
         None \<Rightarrow> pol
       | Some raw \<Rightarrow> (case ParseReplicationRule C raw of
             None \<Rightarrow> pol
           | Some r \<Rightarrow> pol\<lparr>p_Replicas := rr_Replicas r\<rparr>))"

definition applyEC :: "ruleCodec \<Rightarrow> bytes \<Rightarrow> (bytes \<times> bytes) list \<Rightarrow> Policy \<Rightarrow> Policy" where
  "applyEC C key ec pol = (case BestMatch key (ruleKeys ec) of (path, ok) \<Rightarrow>
     if \<not> ok then pol
     else case map_of ec path of
         None \<Rightarrow> pol
       | Some raw \<Rightarrow> (case ParseECRule C raw of
             None \<Rightarrow> pol
           | Some r \<Rightarrow>
               let pol = pol\<lparr>p_ECEnabled := ec_Enabled r\<rparr>
               in if ec_Enabled r
                  then pol\<lparr>p_DataShards := nat (ec_Data r), p_ParityShards := nat (ec_Parity r)\<rparr>
                  else pol))"

definition ResolvePolicy ::
  "ruleCodec \<Rightarrow> bytes \<Rightarrow> (bytes \<times> bytes) list \<Rightarrow> (bytes \<times> bytes) list \<Rightarrow> Policy \<Rightarrow> Policy" where
  "ResolvePolicy C key repl ec def = applyEC C key ec (applyRepl C key repl def)"

section \<open>Segments\<close>

text \<open>
  A path governs the keys below it at segment boundaries: the key itself, or a key that continues
  with a slash after the path, where a slash that ends the path counts.
\<close>

lemma pathGoverns_iff:
  "pathGoverns path key \<longleftrightarrow>
     path \<noteq> [] \<and> (key = path \<or> (\<exists>rest. key = path @ of_char CHR ''/'' # rest) \<or>
       ((\<exists>dir. path = dir @ [of_char CHR ''/'']) \<and> prefix path key))"
proof (cases "path \<noteq> [] \<and> prefix path key")
  case True
  then obtain rest where key: "key = path @ rest" by (auto simp: prefix_def)
  show ?thesis
    using True by (cases rest) (auto simp: key pathGoverns_def suffix_def)
next
  case False
  then show ?thesis by (auto simp: pathGoverns_def)
qed

text \<open>The scan of \<^verbatim>\<open>BestMatch\<close> is an instance of the most-specific contract.\<close>

definition bestOf :: "bytes list \<Rightarrow> bytes \<Rightarrow> bytes option" where
  "bestOf paths key = (case BestMatch key paths of (best, found) \<Rightarrow> if found then Some best else None)"

lemma foldl_bestStep:
  assumes "foldl (bestStep key) (b, f) ps = (best, found)" "f \<longrightarrow> pathGoverns b key"
  shows "(found \<longrightarrow> pathGoverns best key \<and> (best \<in> set ps \<or> f \<and> best = b)) \<and>
    (f \<longrightarrow> found \<and> length b \<le> length best) \<and>
    (\<forall>p \<in> set ps. pathGoverns p key \<longrightarrow> found \<and> length p \<le> length best)"
  using assms
proof (induction ps arbitrary: b f)
  case (Cons p ps)
  obtain b' f' where step: "bestStep key (b, f) p = (b', f')" by fastforce
  have inv: "f' \<longrightarrow> pathGoverns b' key"
    using step Cons.prems(2) by (auto simp: bestStep_def split: if_splits)
  note IH = Cons.IH [OF Cons.prems(1) [unfolded foldl_Cons step] inv]
  from step show ?case
    using IH by (auto simp: bestStep_def split: if_splits)
qed simp

interpretation paths: most_specific bestOf pathGoverns length "\<lambda>_. True"
proof
  fix rs :: "bytes list" and q r :: bytes
  obtain best found where bm: "BestMatch q rs = (best, found)" by fastforce
  from foldl_bestStep [OF bm [unfolded BestMatch_def]]
  have *: "found \<longrightarrow> pathGoverns best q \<and> best \<in> set rs"
    "\<forall>p \<in> set rs. pathGoverns p q \<longrightarrow> found \<and> length p \<le> length best" by auto
  {
    assume "bestOf rs q = Some r"
    with * show "r \<in> set rs \<and> pathGoverns r q \<and> (\<forall>r' \<in> set rs. pathGoverns r' q \<longrightarrow> length r' \<le> length r)"
      by (auto simp: bestOf_def bm split: if_splits)
  next
    assume "bestOf rs q = None" "r \<in> set rs"
    with * show "\<not> pathGoverns r q" by (auto simp: bestOf_def bm split: if_splits)
  }
qed

text \<open>Two paths of one length that govern one key are one path.\<close>

lemma pathGoverns_unique:
  "pathGoverns p key \<Longrightarrow> pathGoverns q key \<Longrightarrow> length p = length q \<Longrightarrow> p = q"
  by (auto simp: pathGoverns_def prefix_def append_eq_append_conv split: if_splits)

lemma bestOf_eq:
  assumes "p \<in> set ps" "pathGoverns p key"
    and "\<And>q. q \<in> set ps \<Longrightarrow> pathGoverns q key \<Longrightarrow> length q \<le> length p"
  shows "bestOf ps key = Some p"
  by (rule paths.override) (use assms pathGoverns_unique [OF _ assms(2)] in \<open>auto simp: order_less_le\<close>)

section \<open>Properties\<close>

text \<open>What the engine relies on: at least one copy, one data shard, one parity shard, 32 in all.\<close>

definition policy_ok :: "Policy \<Rightarrow> bool" where
  "policy_ok pol = (1 \<le> p_Replicas pol \<and> 1 \<le> p_DataShards pol \<and> 1 \<le> p_ParityShards pol \<and>
     p_DataShards pol + p_ParityShards pol \<le> 32)"

lemma DefaultPolicy_ok: "policy_ok (DefaultPolicy n)"
  by (simp add: policy_ok_def DefaultPolicy_def Let_def)

lemma applyRepl_ok: "policy_ok pol \<Longrightarrow> policy_ok (applyRepl C key repl pol)"
  by (auto simp: policy_ok_def applyRepl_def ParseReplicationRule_def split: option.splits if_splits prod.splits)

lemma applyEC_ok: "policy_ok pol \<Longrightarrow> policy_ok (applyEC C key ec pol)"
  by (auto simp: policy_ok_def applyEC_def ParseECRule_def Let_def split: option.splits if_splits prod.splits)

lemma applyRepl_best:
  assumes "bestOf (map fst repl) key = Some p" "map_of repl p = Some raw" "ParseReplicationRule C raw = Some r"
  shows "applyRepl C key repl pol = pol\<lparr>p_Replicas := rr_Replicas r\<rparr>"
  using assms by (auto simp: applyRepl_def bestOf_def ruleKeys_def split: prod.splits if_splits)

lemma applyEC_frame [simp]: "p_Replicas (applyEC C key ec pol) = p_Replicas pol"
  by (auto simp: applyEC_def Let_def split: option.splits prod.splits)


text \<open>A codec whose rules are one byte, the number of replicas, and rules for \<^verbatim>\<open>/logs\<close> and below.\<close>

definition byteCodec :: ruleCodec where
  "byteCodec = \<lparr>unmarshalRepl = (\<lambda>bs. case bs of [b] \<Rightarrow> Some \<lparr>rr_Replicas = uint b\<rparr> | _ \<Rightarrow> None),
     unmarshalEC = (\<lambda>_. None)\<rparr>"

definition logRules :: "(bytes \<times> bytes) list" where
  "logRules = [(str ''/logs'', [3]), (str ''/logs/app'', [5])]"


definition badRules :: "(bytes \<times> bytes) list" where
  "badRules = [(str ''/logs'', [3]), (str ''/logs/app'', [99])]"

text \<open>
  A rule that does not validate is not passed over in favour of the next one: with a malformed
  rule on \<^verbatim>\<open>/logs/app\<close>, keys below it fall back to the built-in default although the valid
  rule on \<^verbatim>\<open>/logs\<close> governs them too.
\<close>

theorem bad_rule_shadows:
  "ParseReplicationRule byteCodec [99] = None \<and>
   ParseReplicationRule byteCodec [3] = Some \<lparr>rr_Replicas = 3\<rparr> \<and>
   pathGoverns (str ''/logs'') (str ''/logs/app/1'') \<and>
   p_Replicas (ResolvePolicy byteCodec (str ''/logs/app/1'') badRules [] (DefaultPolicy 2)) = 2"
proof -
  have "p_Replicas (ResolvePolicy byteCodec (str ''/logs/app/1'') badRules [] (DefaultPolicy 2)) = 2"
    by code_simp
  moreover have "pathGoverns (str ''/logs'') (str ''/logs/app/1'')" by code_simp
  ultimately show ?thesis by (simp add: ParseReplicationRule_def byteCodec_def)
qed

end
