(* ===== verification/Blob.thy ===== *)
theory Blob
  imports Policy
begin

text \<open>
  The blob engine of one node (\<^verbatim>\<open>pkg/blob\<close>): the content-addressed chunk store, the write
  path with its placement quorum and erasure coding, reads, ranged reads, append, splice and the
  repair helpers. This theory holds the definitions.

  What the code reaches through an interface or a library is a field of the environment
  \<^verbatim>\<open>E\<close>: the files of the chunk directory, the peers, SHA-256 with its resumable state, and
  Reed-Solomon. \<^verbatim>\<open>'w\<close> is the state of disk and peers; an operation that stores chunks returns
  the new one. The six system calls by which \<^verbatim>\<open>Put\<close> installs a file (make the directory,
  create a temporary file, write, sync, close, rename) are one field.

  A stream is the bytes it delivers and the error that ends it, \<open>None\<close> for end of file. A read
  returns the bytes it wrote and the error it ended with. Writers accept what they are given. Sizes
  and offsets are integers; the one sum that can exceed 64 bits, in \<^verbatim>\<open>ReadRange\<close>, wraps.
  Byte counts held in memory do not reach 2^63.
\<close>

section \<open>Data\<close>

datatype bloberr = DiskError | HashMismatch | Corrupt | PeerError | StreamError | NotEnoughReplicas
  | CodingError | Unavailable | Unreadable | UnknownMode | NegativeOffset | SpliceEmpty
  | AppendUnsupported | NoSuchStripe | BadShardIndex | WrongShard | SlicePanic

record Ref =
  ref_Hash :: bytes
  ref_Size :: int
  ref_Nodes :: "u64 list"

record Stripe =
  st_Shards :: "Ref list"
  st_DataLen :: int

record Manifest =
  m_Size :: int
  m_SHA256 :: bytes
  m_Mode :: string
  m_Chunks :: "Ref list"
  m_DataShards :: nat
  m_ParityShards :: nat
  m_Stripes :: "Stripe list"
  m_ContentType :: bytes
  m_HashState :: bytes
  m_Composite :: bool

type_synonym stream = "bytes \<times> bloberr option"
type_synonym path = "bytes \<times> bytes"

record ('w, 'h) blobEnv =
  fs_stat :: "'w \<Rightarrow> path \<Rightarrow> bool"
  fs_read :: "'w \<Rightarrow> path \<Rightarrow> bloberr + bytes"
  fs_install :: "'w \<Rightarrow> path \<Rightarrow> bytes \<Rightarrow> 'w \<times> bloberr option"
  fs_remove :: "'w \<Rightarrow> path \<Rightarrow> 'w"
  fs_list :: "'w \<Rightarrow> bloberr + bytes list"
  activeNodes :: "'w \<Rightarrow> u64 list"
  self :: u64
  pushChunk :: "'w \<Rightarrow> u64 \<Rightarrow> bytes \<Rightarrow> bytes \<Rightarrow> 'w \<times> bloberr option"
  fetchChunk :: "'w \<Rightarrow> u64 \<Rightarrow> bytes \<Rightarrow> bloberr + bytes"
  sha256hex :: "bytes \<Rightarrow> bytes"
  shaNew :: 'h
  shaWrite :: "'h \<Rightarrow> bytes \<Rightarrow> 'h"
  shaSum :: "'h \<Rightarrow> bytes"
  shaMarshal :: "'h \<Rightarrow> bytes"
  shaUnmarshal :: "bytes \<Rightarrow> 'h option"
  rsNew :: "nat \<Rightarrow> nat \<Rightarrow> bool"
  rsEncode :: "nat \<Rightarrow> nat \<Rightarrow> bytes list \<Rightarrow> bytes list option"
  rsReconstruct :: "nat \<Rightarrow> nat \<Rightarrow> bytes option list \<Rightarrow> bytes list option"
  chunkSize :: nat
  replicas :: int
  policies :: "('w \<Rightarrow> bytes \<Rightarrow> Policy \<Rightarrow> Policy) option"

section \<open>The chunk store\<close>

definition path :: "bytes \<Rightarrow> path" where
  "path hash = (if length hash < 2 then (str ''xx'', hash) else (take 2 hash, hash))"

definition csPut :: "('w, 'h) blobEnv \<Rightarrow> 'w \<Rightarrow> bytes \<Rightarrow> bytes \<Rightarrow> 'w \<times> bloberr option" where
  "csPut E w hash data =
     (if sha256hex E data \<noteq> hash then (w, Some HashMismatch)
      else if fs_stat E w (path hash) then (w, None)
      else fs_install E w (path hash) data)"

definition csGet :: "('w, 'h) blobEnv \<Rightarrow> 'w \<Rightarrow> bytes \<Rightarrow> bloberr + bytes" where
  "csGet E w hash = (case fs_read E w (path hash) of
     Inl e \<Rightarrow> Inl e
   | Inr data \<Rightarrow> if sha256hex E data \<noteq> hash then Inl Corrupt else Inr data)"

definition csHas :: "('w, 'h) blobEnv \<Rightarrow> 'w \<Rightarrow> bytes \<Rightarrow> bool" where
  "csHas E w hash = fs_stat E w (path hash)"

definition csDelete :: "('w, 'h) blobEnv \<Rightarrow> 'w \<Rightarrow> bytes \<Rightarrow> 'w" where
  "csDelete E w hash = fs_remove E w (path hash)"

definition Verify :: "('w, 'h) blobEnv \<Rightarrow> 'w \<Rightarrow> bytes \<Rightarrow> bloberr + (bool \<times> int)" where
  "Verify E w hash = (case fs_read E w (path hash) of
     Inl e \<Rightarrow> Inl e
   | Inr data \<Rightarrow> Inr (sha256hex E data = hash, int (length data)))"

section \<open>Placement\<close>

definition PolicyFor :: "('w, 'h) blobEnv \<Rightarrow> 'w \<Rightarrow> bytes \<Rightarrow> Policy" where
  "PolicyFor E w key =
     (let def = DefaultPolicy (replicas E)
      in case policies E of None \<Rightarrow> def | Some src \<Rightarrow> src w key def)"

text \<open>The push loop of \<^verbatim>\<open>storeReplicated\<close>, from the nodes that already hold the chunk.\<close>

fun pushLoop :: "('w, 'h) blobEnv \<Rightarrow> 'w \<Rightarrow> bytes \<Rightarrow> bytes \<Rightarrow> int \<Rightarrow> u64 list \<Rightarrow> u64 list \<Rightarrow> 'w \<times> u64 list" where
  "pushLoop E w hash data want acc [] = (w, acc)"
| "pushLoop E w hash data want acc (n # ns) =
     (if int (length acc) \<ge> want then (w, acc)
      else if n = self E then pushLoop E w hash data want acc ns
      else case pushChunk E w n hash data of
          (w, Some _) \<Rightarrow> pushLoop E w hash data want acc ns
        | (w, None) \<Rightarrow> pushLoop E w hash data want (acc @ [n]) ns)"

definition storeReplicated :: "('w, 'h) blobEnv \<Rightarrow> 'w \<Rightarrow> bytes \<Rightarrow> int \<Rightarrow> 'w \<times> (bloberr + Ref)" where
  "storeReplicated E w data copies =
     (let hash = sha256hex E data;
          nodes = activeNodes E w;
          want = max (min copies (int (length nodes))) 1
      in case csPut E w hash data of
          (w, Some e) \<Rightarrow> (w, Inl e)
        | (w, None) \<Rightarrow> (case pushLoop E w hash data want [self E] nodes of
            (w, holders) \<Rightarrow>
              if int (length holders) < want then (w, Inl NotEnoughReplicas)
              else (w, Inr \<lparr>ref_Hash = hash, ref_Size = int (length data), ref_Nodes = holders\<rparr>)))"

definition tryNode :: "('w, 'h) blobEnv \<Rightarrow> bytes \<Rightarrow> bytes \<Rightarrow> 'w \<Rightarrow> u64 \<Rightarrow> 'w \<times> bool" where
  "tryNode E hash shard w n =
     (case (if n = self E then csPut E w hash shard else pushChunk E w n hash shard) of
        (w, err) \<Rightarrow> (w, err = None))"

text \<open>The first node of a list that takes the shard.\<close>

fun tryNodes :: "('w, 'h) blobEnv \<Rightarrow> bytes \<Rightarrow> bytes \<Rightarrow> 'w \<Rightarrow> u64 list \<Rightarrow> 'w \<times> u64 option" where
  "tryNodes E hash shard w [] = (w, None)"
| "tryNodes E hash shard w (n # ns) = (case tryNode E hash shard w n of
     (w, True) \<Rightarrow> (w, Some n)
   | (w, False) \<Rightarrow> tryNodes E hash shard w ns)"

text \<open>
  \<^verbatim>\<open>placeShard\<close>: the unused nodes in round-robin order from the shard's index; when shards
  may share nodes, all nodes by how many shards they hold. \<^verbatim>\<open>sort.Slice\<close> may order equals
  differently; the results do not rest on that order.
\<close>

definition placeShard ::
  "('w, 'h) blobEnv \<Rightarrow> 'w \<Rightarrow> bytes \<Rightarrow> bytes \<Rightarrow> u64 list \<Rightarrow> nat \<Rightarrow> (u64 \<Rightarrow> nat) \<Rightarrow> bool \<Rightarrow> 'w \<times> u64 option" where
  "placeShard E w hash shard nodes k used spread =
     (let robin = map (\<lambda>i. nodes ! ((k + i) mod length nodes)) [0..<length nodes];
          fresh = filter (\<lambda>n. \<not> used n > 0) robin
      in case tryNodes E hash shard w fresh of
          (w, Some n) \<Rightarrow> (w, Some n)
        | (w, None) \<Rightarrow>
            if spread then (w, None)
            else tryNodes E hash shard w (insertionSort (\<lambda>a b. used a < used b) nodes))"

fun placeShards ::
  "('w, 'h) blobEnv \<Rightarrow> 'w \<Rightarrow> u64 list \<Rightarrow> nat \<Rightarrow> (u64 \<Rightarrow> nat) \<Rightarrow> bool \<Rightarrow> bytes list \<Rightarrow> 'w \<times> (bloberr + Ref list)" where
  "placeShards E w nodes k used spread [] = (w, Inr [])"
| "placeShards E w nodes k used spread (shard # shards) =
     (let hash = sha256hex E shard
      in case placeShard E w hash shard nodes k used spread of
          (w, None) \<Rightarrow> (w, Inl NotEnoughReplicas)
        | (w, Some target) \<Rightarrow>
            (case placeShards E w nodes (k + 1) (used(target := used target + 1)) spread shards of
               (w, Inl e) \<Rightarrow> (w, Inl e)
             | (w, Inr refs) \<Rightarrow>
                 (w, Inr (\<lparr>ref_Hash = hash, ref_Size = int (length shard), ref_Nodes = [target]\<rparr> # refs))))"

text \<open>The shard set of a stripe before encoding: the chunks padded to one size, empty parity.\<close>

definition pad :: "nat \<Rightarrow> bytes \<Rightarrow> bytes" where
  "pad n d = take n d @ replicate (n - length d) 0"

definition shardSize :: "bytes list \<Rightarrow> nat" where
  "shardSize data = foldl (\<lambda>n d. if length d > n then length d else n) 0 data"

definition shardSet :: "bytes list \<Rightarrow> nat \<Rightarrow> nat \<Rightarrow> bytes list" where
  "shardSet data dataShards parityShards =
     map (\<lambda>i. if i < length data then pad (shardSize data) (data ! i) else replicate (shardSize data) 0)
       [0..<dataShards] @
     replicate parityShards (replicate (shardSize data) 0)"

definition storeStripe ::
  "('w, 'h) blobEnv \<Rightarrow> 'w \<Rightarrow> bytes list \<Rightarrow> nat \<Rightarrow> nat \<Rightarrow> u64 list \<Rightarrow> 'w \<times> (bloberr + Stripe)" where
  "storeStripe E w data dataShards parityShards nodes =
     (let dataLen = sum_list (map (\<lambda>d. int (length d)) data);
          shards = shardSet data dataShards parityShards
      in if \<not> rsNew E dataShards parityShards then (w, Inl CodingError)
      else case rsEncode E dataShards parityShards shards of
          None \<Rightarrow> (w, Inl CodingError)
        | Some shards \<Rightarrow>
            (case placeShards E w nodes 0 (\<lambda>_. 0) (length nodes \<ge> length shards) shards of
               (w, Inl e) \<Rightarrow> (w, Inl e)
             | (w, Inr refs) \<Rightarrow> (w, Inr \<lparr>st_Shards = refs, st_DataLen = dataLen\<rparr>)))"

section \<open>Writing\<close>

text \<open>
  The loops over \<^verbatim>\<open>io.ReadFull\<close> cut a stream into chunks of the buffer's size, the last one
  shorter; the loop over stripes cuts the chunks the same way. The configured chunk size and the
  data shards of a policy are positive.
\<close>

function splitEvery :: "nat \<Rightarrow> 'a list \<Rightarrow> 'a list list" where
  "splitEvery n xs = (if xs = [] \<or> n = 0 then [] else take n xs # splitEvery n (drop n xs))"
  by pat_completeness auto
termination by (relation "measure (\<lambda>(n, xs). length xs)") auto

declare splitEvery.simps [simp del]

fun storeChunks :: "('w, 'h) blobEnv \<Rightarrow> 'w \<Rightarrow> int \<Rightarrow> bytes list \<Rightarrow> 'w \<times> (bloberr + Ref list)" where
  "storeChunks E w copies [] = (w, Inr [])"
| "storeChunks E w copies (c # cs) = (case storeReplicated E w c copies of
     (w, Inl e) \<Rightarrow> (w, Inl e)
   | (w, Inr ref) \<Rightarrow> (case storeChunks E w copies cs of
       (w, Inl e) \<Rightarrow> (w, Inl e)
     | (w, Inr refs) \<Rightarrow> (w, Inr (ref # refs))))"

fun storeStripes ::
  "('w, 'h) blobEnv \<Rightarrow> 'w \<Rightarrow> nat \<Rightarrow> nat \<Rightarrow> ('w \<Rightarrow> u64 list) \<Rightarrow> bytes list list \<Rightarrow> 'w \<times> (bloberr + Stripe list)" where
  "storeStripes E w k p nodes [] = (w, Inr [])"
| "storeStripes E w k p nodes (cs # css) = (case storeStripe E w cs k p (nodes w) of
     (w, Inl e) \<Rightarrow> (w, Inl e)
   | (w, Inr s) \<Rightarrow> (case storeStripes E w k p nodes css of
       (w, Inl e) \<Rightarrow> (w, Inl e)
     | (w, Inr ss) \<Rightarrow> (w, Inr (s # ss))))"

definition Write ::
  "('w, 'h) blobEnv \<Rightarrow> 'w \<Rightarrow> bytes \<Rightarrow> stream \<Rightarrow> bytes \<Rightarrow> 'w \<times> (bloberr + Manifest)" where
  "Write E w key r contentType =
     (case r of
        (_, Some e) \<Rightarrow> (w, Inl e)
      | (content, None) \<Rightarrow>
          let chunks = splitEvery (chunkSize E) content;
              whole = foldl (shaWrite E) (shaNew E) chunks;
              m = \<lparr>m_Size = int (length content), m_SHA256 = shaSum E whole, m_Mode = [], m_Chunks = [],
                   m_DataShards = 0, m_ParityShards = 0, m_Stripes = [], m_ContentType = contentType,
                   m_HashState = shaMarshal E whole, m_Composite = False\<rparr>;
              pol = PolicyFor E w key;
              nodes = activeNodes E w
          in if length chunks \<le> 1 \<or> length nodes < 3 \<or> \<not> p_ECEnabled pol then
               (case storeChunks E w (p_Replicas pol) chunks of
                  (w, Inl e) \<Rightarrow> (w, Inl e)
                | (w, Inr refs) \<Rightarrow> (w, Inr (m\<lparr>m_Mode := ''replica'', m_Chunks := refs\<rparr>)))
             else
               (case storeStripes E w (p_DataShards pol) (p_ParityShards pol) (\<lambda>_. nodes)
                       (splitEvery (p_DataShards pol) chunks) of
                  (w, Inl e) \<Rightarrow> (w, Inl e)
                | (w, Inr stripes) \<Rightarrow>
                    (w, Inr (m\<lparr>m_Mode := ''ec'', m_DataShards := p_DataShards pol,
                               m_ParityShards := p_ParityShards pol, m_Stripes := stripes\<rparr>))))"

section \<open>Reading\<close>

fun fetchFrom :: "('w, 'h) blobEnv \<Rightarrow> 'w \<Rightarrow> bytes \<Rightarrow> u64 list \<Rightarrow> bytes option" where
  "fetchFrom E w hash [] = None"
| "fetchFrom E w hash (n # ns) = (case fetchChunk E w n hash of
     Inr data \<Rightarrow> Some data
   | Inl _ \<Rightarrow> fetchFrom E w hash ns)"

definition fetch :: "('w, 'h) blobEnv \<Rightarrow> 'w \<Rightarrow> Ref \<Rightarrow> bloberr + bytes" where
  "fetch E w ref =
     (case (if csHas E w (ref_Hash ref) then csGet E w (ref_Hash ref) else Inl Unavailable) of
        Inr data \<Rightarrow> Inr data
      | Inl _ \<Rightarrow>
          (let recorded = remdups (filter (\<lambda>n. n \<noteq> self E) (ref_Nodes ref));
               others = filter (\<lambda>n. n \<noteq> self E \<and> n \<notin> set (ref_Nodes ref)) (activeNodes E w)
           in case fetchFrom E w (ref_Hash ref) recorded of
                Some data \<Rightarrow> Inr data
              | None \<Rightarrow> (case fetchFrom E w (ref_Hash ref) others of
                  Some data \<Rightarrow> Inr data
                | None \<Rightarrow> Inl Unavailable)))"

definition gather :: "('w, 'h) blobEnv \<Rightarrow> 'w \<Rightarrow> Ref list \<Rightarrow> bytes option list" where
  "gather E w refs = map (\<lambda>ref. case fetch E w ref of Inr data \<Rightarrow> Some data | Inl _ \<Rightarrow> None) refs"

definition available :: "bytes option list \<Rightarrow> nat" where
  "available shards = length (filter (\<lambda>s. s \<noteq> None) shards)"

text \<open>
  \<^verbatim>\<open>readStripe\<close> hands one goSlice to the writer, the first \<^verbatim>\<open>DataLen\<close> bytes of the data
  shards; a goSlice past the buffer panics.
\<close>

definition readStripe :: "('w, 'h) blobEnv \<Rightarrow> 'w \<Rightarrow> nat \<Rightarrow> nat \<Rightarrow> Stripe \<Rightarrow> bloberr + bytes" where
  "readStripe E w dataShards parityShards stripe =
     (let shards = gather E w (st_Shards stripe)
      in if available shards < dataShards then Inl Unreadable
      else case rsReconstruct E dataShards parityShards shards of
          None \<Rightarrow> Inl CodingError
        | Some shards \<Rightarrow>
            let buf = concat (take dataShards shards)
            in if st_DataLen stripe < 0 \<or> int (length buf) < st_DataLen stripe then Inl SlicePanic
               else Inr (take (nat (st_DataLen stripe)) buf))"

fun writeAll :: "('x \<Rightarrow> bloberr + bytes) \<Rightarrow> 'x list \<Rightarrow> stream" where
  "writeAll get [] = ([], None)"
| "writeAll get (x # xs) = (case get x of
     Inl e \<Rightarrow> ([], Some e)
   | Inr data \<Rightarrow> (case writeAll get xs of (out, err) \<Rightarrow> (data @ out, err)))"

definition Read :: "('w, 'h) blobEnv \<Rightarrow> 'w \<Rightarrow> Manifest \<Rightarrow> stream" where
  "Read E w m =
     (if m_Mode m = ''replica'' then writeAll (fetch E w) (m_Chunks m)
      else if m_Mode m = ''ec'' then
        if \<not> rsNew E (m_DataShards m) (m_ParityShards m) then ([], Some CodingError)
        else writeAll (readStripe E w (m_DataShards m) (m_ParityShards m)) (m_Stripes m)
      else ([], Some UnknownMode))"

definition AllRefs :: "Manifest \<Rightarrow> Ref list" where
  "AllRefs m = m_Chunks m @ concat (map st_Shards (m_Stripes m))"

section \<open>Ranged reads\<close>

definition wrap64 :: "int \<Rightarrow> int" where
  "wrap64 x = (x + 2 ^ 63) mod 2 ^ 64 - 2 ^ 63"

definition goSlice :: "int \<Rightarrow> int \<Rightarrow> 'a list \<Rightarrow> 'a list" where
  "goSlice lo hi xs = take (nat hi - nat lo) (drop (nat lo) xs)"

text \<open>The window of one chunk or stripe at \<open>pos\<close> that ends at \<open>next\<close>.\<close>

definition windowLo :: "int \<Rightarrow> int \<Rightarrow> int" where
  "windowLo offset pos = (if offset > pos then offset - pos else 0)"

definition windowHi :: "int \<Rightarrow> int \<Rightarrow> int \<Rightarrow> int" where
  "windowHi end' pos sz = (if end' < pos + sz then end' - pos else sz)"

fun rangeChunks :: "('w, 'h) blobEnv \<Rightarrow> 'w \<Rightarrow> int \<Rightarrow> int \<Rightarrow> int \<Rightarrow> Ref list \<Rightarrow> stream" where
  "rangeChunks E w offset end' pos [] = ([], None)"
| "rangeChunks E w offset end' pos (ref # refs) =
     (let next = pos + ref_Size ref
      in if next \<le> offset then rangeChunks E w offset end' next refs
      else if pos \<ge> end' then ([], None)
      else case fetch E w ref of
          Inl e \<Rightarrow> ([], Some e)
        | Inr data \<Rightarrow>
            let lo = windowLo offset pos; hi = windowHi end' pos (ref_Size ref)
            in if lo > hi \<or> hi > int (length data) then ([], Some SlicePanic)
               else case rangeChunks E w offset end' next refs of
                   (out, err) \<Rightarrow> (goSlice lo hi data @ out, err))"

record sliceWriter =
  sw_pos :: int
  sw_lo :: int
  sw_hi :: int

definition sliceWrite :: "sliceWriter \<Rightarrow> bytes \<Rightarrow> sliceWriter \<times> bytes" where
  "sliceWrite s p =
     (let start = sw_pos s; end' = sw_pos s + int (length p);
          cutLo = max start (sw_lo s); cutHi = min end' (sw_hi s)
      in (s\<lparr>sw_pos := end'\<rparr>, if cutLo \<ge> cutHi then [] else goSlice (cutLo - start) (cutHi - start) p))"

fun rangeStripes :: "('w, 'h) blobEnv \<Rightarrow> 'w \<Rightarrow> nat \<Rightarrow> nat \<Rightarrow> int \<Rightarrow> int \<Rightarrow> int \<Rightarrow> Stripe list \<Rightarrow> stream" where
  "rangeStripes E w k p offset end' pos [] = ([], None)"
| "rangeStripes E w k p offset end' pos (stripe # stripes) =
     (let next = pos + st_DataLen stripe
      in if next \<le> offset then rangeStripes E w k p offset end' next stripes
      else if pos \<ge> end' then ([], None)
      else
        let sw = \<lparr>sw_pos = 0, sw_lo = windowLo offset pos, sw_hi = windowHi end' pos (st_DataLen stripe)\<rparr>
        in case readStripe E w k p stripe of
            Inl e \<Rightarrow> ([], Some e)
          | Inr data \<Rightarrow> (case rangeStripes E w k p offset end' next stripes of
              (out, err) \<Rightarrow> (snd (sliceWrite sw data) @ out, err)))"

definition ReadRange :: "('w, 'h) blobEnv \<Rightarrow> 'w \<Rightarrow> Manifest \<Rightarrow> int \<Rightarrow> int \<Rightarrow> stream" where
  "ReadRange E w m offset len =
     (if offset < 0 then ([], Some NegativeOffset)
      else
        let len = (if len < 0 \<or> wrap64 (offset + len) > m_Size m then wrap64 (m_Size m - offset) else len)
        in if offset \<ge> m_Size m \<or> len \<le> 0 then ([], None)
        else
          let end' = wrap64 (offset + len)
          in if m_Mode m = ''replica'' then rangeChunks E w offset end' 0 (m_Chunks m)
             else if m_Mode m = ''ec'' then
               if \<not> rsNew E (m_DataShards m) (m_ParityShards m) then ([], Some CodingError)
               else rangeStripes E w (m_DataShards m) (m_ParityShards m) offset end' 0 (m_Stripes m)
             else ([], Some UnknownMode))"

section \<open>Append\<close>

definition resumeHash :: "('w, 'h) blobEnv \<Rightarrow> 'w \<Rightarrow> Manifest \<Rightarrow> bloberr + 'h" where
  "resumeHash E w m =
     (let rebuild = (case Read E w m of
          (_, Some e) \<Rightarrow> Inl e
        | (out, None) \<Rightarrow> Inr (shaWrite E (shaNew E) out))
      in if m_HashState m \<noteq> [] then
           (case shaUnmarshal E (m_HashState m) of Some h \<Rightarrow> Inr h | None \<Rightarrow> rebuild)
         else rebuild)"

definition detachTail :: "('w, 'h) blobEnv \<Rightarrow> 'w \<Rightarrow> Manifest \<Rightarrow> bloberr + (Manifest \<times> bytes)" where
  "detachTail E w m =
     (if m_Mode m = ''replica'' then
        if m_Chunks m = [] \<or> ref_Size (last (m_Chunks m)) \<ge> int (chunkSize E) then Inr (m, [])
        else (case fetch E w (last (m_Chunks m)) of
            Inl e \<Rightarrow> Inl e
          | Inr data \<Rightarrow> Inr (m\<lparr>m_Chunks := butlast (m_Chunks m)\<rparr>, data))
      else if m_Mode m = ''ec'' then
        if m_Stripes m = [] \<or> st_DataLen (last (m_Stripes m)) \<ge> int (m_DataShards m) * int (chunkSize E)
        then Inr (m, [])
        else if \<not> rsNew E (m_DataShards m) (m_ParityShards m) then Inl CodingError
        else (case readStripe E w (m_DataShards m) (m_ParityShards m) (last (m_Stripes m)) of
            Inl e \<Rightarrow> Inl e
          | Inr data \<Rightarrow> Inr (m\<lparr>m_Stripes := butlast (m_Stripes m)\<rparr>, data))
      else Inl UnknownMode)"

text \<open>
  The loop that \<^verbatim>\<open>Append\<close> and \<^verbatim>\<open>reencode\<close> share: chunks of a stream go into a
  manifest in its own mode. In EC mode a stripe is stored once its chunks are complete, and the
  incomplete one at the end of the stream; a stream that fails leaves the incomplete one out.
\<close>

definition stripeGroups :: "nat \<Rightarrow> bytes list \<Rightarrow> bytes list list" where
  "stripeGroups k chunks =
     (if k = 0 then if chunks = [] then [] else [chunks] else splitEvery k chunks)"

definition storeStream ::
  "('w, 'h) blobEnv \<Rightarrow> 'w \<Rightarrow> bytes \<Rightarrow> Manifest \<Rightarrow> stream \<Rightarrow> 'w \<times> (bloberr + Manifest)" where
  "storeStream E w key m r =
     (case r of (content, rerr) \<Rightarrow>
        let chunks = splitEvery (chunkSize E) content; pol = PolicyFor E w key
        in if m_Mode m = ''replica'' then
             (case storeChunks E w (p_Replicas pol) chunks of
                (w, Inl e) \<Rightarrow> (w, Inl e)
              | (w, Inr refs) \<Rightarrow> (case rerr of
                  Some e \<Rightarrow> (w, Inl e)
                | None \<Rightarrow> (w, Inr (m\<lparr>m_Chunks := m_Chunks m @ refs\<rparr>))))
           else if m_Mode m = ''ec'' then
             let k = m_DataShards m;
                 groups = stripeGroups k chunks;
                 flushed = (if rerr = None then groups else filter (\<lambda>g. length g = k) groups)
             in (case storeStripes E w k (m_ParityShards m) (activeNodes E) flushed of
                  (w, Inl e) \<Rightarrow> (w, Inl e)
                | (w, Inr stripes) \<Rightarrow> (case rerr of
                    Some e \<Rightarrow> (w, Inl e)
                  | None \<Rightarrow> (w, Inr (m\<lparr>m_Stripes := m_Stripes m @ stripes\<rparr>))))
           else (w, Inl UnknownMode))"

definition Append ::
  "('w, 'h) blobEnv \<Rightarrow> 'w \<Rightarrow> bytes \<Rightarrow> Manifest \<Rightarrow> stream \<Rightarrow> 'w \<times> (bloberr + (Manifest \<times> int))" where
  "Append E w key m r =
     (if m_Composite m then (w, Inl AppendUnsupported)
      else case resumeHash E w m of
        Inl e \<Rightarrow> (w, Inl e)
      | Inr whole \<Rightarrow> (case detachTail E w m of
          Inl e \<Rightarrow> (w, Inl e)
        | Inr (m, tail) \<Rightarrow> (case storeStream E w key m (tail @ fst r, snd r) of
            (w, Inl e) \<Rightarrow> (w, Inl e)
          | (w, Inr m) \<Rightarrow>
              let whole = shaWrite E whole (fst r); n = int (length (fst r))
              in (w, Inr (m\<lparr>m_Size := m_Size m + n, m_SHA256 := shaSum E whole,
                            m_HashState := shaMarshal E whole\<rparr>, n)))))"

section \<open>Splice\<close>

fun splitComma :: "bytes \<Rightarrow> bytes list" where
  "splitComma [] = [[]]"
| "splitComma (b # bs) =
     (if b = of_char CHR '','' then [] # splitComma bs
      else case splitComma bs of [] \<Rightarrow> [[b]] | s # ss \<Rightarrow> (b # s) # ss)"

fun joinComma :: "bytes list \<Rightarrow> bytes" where
  "joinComma [] = []"
| "joinComma [s] = s"
| "joinComma (s # ss) = s @ of_char CHR '','' # joinComma ss"

definition HashComponents :: "Manifest \<Rightarrow> bytes list" where
  "HashComponents m = (if \<not> m_Composite m then [m_SHA256 m] else splitComma (m_SHA256 m))"

definition canConcat :: "Manifest \<Rightarrow> Manifest \<Rightarrow> bool" where
  "canConcat dst src =
     (if m_Mode dst \<noteq> m_Mode src then False
      else m_Mode dst = ''replica'' \<or>
        (m_DataShards dst = m_DataShards src \<and> m_ParityShards dst = m_ParityShards src))"

text \<open>
  \<^verbatim>\<open>reencode\<close> reads the source through a pipe while it stores; stores only add
  content-addressed chunks, and the read is the one of the state it starts from.
\<close>

definition reencode ::
  "('w, 'h) blobEnv \<Rightarrow> 'w \<Rightarrow> bytes \<Rightarrow> Manifest \<Rightarrow> Manifest \<Rightarrow> 'w \<times> (bloberr + Manifest)" where
  "reencode E w dstKey dst src = storeStream E w dstKey dst (Read E w src)"

fun spliceLoop ::
  "('w, 'h) blobEnv \<Rightarrow> 'w \<Rightarrow> bytes \<Rightarrow> Manifest \<Rightarrow> bytes list \<Rightarrow> Manifest list \<Rightarrow>
     'w \<times> (bloberr + (Manifest \<times> bytes list))" where
  "spliceLoop E w dstKey m components [] = (w, Inr (m, components))"
| "spliceLoop E w dstKey m components (src # srcs) =
     (let m = m\<lparr>m_Size := m_Size m + m_Size src\<rparr>; components = components @ HashComponents src
      in if canConcat m src then
           (if m_Mode src = ''replica''
            then spliceLoop E w dstKey (m\<lparr>m_Chunks := m_Chunks m @ m_Chunks src\<rparr>) components srcs
            else spliceLoop E w dstKey (m\<lparr>m_Stripes := m_Stripes m @ m_Stripes src\<rparr>) components srcs)
         else case reencode E w dstKey m src of
             (w, Inl e) \<Rightarrow> (w, Inl e)
           | (w, Inr m) \<Rightarrow> spliceLoop E w dstKey m components srcs)"

definition Splice ::
  "('w, 'h) blobEnv \<Rightarrow> 'w \<Rightarrow> bytes \<Rightarrow> Manifest list \<Rightarrow> bytes \<Rightarrow> 'w \<times> (bloberr + Manifest)" where
  "Splice E w dstKey srcs contentType =
     (if srcs = [] then (w, Inl SpliceEmpty)
      else if list_ex (\<lambda>src. m_Mode src \<noteq> ''replica'' \<and> m_Mode src \<noteq> ''ec'') srcs then (w, Inl UnknownMode)
      else if length srcs = 1 then (w, Inr ((hd srcs)\<lparr>m_ContentType := contentType\<rparr>))
      else
        let m = \<lparr>m_Size = 0, m_SHA256 = [], m_Mode = ''replica'', m_Chunks = [], m_DataShards = 0,
                 m_ParityShards = 0, m_Stripes = [], m_ContentType = contentType, m_HashState = [],
                 m_Composite = True\<rparr>;
            m = (case find (\<lambda>src. m_Mode src = ''ec'') srcs of
                   None \<Rightarrow> m
                 | Some src \<Rightarrow> m\<lparr>m_Mode := ''ec'', m_DataShards := m_DataShards src,
                                  m_ParityShards := m_ParityShards src\<rparr>)
        in case spliceLoop E w dstKey m [] srcs of
            (w, Inl e) \<Rightarrow> (w, Inl e)
          | (w, Inr (m, components)) \<Rightarrow>
              (w, Inr (m\<lparr>m_SHA256 := joinComma components, m_HashState := []\<rparr>)))"

section \<open>Repair\<close>

record ScrubResult =
  sr_Scanned :: nat
  sr_Corrupt :: "bytes list"
  sr_Wrapped :: bool

text \<open>The scrub loop over the chunks after the cursor: what is left of them, and the last one done.\<close>

fun scrubLoop ::
  "('w, 'h) blobEnv \<Rightarrow> 'w \<Rightarrow> nat \<Rightarrow> nat \<Rightarrow> bytes list \<Rightarrow> bytes \<Rightarrow> bytes list \<Rightarrow>
     'w \<times> nat \<times> bytes list \<times> bytes \<times> bytes list" where
  "scrubLoop E w maxChunks scanned corrupt done [] = (w, scanned, corrupt, done, [])"
| "scrubLoop E w maxChunks scanned corrupt done (h # hs) =
     (if scanned \<ge> maxChunks then (w, scanned, corrupt, done, h # hs)
      else case Verify E w h of
          Inl _ \<Rightarrow> scrubLoop E w maxChunks scanned corrupt h hs
        | Inr (ok, _) \<Rightarrow>
            if ok then scrubLoop E w maxChunks (scanned + 1) corrupt h hs
            else scrubLoop E (csDelete E w h) maxChunks (scanned + 1) (corrupt @ [h]) h hs)"

definition ScrubNext ::
  "('w, 'h) blobEnv \<Rightarrow> 'w \<Rightarrow> bytes \<Rightarrow> int \<Rightarrow> 'w \<times> bytes \<times> (bloberr + ScrubResult)" where
  "ScrubNext E w cursor maxChunks =
     (let maxChunks = (if maxChunks \<le> 0 then 64 else nat maxChunks)
      in case fs_list E w of
          Inl e \<Rightarrow> (w, cursor, Inl e)
        | Inr hashes \<Rightarrow>
            (case scrubLoop E w maxChunks 0 [] cursor (filter (\<lambda>h. h > cursor) (sort hashes)) of
               (w, scanned, corrupt, done, rest) \<Rightarrow>
                 (w, if rest = [] then [] else done,
                  Inr \<lparr>sr_Scanned = scanned, sr_Corrupt = corrupt, sr_Wrapped = (rest = [])\<rparr>)))"

definition ReconstructStripeShards ::
  "('w, 'h) blobEnv \<Rightarrow> 'w \<Rightarrow> Manifest \<Rightarrow> int \<Rightarrow> int list \<Rightarrow> bloberr + (int \<times> bytes) list" where
  "ReconstructStripeShards E w m si missing =
     (if m_Mode m \<noteq> ''ec'' \<or> si < 0 \<or> si \<ge> int (length (m_Stripes m)) then Inl NoSuchStripe
      else
        let stripe = m_Stripes m ! nat si; n = length (st_Shards stripe)
        in if list_ex (\<lambda>idx. idx < 0 \<or> idx \<ge> int n) missing then Inl BadShardIndex
        else
          let shards = map (\<lambda>i. if int i \<in> set missing then None else gather E w (st_Shards stripe) ! i) [0..<n]
          in if available shards < m_DataShards m then Inl Unreadable
          else if \<not> rsNew E (m_DataShards m) (m_ParityShards m) then Inl CodingError
          else case rsReconstruct E (m_DataShards m) (m_ParityShards m) shards of
              None \<Rightarrow> Inl CodingError
            | Some full \<Rightarrow>
                if list_ex (\<lambda>idx. sha256hex E (full ! nat idx) \<noteq> ref_Hash (st_Shards stripe ! nat idx)) missing
                then Inl WrongShard
                else Inr (map (\<lambda>idx. (idx, full ! nat idx)) (remdups missing)))"
end
