(* ===== verification/Blob_Content.thy ===== *)
theory Blob_Content
  imports Blob
begin

text \<open>
  What a manifest says: the bytes its chunks or stripes stand for, and that reading returns them.
  The locale \<^verbatim>\<open>blob_env\<close> states what the engine relies on: SHA-256 tells contents apart and
  can be resumed, a peer answers a fetch only with bytes of the requested hash (its handler verifies
  them), Reed-Solomon keeps the data shards and reconstructs the shard set from any \<open>k\<close> of them,
  and policies are executable.
\<close>

section \<open>The interface\<close>

locale blob_env =
  fixes E :: "('w, 'h) blobEnv"
  assumes sha_inject: "sha256hex E a = sha256hex E b \<Longrightarrow> a = b"
    and sha_plain: "of_char CHR '','' \<notin> set (sha256hex E a)"
    and sha_sum: "shaSum E (shaWrite E (shaNew E) a) = sha256hex E a"
    and sha_append: "shaWrite E (shaWrite E h a) b = shaWrite E h (a @ b)"
    and sha_nil: "shaWrite E h [] = h"
    and sha_resume: "shaUnmarshal E (shaMarshal E h) = Some h"
    and fetch_verified: "fetchChunk E w node hash = Inr d \<Longrightarrow> sha256hex E d = hash"
    and rs_pos: "rsNew E k p \<Longrightarrow> 0 < k"
    and rs_encode: "rsNew E k p \<Longrightarrow> length ds = k \<Longrightarrow> (\<And>d. d \<in> set ds \<Longrightarrow> length d = n) \<Longrightarrow> 0 < n \<Longrightarrow>
      \<exists>ps. rsEncode E k p (ds @ replicate p (replicate n 0)) = Some (ds @ ps) \<and> length ps = p"
    and rs_reconstruct: "rsNew E k p \<Longrightarrow> length ds = k \<Longrightarrow> (\<And>d. d \<in> set ds \<Longrightarrow> length d = n) \<Longrightarrow> 0 < n \<Longrightarrow>
      rsEncode E k p (ds @ replicate p (replicate n 0)) = Some full \<Longrightarrow>
      list_all2 (\<lambda>s d. s = None \<or> s = Some d) shards full \<Longrightarrow> k \<le> available shards \<Longrightarrow>
      rsReconstruct E k p shards = Some full"
    and chunk_pos: "0 < chunkSize E"
    and policy_valid: "policy_ok (PolicyFor E w key)"

section \<open>Contents\<close>

definition chunk_of :: "('w, 'h) blobEnv \<Rightarrow> Ref \<Rightarrow> bytes \<Rightarrow> bool" where
  "chunk_of E ref d = (ref_Hash ref = sha256hex E d \<and> ref_Size ref = int (length d))"

text \<open>A stripe stands for a prefix of its data shards, the rest of which is padding.\<close>

definition stripe_of :: "('w, 'h) blobEnv \<Rightarrow> nat \<Rightarrow> nat \<Rightarrow> Stripe \<Rightarrow> bytes \<Rightarrow> bool" where
  "stripe_of E k p st d = (\<exists>ds n full. rsNew E k p \<and> length ds = k \<and> (\<forall>d \<in> set ds. length d = n) \<and> 0 < n \<and>
     rsEncode E k p (ds @ replicate p (replicate n 0)) = Some full \<and>
     list_all2 (chunk_of E) (st_Shards st) full \<and>
     prefix d (concat ds) \<and> st_DataLen st = int (length d))"

definition content :: "('w, 'h) blobEnv \<Rightarrow> Manifest \<Rightarrow> bytes \<Rightarrow> bool" where
  "content E m data =
     (m_Mode m = ''replica'' \<and> (\<exists>ds. list_all2 (chunk_of E) (m_Chunks m) ds \<and> data = concat ds) \<or>
      m_Mode m = ''ec'' \<and> rsNew E (m_DataShards m) (m_ParityShards m) \<and>
        (\<exists>ds. list_all2 (stripe_of E (m_DataShards m) (m_ParityShards m)) (m_Stripes m) ds \<and> data = concat ds))"

definition describes :: "('w, 'h) blobEnv \<Rightarrow> Manifest \<Rightarrow> bytes \<Rightarrow> bool" where
  "describes E m data = (content E m data \<and> m_Size m = int (length data))"

text \<open>Enough of a blob is reachable: every chunk, or as many shards of every stripe as carry data.\<close>

definition readable :: "('w, 'h) blobEnv \<Rightarrow> 'w \<Rightarrow> Manifest \<Rightarrow> bool" where
  "readable E w m =
     (if m_Mode m = ''replica'' then (\<forall>ref \<in> set (m_Chunks m). \<exists>d. fetch E w ref = Inr d)
      else (\<forall>st \<in> set (m_Stripes m). m_DataShards m \<le> available (gather E w (st_Shards st))))"

section \<open>Slices\<close>

lemma slice_append:
  "goSlice lo hi (xs @ ys) = goSlice lo hi xs @ goSlice (lo - int (length xs)) (hi - int (length xs)) ys"
proof -
  have "nat hi - nat lo - (length xs - nat lo) = nat (hi - int (length xs)) - nat (lo - int (length xs))"
    by linarith
  moreover have "nat (lo - int (length xs)) = nat lo - length xs" by linarith
  ultimately show ?thesis by (simp add: goSlice_def)
qed

lemma slice_empty: "hi \<le> lo \<Longrightarrow> goSlice lo hi xs = []" "hi \<le> 0 \<Longrightarrow> goSlice lo hi xs = []"
  "int (length xs) \<le> lo \<Longrightarrow> goSlice lo hi xs = []"
  by (auto simp: goSlice_def)

lemma slice_window:
  assumes "pos < end'" "offset < pos + int (length d)" "offset \<le> end'"
  shows "windowLo offset pos \<le> windowHi end' pos (int (length d))"
    and "windowHi end' pos (int (length d)) \<le> int (length d)"
    and "goSlice (windowLo offset pos) (windowHi end' pos (int (length d))) d = goSlice (offset - pos) (end' - pos) d"
proof -
  show "windowLo offset pos \<le> windowHi end' pos (int (length d))" "windowHi end' pos (int (length d)) \<le> int (length d)"
    using assms by (auto simp: windowLo_def windowHi_def)
  have lo: "nat (windowLo offset pos) = nat (offset - pos)" by (auto simp: windowLo_def)
  show "goSlice (windowLo offset pos) (windowHi end' pos (int (length d))) d = goSlice (offset - pos) (end' - pos) d"
  proof (cases "end' < pos + int (length d)")
    case True
    then show ?thesis using lo by (simp add: goSlice_def windowHi_def)
  next
    case False
    then have "length d - nat (offset - pos) \<le> nat (end' - pos) - nat (offset - pos)" by linarith
    with False lo show ?thesis by (simp add: goSlice_def windowHi_def)
  qed
qed

lemma slice_all: "goSlice 0 (int (length xs)) xs = xs"
  by (simp add: goSlice_def)

section \<open>Reading\<close>

lemma fetchFrom_SomeD: "fetchFrom E w hash ns = Some d \<Longrightarrow> \<exists>n. fetchChunk E w n hash = Inr d"
proof (induction ns)
  case (Cons n ns)
  then show ?case by (cases "fetchChunk E w n hash") auto
qed simp

context blob_env
begin

lemma fetchFrom_hash: "fetchFrom E w hash ns = Some d \<Longrightarrow> sha256hex E d = hash"
  by (drule fetchFrom_SomeD) (auto dest: fetch_verified)

lemma csGet_hash: "csGet E w hash = Inr d \<Longrightarrow> sha256hex E d = hash"
  by (simp add: csGet_def split: sum.splits if_splits)

lemma fetch_cases:
  assumes "fetch E w ref = Inr d"
  obtains "csGet E w (ref_Hash ref) = Inr d" | ns where "fetchFrom E w (ref_Hash ref) ns = Some d"
proof (cases "if csHas E w (ref_Hash ref) then csGet E w (ref_Hash ref) else Inl Unavailable")
  case (Inl e)
  with assms show ?thesis
    by (auto simp: fetch_def Let_def split: option.splits intro: that(2))
next
  case (Inr d')
  with assms have "d' = d" by (simp add: fetch_def)
  with Inr show ?thesis by (intro that(1)) (simp split: if_splits)
qed

lemma fetch_hash: "fetch E w ref = Inr d \<Longrightarrow> sha256hex E d = ref_Hash ref"
  by (erule fetch_cases) (simp_all add: csGet_hash fetchFrom_hash)

lemma fetch_chunk:
  assumes "chunk_of E ref d" "fetch E w ref = Inr d'"
  shows "d' = d"
  by (rule sha_inject) (use fetch_hash [OF assms(2)] assms(1) in \<open>simp add: chunk_of_def\<close>)

lemma gather_shards:
  assumes "list_all2 (chunk_of E) refs full"
  shows "list_all2 (\<lambda>s d. s = None \<or> s = Some d) (gather E w refs) full"
  using assms
  by (auto simp: gather_def list_all2_conv_all_nth dest: fetch_chunk split: sum.splits)

lemma rs_data_shards:
  assumes "rsNew E k p" "length ds = k" "\<forall>d \<in> set ds. length d = n" "0 < n"
    and "rsEncode E k p (ds @ replicate p (replicate n 0)) = Some full"
  shows "take k full = ds" "length full = k + p"
proof -
  from rs_encode [OF assms(1, 2), of n] assms(3, 4) obtain ps
    where "rsEncode E k p (ds @ replicate p (replicate n 0)) = Some (ds @ ps)" "length ps = p" by auto
  with assms(2, 5) show "take k full = ds" "length full = k + p" by auto
qed

text \<open>Any \<open>k\<close> shards of a stripe give its bytes.\<close>

lemma readStripe_eq:
  assumes "stripe_of E k p st d"
  shows "readStripe E w k p st = (if available (gather E w (st_Shards st)) < k then Inl Unreadable else Inr d)"
proof -
  from assms obtain ds n full where st: "rsNew E k p" "length ds = k" "\<forall>d \<in> set ds. length d = n" "0 < n"
      "rsEncode E k p (ds @ replicate p (replicate n 0)) = Some full"
    and refs: "list_all2 (chunk_of E) (st_Shards st) full"
    and d: "prefix d (concat ds)" "st_DataLen st = int (length d)"
    by (auto simp: stripe_of_def)
  have "rsReconstruct E k p (gather E w (st_Shards st)) = Some full"
    if "k \<le> available (gather E w (st_Shards st))"
    using st(3) by (intro rs_reconstruct [OF st(1, 2) _ st(4, 5) gather_shards [OF refs] that]) auto
  moreover from d obtain rest where "concat ds = d @ rest" by (auto simp: prefix_def)
  ultimately show ?thesis
    using d(2) by (auto simp: readStripe_def Let_def rs_data_shards(1) [OF st])
qed

lemma writeAll_eq:
  assumes "list_all2 (\<lambda>x d. get x = Inr d) xs ds"
  shows "writeAll get xs = (concat ds, None)"
  using assms by (induction rule: list_all2_induct) auto

lemma writeAll_sound:
  assumes "writeAll get xs = (out, None)" "list_all2 (\<lambda>x d. \<forall>d'. get x = Inr d' \<longrightarrow> d' = d) xs ds"
  shows "out = concat ds"
  using assms(2, 1)
  by (induction arbitrary: out rule: list_all2_induct) (auto split: sum.splits prod.splits)

lemma list_all2_weaken:
  "list_all2 P xs ys \<Longrightarrow> (\<And>x y. x \<in> set xs \<Longrightarrow> P x y \<Longrightarrow> Q x y) \<Longrightarrow> list_all2 Q xs ys"
  by (auto simp: list_all2_conv_all_nth)

lemma Read_content:
  assumes "content E m data" "readable E w m"
  shows "Read E w m = (data, None)"
  using assms(1) unfolding content_def
proof (elim disjE conjE exE)
  fix ds assume mode: "m_Mode m = ''replica''" and ds: "list_all2 (chunk_of E) (m_Chunks m) ds" "data = concat ds"
  have "list_all2 (\<lambda>ref d. fetch E w ref = Inr d) (m_Chunks m) ds"
    using assms(2) mode by (intro list_all2_weaken [OF ds(1)]) (auto simp: readable_def dest: fetch_chunk)
  with mode ds(2) show ?thesis by (simp add: Read_def writeAll_eq)
next
  fix ds assume mode: "m_Mode m = ''ec''" and rs: "rsNew E (m_DataShards m) (m_ParityShards m)"
    and ds: "list_all2 (stripe_of E (m_DataShards m) (m_ParityShards m)) (m_Stripes m) ds" "data = concat ds"
  have "list_all2 (\<lambda>st d. readStripe E w (m_DataShards m) (m_ParityShards m) st = Inr d) (m_Stripes m) ds"
    using assms(2) mode by (intro list_all2_weaken [OF ds(1)]) (auto simp: readable_def readStripe_eq)
  with mode rs ds(2) show ?thesis by (simp add: Read_def writeAll_eq)
qed

text \<open>A read that ends without an error returned the content, whatever was reachable.\<close>

lemma Read_sound:
  assumes "content E m data" "Read E w m = (out, None)"
  shows "out = data"
  using assms(1) unfolding content_def
proof (elim disjE conjE exE)
  fix ds assume mode: "m_Mode m = ''replica''" and ds: "list_all2 (chunk_of E) (m_Chunks m) ds" "data = concat ds"
  have "list_all2 (\<lambda>ref d. \<forall>d'. fetch E w ref = Inr d' \<longrightarrow> d' = d) (m_Chunks m) ds"
    by (rule list_all2_weaken [OF ds(1)]) (auto dest: fetch_chunk)
  with mode ds(2) assms(2) show ?thesis by (auto simp: Read_def dest: writeAll_sound)
next
  fix ds assume mode: "m_Mode m = ''ec''" and rs: "rsNew E (m_DataShards m) (m_ParityShards m)"
    and ds: "list_all2 (stripe_of E (m_DataShards m) (m_ParityShards m)) (m_Stripes m) ds" "data = concat ds"
  have "list_all2 (\<lambda>st d. \<forall>d'. readStripe E w (m_DataShards m) (m_ParityShards m) st = Inr d' \<longrightarrow> d' = d) (m_Stripes m) ds"
    by (rule list_all2_weaken [OF ds(1)]) (auto simp: readStripe_eq split: if_splits)
  with mode rs ds(2) assms(2) show ?thesis by (auto simp: Read_def dest: writeAll_sound)
qed

section \<open>Ranged reads\<close>

lemma rangeChunks_eq:
  assumes "list_all2 (\<lambda>ref d. ref_Size ref = int (length d) \<and> fetch E w ref = Inr d) refs ds" "offset \<le> end'"
  shows "rangeChunks E w offset end' pos refs = (goSlice (offset - pos) (end' - pos) (concat ds), None)"
  using assms(1)
proof (induction arbitrary: pos rule: list_all2_induct)
  case Nil
  show ?case by (simp add: goSlice_def)
next
  case (Cons ref refs d ds)
  note step = slice_append [of "offset - pos" "end' - pos" d "concat ds"]
  consider "pos + int (length d) \<le> offset" | "offset < pos + int (length d)" "end' \<le> pos"
    | "offset < pos + int (length d)" "pos < end'" by linarith
  then show ?case
  proof cases
    case 1
    then show ?thesis using Cons step by (simp add: Let_def slice_empty diff_diff_eq)
  next
    case 2
    then show ?thesis using Cons by (simp add: Let_def slice_empty)
  next
    case 3
    from slice_window [OF 3(2, 1) assms(2)] 3 Cons step show ?thesis
      by (simp add: Let_def diff_diff_eq)
  qed
qed

lemma sliceWrite_window:
  assumes "0 \<le> lo" "hi \<le> int (length d)"
  shows "snd (sliceWrite \<lparr>sw_pos = 0, sw_lo = lo, sw_hi = hi\<rparr> d) = goSlice lo hi d"
  using assms by (auto simp: sliceWrite_def Let_def slice_empty)

lemma rangeStripes_eq:
  assumes "list_all2 (\<lambda>st d. st_DataLen st = int (length d) \<and> readStripe E w k p st = Inr d) sts ds" "offset \<le> end'"
  shows "rangeStripes E w k p offset end' pos sts = (goSlice (offset - pos) (end' - pos) (concat ds), None)"
  using assms(1)
proof (induction arbitrary: pos rule: list_all2_induct)
  case Nil
  show ?case by (simp add: goSlice_def)
next
  case (Cons st sts d ds)
  note step = slice_append [of "offset - pos" "end' - pos" d "concat ds"]
  consider "pos + int (length d) \<le> offset" | "offset < pos + int (length d)" "end' \<le> pos"
    | "offset < pos + int (length d)" "pos < end'" by linarith
  then show ?case
  proof cases
    case 1
    then show ?thesis using Cons step by (simp add: Let_def slice_empty diff_diff_eq)
  next
    case 2
    then show ?thesis using Cons by (simp add: Let_def slice_empty)
  next
    case 3
    have "0 \<le> windowLo offset pos" by (simp add: windowLo_def)
    with slice_window [OF 3(2, 1) assms(2)] 3 Cons step show ?thesis
      by (simp add: Let_def diff_diff_eq sliceWrite_window)
  qed
qed

end

end
