(* ===== verification/Blob_Write.thy ===== *)
theory Blob_Write
  imports Blob_Content
begin

text \<open>
  What the operations of the blob engine do to contents: a write describes its input, a ranged read
  is a slice, an append and a splice concatenate; and where the chunks lie.
\<close>

section \<open>Ranged reads\<close>

lemma wrap64_id: "- (2 ^ 63) \<le> x \<Longrightarrow> x < 2 ^ 63 \<Longrightarrow> wrap64 x = x"
  by (simp add: wrap64_def)

lemma goSlice_beyond: "int (length xs) \<le> hi \<Longrightarrow> goSlice lo hi xs = goSlice lo (int (length xs)) xs"
  by (simp add: goSlice_def)

context blob_env
begin

lemma chunk_fetched: "fetch E w ref = Inr d' \<Longrightarrow> ref_Hash ref = sha256hex E d \<Longrightarrow> d' = d"
  by (rule sha_inject) (simp add: fetch_hash)

lemma stripe_length: "stripe_of E k p st d \<Longrightarrow> st_DataLen st = int (length d)"
  by (auto simp: stripe_of_def)

lemma range_content:
  assumes "content E m data" "readable E w m" "offset \<le> end'"
  shows "(if m_Mode m = ''replica'' then rangeChunks E w offset end' 0 (m_Chunks m)
     else if m_Mode m = ''ec'' then
       if \<not> rsNew E (m_DataShards m) (m_ParityShards m) then ([], Some CodingError)
       else rangeStripes E w (m_DataShards m) (m_ParityShards m) offset end' 0 (m_Stripes m)
     else ([], Some UnknownMode)) = (goSlice offset end' data, None)"
  using assms(1) unfolding content_def
proof (elim disjE conjE exE)
  fix ds assume mode: "m_Mode m = ''replica''" and ds: "list_all2 (chunk_of E) (m_Chunks m) ds" "data = concat ds"
  have "list_all2 (\<lambda>ref d. ref_Size ref = int (length d) \<and> fetch E w ref = Inr d) (m_Chunks m) ds"
    using assms(2) mode
    by (intro list_all2_weaken [OF ds(1)] conjI) (auto simp: readable_def chunk_of_def dest: chunk_fetched)
  from rangeChunks_eq [OF this assms(3), of 0] mode ds(2) show ?thesis by simp
next
  fix ds assume mode: "m_Mode m = ''ec''" and rs: "rsNew E (m_DataShards m) (m_ParityShards m)"
    and ds: "list_all2 (stripe_of E (m_DataShards m) (m_ParityShards m)) (m_Stripes m) ds" "data = concat ds"
  have "list_all2 (\<lambda>st d. st_DataLen st = int (length d) \<and>
      readStripe E w (m_DataShards m) (m_ParityShards m) st = Inr d) (m_Stripes m) ds"
    using assms(2) mode
    by (intro list_all2_weaken [OF ds(1)]) (auto simp: readable_def readStripe_eq stripe_length)
  from rangeStripes_eq [OF this assms(3), of 0] mode rs ds(2) show ?thesis by simp
qed

lemma ReadRange_content:
  assumes "describes E m data" "readable E w m" "0 \<le> offset" "offset + len < 2 ^ 63"
    and "int (length data) < 2 ^ 63"
  shows "ReadRange E w m offset len =
    (goSlice offset (if len < 0 then int (length data) else offset + len) data, None)"
proof -
  let ?n = "int (length data)"
  define len' where "len' = (if len < 0 \<or> offset + len > ?n then ?n - offset else len)"
  from assms(1) have c: "content E m data" and size: "m_Size m = ?n" by (simp_all add: describes_def)
  have w: "wrap64 (?n - offset) = ?n - offset" if "offset < 2 ^ 63"
    using that assms(3, 5) by (intro wrap64_id) auto
  show ?thesis
  proof (cases "offset < ?n")
    case False
    have "goSlice offset x data = []" for x using False by (intro slice_empty(3)) simp
    with False assms(3) size show ?thesis by (simp add: ReadRange_def Let_def)
  next
    case True
    have off: "offset < 2 ^ 63" using True assms(5) by simp
    have l: "(if len < 0 \<or> wrap64 (offset + len) > m_Size m then wrap64 (m_Size m - offset) else len) = len'"
      using w [OF off] assms(3, 4) by (auto simp: len'_def size wrap64_id)
    have e: "wrap64 (offset + len') = offset + len'"
      using assms True by (intro wrap64_id) (auto simp: len'_def)
    have sl: "goSlice offset (offset + len') data =
        goSlice offset (if len < 0 then ?n else offset + len) data"
      using goSlice_beyond [of data "offset + len" offset] by (auto simp: len'_def)
    have rr: "ReadRange E w m offset len = (if offset \<ge> m_Size m \<or> len' \<le> 0 then ([], None)
       else if m_Mode m = ''replica'' then rangeChunks E w offset (offset + len') 0 (m_Chunks m)
       else if m_Mode m = ''ec'' then
         if \<not> rsNew E (m_DataShards m) (m_ParityShards m) then ([], Some CodingError)
         else rangeStripes E w (m_DataShards m) (m_ParityShards m) offset (offset + len') 0 (m_Stripes m)
       else ([], Some UnknownMode))"
      unfolding ReadRange_def l Let_def e using assms(3) by simp
    show ?thesis
    proof (cases "len' \<le> 0")
      case True
      then have "goSlice offset (offset + len') data = []" by (intro slice_empty(1)) simp
      with True \<open>offset < ?n\<close> assms(3) size sl show ?thesis by (simp add: rr)
    next
      case False
      then have "offset \<le> offset + len'" by simp
      from range_content [OF c assms(2) this] False \<open>offset < ?n\<close> assms(3) size show ?thesis
        unfolding sl [symmetric] by (simp add: rr)
    qed
  qed
qed

end

section \<open>Cutting and padding\<close>

lemma concat_splitEvery: "0 < n \<Longrightarrow> concat (splitEvery n xs) = xs"
proof (induction n xs rule: splitEvery.induct)
  case (1 n xs)
  then show ?case by (subst splitEvery.simps) simp
qed

text \<open>The chunks of a stream: full ones, and a last one that may be short.\<close>

fun tidy :: "nat \<Rightarrow> 'a list list \<Rightarrow> bool" where
  "tidy n [] = True"
| "tidy n [c] = (c \<noteq> [] \<and> length c \<le> n)"
| "tidy n (c # cs) = (c \<noteq> [] \<and> length c = n \<and> tidy n cs)"

lemma tidy_Cons: "tidy n (c # cs) \<longleftrightarrow> c \<noteq> [] \<and> length c \<le> n \<and> (cs \<noteq> [] \<longrightarrow> length c = n) \<and> tidy n cs"
  by (cases cs) auto

lemma tidy_splitEvery: "0 < n \<Longrightarrow> tidy n (splitEvery n xs)"
proof (induction n xs rule: splitEvery.induct)
  case (1 n xs)
  show ?case
  proof (cases "xs = []")
    case True
    then show ?thesis by (simp add: splitEvery.simps)
  next
    case False
    then have eq: "splitEvery n xs = take n xs # splitEvery n (drop n xs)"
      using 1 by (subst splitEvery.simps) simp
    have "length (take n xs) = n" if "splitEvery n (drop n xs) \<noteq> []"
      using that by (subst (asm) splitEvery.simps) (simp split: if_splits)
    with 1 False show ?thesis by (simp add: eq tidy_Cons)
  qed
qed

lemma tidy_take: "tidy n cs \<Longrightarrow> tidy n (take k cs)"
  by (induction cs arbitrary: k) (auto simp: tidy_Cons take_Cons split: nat.splits)

lemma tidy_drop: "tidy n cs \<Longrightarrow> tidy n (drop k cs)"
  by (induction cs arbitrary: k) (auto simp: tidy_Cons drop_Cons split: nat.splits)

lemma groups_splitEvery:
  "tidy n cs \<Longrightarrow> g \<in> set (splitEvery k cs) \<Longrightarrow> g \<noteq> [] \<and> length g \<le> k \<and> tidy n g"
proof (induction k cs rule: splitEvery.induct)
  case (1 k cs)
  show ?case
  proof (cases "cs = [] \<or> k = 0")
    case True
    with 1 show ?thesis by (simp add: splitEvery.simps)
  next
    case False
    then have "splitEvery k cs = take k cs # splitEvery k (drop k cs)" by (subst splitEvery.simps) simp
    with 1 False show ?thesis by (auto simp: tidy_take tidy_drop)
  qed
qed

text \<open>In a tidy group only the last chunk needs padding, so the padding comes after the data.\<close>

lemma shardSize_fold: "foldl (\<lambda>n d. if length d > n then length d else n) m cs = foldl max m (map length cs)"
  by (induction cs arbitrary: m) (auto simp: max_def intro: arg_cong2 [where f = "foldl max"])

lemma tidy_shardSize:
  assumes "tidy n cs" "cs \<noteq> []"
  shows "0 < shardSize cs" "tidy (shardSize cs) cs"
proof -
  have le: "length c \<le> n" if "c \<in> set cs" for c
    using assms(1) that by (induction cs) (auto simp: tidy_Cons)
  have fold: "foldl max m xs = m" if "\<forall>x \<in> set xs. x \<le> m" for m :: nat and xs
    using that by (induction xs) (auto simp: max_def)
  from assms obtain c cs' where cs: "cs = c # cs'" by (cases cs) auto
  have "shardSize cs = length c"
  proof (cases cs')
    case Nil
    then show ?thesis by (simp add: shardSize_def cs)
  next
    case (Cons c2 cs2)
    with assms cs have "length c = n" by (simp add: tidy_Cons)
    with le show ?thesis
      by (simp add: shardSize_def cs shardSize_fold fold)
  qed
  with assms show "0 < shardSize cs" "tidy (shardSize cs) cs"
    by (auto simp: cs tidy_Cons)
qed

lemma map_upt_pad:
  assumes "length xs \<le> k"
  shows "map (\<lambda>i. if i < length xs then f (xs ! i) else z) [0..<k] = map f xs @ replicate (k - length xs) z"
  using assms by (intro nth_equalityI) (auto simp: nth_append)

lemma length_pad [simp]: "length (pad n d) = n"
  by (simp add: pad_def)

lemma prefix_padded: "tidy n cs \<Longrightarrow> prefix (concat cs) (concat (map (pad n) cs) @ rest)"
proof (induction cs)
  case (Cons c cs)
  show ?case
  proof (cases "cs = []")
    case True
    with Cons.prems show ?thesis by (simp add: pad_def)
  next
    case False
    with Cons.prems have "pad n c = c" "tidy n cs" by (auto simp: tidy_Cons pad_def)
    with Cons.IH show ?thesis by simp
  qed
qed simp

section \<open>Storing\<close>

lemma storeReplicated_chunk:
  "storeReplicated E w d c = (w', Inr ref) \<Longrightarrow> chunk_of E ref d"
  by (auto simp: storeReplicated_def chunk_of_def Let_def split: prod.splits option.splits if_splits)

lemma storeChunks_chunks:
  "storeChunks E w c cs = (w', Inr refs) \<Longrightarrow> list_all2 (chunk_of E) refs cs"
  by (induction cs arbitrary: w refs)
    (auto split: prod.splits sum.splits dest: storeReplicated_chunk)

lemma placeShards_chunks:
  "placeShards E w nodes k used spread shards = (w', Inr refs) \<Longrightarrow> list_all2 (chunk_of E) refs shards"
  by (induction shards arbitrary: w k used refs)
    (auto simp: Let_def chunk_of_def split: prod.splits sum.splits option.splits)

lemma storeStripe_cases:
  assumes "storeStripe E w cs k p nodes = (w', Inr st)"
  obtains full where "rsNew E k p" "rsEncode E k p (shardSet cs k p) = Some full"
    "placeShards E w nodes 0 (\<lambda>_. 0) (length full \<le> length nodes) full = (w', Inr (st_Shards st))"
    "st_DataLen st = sum_list (map (\<lambda>d. int (length d)) cs)"
  using assms
  by (auto simp: storeStripe_def Let_def split: if_splits option.splits prod.splits sum.splits)

lemma shardSet_pad:
  assumes "length cs \<le> k"
  shows "shardSet cs k p = (map (pad (shardSize cs)) cs @ replicate (k - length cs) (replicate (shardSize cs) 0)) @
    replicate p (replicate (shardSize cs) 0)"
  using map_upt_pad [OF assms, of "pad (shardSize cs)" "replicate (shardSize cs) 0"] by (simp add: shardSet_def)

lemma sum_list_length: "sum_list (map (\<lambda>d. int (length d)) cs) = int (length (concat cs))"
  by (induction cs) auto

lemma storeStripe_stripe:
  assumes "storeStripe E w cs k p nodes = (w', Inr st)" "tidy n cs" "cs \<noteq> []" "length cs \<le> k"
  shows "stripe_of E k p st (concat cs)"
proof -
  let ?n = "shardSize cs"
  let ?ds = "map (pad ?n) cs @ replicate (k - length cs) (replicate ?n 0)"
  from assms(1) obtain full where full: "rsNew E k p" "rsEncode E k p (shardSet cs k p) = Some full"
    "placeShards E w nodes 0 (\<lambda>_. 0) (length full \<le> length nodes) full = (w', Inr (st_Shards st))"
    "st_DataLen st = sum_list (map (\<lambda>d. int (length d)) cs)"
    by (rule storeStripe_cases)
  have "prefix (concat cs) (concat ?ds)"
    using prefix_padded [OF tidy_shardSize(2) [OF assms(2, 3)]] by simp
  with tidy_shardSize(1) [OF assms(2, 3)] full assms(4) placeShards_chunks [OF full(3)] show ?thesis
    unfolding stripe_of_def
    by (intro exI [of _ ?ds] exI [of _ ?n] exI [of _ full])
      (auto simp: shardSet_pad sum_list_length)
qed

lemma storeStripes_stripes:
  assumes "storeStripes E w k p nodes gs = (w', Inr sts)"
    and "\<And>g. g \<in> set gs \<Longrightarrow> g \<noteq> [] \<and> length g \<le> k \<and> tidy n g"
  shows "list_all2 (stripe_of E k p) sts (map concat gs)"
  using assms
proof (induction gs arbitrary: w sts)
  case (Cons g gs)
  from Cons.prems(1) obtain w1 st sts' where st: "storeStripe E w g k p (nodes w) = (w1, Inr st)"
    and rest: "storeStripes E w1 k p nodes gs = (w', Inr sts')" and sts: "sts = st # sts'"
    by (auto split: prod.splits sum.splits)
  from Cons.prems(2) [of g] storeStripe_stripe [OF st] have "stripe_of E k p st (concat g)" by auto
  with Cons.IH [OF rest] Cons.prems(2) sts show ?case by auto
qed simp

lemma content_append_chunks:
  "content E m d \<Longrightarrow> m_Mode m = ''replica'' \<Longrightarrow> list_all2 (chunk_of E) refs cs \<Longrightarrow>
   content E (m\<lparr>m_Chunks := m_Chunks m @ refs\<rparr>) (d @ concat cs)"
  by (force simp: content_def dest: list_all2_appendI [of _ _ _ refs cs])

lemma content_append_stripes:
  "content E m d \<Longrightarrow> m_Mode m = ''ec'' \<Longrightarrow> list_all2 (stripe_of E (m_DataShards m) (m_ParityShards m)) sts ds \<Longrightarrow>
   content E (m\<lparr>m_Stripes := m_Stripes m @ sts\<rparr>) (d @ concat ds)"
  by (force simp: content_def dest: list_all2_appendI [of _ _ _ sts ds])

lemma concat_map_concat: "concat (map concat xss) = concat (concat xss)"
  by (induction xss) auto

lemma concat_map_concat_splitEvery: "0 < k \<Longrightarrow> concat (map concat (splitEvery k cs)) = concat cs"
  using arg_cong [OF concat_splitEvery, of k concat cs] by (simp add: concat_map_concat)

context blob_env
begin

lemma foldl_shaWrite: "foldl (shaWrite E) h cs = shaWrite E h (concat cs)"
  by (induction cs arbitrary: h) (simp_all add: sha_nil sha_append)

text \<open>A manifest that a write returns describes the bytes written, with their hash and its midstate.\<close>

lemma Write_describes:
  assumes "Write E w key (data, None) ct = (w', Inr m)"
  shows "describes E m data \<and> m_SHA256 m = sha256hex E data \<and> \<not> m_Composite m \<and>
    m_HashState m = shaMarshal E (shaWrite E (shaNew E) data)"
proof -
  let ?cs = "splitEvery (chunkSize E) data"
  let ?pol = "PolicyFor E w key"
  have cs: "concat ?cs = data" "tidy (chunkSize E) ?cs"
    by (simp_all add: concat_splitEvery tidy_splitEvery chunk_pos)
  have k: "0 < p_DataShards ?pol" using policy_valid [of w key] by (simp add: policy_ok_def)
  have whole: "foldl (shaWrite E) (shaNew E) ?cs = shaWrite E (shaNew E) data"
    by (simp add: foldl_shaWrite cs)
  show ?thesis
  proof (cases "length ?cs \<le> 1 \<or> length (activeNodes E w) < 3 \<or> \<not> p_ECEnabled ?pol")
    case True
    with assms obtain refs where "storeChunks E w (p_Replicas ?pol) ?cs = (w', Inr refs)"
      and m: "m_Mode m = ''replica''" "m_Chunks m = refs" "m_Size m = int (length data)"
        "m_SHA256 m = shaSum E (shaWrite E (shaNew E) data)" "\<not> m_Composite m"
        "m_HashState m = shaMarshal E (shaWrite E (shaNew E) data)"
      by (auto simp: Write_def Let_def whole split: prod.splits sum.splits)
    then show ?thesis
      using storeChunks_chunks cs(1) by (fastforce simp: describes_def content_def sha_sum)
  next
    case False
    with assms obtain sts where st: "storeStripes E w (p_DataShards ?pol) (p_ParityShards ?pol)
        (\<lambda>_. activeNodes E w) (splitEvery (p_DataShards ?pol) ?cs) = (w', Inr sts)"
      and m: "m_Mode m = ''ec''" "m_Stripes m = sts" "m_DataShards m = p_DataShards ?pol"
        "m_ParityShards m = p_ParityShards ?pol" "m_Size m = int (length data)"
        "m_SHA256 m = shaSum E (shaWrite E (shaNew E) data)" "\<not> m_Composite m"
        "m_HashState m = shaMarshal E (shaWrite E (shaNew E) data)"
      by (auto simp: Write_def Let_def whole split: prod.splits sum.splits)
    have sts: "list_all2 (stripe_of E (m_DataShards m) (m_ParityShards m)) (m_Stripes m)
        (map concat (splitEvery (p_DataShards ?pol) ?cs))"
      unfolding m by (rule storeStripes_stripes [OF st]) (rule groups_splitEvery [OF cs(2)])
    have "?cs \<noteq> []" using False by auto
    then have ne: "splitEvery (p_DataShards ?pol) ?cs \<noteq> []" using k by (subst splitEvery.simps) simp
    have "rsNew E (m_DataShards m) (m_ParityShards m)"
      using sts ne by (cases "m_Stripes m") (auto simp: stripe_of_def list_all2_Cons1)
    with sts m k show ?thesis
      by (auto simp: describes_def content_def sha_sum concat_map_concat_splitEvery cs)
  qed
qed

end
lemma length_splitEvery: "length xs \<le> k * n \<Longrightarrow> 0 < n \<Longrightarrow> length (splitEvery n xs) \<le> k"
proof (induction n xs arbitrary: k rule: splitEvery.induct)
  case (1 n xs)
  show ?case
  proof (cases "xs = []")
    case True
    then show ?thesis by (simp add: splitEvery.simps)
  next
    case False
    with 1 obtain k' where k: "k = Suc k'" by (cases k) auto
    have "splitEvery n xs = take n xs # splitEvery n (drop n xs)"
      using False 1 by (subst splitEvery.simps) simp
    with 1 False k show ?thesis by simp
  qed
qed

end
