(* ===== verification/Blob_Grow.thy ===== *)
theory Blob_Grow
  imports Blob_Write
begin

text \<open>Append and splice: the contents they produce, and the composite hash of a spliced blob.\<close>

section \<open>Storing a stream into a manifest\<close>

text \<open>Two manifests that differ in their chunk maps only.\<close>

definition same_header :: "Manifest \<Rightarrow> Manifest \<Rightarrow> bool" where
  "same_header m m' = (m' = m\<lparr>m_Chunks := m_Chunks m', m_Stripes := m_Stripes m'\<rparr>)"

lemma same_headerD:
  assumes "same_header m m'"
  shows "m_Size m' = m_Size m" "m_SHA256 m' = m_SHA256 m" "m_Mode m' = m_Mode m"
    "m_DataShards m' = m_DataShards m" "m_ParityShards m' = m_ParityShards m"
    "m_ContentType m' = m_ContentType m" "m_HashState m' = m_HashState m" "m_Composite m' = m_Composite m"
  using assms unfolding same_header_def by (metis Manifest.select_convs Manifest.update_convs Manifest.surjective)+

lemma content_mode: "content E m d \<Longrightarrow> m_Mode m = ''replica'' \<or> m_Mode m = ''ec'' \<and> rsNew E (m_DataShards m) (m_ParityShards m)"
  by (auto simp: content_def)

lemma content_cong:
  assumes "m_Mode m' = m_Mode m" "m_Chunks m' = m_Chunks m" "m_Stripes m' = m_Stripes m"
    "m_DataShards m' = m_DataShards m" "m_ParityShards m' = m_ParityShards m"
  shows "content E m' d = content E m d"
  using assms by (simp add: content_def)

text \<open>The hash state of a manifest, when it can be decoded, is that of its content.\<close>

definition hash_faithful :: "('w, 'h) blobEnv \<Rightarrow> Manifest \<Rightarrow> bytes \<Rightarrow> bool" where
  "hash_faithful E m d = (m_HashState m \<noteq> [] \<longrightarrow>
     (\<forall>h. shaUnmarshal E (m_HashState m) = Some h \<longrightarrow> h = shaWrite E (shaNew E) d))"

context blob_env
begin

lemma storeStream_content:
  assumes "content E m d" "storeStream E w key m (src, None) = (w', Inr m')"
  shows "content E m' (d @ src) \<and> same_header m m'"
proof -
  let ?cs = "splitEvery (chunkSize E) src"
  have cs: "concat ?cs = src" "tidy (chunkSize E) ?cs"
    by (simp_all add: concat_splitEvery tidy_splitEvery chunk_pos)
  from content_mode [OF assms(1)] show ?thesis
  proof (elim disjE conjE)
    assume mode: "m_Mode m = ''replica''"
    with assms(2) obtain refs where refs: "storeChunks E w (p_Replicas (PolicyFor E w key)) ?cs = (w', Inr refs)"
      and m': "m' = m\<lparr>m_Chunks := m_Chunks m @ refs\<rparr>"
      by (auto simp: storeStream_def Let_def split: prod.splits sum.splits)
    from content_append_chunks [OF assms(1) mode storeChunks_chunks [OF refs]] show ?thesis
      by (simp add: m' cs same_header_def)
  next
    let ?k = "m_DataShards m"
    assume mode: "m_Mode m = ''ec''" and rs: "rsNew E ?k (m_ParityShards m)"
    have k: "0 < ?k" by (rule rs_pos [OF rs])
    from mode assms(2) k obtain sts
      where sts: "storeStripes E w ?k (m_ParityShards m) (activeNodes E) (splitEvery ?k ?cs) = (w', Inr sts)"
      and m': "m' = m\<lparr>m_Stripes := m_Stripes m @ sts\<rparr>"
      by (auto simp: storeStream_def stripeGroups_def Let_def split: prod.splits sum.splits)
    have "list_all2 (stripe_of E ?k (m_ParityShards m)) sts (map concat (splitEvery ?k ?cs))"
      by (rule storeStripes_stripes [OF sts]) (rule groups_splitEvery [OF cs(2)])
    from content_append_stripes [OF assms(1) mode this] show ?thesis
      by (simp add: m' cs concat_map_concat_splitEvery [OF k] same_header_def)
  qed
qed

section \<open>Append\<close>

lemma list_all2_last:
  assumes "list_all2 P xs ds" "xs \<noteq> []"
  obtains ds' d where "ds = ds' @ [d]" "list_all2 P (butlast xs) ds'" "P (last xs) d"
proof -
  from assms(2) obtain ys y where xs: "xs = ys @ [y]" by (cases xs rule: rev_cases) auto
  with assms(1) obtain ds' d where "ds = ds' @ [d]" "list_all2 P ys ds'" "P y d"
    by (auto simp: list_all2_append1 list_all2_Cons1)
  with xs show ?thesis by (intro that) auto
qed

lemma detachTail_content:
  assumes "content E m d" "detachTail E w m = Inr (m', tail)"
  shows "\<exists>d'. content E m' d' \<and> d = d' @ tail \<and> same_header m m'"
proof -
  have keep: ?thesis if "m' = m" "tail = []"
    using that assms(1) by (auto simp: same_header_def)
  from assms(1) [unfolded content_def] show ?thesis
  proof (elim disjE conjE exE)
    fix ds assume mode: "m_Mode m = ''replica''" and ds: "list_all2 (chunk_of E) (m_Chunks m) ds" "d = concat ds"
    show ?thesis
    proof (cases "m_Chunks m = [] \<or> ref_Size (last (m_Chunks m)) \<ge> int (chunkSize E)")
      case True
      with mode assms(2) have "m' = m" "tail = []" by (auto simp: detachTail_def)
      then show ?thesis by (rule keep)
    next
      case False
      with ds(1) obtain ds' x where *: "ds = ds' @ [x]" "list_all2 (chunk_of E) (butlast (m_Chunks m)) ds'"
        "chunk_of E (last (m_Chunks m)) x" by (auto elim: list_all2_last)
      from False mode assms(2) have "fetch E w (last (m_Chunks m)) = Inr tail"
        and m': "m' = m\<lparr>m_Chunks := butlast (m_Chunks m)\<rparr>"
        by (auto simp: detachTail_def split: sum.splits if_splits)
      then have "tail = x" by (intro fetch_chunk [OF *(3)])
      with * mode ds(2) m' show ?thesis
        by (intro exI [of _ "concat ds'"]) (auto simp: content_def same_header_def)
    qed
  next
    let ?k = "m_DataShards m" and ?p = "m_ParityShards m"
    fix ds assume mode: "m_Mode m = ''ec''" and rs: "rsNew E ?k ?p"
      and ds: "list_all2 (stripe_of E ?k ?p) (m_Stripes m) ds" "d = concat ds"
    show ?thesis
    proof (cases "m_Stripes m = [] \<or> st_DataLen (last (m_Stripes m)) \<ge> int ?k * int (chunkSize E)")
      case True
      with mode assms(2) have "m' = m" "tail = []" by (auto simp: detachTail_def)
      then show ?thesis by (rule keep)
    next
      case False
      with ds(1) obtain ds' x where *: "ds = ds' @ [x]" "list_all2 (stripe_of E ?k ?p) (butlast (m_Stripes m)) ds'"
        "stripe_of E ?k ?p (last (m_Stripes m)) x" by (auto elim: list_all2_last)
      from False mode rs assms(2) have "readStripe E w ?k ?p (last (m_Stripes m)) = Inr tail"
        and m': "m' = m\<lparr>m_Stripes := butlast (m_Stripes m)\<rparr>"
        by (auto simp: detachTail_def split: sum.splits if_splits)
      then have "tail = x" by (simp add: readStripe_eq [OF *(3)] split: if_splits)
      with * mode rs ds(2) m' show ?thesis
        by (intro exI [of _ "concat ds'"]) (auto simp: content_def same_header_def)
    qed
  qed
qed

lemma resumeHash_eq:
  assumes "content E m d" "hash_faithful E m d" "resumeHash E w m = Inr h"
  shows "h = shaWrite E (shaNew E) d"
  using assms(2, 3) Read_sound [OF assms(1)]
  by (auto simp: resumeHash_def hash_faithful_def Let_def split: if_splits option.splits prod.splits)

lemma Append_cases:
  assumes "Append E w key m r = (w', Inr (m', n))"
  obtains h m1 tail m2 where "\<not> m_Composite m" "resumeHash E w m = Inr h"
    "detachTail E w m = Inr (m1, tail)" "storeStream E w key m1 (tail @ fst r, snd r) = (w', Inr m2)"
    "m' = m2\<lparr>m_Size := m_Size m2 + int (length (fst r)), m_SHA256 := shaSum E (shaWrite E h (fst r)),
       m_HashState := shaMarshal E (shaWrite E h (fst r))\<rparr>" "n = int (length (fst r))"
proof -
  from assms have comp: "\<not> m_Composite m" by (auto simp: Append_def)
  with assms obtain h where h: "resumeHash E w m = Inr h" by (cases "resumeHash E w m") (simp_all add: Append_def)
  with comp assms obtain m1 tail where t: "detachTail E w m = Inr (m1, tail)"
    by (cases "detachTail E w m") (auto simp: Append_def)
  obtain w2 res where "storeStream E w key m1 (tail @ fst r, snd r) = (w2, res)" by fastforce
  with comp h t assms show ?thesis
    by (cases res) (auto simp: Append_def Let_def intro!: that)
qed

lemma Append_describes:
  assumes "describes E m old" "hash_faithful E m old" "Append E w key m (new, None) = (w', Inr (m', n))"
  shows "describes E m' (old @ new) \<and> n = int (length new) \<and> m_SHA256 m' = sha256hex E (old @ new) \<and>
    \<not> m_Composite m' \<and> m_HashState m' = shaMarshal E (shaWrite E (shaNew E) (old @ new))"
proof -
  from assms(1) have c: "content E m old" and size: "m_Size m = int (length old)" by (simp_all add: describes_def)
  from assms(3) obtain h m1 tail m2 where comp: "\<not> m_Composite m" and h: "resumeHash E w m = Inr h"
    and tail: "detachTail E w m = Inr (m1, tail)"
    and store: "storeStream E w key m1 (tail @ new, None) = (w', Inr m2)"
    and m': "m' = m2\<lparr>m_Size := m_Size m2 + int (length new), m_SHA256 := shaSum E (shaWrite E h new),
      m_HashState := shaMarshal E (shaWrite E h new)\<rparr>" "n = int (length new)"
    by (rule Append_cases) (auto intro!: that)
  from detachTail_content [OF c tail] obtain d' where d': "content E m1 d'" "old = d' @ tail" "same_header m m1"
    by blast
  from storeStream_content [OF d'(1) store] have m2: "content E m2 (d' @ tail @ new)" "same_header m1 m2" by auto
  have h': "shaWrite E h new = shaWrite E (shaNew E) (old @ new)"
    by (simp add: resumeHash_eq [OF c assms(2) h] sha_append)
  have "content E m' (old @ new)"
    using m2(1) d'(2) content_cong [of m' m2 E "old @ new"] by (simp add: m')
  with same_headerD [OF d'(3)] same_headerD [OF m2(2)] size comp show ?thesis
    by (simp add: describes_def m' h' sha_sum)
qed

end

section \<open>Splice\<close>

lemma storeStream_error: "storeStream E w key m (src, Some e) \<noteq> (w', Inr m')"
  by (auto simp: storeStream_def Let_def split: prod.splits sum.splits)

lemma splitComma_not_Nil [simp]: "splitComma bs \<noteq> []"
  by (induction bs) (auto split: list.splits)

lemma splitComma_plain: "of_char CHR '','' \<notin> set s \<Longrightarrow> splitComma s = [s]"
  by (induction s) auto

lemma splitComma_append:
  "of_char CHR '','' \<notin> set s \<Longrightarrow> splitComma (s @ of_char CHR '','' # bs) = s # splitComma bs"
  by (induction s) auto

lemma splitComma_joinComma:
  "ss \<noteq> [] \<Longrightarrow> (\<And>s. s \<in> set ss \<Longrightarrow> of_char CHR '','' \<notin> set s) \<Longrightarrow> splitComma (joinComma ss) = ss"
  by (induction ss rule: joinComma.induct) (simp_all add: splitComma_plain [simplified] splitComma_append [simplified])

lemma splitComma_elems: "s \<in> set (splitComma bs) \<Longrightarrow> of_char CHR '','' \<notin> set s"
  by (induction bs arbitrary: s) (auto split: if_splits list.splits)

lemma HashComponents_not_Nil [simp]: "HashComponents m \<noteq> []"
  by (simp add: HashComponents_def)

text \<open>A source of a splice: its manifest describes its bytes, and its hash field is well-formed.\<close>

definition spliceable :: "('w, 'h) blobEnv \<Rightarrow> Manifest \<Rightarrow> bytes \<Rightarrow> bool" where
  "spliceable E m d = (describes E m d \<and> (\<not> m_Composite m \<longrightarrow> m_SHA256 m = sha256hex E d))"

definition spliceHead :: "Manifest \<Rightarrow> Manifest \<Rightarrow> Manifest" where
  "spliceHead m src = m\<lparr>m_Size := m_Size m + m_Size src\<rparr>"

context blob_env
begin

lemma spliceable_components: "spliceable E m d \<Longrightarrow> s \<in> set (HashComponents m) \<Longrightarrow> of_char CHR '','' \<notin> set s"
  using sha_plain by (auto simp: spliceable_def HashComponents_def dest: splitComma_elems split: if_splits)

text \<open>One source joins the manifest: by reference or re-encoded, its bytes come last.\<close>

lemma join_content:
  assumes "content E m d" "describes E src s" "canConcat m src"
  shows "content E (if m_Mode src = ''replica'' then m\<lparr>m_Chunks := m_Chunks m @ m_Chunks src\<rparr>
    else m\<lparr>m_Stripes := m_Stripes m @ m_Stripes src\<rparr>) (d @ s)"
proof -
  from assms(2) have "content E src s" by (simp add: describes_def)
  then show ?thesis unfolding content_def [of E src]
  proof (elim disjE conjE exE)
    fix ds assume "m_Mode src = ''replica''" "list_all2 (chunk_of E) (m_Chunks src) ds" "s = concat ds"
    moreover from this assms(3) have "m_Mode m = ''replica''" by (simp add: canConcat_def split: if_splits)
    ultimately show ?thesis using content_append_chunks [OF assms(1)] by simp
  next
    fix ds assume *: "m_Mode src = ''ec''" "s = concat ds"
      "list_all2 (stripe_of E (m_DataShards src) (m_ParityShards src)) (m_Stripes src) ds"
    with assms(3) have "m_Mode m = ''ec''" "m_DataShards m = m_DataShards src" "m_ParityShards m = m_ParityShards src"
      by (simp_all add: canConcat_def split: if_splits)
    with * show ?thesis using content_append_stripes [OF assms(1)] by simp
  qed
qed

lemma spliceLoop_content:
  assumes "list_all2 (spliceable E) srcs ds" "content E m d"
    and "spliceLoop E w key m comps srcs = (w', Inr (m', comps'))"
  shows "content E m' (d @ concat ds) \<and> m_Size m' = m_Size m + int (length (concat ds)) \<and>
    comps' = comps @ concat (map HashComponents srcs) \<and> m_Composite m' = m_Composite m \<and>
    m_ContentType m' = m_ContentType m"
  using assms
proof (induction arbitrary: w m d comps rule: list_all2_induct)
  case Nil
  then show ?case by simp
next
  case (Cons src srcs s ds)
  let ?m = "spliceHead m src" and ?comps = "comps @ HashComponents src"
  have src: "describes E src s" using Cons.hyps by (simp add: spliceable_def)
  have size: "m_Size ?m = m_Size m + int (length s)" using src by (simp add: spliceHead_def describes_def)
  have m: "content E ?m d" using Cons.prems(1) content_cong [of ?m m E d] by (simp add: spliceHead_def)
  let ?joined = "if m_Mode src = ''replica'' then ?m\<lparr>m_Chunks := m_Chunks ?m @ m_Chunks src\<rparr>
    else ?m\<lparr>m_Stripes := m_Stripes ?m @ m_Stripes src\<rparr>"
  obtain w2 m2 where m2: "content E m2 (d @ s)" "m_Size m2 = m_Size ?m" "m_Composite m2 = m_Composite ?m"
      "m_ContentType m2 = m_ContentType ?m"
    and rest: "spliceLoop E w2 key m2 ?comps srcs = (w', Inr (m', comps'))"
  proof (cases "canConcat ?m src")
    case True
    from Cons.prems(2) True have "spliceLoop E w key ?joined ?comps srcs = (w', Inr (m', comps'))"
      by (simp add: Let_def spliceHead_def split: if_splits)
    with join_content [OF m src True] show ?thesis by (intro that [of ?joined]) auto
  next
    case False
    obtain w2 res where re: "reencode E w key ?m src = (w2, res)" by fastforce
    with Cons.prems(2) False obtain m2 where res: "res = Inr m2"
      and loop: "spliceLoop E w2 key m2 ?comps srcs = (w', Inr (m', comps'))"
      by (cases res) (auto simp: Let_def spliceHead_def)
    obtain out err where read: "Read E w src = (out, err)" by fastforce
    with re res have "err = None" by (cases err) (auto simp: reencode_def storeStream_error)
    with read src have out: "Read E w src = (s, None)" by (auto simp: describes_def dest: Read_sound)
    from storeStream_content [OF m] re res have "content E m2 (d @ s)" "same_header ?m m2"
      by (auto simp: reencode_def out)
    with same_headerD [of ?m m2] loop show ?thesis by (intro that) auto
  qed
  from Cons.IH [OF m2(1) rest] show ?case
    by (simp add: m2 size) (simp add: spliceHead_def)
qed

lemma Splice_describes:
  assumes "list_all2 (spliceable E) srcs ds" "Splice E w key srcs ct = (w', Inr m)"
  shows "describes E m (concat ds) \<and> HashComponents m = concat (map HashComponents srcs) \<and> m_ContentType m = ct"
proof (cases srcs)
  case Nil
  with assms(2) show ?thesis by (simp add: Splice_def)
next
  case (Cons src rest)
  have modes: "\<not> list_ex (\<lambda>src. m_Mode src \<noteq> ''replica'' \<and> m_Mode src \<noteq> ''ec'') srcs"
    using assms(2) by (auto simp: Splice_def split: if_splits)
  show ?thesis
  proof (cases "rest = []")
    case True
    with assms Cons modes obtain d where d: "ds = [d]" "spliceable E src d" "m = src\<lparr>m_ContentType := ct\<rparr>"
      by (auto simp: Splice_def list_all2_Cons1)
    moreover have "content E m d = content E src d" using d(3) by (intro content_cong) simp_all
    ultimately show ?thesis
      by (simp add: Cons True describes_def spliceable_def HashComponents_def)
  next
    case False
    define m0 where "m0 = (let m = \<lparr>m_Size = 0, m_SHA256 = [], m_Mode = ''replica'', m_Chunks = [], m_DataShards = 0,
        m_ParityShards = 0, m_Stripes = [], m_ContentType = ct, m_HashState = [], m_Composite = True\<rparr>
      in case find (\<lambda>src. m_Mode src = ''ec'') srcs of
          None \<Rightarrow> m
        | Some src \<Rightarrow> m\<lparr>m_Mode := ''ec'', m_DataShards := m_DataShards src, m_ParityShards := m_ParityShards src\<rparr>)"
    have all: "\<exists>d. spliceable E src d" if "src \<in> set srcs" for src
      using assms(1) that by (auto simp: list_all2_conv_all_nth in_set_conv_nth)
    have rs: "rsNew E (m_DataShards s) (m_ParityShards s)"
      if "find (\<lambda>src. m_Mode src = ''ec'') srcs = Some s" for s
    proof -
      from that have "s \<in> set srcs" "m_Mode s = ''ec''" by (auto simp: find_Some_iff)
      with all [of s] show ?thesis by (auto simp: content_def spliceable_def describes_def)
    qed
    have m0: "content E m0 []" "m_Size m0 = 0" "m_Composite m0" "m_ContentType m0 = ct"
      using rs by (auto simp: m0_def Let_def content_def split: option.splits)
    have ne: "(srcs = []) = False" "(length srcs = 1) = False"
        "list_ex (\<lambda>src. m_Mode src \<noteq> ''replica'' \<and> m_Mode src \<noteq> ''ec'') srcs = False"
      using Cons False modes by simp_all
    have "Splice E w key srcs ct = (case spliceLoop E w key m0 [] srcs of
        (w, Inl e) \<Rightarrow> (w, Inl e)
      | (w, Inr (m, components)) \<Rightarrow> (w, Inr (m\<lparr>m_SHA256 := joinComma components, m_HashState := []\<rparr>)))"
      unfolding Splice_def m0_def Let_def ne if_False by (rule refl)
    with assms(2) obtain m1 comps where loop: "spliceLoop E w key m0 [] srcs = (w', Inr (m1, comps))"
      and m: "m = m1\<lparr>m_SHA256 := joinComma comps, m_HashState := []\<rparr>"
      by (auto split: prod.splits sum.splits)
    note res = spliceLoop_content [OF assms(1) m0(1) loop]
    have "content E m (concat ds)"
      using res content_cong [of m m1 E "concat ds"] by (simp add: m)
    moreover have "splitComma (joinComma comps) = comps"
    proof (rule splitComma_joinComma)
      show "comps \<noteq> []" using res Cons by auto
      show "of_char CHR '','' \<notin> set s" if "s \<in> set comps" for s
      proof -
        from that res obtain x where x: "x \<in> set srcs" "s \<in> set (HashComponents x)" by auto
        from all [OF x(1)] obtain d where "spliceable E x d" ..
        then show ?thesis using x(2) by (rule spliceable_components)
      qed
    qed
    ultimately show ?thesis
      using res m0 by (simp add: describes_def HashComponents_def m)
  qed
qed

end
end
