(* ===== verification/Blob_Repair.thy ===== *)
theory Blob_Repair
  imports Blob_Write
begin

text \<open>
  Where chunks lie and how they are kept: the placement quorum, the failures a stripe survives, the
  reconstruction of lost shards, and the scrub.
\<close>

section \<open>Replicas\<close>

lemma pushLoop_holders:
  assumes "pushLoop E w hash data want acc ns = (w', acc')" "distinct acc" "distinct ns"
    "self E \<in> set acc" "set ns \<inter> set acc \<subseteq> {self E}" "int (length acc) \<le> want"
  shows "distinct acc' \<and> self E \<in> set acc' \<and> set acc' \<subseteq> set acc \<union> set ns \<and> int (length acc') \<le> want"
  using assms
proof (induction ns arbitrary: w acc)
  case (Cons n ns)
  show ?case
  proof (cases "int (length acc) \<ge> want \<or> n = self E")
    case True
    with Cons show ?thesis by (fastforce split: if_splits)
  next
    case False
    obtain w1 err where push: "pushChunk E w n hash data = (w1, err)" by fastforce
    show ?thesis
    proof (cases err)
      case None
      with push False Cons.prems(1) have "pushLoop E w1 hash data want (acc @ [n]) ns = (w', acc')" by simp
      from Cons.IH [OF this] False Cons.prems show ?thesis by auto
    next
      case (Some e)
      with push False Cons.prems(1) have "pushLoop E w1 hash data want acc ns = (w', acc')" by simp
      from Cons.IH [OF this] False Cons.prems show ?thesis by auto
    qed
  qed
qed simp

lemma storeReplicated_quorum:
  assumes "storeReplicated E w d copies = (w', Inr ref)" "distinct (activeNodes E w)"
  shows "distinct (ref_Nodes ref) \<and> self E \<in> set (ref_Nodes ref) \<and>
    set (ref_Nodes ref) \<subseteq> insert (self E) (set (activeNodes E w)) \<and>
    int (length (ref_Nodes ref)) = max (min copies (int (length (activeNodes E w)))) 1"
proof -
  let ?want = "max (min copies (int (length (activeNodes E w)))) 1"
  obtain w1 err where put: "csPut E w (sha256hex E d) d = (w1, err)" by fastforce
  obtain w2 holders where push: "pushLoop E w1 (sha256hex E d) d ?want [self E] (activeNodes E w) = (w2, holders)"
    by fastforce
  from assms(1) put push have "ref_Nodes ref = holders" "\<not> int (length holders) < ?want"
    by (cases err; auto simp: storeReplicated_def Let_def split: if_splits)+
  with pushLoop_holders [OF push] assms(2) show ?thesis by auto
qed

section \<open>Stripes\<close>

lemma tryNodes_Some: "tryNodes E hash shard w ns = (w', Some n) \<Longrightarrow> n \<in> set ns"
  by (induction ns arbitrary: w) (auto split: prod.splits bool.splits)

lemma placeShard_fresh:
  assumes "placeShard E w hash shard nodes k used True = (w', Some n)"
  shows "n \<in> set nodes" "used n = 0"
proof -
  let ?robin = "map (\<lambda>i. nodes ! ((k + i) mod length nodes)) [0..<length nodes]"
  from assms have "tryNodes E hash shard w (filter (\<lambda>n. \<not> used n > 0) ?robin) = (w', Some n)"
    by (auto simp: placeShard_def Let_def split: prod.splits option.splits)
  then have "n \<in> set ?robin" "\<not> used n > 0" by (auto dest: tryNodes_Some)
  then obtain i where "i < length nodes" "n = nodes ! ((k + i) mod length nodes)" and u: "used n = 0" by auto
  then show "n \<in> set nodes" by (metis mod_less_divisor not_less_zero nth_mem neq0_conv)
  show "used n = 0" by (rule u)
qed

lemma placeShards_spread:
  assumes "placeShards E w nodes k used True shards = (w', Inr refs)"
  obtains ts where "map ref_Nodes refs = map (\<lambda>t. [t]) ts" "distinct ts" "set ts \<subseteq> set nodes"
    "\<forall>t \<in> set ts. used t = 0"
  using assms
proof (induction shards arbitrary: w k used refs thesis)
  case Nil
  then show ?case by auto
next
  case (Cons shard shards)
  from Cons.prems(2) obtain w1 t refs' where t: "placeShard E w (sha256hex E shard) shard nodes k used True = (w1, Some t)"
    and rest: "placeShards E w1 nodes (k + 1) (used(t := used t + 1)) True shards = (w', Inr refs')"
    and refs: "refs = \<lparr>ref_Hash = sha256hex E shard, ref_Size = int (length shard), ref_Nodes = [t]\<rparr> # refs'"
    by (auto simp: Let_def split: prod.splits sum.splits option.splits)
  from Cons.IH [OF _ rest] obtain ts where ts: "map ref_Nodes refs' = map (\<lambda>t. [t]) ts" "distinct ts"
    "set ts \<subseteq> set nodes" "\<forall>t' \<in> set ts. (used(t := used t + 1)) t' = 0" by blast
  from ts(4) have fresh: "t \<notin> set ts" by fastforce
  show ?case
  proof (rule Cons.prems(1))
    show "map ref_Nodes refs = map (\<lambda>t. [t]) (t # ts)" using ts(1) by (simp add: refs)
    show "distinct (t # ts)" using ts(2) fresh by simp
    show "set (t # ts) \<subseteq> set nodes" using ts(3) placeShard_fresh(1) [OF t] by simp
    show "\<forall>t' \<in> set (t # ts). used t' = 0"
      using ts(4) fresh placeShard_fresh(2) [OF t] by (auto split: if_splits)
  qed
qed

text \<open>How many shards lie outside a set of nodes.\<close>

lemma spread_survivors:
  assumes "map ref_Nodes refs = map (\<lambda>t. [t]) ts" "distinct ts" "finite F"
  shows "length refs - card F \<le> length (filter (\<lambda>ref. set (ref_Nodes ref) \<inter> F = {}) refs)"
proof -
  have "length (filter (\<lambda>ref. set (ref_Nodes ref) \<inter> F = {}) refs) =
      length (filter (\<lambda>ns. set ns \<inter> F = {}) (map ref_Nodes refs))"
    by (simp add: filter_map comp_def)
  also have "\<dots> = length (filter (\<lambda>t. t \<notin> F) ts)"
    unfolding assms(1) by (simp add: filter_map comp_def)
  finally have "length (filter (\<lambda>ref. set (ref_Nodes ref) \<inter> F = {}) refs) = length (filter (\<lambda>t. t \<notin> F) ts)" .
  moreover have "length (filter (\<lambda>t. t \<in> F) ts) \<le> card F"
    using assms(2, 3) by (auto simp: distinct_card [symmetric] intro!: card_mono)
  moreover have "length (filter (\<lambda>t. t \<in> F) ts) + length (filter (\<lambda>t. t \<notin> F) ts) = length ts"
    by (rule sum_length_filter_compl)
  moreover have "length refs = length ts" using arg_cong [OF assms(1), of length] by simp
  ultimately show ?thesis by linarith
qed

lemma available_gather:
  "available (gather E w refs) = length (filter (\<lambda>ref. \<exists>d. fetch E w ref = Inr d) refs)"
  by (induction refs) (auto simp: available_def gather_def split: sum.splits)

lemma length_filter_mono: "(\<And>x. x \<in> set xs \<Longrightarrow> P x \<Longrightarrow> Q x) \<Longrightarrow> length (filter P xs) \<le> length (filter Q xs)"
  by (induction xs) auto

context blob_env
begin

lemma stripe_length_shards: "stripe_of E k p st d \<Longrightarrow> length (st_Shards st) = k + p"
  unfolding stripe_of_def by (auto dest!: list_all2_lengthD dest: rs_data_shards(2))

lemma stripe_survives_failures:
  assumes "storeStripe E w cs k p nodes = (w', Inr st)" "tidy n cs" "cs \<noteq> []" "length cs \<le> k"
    and "k + p \<le> length nodes" "finite F" "card F \<le> p"
    and "\<And>ref. ref \<in> set (st_Shards st) \<Longrightarrow> set (ref_Nodes ref) \<inter> F = {} \<Longrightarrow> \<exists>d. fetch E v ref = Inr d"
  shows "readStripe E v k p st = Inr (concat cs)"
proof -
  have st: "stripe_of E k p st (concat cs)" by (rule storeStripe_stripe [OF assms(1-4)])
  from assms(1) obtain full
    where place: "placeShards E w nodes 0 (\<lambda>_. 0) (length full \<le> length nodes) full = (w', Inr (st_Shards st))"
    by (rule storeStripe_cases)
  have len: "length (st_Shards st) = k + p" by (rule stripe_length_shards [OF st])
  with placeShards_chunks [OF place] assms(5) have "length full \<le> length nodes" by (simp add: list_all2_lengthD)
  with place obtain ts where "map ref_Nodes (st_Shards st) = map (\<lambda>t. [t]) ts" "distinct ts"
    by (auto elim: placeShards_spread)
  from spread_survivors [OF this assms(6)] len assms(7)
  have "k \<le> length (filter (\<lambda>ref. set (ref_Nodes ref) \<inter> F = {}) (st_Shards st))" by linarith
  also have "\<dots> \<le> available (gather E v (st_Shards st))"
    unfolding available_gather using assms(8) by (intro length_filter_mono) auto
  finally show ?thesis by (simp add: readStripe_eq [OF st])
qed

section \<open>Reconstruction\<close>

lemma ReconstructStripeShards_ok:
  assumes "content E m data" "m_Mode m = ''ec''" "0 \<le> si" "si < int (length (m_Stripes m))"
    and "\<forall>idx \<in> set missing. 0 \<le> idx \<and> idx < int (length (st_Shards (m_Stripes m ! nat si)))"
    and "m_DataShards m \<le> available (map (\<lambda>i. if int i \<in> set missing then None
          else gather E w (st_Shards (m_Stripes m ! nat si)) ! i) [0..<length (st_Shards (m_Stripes m ! nat si))])"
  shows "\<exists>out. ReconstructStripeShards E w m si missing = Inr out \<and> map fst out = remdups missing \<and>
    (\<forall>(idx, d) \<in> set out. chunk_of E (st_Shards (m_Stripes m ! nat si) ! nat idx) d)"
proof -
  let ?st = "m_Stripes m ! nat si" and ?k = "m_DataShards m" and ?p = "m_ParityShards m"
  let ?masked = "map (\<lambda>i. if int i \<in> set missing then None else gather E w (st_Shards ?st) ! i) [0..<length (st_Shards ?st)]"
  from assms(1, 2) obtain ds where "list_all2 (stripe_of E ?k ?p) (m_Stripes m) ds" and rs: "rsNew E ?k ?p"
    by (auto simp: content_def)
  from list_all2_nthD [OF this(1), of "nat si"] assms(3, 4) have "stripe_of E ?k ?p ?st (ds ! nat si)"
    by (simp add: nat_less_iff)
  then obtain ds n full where st: "rsNew E ?k ?p" "length ds = ?k" "\<forall>d \<in> set ds. length d = n" "0 < n"
      "rsEncode E ?k ?p (ds @ replicate ?p (replicate n 0)) = Some full"
    and refs: "list_all2 (chunk_of E) (st_Shards ?st) full"
    by (auto simp: stripe_of_def)
  have len: "length (st_Shards ?st) = length full" using refs by (rule list_all2_lengthD)
  have "list_all2 (\<lambda>s d. s = None \<or> s = Some d) ?masked full"
    using gather_shards [OF refs, of w] by (auto simp: list_all2_conv_all_nth len)
  with st assms(6) have rec: "rsReconstruct E ?k ?p ?masked = Some full"
    by (intro rs_reconstruct [OF st(1, 2) _ st(4, 5)]) auto
  have hash: "ref_Hash (st_Shards ?st ! nat idx) = sha256hex E (full ! nat idx)" and
    chunk: "chunk_of E (st_Shards ?st ! nat idx) (full ! nat idx)" if "idx \<in> set missing" for idx
    using refs assms(5) that by (auto simp: list_all2_conv_all_nth chunk_of_def)
  have no_bad: "\<not> list_ex (\<lambda>idx. idx < 0 \<or> idx \<ge> int (length (st_Shards ?st))) missing"
    "\<not> list_ex (\<lambda>idx. sha256hex E (full ! nat idx) \<noteq> ref_Hash (st_Shards ?st ! nat idx)) missing"
    using assms(5) hash by (auto simp: list_ex_iff)
  have "ReconstructStripeShards E w m si missing = Inr (map (\<lambda>idx. (idx, full ! nat idx)) (remdups missing))"
    unfolding ReconstructStripeShards_def Let_def using assms(2-4, 6) rs no_bad by (simp add: rec)
  with chunk show ?thesis by (auto simp: comp_def)
qed

end

section \<open>Scrub\<close>

text \<open>What the scrub relies on from the file system: removing a file removes this file.\<close>

locale chunk_disk =
  fixes E :: "('w, 'h) blobEnv"
  assumes read_remove: "fs_read E (fs_remove E w p) q = (if q = p then Inl DiskError else fs_read E w q)"

definition corrupt :: "('w, 'h) blobEnv \<Rightarrow> 'w \<Rightarrow> bytes \<Rightarrow> bool" where
  "corrupt E w h = (\<exists>d. fs_read E w (path h) = Inr d \<and> sha256hex E d \<noteq> h)"

lemma path_inject [simp]: "path h = path h' \<longleftrightarrow> h = h'"
  by (auto simp: path_def split: if_splits)

context chunk_disk
begin

lemma scrubLoop_spec:
  assumes "scrubLoop E w mx sc corr last0 hs = (w', sc', corr', last', rest)" "distinct hs"
  shows "\<exists>done. hs = done @ rest \<and> corr' = corr @ filter (corrupt E w) done \<and>
    last' = (if done = [] then last0 else last done) \<and>
    (sc < mx \<and> hs \<noteq> [] \<longrightarrow> done \<noteq> []) \<and>
    (\<forall>h. fs_read E w' (path h) = (if h \<in> set done \<and> corrupt E w h then Inl DiskError else fs_read E w (path h)))"
  using assms
proof (induction hs arbitrary: w sc corr last0)
  case Nil
  then show ?case by (intro exI [of _ "[]"]) simp
next
  case (Cons h hs)
  show ?case
  proof (cases "sc \<ge> mx")
    case True
    with Cons.prems show ?thesis by (intro exI [of _ "[]"]) auto
  next
    case False
    have step: ?thesis if loop: "scrubLoop E w1 mx sc1 (corr @ (if corrupt E w h then [h] else [])) h hs = (w', sc', corr', last', rest)"
      and w1: "\<And>x. fs_read E w1 (path x) = (if x = h \<and> corrupt E w h then Inl DiskError else fs_read E w (path x))" for w1 sc1
    proof -
      have same: "corrupt E w1 x = corrupt E w x" if "x \<noteq> h" for x using that by (simp add: corrupt_def w1)
      from Cons.IH [OF loop] Cons.prems(2) obtain dn where dn: "hs = dn @ rest"
        "corr' = (corr @ (if corrupt E w h then [h] else [])) @ filter (corrupt E w1) dn"
        "last' = (if dn = [] then h else last dn)"
        "\<forall>x. fs_read E w' (path x) = (if x \<in> set dn \<and> corrupt E w1 x then Inl DiskError else fs_read E w1 (path x))"
        by auto
      have h: "h \<notin> set dn" using Cons.prems(2) dn(1) by auto
      have "filter (corrupt E w1) dn = filter (corrupt E w) dn"
        by (intro filter_cong refl same) (use h in auto)
      moreover have "corrupt E w1 x = corrupt E w x" if "x \<in> set dn" for x
        using that h by (intro same) auto
      then have "fs_read E w' (path x) = (if x \<in> set (h # dn) \<and> corrupt E w x then Inl DiskError else fs_read E w (path x))" for x
        using dn(4) w1 [of x] h by auto
      ultimately show ?thesis using dn(1-3) by (intro exI [of _ "h # dn"]) auto
    qed
    show ?thesis
    proof (cases "fs_read E w (path h)")
      case (Inl e)
      with False Cons.prems(1) show ?thesis
        by (intro step [of w sc]) (auto simp: Verify_def corrupt_def)
    next
      case (Inr d)
      show ?thesis
      proof (cases "sha256hex E d = h")
        case True
        with Inr False Cons.prems(1) show ?thesis
          by (intro step [of w "sc + 1"]) (auto simp: Verify_def corrupt_def)
      next
        case bad: False
        with Inr have "corrupt E w h" by (simp add: corrupt_def)
        with bad Inr False Cons.prems(1) show ?thesis
          by (intro step [of "csDelete E w h" "sc + 1"]) (auto simp: Verify_def csDelete_def read_remove)
      qed
    qed
  qed
qed

end

end
