(* ===== verification/Blob_Ref.thy ===== *)
theory Blob_Ref
  imports Blob_Grow Blob_Repair
begin

text \<open>
  A concrete environment of the blob engine, on which the engine runs: files and peers are
  association lists, the content address is an escaping of the bytes themselves, and the erasure
  code is the one with a single parity shard, the exclusive or of the data shards. It discharges the
  laws of \<^verbatim>\<open>blob_env\<close> and \<^verbatim>\<open>chunk_disk\<close>.
\<close>

section \<open>Exclusive or\<close>

definition vx :: "bytes \<Rightarrow> bytes \<Rightarrow> bytes" where
  "vx a b = map2 (XOR) a b"

definition parity :: "nat \<Rightarrow> bytes list \<Rightarrow> bytes" where
  "parity n ds = foldr vx ds (replicate n 0)"

lemma length_vx [simp]: "length (vx a b) = min (length a) (length b)"
  by (simp add: vx_def)

lemma vx_nth [simp]: "i < length a \<Longrightarrow> i < length b \<Longrightarrow> vx a b ! i = a ! i XOR b ! i"
  by (simp add: vx_def)

lemma length_parity [simp]: "(\<And>d. d \<in> set ds \<Longrightarrow> length d = n) \<Longrightarrow> length (parity n ds) = n"
  by (induction ds) (auto simp: parity_def)

lemma parity_Cons: "parity n (d # ds) = vx d (parity n ds)"
  by (simp add: parity_def)

lemma vx_left_commute:
  "length a = n \<Longrightarrow> length b = n \<Longrightarrow> length c = n \<Longrightarrow> vx a (vx b c) = vx b (vx a c)"
  by (rule nth_equalityI) (auto simp: xor.left_commute)

lemma vx_cancel: "length a = n \<Longrightarrow> length b = n \<Longrightarrow> vx a (vx a b) = b"
  by (rule nth_equalityI) (auto simp: xor.assoc [symmetric])

lemma parity_insert:
  assumes "\<And>d. d \<in> set (as @ x # bs) \<Longrightarrow> length d = n"
  shows "parity n (as @ x # bs) = vx x (parity n (as @ bs))"
  using assms
proof (induction as)
  case Nil
  show ?case by (simp add: parity_Cons)
next
  case (Cons a as)
  have "length (parity n (as @ bs)) = n" using Cons.prems by (intro length_parity) auto
  with Cons show ?case
    using vx_left_commute [of a n x "parity n (as @ bs)"] by (simp add: parity_Cons)
qed

lemma vx_zero: "length a = n \<Longrightarrow> vx a (replicate n 0) = a"
  by (rule nth_equalityI) auto

lemma vx_self: "length a = n \<Longrightarrow> vx a a = replicate n 0"
  by (rule nth_equalityI) auto

text \<open>A shard is the exclusive or of the others.\<close>

lemma parity_missing:
  assumes "\<And>d. d \<in> set ds \<Longrightarrow> length d = n" "ds @ [parity n ds] = as @ x # bs"
  shows "parity n (as @ bs) = x"
proof -
  have len: "length d = n" if "d \<in> set (as @ x # bs)" for d
    using that assms(1) unfolding assms(2) [symmetric] by auto
  have "parity n (ds @ [parity n ds]) = vx (parity n ds) (parity n ds)"
    using parity_insert [of ds "parity n ds" "[]" n] assms(1) length_parity [OF assms(1)] by fastforce
  then have "vx x (parity n (as @ bs)) = replicate n 0"
    using parity_insert [OF len] assms(1) by (simp add: assms(2) vx_self)
  then have "vx x (vx x (parity n (as @ bs))) = x" using len by (simp add: vx_zero)
  moreover have "length (parity n (as @ bs)) = n" using len by (intro length_parity) auto
  ultimately show ?thesis using vx_cancel [of x n] len by simp
qed

definition xorEncode :: "nat \<Rightarrow> nat \<Rightarrow> bytes list \<Rightarrow> bytes list option" where
  "xorEncode k p shards = (case shards of
     [] \<Rightarrow> None
   | s # _ \<Rightarrow> Some (take k shards @ [parity (length s) (take k shards)]))"

definition xorReconstruct :: "nat \<Rightarrow> nat \<Rightarrow> bytes option list \<Rightarrow> bytes list option" where
  "xorReconstruct k p shards =
     (let present = List.map_filter id shards
      in if length present < k then None
         else Some (map (\<lambda>s. case s of Some d \<Rightarrow> d | None \<Rightarrow> parity (length (hd present)) present) shards))"

lemma xorEncode_eq:
  "length ds = k \<Longrightarrow> 0 < k \<Longrightarrow> (\<And>d. d \<in> set ds \<Longrightarrow> length d = n) \<Longrightarrow>
   xorEncode k p (ds @ zs) = Some (ds @ [parity n ds])"
  by (cases ds) (auto simp: xorEncode_def)

lemma map_filter_Some [simp]: "List.map_filter id (map Some xs) = xs"
  by (induction xs) (auto simp: map_filter_simps)

lemma map_filter_append: "List.map_filter f (xs @ ys) = List.map_filter f xs @ List.map_filter f ys"
  by (induction xs) (auto simp: map_filter_simps split: option.splits)

lemma available_map_filter: "available xs = length (List.map_filter id xs)"
  by (induction xs) (auto simp: available_def map_filter_simps split: option.splits)

lemma all_present:
  "list_all2 (\<lambda>s d. s = None \<or> s = Some d) shards full \<Longrightarrow> None \<notin> set shards \<Longrightarrow> shards = map Some full"
  by (induction rule: list_all2_induct) auto

lemma one_missing:
  assumes "list_all2 (\<lambda>s d. s = None \<or> s = Some d) shards full" "length full = Suc k" "k \<le> available shards"
    and "None \<in> set shards"
  obtains as x bs where "full = as @ x # bs" "shards = map Some as @ None # map Some bs"
proof -
  from assms(4) obtain sa sb where s: "shards = sa @ None # sb" "None \<notin> set sa"
    by (meson split_list_first)
  from assms(1) obtain as x bs where f: "full = as @ x # bs" "list_all2 (\<lambda>s d. s = None \<or> s = Some d) sa as"
    "list_all2 (\<lambda>s d. s = None \<or> s = Some d) sb bs"
    by (auto simp: s(1) list_all2_append1 list_all2_Cons1)
  have "available shards = available sa + available sb" by (simp add: s(1) available_def)
  moreover have "available sa \<le> length sa" "available sb \<le> length sb" by (simp_all add: available_def)
  moreover have "length sa + length sb = k"
    using assms(2) f list_all2_lengthD [OF f(2)] list_all2_lengthD [OF f(3)] by simp
  ultimately have "available sb = length sb" using assms(3) by linarith
  then have "None \<notin> set sb" by (auto simp: available_def filter_id_conv length_filter_conv_card
        dest: length_filter_less [of _ _ "\<lambda>s. s \<noteq> None"])
  with all_present [OF f(2) s(2)] all_present [OF f(3)] f(1) s(1) show ?thesis by (intro that) auto
qed

lemma xorReconstruct_eq:
  assumes "length ds = k" "0 < k" "\<And>d. d \<in> set ds \<Longrightarrow> length d = n"
    and "list_all2 (\<lambda>s d. s = None \<or> s = Some d) shards (ds @ [parity n ds])" "k \<le> available shards"
  shows "xorReconstruct k p shards = Some (ds @ [parity n ds])"
proof (cases "None \<in> set shards")
  case False
  with all_present [OF assms(4)] have sh: "shards = map Some (ds @ [parity n ds])" by blast
  show ?thesis using assms(1) unfolding sh xorReconstruct_def map_filter_Some by (simp add: comp_def)
next
  case True
  with one_missing [OF assms(4) _ assms(5)] assms(1) obtain as x bs
    where f: "ds @ [parity n ds] = as @ x # bs" and sh: "shards = map Some as @ None # map Some bs" by auto
  have present: "List.map_filter id shards = as @ bs" by (simp add: sh map_filter_append map_filter_simps)
  have len: "length d = n" if "d \<in> set (as @ bs)" for d
  proof -
    from that f have "d \<in> set (ds @ [parity n ds])" by auto
    with assms(3) show ?thesis by auto
  qed
  have "length (as @ bs) = k" using arg_cong [OF f, of length] assms(1) by simp
  moreover from this assms(2) have "as @ bs \<noteq> []" by auto
  then have "length (hd (as @ bs)) = n" by (intro len hd_in_set)
  ultimately show ?thesis
    using parity_missing [OF assms(3) f]
    by (simp add: xorReconstruct_def present Let_def) (simp add: sh f comp_def)
qed

section \<open>The environment\<close>

definition refHash :: "bytes \<Rightarrow> bytes" where
  "refHash d = concat (map (\<lambda>b. if b = 44 then [1, 0] else [0, b]) d)"

lemma refHash_inject: "refHash a = refHash b \<Longrightarrow> a = b"
proof (induction a arbitrary: b)
  case Nil
  then show ?case by (cases b) (auto simp: refHash_def split: if_splits)
next
  case (Cons x a)
  then show ?case by (cases b) (auto simp: refHash_def split: if_splits)
qed

lemma refHash_plain: "44 \<notin> set (refHash d)"
  by (induction d) (auto simp: refHash_def)

record refWorld =
  rw_files :: "(path \<times> bytes) list"
  rw_peers :: "((u64 \<times> bytes) \<times> bytes) list"
  rw_down :: "u64 list"

definition refBlob :: "nat \<Rightarrow> (refWorld, bytes) blobEnv" where
  "refBlob cs = \<lparr>
     fs_stat = (\<lambda>w p. map_of (rw_files w) p \<noteq> None),
     fs_read = (\<lambda>w p. case map_of (rw_files w) p of Some d \<Rightarrow> Inr d | None \<Rightarrow> Inl DiskError),
     fs_install = (\<lambda>w p d. (w\<lparr>rw_files := AList.update p d (rw_files w)\<rparr>, None)),
     fs_remove = (\<lambda>w p. w\<lparr>rw_files := AList.delete p (rw_files w)\<rparr>),
     fs_list = (\<lambda>w. Inr (remdups (map (snd \<circ> fst) (rw_files w)))),
     activeNodes = (\<lambda>w. filter (\<lambda>n. n \<notin> set (rw_down w)) [1, 2, 3]),
     self = 1,
     pushChunk = (\<lambda>w n h d. if n \<in> set (rw_down w) then (w, Some PeerError)
        else (w\<lparr>rw_peers := AList.update (n, h) d (rw_peers w)\<rparr>, None)),
     fetchChunk = (\<lambda>w n h. if n \<in> set (rw_down w) then Inl PeerError
        else case map_of (rw_peers w) (n, h) of
            None \<Rightarrow> Inl PeerError
          | Some d \<Rightarrow> if refHash d = h then Inr d else Inl Corrupt),
     sha256hex = refHash, shaNew = [], shaWrite = (@), shaSum = refHash,
     shaMarshal = (\<lambda>h. 1 # h), shaUnmarshal = (\<lambda>b. case b of [] \<Rightarrow> None | _ # h \<Rightarrow> Some h),
     rsNew = (\<lambda>k p. 0 < k \<and> p = 1), rsEncode = xorEncode, rsReconstruct = xorReconstruct,
     chunkSize = Suc cs, replicas = 2,
     policies = Some (\<lambda>w key def. def\<lparr>p_DataShards := 2, p_ParityShards := 1\<rparr>)\<rparr>"

interpretation refBlob: blob_env "refBlob cs"
proof
  fix k p n and ds full :: "bytes list" and shards
  assume rs: "rsNew (refBlob cs) k p" and ds: "length ds = k" "\<And>d. d \<in> set ds \<Longrightarrow> length d = n"
  then have k: "0 < k" and p: "p = 1" by (simp_all add: refBlob_def)
  from xorEncode_eq [OF ds(1) k ds(2)]
  have enc: "rsEncode (refBlob cs) k p (ds @ replicate p (replicate n 0)) = Some (ds @ [parity n ds])"
    by (simp add: refBlob_def)
  then show "\<exists>ps. rsEncode (refBlob cs) k p (ds @ replicate p (replicate n 0)) = Some (ds @ ps) \<and> length ps = p"
    using p by auto
  assume "rsEncode (refBlob cs) k p (ds @ replicate p (replicate n 0)) = Some full"
    "list_all2 (\<lambda>s d. s = None \<or> s = Some d) shards full" "k \<le> available shards"
  with enc xorReconstruct_eq [OF ds(1) k ds(2), of shards p]
  show "rsReconstruct (refBlob cs) k p shards = Some full" by (simp add: refBlob_def)
qed (auto simp: refBlob_def refHash_plain PolicyFor_def DefaultPolicy_def policy_ok_def Let_def
    dest: refHash_inject split: if_splits option.splits)

interpretation refDisk: chunk_disk "refBlob cs"
  by unfold_locales (auto simp: refBlob_def AList.delete_conv' map_of_delete split: option.splits)

end
