(* ===== verification/Blob_Props.thy ===== *)
theory Blob_Props
  imports Blob_Ref
begin

text \<open>The properties of the blob engine, each with a run on the reference environment.\<close>

section \<open>A reference cluster\<close>

lemma result_Inr: "isl (snd x) = False \<Longrightarrow> x = (fst x, Inr (projr (snd x)))"
  using prod.collapse [of x] by (simp add: sum.collapse(2))


text \<open>
  Three nodes, chunks of two bytes, stripes of two data shards and one parity shard. The blob of five
  bytes is two stripes; \<^verbatim>\<open>worldA\<close> is the state after writing it, and \<^verbatim>\<open>worldB\<close> the one
  after node 3 failed.
\<close>

abbreviation E2 :: "(refWorld, bytes) blobEnv" where
  "E2 \<equiv> refBlob (Suc 0)"

definition world0 :: refWorld where
  "world0 = \<lparr>rw_files = [], rw_peers = [], rw_down = []\<rparr>"

definition writeA :: "refWorld \<times> (bloberr + Manifest)" where
  "writeA = Write E2 world0 (str ''/b'') ([1, 2, 3, 4, 5], None) []"

definition worldA :: refWorld where "worldA = fst writeA"
definition manA :: Manifest where "manA = projr (snd writeA)"
definition worldB :: refWorld where "worldB = worldA\<lparr>rw_down := [3]\<rparr>"

lemma writeA_eq: "Write E2 world0 (str ''/b'') ([1, 2, 3, 4, 5], None) [] = (worldA, Inr manA)"
proof -
  have "isl (snd writeA) = False" by code_simp
  then show ?thesis
    unfolding writeA_def [symmetric] worldA_def manA_def by (rule result_Inr)
qed

lemma readable_ec:
  "m_Mode m = ''ec'' \<Longrightarrow> list_all (\<lambda>st. m_DataShards m \<le> available (gather E w (st_Shards st))) (m_Stripes m) \<Longrightarrow>
   readable E w m"
  by (simp add: readable_def list_all_iff)

lemma readable_A: "readable E2 worldB manA"
  by (rule readable_ec) code_simp+

lemma sorted_last: "sorted xs \<Longrightarrow> x \<in> set xs \<Longrightarrow> xs \<noteq> [] \<Longrightarrow> (x :: 'a :: linorder) \<le> last xs"
  by (cases xs rule: rev_cases) (auto simp: sorted_append)

section \<open>Properties\<close>

text \<open>
  C18. Write, then read. When a write of a stream succeeds, its manifest carries the stream's length and
  hash; and in any later state in which every chunk (replicated) or at least the data-shard count of
  each stripe's shards (erasure-coded) can be fetched from somewhere, a read returns exactly the bytes
  written, without an error.
\<close>

theorem write_read:
  assumes "blob_env E" "Write E w key (data, None) ct = (w', Inr m)" "readable E v m"
  shows "Read E v m = (data, None) \<and> m_Size m = int (length data) \<and> m_SHA256 m = sha256hex E data"
  using blob_env.Write_describes [OF assms(1, 2)] blob_env.Read_content [OF assms(1) _ assms(3)]
  by (auto simp: describes_def)

theorem write_read_witness:
  "Write E2 world0 (str ''/b'') ([1, 2, 3, 4, 5], None) [] = (worldA, Inr manA) \<and>
   m_Mode manA = ''ec'' \<and> length (m_Stripes manA) = 2 \<and> rw_down worldB = [3] \<and>
   Read E2 worldB manA = ([1, 2, 3, 4, 5], None)"
proof -
  have "m_Mode manA = ''ec''" "length (m_Stripes manA) = 2" by code_simp+
  with writeA_eq write_read [OF refBlob.blob_env_axioms writeA_eq readable_A] show ?thesis
    by (simp add: worldB_def)
qed



text \<open>
  Append concatenates. When an append to a blob succeeds, the new manifest describes the old bytes
  followed by the new ones, with their length and their true hash, and its hash state is again one that
  the next append can resume from.
\<close>

theorem append_content:
  assumes "blob_env E" "describes E m old" "hash_faithful E m old"
    and "Append E w key m (new, None) = (w', Inr (m', n))"
  shows "describes E m' (old @ new) \<and> n = int (length new) \<and> m_SHA256 m' = sha256hex E (old @ new) \<and>
    hash_faithful E m' (old @ new)"
  using blob_env.Append_describes [OF assms] blob_env.sha_resume [OF assms(1)]
  by (auto simp: hash_faithful_def)

theorem append_content_witness:
  "\<exists>w' m'. Append E2 (worldA\<lparr>rw_down := []\<rparr>) (str ''/b'') manA ([6, 7], None) = (w', Inr (m', 2)) \<and>
     describes E2 m' [1, 2, 3, 4, 5, 6, 7] \<and> m_SHA256 m' = sha256hex E2 [1, 2, 3, 4, 5, 6, 7]"
proof -
  let ?r = "Append E2 (worldA\<lparr>rw_down := []\<rparr>) (str ''/b'') manA ([6, 7], None)"
  have "isl (snd ?r) = False" by code_simp
  then obtain w' m' n where r: "?r = (w', Inr (m', n))" by (metis result_Inr prod.collapse)
  have d: "describes E2 manA [1, 2, 3, 4, 5]" and h: "hash_faithful E2 manA [1, 2, 3, 4, 5]"
    using refBlob.Write_describes [OF writeA_eq] refBlob.sha_resume by (auto simp: hash_faithful_def)
  from append_content [OF refBlob.blob_env_axioms d h r] r show ?thesis by auto
qed

text \<open>
  Splice concatenates. When a splice of sources succeeds, whatever their modes and geometries, the
  manifest describes the sources' bytes in order, and its hash components are the sources' components in
  order.
\<close>

theorem splice_content:
  assumes "blob_env E" "list_all2 (spliceable E) srcs ds" "Splice E w key srcs ct = (w', Inr m)"
  shows "describes E m (concat ds) \<and> HashComponents m = concat (map HashComponents srcs)"
  using blob_env.Splice_describes [OF assms] by blast

definition writeC :: "refWorld \<times> (bloberr + Manifest)" where
  "writeC = Write E2 worldA (str ''/c'') ([9], None) []"

definition worldC :: refWorld where "worldC = fst writeC"
definition manC :: Manifest where "manC = projr (snd writeC)"

lemma writeC_eq: "Write E2 worldA (str ''/c'') ([9], None) [] = (worldC, Inr manC)"
proof -
  have "isl (snd writeC) = False" by code_simp
  then show ?thesis
    unfolding writeC_def [symmetric] worldC_def manC_def by (rule result_Inr)
qed

theorem splice_content_witness:
  "m_Mode manC = ''replica'' \<and> (\<exists>w' m'. Splice E2 worldC (str ''/d'') [manC, manA] [] = (w', Inr m') \<and>
     m_Mode m' = ''ec'' \<and> describes E2 m' [9, 1, 2, 3, 4, 5] \<and>
     HashComponents m' = [sha256hex E2 [9], sha256hex E2 [1, 2, 3, 4, 5]])"
proof -
  let ?r = "Splice E2 worldC (str ''/d'') [manC, manA] []"
  have "isl (snd ?r) = False" and mode: "m_Mode (projr (snd ?r)) = ''ec''" by code_simp+
  then obtain w' m' where r: "?r = (w', Inr m')" using result_Inr by blast
  from mode r have mode': "m_Mode m' = ''ec''" by simp
  note A = refBlob.Write_describes [OF writeA_eq] and C = refBlob.Write_describes [OF writeC_eq]
  have "list_all2 (spliceable E2) [manC, manA] [[9], [1, 2, 3, 4, 5]]"
    using A C by (simp add: spliceable_def)
  from splice_content [OF refBlob.blob_env_axioms this r] A C r mode' have
    "?r = (w', Inr m') \<and> m_Mode m' = ''ec'' \<and> describes E2 m' [9, 1, 2, 3, 4, 5] \<and>
     HashComponents m' = [sha256hex E2 [9], sha256hex E2 [1, 2, 3, 4, 5]]"
    by (simp add: HashComponents_def)
  moreover have "m_Mode manC = ''replica''" by code_simp
  ultimately show ?thesis by blast
qed
text \<open>
  C19. A stripe survives the loss of as many nodes as it has parity shards. When a stripe is stored in a
  cluster with at least as many nodes as shards, and later any set of at most parity-many nodes is lost,
  while the shards on the other nodes can be fetched, the stripe still reads as its chunks.
\<close>

theorem stripe_survives:
  assumes "blob_env E" "storeStripe E w (splitEvery (chunkSize E) data) k p nodes = (w', Inr st)"
    and "data \<noteq> []" "length data \<le> k * chunkSize E" "k + p \<le> length nodes" "finite F" "card F \<le> p"
    and "\<forall>ref \<in> set (st_Shards st). set (ref_Nodes ref) \<inter> F = {} \<longrightarrow> (\<exists>d. fetch E v ref = Inr d)"
  shows "readStripe E v k p st = Inr data"
proof -
  have pos: "0 < chunkSize E" by (rule blob_env.chunk_pos [OF assms(1)])
  have "splitEvery (chunkSize E) data \<noteq> []" using assms(3) pos by (subst splitEvery.simps) simp
  moreover have "length (splitEvery (chunkSize E) data) \<le> k" using assms(4) pos by (rule length_splitEvery)
  ultimately have "readStripe E v k p st = Inr (concat (splitEvery (chunkSize E) data))"
    using assms by (intro blob_env.stripe_survives_failures [OF assms(1, 2) tidy_splitEvery [OF pos]]) auto
  with concat_splitEvery [OF pos, of data] show ?thesis by simp
qed

definition storedA :: "refWorld \<times> (bloberr + Stripe)" where
  "storedA = storeStripe E2 world0 (splitEvery 2 [1, 2, 3]) 2 1 [1, 2, 3]"

theorem stripe_survives_witness:
  "\<exists>w' st. storeStripe E2 world0 (splitEvery 2 [1, 2, 3]) 2 1 [1, 2, 3] = (w', Inr st) \<and>
     readStripe E2 (w'\<lparr>rw_down := [2]\<rparr>) 2 1 st = Inr [1, 2, 3]"
proof -
  have "isl (snd storedA) = False" by code_simp
  then obtain w' st where r: "storedA = (w', Inr st)" using result_Inr by blast
  have "list_all (\<lambda>ref. 2 \<notin> set (ref_Nodes ref) \<longrightarrow> \<not> isl (fetch E2 ((fst storedA)\<lparr>rw_down := [2]\<rparr>) ref))
      (st_Shards (projr (snd storedA)))" by code_simp
  then have f: "\<forall>ref \<in> set (st_Shards st). set (ref_Nodes ref) \<inter> {2} = {} \<longrightarrow> (\<exists>d. fetch E2 (w'\<lparr>rw_down := [2]\<rparr>) ref = Inr d)"
    by (auto simp: r list_all_iff isl_def) (meson sum.exhaust)
  have size: "chunkSize E2 = 2" by (simp add: refBlob_def)
  have st: "storeStripe E2 world0 (splitEvery (chunkSize E2) [1, 2, 3]) 2 1 [1, 2, 3] = (w', Inr st)"
    using r by (simp add: storedA_def size)
  from stripe_survives [OF refBlob.blob_env_axioms st _ _ _ _ _ f] r show ?thesis
    by (auto simp: storedA_def size)
qed

text \<open>
  Replicas meet their quorum. When a chunk is stored in replica mode, the manifest names exactly the
  required number of distinct nodes, the requested copies but no more than there are active nodes and
  at least one, among them the node itself.
\<close>

theorem replica_quorum:
  assumes "storeReplicated E w d copies = (w', Inr ref)" "distinct (activeNodes E w)"
  shows "distinct (ref_Nodes ref) \<and> self E \<in> set (ref_Nodes ref) \<and>
    set (ref_Nodes ref) \<subseteq> insert (self E) (set (activeNodes E w)) \<and>
    int (length (ref_Nodes ref)) = max (min copies (int (length (activeNodes E w)))) 1 \<and>
    ref_Hash ref = sha256hex E d"
  using storeReplicated_quorum [OF assms] storeReplicated_chunk [OF assms(1)] by (simp add: chunk_of_def)

theorem replica_quorum_witness:
  "\<exists>w' ref. storeReplicated E2 (world0\<lparr>rw_down := [2]\<rparr>) [8] 2 = (w', Inr ref) \<and> set (ref_Nodes ref) = {1, 3}"
proof -
  let ?w = "world0\<lparr>rw_down := [2]\<rparr>"
  let ?r = "storeReplicated E2 ?w [8] 2"
  have "isl (snd ?r) = False" by code_simp
  then obtain w' ref where r: "?r = (w', Inr ref)" using result_Inr by blast
  have act: "activeNodes E2 ?w = [1, 3]" "self E2 = 1" by (simp_all add: refBlob_def world0_def)
  from replica_quorum [OF r] have "distinct (ref_Nodes ref)" "set (ref_Nodes ref) \<subseteq> {1, 3}"
    "length (ref_Nodes ref) = 2" by (auto simp: act)
  then have "set (ref_Nodes ref) = {1, 3}"
    by (intro card_subset_eq) (auto simp: distinct_card)
  with r show ?thesis by blast
qed

text \<open>
  Reconstruction. For an erasure-coded blob, when enough of the shards that are not listed as
  missing can be fetched, the repair returns, for exactly the missing shards, bytes of their recorded
  hash and size.
\<close>

theorem reconstruct_shards:
  assumes "blob_env E" "content E m data" "m_Mode m = ''ec''" "0 \<le> si" "si < int (length (m_Stripes m))"
    and "st = m_Stripes m ! nat si"
    and "\<forall>idx \<in> set missing. 0 \<le> idx \<and> idx < int (length (st_Shards st))"
    and "m_DataShards m \<le> available (map (\<lambda>i. if int i \<in> set missing then None
          else gather E w (st_Shards st) ! i) [0..<length (st_Shards st)])"
  shows "\<exists>out. ReconstructStripeShards E w m si missing = Inr out \<and> map fst out = remdups missing \<and>
    (\<forall>(idx, d) \<in> set out. ref_Hash (st_Shards st ! nat idx) = sha256hex E d \<and>
       ref_Size (st_Shards st ! nat idx) = int (length d))"
  using blob_env.ReconstructStripeShards_ok [OF assms(1-5), of missing w] assms(7, 8)
  unfolding assms(6) chunk_of_def by simp

theorem reconstruct_shards_witness:
  "\<exists>d. ReconstructStripeShards E2 worldB manA 0 [2] = Inr [(2, d)] \<and>
     ref_Hash (st_Shards (m_Stripes manA ! 0) ! 2) = sha256hex E2 d"
proof -
  let ?st = "m_Stripes manA ! nat 0"
  have c: "content E2 manA [1, 2, 3, 4, 5]"
    using refBlob.Write_describes [OF writeA_eq] by (simp add: describes_def)
  have m: "m_Mode manA = ''ec''" "0 < int (length (m_Stripes manA))" "length (st_Shards ?st) = 3" by code_simp+
  have a: "m_DataShards manA \<le> available (map (\<lambda>i. if int i \<in> set [2] then None
      else gather E2 worldB (st_Shards ?st) ! i) [0..<length (st_Shards ?st)])" by code_simp
  from reconstruct_shards [OF refBlob.blob_env_axioms c m(1) _ m(2) refl _ a] m(3)
  obtain out where "ReconstructStripeShards E2 worldB manA 0 [2] = Inr out" "map fst out = [2]"
    "\<forall>(idx, d) \<in> set out. ref_Hash (st_Shards ?st ! nat idx) = sha256hex E2 d" by fastforce
  then show ?thesis by (cases out) auto
qed

text \<open>
  C21. The scrub. One batch verifies the chunks after the cursor in order of their names: the corrupt
  ones among them are removed and every other file reads as before. The batch ends with a completed pass
  and the cursor reset, or with the cursor moved strictly forward to a chunk on disk, so repeated batches
  cover the disk.
\<close>

theorem scrub_batch:
  assumes "chunk_disk E" "fs_list E w = Inr hashes" "distinct hashes"
    and "ScrubNext E w cursor n = (w', cursor', Inr res)"
  shows "(\<forall>h. fs_read E w' (path h) =
      (if h \<in> set hashes \<and> cursor < h \<and> (sr_Wrapped res \<or> h \<le> cursor') \<and> corrupt E w h
       then Inl DiskError else fs_read E w (path h))) \<and>
    (if sr_Wrapped res then cursor' = [] else cursor < cursor' \<and> cursor' \<in> set hashes)"
proof -
  define hs where "hs = filter (\<lambda>h. h > cursor) (sort hashes)"
  define mx where "mx = (if n \<le> 0 then 64 else nat n)"
  have mx: "0 < mx" by (simp add: mx_def)
  have hs: "distinct hs" "sorted hs" "set hs = {h \<in> set hashes. cursor < h}"
    using assms(3) by (auto simp: hs_def sorted_wrt_filter)
  obtain sc corr lst rest where loop: "scrubLoop E w mx 0 [] cursor hs = (w', sc, corr, lst, rest)"
    and res: "cursor' = (if rest = [] then [] else lst)" "sr_Wrapped res = (rest = [])"
    using assms(2, 4) by (auto simp: ScrubNext_def Let_def hs_def mx_def split: prod.splits)
  from chunk_disk.scrubLoop_spec [OF assms(1) loop hs(1)] obtain dn where
    dn: "hs = dn @ rest" "lst = (if dn = [] then cursor else last dn)" "0 < mx \<and> hs \<noteq> [] \<longrightarrow> dn \<noteq> []"
      "\<forall>h. fs_read E w' (path h) = (if h \<in> set dn \<and> corrupt E w h then Inl DiskError else fs_read E w (path h))"
    by (elim exE conjE) (rule that)
  have mem: "h \<in> set dn \<longleftrightarrow> h \<in> set hashes \<and> cursor < h \<and> (rest = [] \<or> h \<le> cursor')" for h
  proof (cases "rest = []")
    case True
    then show ?thesis using hs(3) by (auto simp: dn(1))
  next
    case False
    with dn mx have ne: "dn \<noteq> []" and c: "cursor' = last dn" using res(1) by auto
    have "sorted dn" using hs(2) by (simp add: dn(1) sorted_append)
    then have "h \<le> last dn" if "h \<in> set dn" for h
      using that ne by (rule sorted_last)
    moreover have "last dn < h" if "h \<in> set rest" for h
      using that hs(1, 2) last_in_set [OF ne] by (fastforce simp: dn(1) sorted_append order_less_le)
    moreover have "h \<in> set dn \<or> h \<in> set rest \<longleftrightarrow> h \<in> set hashes \<and> cursor < h" for h
      using hs(3) by (simp add: dn(1) set_eq_iff)
    ultimately show ?thesis using False by (metis c not_le)
  qed
  have "cursor < cursor' \<and> cursor' \<in> set hashes" if "rest \<noteq> []"
  proof -
    from that dn mx have "cursor' \<in> set dn" using res(1) by auto
    with mem show ?thesis by blast
  qed
  with dn(4) mem res show ?thesis by simp
qed
text \<open>A disk with a good and a corrupt chunk.\<close>

definition rotten :: refWorld where
  "rotten = \<lparr>rw_files = [(path (refHash [7]), [7]), (path (refHash [8]), [0])], rw_peers = [], rw_down = [2, 3]\<rparr>"

theorem scrub_batch_witness:
  "\<exists>w'. ScrubNext E2 rotten [] 10 = (w', [], Inr \<lparr>sr_Scanned = 2, sr_Corrupt = [refHash [8]], sr_Wrapped = True\<rparr>) \<and>
     fs_read E2 w' (path (refHash [8])) = Inl DiskError \<and> fs_read E2 w' (path (refHash [7])) = Inr [7]"
proof -
  let ?res = "\<lparr>sr_Scanned = 2, sr_Corrupt = [refHash [8]], sr_Wrapped = True\<rparr>"
  have l: "fs_list E2 rotten = Inr [refHash [7], refHash [8]]" "distinct [refHash [7], refHash [8]]" by code_simp+
  have "snd (ScrubNext E2 rotten [] 10) = ([], Inr ?res)" by code_simp
  then obtain w' where r: "ScrubNext E2 rotten [] 10 = (w', [], Inr ?res)" by (metis prod.collapse)
  have f: "fs_read E2 rotten (path (refHash [8])) = Inr [0]" "fs_read E2 rotten (path (refHash [7])) = Inr [7]"
    "refHash [0] \<noteq> refHash [8]" "[] < refHash [8]" by code_simp+
  moreover have "sha256hex E2 = refHash" by (simp add: refBlob_def)
  ultimately have "corrupt E2 rotten (refHash [8])" "\<not> corrupt E2 rotten (refHash [7])" by (auto simp: corrupt_def)
  with scrub_batch [OF refDisk.chunk_disk_axioms l r] f r show ?thesis by simp
qed

section \<open>Divergences\<close>

text \<open>
  A store over a corrupt copy is acknowledged. \<^verbatim>\<open>Put\<close> returns success when a file of the
  chunk's name exists, without looking at it: the upload of a chunk whose local file has rotted reports
  its quorum as met, and the chunk can be fetched from nowhere.
\<close>

theorem put_over_corrupt:
  "storeReplicated E2 rotten [8] 2 = (rotten, Inr \<lparr>ref_Hash = refHash [8], ref_Size = 1, ref_Nodes = [1]\<rparr>) \<and>
   fetch E2 rotten \<lparr>ref_Hash = refHash [8], ref_Size = 1, ref_Nodes = [1]\<rparr> = Inl Unavailable"
  by code_simp

text \<open>
  A ranged read with a large length returns nothing. The end of the window is computed in 64 bits:
  for offset 1 and the largest length the sum wraps to a negative number, passes the check against the
  size, and the read ends without bytes and without an error, where the clamped read has four bytes.
\<close>

theorem readRange_overflow:
  "ReadRange E2 worldA manA 1 (2 ^ 63 - 1) = ([], None) \<and> ReadRange E2 worldA manA 1 (- 1) = ([2, 3, 4, 5], None)"
  by code_simp
end
