(* ===== verification/Go_Text.thy ===== *)
theory Go_Text
  imports Prelude
begin

text \<open>
  Text of the Go standard library that the components use: runes of a UTF-8 string
  (\<^verbatim>\<open>utf8.DecodeRune\<close>, which answers U+FFFD and size 1 for an invalid byte), white space trimming,
  decimal and hexadecimal numbers.
\<close>

section \<open>Runes\<close>

abbreviation cont :: "byte \<Rightarrow> bool" where
  "cont b \<equiv> 0x80 \<le> b \<and> b \<le> 0xbf"

definition RuneError :: nat where "RuneError = 0xFFFD"

fun DecodeRune :: "bytes \<Rightarrow> nat \<times> nat" where
  "DecodeRune [] = (RuneError, 0)"
| "DecodeRune (a # bs) =
     (if a \<le> 0x7f then (unat a, 1)
      else case bs of
          [] \<Rightarrow> (RuneError, 1)
        | b # cs \<Rightarrow>
            if 0xc2 \<le> a \<and> a \<le> 0xdf
            then (if cont b then ((unat a - 0xc0) * 64 + (unat b - 0x80), 2) else (RuneError, 1))
            else (case cs of
                [] \<Rightarrow> (RuneError, 1)
              | c # ds \<Rightarrow>
                  if 0xe0 \<le> a \<and> a \<le> 0xef
                  then (if (if a = 0xe0 then 0xa0 else 0x80) \<le> b \<and> b \<le> (if a = 0xed then 0x9f else 0xbf) \<and> cont c
                        then (((unat a - 0xe0) * 64 + (unat b - 0x80)) * 64 + (unat c - 0x80), 3) else (RuneError, 1))
                  else (case ds of
                      [] \<Rightarrow> (RuneError, 1)
                    | d # es \<Rightarrow>
                        if 0xf0 \<le> a \<and> a \<le> 0xf4 \<and> (if a = 0xf0 then 0x90 else 0x80) \<le> b \<and>
                          b \<le> (if a = 0xf4 then 0x8f else 0xbf) \<and> cont c \<and> cont d
                        then ((((unat a - 0xf0) * 64 + (unat b - 0x80)) * 64 + (unat c - 0x80)) * 64 + (unat d - 0x80), 4)
                        else (RuneError, 1))))"

lemma DecodeRune_size: "s \<noteq> [] \<Longrightarrow> 0 < snd (DecodeRune s) \<and> snd (DecodeRune s) \<le> length s"
proof -
  define Q where "Q p \<longleftrightarrow> 0 < snd p \<and> snd p \<le> length s" for p :: "nat \<times> nat"
  have split: "Q x \<Longrightarrow> Q y \<Longrightarrow> Q (if c then x else y)" for x y c by simp
  assume "s \<noteq> []"
  then obtain a bs where s: "s = a # bs" by (cases s) auto
  have "Q (DecodeRune s)"
    unfolding s DecodeRune.simps
    by (cases bs; cases "tl bs"; cases "tl (tl bs)"; simp only: list.case list.sel; intro split; simp add: Q_def s)
  then show ?thesis by (simp add: Q_def)
qed

declare DecodeRune.simps [simp del]

text \<open>\<^verbatim>\<open>[]rune(s)\<close>\<close>

function runesOf :: "bytes \<Rightarrow> nat list" where
  "runesOf s = (if s = [] then [] else fst (DecodeRune s) # runesOf (drop (snd (DecodeRune s)) s))"
  by pat_completeness auto
termination
  by (relation "measure length") (use DecodeRune_size in auto)

declare runesOf.simps [simp del]

text \<open>\<^verbatim>\<open>utf8.DecodeLastRune\<close>: back to a byte that starts a rune, at most four bytes.\<close>

definition DecodeLastRune :: "bytes \<Rightarrow> nat \<times> nat" where
  "DecodeLastRune s =
     (if s = [] then (RuneError, 0)
      else if last s < 0x80 then (unat (last s), 1)
      else case find (\<lambda>k. k \<le> length s \<and> \<not> cont (s ! (length s - k))) [2, 3, 4] of
          None \<Rightarrow> (RuneError, 1)
        | Some k \<Rightarrow> (let r = DecodeRune (drop (length s - k) s) in if snd r = k then r else (RuneError, 1)))"

lemma DecodeLastRune_size: "s \<noteq> [] \<Longrightarrow> 0 < snd (DecodeLastRune s)"
  using DecodeRune_size by (auto simp: DecodeLastRune_def Let_def find_Some_iff split: option.splits)

text \<open>\<^verbatim>\<open>strings.TrimLeft\<close>, \<^verbatim>\<open>strings.TrimRight\<close>: remove runes of the cutset.\<close>

function TrimLeft :: "bytes \<Rightarrow> bytes \<Rightarrow> bytes" where
  "TrimLeft s cutset =
     (if s = [] \<or> fst (DecodeRune s) \<notin> set (runesOf cutset) then s else TrimLeft (drop (snd (DecodeRune s)) s) cutset)"
  by pat_completeness auto
termination
  by (relation "measure (length \<circ> fst)") (use DecodeRune_size in auto)

function TrimRight :: "bytes \<Rightarrow> bytes \<Rightarrow> bytes" where
  "TrimRight s cutset =
     (if s = [] \<or> fst (DecodeLastRune s) \<notin> set (runesOf cutset) then s
      else TrimRight (take (length s - snd (DecodeLastRune s)) s) cutset)"
  by pat_completeness auto
termination
  by (relation "measure (length \<circ> fst)") (use DecodeLastRune_size in auto)

declare TrimLeft.simps [simp del] TrimRight.simps [simp del]

section \<open>White space\<close>

text \<open>
  \<^verbatim>\<open>strings.TrimSpace\<close> on UTF-8 text: the encodings of the white space runes, removed from the
  front and, reversed, from the back.
\<close>

definition spaceRunes :: "bytes list" where
  "spaceRunes = [[9], [10], [11], [12], [13], [32], [0xc2, 0x85], [0xc2, 0xa0], [0xe1, 0x9a, 0x80]] @
     map (\<lambda>b. [0xe2, 0x80, b]) [0x80, 0x81, 0x82, 0x83, 0x84, 0x85, 0x86, 0x87, 0x88, 0x89, 0x8a, 0xa8, 0xa9, 0xaf] @
     [[0xe2, 0x81, 0x9f], [0xe3, 0x80, 0x80]]"

function trimFront :: "bytes list \<Rightarrow> bytes \<Rightarrow> bytes" where
  "trimFront runes s = (case find (\<lambda>r. r \<noteq> [] \<and> take (length r) s = r) runes of
     None \<Rightarrow> s
   | Some r \<Rightarrow> trimFront runes (drop (length r) s))"
  by pat_completeness auto
termination
proof (relation "measure (length \<circ> snd)")
  fix runes r and s :: bytes
  assume "find (\<lambda>r. r \<noteq> [] \<and> take (length r) s = r) runes = Some r"
  then have "r \<noteq> []" "take (length r) s = r" by (auto simp: find_Some_iff)
  then show "((runes, drop (length r) s), runes, s) \<in> measure (length \<circ> snd)" by (cases s) auto
qed simp

declare trimFront.simps [simp del]

definition TrimSpace :: "bytes \<Rightarrow> bytes" where
  "TrimSpace s = rev (trimFront (map rev spaceRunes) (rev (trimFront spaceRunes s)))"

section \<open>Numbers\<close>

text \<open>
  \<^verbatim>\<open>strconv.ParseInt(s, 10, 64)\<close>: an optional sign and digits, nothing else, in the range of
  \<^verbatim>\<open>int64\<close>.
\<close>

definition isDigit :: "byte \<Rightarrow> bool" where
  "isDigit c \<longleftrightarrow> 48 \<le> c \<and> c \<le> 57"

definition digitsVal :: "bytes \<Rightarrow> int" where
  "digitsVal ds = foldl (\<lambda>n d. n * 10 + int (unat d - 48)) 0 ds"

definition ParseInt :: "bytes \<Rightarrow> i64 option" where
  "ParseInt s =
     (let (neg, ds) = (case s of [] \<Rightarrow> (False, []) | c # cs \<Rightarrow> if c = 45 then (True, cs) else if c = 43 then (False, cs) else (False, s));
          n = (if neg then - digitsVal ds else digitsVal ds)
      in if ds = [] \<or> \<not> list_all isDigit ds \<or> n < - (2 ^ 63) \<or> 2 ^ 63 \<le> n then None else Some (word_of_int n))"

text \<open>\<^verbatim>\<open>strconv.FormatInt(n, 10)\<close>\<close>

fun digits :: "nat \<Rightarrow> bytes" where
  "digits n = (if n < 10 then [of_nat (48 + n)] else digits (n div 10) @ [of_nat (48 + n mod 10)])"

declare digits.simps [simp del]

definition FormatInt :: "i64 \<Rightarrow> bytes" where
  "FormatInt n = (if sint n < 0 then 45 # digits (nat (- sint n)) else digits (nat (sint n)))"

text \<open>\<^verbatim>\<open>hex.EncodeToString\<close>\<close>

definition hexDigit :: "byte \<Rightarrow> byte" where
  "hexDigit n = (if n < 10 then 48 + n else 87 + n)"

fun hexString :: "bytes \<Rightarrow> bytes" where
  "hexString [] = []"
| "hexString (b # bs) = hexDigit (drop_bit 4 b) # hexDigit (b AND 15) # hexString bs"

end
