(* ===== verification/Cluster.thy ===== *)
theory Cluster
  imports KV_Apply Auth Go_Text Complex_Main
begin

text \<open>
  The cluster state in the metadata group (\<^verbatim>\<open>pkg/cluster/cluster.go\<close>) and the request routing
  over it (\<^verbatim>\<open>pkg/server/data.go\<close>): the shard map, id allocation, and the reads and writes that
  span shards. The interface \<^verbatim>\<open>cluster.Fabric\<close> is the record \<^verbatim>\<open>fabric\<close>, a parameter of
  every definition: its calls take the state \<^verbatim>\<open>'s\<close> of all groups and return the new one, with
  whatever other clients did in between. \<^verbatim>\<open>localGet\<close> is the barrier and read of a local replica
  where this node has one and \<^verbatim>\<open>useReadIndex\<close> holds, and \<^verbatim>\<open>readBarrier\<close> answers the error of the
  barrier, if any. An error is its text; a wrapped error is the inner text. JSON codecs of the stored
  records extend the fabric. Time stamps that are only displayed are left out of the records. A Go map is
  an association list in the order an iteration takes.
\<close>

section \<open>The fabric\<close>

record Shard =
  sh_ID :: u64
  sh_Start :: bytes
  sh_End :: bytes
  sh_GID :: u64
  sh_State :: string
  sh_SplitKey :: bytes
  sh_NewGID :: u64

record GroupInfo =
  gi_GID :: u64
  gi_Members :: "u64 list"
  gi_Kind :: string

record SplitCleanup =
  sc_GID :: u64
  sc_Start :: bytes
  sc_End :: bytes

text \<open>A report of a group's leader. Every \<^verbatim>\<open>float64\<close> that JSON can carry is a rational number.\<close>

record GroupStats =
  gs_GID :: u64
  gs_Bytes :: u64
  gs_Keys :: u64
  gs_QPS :: rat
  gs_Leader :: u64
  gs_Reported :: int

record SplitHint =
  hi_GID :: u64
  hi_At :: bytes
  hi_Actor :: bytes

record txRecord =
  tr_ID :: bytes
  tr_State :: string
  tr_Groups :: "u64 list"
  tr_Started :: int

record 's fabric =
  IsMetaLeader :: "'s \<Rightarrow> bool"
  MetaGet :: "'s \<Rightarrow> bytes \<Rightarrow> string + Record option"
  MetaList :: "'s \<Rightarrow> bytes \<Rightarrow> int \<Rightarrow> string + ListEntry list"
  MetaPropose :: "'s \<Rightarrow> Op \<Rightarrow> 's \<times> (string + Result)"
  ProposeToGroup :: "'s \<Rightarrow> u64 \<Rightarrow> Op \<Rightarrow> 's \<times> (string + Result)"
  ListGroup :: "'s \<Rightarrow> u64 \<Rightarrow> bytes \<Rightarrow> bytes \<Rightarrow> int \<Rightarrow> string + ListEntry list"
  readBarrier :: "'s \<Rightarrow> u64 \<Rightarrow> string option"
  localGet :: "'s \<Rightarrow> u64 \<Rightarrow> (bytes \<Rightarrow> string + Record option) option"
  CreateGroupEverywhere :: "'s \<Rightarrow> u64 \<Rightarrow> u64 list \<Rightarrow> 's \<times> string option"

record 's cenv = "'s fabric" +
  marshalShard :: "Shard \<Rightarrow> bytes"
  unmarshalShard :: "bytes \<Rightarrow> Shard option"
  marshalGroup :: "GroupInfo \<Rightarrow> bytes"
  unmarshalGroup :: "bytes \<Rightarrow> GroupInfo option"
  marshalCleanup :: "SplitCleanup \<Rightarrow> bytes"
  unmarshalCleanup :: "bytes \<Rightarrow> SplitCleanup option"
  unmarshalHint :: "bytes \<Rightarrow> SplitHint option"
  marshalHint :: "SplitHint \<Rightarrow> bytes"
  unmarshalPaused :: "bytes \<Rightarrow> bool option"
  marshalNum :: "u64 \<Rightarrow> bytes"
  unmarshalNum :: "bytes \<Rightarrow> u64 option"
  marshalTx :: "txRecord \<Rightarrow> bytes"
  unmarshalTx :: "bytes \<Rightarrow> txRecord option"
  maxValueBytes :: int
  txTimeout :: int
  unmarshalStats :: "bytes \<Rightarrow> GroupStats option"
  splitThresholdBytes :: int
  splitThresholdQPS :: rat

text \<open>The zero \<^verbatim>\<open>Op\<close>, the base of the operation literals of the source.\<close>

definition zeroOp :: Op where
  "zeroOp = \<lparr>o_Type = [], o_Key = [], o_Value = [], o_Blob = False, o_Start = [], o_End = [], o_AtRev = 0,
     o_Prefix = [], o_Cursor = [], o_Limit = 0, o_TxID = [], o_Reads = [], o_Writes = [], o_Resource = [],
     o_Holder = [], o_Mode = [], o_TTLms = 0, o_NowMs = 0, o_Pairs = []\<rparr>"

text \<open>\<^verbatim>\<open>fmt.Sprintf("%d", n)\<close>\<close>

definition decimal :: "u64 \<Rightarrow> bytes" where
  "decimal n = digits (unat n)"

section \<open>Results\<close>

definition conflictSuffix :: "Result \<Rightarrow> string" where
  "conflictSuffix r = (if res_Conflict r = [] then [] else '': '' @ map (char_of \<circ> unat) (TrimSpace (res_Conflict r)))"

definition DecodeResult :: "string + Result \<Rightarrow> string + Result" where
  "DecodeResult r = (case r of
     Inl e \<Rightarrow> Inl e
   | Inr res \<Rightarrow> if res_Err res \<noteq> [] then Inl (res_Err res @ conflictSuffix res) else Inr res)"

definition firstErr :: "string + Result \<Rightarrow> string option" where
  "firstErr r = (case r of
     Inl e \<Rightarrow> Some e
   | Inr res \<Rightarrow>
       if res_Err res \<noteq> []
       then Some (if res_Conflict res \<noteq> [] then res_Err res @ '': '' @ map (char_of \<circ> unat) (res_Conflict res) else res_Err res)
       else None)"

section \<open>The shard map\<close>

definition KeyShards :: bytes where "KeyShards = str ''shards/''"
definition KeyGroups :: bytes where "KeyGroups = str ''groups/''"
definition KeySplitHints :: bytes where "KeySplitHints = str ''admin/split_hints/''"
definition KeySplitCleanups :: bytes where "KeySplitCleanups = str ''split_cleanups/''"
definition KeyAdminPause :: bytes where "KeyAdminPause = str ''admin/pause/''"
definition KeyStats :: bytes where "KeyStats = str ''stats/groups/''"
definition KeyNextGroup :: bytes where "KeyNextGroup = str ''counters/next_gid''"
definition KeyNextShard :: bytes where "KeyNextShard = str ''counters/next_shard_id''"

definition Covers :: "Shard \<Rightarrow> bytes \<Rightarrow> bool" where
  "Covers s key = (sh_Start s \<le> key \<and> (sh_End s = [] \<or> key < sh_End s))"

definition decodeAll :: "(bytes \<Rightarrow> 'a option) \<Rightarrow> ListEntry list \<Rightarrow> 'a list" where
  "decodeAll dec entries = List.map_filter (\<lambda>e. dec (r_Value (le_Record e))) entries"

text \<open>\<^verbatim>\<open>sort.Slice\<close> by range start: the starts of a shard map are distinct.\<close>

definition Shards :: "'s cenv \<Rightarrow> 's \<Rightarrow> string + Shard list" where
  "Shards F s = (case MetaList F s KeyShards 10000 of
     Inl e \<Rightarrow> Inl e
   | Inr entries \<Rightarrow> Inr (sort_key sh_Start (decodeAll (unmarshalShard F) entries)))"

definition Groups :: "'s cenv \<Rightarrow> 's \<Rightarrow> string + GroupInfo list" where
  "Groups F s = (case MetaList F s KeyGroups 10000 of
     Inl e \<Rightarrow> Inl e
   | Inr entries \<Rightarrow> Inr (decodeAll (unmarshalGroup F) entries))"

definition SplitHints :: "'s cenv \<Rightarrow> 's \<Rightarrow> string + SplitHint list" where
  "SplitHints F s = (case MetaList F s KeySplitHints 1000 of
     Inl e \<Rightarrow> Inl e
   | Inr entries \<Rightarrow> Inr (sort_key hi_GID (decodeAll (unmarshalHint F) entries)))"

definition ShardFor :: "'s cenv \<Rightarrow> 's \<Rightarrow> bytes \<Rightarrow> string + Shard" where
  "ShardFor F s key = (case Shards F s of
     Inl e \<Rightarrow> Inl e
   | Inr shards \<Rightarrow> (case find (\<lambda>sh. Covers sh key) shards of
       Some sh \<Rightarrow> Inr sh
     | None \<Rightarrow> Inl ''no shard covers key''))"

definition shardOfGroup :: "'s cenv \<Rightarrow> 's \<Rightarrow> u64 \<Rightarrow> string + Shard" where
  "shardOfGroup F s gid = (case Shards F s of
     Inl e \<Rightarrow> Inl e
   | Inr shards \<Rightarrow> (case find (\<lambda>sh. sh_GID sh = gid) shards of
       Some sh \<Rightarrow> Inr sh
     | None \<Rightarrow> Inl ''NotFound''))"

definition validateSplitKey :: "Shard \<Rightarrow> bytes \<Rightarrow> string option" where
  "validateSplitKey s atKey =
     (if atKey = [] then None
      else if atKey \<le> sh_Start s \<or> (sh_End s \<noteq> [] \<and> atKey \<ge> sh_End s) then Some ''InvalidSplitKey''
      else None)"

definition Paused :: "'s cenv \<Rightarrow> 's \<Rightarrow> bytes \<Rightarrow> bool" where
  "Paused F s what = (case MetaGet F s (KeyAdminPause @ what) of
     Inr (Some rec) \<Rightarrow> unmarshalPaused F (r_Value rec) = Some True
   | _ \<Rightarrow> False)"

definition MetaVoterTarget :: "int \<Rightarrow> int" where
  "MetaVoterTarget eligible =
     (if eligible \<ge> 8 then 5 else if eligible \<ge> 3 then 3 else if eligible \<ge> 1 then 1 else 0)"

definition putJSON :: "'s cenv \<Rightarrow> 's \<Rightarrow> bytes \<Rightarrow> bytes \<Rightarrow> 's \<times> string option" where
  "putJSON F s key raw = (case MetaPropose F s (zeroOp\<lparr>o_Type := ''set'', o_Key := key, o_Value := raw\<rparr>) of
     (s, r) \<Rightarrow> (s, case DecodeResult r of Inl e \<Rightarrow> Some e | Inr _ \<Rightarrow> None))"

definition RequestSplit :: "'s cenv \<Rightarrow> 's \<Rightarrow> u64 \<Rightarrow> bytes \<Rightarrow> bytes \<Rightarrow> 's \<times> string option" where
  "RequestSplit F s gid atKey actor = (case shardOfGroup F s gid of
     Inl e \<Rightarrow> (s, Some e)
   | Inr sh \<Rightarrow>
       if sh_State sh \<noteq> ''active'' then (s, Some ErrConflict)
       else case validateSplitKey sh atKey of
           Some e \<Rightarrow> (s, Some e)
         | None \<Rightarrow> putJSON F s (KeySplitHints @ decimal gid)
             (marshalHint F \<lparr>hi_GID = gid, hi_At = atKey, hi_Actor = actor\<rparr>))"

text \<open>The compare-and-swap loop of \<^verbatim>\<open>NextID\<close>, by the attempts that are left.\<close>

fun nextIDLoop :: "'s cenv \<Rightarrow> nat \<Rightarrow> 's \<Rightarrow> bytes \<Rightarrow> u64 \<Rightarrow> 's \<times> (string + u64)" where
  "nextIDLoop F 0 s counterKey first = (s, Inl ''persistent CAS contention'')"
| "nextIDLoop F (Suc attempts) s counterKey first = (case MetaGet F s counterKey of
     Inl e \<Rightarrow> (s, Inl e)
   | Inr rec \<Rightarrow>
       (case (case rec of None \<Rightarrow> Some (first, 0)
              | Some r \<Rightarrow> map_option (\<lambda>n. (n, r_Rev r)) (unmarshalNum F (r_Value r))) of
          None \<Rightarrow> (s, Inl ''json'')
        | Some (next, readRev) \<Rightarrow>
            (case MetaPropose F s (zeroOp\<lparr>o_Type := ''tx_apply'', o_Reads := [(counterKey, readRev)],
                o_Writes := [\<lparr>w_Key = counterKey, w_Value = marshalNum F (next + 1), w_Delete = False, w_Blob = False\<rparr>]\<rparr>) of
               (s, Inl e) \<Rightarrow> (s, Inl e)
             | (s, Inr res) \<Rightarrow>
                 if res_Err res = ErrConflict then nextIDLoop F attempts s counterKey first
                 else if res_Err res \<noteq> [] then (s, Inl (res_Err res))
                 else (s, Inr next))))"

definition NextID :: "'s cenv \<Rightarrow> 's \<Rightarrow> bytes \<Rightarrow> u64 \<Rightarrow> 's \<times> (string + u64)" where
  "NextID F s counterKey first = nextIDLoop F 16 s counterKey first"

section \<open>Requests that span shards\<close>

definition shardForWrite :: "'s cenv \<Rightarrow> 's \<Rightarrow> bytes \<Rightarrow> string + Shard" where
  "shardForWrite F s key = (case ShardFor F s key of
     Inl e \<Rightarrow> Inl e
   | Inr sh \<Rightarrow>
       if sh_State sh = ''splitting'' \<and> key \<ge> sh_SplitKey sh then Inl ErrShardSplitting else Inr sh)"

definition proposeKV :: "'s cenv \<Rightarrow> 's \<Rightarrow> u64 \<Rightarrow> Op \<Rightarrow> 's \<times> (string + u64)" where
  "proposeKV F s gid op = (case ProposeToGroup F s gid op of
     (s, r) \<Rightarrow> (s, case firstErr r of Some e \<Rightarrow> Inl e | None \<Rightarrow> Inr (case r of Inr res \<Rightarrow> res_Rev res | Inl _ \<Rightarrow> 0)))"

definition KVGet :: "'s cenv \<Rightarrow> 's \<Rightarrow> bytes \<Rightarrow> 's \<times> (string + Record option)" where
  "KVGet F s key = (case ShardFor F s key of
     Inl e \<Rightarrow> (s, Inl e)
   | Inr sh \<Rightarrow> (case localGet F s (sh_GID sh) of
       Some get \<Rightarrow> (s, get key)
     | None \<Rightarrow> (case ProposeToGroup F s (sh_GID sh) (zeroOp\<lparr>o_Type := ''get'', o_Key := key\<rparr>) of
          (s, Inl e) \<Rightarrow> (s, Inl e)
        | (s, Inr res) \<Rightarrow> (s, if res_Err res \<noteq> [] then Inl (res_Err res) else Inr (res_Record res)))))"

definition KVSet :: "'s cenv \<Rightarrow> 's \<Rightarrow> bytes \<Rightarrow> bytes \<Rightarrow> bool \<Rightarrow> 's \<times> (string + u64)" where
  "KVSet F s key val isBlob =
     (if int (length val) > maxValueBytes F then (s, Inl ErrValueTooLong)
      else case shardForWrite F s key of
          Inl e \<Rightarrow> (s, Inl e)
        | Inr sh \<Rightarrow> proposeKV F s (sh_GID sh)
            (zeroOp\<lparr>o_Type := ''set'', o_Key := key, o_Value := val, o_Blob := isBlob\<rparr>))"

definition KVDelete :: "'s cenv \<Rightarrow> 's \<Rightarrow> bytes \<Rightarrow> 's \<times> (string + u64)" where
  "KVDelete F s key = (case shardForWrite F s key of
     Inl e \<Rightarrow> (s, Inl e)
   | Inr sh \<Rightarrow> proposeKV F s (sh_GID sh) (zeroOp\<lparr>o_Type := ''delete'', o_Key := key\<rparr>))"

text \<open>The clipped range that \<^verbatim>\<open>KVDeleteRange\<close> sends to a shard, if the shard meets the range.\<close>

definition clipRange :: "bytes \<Rightarrow> bytes \<Rightarrow> Shard \<Rightarrow> (bytes \<times> bytes) option" where
  "clipRange start end' sh =
     (if sh_End sh \<noteq> [] \<and> sh_End sh \<le> start then None
      else if end' \<noteq> [] \<and> sh_Start sh \<ge> end' then None
      else
        let lo = (if sh_Start sh > start then sh_Start sh else start);
            hi = (if sh_End sh \<noteq> [] \<and> (end' = [] \<or> sh_End sh < end') then sh_End sh else end');
            hi = (if hi = [] then [0xff, 0xff, 0xff, 0xff] else hi)
        in Some (lo, hi))"

fun deleteRangeLoop :: "'s cenv \<Rightarrow> 's \<Rightarrow> bytes \<Rightarrow> bytes \<Rightarrow> Shard list \<Rightarrow> 's \<times> string option" where
  "deleteRangeLoop F s start end' [] = (s, None)"
| "deleteRangeLoop F s start end' (sh # shards) = (case clipRange start end' sh of
     None \<Rightarrow> deleteRangeLoop F s start end' shards
   | Some (lo, hi) \<Rightarrow>
       (case ProposeToGroup F s (sh_GID sh) (zeroOp\<lparr>o_Type := ''delete_range'', o_Start := lo, o_End := hi\<rparr>) of
          (s, r) \<Rightarrow> (case firstErr r of
              Some e \<Rightarrow> (s, Some e)
            | None \<Rightarrow> deleteRangeLoop F s start end' shards)))"

definition KVDeleteRange :: "'s cenv \<Rightarrow> 's \<Rightarrow> bytes \<Rightarrow> bytes \<Rightarrow> 's \<times> string option" where
  "KVDeleteRange F s start end' = (case Shards F s of
     Inl e \<Rightarrow> (s, Some e)
   | Inr shards \<Rightarrow> deleteRangeLoop F s start end' shards)"

definition prefixUpper :: "bytes \<Rightarrow> bytes" where
  "prefixUpper p = (if p = [] then [] else upperLoop (rev p))"

text \<open>The shards a prefix scan meets, the test of the list and of \<^verbatim>\<open>coveringShards\<close>.\<close>

definition meetsPrefix :: "bytes \<Rightarrow> Shard \<Rightarrow> bool" where
  "meetsPrefix p sh =
     (\<not> (sh_End sh \<noteq> [] \<and> sh_End sh \<le> p) \<and>
      \<not> (prefixUpper p \<noteq> [] \<and> sh_Start sh \<ge> prefixUpper p))"

definition coveringShards :: "'s cenv \<Rightarrow> 's \<Rightarrow> bytes \<Rightarrow> string + Shard list" where
  "coveringShards F s p = (case Shards F s of
     Inl e \<Rightarrow> Inl e
   | Inr shards \<Rightarrow>
       let covering = filter (meetsPrefix p) shards
       in if covering = [] then Inl ''no shard covers prefix'' else Inr covering)"

text \<open>
  The page loop of \<^verbatim>\<open>KVListTraced\<close>; the call trace is debug output and left out.
\<close>

fun listLoop :: "'s cenv \<Rightarrow> 's \<Rightarrow> bytes \<Rightarrow> bytes \<Rightarrow> nat \<Rightarrow> ListEntry list \<Rightarrow> Shard list \<Rightarrow> string + ListEntry list" where
  "listLoop F s p cursor limit out [] = Inr out"
| "listLoop F s p cursor limit out (sh # shards) =
     (if length out \<ge> limit then Inr out
      else if \<not> meetsPrefix p sh then listLoop F s p cursor limit out shards
      else if cursor \<noteq> [] \<and> sh_End sh \<noteq> [] \<and> sh_End sh \<le> cursor then listLoop F s p cursor limit out shards
      else case readBarrier F s (sh_GID sh) of
          Some e \<Rightarrow> Inl e
        | None \<Rightarrow> (case ListGroup F s (sh_GID sh) p cursor (int limit - int (length out)) of
            Inl e \<Rightarrow> Inl e
          | Inr entries \<Rightarrow>
              listLoop F s p cursor limit
                (out @ filter (\<lambda>e. \<not> (le_Key e < sh_Start sh \<or> (sh_End sh \<noteq> [] \<and> le_Key e \<ge> sh_End sh))) entries) shards))"

definition KVList :: "'s cenv \<Rightarrow> 's \<Rightarrow> bytes \<Rightarrow> bytes \<Rightarrow> int \<Rightarrow> string + ListEntry list \<times> bytes" where
  "KVList F s p cursor limit =
     (let limit = (if limit \<le> 0 \<or> limit > 10000 then 1000 else nat limit)
      in case Shards F s of
          Inl e \<Rightarrow> Inl e
        | Inr shards \<Rightarrow> (case listLoop F s p cursor limit [] shards of
            Inl e \<Rightarrow> Inl e
          | Inr out \<Rightarrow> Inr (out, if length out = limit then le_Key (last out) else [])))"

section \<open>Locks\<close>

definition LockAcquire :: "'s cenv \<Rightarrow> 's \<Rightarrow> bytes \<Rightarrow> bytes \<Rightarrow> bytes \<Rightarrow> i64 \<Rightarrow> i64 \<Rightarrow> 's \<times> (string + u64)" where
  "LockAcquire F s resource holder mode ttlMs nowMs =
     (let mode = (if mode \<noteq> str ''shared'' then str ''exclusive'' else mode)
      in case MetaPropose F s (zeroOp\<lparr>o_Type := ''lock'', o_Resource := resource, o_Holder := holder,
             o_Mode := mode, o_TTLms := ttlMs, o_NowMs := nowMs\<rparr>) of
          (s, r) \<Rightarrow> (s, case firstErr r of Some e \<Rightarrow> Inl e
            | None \<Rightarrow> Inr (case r of Inr res \<Rightarrow> res_Fencing res | Inl _ \<Rightarrow> 0)))"

definition LockRelease :: "'s cenv \<Rightarrow> 's \<Rightarrow> bytes \<Rightarrow> bytes \<Rightarrow> 's \<times> string option" where
  "LockRelease F s resource holder =
     (case MetaPropose F s (zeroOp\<lparr>o_Type := ''unlock'', o_Resource := resource, o_Holder := holder\<rparr>) of
        (s, r) \<Rightarrow> (s, firstErr r))"

definition LockForceUnlock :: "'s cenv \<Rightarrow> 's \<Rightarrow> bytes \<Rightarrow> 's \<times> string option" where
  "LockForceUnlock F s resource =
     (case MetaPropose F s (zeroOp\<lparr>o_Type := ''force_unlock'', o_Resource := resource\<rparr>) of
        (s, r) \<Rightarrow> (s, firstErr r))"

definition LockCheck :: "'s cenv \<Rightarrow> 's \<Rightarrow> bytes \<Rightarrow> string + Record option" where
  "LockCheck F s resource = MetaGet F s (lockKeyPrefix @ resource)"

end
