(* ===== verification/Shard_Map.thy ===== *)
theory Shard_Map
  imports Cluster KV_List
begin

text \<open>
  The shard map as a tiling of the keyspace: routing finds exactly one shard for every key, a split keeps
  the tiling, and a listing that walks the shards in order answers the pages of the sorted list of what
  the routed reads answer. The listing lemmas are proved once, inside a locale with the contract of the
  groups a listing asks.
\<close>

section \<open>Tilings\<close>

text \<open>Consecutive shards from \<open>a\<close> on: each starts where the last one ended and only the last is unbounded.\<close>

fun tiles :: "bytes \<Rightarrow> Shard list \<Rightarrow> bool" where
  "tiles a [] = False"
| "tiles a [sh] = (sh_Start sh = a \<and> sh_End sh = [])"
| "tiles a (sh # rest) = (sh_Start sh = a \<and> a < sh_End sh \<and> tiles (sh_End sh) rest)"

lemma tiles_Cons: "tiles a (sh # rest) \<longleftrightarrow>
    sh_Start sh = a \<and> (if rest = [] then sh_End sh = [] else a < sh_End sh \<and> tiles (sh_End sh) rest)"
  by (cases rest) auto

lemma less_not_Nil: "(a :: bytes) < b \<Longrightarrow> b \<noteq> []"
  by auto

lemma tiles_starts: "tiles a shs \<Longrightarrow> sh \<in> set shs \<Longrightarrow> a \<le> sh_Start sh"
proof (induction shs arbitrary: a)
  case (Cons x shs)
  then show ?case by (cases "shs = []") (auto simp: tiles_Cons dest!: order_less_imp_le intro: order_trans)
qed simp

lemma tiles_sorted: "tiles a shs \<Longrightarrow> sorted_wrt (\<lambda>x y. sh_Start x < sh_Start y) shs"
proof (induction shs arbitrary: a)
  case (Cons x shs)
  then show ?case by (cases "shs = []") (auto simp: tiles_Cons dest: tiles_starts intro: order_less_le_trans)
qed simp

lemma tiles_next: "tiles a (xs @ x # y # ys) \<Longrightarrow> sh_End x = sh_Start y \<and> sh_Start x < sh_End x"
proof (induction xs arbitrary: a)
  case Nil
  then show ?case by (cases ys) auto
next
  case (Cons z zs)
  then show ?case by (auto simp: tiles_Cons)
qed

text \<open>Every key from \<open>a\<close> on has exactly one shard.\<close>

lemma tiles_cover: "tiles a shs \<Longrightarrow> a \<le> k \<Longrightarrow> \<exists>!sh. sh \<in> set shs \<and> Covers sh k"
proof (induction shs arbitrary: a)
  case (Cons x shs)
  show ?case
  proof (cases "shs = []")
    case True
    with Cons.prems show ?thesis by (auto simp: tiles_Cons Covers_def)
  next
    case False
    with Cons.prems have t: "sh_Start x = a" "a < sh_End x" "tiles (sh_End x) shs" by (simp_all add: tiles_Cons)
    show ?thesis
    proof (cases "k < sh_End x")
      case True
      with t Cons.prems have "Covers x k" by (simp add: Covers_def)
      moreover have "\<not> Covers sh k" if "sh \<in> set shs" for sh
        using tiles_starts [OF t(3) that] True by (auto simp: Covers_def)
      ultimately show ?thesis by auto
    next
      case False
      with t have "\<not> Covers x k" by (auto simp: Covers_def)
      moreover have "\<exists>!sh. sh \<in> set shs \<and> Covers sh k" using Cons.IH [OF t(3)] False by simp
      ultimately show ?thesis by auto
    qed
  qed
qed simp

lemma find_unique: "\<exists>!x. x \<in> set xs \<and> P x \<Longrightarrow> find P xs = Some x \<longleftrightarrow> x \<in> set xs \<and> P x"
  by (metis find_Some_iff find_None_iff nth_mem option.exhaust)

lemma tiles_find: "tiles [] shs \<Longrightarrow> find (\<lambda>sh. Covers sh k) shs = Some sh \<longleftrightarrow> sh \<in> set shs \<and> Covers sh k"
  by (rule find_unique) (rule tiles_cover, auto intro: prefix_imp_le)


lemma tiles_strict: "tiles a shs \<Longrightarrow> sorted_wrt (<) (map sh_Start shs)"
  by (simp add: sorted_wrt_map tiles_sorted)

lemma tiles_distinct: "tiles a shs \<Longrightarrow> distinct (map sh_Start shs)"
  by (rule sorted_wrt_less_distinct) (rule tiles_strict)

text \<open>Splitting one tile in two leaves a tiling, whatever order the store lists the records in.\<close>

lemma tiles_split:
  assumes "tiles a (xs @ sh # ys)" "sh_Start sh < key" "sh_End sh = [] \<or> key < sh_End sh"
    "sh_Start lo = sh_Start sh" "sh_End lo = key" "sh_Start up = key" "sh_End up = sh_End sh"
  shows "tiles a (xs @ lo # up # ys)"
  using assms(1)
proof (induction xs arbitrary: a)
  case Nil
  with assms show ?case by (cases ys) auto
next
  case (Cons z zs)
  then show ?case by (auto simp: tiles_Cons)
qed

lemma sort_key_tiles:
  assumes "tiles a shs" "distinct xs" "set xs = set shs"
  shows "sort_key sh_Start xs = shs"
proof (rule map_sorted_distinct_set_unique [of sh_Start])
  note d = tiles_distinct [OF assms(1)]
  then show inj: "inj_on sh_Start (set (sort_key sh_Start xs) \<union> set shs)" by (simp add: assms(3) distinct_map)
  then show "distinct (map sh_Start (sort_key sh_Start xs))" using assms(2) by (simp add: distinct_map assms(3))
  show "sorted (map sh_Start shs)" using tiles_strict [OF assms(1)] by (simp add: strict_sorted_iff)
qed (use tiles_distinct [OF assms(1)] in \<open>simp_all add: assms(3)\<close>)

lemma tiles_flip:
  assumes t: "tiles [] (sort_key sh_Start xs)" and xs: "distinct xs" "sh \<in> set xs"
    and key: "sh_Start sh < key" "sh_End sh = [] \<or> key < sh_End sh"
    and lo: "sh_Start lo = sh_Start sh" "sh_End lo = key" and up: "sh_Start up = key" "sh_End up = sh_End sh"
    and ys: "distinct ys" "set ys = set xs - {sh} \<union> {lo, up}"
  shows "tiles [] (sort_key sh_Start ys)"
proof -
  have "sh \<in> set (sort_key sh_Start xs)" using xs by simp
  then obtain as bs where eq: "sort_key sh_Start xs = as @ sh # bs" by (meson split_list)
  then have t': "tiles [] (as @ lo # up # bs)" using tiles_split [OF t [unfolded eq] key lo up] by simp
  have "set xs = set as \<union> {sh} \<union> set bs" using arg_cong [OF eq, of set] by auto
  moreover have "sh \<notin> set as" "sh \<notin> set bs" using xs(1) eq by (metis distinct_append distinct_sort distinct.simps(2) disjoint_iff list.set_intros(1))+
  ultimately have "set ys = set (as @ lo # up # bs)" using ys(2) by auto
  with sort_key_tiles [OF t' ys(1)] t' show ?thesis by simp
qed

section \<open>Prefixes and shards\<close>

lemma prefixUpper_bound: "prefix p k \<Longrightarrow> prefixUpper p \<noteq> [] \<Longrightarrow> k < prefixUpper p"
  using prefix_iff_upper [of p k] by (auto simp: prefixUpper_def prefixUpperBound_def split: if_splits)

text \<open>A shard that a listing skips owns no key the listing asks for.\<close>

lemma skipped_prefix: "\<not> meetsPrefix p sh \<Longrightarrow> prefix p k \<Longrightarrow> \<not> Covers sh k"
  using prefixUpper_bound [of p k] prefix_imp_le [of p k]
  by (auto simp: meetsPrefix_def Covers_def)

lemma skipped_cursor: "sh_End sh \<noteq> [] \<Longrightarrow> sh_End sh \<le> cursor \<Longrightarrow> cursor < k \<Longrightarrow> \<not> Covers sh k"
  by (auto simp: Covers_def)


section \<open>Listings across shards\<close>

text \<open>What a routed read of \<open>k\<close> answers when group \<open>g\<close> holds \<open>content g\<close>.\<close>

definition routed :: "Shard list \<Rightarrow> (u64 \<Rightarrow> bytes \<rightharpoonup> Record) \<Rightarrow> bytes \<rightharpoonup> Record" where
  "routed shs content k = Option.bind (find (\<lambda>sh. Covers sh k) shs) (\<lambda>sh. content (sh_GID sh) k)"

text \<open>The keys a listing asks for.\<close>

definition wanted :: "bytes \<Rightarrow> bytes \<Rightarrow> bytes \<Rightarrow> bool" where
  "wanted p cursor k \<longleftrightarrow> prefix p k \<and> (cursor = [] \<or> cursor < k)"

lemma listing_elem: "listing l P es \<Longrightarrow> e \<in> set es \<Longrightarrow> P (le_Key e) \<and> l (le_Key e) = Some (le_Record e)"
  by (auto simp: listing_def)

lemma filter_take_initial:
  assumes "sorted_wrt (\<lambda>x y. P y \<longrightarrow> P x) xs"
  shows "filter P (take n xs) = take n (filter P xs)"
  using assms
proof (induction xs arbitrary: n)
  case (Cons x xs)
  show ?case
  proof (cases "P x")
    case False
    with Cons.prems have "filter P xs = []" by (auto simp: filter_empty_conv)
    moreover from this have "filter P (take m xs) = []" for m by (auto simp: filter_empty_conv dest: in_set_takeD)
    ultimately show ?thesis using False by (cases n) simp_all
  qed (use Cons in \<open>cases n; simp\<close>)
qed simp

text \<open>
  The contract of a listing: a tiling, groups whose barrier passes and that answer gets and pages from
  their contents, and no group with keys below its shard. A group may hold keys above its shard: the moved
  half that a split has not cleaned up yet.
\<close>

locale shard_reads =
  fixes F :: "'s cenv" and s :: 's and content :: "u64 \<Rightarrow> bytes \<rightharpoonup> Record" and shards :: "Shard list"
  assumes shard_map: "Shards F s = Inr shards" and tiling: "tiles [] shards"
    and barrier: "sh \<in> set shards \<Longrightarrow> readBarrier F s (sh_GID sh) = None"
    and get: "sh \<in> set shards \<Longrightarrow> localGet F s (sh_GID sh) = Some (\<lambda>k. Inr (content (sh_GID sh) k))"
    and page: "sh \<in> set shards \<Longrightarrow> cursor = [] \<or> p \<le> cursor \<Longrightarrow> 0 < n \<Longrightarrow> n \<le> 10000 \<Longrightarrow>
      \<exists>es. ListGroup F s (sh_GID sh) p cursor n = Inr (take (nat n) es) \<and>
        listing (content (sh_GID sh)) (\<lambda>k. prefix p k \<and> (cursor = [] \<or> cursor < k)) es"
    and no_early: "sh \<in> set shards \<Longrightarrow> content (sh_GID sh) k \<noteq> None \<Longrightarrow> sh_Start sh \<le> k"
begin

lemma routed_covered: "sh \<in> set shards \<Longrightarrow> Covers sh k \<Longrightarrow> routed shards content k = content (sh_GID sh) k"
  using tiles_find [OF tiling, THEN iffD2, of sh k] by (simp add: routed_def)

lemma ShardFor_covering: "ShardFor F s k = Inr sh \<longleftrightarrow> sh \<in> set shards \<and> Covers sh k"
  using tiles_find [OF tiling, of k sh] by (auto simp: ShardFor_def shard_map split: option.splits)

lemma covering: obtains sh where "sh \<in> set shards" "Covers sh k"
  using tiles_cover [OF tiling, of k] by (auto intro: prefix_imp_le)

lemma KVGet_routed: "KVGet F s k = (s, Inr (routed shards content k))"
proof (rule covering)
  fix sh assume sh: "sh \<in> set shards" "Covers sh k"
  then have "ShardFor F s k = Inr sh" by (simp add: ShardFor_covering)
  with sh show ?thesis by (simp add: KVGet_def get routed_covered)
qed

lemma group_listing:
  assumes "cursor = [] \<or> p \<le> cursor"
  obtains es where "\<And>sh. sh \<in> set shards \<Longrightarrow> listing (content (sh_GID sh)) (wanted p cursor) (es sh)"
    "\<And>sh n. sh \<in> set shards \<Longrightarrow> 0 < n \<Longrightarrow> n \<le> 10000 \<Longrightarrow> ListGroup F s (sh_GID sh) p cursor n = Inr (take (nat n) (es sh))"
proof -
  have pg: "\<exists>es. ListGroup F s (sh_GID sh) p cursor n = Inr (take (nat n) es) \<and> listing (content (sh_GID sh)) (wanted p cursor) es"
    if "sh \<in> set shards" "0 < n" "n \<le> 10000" for sh n
    using page [OF that(1) assms that(2,3)] unfolding wanted_def .
  from pg [where n = 1] have "\<forall>sh \<in> set shards. \<exists>es. listing (content (sh_GID sh)) (wanted p cursor) es" by auto
  then obtain es where es: "\<And>sh. sh \<in> set shards \<Longrightarrow> listing (content (sh_GID sh)) (wanted p cursor) (es sh)" by metis
  moreover have "ListGroup F s (sh_GID sh) p cursor n = Inr (take (nat n) (es sh))" if "sh \<in> set shards" "0 < n" "n \<le> 10000" for sh n
    using pg [OF that] listing_unique [OF es [OF that(1)]] by auto
  ultimately show ?thesis by (rule that)
qed

abbreviation owned :: "Shard \<Rightarrow> ListEntry list \<Rightarrow> ListEntry list" where
  "owned sh \<equiv> filter (\<lambda>e. Covers sh (le_Key e))"

lemma clip_page:
  assumes sh: "sh \<in> set shards" and es: "listing (content (sh_GID sh)) (wanted p cursor) es"
  shows "filter (\<lambda>e. \<not> (le_Key e < sh_Start sh \<or> (sh_End sh \<noteq> [] \<and> le_Key e \<ge> sh_End sh))) (take n es) = take n (owned sh es)"
proof -
  have keys: "sh_Start sh \<le> le_Key e" if "e \<in> set es" for e
    using no_early [OF sh] listing_elem [OF es that] by auto
  have "sorted_wrt (\<lambda>x y. le_Key x < le_Key y) es" using es by (simp add: listing_def sorted_wrt_map)
  then have "sorted_wrt (\<lambda>x y. Covers sh (le_Key y) \<longrightarrow> Covers sh (le_Key x)) es"
  proof (rule sorted_wrt_mono_rel [rotated])
    fix x y assume "x \<in> set es" "le_Key x < le_Key y"
    with keys [of x] show "Covers sh (le_Key y) \<longrightarrow> Covers sh (le_Key x)"
      unfolding Covers_def by (metis order_less_trans)
  qed
  from filter_take_initial [OF this] have "filter (\<lambda>e. Covers sh (le_Key e)) (take n es) = take n (owned sh es)" .
  moreover have "(\<not> (k < sh_Start sh \<or> (sh_End sh \<noteq> [] \<and> k \<ge> sh_End sh))) = Covers sh k" for k
    by (auto simp: Covers_def)
  ultimately show ?thesis by simp
qed

lemma listLoop_pages:
  assumes es: "\<And>sh. sh \<in> set shards \<Longrightarrow> listing (content (sh_GID sh)) (wanted p cursor) (es sh)"
    and pages: "\<And>sh n. sh \<in> set shards \<Longrightarrow> 0 < n \<Longrightarrow> n \<le> 10000 \<Longrightarrow> ListGroup F s (sh_GID sh) p cursor n = Inr (take (nat n) (es sh))"
    and limit: "limit \<le> 10000" "length out \<le> limit" and shs: "set shs \<subseteq> set shards"
  shows "listLoop F s p cursor limit out shs = Inr (take limit (out @ concat (map (\<lambda>sh. owned sh (es sh)) shs)))"
  using limit(2) shs
proof (induction shs arbitrary: out)
  case (Cons sh shs)
  let ?own = "owned sh (es sh)"
  have sh: "sh \<in> set shards" using Cons.prems by simp
  have none: "?own = []" if "\<not> meetsPrefix p sh \<or> cursor \<noteq> [] \<and> sh_End sh \<noteq> [] \<and> sh_End sh \<le> cursor"
  proof -
    have "\<not> Covers sh (le_Key e)" if e: "e \<in> set (es sh)" for e
    proof -
      have "wanted p cursor (le_Key e)" using listing_elem [OF es [OF sh] e] ..
      with \<open>\<not> meetsPrefix p sh \<or> cursor \<noteq> [] \<and> sh_End sh \<noteq> [] \<and> sh_End sh \<le> cursor\<close> show ?thesis
        using skipped_prefix [of p sh] skipped_cursor [of sh cursor] by (auto simp: wanted_def)
    qed
    then show ?thesis by (simp add: filter_empty_conv)
  qed
  show ?case
  proof (cases "limit \<le> length out")
    case True
    with Cons.prems show ?thesis by simp
  next
    case False
    show ?thesis
    proof (cases "\<not> meetsPrefix p sh \<or> cursor \<noteq> [] \<and> sh_End sh \<noteq> [] \<and> sh_End sh \<le> cursor")
      case True
      then have "listLoop F s p cursor limit out (sh # shs) = listLoop F s p cursor limit out shs" using False by simp
      with Cons.IH [of out] Cons.prems none [OF True] show ?thesis by simp
    next
      case hit: False
      let ?out = "out @ take (limit - length out) ?own"
      have n: "nat (int limit - int (length out)) = limit - length out" by simp
      have "listLoop F s p cursor limit out (sh # shs) = listLoop F s p cursor limit (out @
          filter (\<lambda>e. \<not> (le_Key e < sh_Start sh \<or> (sh_End sh \<noteq> [] \<and> le_Key e \<ge> sh_End sh))) (take (limit - length out) (es sh))) shs"
        using hit False limit(1) by (auto simp: barrier [OF sh] pages [OF sh] n)
      also have "\<dots> = listLoop F s p cursor limit ?out shs" unfolding clip_page [OF sh es [OF sh]] ..
      also have "\<dots> = Inr (take limit (?out @ concat (map (\<lambda>sh. owned sh (es sh)) shs)))"
        using Cons.IH [of ?out] Cons.prems by simp
      also have "take limit (?out @ concat (map (\<lambda>sh. owned sh (es sh)) shs)) =
          take limit (out @ ?own @ concat (map (\<lambda>sh. owned sh (es sh)) shs))"
        using False by (auto simp: min_def)
      finally show ?thesis by simp
    qed
  qed
qed simp

end


lemma concat_sorted:
  assumes "tiles a shs"
    and f: "\<And>sh. sh \<in> set shs \<Longrightarrow> sorted_wrt (<) (map le_Key (f sh)) \<and> (\<forall>e \<in> set (f sh). Covers sh (le_Key e))"
  shows "sorted_wrt (<) (map le_Key (concat (map f shs)))"
  using assms
proof (induction shs arbitrary: a)
  case (Cons x shs)
  show ?case
  proof (cases "shs = []")
    case True
    with Cons.prems(2) [of x] show ?thesis by simp
  next
    case False
    with Cons.prems(1) have t: "sh_Start x = a" "a < sh_End x" "tiles (sh_End x) shs" by (simp_all add: tiles_Cons)
    have "le_Key e < le_Key e'" if "e \<in> set (f x)" "sh \<in> set shs" "e' \<in> set (f sh)" for e sh e'
    proof -
      have "le_Key e < sh_End x" using Cons.prems(2) [of x] that(1) less_not_Nil [OF t(2)] by (auto simp: Covers_def)
      also have "sh_End x \<le> sh_Start sh" by (rule tiles_starts [OF t(3) that(2)])
      also have "sh_Start sh \<le> le_Key e'" using Cons.prems(2) [of sh] that(2,3) by (auto simp: Covers_def)
      finally show ?thesis .
    qed
    moreover have "sorted_wrt (<) (map le_Key (concat (map f shs)))"
      using Cons.IH [OF t(3)] Cons.prems(2) by simp
    moreover have "sorted_wrt (<) (map le_Key (f x))" using Cons.prems(2) [of x] by simp
    ultimately show ?thesis by (auto simp: sorted_wrt_append)
  qed
qed simp

lemma page_next:
  assumes "0 < n"
  shows "(if length (take n xs) = n then f (last (take n xs)) else d) = (if n \<le> length xs then f (xs ! (n - 1)) else d)"
proof (cases "n \<le> length xs")
  case True
  with assms have "take n xs \<noteq> []" "length (take n xs) = n" by auto
  then have "last (take n xs) = xs ! (n - 1)" using assms by (simp add: last_conv_nth)
  with True show ?thesis by simp
qed simp

context shard_reads
begin

lemma listing_routed:
  assumes es: "\<And>sh. sh \<in> set shards \<Longrightarrow> listing (content (sh_GID sh)) (wanted p cursor) (es sh)"
  shows "listing (routed shards content) (wanted p cursor) (concat (map (\<lambda>sh. owned sh (es sh)) shards))"
  unfolding listing_def
proof
  show "sorted_wrt (<) (map le_Key (concat (map (\<lambda>sh. owned sh (es sh)) shards)))"
  proof (rule concat_sorted [OF tiling])
    fix sh assume "sh \<in> set shards"
    then have "sorted_wrt (<) (map le_Key (es sh))" using es by (simp add: listing_def)
    then show "sorted_wrt (<) (map le_Key (owned sh (es sh))) \<and> (\<forall>e \<in> set (owned sh (es sh)). Covers sh (le_Key e))"
      by (simp add: sorted_wrt_map sorted_wrt_filter)
  qed
  show "set (concat (map (\<lambda>sh. owned sh (es sh)) shards)) =
    {\<lparr>le_Key = k, le_Record = r\<rparr> | k r. routed shards content k = Some r \<and> wanted p cursor k}"
  proof (intro set_eqI iffI)
    fix e assume "e \<in> set (concat (map (\<lambda>sh. owned sh (es sh)) shards))"
    then obtain sh where sh: "sh \<in> set shards" "e \<in> set (es sh)" "Covers sh (le_Key e)" by auto
    with listing_elem [OF es [OF sh(1)] sh(2)] have "routed shards content (le_Key e) = Some (le_Record e)" "wanted p cursor (le_Key e)"
      by (simp_all add: routed_covered)
    then show "e \<in> {\<lparr>le_Key = k, le_Record = r\<rparr> | k r. routed shards content k = Some r \<and> wanted p cursor k}"
      by (intro CollectI exI [of _ "le_Key e"] exI [of _ "le_Record e"]) simp
  next
    fix e assume "e \<in> {\<lparr>le_Key = k, le_Record = r\<rparr> | k r. routed shards content k = Some r \<and> wanted p cursor k}"
    then obtain k r where e: "e = \<lparr>le_Key = k, le_Record = r\<rparr>" "routed shards content k = Some r" "wanted p cursor k" by blast
    obtain sh where sh: "sh \<in> set shards" "Covers sh k" by (rule covering)
    with e have "e \<in> set (es sh)" using es [OF sh(1)] by (auto simp: listing_def routed_covered)
    with sh e(1) show "e \<in> set (concat (map (\<lambda>sh. owned sh (es sh)) shards))" by auto
  qed
qed

lemma KVList_page:
  assumes "cursor = [] \<or> p \<le> cursor"
  obtains es where "listing (routed shards content) (wanted p cursor) es"
    "KVList F s p cursor limit = Inr (take (clampLimit limit) es,
       if clampLimit limit \<le> length es then le_Key (es ! (clampLimit limit - 1)) else [])"
proof (rule group_listing [OF assms])
  fix es assume es: "\<And>sh. sh \<in> set shards \<Longrightarrow> listing (content (sh_GID sh)) (wanted p cursor) (es sh)"
    and pages: "\<And>sh n. sh \<in> set shards \<Longrightarrow> 0 < n \<Longrightarrow> n \<le> 10000 \<Longrightarrow> ListGroup F s (sh_GID sh) p cursor n = Inr (take (nat n) (es sh))"
  let ?all = "concat (map (\<lambda>sh. owned sh (es sh)) shards)" and ?n = "clampLimit limit"
  have n: "0 < ?n" "?n \<le> 10000" by (auto simp: clampLimit_def)
  have loop: "listLoop F s p cursor ?n [] shards = Inr (take ?n ?all)"
    using listLoop_pages [OF es pages n(2), of "[]" shards] by simp
  have "KVList F s p cursor limit = Inr (take ?n ?all, if length (take ?n ?all) = ?n then le_Key (last (take ?n ?all)) else [])"
    unfolding KVList_def Let_def shard_map clampLimit_def [symmetric] loop sum.case ..
  then have "KVList F s p cursor limit = Inr (take ?n ?all, if ?n \<le> length ?all then le_Key (?all ! (?n - 1)) else [])"
    by (simp only: page_next [OF n(1)])
  with listing_routed [OF es] show ?thesis by (rule that)
qed

end


text \<open>The entries after a key are the listing with that key as the cursor.\<close>

lemma listing_after:
  assumes "listing l (\<lambda>k. prefix p k \<and> (cursor = [] \<or> cursor < k)) es" "i < length es" "le_Key (es ! i) \<noteq> []"
  shows "listing l (\<lambda>k. prefix p k \<and> (le_Key (es ! i) = [] \<or> le_Key (es ! i) < k)) (drop (Suc i) es)"
proof -
  let ?c = "le_Key (es ! i)"
  have s: "sorted_wrt (\<lambda>x y. le_Key x < le_Key y) es" using assms(1) by (simp add: listing_def sorted_wrt_map)
  have es: "es = take i es @ es ! i # drop (Suc i) es" by (rule id_take_nth_drop [OF assms(2)])
  have before: "\<forall>x \<in> set (take i es). le_Key x < ?c" and after: "\<forall>y \<in> set (drop (Suc i) es). ?c < le_Key y"
    using s by (subst (asm) es; auto simp: sorted_wrt_append)+
  have mem: "e \<in> set (drop (Suc i) es) \<longleftrightarrow> e \<in> set es \<and> ?c < le_Key e" for e
  proof
    assume "e \<in> set es \<and> ?c < le_Key e"
    then show "e \<in> set (drop (Suc i) es)" using before by (subst (asm) (1) es) auto
  qed (use after in \<open>auto dest: in_set_dropD\<close>)
  have "prefix p ?c \<and> (cursor = [] \<or> cursor < ?c)" using listing_elem [OF assms(1) nth_mem [OF assms(2)]] by simp
  then have "cursor = [] \<or> cursor < k" if "?c < k" for k using that by (auto intro: order_less_trans)
  then have "set (drop (Suc i) es) = {\<lparr>le_Key = k, le_Record = r\<rparr> | k r. l k = Some r \<and> prefix p k \<and> ?c < k}"
    using assms(1) unfolding listing_def set_eq_iff mem by auto
  moreover have "sorted_wrt (\<lambda>x y. le_Key x < le_Key y) (drop (Suc i) es)" using s by (rule sorted_wrt_drop)
  ultimately show ?thesis using assms(3) by (simp add: listing_def sorted_wrt_map)
qed

context shard_reads
begin

lemma KVList_next:
  assumes es: "listing (routed shards content) (wanted p cursor) es" and n: "clampLimit limit \<le> length es"
    and ne: "le_Key (es ! (clampLimit limit - 1)) \<noteq> []"
  shows "\<exists>next'. KVList F s p (le_Key (es ! (clampLimit limit - 1))) limit = Inr (take (clampLimit limit) (drop (clampLimit limit) es), next')"
proof -
  let ?n = "clampLimit limit" and ?c = "le_Key (es ! (clampLimit limit - 1))"
  have pos: "0 < ?n" by (simp add: clampLimit_def)
  with n have i: "?n - 1 < length es" by simp
  have "listing (routed shards content) (wanted p ?c) (drop (Suc (?n - 1)) es)"
    using listing_after [OF es [unfolded wanted_def] i ne] unfolding wanted_def .
  then have es': "listing (routed shards content) (wanted p ?c) (drop ?n es)" using pos by simp
  have "wanted p cursor ?c" using listing_elem [OF es nth_mem [OF i]] by simp
  then have "?c = [] \<or> p \<le> ?c" by (auto simp: wanted_def dest: prefix_imp_le)
  then obtain es2 where "listing (routed shards content) (wanted p ?c) es2"
    "KVList F s p ?c limit = Inr (take ?n es2, if ?n \<le> length es2 then le_Key (es2 ! (?n - 1)) else [])"
    by (rule KVList_page)
  with listing_unique [OF es'] show ?thesis by auto
qed

end

end
