(* ===== verification/Fabric.thy ===== *)
theory Fabric
  imports Shard_Map
begin

text \<open>
  The fabric of a node that hosts the groups it talks to (the local branches of
  \<^verbatim>\<open>pkg/server/fabric.go\<close> and \<^verbatim>\<open>localLinearizableGet\<close> of \<^verbatim>\<open>readindex.go\<close>): a
  proposal is encoded, takes the next index of the group's log, is applied there, and its result comes
  back. Between the proposals of one caller other clients may have entries committed in any group: the
  state carries them as one batch of entries per proposal, in the order they commit.

  The machine of each group carries its own store; the groups of a node share one Pebble database, in
  which their keys are disjoint (theory Store).
\<close>

section \<open>Commands on the wire\<close>

text \<open>Commands that survive JSON: valid strings and maps without duplicate keys.\<close>

definition op_wire :: "Op \<Rightarrow> bool" where
  "op_wire x \<longleftrightarrow> op_utf8 x \<and> distinct (map fst (o_Reads x)) \<and> distinct (map fst (o_Pairs x))"

definition wire :: "'db env \<Rightarrow> (Op \<Rightarrow> bytes) \<Rightarrow> bool" where
  "wire E enc \<longleftrightarrow> (\<forall>x. op_wire x \<longrightarrow> entryOp E (enc x) = Some x)"

section \<open>The hosted groups\<close>

record 'db hosted =
  ho_groups :: "u64 \<Rightarrow> ('db SM \<times> u64) option"
  ho_others :: "(u64 \<times> bytes) list list"

definition MetaGID :: u64 where "MetaGID = 1"

text \<open>
  One committed entry of a group: the machine and the next index move on. A log whose 64-bit index is used
  up takes no more entries.
\<close>

definition commitEntry :: "'db env \<Rightarrow> u64 \<Rightarrow> bytes \<Rightarrow> (u64 \<Rightarrow> ('db SM \<times> u64) option) \<Rightarrow>
    (u64 \<Rightarrow> ('db SM \<times> u64) option) \<times> (string + Result)" where
  "commitEntry E gid data G = (case G gid of
     None \<Rightarrow> (G, Inl ''no reachable member for group'')
   | Some (sm, i) \<Rightarrow>
       if i = - 1 then (G, Inl ''log index exhausted'')
       else case applyEntry E i data sm of
           Inl e \<Rightarrow> (G, Inl ''apply'')
         | Inr (res, sm') \<Rightarrow> (G(gid \<mapsto> (sm', i + 1)),
             case res of None \<Rightarrow> Inl ''unexpected result type'' | Some r \<Rightarrow> Inr r))"

fun commitOthers :: "'db env \<Rightarrow> (u64 \<times> bytes) list \<Rightarrow> (u64 \<Rightarrow> ('db SM \<times> u64) option) \<Rightarrow> (u64 \<Rightarrow> ('db SM \<times> u64) option)" where
  "commitOthers E [] G = G"
| "commitOthers E ((gid, data) # es) G = commitOthers E es (fst (commitEntry E gid data G))"

text \<open>The batch of other clients that comes next, and the state after it.\<close>

definition admit :: "'db env \<Rightarrow> 'db hosted \<Rightarrow> 'db hosted" where
  "admit E H = (case ho_others H of
     [] \<Rightarrow> H
   | es # rest \<Rightarrow> \<lparr>ho_groups = commitOthers E es (ho_groups H), ho_others = rest\<rparr>)"

definition hostPropose :: "'db env \<Rightarrow> (Op \<Rightarrow> bytes) \<Rightarrow> 'db hosted \<Rightarrow> u64 \<Rightarrow> Op \<Rightarrow> 'db hosted \<times> (string + Result)" where
  "hostPropose E enc H gid op =
     (let H = admit E H
      in case commitEntry E gid (enc op) (ho_groups H) of
          (G, r) \<Rightarrow> (H\<lparr>ho_groups := G\<rparr>, r))"

definition hostGet :: "'db env \<Rightarrow> 'db hosted \<Rightarrow> u64 \<Rightarrow> (bytes \<Rightarrow> string + Record option) option" where
  "hostGet E H gid = (case ho_groups H gid of
     None \<Rightarrow> None
   | Some (sm, i) \<Rightarrow> Some (\<lambda>key. case fst (GetLocal E sm key) of Inl e \<Rightarrow> Inl ''Internal'' | Inr (rec, rv) \<Rightarrow> Inr rec))"

definition hostMetaGet :: "'db env \<Rightarrow> 'db hosted \<Rightarrow> bytes \<Rightarrow> string + Record option" where
  "hostMetaGet E H key = (case ho_groups H MetaGID of
     None \<Rightarrow> Inl ''no metadata member known''
   | Some (sm, i) \<Rightarrow> (case fst (GetRecord E sm key) of Inl e \<Rightarrow> Inl ''store'' | Inr rec \<Rightarrow> Inr rec))"

definition hostList :: "'db env \<Rightarrow> 'db hosted \<Rightarrow> u64 \<Rightarrow> bytes \<Rightarrow> bytes \<Rightarrow> int \<Rightarrow> string + ListEntry list" where
  "hostList E H gid p cursor limit = (case ho_groups H gid of
     None \<Rightarrow> Inl ''no reachable member for group''
   | Some (sm, i) \<Rightarrow> (case fst (ListSM E sm p cursor limit) of Inl e \<Rightarrow> Inl ''store'' | Inr es \<Rightarrow> Inr es))"

text \<open>
  A new group starts with an empty store \<open>db0\<close>; the call is idempotent. The codecs and the configuration
  come from \<open>C\<close>.
\<close>

definition hostCreate :: "'db env \<Rightarrow> 'db \<Rightarrow> int \<Rightarrow> 'db hosted \<Rightarrow> u64 \<Rightarrow> u64 list \<Rightarrow> 'db hosted \<times> string option" where
  "hostCreate E db0 maxValue H gid members = (case ho_groups H gid of
     Some _ \<Rightarrow> (H, None)
   | None \<Rightarrow> (case NewSM E gid db0 None maxValue of
       Inl e \<Rightarrow> (H, Some ''store'')
     | Inr sm \<Rightarrow> (H\<lparr>ho_groups := (ho_groups H)(gid \<mapsto> (sm, 1))\<rparr>, None)))"

definition hostFabric :: "'db env \<Rightarrow> (Op \<Rightarrow> bytes) \<Rightarrow> 'db \<Rightarrow> 'db hosted cenv \<Rightarrow> 'db hosted cenv" where
  "hostFabric E enc db0 C = C\<lparr>
     MetaGet := hostMetaGet E,
     MetaList := (\<lambda>H p limit. hostList E H MetaGID p [] limit),
     MetaPropose := (\<lambda>H. hostPropose E enc H MetaGID),
     ProposeToGroup := hostPropose E enc,
     ListGroup := hostList E,
     readBarrier := (\<lambda>H gid. None),
     localGet := hostGet E,
     CreateGroupEverywhere := hostCreate E db0 (maxValueBytes C)\<rparr>"

lemma hostFabric_simps [simp]:
  "MetaGet (hostFabric E enc db0 C) = hostMetaGet E"
  "MetaList (hostFabric E enc db0 C) H p limit = hostList E H MetaGID p [] limit"
  "MetaPropose (hostFabric E enc db0 C) H = hostPropose E enc H MetaGID"
  "ProposeToGroup (hostFabric E enc db0 C) = hostPropose E enc"
  "ListGroup (hostFabric E enc db0 C) = hostList E"
  "readBarrier (hostFabric E enc db0 C) H gid = None"
  "localGet (hostFabric E enc db0 C) = hostGet E"
  "IsMetaLeader (hostFabric E enc db0 C) = IsMetaLeader C"
  "maxValueBytes (hostFabric E enc db0 C) = maxValueBytes C"
  "txTimeout (hostFabric E enc db0 C) = txTimeout C"
  "marshalTx (hostFabric E enc db0 C) = marshalTx C"
  "unmarshalTx (hostFabric E enc db0 C) = unmarshalTx C"
  "marshalShard (hostFabric E enc db0 C) = marshalShard C"
  "unmarshalShard (hostFabric E enc db0 C) = unmarshalShard C"
  "marshalCleanup (hostFabric E enc db0 C) = marshalCleanup C"
  "unmarshalCleanup (hostFabric E enc db0 C) = unmarshalCleanup C"
  "marshalNum (hostFabric E enc db0 C) = marshalNum C"
  "unmarshalNum (hostFabric E enc db0 C) = unmarshalNum C"
  by (simp_all add: hostFabric_def)

section \<open>Reads of the hosted groups\<close>

text \<open>The contents of a group, and well-formed groups of a shard map: no key below its shard.\<close>

definition hostLive :: "'db env \<Rightarrow> ('db \<Rightarrow> bytes \<rightharpoonup> bytes) \<Rightarrow> 'db hosted \<Rightarrow> u64 \<Rightarrow> bytes \<rightharpoonup> Record" where
  "hostLive E view H g = (case ho_groups H g of None \<Rightarrow> (\<lambda>_. None) | Some (sm, i) \<Rightarrow> smLive E view sm)"

definition shard_hosted :: "'db env \<Rightarrow> ('db \<Rightarrow> bytes \<rightharpoonup> bytes) \<Rightarrow> 'db hosted \<Rightarrow> Shard \<Rightarrow> bool" where
  "shard_hosted E view H sh \<longleftrightarrow> (\<exists>sm i. ho_groups H (sh_GID sh) = Some (sm, i) \<and> sm_ok E view sm \<and>
     (\<forall>k. smLive E view sm k \<noteq> None \<longrightarrow> sh_Start sh \<le> k))"

locale hosted_node = kv_env E view
  for E :: "'db env" and view :: "'db \<Rightarrow> bytes \<rightharpoonup> bytes" +
  fixes enc :: "Op \<Rightarrow> bytes" and db0 :: 'db and C :: "'db hosted cenv" and H :: "'db hosted" and shards :: "Shard list"
  assumes node_shards: "Shards (hostFabric E enc db0 C) H = Inr shards" and node_tiles: "tiles [] shards"
    and node_groups: "list_all (shard_hosted E view H) shards"
begin

lemma node_group:
  assumes "sh \<in> set shards"
  obtains sm i where "ho_groups H (sh_GID sh) = Some (sm, i)" "sm_ok E view sm"
    "hostLive E view H (sh_GID sh) = smLive E view sm" "\<And>k. smLive E view sm k \<noteq> None \<Longrightarrow> sh_Start sh \<le> k"
  using assms node_groups unfolding list_all_iff shard_hosted_def hostLive_def by fastforce

end

sublocale hosted_node \<subseteq> reads: shard_reads "hostFabric E enc db0 C" H "hostLive E view H" shards
proof (unfold_locales, goal_cases)
  case 1
  show ?case by (rule node_shards)
next
  case 2
  show ?case by (rule node_tiles)
next
  case (4 sh)
  obtain sm i where g: "ho_groups H (sh_GID sh) = Some (sm, i)" "sm_ok E view sm" "hostLive E view H (sh_GID sh) = smLive E view sm"
    by (rule node_group [OF 4])
  show ?case by (simp add: hostGet_def g GetLocal_live [OF g(2)])
next
  case (5 sh cursor p n)
  obtain sm i where g: "ho_groups H (sh_GID sh) = Some (sm, i)" "sm_ok E view sm" "hostLive E view H (sh_GID sh) = smLive E view sm"
    by (rule node_group [OF 5(1)])
  obtain es where "listLatestFrom E sm (sm_st sm) p cursor n = Inr (take (clampLimit n) es)"
    "listing (smLive E view sm) (\<lambda>k. prefix p k \<and> (cursor = [] \<or> cursor < k)) es"
    by (rule listLatestFrom_page [OF g(2) 5(2)])
  moreover have "clampLimit n = nat n" using 5(3,4) by (simp add: clampLimit_def)
  ultimately show ?case by (intro exI [of _ es]) (simp add: hostList_def ListSM_def g)
next
  case (6 sh k)
  then show ?case by (metis node_group)
qed simp


context hosted_node
begin

lemma reads_contract: "shard_reads (hostFabric E enc db0 C) H (hostLive E view H) shards"
  by (rule reads.shard_reads_axioms)

end

end
