(* ===== verification/Cluster_Ref.thy ===== *)
theory Cluster_Ref
  imports Fabric Reference
begin

text \<open>
  A concrete environment for clusters: a byte codec for whole commands and for the cluster's records, on
  top of the reference store. The hypotheses of the cluster properties hold here, and the witnesses run
  on it.
\<close>

section \<open>Records\<close>

definition encOp :: "Op \<Rightarrow> bytes" where
  "encOp = encPair encText (encPair encBytes (encPair encBytes (encPair encBool (encPair encBytes (encPair encBytes
     (encPair be64 (encPair encBytes (encPair encBytes (encPair encInt (encPair encBytes
     (encPair (encList (encPair encBytes be64)) (encPair (encList encWrite) (encPair encBytes (encPair encBytes
     (encPair encBytes (encPair be64 (encPair be64 (encList (encPair encBytes encRecord))))))))))))))))))) \<circ>
     (\<lambda>x. (o_Type x, o_Key x, o_Value x, o_Blob x, o_Start x, o_End x, o_AtRev x, o_Prefix x, o_Cursor x, o_Limit x,
        o_TxID x, o_Reads x, o_Writes x, o_Resource x, o_Holder x, o_Mode x, o_TTLms x, o_NowMs x, o_Pairs x))"

definition decOp :: "bytes \<Rightarrow> (Op \<times> bytes) option" where
  "decOp = (\<lambda>bs. map_option (\<lambda>(y, r). ((\<lambda>(ty, key, val, bl, st, en, atr, pre, cur, lim, tx, rds, wrs, res, hol, mo, ttl, now, prs).
       \<lparr>o_Type = ty, o_Key = key, o_Value = val, o_Blob = bl, o_Start = st, o_End = en, o_AtRev = atr, o_Prefix = pre,
        o_Cursor = cur, o_Limit = lim, o_TxID = tx, o_Reads = rds, o_Writes = wrs, o_Resource = res, o_Holder = hol,
        o_Mode = mo, o_TTLms = ttl, o_NowMs = now, o_Pairs = prs\<rparr>) y, r))
     (decPair decText (decPair decBytes (decPair decBytes (decPair decBool (decPair decBytes (decPair decBytes
     (decPair decU64 (decPair decBytes (decPair decBytes (decPair decInt (decPair decBytes
     (decPair (decList (decPair decBytes decU64)) (decPair (decList decWrite) (decPair decBytes (decPair decBytes
     (decPair decBytes (decPair decU64 (decPair decU64 (decList (decPair decBytes decRecord))))))))))))))))))) bs))"

lemmas inverts_all = inverts_intros inverts_int inverts_text inverts_write inverts_record

lemma inverts_op: "inverts encOp decOp"
  by (rule inverts_convI [OF _ _ encOp_def decOp_def]) (intro inverts_all, simp)

definition encShard :: "Shard \<Rightarrow> bytes" where
  "encShard = encPair be64 (encPair encBytes (encPair encBytes (encPair be64 (encPair encText (encPair encBytes be64))))) \<circ>
     (\<lambda>s. (sh_ID s, sh_Start s, sh_End s, sh_GID s, sh_State s, sh_SplitKey s, sh_NewGID s))"

definition decShard :: "bytes \<Rightarrow> (Shard \<times> bytes) option" where
  "decShard = (\<lambda>bs. map_option (\<lambda>(y, r). ((\<lambda>(i, a, b, g, st, k, n). \<lparr>sh_ID = i, sh_Start = a, sh_End = b, sh_GID = g,
       sh_State = st, sh_SplitKey = k, sh_NewGID = n\<rparr>) y, r))
     (decPair decU64 (decPair decBytes (decPair decBytes (decPair decU64 (decPair decText (decPair decBytes decU64))))) bs))"

lemma inverts_shard: "inverts encShard decShard"
  by (rule inverts_convI [OF _ _ encShard_def decShard_def]) (intro inverts_all, simp)

definition encGroup :: "GroupInfo \<Rightarrow> bytes" where
  "encGroup = encPair be64 (encPair (encList be64) encText) \<circ> (\<lambda>g. (gi_GID g, gi_Members g, gi_Kind g))"

definition decGroup :: "bytes \<Rightarrow> (GroupInfo \<times> bytes) option" where
  "decGroup = (\<lambda>bs. map_option (\<lambda>(y, r). ((\<lambda>(g, m, k). \<lparr>gi_GID = g, gi_Members = m, gi_Kind = k\<rparr>) y, r))
     (decPair decU64 (decPair (decList decU64) decText) bs))"

lemma inverts_group: "inverts encGroup decGroup"
  by (rule inverts_convI [OF _ _ encGroup_def decGroup_def]) (intro inverts_all, simp)

definition encCleanup :: "SplitCleanup \<Rightarrow> bytes" where
  "encCleanup = encPair be64 (encPair encBytes encBytes) \<circ> (\<lambda>c. (sc_GID c, sc_Start c, sc_End c))"

definition decCleanup :: "bytes \<Rightarrow> (SplitCleanup \<times> bytes) option" where
  "decCleanup = (\<lambda>bs. map_option (\<lambda>(y, r). ((\<lambda>(g, a, b). \<lparr>sc_GID = g, sc_Start = a, sc_End = b\<rparr>) y, r))
     (decPair decU64 (decPair decBytes decBytes) bs))"

lemma inverts_cleanup: "inverts encCleanup decCleanup"
  by (rule inverts_convI [OF _ _ encCleanup_def decCleanup_def]) (intro inverts_all, simp)

definition encHint :: "SplitHint \<Rightarrow> bytes" where
  "encHint = encPair be64 (encPair encBytes encBytes) \<circ> (\<lambda>h. (hi_GID h, hi_At h, hi_Actor h))"

definition decHint :: "bytes \<Rightarrow> (SplitHint \<times> bytes) option" where
  "decHint = (\<lambda>bs. map_option (\<lambda>(y, r). ((\<lambda>(g, a, b). \<lparr>hi_GID = g, hi_At = a, hi_Actor = b\<rparr>) y, r))
     (decPair decU64 (decPair decBytes decBytes) bs))"

lemma inverts_hint: "inverts encHint decHint"
  by (rule inverts_convI [OF _ _ encHint_def decHint_def]) (intro inverts_all, simp)

definition encTx :: "txRecord \<Rightarrow> bytes" where
  "encTx = encPair encBytes (encPair encText (encPair (encList be64) encInt)) \<circ>
     (\<lambda>t. (tr_ID t, tr_State t, tr_Groups t, tr_Started t))"

definition decTx :: "bytes \<Rightarrow> (txRecord \<times> bytes) option" where
  "decTx = (\<lambda>bs. map_option (\<lambda>(y, r). ((\<lambda>(i, st, g, t). \<lparr>tr_ID = i, tr_State = st, tr_Groups = g, tr_Started = t\<rparr>) y, r))
     (decPair decBytes (decPair decText (decPair (decList decU64) decInt)) bs))"

lemma inverts_tx: "inverts encTx decTx"
  by (rule inverts_convI [OF _ _ encTx_def decTx_def]) (intro inverts_all, simp)

section \<open>The environments\<close>

definition wireOp :: "bytes \<Rightarrow> Op option" where
  "wireOp raw = (case decAll decOp raw of None \<Rightarrow> None | Some x \<Rightarrow> if op_wire x then Some x else None)"

definition cluEnv :: "refdb env" where
  "cluEnv = (refEnv [] 100 10)\<lparr>unmarshalOp := wireOp\<rparr>"

definition cluC :: "'s cenv" where
  "cluC = \<lparr>IsMetaLeader = (\<lambda>_. True), MetaGet = (\<lambda>_ _. Inr None), MetaList = (\<lambda>_ _ _. Inr []),
     MetaPropose = (\<lambda>s _. (s, Inl [])), ProposeToGroup = (\<lambda>s _ _. (s, Inl [])), ListGroup = (\<lambda>_ _ _ _ _. Inr []),
     readBarrier = (\<lambda>_ _. None), localGet = (\<lambda>_ _. None), CreateGroupEverywhere = (\<lambda>s _ _. (s, None)),
     marshalShard = encShard, unmarshalShard = decAll decShard, marshalGroup = encGroup, unmarshalGroup = decAll decGroup,
     marshalCleanup = encCleanup, unmarshalCleanup = decAll decCleanup, unmarshalHint = decAll decHint, marshalHint = encHint,
     unmarshalPaused = (\<lambda>b. Some (b = [1])), marshalNum = be64, unmarshalNum = decAll decU64,
     marshalTx = encTx, unmarshalTx = decAll decTx, maxValueBytes = 1000, txTimeout = 5000,
     unmarshalStats = (\<lambda>_. None), splitThresholdBytes = 1000000, splitThresholdQPS = 0\<rparr>"

text \<open>Replacing the command decoder keeps the laws when the new one answers well-formed commands.\<close>

lemma kv_env_decoder:
  assumes "kv_env E view" "\<And>raw x. dec raw = Some x \<Longrightarrow> op_wire x"
  shows "kv_env (E\<lparr>unmarshalOp := dec\<rparr>) view"
  using assms unfolding kv_env_def kv_env_axioms_def pebble_laws_def op_wire_def by simp

interpretation clu: kv_env cluEnv map_of
  unfolding cluEnv_def
  by (rule kv_env_decoder) (auto simp: wireOp_def ref.kv_env_axioms split: option.splits if_splits)

lemma entryOp_encOp: "op_wire x \<Longrightarrow> entryOp cluEnv (encOp x) = Some x"
proof -
  assume x: "op_wire x"
  have "encOp x \<noteq> []" by (simp add: encOp_def encPair_def encText_def encList_def)
  with x show ?thesis by (simp add: entryOp_def cluEnv_def refEnv_def wireOp_def decAll_inverts [OF inverts_op])
qed


section \<open>Machines after a log\<close>

definition emptySM :: "u64 \<Rightarrow> refdb SM" where
  "emptySM g = \<lparr>sm_gid = g, sm_st = [], sm_hub = None, sm_maxValue = 0, sm_ops = 0, sm_rev = 0, sm_cutoff = 0, sm_freeze = None\<rparr>"

fun logFrom :: "u64 \<Rightarrow> Op list \<Rightarrow> (u64 \<times> bytes) list" where
  "logFrom i [] = []"
| "logFrom i (x # xs) = (i, encOp x) # logFrom (i + 1) xs"

definition machine :: "u64 \<Rightarrow> Op list \<Rightarrow> refdb SM" where
  "machine g ops = projr (applyEntries cluEnv (logFrom 1 ops) (emptySM g))"

definition plainOp :: "Op \<Rightarrow> bool" where
  "plainOp x \<longleftrightarrow> op_wire x \<and> o_Type x \<noteq> ''copy_in'' \<and> (o_Type x = ''tx_apply'' \<longrightarrow> no_rewrite (o_Writes x))"

lemma entry_fine_iff: "entry_fine E data \<longleftrightarrow>
    (\<forall>ident cmd x. unmarshalCommand E data = Some (ident, cmd) \<longrightarrow> unmarshalOp E cmd = Some x \<longrightarrow>
      o_Type x \<noteq> ''copy_in'' \<and> (o_Type x = ''tx_apply'' \<longrightarrow> no_rewrite (o_Writes x)))"
  by (simp add: entry_fine_def)

lemma plainOp_fine: "plainOp x \<Longrightarrow> entry_fine cluEnv (encOp x)"
  by (auto simp: plainOp_def entry_fine_iff cluEnv_def refEnv_def wireOp_def decAll_inverts [OF inverts_op])

lemma word_less_Suc: "unat (i :: u64) + 1 < 2 ^ 64 \<Longrightarrow> i < i + 1"
  by (simp add: word_less_nat_alt unat_word_ariths)

lemma run_fine_logFrom:
  "r < i \<Longrightarrow> unat i + length ops < 2 ^ 64 \<Longrightarrow> list_all plainOp ops \<Longrightarrow> run_fine cluEnv r (logFrom i ops)"
proof (induction ops arbitrary: r i)
  case Nil
  show ?case by (simp add: run_fine_def)
next
  case (Cons x ops)
  from Cons.prems(2) have "unat i + 1 < 2 ^ 64" by simp
  note w = word_less_Suc [OF this]
  have "unat (i + 1) = unat i + 1" using Cons.prems(2) by (simp add: unat_word_ariths)
  with Cons.IH [OF w] Cons.prems show ?case by (simp add: run_fine_Cons plainOp_fine)
qed

lemma emptySM_ok: "sm_ok cluEnv map_of (emptySM g)"
proof -
  have "hist cluEnv h (\<lambda>_. None) k = (\<lambda>_. None)" for h k by (rule ext) (simp add: hist_def)
  then show ?thesis
    by (simp add: sm_ok_def emptySM_def ns_ok_def counter_def freeze_ok_def cellOf_def live_def cell_ok_empty)
qed

lemma machine_ok:
  assumes "length ops < 1000" "list_all plainOp ops"
  shows "sm_ok cluEnv map_of (machine g ops)" "sm_gid (machine g ops) = g"
proof -
  have fine: "run_fine cluEnv (sm_rev (emptySM g)) (logFrom 1 ops)"
    using assms by (intro run_fine_logFrom) (simp_all add: emptySM_def)
  obtain s' where "applyEntries cluEnv (logFrom 1 ops) (emptySM g) = Inr s'" "sm_ok cluEnv map_of s'" "sm_gid s' = sm_gid (emptySM g)"
    by (rule clu.run_cells [OF emptySM_ok fine])
  then show "sm_ok cluEnv map_of (machine g ops)" "sm_gid (machine g ops) = g" by (simp_all add: machine_def emptySM_def)
qed

section \<open>A cluster of two shards\<close>

text \<open>
  The metadata group 1 holds the shard map: group 2 owns the keys below \<^verbatim>\<open>m\<close>, group 3 the rest. Group 2
  still holds \<^verbatim>\<open>x\<close>, a key above its shard.
\<close>

definition shardA :: Shard where
  "shardA = \<lparr>sh_ID = 10, sh_Start = [], sh_End = str ''m'', sh_GID = 2, sh_State = ''active'', sh_SplitKey = [], sh_NewGID = 0\<rparr>"

definition shardB :: Shard where
  "shardB = \<lparr>sh_ID = 11, sh_Start = str ''m'', sh_End = [], sh_GID = 3, sh_State = ''active'', sh_SplitKey = [], sh_NewGID = 0\<rparr>"

definition putOp :: "string \<Rightarrow> bytes \<Rightarrow> Op" where
  "putOp k v = zeroOp\<lparr>o_Type := ''set'', o_Key := str k, o_Value := v\<rparr>"

definition metaOps :: "Op list" where
  "metaOps = [putOp ''shards/11'' (encShard shardB), putOp ''shards/10'' (encShard shardA)]"

definition opsA :: "Op list" where
  "opsA = [putOp ''a'' [10], putOp ''b'' [20], putOp ''x'' [30]]"

definition opsB :: "Op list" where
  "opsB = [putOp ''q'' [40], putOp ''x'' [50]]"

definition twoShards :: "refdb hosted" where
  "twoShards = \<lparr>ho_groups = [1 \<mapsto> (machine 1 metaOps, 3), 2 \<mapsto> (machine 2 opsA, 4), 3 \<mapsto> (machine 3 opsB, 3)], ho_others = []\<rparr>"

abbreviation cluF :: "refdb hosted cenv" where
  "cluF \<equiv> hostFabric cluEnv encOp [] cluC"

lemma plain_logs: "list_all plainOp metaOps" "list_all plainOp opsA" "list_all plainOp opsB"
  by code_simp+

lemma two_map: "Shards cluF twoShards = Inr [shardA, shardB]"
  by code_simp

lemma two_tiles: "tiles [] [shardA, shardB]"
  by code_simp


text \<open>The keys of a group are among the finitely many of its store.\<close>

lemma live_keys:
  assumes "list_all (\<lambda>e. prefix (SMPrefix g) (fst e) \<longrightarrow> a \<le> drop (length (SMPrefix g)) (fst e)) db"
    "live E g (map_of db) k \<noteq> None"
  shows "a \<le> k"
proof -
  from assms(2) obtain v where "(SMKey g k, v) \<in> set db"
    by (auto simp: live_def bind_eq_None_conv dest: map_of_SomeD)
  with assms(1) show ?thesis by (auto simp: list_all_iff SMKey_append)
qed

lemma two_groups: "list_all (shard_hosted cluEnv map_of twoShards) [shardA, shardB]"
proof -
  have "sh_Start shardA \<le> k" for k by (auto simp: shardA_def intro: prefix_imp_le)
  then have "shard_hosted cluEnv map_of twoShards shardA"
    unfolding shard_hosted_def using machine_ok [of opsA 2] plain_logs by (simp add: twoShards_def shardA_def opsA_def)
  moreover have "shard_hosted cluEnv map_of twoShards shardB"
  proof -
    have "list_all (\<lambda>e. prefix (SMPrefix 3) (fst e) \<longrightarrow> sh_Start shardB \<le> drop (length (SMPrefix 3)) (fst e)) (sm_st (machine 3 opsB))"
      by code_simp
    from live_keys [OF this, of cluEnv] show ?thesis
      unfolding shard_hosted_def using machine_ok [of opsB 3] plain_logs by (simp add: twoShards_def shardB_def opsB_def)
  qed
  ultimately show ?thesis by simp
qed

interpretation two: hosted_node cluEnv map_of encOp "[]" cluC twoShards "[shardA, shardB]"
  by unfold_locales (rule two_map two_tiles two_groups)+

end
