(* ===== verification/Tx_Coordinator.thy ===== *)
theory Tx_Coordinator
  imports Cluster
begin

text \<open>
  The coordinator of transactions (\<^verbatim>\<open>pkg/server/tx.go\<close>): the partition of a transaction by shard, the
  one-shard fast path, two-phase commit with the metadata group as the record of the decision, and the
  janitor that finishes transactions whose coordinator died.

  The transaction id and the clock are arguments. Go walks its map of parts three times, each time in an
  order of its own: \<open>ord i\<close> is the order of walk \<open>i\<close>, for the group list, the prepares and the commits.
\<close>

section \<open>The partition\<close>

record part =
  pt_reads :: "(bytes \<times> u64) list"
  pt_writes :: "TxWrite list"

definition noPart :: part where
  "noPart = \<lparr>pt_reads = [], pt_writes = []\<rparr>"

type_synonym parts = "(u64 \<times> part) list"

definition updPart :: "u64 \<Rightarrow> (part \<Rightarrow> part) \<Rightarrow> parts \<Rightarrow> parts" where
  "updPart gid f parts =
     (case map_of parts gid of
        None \<Rightarrow> parts @ [(gid, f noPart)]
      | Some p \<Rightarrow> map (\<lambda>(g, p). if g = gid then (g, f p) else (g, p)) parts)"

fun addReads :: "'s cenv \<Rightarrow> 's \<Rightarrow> (bytes \<times> u64) list \<Rightarrow> parts \<Rightarrow> string + parts" where
  "addReads F s [] parts = Inr parts"
| "addReads F s ((key, rv) # reads) parts = (case shardForWrite F s key of
     Inl e \<Rightarrow> Inl e
   | Inr sh \<Rightarrow> addReads F s reads (updPart (sh_GID sh) (\<lambda>p. p\<lparr>pt_reads := pt_reads p @ [(key, rv)]\<rparr>) parts))"

fun addWrites :: "'s cenv \<Rightarrow> 's \<Rightarrow> TxWrite list \<Rightarrow> parts \<Rightarrow> string + parts" where
  "addWrites F s [] parts = Inr parts"
| "addWrites F s (w # writes) parts =
     (if int (length (w_Value w)) > maxValueBytes F then Inl ErrValueTooLong
      else case shardForWrite F s (w_Key w) of
          Inl e \<Rightarrow> Inl e
        | Inr sh \<Rightarrow> addWrites F s writes (updPart (sh_GID sh) (\<lambda>p. p\<lparr>pt_writes := pt_writes p @ [w]\<rparr>) parts))"

definition partition :: "'s cenv \<Rightarrow> 's \<Rightarrow> (bytes \<times> u64) list \<Rightarrow> TxWrite list \<Rightarrow> string + parts" where
  "partition F s reads writes = (case addReads F s reads [] of
     Inl e \<Rightarrow> Inl e
   | Inr parts \<Rightarrow> addWrites F s writes parts)"

section \<open>The protocol\<close>

definition txRecordPrefix :: bytes where
  "txRecordPrefix = str ''txs/''"

definition putTxRecord :: "'s cenv \<Rightarrow> 's \<Rightarrow> txRecord \<Rightarrow> 's \<times> string option" where
  "putTxRecord F s rec = (case MetaPropose F s (zeroOp\<lparr>o_Type := ''set'', o_Key := txRecordPrefix @ tr_ID rec,
       o_Value := marshalTx F rec\<rparr>) of
     (s, r) \<Rightarrow> (s, firstErr r))"

definition dropTxRecord :: "'s cenv \<Rightarrow> 's \<Rightarrow> bytes \<Rightarrow> 's" where
  "dropTxRecord F s txid = fst (MetaPropose F s (zeroOp\<lparr>o_Type := ''delete'', o_Key := txRecordPrefix @ txid\<rparr>))"

fun tellAll :: "'s cenv \<Rightarrow> string \<Rightarrow> bytes \<Rightarrow> u64 list \<Rightarrow> 's \<Rightarrow> 's" where
  "tellAll F ty txid [] s = s"
| "tellAll F ty txid (gid # gids) s =
     tellAll F ty txid gids (fst (ProposeToGroup F s gid (zeroOp\<lparr>o_Type := ty, o_TxID := txid\<rparr>)))"

definition abortTx :: "'s cenv \<Rightarrow> 's \<Rightarrow> txRecord \<Rightarrow> 's" where
  "abortTx F s rec =
     dropTxRecord F
       (tellAll F ''tx_abort'' (tr_ID rec) (tr_Groups rec) (fst (putTxRecord F s (rec\<lparr>tr_State := ''aborted''\<rparr>))))
       (tr_ID rec)"

fun prepareAll :: "'s cenv \<Rightarrow> bytes \<Rightarrow> parts \<Rightarrow> 's \<Rightarrow> 's \<times> string option" where
  "prepareAll F txid [] s = (s, None)"
| "prepareAll F txid ((gid, p) # parts) s =
     (case ProposeToGroup F s gid (zeroOp\<lparr>o_Type := ''tx_prepare'', o_TxID := txid, o_Reads := pt_reads p, o_Writes := pt_writes p\<rparr>) of
        (s, r) \<Rightarrow> (case firstErr r of Some e \<Rightarrow> (s, Some e) | None \<Rightarrow> prepareAll F txid parts s))"

fun commitAll :: "'s cenv \<Rightarrow> bytes \<Rightarrow> u64 list \<Rightarrow> u64 \<Rightarrow> 's \<Rightarrow> 's \<times> u64" where
  "commitAll F txid [] commitRev s = (s, commitRev)"
| "commitAll F txid (gid # gids) commitRev s =
     (case ProposeToGroup F s gid (zeroOp\<lparr>o_Type := ''tx_commit'', o_TxID := txid\<rparr>) of
        (s, r) \<Rightarrow> commitAll F txid gids
          (if firstErr r = None \<and> commitRev = 0 then (case r of Inr res \<Rightarrow> res_Rev res | Inl _ \<Rightarrow> 0) else commitRev) s)"

definition commit2PC :: "'s cenv \<Rightarrow> (nat \<Rightarrow> parts \<Rightarrow> parts) \<Rightarrow> bytes \<Rightarrow> int \<Rightarrow> parts \<Rightarrow> 's \<Rightarrow> 's \<times> (string + u64)" where
  "commit2PC F ord txid now parts s =
     (let rec = \<lparr>tr_ID = txid, tr_State = ''pending'', tr_Groups = map fst (ord 0 parts), tr_Started = now\<rparr>
      in case putTxRecord F s rec of
          (s, Some e) \<Rightarrow> (s, Inl e)
        | (s, None) \<Rightarrow> (case prepareAll F txid (ord 1 parts) s of
            (s, Some e) \<Rightarrow> (abortTx F s rec, Inl (''Conflict: prepare: '' @ e))
          | (s, None) \<Rightarrow> (case putTxRecord F s (rec\<lparr>tr_State := ''committed''\<rparr>) of
              (s, Some e) \<Rightarrow> (s, Inl (''transaction outcome unknown: '' @ e))
            | (s, None) \<Rightarrow> (case commitAll F txid (map fst (ord 2 parts)) 0 s of
                (s, commitRev) \<Rightarrow> (dropTxRecord F s txid, Inr commitRev)))))"

definition TxCommit :: "'s cenv \<Rightarrow> (nat \<Rightarrow> parts \<Rightarrow> parts) \<Rightarrow> bytes \<Rightarrow> int \<Rightarrow> 's \<Rightarrow> (bytes \<times> u64) list \<Rightarrow> TxWrite list \<Rightarrow>
    's \<times> (string + u64)" where
  "TxCommit F ord txid now s reads writes = (case partition F s reads writes of
     Inl e \<Rightarrow> (s, Inl e)
   | Inr [] \<Rightarrow> (s, Inl ''empty transaction'')
   | Inr [(gid, p)] \<Rightarrow> proposeKV F s gid (zeroOp\<lparr>o_Type := ''tx_apply'', o_Reads := pt_reads p, o_Writes := pt_writes p\<rparr>)
   | Inr parts \<Rightarrow> commit2PC F ord txid now parts s)"

section \<open>The janitor\<close>

definition janitorStep :: "'s cenv \<Rightarrow> int \<Rightarrow> 's \<Rightarrow> ListEntry \<Rightarrow> 's" where
  "janitorStep F now s e = (case unmarshalTx F (r_Value (le_Record e)) of
     None \<Rightarrow> s
   | Some rec \<Rightarrow>
       if now - tr_Started rec < 2 * txTimeout F + 5000 then s
       else if tr_State rec = ''committed''
       then dropTxRecord F (tellAll F ''tx_commit'' (tr_ID rec) (tr_Groups rec) s) (tr_ID rec)
       else abortTx F s rec)"

definition janitorPass :: "'s cenv \<Rightarrow> int \<Rightarrow> 's \<Rightarrow> 's" where
  "janitorPass F now s =
     (if \<not> IsMetaLeader F s then s
      else case MetaList F s txRecordPrefix 1000 of
          Inl e \<Rightarrow> s
        | Inr entries \<Rightarrow> foldl (janitorStep F now) s entries)"

end
