(* ===== verification/Tx_Protocol.thy ===== *)
theory Tx_Protocol
  imports Tx_Coordinator
begin

text \<open>
  The order of the coordinator's messages, on any fabric whatever it answers. \<^verbatim>\<open>traced\<close> wraps a
  fabric so that its state also records every proposal and its answer. A two-phase commit leaves one of
  four traces; the properties are read off them.
\<close>

section \<open>Traces\<close>

record call =
  ca_gid :: "u64 option"
  ca_op :: Op
  ca_res :: "string + Result"

definition traced :: "'s cenv \<Rightarrow> ('s \<times> call list) cenv" where
  "traced F = \<lparr>
     IsMetaLeader = (\<lambda>s. IsMetaLeader F (fst s)),
     MetaGet = (\<lambda>s. MetaGet F (fst s)),
     MetaList = (\<lambda>s. MetaList F (fst s)),
     MetaPropose = (\<lambda>s op. case MetaPropose F (fst s) op of
       (s', r) \<Rightarrow> ((s', snd s @ [\<lparr>ca_gid = None, ca_op = op, ca_res = r\<rparr>]), r)),
     ProposeToGroup = (\<lambda>s gid op. case ProposeToGroup F (fst s) gid op of
       (s', r) \<Rightarrow> ((s', snd s @ [\<lparr>ca_gid = Some gid, ca_op = op, ca_res = r\<rparr>]), r)),
     ListGroup = (\<lambda>s. ListGroup F (fst s)),
     readBarrier = (\<lambda>s. readBarrier F (fst s)),
     localGet = (\<lambda>s. localGet F (fst s)),
     CreateGroupEverywhere = (\<lambda>s gid ms. case CreateGroupEverywhere F (fst s) gid ms of (s', e) \<Rightarrow> ((s', snd s), e)),
     marshalShard = marshalShard F, unmarshalShard = unmarshalShard F, marshalGroup = marshalGroup F,
     unmarshalGroup = unmarshalGroup F, marshalCleanup = marshalCleanup F, unmarshalCleanup = unmarshalCleanup F,
     unmarshalHint = unmarshalHint F, marshalHint = marshalHint F, unmarshalPaused = unmarshalPaused F,
     marshalNum = marshalNum F, unmarshalNum = unmarshalNum F, marshalTx = marshalTx F, unmarshalTx = unmarshalTx F,
     maxValueBytes = maxValueBytes F, txTimeout = txTimeout F, unmarshalStats = unmarshalStats F,
     splitThresholdBytes = splitThresholdBytes F, splitThresholdQPS = splitThresholdQPS F\<rparr>"

definition okCall :: "call \<Rightarrow> bool" where
  "okCall c \<longleftrightarrow> firstErr (ca_res c) = None"

definition prepareOp :: "bytes \<Rightarrow> part \<Rightarrow> Op" where
  "prepareOp txid p = zeroOp\<lparr>o_Type := ''tx_prepare'', o_TxID := txid, o_Reads := pt_reads p, o_Writes := pt_writes p\<rparr>"

definition tellOp :: "string \<Rightarrow> bytes \<Rightarrow> Op" where
  "tellOp ty txid = zeroOp\<lparr>o_Type := ty, o_TxID := txid\<rparr>"

definition recordOp :: "'s cenv \<Rightarrow> txRecord \<Rightarrow> Op" where
  "recordOp F rec = zeroOp\<lparr>o_Type := ''set'', o_Key := txRecordPrefix @ tr_ID rec, o_Value := marshalTx F rec\<rparr>"

definition dropOp :: "bytes \<Rightarrow> Op" where
  "dropOp txid = zeroOp\<lparr>o_Type := ''delete'', o_Key := txRecordPrefix @ txid\<rparr>"

lemma op_types [simp]:
  "o_Type (prepareOp txid p) = ''tx_prepare''" "o_Type (tellOp ty txid) = ty"
  "o_Type (recordOp F rec) = ''set''" "o_Type (dropOp txid) = ''delete''"
  by (simp_all add: prepareOp_def tellOp_def recordOp_def dropOp_def)

text \<open>Calls that send \<open>ops\<close>, each to its group.\<close>

definition sends :: "(u64 option \<times> Op) list \<Rightarrow> call list \<Rightarrow> bool" where
  "sends ops cs \<longleftrightarrow> map (\<lambda>c. (ca_gid c, ca_op c)) cs = ops"

lemma sends_simps [simp]:
  "sends [] cs \<longleftrightarrow> cs = []"
  "sends (x # xs) cs \<longleftrightarrow> (\<exists>c cs'. cs = c # cs' \<and> (ca_gid c, ca_op c) = x \<and> sends xs cs')"
  by (auto simp: sends_def Cons_eq_map_conv map_eq_Cons_conv)

lemma sends_set: "sends ops cs \<Longrightarrow> c \<in> set cs \<Longrightarrow> (ca_gid c, ca_op c) \<in> set ops"
  by (auto simp: sends_def)

lemma sends_elem: "sends ops cs \<Longrightarrow> (g, x) \<in> set ops \<Longrightarrow> \<exists>c \<in> set cs. ca_gid c = g \<and> ca_op c = x"
  by (auto simp: sends_def)

lemma traced_propose:
  obtains s' c where "ProposeToGroup (traced F) (s, tr) gid op = ((s', tr @ [c]), ca_res c)" "ca_gid c = Some gid" "ca_op c = op"
  by (cases "ProposeToGroup F s gid op") (auto simp: traced_def intro: that [of _ "\<lparr>ca_gid = Some gid, ca_op = op, ca_res = snd (ProposeToGroup F s gid op)\<rparr>"])

lemma traced_meta:
  obtains s' c where "MetaPropose (traced F) (s, tr) op = ((s', tr @ [c]), ca_res c)" "ca_gid c = None" "ca_op c = op"
  by (cases "MetaPropose F s op") (auto simp: traced_def intro: that [of _ "\<lparr>ca_gid = None, ca_op = op, ca_res = snd (MetaPropose F s op)\<rparr>"])

definition tells :: "string \<Rightarrow> bytes \<Rightarrow> u64 list \<Rightarrow> (u64 option \<times> Op) list" where
  "tells ty txid gids = map (\<lambda>g. (Some g, tellOp ty txid)) gids"

lemma tells_simps [simp]: "tells ty txid [] = []" "tells ty txid (g # gids) = (Some g, tellOp ty txid) # tells ty txid gids"
  by (simp_all add: tells_def)

section \<open>The loops\<close>

lemma tellAll_trace:
  obtains s' cs where "tellAll (traced F) ty txid gids (s, tr) = (s', tr @ cs)" "sends (tells ty txid gids) cs"
proof (induction gids arbitrary: s tr thesis)
  case Nil
  then show ?case by simp
next
  case (Cons g gids)
  obtain s1 c where c: "ProposeToGroup (traced F) (s, tr) g (tellOp ty txid) = ((s1, tr @ [c]), ca_res c)"
    "ca_gid c = Some g" "ca_op c = tellOp ty txid" by (rule traced_propose)
  obtain s' cs where "tellAll (traced F) ty txid gids (s1, tr @ [c]) = (s', (tr @ [c]) @ cs)"
    "sends (tells ty txid gids) cs" by (rule Cons.IH)
  with c show ?case by (intro Cons.prems [of s' "c # cs"]) (simp_all add: tellOp_def)
qed

lemma commitAll_trace:
  obtains s' rv cs where "commitAll (traced F) txid gids rv0 (s, tr) = ((s', tr @ cs), rv)"
    "sends (tells ''tx_commit'' txid gids) cs"
proof (induction gids arbitrary: s tr rv0 thesis)
  case Nil
  then show ?case by simp
next
  case (Cons g gids)
  obtain s1 c where c: "ProposeToGroup (traced F) (s, tr) g (tellOp ''tx_commit'' txid) = ((s1, tr @ [c]), ca_res c)"
    "ca_gid c = Some g" "ca_op c = tellOp ''tx_commit'' txid" by (rule traced_propose)
  obtain s' rv cs where "commitAll (traced F) txid gids (if firstErr (ca_res c) = None \<and> rv0 = 0
      then (case ca_res c of Inr res \<Rightarrow> res_Rev res | Inl _ \<Rightarrow> 0) else rv0) (s1, tr @ [c]) = ((s', (tr @ [c]) @ cs), rv)"
    "sends (tells ''tx_commit'' txid gids) cs" by (rule Cons.IH)
  with c show ?case by (intro Cons.prems [of s' "c # cs" rv]) (simp_all add: tellOp_def)
qed

text \<open>Prepares: all sent and accepted, or some sent, the last of them refused.\<close>

definition prepares :: "bytes \<Rightarrow> parts \<Rightarrow> call list \<Rightarrow> string option \<Rightarrow> bool" where
  "prepares txid parts cs out \<longleftrightarrow>
     (\<forall>c \<in> set cs. (ca_gid c, ca_op c) \<in> (\<lambda>(g, p). (Some g, prepareOp txid p)) ` set parts) \<and>
     (out = None \<longrightarrow> list_all okCall cs \<and> sends (map (\<lambda>(g, p). (Some g, prepareOp txid p)) parts) cs) \<and>
     (out \<noteq> None \<longrightarrow> \<not> list_all okCall cs)"

lemma prepareAll_trace: "\<exists>s' cs out. prepareAll (traced F) txid parts (s, tr) = ((s', tr @ cs), out) \<and> prepares txid parts cs out"
proof (induction parts arbitrary: s tr)
  case Nil
  show ?case by (simp add: prepares_def)
next
  case (Cons gp parts)
  obtain g p where gp: "gp = (g, p)" by (cases gp)
  obtain s1 c where c: "ProposeToGroup (traced F) (s, tr) g (prepareOp txid p) = ((s1, tr @ [c]), ca_res c)"
    "ca_gid c = Some g" "ca_op c = prepareOp txid p" by (rule traced_propose)
  show ?case
  proof (cases "firstErr (ca_res c)")
    case (Some e)
    with c have "prepareAll (traced F) txid (gp # parts) (s, tr) = ((s1, tr @ [c]), Some e)" by (simp add: gp prepareOp_def)
    with c Some show ?thesis by (intro exI [of _ s1] exI [of _ "[c]"] exI [of _ "Some e"]) (simp add: prepares_def okCall_def gp)
  next
    case None
    obtain s' cs out where rest: "prepareAll (traced F) txid parts (s1, tr @ [c]) = ((s', (tr @ [c]) @ cs), out)" "prepares txid parts cs out"
      using Cons.IH by blast
    have "prepareAll (traced F) txid (gp # parts) (s, tr) = ((s', tr @ c # cs), out)"
      using c(1) None rest(1) by (simp add: gp prepareOp_def)
    moreover have "prepares txid (gp # parts) (c # cs) out" using rest(2) c(2,3) None by (auto simp: prepares_def okCall_def gp)
    ultimately show ?thesis by blast
  qed
qed


section \<open>The four traces\<close>

lemma traced_fields [simp]: "marshalTx (traced F) = marshalTx F" "maxValueBytes (traced F) = maxValueBytes F"
  "unmarshalShard (traced F) = unmarshalShard F" "MetaList (traced F) (s, tr) = MetaList F s"
  by (simp_all add: traced_def)

lemma Shards_traced [simp]: "Shards (traced F) (s, tr) = Shards F s"
  by (cases "MetaList F s KeyShards 10000") (simp_all add: Shards_def)

lemma shardForWrite_traced [simp]: "shardForWrite (traced F) (s, tr) k = shardForWrite F s k"
  by (simp add: shardForWrite_def ShardFor_def)

lemma addReads_traced [simp]: "addReads (traced F) (s, tr) reads parts = addReads F s reads parts"
  by (induction F s reads parts rule: addReads.induct) (auto split: sum.splits)

lemma addWrites_traced [simp]: "addWrites (traced F) (s, tr) writes parts = addWrites F s writes parts"
  by (induction F s writes parts rule: addWrites.induct) (auto split: sum.splits)

lemma partition_traced [simp]: "partition (traced F) (s, tr) reads writes = partition F s reads writes"
  by (simp add: partition_def split: sum.splits)

lemma putTxRecord_trace:
  obtains s' c where "putTxRecord (traced F) (s, tr) rec = ((s', tr @ [c]), firstErr (ca_res c))" "ca_gid c = None" "ca_op c = recordOp F rec"
  by (rule traced_meta [of F s tr "recordOp F rec"]) (simp add: putTxRecord_def recordOp_def)

lemma dropTxRecord_trace:
  obtains s' c where "dropTxRecord (traced F) (s, tr) txid = (s', tr @ [c])" "ca_gid c = None" "ca_op c = dropOp txid"
  by (rule traced_meta [of F s tr "dropOp txid"]) (simp add: dropTxRecord_def dropOp_def)

lemma abortTx_trace:
  obtains s' c cs d where "abortTx (traced F) (s, tr) rec = (s', tr @ c # cs @ [d])"
    "ca_gid c = None" "ca_op c = recordOp F (rec\<lparr>tr_State := ''aborted''\<rparr>)"
    "sends (tells ''tx_abort'' (tr_ID rec) (tr_Groups rec)) cs" "ca_gid d = None" "ca_op d = dropOp (tr_ID rec)"
proof -
  obtain s1 c where c: "putTxRecord (traced F) (s, tr) (rec\<lparr>tr_State := ''aborted''\<rparr>) = ((s1, tr @ [c]), firstErr (ca_res c))"
    "ca_gid c = None" "ca_op c = recordOp F (rec\<lparr>tr_State := ''aborted''\<rparr>)" by (rule putTxRecord_trace)
  obtain s2 cs where cs: "tellAll (traced F) ''tx_abort'' (tr_ID rec) (tr_Groups rec) (s1, tr @ [c]) = (s2, (tr @ [c]) @ cs)"
    "sends (tells ''tx_abort'' (tr_ID rec) (tr_Groups rec)) cs" by (rule tellAll_trace)
  obtain s3 d where d: "dropTxRecord (traced F) (s2, (tr @ [c]) @ cs) (tr_ID rec) = (s3, ((tr @ [c]) @ cs) @ [d])"
    "ca_gid d = None" "ca_op d = dropOp (tr_ID rec)" by (rule dropTxRecord_trace)
  show ?thesis using c cs d by (intro that [of s3 c cs d]) (simp_all add: abortTx_def)
qed

definition decision :: "bytes \<Rightarrow> parts \<Rightarrow> int \<Rightarrow> string \<Rightarrow> txRecord" where
  "decision txid parts now st = \<lparr>tr_ID = txid, tr_State = st, tr_Groups = map fst parts, tr_Started = now\<rparr>"

lemma commit2PC_trace:
  obtains
    (refused) s' c e where "commit2PC (traced F) ord txid now parts (s, []) = ((s', [c]), Inl e)" "ca_gid c = None"
      "ca_op c = recordOp F (decision txid (ord 0 parts) now ''pending'')"
  | (aborted) s' c0 cs c1 as c2 e e' where "commit2PC (traced F) ord txid now parts (s, []) = ((s', c0 # cs @ c1 # as @ [c2]), Inl e)"
      "prepares txid (ord 1 parts) cs (Some e')" "ca_op c0 = recordOp F (decision txid (ord 0 parts) now ''pending'')"
      "ca_op c1 = recordOp F (decision txid (ord 0 parts) now ''aborted'')"
      "sends (tells ''tx_abort'' txid (map fst (ord 0 parts))) as" "ca_gid c2 = None" "ca_op c2 = dropOp txid"
  | (unknown) s' c0 cs c1 e where "commit2PC (traced F) ord txid now parts (s, []) = ((s', c0 # cs @ [c1]), Inl e)"
      "prepares txid (ord 1 parts) cs None" "ca_op c0 = recordOp F (decision txid (ord 0 parts) now ''pending'')"
      "ca_op c1 = recordOp F (decision txid (ord 0 parts) now ''committed'')" "\<not> okCall c1"
  | (committed) s' c0 cs c1 ds c2 rv where "commit2PC (traced F) ord txid now parts (s, []) = ((s', c0 # cs @ c1 # ds @ [c2]), Inr rv)"
      "prepares txid (ord 1 parts) cs None" "ca_op c0 = recordOp F (decision txid (ord 0 parts) now ''pending'')"
      "ca_gid c1 = None" "ca_op c1 = recordOp F (decision txid (ord 0 parts) now ''committed'')" "okCall c1"
      "sends (tells ''tx_commit'' txid (map fst (ord 2 parts))) ds" "ca_gid c2 = None" "ca_op c2 = dropOp txid"
proof -
  let ?rec = "decision txid (ord 0 parts) now"
  have rec: "(?rec ''pending'')\<lparr>tr_State := st\<rparr> = ?rec st" "tr_ID (?rec st) = txid" "tr_Groups (?rec st) = map fst (ord 0 parts)" for st
    by (simp_all add: decision_def)
  note def = commit2PC_def [of "traced F" ord txid now parts, folded decision_def, unfolded Let_def rec]
  obtain s0 c0 where c0: "putTxRecord (traced F) (s, []) (?rec ''pending'') = ((s0, [c0]), firstErr (ca_res c0))"
    "ca_gid c0 = None" "ca_op c0 = recordOp F (?rec ''pending'')" using putTxRecord_trace [of F s "[]"] by (metis append_Nil)
  show ?thesis
  proof (cases "firstErr (ca_res c0)")
    case (Some e)
    with c0 show ?thesis by (intro refused [of s0 c0 e]) (simp_all add: def)
  next
    case None
    obtain s1 cs out where p: "prepareAll (traced F) txid (ord 1 parts) (s0, [c0]) = ((s1, [c0] @ cs), out)" "prepares txid (ord 1 parts) cs out"
      using prepareAll_trace [of F txid "ord 1 parts" s0 "[c0]"] by blast
    show ?thesis
    proof (cases out)
      case (Some e)
      obtain s2 c1 as c2 where a: "abortTx (traced F) (s1, [c0] @ cs) (?rec ''pending'') = (s2, ([c0] @ cs) @ c1 # as @ [c2])"
        "ca_gid c1 = None" "ca_op c1 = recordOp F ((?rec ''pending'')\<lparr>tr_State := ''aborted''\<rparr>)"
        "sends (tells ''tx_abort'' (tr_ID (?rec ''pending'')) (tr_Groups (?rec ''pending''))) as"
        "ca_gid c2 = None" "ca_op c2 = dropOp (tr_ID (?rec ''pending''))" by (rule abortTx_trace)
      show ?thesis by (rule aborted [of s2 c0 cs c1 as c2 "''Conflict: prepare: '' @ e" e])
        (use None Some p a c0 in \<open>simp_all add: def rec\<close>)
    next
      case ok: None
      obtain s2 c1 where c1: "putTxRecord (traced F) (s1, [c0] @ cs) (?rec ''committed'') = ((s2, ([c0] @ cs) @ [c1]), firstErr (ca_res c1))"
        "ca_gid c1 = None" "ca_op c1 = recordOp F (?rec ''committed'')" by (rule putTxRecord_trace)
      show ?thesis
      proof (cases "firstErr (ca_res c1)")
        case (Some e)
        show ?thesis by (rule unknown [of s2 c0 cs c1 "''transaction outcome unknown: '' @ e"])
          (use None ok Some p c1 c0 in \<open>simp_all add: def okCall_def\<close>)
      next
        case decided: None
        obtain s3 rv ds where ds: "commitAll (traced F) txid (map fst (ord 2 parts)) 0 (s2, ([c0] @ cs) @ [c1]) = ((s3, (([c0] @ cs) @ [c1]) @ ds), rv)"
          "sends (tells ''tx_commit'' txid (map fst (ord 2 parts))) ds" by (rule commitAll_trace)
        obtain s4 c2 where c2: "dropTxRecord (traced F) (s3, (([c0] @ cs) @ [c1]) @ ds) txid = (s4, ((([c0] @ cs) @ [c1]) @ ds) @ [c2])"
          "ca_gid c2 = None" "ca_op c2 = dropOp txid" by (rule dropTxRecord_trace)
        show ?thesis by (rule committed [of s4 c0 cs c1 ds c2 rv])
          (use None ok decided p c0 c1 ds c2 in \<open>simp_all add: def okCall_def\<close>)
      qed
    qed
  qed
qed


section \<open>Properties\<close>

lemma prefix_before: "xs @ ys = pre @ c # post \<Longrightarrow> c \<notin> set xs \<Longrightarrow> \<exists>pre2. pre = xs @ pre2"
  by (auto simp: append_eq_append_conv2 append_eq_Cons_conv Cons_eq_append_conv)

lemma prepares_types: "prepares txid parts cs out \<Longrightarrow> \<forall>c \<in> set cs. o_Type (ca_op c) = ''tx_prepare''"
  by (fastforce simp: prepares_def)

lemma sends_types: "sends (tells ty txid gids) cs \<Longrightarrow> \<forall>c \<in> set cs. o_Type (ca_op c) = ty"
  by (auto simp: tells_def dest!: sends_set)

lemma sends_all: "sends (tells ty txid gids) cs \<Longrightarrow> g \<in> set gids \<Longrightarrow> \<exists>c \<in> set cs. ca_gid c = Some g \<and> ca_op c = tellOp ty txid"
  by (rule sends_elem) (auto simp: tells_def)

lemma prepares_all:
  assumes "prepares txid parts cs None" "(g, p) \<in> set parts"
  shows "\<exists>c \<in> set cs. ca_gid c = Some g \<and> ca_op c = prepareOp txid p \<and> okCall c"
proof -
  from assms(1) have cs: "list_all okCall cs" "sends (map (\<lambda>(g, p). (Some g, prepareOp txid p)) parts) cs" by (simp_all add: prepares_def)
  have "(Some g, prepareOp txid p) \<in> set (map (\<lambda>(g, p). (Some g, prepareOp txid p)) parts)" using assms(2) by force
  with sends_elem [OF cs(2)] cs(1) show ?thesis by (auto simp: list_all_iff)
qed

lemma TxCommit_2PC:
  assumes "partition F s reads writes = Inr parts" "1 < length parts"
  shows "TxCommit (traced F) ord txid now (s, []) reads writes = commit2PC (traced F) ord txid now parts (s, [])"
  using assms by (cases parts; cases "tl parts") (auto simp: TxCommit_def)

text \<open>
  C17. No commit before the decision. On any fabric, whatever it answers: when the coordinator of a transaction
  that touches several groups sends a commit to a group, then before it the record with the state
  \<^verbatim>\<open>committed\<close> was written and the write acknowledged, and before that every group had accepted the
  prepare of its part. The client is then told a revision, and every group is sent the commit.
\<close>

theorem commit_after_decision:
  assumes ord: "\<And>i xs. set (ord i xs) = set xs"
    and part: "partition F s reads writes = Inr parts" "1 < length parts"
    and run: "TxCommit (traced F) ord txid now (s, []) reads writes = ((s', tr), out)"
    and c: "tr = pre @ c # post" "o_Type (ca_op c) = ''tx_commit''"
  shows "\<exists>pre1 d pre2 rv. pre = pre1 @ d # pre2 \<and> out = Inr rv \<and>
    ca_gid d = None \<and> ca_op d = recordOp F (decision txid (ord 0 parts) now ''committed'') \<and> okCall d \<and>
    (\<forall>(g, p) \<in> set parts. \<exists>q \<in> set pre1. ca_gid q = Some g \<and> ca_op q = prepareOp txid p \<and> okCall q) \<and>
    (\<forall>(g, p) \<in> set parts. \<exists>q \<in> set tr. ca_gid q = Some g \<and> ca_op q = tellOp ''tx_commit'' txid)"
proof (rule commit2PC_trace [of F ord txid now parts s])
  note run' = run [unfolded TxCommit_2PC [OF part]]
  have mem: "c \<in> set tr" using c(1) by simp
  { fix s' c0 e assume "commit2PC (traced F) ord txid now parts (s, []) = ((s', [c0]), Inl e)"
      "ca_op c0 = recordOp F (decision txid (ord 0 parts) now ''pending'')"
    with run' mem c(2) show ?thesis by auto
  next
    fix s' c0 cs c1 as c2 e e' assume "commit2PC (traced F) ord txid now parts (s, []) = ((s', c0 # cs @ c1 # as @ [c2]), Inl e)"
      "prepares txid (ord 1 parts) cs (Some e')" "ca_op c0 = recordOp F (decision txid (ord 0 parts) now ''pending'')"
      "ca_op c1 = recordOp F (decision txid (ord 0 parts) now ''aborted'')"
      "sends (tells ''tx_abort'' txid (map fst (ord 0 parts))) as" "ca_op c2 = dropOp txid"
    with run' mem c(2) show ?thesis by (auto dest!: prepares_types sends_types)
  next
    fix s' c0 cs c1 e assume "commit2PC (traced F) ord txid now parts (s, []) = ((s', c0 # cs @ [c1]), Inl e)"
      "prepares txid (ord 1 parts) cs None" "ca_op c0 = recordOp F (decision txid (ord 0 parts) now ''pending'')"
      "ca_op c1 = recordOp F (decision txid (ord 0 parts) now ''committed'')"
    with run' mem c(2) show ?thesis by (auto dest!: prepares_types)
  next
    fix s' c0 cs c1 ds c2 rv assume a: "commit2PC (traced F) ord txid now parts (s, []) = ((s', c0 # cs @ c1 # ds @ [c2]), Inr rv)"
      "prepares txid (ord 1 parts) cs None" "ca_op c0 = recordOp F (decision txid (ord 0 parts) now ''pending'')"
      "ca_gid c1 = None" "ca_op c1 = recordOp F (decision txid (ord 0 parts) now ''committed'')" "okCall c1"
      "sends (tells ''tx_commit'' txid (map fst (ord 2 parts))) ds"
    then have tr: "tr = c0 # cs @ c1 # ds @ [c2]" "out = Inr rv" using run' by auto
    have out: "c \<notin> set (c0 # cs @ [c1])" using a c(2) by (auto dest!: prepares_types)
    have "(c0 # cs @ [c1]) @ ds @ [c2] = pre @ c # post" using c(1) tr(1) by simp
    from prefix_before [OF this out] obtain pre2 where pre: "pre = (c0 # cs @ [c1]) @ pre2" ..
    have "\<exists>q \<in> set (c0 # cs). ca_gid q = Some g \<and> ca_op q = prepareOp txid p \<and> okCall q" if "(g, p) \<in> set parts" for g p
      using prepares_all [OF a(2), of g p] that ord by auto
    moreover have "\<exists>q \<in> set tr. ca_gid q = Some g \<and> ca_op q = tellOp ''tx_commit'' txid" if "(g, p) \<in> set parts" for g p
    proof -
      have "g \<in> set (map fst (ord 2 parts))" using that ord [of 2 parts] by force
      from sends_all [OF a(7) this] show ?thesis by (auto simp: tr)
    qed
    ultimately show ?thesis using a(4-6) tr(2) pre
      by (intro exI [of _ "c0 # cs"] exI [of _ c1] exI [of _ pre2] exI [of _ rv]) auto
  }
qed

text \<open>
  A refused prepare aborts everywhere. On any fabric: when some group refuses the prepare, the client gets
  an error, no group is ever sent a commit, every group is sent the abort, and the coordinator's last call
  deletes the transaction record.
\<close>

theorem failed_prepare_aborts:
  assumes ord: "\<And>i xs. set (ord i xs) = set xs"
    and part: "partition F s reads writes = Inr parts" "1 < length parts"
    and run: "TxCommit (traced F) ord txid now (s, []) reads writes = ((s', tr), out)"
    and q: "q \<in> set tr" "o_Type (ca_op q) = ''tx_prepare''" "\<not> okCall q"
  shows "(\<exists>e. out = Inl e) \<and> list_all (\<lambda>c. o_Type (ca_op c) \<noteq> ''tx_commit'') tr \<and>
    list_all (\<lambda>(g, p). \<exists>a \<in> set tr. ca_gid a = Some g \<and> ca_op a = tellOp ''tx_abort'' txid) parts \<and>
    ca_gid (last tr) = None \<and> ca_op (last tr) = dropOp txid"
proof (rule commit2PC_trace [of F ord txid now parts s])
  note run' = run [unfolded TxCommit_2PC [OF part]]
  { fix s' c0 e assume "commit2PC (traced F) ord txid now parts (s, []) = ((s', [c0]), Inl e)"
      "ca_op c0 = recordOp F (decision txid (ord 0 parts) now ''pending'')"
    with run' q show ?thesis by auto
  next
    fix s' c0 cs c1 as c2 e e' assume a: "commit2PC (traced F) ord txid now parts (s, []) = ((s', c0 # cs @ c1 # as @ [c2]), Inl e)"
      "prepares txid (ord 1 parts) cs (Some e')" "ca_op c0 = recordOp F (decision txid (ord 0 parts) now ''pending'')"
      "ca_op c1 = recordOp F (decision txid (ord 0 parts) now ''aborted'')"
      "sends (tells ''tx_abort'' txid (map fst (ord 0 parts))) as" "ca_gid c2 = None" "ca_op c2 = dropOp txid"
    then have tr: "tr = c0 # cs @ c1 # as @ [c2]" "out = Inl e" using run' by auto
    have "\<exists>q \<in> set tr. ca_gid q = Some g \<and> ca_op q = tellOp ''tx_abort'' txid" if "(g, p) \<in> set parts" for g p
    proof -
      have "g \<in> set (map fst (ord 0 parts))" using that ord [of 0 parts] by force
      from sends_all [OF a(5) this] show ?thesis by (auto simp: tr)
    qed
    then show ?thesis using a tr by (auto simp: list_all_iff dest!: prepares_types sends_types)
  next
    fix s' c0 cs c1 e assume "commit2PC (traced F) ord txid now parts (s, []) = ((s', c0 # cs @ [c1]), Inl e)"
      "prepares txid (ord 1 parts) cs None" "ca_op c0 = recordOp F (decision txid (ord 0 parts) now ''pending'')"
      "ca_op c1 = recordOp F (decision txid (ord 0 parts) now ''committed'')"
    with run' q show ?thesis by (auto simp: prepares_def list_all_iff)
  next
    fix s' c0 cs c1 ds c2 rv assume "commit2PC (traced F) ord txid now parts (s, []) = ((s', c0 # cs @ c1 # ds @ [c2]), Inr rv)"
      "prepares txid (ord 1 parts) cs None" "ca_op c0 = recordOp F (decision txid (ord 0 parts) now ''pending'')"
      "ca_op c1 = recordOp F (decision txid (ord 0 parts) now ''committed'')"
      "sends (tells ''tx_commit'' txid (map fst (ord 2 parts))) ds" "ca_op c2 = dropOp txid"
    with run' q show ?thesis by (auto simp: prepares_def list_all_iff dest!: sends_types)
  }
qed

end
