(* ===== verification/Cluster_Props.thy ===== *)
theory Cluster_Props
  imports Cluster_Ref Tx_Protocol
begin

text \<open>
  Properties of the cluster over hosted groups: listings across shards, and transactions whose parts live
  in several groups. The witnesses run on the cluster of two shards.
\<close>

section \<open>Listings\<close>

text \<open>
  C16. Listings across shards are exact. On a node that hosts the groups of a shard map that tiles the keyspace,
  where no group has keys below its shard but groups may still hold keys above it (a split that is not
  cleaned up): a listing with a cursor that is empty or not below the prefix answers the first entries, at
  most the page size, of the strictly sorted list of exactly the records that routed gets answer under the
  prefix and above the cursor. The cursor it returns is the last key of a full page, and asking again with
  a non-empty one answers the entries that follow, so no record is skipped or answered twice.
\<close>

theorem list_across_shards:
  assumes "kv_env E view" "Shards (hostFabric E enc db0 C) H = Inr shs" "tiles [] shs"
    "list_all (shard_hosted E view H) shs" "cursor = [] \<or> p \<le> cursor"
  shows "\<exists>es. sorted_wrt (<) (map le_Key es) \<and>
    set es = {\<lparr>le_Key = k, le_Record = r\<rparr> | k r. KVGet (hostFabric E enc db0 C) H k = (H, Inr (Some r)) \<and>
      prefix p k \<and> (cursor = [] \<or> cursor < k)} \<and>
    (let n = clampLimit limit; nxt = (if n \<le> length es then le_Key (es ! (n - 1)) else [])
     in KVList (hostFabric E enc db0 C) H p cursor limit = Inr (take n es, nxt) \<and>
        (nxt \<noteq> [] \<longrightarrow> (\<exists>nxt'. KVList (hostFabric E enc db0 C) H p nxt limit = Inr (take n (drop n es), nxt'))))"
proof -
  have node: "hosted_node E view enc db0 C H shs"
    using assms(1-4) by (simp add: hosted_node_def hosted_node_axioms_def)
  note c = hosted_node.reads_contract [OF node]
  obtain es where es: "listing (routed shs (hostLive E view H)) (wanted p cursor) es"
    "KVList (hostFabric E enc db0 C) H p cursor limit = Inr (take (clampLimit limit) es,
       if clampLimit limit \<le> length es then le_Key (es ! (clampLimit limit - 1)) else [])"
    by (rule shard_reads.KVList_page [OF c assms(5)])
  have "sorted_wrt (<) (map le_Key es)" using es(1) by (simp add: listing_def)
  moreover have "set es = {\<lparr>le_Key = k, le_Record = r\<rparr> | k r. KVGet (hostFabric E enc db0 C) H k = (H, Inr (Some r)) \<and>
      prefix p k \<and> (cursor = [] \<or> cursor < k)}"
    using es(1) by (simp add: listing_def wanted_def shard_reads.KVGet_routed [OF c])
  moreover have "\<exists>nxt'. KVList (hostFabric E enc db0 C) H p (le_Key (es ! (clampLimit limit - 1))) limit =
      Inr (take (clampLimit limit) (drop (clampLimit limit) es), nxt')"
    if "clampLimit limit \<le> length es" "le_Key (es ! (clampLimit limit - 1)) \<noteq> []"
    by (rule shard_reads.KVList_next [OF c es(1) that])
  ultimately show ?thesis using es(2) by (intro exI [of _ es]) (simp add: Let_def)
qed

theorem list_across_shards_witness:
  "\<exists>es. set es = {\<lparr>le_Key = k, le_Record = r\<rparr> | k r. KVGet cluF twoShards k = (twoShards, Inr (Some r))} \<and>
    map_sum id (map_prod (map le_Key) id) (KVList cluF twoShards [] [] 2) = Inr ([str ''a'', str ''b''], str ''b'') \<and>
    map_sum id (map_prod (map le_Key) id) (KVList cluF twoShards [] (str ''b'') 2) = Inr ([str ''q'', str ''x''], str ''x'') \<and>
    take 2 (map le_Key es) = [str ''a'', str ''b'']"
proof -
  have k: "map_sum id (map_prod (map le_Key) id) (KVList cluF twoShards [] [] 2) = Inr ([str ''a'', str ''b''], str ''b'')"
    "map_sum id (map_prod (map le_Key) id) (KVList cluF twoShards [] (str ''b'') 2) = Inr ([str ''q'', str ''x''], str ''x'')"
    by code_simp+
  have n: "clampLimit 2 = 2" by (simp add: clampLimit_def)
  from list_across_shards [OF clu.kv_env_axioms two_map two_tiles two_groups, of "[]" "[]" 2, unfolded n]
  obtain es where es: "set es = {\<lparr>le_Key = k, le_Record = r\<rparr> | k r. KVGet cluF twoShards k = (twoShards, Inr (Some r))}"
    "KVList cluF twoShards [] [] 2 = Inr (take 2 es, if 2 \<le> length es then le_Key (es ! (2 - 1)) else [])"
    by (auto simp: Let_def)
  from k(1) es(2) have "take 2 (map le_Key es) = [str ''a'', str ''b'']" by (simp add: take_map)
  with es(1) k show ?thesis by blast
qed


section \<open>Transactions across groups\<close>

text \<open>A transaction that writes \<^verbatim>\<open>a\<close> in group 2 and \<^verbatim>\<open>x\<close> in group 3; the commits go out in reverse order.\<close>

definition txAX :: "TxWrite list" where
  "txAX = [\<lparr>w_Key = str ''a'', w_Value = [11], w_Delete = False, w_Blob = False\<rparr>,
     \<lparr>w_Key = str ''x'', w_Value = [51], w_Delete = False, w_Blob = False\<rparr>]"

definition partsAX :: parts where
  "partsAX = [(2, \<lparr>pt_reads = [], pt_writes = [txAX ! 0]\<rparr>), (3, \<lparr>pt_reads = [], pt_writes = [txAX ! 1]\<rparr>)]"

definition walks :: "nat \<Rightarrow> parts \<Rightarrow> parts" where
  "walks i ps = (if i = 2 then rev ps else ps)"

lemma walks_set: "set (walks i ps) = set ps"
  by (simp add: walks_def)

lemma partsAX_of: "partition cluF twoShards [] txAX = Inr partsAX" "1 < length partsAX"
  by code_simp+

definition runAX :: "(refdb hosted \<times> call list) \<times> (string + u64)" where
  "runAX = TxCommit (traced cluF) walks (str ''t1'') 0 (twoShards, []) [] txAX"

lemma runAX_commits: "list_ex (\<lambda>c. o_Type (ca_op c) = ''tx_commit'') (snd (fst runAX))"
  by code_simp

theorem commit_after_decision_witness:
  "\<exists>rv. snd runAX = Inr rv \<and>
    list_ex (\<lambda>d. ca_op d = recordOp cluF (decision (str ''t1'') partsAX 0 ''committed'') \<and> okCall d) (snd (fst runAX))"
proof -
  obtain s' tr out where run: "runAX = ((s', tr), out)" by (metis surj_pair)
  from runAX_commits obtain c where c: "c \<in> set tr" "o_Type (ca_op c) = ''tx_commit''" by (auto simp: run list_ex_iff)
  then obtain pre post where "tr = pre @ c # post" by (meson split_list)
  with commit_after_decision [OF walks_set partsAX_of run [unfolded runAX_def] this c(2)]
  show ?thesis by (auto simp: run list_ex_iff walks_def)
qed

text \<open>The same transaction with a stale read of \<^verbatim>\<open>q\<close>: group 3 refuses.\<close>

definition runStale :: "(refdb hosted \<times> call list) \<times> (string + u64)" where
  "runStale = TxCommit (traced cluF) walks (str ''t2'') 0 (twoShards, []) [(str ''q'', 9)] txAX"

definition partsStale :: parts where
  "partsStale = [(3, \<lparr>pt_reads = [(str ''q'', 9)], pt_writes = [txAX ! 1]\<rparr>), (2, \<lparr>pt_reads = [], pt_writes = [txAX ! 0]\<rparr>)]"

lemma partsStale_of: "partition cluF twoShards [(str ''q'', 9)] txAX = Inr partsStale" "1 < length partsStale"
  by code_simp+

theorem failed_prepare_aborts_witness:
  "\<exists>e. snd runStale = Inl e \<and> list_all (\<lambda>c. o_Type (ca_op c) \<noteq> ''tx_commit'') (snd (fst runStale)) \<and>
    list_ex (\<lambda>a. ca_gid a = Some 2 \<and> ca_op a = tellOp ''tx_abort'' (str ''t2'')) (snd (fst runStale))"
proof -
  obtain s' tr out where run: "runStale = ((s', tr), out)" by (metis surj_pair)
  have "list_ex (\<lambda>c. o_Type (ca_op c) = ''tx_prepare'' \<and> \<not> okCall c) (snd (fst runStale))" by code_simp
  then obtain q where q: "q \<in> set tr" "o_Type (ca_op q) = ''tx_prepare''" "\<not> okCall q" by (auto simp: run list_ex_iff)
  from failed_prepare_aborts [OF walks_set partsStale_of run [unfolded runStale_def] q]
  show ?thesis by (auto simp: run list_ex_iff list_all_iff partsStale_def)
qed

section \<open>A lost commit\<close>

text \<open>The fabric while group 3 does not answer commits.\<close>

definition deafF :: "refdb hosted cenv" where
  "deafF = cluF\<lparr>ProposeToGroup := (\<lambda>s gid op. if gid = 3 \<and> o_Type op = ''tx_commit''
     then (s, Inl ''ProposalTimeout'') else hostPropose cluEnv encOp s gid op)\<rparr>"

definition lost :: "refdb hosted \<times> (string + u64)" where
  "lost = TxCommit deafF walks (str ''t1'') 0 twoShards [] txAX"


end
