(* ===== verification/Split_Driver.thy ===== *)
theory Split_Driver
  imports Cluster "HOL-Library.AList"
begin

text \<open>
  Shard splits (\<^verbatim>\<open>pkg/cluster/reconcile.go\<close>): the triggers, the start of a split, its protocol (freeze
  the moving range, copy it page by page, flip the shard map together with a cleanup record, clean the
  source group), and the retry of cleanups. The copy loop ends when a page is short; a definition that runs
  it takes fuel and answers \<open>None\<close> when the fuel runs out. Log lines are left out.
\<close>

section \<open>Copying\<close>

definition splitCopyPage :: int where "splitCopyPage = 500"
definition splitCopyBatchBytes :: int where "splitCopyBatchBytes = 1048576"

definition flushPairs :: "'s cenv \<Rightarrow> u64 \<Rightarrow> (bytes \<times> Record) list \<Rightarrow> 's \<Rightarrow> 's \<times> string option" where
  "flushPairs F gid pairs s =
     (if pairs = [] then (s, None)
      else case ProposeToGroup F s gid (zeroOp\<lparr>o_Type := ''copy_in'', o_Pairs := pairs\<rparr>) of
          (s, r) \<Rightarrow> (s, case DecodeResult r of Inl e \<Rightarrow> Some e | Inr _ \<Rightarrow> None))"

fun copyLoop :: "'s cenv \<Rightarrow> u64 \<Rightarrow> ListEntry list \<Rightarrow> (bytes \<times> Record) list \<Rightarrow> int \<Rightarrow> 's \<Rightarrow> 's \<times> string option" where
  "copyLoop F gid [] pairs bts s = flushPairs F gid pairs s"
| "copyLoop F gid (e # es) pairs bts s =
     (let pairs = AList.update (le_Key e) (le_Record e) pairs;
          bts = bts + int (length (r_Value (le_Record e)))
      in if bts \<ge> splitCopyBatchBytes
         then (case flushPairs F gid pairs s of
             (s, Some err) \<Rightarrow> (s, Some err)
           | (s, None) \<Rightarrow> copyLoop F gid es [] 0 s)
         else copyLoop F gid es pairs bts s)"

definition copyPairs :: "'s cenv \<Rightarrow> u64 \<Rightarrow> ListEntry list \<Rightarrow> 's \<Rightarrow> 's \<times> string option" where
  "copyPairs F gid entries s = copyLoop F gid entries [] 0 s"

fun drain :: "nat \<Rightarrow> 's cenv \<Rightarrow> Shard \<Rightarrow> bytes \<Rightarrow> 's \<Rightarrow> ('s \<times> string option) option" where
  "drain 0 F sh cursor s = None"
| "drain (Suc fuel) F sh cursor s =
     (case ProposeToGroup F s (sh_GID sh) (zeroOp\<lparr>o_Type := ''list_range'', o_Start := sh_SplitKey sh, o_End := sh_End sh,
         o_Cursor := cursor, o_Limit := splitCopyPage\<rparr>) of
        (s, r) \<Rightarrow> (case DecodeResult r of
          Inl e \<Rightarrow> Some (s, Some e)
        | Inr res \<Rightarrow>
            if res_Entries res = [] then Some (s, None)
            else case copyPairs F (sh_NewGID sh) (res_Entries res) s of
                (s, Some e) \<Rightarrow> Some (s, Some e)
              | (s, None) \<Rightarrow>
                  if int (length (res_Entries res)) < splitCopyPage then Some (s, None)
                  else drain fuel F sh (le_Key (last (res_Entries res))) s))"

section \<open>Cleanup\<close>

definition runSplitCleanup :: "'s cenv \<Rightarrow> SplitCleanup \<Rightarrow> 's \<Rightarrow> 's \<times> string option" where
  "runSplitCleanup F sc s =
     (case ProposeToGroup F s (sc_GID sc) (zeroOp\<lparr>o_Type := ''split_cleanup'', o_Start := sc_Start sc, o_End := sc_End sc\<rparr>) of
        (s, r) \<Rightarrow> (case DecodeResult r of
          Inl e \<Rightarrow> (s, Some e)
        | Inr _ \<Rightarrow> (case MetaPropose F s (zeroOp\<lparr>o_Type := ''delete'', o_Key := KeySplitCleanups @ decimal (sc_GID sc)\<rparr>) of
            (s, r) \<Rightarrow> (s, case DecodeResult r of Inl e \<Rightarrow> Some e | Inr _ \<Rightarrow> None))))"

fun cleanupLoop :: "'s cenv \<Rightarrow> ListEntry list \<Rightarrow> 's \<Rightarrow> 's \<times> (string + bool)" where
  "cleanupLoop F [] s = (s, Inr False)"
| "cleanupLoop F (e # es) s = (case unmarshalCleanup F (r_Value (le_Record e)) of
     None \<Rightarrow> cleanupLoop F es s
   | Some sc \<Rightarrow>
       if sc_GID sc = 0 then cleanupLoop F es s
       else case runSplitCleanup F sc s of
           (s, Some err) \<Rightarrow> (s, Inl err)
         | (s, None) \<Rightarrow> (s, Inr True))"

definition finishSplitCleanups :: "'s cenv \<Rightarrow> 's \<Rightarrow> 's \<times> (string + bool)" where
  "finishSplitCleanups F s = (case MetaList F s KeySplitCleanups 100 of
     Inl e \<Rightarrow> (s, Inl e)
   | Inr pending \<Rightarrow> cleanupLoop F pending s)"

section \<open>The protocol\<close>

definition upperShard :: "u64 \<Rightarrow> Shard \<Rightarrow> Shard" where
  "upperShard newID sh = \<lparr>sh_ID = newID, sh_Start = sh_SplitKey sh, sh_End = sh_End sh, sh_GID = sh_NewGID sh,
     sh_State = ''active'', sh_SplitKey = [], sh_NewGID = 0\<rparr>"

definition lowerShard :: "Shard \<Rightarrow> Shard" where
  "lowerShard sh = sh\<lparr>sh_End := sh_SplitKey sh, sh_State := ''active'', sh_SplitKey := [], sh_NewGID := 0\<rparr>"

definition setWrite :: "bytes \<Rightarrow> bytes \<Rightarrow> TxWrite" where
  "setWrite k v = \<lparr>w_Key = k, w_Value = v, w_Delete = False, w_Blob = False\<rparr>"

definition flipOp :: "'s cenv \<Rightarrow> u64 \<Rightarrow> Shard \<Rightarrow> SplitCleanup \<Rightarrow> Op" where
  "flipOp F newID sh cleanup = zeroOp\<lparr>o_Type := ''tx_apply'', o_Writes :=
     [setWrite (KeyShards @ decimal newID) (marshalShard F (upperShard newID sh)),
      setWrite (KeyShards @ decimal (sh_ID sh)) (marshalShard F (lowerShard sh)),
      setWrite (KeySplitCleanups @ decimal (sh_GID sh)) (marshalCleanup F cleanup)]\<rparr>"

definition flipMap :: "'s cenv \<Rightarrow> Shard \<Rightarrow> 's \<Rightarrow> 's \<times> string option" where
  "flipMap F sh s = (case NextID F s KeyNextShard 2 of
     (s, Inl e) \<Rightarrow> (s, Some e)
   | (s, Inr newID) \<Rightarrow>
       (let cleanup = \<lparr>sc_GID = sh_GID sh, sc_Start = sh_SplitKey sh, sc_End = sh_End sh\<rparr>
        in case MetaPropose F s (flipOp F newID sh cleanup) of
            (s, r) \<Rightarrow> (case DecodeResult r of
              Inl e \<Rightarrow> (s, Some e)
            | Inr _ \<Rightarrow> (fst (runSplitCleanup F cleanup s), None))))"

definition continueSplit :: "nat \<Rightarrow> 's cenv \<Rightarrow> Shard \<Rightarrow> 's \<Rightarrow> ('s \<times> string option) option" where
  "continueSplit fuel F sh s =
     (case ProposeToGroup F s (sh_GID sh) (zeroOp\<lparr>o_Type := ''freeze_range'', o_Start := sh_SplitKey sh, o_End := sh_End sh\<rparr>) of
        (s, r) \<Rightarrow> (case DecodeResult r of
          Inl e \<Rightarrow> Some (s, Some e)
        | Inr _ \<Rightarrow> (case drain fuel F sh [] s of
            None \<Rightarrow> None
          | Some (s, Some e) \<Rightarrow> Some (s, Some e)
          | Some (s, None) \<Rightarrow> Some (flipMap F sh s))))"

text \<open>The split key: the given one, or the middle key of a sample; no split when the sample is too small.\<close>

definition pickKey :: "'s cenv \<Rightarrow> Shard \<Rightarrow> bytes \<Rightarrow> 's \<Rightarrow> 's \<times> (string + bytes option)" where
  "pickKey F sh atKey s =
     (if atKey \<noteq> [] then (s, Inr (Some atKey))
      else case ProposeToGroup F s (sh_GID sh) (zeroOp\<lparr>o_Type := ''list_range'', o_Start := sh_Start sh, o_End := sh_End sh, o_Limit := 2000\<rparr>) of
          (s, r) \<Rightarrow> (s, case DecodeResult r of
              Inl e \<Rightarrow> Inl e
            | Inr res \<Rightarrow> Inr (if length (res_Entries res) < 2 then None
                else Some (le_Key (res_Entries res ! (length (res_Entries res) div 2))))))"

definition startSplit :: "'s cenv \<Rightarrow> Shard \<Rightarrow> bytes \<Rightarrow> 's \<Rightarrow> 's \<times> (string + bool)" where
  "startSplit F sh splitKey s = (case NextID F s KeyNextGroup 2 of
     (s, Inl e) \<Rightarrow> (s, Inl e)
   | (s, Inr newGID) \<Rightarrow> (case Groups F s of
       Inl e \<Rightarrow> (s, Inl e)
     | Inr groups \<Rightarrow>
         (let members = foldl (\<lambda>ms g. if gi_GID g = sh_GID sh then gi_Members g else ms) [] groups
          in if members = [] then (s, Inl ''group has no recorded members'')
             else case CreateGroupEverywhere F s newGID members of
                 (s, Some e) \<Rightarrow> (s, Inl e)
               | (s, None) \<Rightarrow> (case putJSON F s (KeyGroups @ decimal newGID)
                     (marshalGroup F \<lparr>gi_GID = newGID, gi_Members = members, gi_Kind = ''data''\<rparr>) of
                   (s, Some e) \<Rightarrow> (s, Inl e)
                 | (s, None) \<Rightarrow> (case putJSON F s (KeyShards @ decimal (sh_ID sh))
                       (marshalShard F (sh\<lparr>sh_State := ''splitting'', sh_SplitKey := splitKey, sh_NewGID := newGID\<rparr>)) of
                     (s, Some e) \<Rightarrow> (s, Inl e)
                   | (s, None) \<Rightarrow> (s, Inr True))))))"

definition beginSplit :: "'s cenv \<Rightarrow> Shard \<Rightarrow> bytes \<Rightarrow> 's \<Rightarrow> 's \<times> (string + bool)" where
  "beginSplit F sh atKey s = (case pickKey F sh atKey s of
     (s, Inl e) \<Rightarrow> (s, Inl e)
   | (s, Inr None) \<Rightarrow> (s, Inr False)
   | (s, Inr (Some splitKey)) \<Rightarrow>
       if splitKey \<le> sh_Start sh \<or> (sh_End sh \<noteq> [] \<and> splitKey \<ge> sh_End sh) then (s, Inr False)
       else startSplit F sh splitKey s)"


section \<open>Triggers\<close>

text \<open>Times count from Go's zero time.\<close>

record qpsStreak =
  qs_count :: int
  qs_lastReport :: int

type_synonym qpsHot = "(u64 \<times> qpsStreak) list"

definition qpsSustainReports :: int where "qpsSustainReports = 3"

definition qpsSustained :: "'s cenv \<Rightarrow> qpsHot \<Rightarrow> u64 \<Rightarrow> GroupStats \<Rightarrow> qpsHot \<times> bool" where
  "qpsSustained F hot gid st =
     (if splitThresholdQPS F \<le> 0 then (AList.delete gid hot, False)
      else
        let streak = (case map_of hot gid of None \<Rightarrow> \<lparr>qs_count = 0, qs_lastReport = 0\<rparr> | Some q \<Rightarrow> q)
        in if \<not> gs_Reported st > qs_lastReport streak then (hot, qs_count streak \<ge> qpsSustainReports)
           else
             let streak = \<lparr>qs_count = (if gs_QPS st \<ge> splitThresholdQPS F then qs_count streak + 1 else 0),
               qs_lastReport = gs_Reported st\<rparr>
             in (AList.update gid streak hot, qs_count streak \<ge> qpsSustainReports))"

definition dropSplitHint :: "'s cenv \<Rightarrow> u64 \<Rightarrow> 's \<Rightarrow> 's \<times> string option" where
  "dropSplitHint F gid s = (case MetaPropose F s (zeroOp\<lparr>o_Type := ''delete'', o_Key := KeySplitHints @ decimal gid\<rparr>) of
     (s, r) \<Rightarrow> (s, case DecodeResult r of Inl e \<Rightarrow> Some e | Inr _ \<Rightarrow> None))"

fun hintLoop :: "'s cenv \<Rightarrow> Shard list \<Rightarrow> SplitHint list \<Rightarrow> qpsHot \<Rightarrow> 's \<Rightarrow> qpsHot \<times> 's \<times> (string + bool)" where
  "hintLoop F shards [] hot s = (hot, s, Inr False)"
| "hintLoop F shards (h # hs) hot s =
     (case (case find (\<lambda>sh. sh_GID sh = hi_GID h \<and> sh_State sh = ''active'') shards of
              None \<Rightarrow> None
            | Some sh \<Rightarrow> if validateSplitKey sh (hi_At h) \<noteq> None then None else Some sh) of
        None \<Rightarrow> (case dropSplitHint F (hi_GID h) s of
            (s, Some e) \<Rightarrow> (hot, s, Inl e)
          | (s, None) \<Rightarrow> hintLoop F shards hs hot s)
      | Some target \<Rightarrow> (case beginSplit F target (hi_At h) s of
            (s, Inl e) \<Rightarrow> (hot, s, Inl e)
          | (s, Inr started) \<Rightarrow> (case dropSplitHint F (hi_GID h) s of
                (s, Some e) \<Rightarrow> (hot, s, Inl e)
              | (s, None) \<Rightarrow>
                  if started then (AList.delete (hi_GID h) hot, s, Inr True)
                  else hintLoop F shards hs hot s)))"

definition consumeSplitHints :: "'s cenv \<Rightarrow> Shard list \<Rightarrow> qpsHot \<Rightarrow> 's \<Rightarrow> qpsHot \<times> 's \<times> (string + bool)" where
  "consumeSplitHints F shards hot s = (case SplitHints F s of
     Inl e \<Rightarrow> (hot, s, Inl e)
   | Inr hints \<Rightarrow> hintLoop F shards hints hot s)"

fun triggerLoop :: "'s cenv \<Rightarrow> Shard list \<Rightarrow> qpsHot \<Rightarrow> 's \<Rightarrow> qpsHot \<times> 's \<times> string option" where
  "triggerLoop F [] hot s = (hot, s, None)"
| "triggerLoop F (sh # shards) hot s =
     (if sh_State sh \<noteq> ''active'' then triggerLoop F shards hot s
      else case MetaGet F s (KeyStats @ decimal (sh_GID sh)) of
          Inl e \<Rightarrow> (hot, s, Some e)
        | Inr None \<Rightarrow> triggerLoop F shards hot s
        | Inr (Some rec) \<Rightarrow> (case unmarshalStats F (r_Value rec) of
            None \<Rightarrow> triggerLoop F shards hot s
          | Some st \<Rightarrow> (case qpsSustained F hot (sh_GID sh) st of
              (hot, overQPS) \<Rightarrow>
                if \<not> sint (gs_Bytes st) \<ge> splitThresholdBytes F \<and> \<not> overQPS then triggerLoop F shards hot s
                else case beginSplit F sh [] s of
                    (s, Inl e) \<Rightarrow> (hot, s, Some e)
                  | (s, Inr started) \<Rightarrow>
                      if started then (AList.delete (sh_GID sh) hot, s, None)
                      else triggerLoop F shards hot s)))"

definition reconcileSplits :: "nat \<Rightarrow> 's cenv \<Rightarrow> qpsHot \<Rightarrow> 's \<Rightarrow> (qpsHot \<times> 's \<times> string option) option" where
  "reconcileSplits fuel F hot s =
     (if Paused F s (str ''split'') then Some (hot, s, None)
      else case finishSplitCleanups F s of
          (s, Inl e) \<Rightarrow> Some (hot, s, Some e)
        | (s, Inr True) \<Rightarrow> Some (hot, s, None)
        | (s, Inr False) \<Rightarrow> (case Shards F s of
            Inl e \<Rightarrow> Some (hot, s, Some e)
          | Inr shards \<Rightarrow>
              (let hot = filter (\<lambda>q. fst q \<in> sh_GID ` set shards) hot
               in case find (\<lambda>sh. sh_State sh = ''splitting'') shards of
                   Some sh \<Rightarrow> map_option (\<lambda>(s, e). (hot, s, e)) (continueSplit fuel F sh s)
                 | None \<Rightarrow> (case consumeSplitHints F shards hot s of
                     (hot, s, Inl e) \<Rightarrow> Some (hot, s, Some e)
                   | (hot, s, Inr True) \<Rightarrow> Some (hot, s, None)
                   | (hot, s, Inr False) \<Rightarrow> Some (triggerLoop F shards hot s)))))"

end
