(* ===== verification/Split_Copy.thy ===== *)
theory Split_Copy
  imports Split_Driver KV_List
begin

text \<open>
  The copy phase of a split, proved once against a contract of the groups involved: a frozen range does not
  change whatever happens in between, a range scan answers a page of it, and an import adds its pairs to the
  new group. The copy then ends, and the new group holds the moving range of the source exactly.
\<close>

section \<open>The contract\<close>

definition moving :: "Shard \<Rightarrow> bytes \<Rightarrow> bool" where
  "moving sh k \<longleftrightarrow> sh_SplitKey sh \<le> k \<and> (sh_End sh = [] \<or> k < sh_End sh)"

definition freezeOp :: "Shard \<Rightarrow> Op" where
  "freezeOp sh = zeroOp\<lparr>o_Type := ''freeze_range'', o_Start := sh_SplitKey sh, o_End := sh_End sh\<rparr>"

definition pageOp :: "Shard \<Rightarrow> bytes \<Rightarrow> Op" where
  "pageOp sh cursor = zeroOp\<lparr>o_Type := ''list_range'', o_Start := sh_SplitKey sh, o_End := sh_End sh,
     o_Cursor := cursor, o_Limit := splitCopyPage\<rparr>"

definition importOp :: "(bytes \<times> Record) list \<Rightarrow> Op" where
  "importOp pairs = zeroOp\<lparr>o_Type := ''copy_in'', o_Pairs := pairs\<rparr>"

text \<open>The moving keys above a cursor.\<close>

definition beyond :: "Shard \<Rightarrow> bytes \<Rightarrow> bytes \<Rightarrow> bool" where
  "beyond sh cursor k \<longleftrightarrow> moving sh k \<and> (cursor = [] \<or> cursor < k)"

text \<open>Pages and what they say about the contents.\<close>

definition pairsOf :: "ListEntry list \<Rightarrow> (bytes \<times> Record) list" where
  "pairsOf es = map (\<lambda>e. (le_Key e, le_Record e)) es"

lemma pairsOf_keys [simp]: "map fst (pairsOf es) = map le_Key es"
  by (simp add: pairsOf_def)

lemma listing_sorted: "listing l P es \<Longrightarrow> sorted_wrt (\<lambda>x y. le_Key x < le_Key y) es"
  by (simp add: listing_def sorted_wrt_map)

lemma listing_distinct: "listing l P es \<Longrightarrow> distinct (map le_Key es)"
  by (simp add: listing_def sorted_wrt_less_distinct)

lemma listing_mem: "listing l P es \<Longrightarrow> \<lparr>le_Key = k, le_Record = r\<rparr> \<in> set es \<longleftrightarrow> l k = Some r \<and> P k"
  by (auto simp: listing_def)

lemma pairsOf_mem: "(k, r) \<in> set (pairsOf es) \<longleftrightarrow> \<lparr>le_Key = k, le_Record = r\<rparr> \<in> set es"
proof (induction es)
  case (Cons e es)
  then show ?case by (cases e) (auto simp: pairsOf_def)
qed (simp add: pairsOf_def)

lemma map_of_pairsOf:
  assumes "listing l P es"
  shows "map_of (pairsOf es) = l |` {k. P k}"
proof
  fix k
  have d: "distinct (map fst (pairsOf es))" using listing_distinct [OF assms] by simp
  have "(k, r) \<in> set (pairsOf es) \<longleftrightarrow> l k = Some r \<and> P k" for r
    by (simp add: pairsOf_mem listing_mem [OF assms])
  then have "map_of (pairsOf es) k = Some r \<longleftrightarrow> (l |` {k. P k}) k = Some r" for r
    using d by (simp add: restrict_map_def)
  then show "map_of (pairsOf es) k = (l |` {k. P k}) k" by (metis not_None_eq)
qed

lemma listing_cong: "(\<And>k. P k \<Longrightarrow> l k = l' k) \<Longrightarrow> listing l P es = listing l' P es"
proof -
  assume "\<And>k. P k \<Longrightarrow> l k = l' k"
  then have "{\<lparr>le_Key = k, le_Record = r\<rparr> | k r. l k = Some r \<and> P k} = {\<lparr>le_Key = k, le_Record = r\<rparr> | k r. l' k = Some r \<and> P k}"
    by force
  then show ?thesis by (simp add: listing_def)
qed

text \<open>The entries up to position \<open>i\<close> are the ones with keys up to the one there.\<close>

lemma listing_split:
  assumes "listing l P es" "i < length es"
  shows "listing l (\<lambda>k. P k \<and> k \<le> le_Key (es ! i)) (take (Suc i) es)"
    and "listing l (\<lambda>k. P k \<and> le_Key (es ! i) < k) (drop (Suc i) es)"
proof -
  let ?c = "le_Key (es ! i)"
  note s = listing_sorted [OF assms(1)]
  have es: "es = take i es @ es ! i # drop (Suc i) es" by (rule id_take_nth_drop [OF assms(2)])
  have lo: "\<forall>x \<in> set (take i es). le_Key x < ?c" and hi: "\<forall>y \<in> set (drop (Suc i) es). ?c < le_Key y"
    using s by (subst (asm) es; auto simp: sorted_wrt_append)+
  have tk: "take (Suc i) es = take i es @ [es ! i]" by (rule take_Suc_conv_app_nth [OF assms(2)])
  have mem: "e \<in> set es \<longleftrightarrow> e \<in> set (take (Suc i) es) \<or> e \<in> set (drop (Suc i) es)" for e
    using append_take_drop_id [of "Suc i" es] by (metis Un_iff set_append)
  have up: "e \<in> set (take (Suc i) es) \<Longrightarrow> le_Key e \<le> ?c" for e using lo by (auto simp: tk)
  have "e \<in> set (take (Suc i) es) \<longleftrightarrow> e \<in> set es \<and> le_Key e \<le> ?c" for e using mem up hi by fastforce
  then have "set (take (Suc i) es) = {\<lparr>le_Key = k, le_Record = r\<rparr> | k r. l k = Some r \<and> P k \<and> k \<le> ?c}"
    using assms(1) unfolding listing_def by auto
  with sorted_wrt_take [OF s, of "Suc i"] show "listing l (\<lambda>k. P k \<and> k \<le> ?c) (take (Suc i) es)"
    by (simp add: listing_def sorted_wrt_map)
  have "e \<in> set (drop (Suc i) es) \<longleftrightarrow> e \<in> set es \<and> ?c < le_Key e" for e using mem up hi by fastforce
  then have "set (drop (Suc i) es) = {\<lparr>le_Key = k, le_Record = r\<rparr> | k r. l k = Some r \<and> P k \<and> ?c < k}"
    using assms(1) unfolding listing_def by auto
  with sorted_wrt_drop [OF s, of "Suc i"] show "listing l (\<lambda>k. P k \<and> ?c < k) (drop (Suc i) es)"
    by (simp add: listing_def sorted_wrt_map)
qed

text \<open>
  \<open>ok\<close> is the invariant, \<open>content s g\<close> what group \<open>g\<close> holds and \<open>froz\<close> that the moving range is frozen in
  the source. Calls may fail; what they promise of the state holds then too.
\<close>

locale split_groups =
  fixes F :: "'s cenv" and sh :: Shard and ok :: "'s \<Rightarrow> bool" and content :: "'s \<Rightarrow> u64 \<Rightarrow> bytes \<rightharpoonup> Record"
    and froz :: "'s \<Rightarrow> bool"
  assumes freeze_law: "ok s \<Longrightarrow> ProposeToGroup F s (sh_GID sh) (freezeOp sh) = (s', r) \<Longrightarrow>
      ok s' \<and> content s' (sh_NewGID sh) = content s (sh_NewGID sh) \<and> (\<forall>res. DecodeResult r = Inr res \<longrightarrow> froz s')"
    and page_law: "ok s \<Longrightarrow> froz s \<Longrightarrow> cursor = [] \<or> content s (sh_GID sh) cursor \<noteq> None \<Longrightarrow>
      ProposeToGroup F s (sh_GID sh) (pageOp sh cursor) = (s', r) \<Longrightarrow>
      ok s' \<and> froz s' \<and> content s' (sh_NewGID sh) = content s (sh_NewGID sh) \<and>
      (\<forall>k. moving sh k \<longrightarrow> content s' (sh_GID sh) k = content s (sh_GID sh) k) \<and>
      (\<forall>res. DecodeResult r = Inr res \<longrightarrow> (\<exists>es. res_Entries res = take 500 es \<and> listing (content s (sh_GID sh)) (beyond sh cursor) es))"
    and import_law: "ok s \<Longrightarrow> froz s \<Longrightarrow> distinct (map fst pairs) \<Longrightarrow>
      (\<And>k r. (k, r) \<in> set pairs \<Longrightarrow> moving sh k \<and> content s (sh_GID sh) k = Some r) \<Longrightarrow>
      ProposeToGroup F s (sh_NewGID sh) (importOp pairs) = (s', r) \<Longrightarrow>
      ok s' \<and> froz s' \<and> (\<forall>k. moving sh k \<longrightarrow> content s' (sh_GID sh) k = content s (sh_GID sh) k) \<and>
      (\<forall>res. DecodeResult r = Inr res \<longrightarrow> content s' (sh_NewGID sh) = content s (sh_NewGID sh) ++ map_of pairs)"
begin

abbreviation src :: "'s \<Rightarrow> bytes \<rightharpoonup> Record" where "src s \<equiv> content s (sh_GID sh)"
abbreviation dst :: "'s \<Rightarrow> bytes \<rightharpoonup> Record" where "dst s \<equiv> content s (sh_NewGID sh)"

text \<open>A step that keeps the invariant, the freeze and the moving range.\<close>

definition kept :: "'s \<Rightarrow> 's \<Rightarrow> bool" where
  "kept s s' \<longleftrightarrow> ok s' \<and> froz s' \<and> (\<forall>k. moving sh k \<longrightarrow> src s' k = src s k)"

lemma kept_refl: "ok s \<Longrightarrow> froz s \<Longrightarrow> kept s s"
  by (simp add: kept_def)

lemma kept_trans: "kept s s1 \<Longrightarrow> kept s1 s2 \<Longrightarrow> kept s s2"
  by (simp add: kept_def)

section \<open>One page\<close>

definition of_src :: "'s \<Rightarrow> (bytes \<times> Record) list \<Rightarrow> bool" where
  "of_src s pairs \<longleftrightarrow> distinct (map fst pairs) \<and> (\<forall>(k, r) \<in> set pairs. moving sh k \<and> src s k = Some r)"

lemma of_src_kept: "kept s s' \<Longrightarrow> of_src s pairs \<Longrightarrow> of_src s' pairs"
  by (fastforce simp: kept_def of_src_def)

lemma flushPairs_step:
  assumes "ok s" "froz s" "of_src s pairs" "flushPairs F (sh_NewGID sh) pairs s = (s', e)"
  shows "kept s s' \<and> (e = None \<longrightarrow> dst s' = dst s ++ map_of pairs)"
proof (cases "pairs = []")
  case True
  with assms show ?thesis by (simp add: flushPairs_def kept_refl)
next
  case False
  obtain s1 r where p: "ProposeToGroup F s (sh_NewGID sh) (importOp pairs) = (s1, r)" by fastforce
  have law: "ok s1 \<and> froz s1 \<and> (\<forall>k. moving sh k \<longrightarrow> src s1 k = src s k) \<and>
      (\<forall>res. DecodeResult r = Inr res \<longrightarrow> dst s1 = dst s ++ map_of pairs)"
    using assms(1-3) by (intro import_law [OF _ _ _ _ p]) (auto simp: of_src_def)
  have eq: "s' = s1" "e = (case DecodeResult r of Inl e \<Rightarrow> Some e | Inr _ \<Rightarrow> None)"
    using assms(4) p False by (simp_all add: flushPairs_def importOp_def)
  with law show ?thesis by (simp add: kept_def split: sum.splits)
qed

text \<open>What one walk over entries adds: the pairs collected so far and the entries.\<close>

lemma copyLoop_step:
  assumes "ok s" "froz s" "of_src s (pairs @ pairsOf es)" "copyLoop F (sh_NewGID sh) es pairs n s = (s', e)"
  shows "kept s s' \<and> (e = None \<longrightarrow> dst s' = dst s ++ map_of (pairs @ pairsOf es))"
  using assms
proof (induction es arbitrary: s pairs n)
  case Nil
  with flushPairs_step [of s pairs s' e] show ?case by (simp add: pairsOf_def)
next
  case (Cons x es)
  let ?p = "pairs @ [(le_Key x, le_Record x)]"
  have all: "pairs @ pairsOf (x # es) = ?p @ pairsOf es" by (simp add: pairsOf_def)
  then have os: "of_src s ?p" "of_src s (pairsOf es)" "of_src s (?p @ pairsOf es)"
    using Cons.prems(3) by (auto simp: of_src_def)
  have "le_Key x \<notin> fst ` set pairs" using os(1) by (auto simp: of_src_def)
  then have upd: "AList.update (le_Key x) (le_Record x) pairs = ?p" by (induction pairs) auto
  show ?case
  proof (cases "n + int (length (r_Value (le_Record x))) \<ge> splitCopyBatchBytes")
    case False
    with Cons.prems(4) have "copyLoop F (sh_NewGID sh) es ?p (n + int (length (r_Value (le_Record x)))) s = (s', e)"
      by (simp add: upd Let_def)
    from Cons.IH [OF Cons.prems(1,2) os(3) this] show ?thesis unfolding all .
  next
    case True
    obtain s1 e1 where f: "flushPairs F (sh_NewGID sh) ?p s = (s1, e1)" by fastforce
    note st = flushPairs_step [OF Cons.prems(1,2) os(1) f]
    show ?thesis
    proof (cases e1)
      case (Some err)
      with Cons.prems(4) True f have "s' = s1" "e = Some err" by (simp_all add: upd Let_def)
      with st show ?thesis by simp
    next
      case None
      with Cons.prems(4) True f have c: "copyLoop F (sh_NewGID sh) es [] 0 s1 = (s', e)" by (simp add: upd Let_def)
      have "ok s1" "froz s1" "of_src s1 ([] @ pairsOf es)" using st os(2) of_src_kept by (auto simp: kept_def)
      from Cons.IH [OF this c] have rest: "kept s1 s'" "e = None \<Longrightarrow> dst s' = dst s1 ++ map_of (pairsOf es)" by simp_all
      have "distinct (map fst (?p @ pairsOf es))" using os(3) by (simp only: of_src_def)
      then have comm: "map_of (?p @ pairsOf es) = map_of ?p ++ map_of (pairsOf es)"
        unfolding map_of_append by (intro map_add_comm) (auto simp: dom_map_of_conv_image_fst set_map [symmetric] simp del: set_map)
      have "dst s' = dst s ++ map_of (?p @ pairsOf es)" if "e = None"
        using rest(2) [OF that] st None unfolding comm map_add_assoc by simp
      with rest(1) st show ?thesis unfolding all by (auto intro: kept_trans)
    qed
  qed
qed

end


context split_groups
begin

section \<open>The whole range\<close>

lemma copyPairs_page:
  assumes "ok s" "froz s" "listing (src s) (beyond sh cursor) es" "copyPairs F (sh_NewGID sh) (take n es) s = (s', e)"
  shows "kept s s' \<and> (e = None \<longrightarrow> dst s' = dst s ++ map_of (pairsOf (take n es)))"
proof -
  have "of_src s (pairsOf (take n es))"
  proof -
    have "distinct (map le_Key (take n es))" using listing_distinct [OF assms(3)] by (simp add: take_map [symmetric])
    moreover have "moving sh k \<and> src s k = Some r" if "(k, r) \<in> set (pairsOf (take n es))" for k r
      using that listing_mem [OF assms(3)] by (auto simp: pairsOf_mem beyond_def dest: in_set_takeD)
    ultimately show ?thesis by (auto simp: of_src_def)
  qed
  then show ?thesis using copyLoop_step [of s "[]" "take n es" 0 s' e] assms by (simp add: copyPairs_def)
qed

text \<open>One round of the loop: an error, the last page, or a full page and the rest of the range.\<close>

lemma drain_round:
  assumes "ok s" "froz s" "cursor = [] \<or> src s cursor \<noteq> None"
  obtains
    (failed) s' e where "\<And>fuel. drain (Suc fuel) F sh cursor s = Some (s', Some e)" "kept s s'"
  | (last) s' es where "\<And>fuel. drain (Suc fuel) F sh cursor s = Some (s', None)" "kept s s'"
      "listing (src s) (beyond sh cursor) es" "dst s' = dst s ++ map_of (pairsOf es)"
  | (more) s' es c where "\<And>fuel. drain (Suc fuel) F sh cursor s = drain fuel F sh c s'" "kept s s'"
      "listing (src s) (beyond sh cursor) es" "500 \<le> length es" "c = le_Key (es ! 499)" "c \<noteq> []" "src s' c \<noteq> None"
      "dst s' = dst s ++ map_of (pairsOf (take 500 es))"
proof -
  obtain s1 r where p: "ProposeToGroup F s (sh_GID sh) (pageOp sh cursor) = (s1, r)" by fastforce
  note law = page_law [OF assms p]
  then have k1: "kept s s1" and d1: "dst s1 = dst s" by (simp_all add: kept_def)
  show ?thesis
  proof (cases "DecodeResult r")
    case (Inl e)
    with p k1 show ?thesis by (intro failed [of s1 e]) (simp_all add: pageOp_def)
  next
    case (Inr res)
    with law obtain es where es: "res_Entries res = take 500 es" "listing (src s) (beyond sh cursor) es" by blast
    then have es1: "listing (src s1) (beyond sh cursor) es"
      using k1 listing_cong [of "beyond sh cursor" "src s1" "src s" es] by (simp add: kept_def beyond_def)
    show ?thesis
    proof (cases "es = []")
      case True
      with p k1 d1 Inr es show ?thesis by (intro last [of s1 es]) (simp_all add: pageOp_def pairsOf_def)
    next
      case False
      obtain s2 e where c: "copyPairs F (sh_NewGID sh) (take 500 es) s1 = (s2, e)" by fastforce
      have "kept s1 s2 \<and> (e = None \<longrightarrow> dst s2 = dst s1 ++ map_of (pairsOf (take 500 es)))"
        by (rule copyPairs_page [OF _ _ es1 c]) (use k1 in \<open>simp_all add: kept_def\<close>)
      then have k2: "kept s s2" and d2: "e = None \<Longrightarrow> dst s2 = dst s ++ map_of (pairsOf (take 500 es))"
        using kept_trans [OF k1] d1 by auto
      show ?thesis
      proof (cases e)
        case (Some err)
        with p Inr es(1) False c k2 show ?thesis by (intro failed [of s2 err]) (simp_all add: pageOp_def)
      next
        case None
        show ?thesis
        proof (cases "length es < 500")
          case True
          with p Inr es False c k2 None d2 show ?thesis by (intro last [of s2 es]) (simp_all add: pageOp_def splitCopyPage_def)
        next
          case long: False
          let ?c = "le_Key (es ! 499)"
          have lst: "List.last (take 500 es) = es ! 499" using long by (subst last_conv_nth) auto
          have "le_Key (es ! 0) < ?c"
            using listing_sorted [OF es(2)] long by (intro sorted_wrt_nth_less [of "\<lambda>x y. le_Key x < le_Key y"]) auto
          then have ne: "?c \<noteq> []" by auto
          have "es ! 499 \<in> set es" using long by simp
          then have "src s ?c \<noteq> None \<and> moving sh ?c" using es(2) by (auto simp: listing_def beyond_def)
          with k2 have "src s2 ?c \<noteq> None" by (simp add: kept_def)
          with p Inr es False c k2 None d2 long ne lst show ?thesis
            by (intro more [of ?c s2 es]) (simp_all add: pageOp_def splitCopyPage_def)
        qed
      qed
    qed
  qed
qed

end


context split_groups
begin

declare drain.simps(2) [simp del]

text \<open>A page and the range after it make up the range.\<close>

lemma page_and_rest:
  assumes "listing l (beyond sh cursor) es" "500 \<le> length es" "c = le_Key (es ! 499)" "c \<noteq> []"
  shows "map_of (pairsOf (take 500 es)) ++ (l |` {k. beyond sh c k}) = l |` {k. beyond sh cursor k}"
    and "listing l (beyond sh c) (drop 500 es)"
proof -
  have i: "499 < length es" and suc: "Suc 499 = 500" using assms(2) by simp_all
  note split = listing_split [OF assms(1) i, folded assms(3), unfolded suc]
  have "c \<in> le_Key ` set es" unfolding assms(3) using i by simp
  then have "cursor = [] \<or> cursor < c" using assms(1) by (auto simp: listing_def beyond_def)
  then have above: "beyond sh cursor k \<and> c < k \<longleftrightarrow> beyond sh c k" for k using assms(4) by (auto simp: beyond_def)
  from split(2) show "listing l (beyond sh c) (drop 500 es)" unfolding above .
  have "(l |` {k. beyond sh cursor k \<and> k \<le> c}) ++ (l |` {k. beyond sh c k}) = l |` {k. beyond sh cursor k}"
    unfolding above [symmetric] by (rule ext) (auto simp: map_add_def restrict_map_def split: option.splits)
  then show "map_of (pairsOf (take 500 es)) ++ (l |` {k. beyond sh c k}) = l |` {k. beyond sh cursor k}"
    unfolding map_of_pairsOf [OF split(1)] .
qed

lemma restrict_kept: "kept s s' \<Longrightarrow> src s' |` {k. beyond sh c k} = src s |` {k. beyond sh c k}"
  by (rule ext) (auto simp: restrict_map_def kept_def beyond_def)

lemma drain_copies:
  assumes "ok s" "froz s" "cursor = [] \<or> src s cursor \<noteq> None" "drain fuel F sh cursor s = Some (s', e)"
  shows "kept s s' \<and> (e = None \<longrightarrow> dst s' = dst s ++ (src s |` {k. beyond sh cursor k}))"
  using assms
proof (induction fuel arbitrary: s cursor)
  case (Suc fuel)
  from Suc.prems(1-3) show ?case
  proof (cases rule: drain_round)
    case (failed s1 e1)
    with Suc.prems(4) show ?thesis by auto
  next
    case (last s1 es)
    with Suc.prems(4) map_of_pairsOf [OF last(3)] show ?thesis by simp
  next
    case (more s1 es c)
    have "ok s1" "froz s1" using more(2) by (simp_all add: kept_def)
    moreover have "drain fuel F sh c s1 = Some (s', e)" using Suc.prems(4) more(1) by simp
    ultimately have "kept s1 s' \<and> (e = None \<longrightarrow> dst s' = dst s1 ++ (src s1 |` {k. beyond sh c k}))"
      using Suc.IH [of s1 c] more(7) by blast
    moreover have "dst s1 ++ (src s1 |` {k. beyond sh c k}) = dst s ++ (src s |` {k. beyond sh cursor k})"
      unfolding more(8) restrict_kept [OF more(2)] map_add_assoc [symmetric] page_and_rest(1) [OF more(3-6)] ..
    ultimately show ?thesis using kept_trans [OF more(2)] by auto
  qed
qed simp

text \<open>With a round of fuel per page the loop ends.\<close>

lemma drain_ends:
  assumes "ok s" "froz s" "cursor = [] \<or> src s cursor \<noteq> None" "listing (src s) (beyond sh cursor) es" "length es < 500 * fuel"
  shows "drain fuel F sh cursor s \<noteq> None"
  using assms
proof (induction fuel arbitrary: s cursor es)
  case (Suc fuel)
  from Suc.prems(1-3) show ?case
  proof (cases rule: drain_round)
    case (more s1 es' c)
    have "es' = es" by (rule listing_unique [OF more(3) Suc.prems(4)])
    then have "listing (src s) (beyond sh c) (drop 500 es)" "length (drop 500 es) < 500 * fuel"
      using page_and_rest(2) [OF more(3-6)] more(4) Suc.prems(5) by simp_all
    moreover have "listing (src s1) (beyond sh c) = listing (src s) (beyond sh c)"
      using more(2) by (intro ext listing_cong) (simp add: kept_def beyond_def)
    ultimately have "drain fuel F sh c s1 \<noteq> None"
      using Suc.IH [of s1 c "drop 500 es"] more(2,7) by (simp add: kept_def)
    with more(1) show ?thesis by simp
  qed simp_all
qed simp

text \<open>
  The split up to the flip. When the new group holds nothing but part of the moving range (nothing on a
  first run, some of it after a crash), it holds the frozen range exactly at the time of the flip.
\<close>

lemma continueSplit_copies:
  assumes "ok s" and freeze: "ProposeToGroup F s (sh_GID sh) (freezeOp sh) = (s1, r)" "DecodeResult r = Inr res"
    and part: "dst s \<subseteq>\<^sub>m (src s1 |` {k. moving sh k})" and run: "continueSplit fuel F sh s = Some (s', None)"
  obtains s2 where "drain fuel F sh [] s1 = Some (s2, None)" "ok s2" "froz s2" "dst s2 = src s1 |` {k. moving sh k}"
    "\<And>k. moving sh k \<Longrightarrow> src s2 k = src s1 k" "(s', None) = flipMap F sh s2"
proof -
  have law: "ok s1" "froz s1" "dst s1 = dst s" using freeze_law [OF assms(1) freeze(1)] freeze(2) by auto
  obtain s2 e where d: "drain fuel F sh [] s1 = Some (s2, e)" "e = None" "(s', None) = flipMap F sh s2"
    using run freeze by (auto simp: continueSplit_def freezeOp_def split: option.splits prod.splits)
  have "kept s1 s2 \<and> (e = None \<longrightarrow> dst s2 = dst s1 ++ (src s1 |` {k. beyond sh [] k}))"
    by (rule drain_copies [OF law(1,2) _ d(1)]) simp
  moreover have "{k. beyond sh [] k} = {k. moving sh k}" by (simp add: beyond_def)
  moreover have "dst s1 ++ (src s1 |` {k. moving sh k}) = src s1 |` {k. moving sh k}"
    using part unfolding law(3) by (auto simp: map_add_def map_le_def fun_eq_iff dom_def split: option.splits)
  ultimately show ?thesis using d by (intro that) (simp_all add: kept_def)
qed

end

end
