(* ===== verification/KV_Import.thy ===== *)
theory KV_Import
  imports KV_List
begin

text \<open>
  The bulk import \<^verbatim>\<open>copy_in\<close>. It keeps foreign revisions, so the invariant of a group's cells is not
  promised after it (theory KV_Tx shows a revision that regresses); but the namespace stays readable and the
  contents become the old ones overwritten by the imported pairs, also when the entry collects history.
\<close>

context kv_env
begin

abbreviation smNs :: "'db SM \<Rightarrow> bool" where
  "smNs s \<equiv> ns_ok E (sm_gid s) (view (sm_st s))"

lemma import_pairs:
  assumes "ns_ok E g m" "distinct (map fst ps)"
  defines "m' \<equiv> apply_batch (map (\<lambda>(k, r). BSet (SMKey g k) (marshalRecord E r)) ps) m"
  shows "ns_ok E g m' \<and> live E g m' = live E g m ++ map_of ps"
  unfolding m'_def using assms(1,2)
proof (induction ps arbitrary: m)
  case (Cons p ps)
  obtain k r where p: "p = (k, r)" by (cases p)
  have "ns_ok E g (m(SMKey g k \<mapsto> marshalRecord E r))" using Cons.prems(1) by (rule ns_ok_put)
  note ih = Cons.IH [OF this]
  have "k \<notin> dom (map_of ps)" "distinct (map fst ps)" using Cons.prems(2) by (simp_all add: p dom_map_of_conv_image_fst)
  then have "live E g (m(SMKey g k \<mapsto> marshalRecord E r)) ++ map_of ps = live E g m ++ map_of (p # ps)"
    by (simp add: live_upd_SMKey record_rt p map_add_upd_left)
  with ih [OF \<open>distinct (map fst ps)\<close>] show ?case
    by (simp only: p list.map prod.case apply_batch_Cons apply_bop.simps simp_thms)
qed simp

text \<open>Updates outside records and versions.\<close>

lemma plain_upd:
  assumes "ns_ok E g m" "\<And>k. x \<noteq> SMKey g k" "\<not> prefix (HistPrefix g) x"
  shows "ns_ok E g (m(x := y)) \<and> live E g (m(x := y)) = live E g m"
  using assms ns_ok_upd [of g m x y] live_upd_other [of x g m y] by auto

lemma maybeGC_plain:
  assumes "ns_ok E (sm_gid s) (view (sm_st s))"
    and b: "ns_ok E (sm_gid s) (apply_batch b (view (sm_st s)))" "live E (sm_gid s) (apply_batch b (view (sm_st s))) = l"
    and gc: "maybeGC E n (s, b) = (s', b')"
  shows "sm_st s' = sm_st s \<and> sm_gid s' = sm_gid s \<and>
    ns_ok E (sm_gid s) (apply_batch b' (view (sm_st s))) \<and> live E (sm_gid s) (apply_batch b' (view (sm_st s))) = l"
proof -
  let ?g = "sm_gid s" and ?m = "apply_batch b (view (sm_st s))"
  obtain xs where xs: "DB_NewIter E (sm_st s) (HistPrefix ?g) (PrefixUpperBound (HistPrefix ?g)) = Inr xs"
    "sorted_keys xs" "set xs = {(x, v). view (sm_st s) x = Some v \<and> prefix (HistPrefix ?g) x}"
    using DB_NewIter_cases [of "sm_st s" "HistPrefix ?g" "PrefixUpperBound (HistPrefix ?g)"]
    unfolding prefix_iff_in_bounds by blast
  show ?thesis
  proof (cases "(s', b') = (s, b)")
    case True
    with b show ?thesis by simp
  next
    case False
    with gc xs(1) obtain co where s': "s' = s\<lparr>sm_cutoff := co\<rparr>"
      "b' = b @ map BDelete (gcDeletes E s co xs) @ [BSet (MVCCCutoffKey ?g) (be64 co)]"
      by (auto simp: maybeGC_def Let_def split: if_splits)
    let ?P = "\<lambda>k q. hist E ?g (view (sm_st s)) k q \<noteq> None \<and>
      \<not> gcKeep co (smLive E view s k) (hist E ?g (view (sm_st s)) k) q"
    have ds: "set (gcDeletes E s co xs) = {HistKey ?g k q | k q. ?P k q}" by (rule gcDeletes_set [OF assms(1) xs(2,3)])
    let ?new = "\<lambda>x. if x \<in> set (gcDeletes E s co xs) then None else ?m x"
    note wo = without_versions [where m = ?m, OF ds]
    have "ns_ok E ?g (?new(MVCCCutoffKey ?g \<mapsto> be64 co)) \<and> live E ?g (?new(MVCCCutoffKey ?g \<mapsto> be64 co)) = live E ?g ?new"
      using wo(1) b(1) by (intro plain_upd) auto
    with wo(2) b(2) s' show ?thesis by (simp add: apply_batch_deletes)
  qed
qed

lemma import_entry:
  assumes ns: "smNs s" and x: "entryOp E data = Some x" "o_Type x = ''copy_in''"
  obtains s' rv where "applyEntry E n data s = Inr (Some (revResult rv), s')" "sm_gid s' = sm_gid s" "smNs s'"
    "smLive E view s' = smLive E view s ++ map_of (o_Pairs x)"
proof -
  let ?g = "sm_gid s" and ?m = "view (sm_st s)" and ?l = "smLive E view s ++ map_of (o_Pairs x)"
  obtain ident cmd where cmd: "data \<noteq> []" "unmarshalCommand E data = Some (ident, cmd)" "unmarshalOp E cmd = Some x"
    using x(1) by (auto simp: entryOp_def split: if_splits option.splits)
  have d: "distinct (map fst (o_Pairs x))" using op_decoded [OF cmd(3)] by simp
  obtain res s2 b2 where op: "applyOp E n x (start s) = (res, s2, b2)" by (metis surj_pair)
  then have cp: "applyCopyIn E x (start s) = (res, s2, b2)" using applyOp_simps(13) [OF x(2), of E n "start s"] by simp
  let ?ps = "map (\<lambda>(k, r). BSet (SMKey ?g k) (marshalRecord E r)) (o_Pairs x)"
  note ip = import_pairs [OF ns d]
  have rev: "ns_ok E ?g ((apply_batch ?ps ?m)(RevisionKey ?g \<mapsto> z)) \<and> live E ?g ((apply_batch ?ps ?m)(RevisionKey ?g \<mapsto> z)) = ?l" for z
    using plain_upd [of ?g "apply_batch ?ps ?m" "RevisionKey ?g" "Some z"] ip by simp
  have s2: "sm_st s2 = sm_st s" "sm_gid s2 = ?g" "\<exists>rv. res = revResult rv"
    "ns_ok E ?g (apply_batch b2 ?m)" "live E ?g (apply_batch b2 ?m) = ?l"
    using cp ip rev by (auto simp: applyCopyIn_def Let_def split: if_splits)
  obtain s3 b3 where gc: "maybeGC E n (s2, b2) = (s3, b3)" by fastforce
  have s3: "sm_st s3 = sm_st s" "sm_gid s3 = ?g" "ns_ok E ?g (apply_batch b3 ?m)" "live E ?g (apply_batch b3 ?m) = ?l"
    using maybeGC_plain [OF _ _ _ gc, of ?l] ns s2 by simp_all
  obtain db where db: "DB_Commit E (sm_st s) (b3 @ [BSet (RaftAppliedKey ?g) (be64 n)]) = Inr db"
    "view db = apply_batch (b3 @ [BSet (RaftAppliedKey ?g) (be64 n)]) ?m" by (rule DB_Commit_cases)
  have "ns_ok E ?g (view db) \<and> live E ?g (view db) = ?l"
    using plain_upd [of ?g "apply_batch b3 ?m" "RaftAppliedKey ?g" "Some (be64 n)"] s3 db(2) foreign_simps(2) [of ?g ?g]
    by (simp add: foreign_def)
  moreover have "applyEntry E n data s = Inr (Some res, s3\<lparr>sm_st := db\<rparr>)"
    using cmd op gc db(1) s3(1) by (simp add: applyEntry_def Apply_def)
  ultimately show ?thesis using s2(3) s3(2) by (auto intro!: that [of _ "s3\<lparr>sm_st := db\<rparr>"])
qed

end

end
