(* ===== verification/Split_Host.thy ===== *)
theory Split_Host
  imports Split_Copy Fabric KV_Import
begin

text \<open>
  The contract of the copy phase, discharged for the groups of a hosting node: the source group may take any
  client traffic between two proposals of the split, the new group takes none before the flip.
\<close>

section \<open>Groups under client traffic\<close>

definition clientEntry :: "'db env \<Rightarrow> bytes \<Rightarrow> bool" where
  "clientEntry E data \<longleftrightarrow> entry_fine E data \<and> (\<forall>x. entryOp E data = Some x \<longrightarrow> clientOp x)"

definition calmGroups :: "'db env \<Rightarrow> ('db \<Rightarrow> bytes \<rightharpoonup> bytes) \<Rightarrow> Shard \<Rightarrow> (u64 \<Rightarrow> ('db SM \<times> u64) option) \<Rightarrow> bool" where
  "calmGroups E view sh G \<longleftrightarrow>
     (\<exists>sm i. G (sh_GID sh) = Some (sm, i) \<and> sm_ok E view sm \<and> sm_rev sm < i \<and> keys_utf8 (smLive E view sm)) \<and>
     (\<exists>sm i. G (sh_NewGID sh) = Some (sm, i) \<and> ns_ok E (sm_gid sm) (view (sm_st sm)))"

text \<open>Entries of other clients never address the group that no shard names yet.\<close>

definition calmOthers :: "'db env \<Rightarrow> Shard \<Rightarrow> (u64 \<times> bytes) list \<Rightarrow> bool" where
  "calmOthers E sh es \<longleftrightarrow> (\<forall>(g, data) \<in> set es. g \<noteq> sh_NewGID sh \<and> (g = sh_GID sh \<longrightarrow> clientEntry E data))"

definition calm :: "'db env \<Rightarrow> ('db \<Rightarrow> bytes \<rightharpoonup> bytes) \<Rightarrow> Shard \<Rightarrow> 'db hosted \<Rightarrow> bool" where
  "calm E view sh H \<longleftrightarrow> calmGroups E view sh (ho_groups H) \<and> list_all (calmOthers E sh) (ho_others H)"

definition frozenFor :: "Shard \<Rightarrow> (u64 \<Rightarrow> ('db SM \<times> u64) option) \<Rightarrow> bool" where
  "frozenFor sh G \<longleftrightarrow> (\<exists>sm i. G (sh_GID sh) = Some (sm, i) \<and>
     sm_freeze sm = Some \<lparr>f_Start = sh_SplitKey sh, f_End = sh_End sh\<rparr>)"

definition groupLive :: "'db env \<Rightarrow> ('db \<Rightarrow> bytes \<rightharpoonup> bytes) \<Rightarrow> (u64 \<Rightarrow> ('db SM \<times> u64) option) \<Rightarrow> u64 \<Rightarrow> bytes \<rightharpoonup> Record" where
  "groupLive E view G g = (case G g of None \<Rightarrow> (\<lambda>_. None) | Some (sm, i) \<Rightarrow> smLive E view sm)"

lemma hostLive_group: "hostLive E view H g = groupLive E view (ho_groups H) g"
  by (simp add: hostLive_def groupLive_def)

text \<open>What one or more foreign entries leave alone.\<close>

definition untouched :: "'db env \<Rightarrow> ('db \<Rightarrow> bytes \<rightharpoonup> bytes) \<Rightarrow> Shard \<Rightarrow>
    (u64 \<Rightarrow> ('db SM \<times> u64) option) \<Rightarrow> (u64 \<Rightarrow> ('db SM \<times> u64) option) \<Rightarrow> bool" where
  "untouched E view sh G G' \<longleftrightarrow> calmGroups E view sh G' \<and> G' (sh_NewGID sh) = G (sh_NewGID sh) \<and>
     (frozenFor sh G \<longrightarrow> frozenFor sh G' \<and>
        (\<forall>k. moving sh k \<longrightarrow> groupLive E view G' (sh_GID sh) k = groupLive E view G (sh_GID sh) k))"

lemma untouched_refl: "calmGroups E view sh G \<Longrightarrow> untouched E view sh G G"
  by (simp add: untouched_def)

lemma untouched_trans: "untouched E view sh G G1 \<Longrightarrow> untouched E view sh G1 G2 \<Longrightarrow> untouched E view sh G G2"
  by (simp add: untouched_def)

lemma next_index: "i \<noteq> - 1 \<Longrightarrow> (i :: u64) < i + 1"
  using unatSuc [of i] by (simp add: word_less_nat_alt add.commute eq_neg_iff_add_eq_0)

locale split_host = kv_env E view
  for E :: "'db env" and view :: "'db \<Rightarrow> bytes \<rightharpoonup> bytes" +
  fixes enc :: "Op \<Rightarrow> bytes" and db0 :: 'db and C :: "'db hosted cenv" and sh :: Shard
  assumes wire_law: "wire E enc" and two_groups: "sh_GID sh \<noteq> sh_NewGID sh"
    and split_utf8: "valid_utf8 (sh_SplitKey sh)" "valid_utf8 (sh_End sh)"
begin

lemma frozen_moving: "sm_freeze sm = Some \<lparr>f_Start = sh_SplitKey sh, f_End = sh_End sh\<rparr> \<Longrightarrow> frozen sm k \<longleftrightarrow> moving sh k"
  by (simp add: frozen_def moving_def)

text \<open>One entry at the source whose effect spares a frozen range.\<close>

lemma source_entry:
  assumes calm: "calmGroups E view sh G" and g: "G (sh_GID sh) = Some (sm, i)" and i: "i \<noteq> - 1"
    and ap: "applyEntry E i data sm = Inr (res, sm')"
    and sm': "sm_ok E view sm'" "sm_rev sm' = i \<or> sm_rev sm' = sm_rev sm" "keys_utf8 (smLive E view sm')"
    and fr: "sm_freeze sm = Some \<lparr>f_Start = sh_SplitKey sh, f_End = sh_End sh\<rparr> \<Longrightarrow> sm_freeze sm' = sm_freeze sm"
      "\<And>k. frozen sm k \<Longrightarrow> smLive E view sm' k = smLive E view sm k"
  shows "untouched E view sh G (G(sh_GID sh \<mapsto> (sm', i + 1)))"
proof -
  have "sm_rev sm < i" using calm g by (auto simp: calmGroups_def)
  with sm'(2) next_index [OF i] have "sm_rev sm' < i + 1" by auto
  then show ?thesis using calm g sm' fr frozen_moving two_groups
    by (auto simp: untouched_def calmGroups_def frozenFor_def groupLive_def)
qed

lemma commitEntry_untouched:
  assumes calm: "calmGroups E view sh G" and g: "g \<noteq> sh_NewGID sh" "g = sh_GID sh \<longrightarrow> clientEntry E data"
  shows "untouched E view sh G (fst (commitEntry E g data G))"
proof (cases "g = sh_GID sh")
  case False
  then have "fst (commitEntry E g data G) (sh_GID sh) = G (sh_GID sh)" "fst (commitEntry E g data G) (sh_NewGID sh) = G (sh_NewGID sh)"
    using g(1) by (auto simp: commitEntry_def split: option.splits prod.splits sum.splits)
  with calm show ?thesis by (simp add: untouched_def calmGroups_def frozenFor_def groupLive_def)
next
  case True
  obtain sm i where sm: "G (sh_GID sh) = Some (sm, i)" "sm_ok E view sm" "sm_rev sm < i" "keys_utf8 (smLive E view sm)"
    using calm by (auto simp: calmGroups_def)
  have cl: "entry_fine E data" "\<And>x. entryOp E data = Some x \<Longrightarrow> clientOp x" using g(2) True by (auto simp: clientEntry_def)
  obtain res sm' where sm': "applyEntry E i data sm = Inr (res, sm')" "sm_ok E view sm'" "sm_rev sm' = i \<or> sm_rev sm' = sm_rev sm"
    "sm_freeze sm' = sm_freeze sm" "\<And>k. frozen sm k \<Longrightarrow> smLive E view sm' k = smLive E view sm k"
    "keys_utf8 (smLive E view sm) \<Longrightarrow> keys_utf8 (smLive E view sm')"
    by (rule client_frozen_entry [OF sm(2,3) cl]) auto
  show ?thesis
  proof (cases "i = - 1")
    case True
    with sm(1) \<open>g = sh_GID sh\<close> calm show ?thesis by (simp add: commitEntry_def untouched_refl)
  next
    case False
    then have "untouched E view sh G (G(sh_GID sh \<mapsto> (sm', i + 1)))"
      by (rule source_entry [OF calm sm(1) _ sm'(1)]) (use sm sm' in auto)
    then show ?thesis using True False sm(1) sm'(1) by (simp add: commitEntry_def)
  qed
qed

lemma commitOthers_untouched:
  assumes "calmGroups E view sh G" "calmOthers E sh es"
  shows "untouched E view sh G (commitOthers E es G)"
  using assms
proof (induction es arbitrary: G)
  case (Cons e es)
  obtain g data where e: "e = (g, data)" by (cases e)
  let ?G = "fst (commitEntry E g data G)"
  have u: "untouched E view sh G ?G" using Cons.prems by (intro commitEntry_untouched) (auto simp: e calmOthers_def)
  then have "untouched E view sh ?G (commitOthers E es ?G)"
    using Cons.prems(2) by (intro Cons.IH) (auto simp: untouched_def calmOthers_def)
  with u show ?case by (auto simp: e intro: untouched_trans)
qed (simp add: untouched_refl)

lemma admit_untouched:
  assumes "calm E view sh H"
  shows "untouched E view sh (ho_groups H) (ho_groups (admit E H))" "calm E view sh (admit E H)"
    "list_all (calmOthers E sh) (ho_others (admit E H))"
proof -
  show "untouched E view sh (ho_groups H) (ho_groups (admit E H))" "list_all (calmOthers E sh) (ho_others (admit E H))"
    using assms commitOthers_untouched by (auto simp: admit_def calm_def untouched_refl split: list.splits)
  then show "calm E view sh (admit E H)" by (simp add: calm_def untouched_def)
qed

end

section \<open>Proposals of the split\<close>

lemma listRangeFrom_count [simp]: "listRangeFrom E (countOp s) = listRangeFrom E s"
  by (intro ext) (simp add: listRangeFrom_def scanLatest_def cong: sum.case_cong)

context split_host
begin

lemma admit_groups: "calm E view sh H \<Longrightarrow> calmGroups E view sh (ho_groups (admit E H))"
  using admit_untouched(2) by (simp add: calm_def)

text \<open>A proposal to the source: the log is used up, or the entry is applied after the traffic admitted first.\<close>

lemma propose_source:
  assumes "calm E view sh H" "op_wire op" "hostPropose E enc H (sh_GID sh) op = (H', r)"
  obtains
    (full) e where "H' = admit E H" "r = Inl e"
  | (applied) sm i where "ho_groups (admit E H) (sh_GID sh) = Some (sm, i)" "i \<noteq> - 1"
      "sm_ok E view sm" "sm_rev sm < i" "keys_utf8 (smLive E view sm)" "entryOp E (enc op) = Some op"
      "\<And>res sm'. applyEntry E i (enc op) sm = Inr (Some res, sm') \<Longrightarrow>
        H' = (admit E H)\<lparr>ho_groups := (ho_groups (admit E H))(sh_GID sh \<mapsto> (sm', i + 1))\<rparr> \<and> r = Inr res"
proof -
  obtain sm i where sm: "ho_groups (admit E H) (sh_GID sh) = Some (sm, i)" "sm_ok E view sm" "sm_rev sm < i"
    "keys_utf8 (smLive E view sm)"
    using admit_untouched(2) [OF assms(1)] by (auto simp: calm_def calmGroups_def)
  show ?thesis
  proof (cases "i = - 1")
    case True
    with sm(1) assms(3) show ?thesis by (intro full) (auto simp: hostPropose_def commitEntry_def)
  next
    case False
    have "entryOp E (enc op) = Some op" using wire_law assms(2) by (simp add: wire_def)
    with False sm assms(3) show ?thesis
      by (intro applied [of sm i]) (auto simp: hostPropose_def commitEntry_def Let_def)
  qed
qed

text \<open>The state after the traffic and one entry at the source.\<close>

lemma calm_after:
  assumes "calm E view sh H" "untouched E view sh (ho_groups (admit E H)) G'"
  shows "calm E view sh ((admit E H)\<lparr>ho_groups := G'\<rparr>)" "untouched E view sh (ho_groups H) G'"
  using admit_untouched [OF assms(1)] assms(2) untouched_trans by (auto simp: calm_def untouched_def)

lemma freeze_host:
  assumes calm: "calm E view sh H" and p: "hostPropose E enc H (sh_GID sh) (freezeOp sh) = (H', r)"
  shows "calm E view sh H' \<and> ho_groups H' (sh_NewGID sh) = ho_groups H (sh_NewGID sh) \<and>
    (\<forall>res. DecodeResult r = Inr res \<longrightarrow> frozenFor sh (ho_groups H'))"
proof -
  have w: "op_wire (freezeOp sh)"
    using split_utf8 by (simp add: op_wire_def op_utf8_def freezeOp_def zeroOp_def)
  from calm w p show ?thesis
  proof (cases rule: propose_source)
    case (full e)
    with admit_untouched [OF calm] show ?thesis by (simp add: untouched_def DecodeResult_def)
  next
    case (applied sm i)
    let ?op = "applyFreezeRange E i (freezeOp sh) (start sm)"
    have op: "applyOp E i (freezeOp sh) (start sm) = ?op" by (rule applyOp_simps) (simp add: freezeOp_def)
    have st: "fst ?op = revResult i" "sm_freeze (fst (snd ?op)) = Some \<lparr>f_Start = sh_SplitKey sh, f_End = sh_End sh\<rparr>"
      "staged E view sm i (\<lambda>_. None) (snd ?op)"
      using applyFreezeRange_staged [OF applied(3), of "freezeOp sh" i] split_utf8 by (simp_all add: freezeOp_def)
    obtain sm' where sm': "applyEntry E i (enc (freezeOp sh)) sm = Inr (Some (fst ?op), sm')"
      "entryDone E view sm i (\<lambda>_. None) sm'" "sm_freeze sm' = sm_freeze (fst (snd ?op))"
      by (rule entryOp_done [OF applied(3,4,6), unfolded op, OF st(3)]) (rule that)
    note d = entryDoneD [OF sm'(2)]
    have live: "smLive E view sm' = smLive E view sm" using d(3) by (auto simp: overlay_def fun_eq_iff)
    have "untouched E view sh (ho_groups (admit E H)) ((ho_groups (admit E H))(sh_GID sh \<mapsto> (sm', i + 1)))"
      by (rule source_entry [OF admit_groups [OF calm] applied(1,2) sm'(1)]) (use applied(5) d live sm'(3) st(2) in auto)
    with calm_after [OF calm this] applied(7) [OF sm'(1)] sm'(3) st(2) show ?thesis
      by (auto simp: untouched_def frozenFor_def)
  qed
qed

lemma page_host:
  assumes calm: "calm E view sh H" and fr: "frozenFor sh (ho_groups H)"
    and cur: "cursor = [] \<or> hostLive E view H (sh_GID sh) cursor \<noteq> None"
    and p: "hostPropose E enc H (sh_GID sh) (pageOp sh cursor) = (H', r)"
  shows "calm E view sh H' \<and> untouched E view sh (ho_groups H) (ho_groups H') \<and>
    (\<forall>res. DecodeResult r = Inr res \<longrightarrow> (\<exists>es. res_Entries res = take 500 es \<and>
      listing (hostLive E view H (sh_GID sh)) (beyond sh cursor) es))"
proof -
  have "valid_utf8 cursor"
    using cur calm by (auto simp: calm_def calmGroups_def hostLive_def keys_utf8_def)
  then have w: "op_wire (pageOp sh cursor)"
    using split_utf8 by (simp add: op_wire_def op_utf8_def pageOp_def zeroOp_def)
  from calm w p show ?thesis
  proof (cases rule: propose_source)
    case (full e)
    with admit_untouched [OF calm] show ?thesis by (simp add: DecodeResult_def)
  next
    case (applied sm i)
    let ?x = "pageOp sh cursor"
    obtain es where es: "listRangeFrom E sm (sm_st sm) (sh_SplitKey sh) (sh_End sh) cursor 500 = Inr (take (clampLimit 500) es)"
      "listing (smLive E view sm) (\<lambda>k. inSpan (sh_SplitKey sh) (sh_End sh) k \<and> (cursor = [] \<or> cursor < k)) es"
      by (rule listRangeFrom_page [OF applied(3)])
    have op: "applyOp E i ?x (start sm) = (noResult\<lparr>res_Entries := take 500 es, res_ShardRev := sm_rev sm\<rparr>, start sm)"
      using es(1) by (simp add: applyOp_def Let_def pageOp_def splitCopyPage_def clampLimit_def)
    have st: "staged E view sm i (\<lambda>_. None) (snd (applyOp E i ?x (start sm)))"
      unfolding op using staged_begin [OF applied(3)] by simp
    obtain sm' where sm': "applyEntry E i (enc ?x) sm = Inr (Some (fst (applyOp E i ?x (start sm))), sm')"
      "entryDone E view sm i (\<lambda>_. None) sm'" "sm_freeze sm' = sm_freeze (fst (snd (applyOp E i ?x (start sm))))"
      by (rule entryOp_done [OF applied(3,4,6) st]) (rule that)
    note d = entryDoneD [OF sm'(2)]
    have live: "smLive E view sm' = smLive E view sm" using d(3) by (auto simp: overlay_def fun_eq_iff)
    have "untouched E view sh (ho_groups (admit E H)) ((ho_groups (admit E H))(sh_GID sh \<mapsto> (sm', i + 1)))"
      by (rule source_entry [OF admit_groups [OF calm] applied(1,2) sm'(1)]) (use applied(5) d live sm'(3) op in auto)
    note after = calm_after [OF calm this]
    have "\<And>k. moving sh k \<Longrightarrow> smLive E view sm k = hostLive E view H (sh_GID sh) k"
      using admit_untouched(1) [OF calm] fr applied(1) by (simp add: untouched_def hostLive_group groupLive_def)
    then have "listing (hostLive E view H (sh_GID sh)) (beyond sh cursor) es"
      using es(2) listing_cong [of "beyond sh cursor" "smLive E view sm" "hostLive E view H (sh_GID sh)" es]
      by (simp add: beyond_def [abs_def] moving_def inSpan_def)
    with after applied(7) [OF sm'(1)] op show ?thesis by (auto simp: DecodeResult_def noResult_def)
  qed
qed

end

section \<open>The contract\<close>

context split_host
begin

lemma target_untouched:
  assumes "calm E view sh H" "ho_groups H (sh_NewGID sh) = Some (sm, i)" "applyEntry E i data sm = Inr (res, sm')"
    "ns_ok E (sm_gid sm') (view (sm_st sm'))"
  shows "calm E view sh (H\<lparr>ho_groups := (ho_groups H)(sh_NewGID sh \<mapsto> (sm', i + 1))\<rparr>)"
  using assms two_groups by (auto simp: calm_def calmGroups_def)

lemma import_host:
  assumes calm: "calm E view sh H" and fr: "frozenFor sh (ho_groups H)" and d: "distinct (map fst pairs)"
    and src: "\<And>k r. (k, r) \<in> set pairs \<Longrightarrow> hostLive E view H (sh_GID sh) k = Some r"
    and p: "hostPropose E enc H (sh_NewGID sh) (importOp pairs) = (H', r)"
  shows "calm E view sh H' \<and> frozenFor sh (ho_groups H') \<and>
    (\<forall>k. moving sh k \<longrightarrow> hostLive E view H' (sh_GID sh) k = hostLive E view H (sh_GID sh) k) \<and>
    (\<forall>res. DecodeResult r = Inr res \<longrightarrow> hostLive E view H' (sh_NewGID sh) = hostLive E view H (sh_NewGID sh) ++ map_of pairs)"
proof -
  have "valid_utf8 k" if "(k, r) \<in> set pairs" for k r
    using src [OF that] calm by (auto simp: calm_def calmGroups_def hostLive_def keys_utf8_def)
  then have "op_wire (importOp pairs)"
    using d by (auto simp: op_wire_def op_utf8_def importOp_def zeroOp_def)
  then have x: "entryOp E (enc (importOp pairs)) = Some (importOp pairs)" using wire_law by (simp add: wire_def)
  let ?H = "admit E H"
  note adm = admit_untouched [OF calm]
  obtain sm i where sm: "ho_groups ?H (sh_NewGID sh) = Some (sm, i)" "ns_ok E (sm_gid sm) (view (sm_st sm))"
    using admit_groups [OF calm] by (auto simp: calmGroups_def)
  have same: "ho_groups H (sh_NewGID sh) = Some (sm, i)" using adm(1) sm(1) by (simp add: untouched_def)
  have kept: "frozenFor sh (ho_groups ?H)"
    "\<And>k. moving sh k \<Longrightarrow> hostLive E view ?H (sh_GID sh) k = hostLive E view H (sh_GID sh) k"
    using adm(1) fr by (simp_all add: untouched_def hostLive_group)
  show ?thesis
  proof (cases "i = - 1")
    case True
    with p sm(1) have "H' = ?H" "DecodeResult r = Inl ''log index exhausted''"
      by (auto simp: hostPropose_def commitEntry_def DecodeResult_def)
    with adm(2) kept show ?thesis by simp
  next
    case False
    obtain sm' rv where sm': "applyEntry E i (enc (importOp pairs)) sm = Inr (Some (revResult rv), sm')" "sm_gid sm' = sm_gid sm"
      "ns_ok E (sm_gid sm') (view (sm_st sm'))" "smLive E view sm' = smLive E view sm ++ map_of pairs"
      by (rule import_entry [OF sm(2) x]) (simp_all add: importOp_def)
    have H': "H' = ?H\<lparr>ho_groups := (ho_groups ?H)(sh_NewGID sh \<mapsto> (sm', i + 1))\<rparr>"
      using p False sm(1) sm'(1) by (auto simp: hostPropose_def commitEntry_def Let_def)
    then have "calm E view sh H'" using target_untouched [OF adm(2) sm(1) sm'(1,3)] by simp
    with H' kept two_groups sm'(4) same show ?thesis by (auto simp: frozenFor_def hostLive_def)
  qed
qed

end

sublocale split_host \<subseteq> copy: split_groups "hostFabric E enc db0 C" sh "calm E view sh" "hostLive E view"
  "\<lambda>H. frozenFor sh (ho_groups H)"
proof (unfold_locales, goal_cases)
  case (1 H H' r)
  with freeze_host [of H H' r] show ?case by (simp add: hostLive_group groupLive_def)
next
  case (2 H cursor H' r)
  with page_host [of H cursor H' r] show ?case by (simp add: untouched_def hostLive_group groupLive_def)
next
  case (3 H pairs H' r)
  with import_host [of H pairs H' r] show ?case by simp
qed

context split_host
begin

lemma continueSplit_exact:
  assumes "calm E view sh H"
    and "ProposeToGroup (hostFabric E enc db0 C) H (sh_GID sh) (freezeOp sh) = (H1, r)" "DecodeResult r = Inr res"
    and "hostLive E view H (sh_NewGID sh) \<subseteq>\<^sub>m hostLive E view H1 (sh_GID sh) |` {k. moving sh k}"
    and "continueSplit fuel (hostFabric E enc db0 C) sh H = Some (H', None)"
  shows "\<exists>H2. flipMap (hostFabric E enc db0 C) sh H2 = (H', None) \<and> frozenFor sh (ho_groups H2) \<and>
    hostLive E view H2 (sh_NewGID sh) = hostLive E view H1 (sh_GID sh) |` {k. moving sh k} \<and>
    (\<forall>k. moving sh k \<longrightarrow> hostLive E view H2 (sh_GID sh) k = hostLive E view H1 (sh_GID sh) k)"
  by (rule copy.continueSplit_copies [OF assms]) auto

text \<open>The frozen range has finitely many keys, hence finitely many pages.\<close>

lemma source_listing:
  assumes "calm E view sh H"
  obtains es where "listing (hostLive E view H (sh_GID sh)) (beyond sh []) es"
proof -
  obtain sm i where sm: "ho_groups H (sh_GID sh) = Some (sm, i)" "sm_ok E view sm"
    using assms by (auto simp: calm_def calmGroups_def)
  obtain es where "listing (smLive E view sm) (inSpan (sh_SplitKey sh) (sh_End sh)) es"
    by (rule listRangeFrom_page [OF sm(2), of "sh_SplitKey sh" "sh_End sh" "[]" 0]) simp
  then show ?thesis using sm(1) by (intro that [of es]) (simp add: beyond_def [abs_def] moving_def inSpan_def [abs_def] hostLive_def)
qed

lemma continueSplit_ends:
  assumes "calm E view sh H"
  shows "\<exists>n. \<forall>fuel \<ge> n. \<exists>H' e. continueSplit fuel (hostFabric E enc db0 C) sh H = Some (H', e)"
proof -
  let ?F = "hostFabric E enc db0 C"
  obtain H1 r where p: "ProposeToGroup ?F H (sh_GID sh) (freezeOp sh) = (H1, r)" by fastforce
  note law = copy.freeze_law [OF assms p]
  show ?thesis
  proof (cases "DecodeResult r")
    case (Inl e)
    with p show ?thesis by (auto simp: continueSplit_def freezeOp_def)
  next
    case (Inr res)
    obtain es where es: "listing (hostLive E view H1 (sh_GID sh)) (beyond sh []) es"
      using law by (blast intro: source_listing)
    have "\<exists>H' e. continueSplit fuel ?F sh H = Some (H', e)" if "Suc (length es) \<le> fuel" for fuel
    proof -
      have "drain fuel ?F sh [] H1 \<noteq> None" using law Inr that by (intro copy.drain_ends [OF _ _ _ es]) auto
      then show ?thesis using p Inr by (auto simp: continueSplit_def freezeOp_def split: option.splits)
    qed
    then show ?thesis by blast
  qed
qed

end

lemma split_hostI:
  assumes "kv_env E view" "wire E enc" "sh_GID sh \<noteq> sh_NewGID sh" "valid_utf8 (sh_SplitKey sh)" "valid_utf8 (sh_End sh)"
  shows "split_host E view enc sh"
  using assms by (simp add: split_host_def split_host_axioms_def)

end
