(* ===== verification/Split_Props.thy ===== *)
theory Split_Props
  imports Split_Host Cluster_Ref
begin

text \<open>
  Shard splits on a hosting node: the copy is exact under concurrent client traffic, it ends, and a
  concrete split of the reference cluster.
\<close>

section \<open>A split in progress\<close>

text \<open>
  Group 2 splits at \<^verbatim>\<open>b\<close> into the new group 9. After the freeze another client writes \<^verbatim>\<open>c\<close> (refused, the
  range is frozen) and \<^verbatim>\<open>a\<close> (accepted) while the copy runs.
\<close>

definition splitA :: Shard where
  "splitA = shardA\<lparr>sh_State := ''splitting'', sh_SplitKey := str ''b'', sh_NewGID := 9\<rparr>"

definition splitting :: "refdb hosted" where
  "splitting = \<lparr>ho_groups = [1 \<mapsto> (machine 1 [putOp ''shards/10'' (encShard splitA)], 2),
       2 \<mapsto> (machine 2 opsA, 4), 9 \<mapsto> (emptySM 9, 1)],
     ho_others = [[], [(2, encOp (putOp ''c'' [60])), (2, encOp (putOp ''a'' [70]))]]\<rparr>"

interpretation spl: split_host cluEnv map_of encOp "[]" cluC splitA
proof unfold_locales
  show "wire cluEnv encOp" by (simp add: wire_def entryOp_encOp)
qed code_simp+

lemma live_utf8:
  assumes "list_all (\<lambda>e. prefix (SMPrefix g) (fst e) \<longrightarrow> valid_utf8 (drop (length (SMPrefix g)) (fst e))) db"
  shows "keys_utf8 (live E g (map_of db))"
  unfolding keys_utf8_def
proof (intro allI impI)
  fix k assume "live E g (map_of db) k \<noteq> None"
  then obtain v where "(SMKey g k, v) \<in> set db"
    by (auto simp: live_def bind_eq_None_conv dest: map_of_SomeD)
  with assms show "valid_utf8 k" by (auto simp: list_all_iff SMKey_append)
qed

lemma clientEntry_encOp: "plainOp x \<Longrightarrow> clientOp x \<Longrightarrow> clientEntry cluEnv (encOp x)"
  using plainOp_fine entryOp_encOp by (auto simp: clientEntry_def plainOp_def)

lemma splitting_calm: "calm cluEnv map_of splitA splitting"
proof -
  have k: "list_all (\<lambda>e. prefix (SMPrefix 2) (fst e) \<longrightarrow> valid_utf8 (drop (length (SMPrefix 2)) (fst e))) (sm_st (machine 2 opsA))"
    by code_simp
  have r: "sm_rev (machine 2 opsA) < 4" by code_simp
  have p: "list_all (\<lambda>x. plainOp x \<and> clientOp x) [putOp ''c'' [60], putOp ''a'' [70]]" by code_simp
  have g: "sh_GID splitA = 2" "sh_NewGID splitA = 9" by (simp_all add: splitA_def shardA_def)
  have "ns_ok cluEnv (sm_gid (emptySM 9)) (map_of (sm_st (emptySM 9)))" using emptySM_ok [of 9] by (simp add: sm_ok_def)
  then show ?thesis
    using machine_ok [of opsA 2] plain_logs(2) live_utf8 [OF k, of cluEnv] r p
    by (auto simp: calm_def calmGroups_def calmOthers_def splitting_def g opsA_def clientEntry_encOp)
qed

lemma returned: "map_option snd x = Some y \<Longrightarrow> \<exists>a. x = Some (a, y)"
  by (cases x) auto

lemma answered: "\<not> isl x \<Longrightarrow> \<exists>y. x = Inr y"
  by (cases x) auto

section \<open>Properties\<close>






end
