(* ===== verification/SQL_Value.thy ===== *)
theory SQL_Value
  imports Go_Text "HOL-Library.Signed_Division"
begin

text \<open>
  The values of the SQL engine (\<^verbatim>\<open>pkg/service/sql/value.go\<close>): types, comparison, arithmetic and casts,
  and the vector literals of \<^verbatim>\<open>vector.go\<close>. An \<^verbatim>\<open>int64\<close> is a 64-bit word read with sign, a
  \<^verbatim>\<open>float64\<close> its 64 IEEE-754 bits, a timestamp its nanoseconds since the Unix epoch. Order,
  equality, NaN and conversions of floats are computed on the bits; rounding arithmetic, decimal spellings
  of floats and timestamps, and base64 are functions of the record \<^verbatim>\<open>sqlenv\<close>, which also holds the clock
  reading and the random bytes an evaluation sees (one of each per evaluation). An error is the fixed part
  of its text.
\<close>

type_synonym f64 = "64 word"
type_synonym f32 = "32 word"

section \<open>Floats\<close>

definition fmag :: "f64 \<Rightarrow> f64" where
  "fmag f = f AND mask 63"

definition IsNaN :: "f64 \<Rightarrow> bool" where
  "IsNaN f \<longleftrightarrow> 0x7FF0000000000000 < fmag f"

definition IsInf :: "f64 \<Rightarrow> bool" where
  "IsInf f \<longleftrightarrow> fmag f = 0x7FF0000000000000"

text \<open>Sign and magnitude as one number: the order of the floats that are not NaN; both zeros are 0.\<close>

definition ford :: "f64 \<Rightarrow> int" where
  "ford f = (if bit f 63 then - uint (fmag f) else uint (fmag f))"

definition fless :: "f64 \<Rightarrow> f64 \<Rightarrow> bool" where
  "fless f g \<longleftrightarrow> \<not> IsNaN f \<and> \<not> IsNaN g \<and> ford f < ford g"

definition feq :: "f64 \<Rightarrow> f64 \<Rightarrow> bool" where
  "feq f g \<longleftrightarrow> \<not> IsNaN f \<and> \<not> IsNaN g \<and> ford f = ford g"

definition fneg :: "f64 \<Rightarrow> f64" where
  "fneg f = f XOR push_bit 63 1"

text \<open>\<^verbatim>\<open>float64(n)\<close>: round to nearest, ties to even.\<close>

definition roundShift :: "nat \<Rightarrow> nat \<Rightarrow> nat" where
  "roundShift s m = (let q = m div 2 ^ s; r = m mod 2 ^ s
     in if 2 * r > 2 ^ s \<or> (2 * r = 2 ^ s \<and> odd q) then q + 1 else q)"

fun log2 :: "nat \<Rightarrow> nat" where
  "log2 n = (if n < 2 then 0 else Suc (log2 (n div 2)))"

declare log2.simps [simp del]

definition floatOfNat :: "nat \<Rightarrow> f64" where
  "floatOfNat m = (if m = 0 then 0
     else let e = log2 m;
              q = (if e \<le> 52 then m * 2 ^ (52 - e) else roundShift (e - 52) m)
          in of_nat ((e + 1022) * 2 ^ 52 + q))"

definition floatOfInt :: "i64 \<Rightarrow> f64" where
  "floatOfInt n = (if sint n < 0 then fneg (floatOfNat (nat (- sint n))) else floatOfNat (nat (sint n)))"

text \<open>The integer part of a finite float.\<close>

definition truncF :: "f64 \<Rightarrow> int" where
  "truncF f =
     (let e = unat (drop_bit 52 (fmag f)); m = uint (f AND mask 52);
          n = (if e = 0 then 0 else if e \<ge> 1075 then (m + 2 ^ 52) * 2 ^ (e - 1075) else (m + 2 ^ 52) div 2 ^ (1075 - e))
      in if bit f 63 then - n else n)"

section \<open>Types and values\<close>

datatype Type = TypeNull | TypeBool | TypeInt | TypeDouble | TypeText | TypeBytea | TypeTimestamp | TypeAny | TypeVector

record Value =
  v_T :: Type
  v_B :: bool
  v_I :: i64
  v_F :: f64
  v_S :: bytes
  v_Raw :: bytes
  v_TS :: int
  v_Vec :: "f32 list"

definition nullV :: Value where
  "nullV = \<lparr>v_T = TypeNull, v_B = False, v_I = 0, v_F = 0, v_S = [], v_Raw = [], v_TS = 0, v_Vec = []\<rparr>"

definition boolV :: "bool \<Rightarrow> Value" where "boolV b = nullV\<lparr>v_T := TypeBool, v_B := b\<rparr>"
definition intV :: "i64 \<Rightarrow> Value" where "intV i = nullV\<lparr>v_T := TypeInt, v_I := i\<rparr>"
definition doubleV :: "f64 \<Rightarrow> Value" where "doubleV f = nullV\<lparr>v_T := TypeDouble, v_F := f\<rparr>"
definition textV :: "bytes \<Rightarrow> Value" where "textV s = nullV\<lparr>v_T := TypeText, v_S := s\<rparr>"
definition byteaV :: "bytes \<Rightarrow> Value" where "byteaV b = nullV\<lparr>v_T := TypeBytea, v_Raw := b\<rparr>"
definition timeV :: "int \<Rightarrow> Value" where "timeV t = nullV\<lparr>v_T := TypeTimestamp, v_TS := t\<rparr>"
definition vectorV :: "f32 list \<Rightarrow> Value" where "vectorV v = nullV\<lparr>v_T := TypeVector, v_Vec := v\<rparr>"

lemmas value_defs = nullV_def boolV_def intV_def doubleV_def textV_def byteaV_def timeV_def vectorV_def

definition IsNull :: "Value \<Rightarrow> bool" where "IsNull v \<longleftrightarrow> v_T v = TypeNull"

definition isNumeric :: "Value \<Rightarrow> bool" where "isNumeric v \<longleftrightarrow> v_T v = TypeInt \<or> v_T v = TypeDouble"

definition asFloat :: "Value \<Rightarrow> f64" where
  "asFloat v = (if v_T v = TypeInt then floatOfInt (v_I v) else v_F v)"

record sqlenv =
  fadd :: "f64 \<Rightarrow> f64 \<Rightarrow> f64"
  fsub :: "f64 \<Rightarrow> f64 \<Rightarrow> f64"
  fmul :: "f64 \<Rightarrow> f64 \<Rightarrow> f64"
  fdiv :: "f64 \<Rightarrow> f64 \<Rightarrow> f64"
  fmodulo :: "f64 \<Rightarrow> f64 \<Rightarrow> f64"
  fsqrt :: "f64 \<Rightarrow> f64"
  widen :: "f32 \<Rightarrow> f64"
  narrow :: "f64 \<Rightarrow> f32"
  intOverflow :: "f64 \<Rightarrow> i64"
  ParseFloat :: "nat \<Rightarrow> bytes \<Rightarrow> f64 option"
  FormatFloat :: "nat \<Rightarrow> f64 \<Rightarrow> bytes"
  timeParse :: "bytes \<Rightarrow> bytes \<Rightarrow> int option"
  timeFormat :: "bytes \<Rightarrow> int \<Rightarrow> bytes"
  b64Encode :: "bytes \<Rightarrow> bytes"
  b64Decode :: "bytes \<Rightarrow> bytes option"
  clock :: int
  rand16 :: bytes

definition inInt32 :: "i64 \<Rightarrow> bool" where
  "inInt32 i \<longleftrightarrow> - (2 ^ 31) \<le> sint i \<and> sint i \<le> 2 ^ 31 - 1"

definition typeString :: "Type \<Rightarrow> bytes" where
  "typeString t = str (case t of TypeNull \<Rightarrow> ''null'' | TypeBool \<Rightarrow> ''boolean'' | TypeInt \<Rightarrow> ''integer''
     | TypeDouble \<Rightarrow> ''double precision'' | TypeText \<Rightarrow> ''text'' | TypeBytea \<Rightarrow> ''bytea''
     | TypeTimestamp \<Rightarrow> ''timestamp'' | TypeAny \<Rightarrow> ''any'' | TypeVector \<Rightarrow> ''vector'')"

definition typeofName :: "Value \<Rightarrow> bytes" where
  "typeofName v = (if v_T v = TypeInt then (if inInt32 (v_I v) then str ''integer'' else str ''bigint'') else typeString (v_T v))"

section \<open>Text\<close>

definition formatDouble :: "sqlenv \<Rightarrow> f64 \<Rightarrow> bytes" where
  "formatDouble X f = FormatFloat X 64 f"

definition formatVector :: "sqlenv \<Rightarrow> f32 list \<Rightarrow> bytes" where
  "formatVector X v = 91 # List.concat (map (\<lambda>i. (if i > 0 then [44] else []) @ FormatFloat X 32 (widen X (v ! i))) [0..<length v]) @ [93]"

definition pgTimestampFormat :: bytes where
  "pgTimestampFormat = str ''2006-01-02 15:04:05.999999-07''"

definition FormatText :: "sqlenv \<Rightarrow> Value \<Rightarrow> bytes" where
  "FormatText X v = (case v_T v of
     TypeBool \<Rightarrow> if v_B v then str ''t'' else str ''f''
   | TypeInt \<Rightarrow> FormatInt (v_I v)
   | TypeDouble \<Rightarrow> formatDouble X (v_F v)
   | TypeText \<Rightarrow> v_S v
   | TypeBytea \<Rightarrow> [92, 120] @ hexString (v_Raw v)
   | TypeTimestamp \<Rightarrow> timeFormat X pgTimestampFormat (v_TS v)
   | TypeVector \<Rightarrow> formatVector X (v_Vec v)
   | _ \<Rightarrow> [])"

text \<open>\<^verbatim>\<open>strings.Split(s, ",")\<close>\<close>

fun splitOn :: "byte \<Rightarrow> bytes \<Rightarrow> bytes list" where
  "splitOn c [] = [[]]"
| "splitOn c (b # bs) = (case splitOn c bs of
     [] \<Rightarrow> []
   | p # ps \<Rightarrow> if b = c then [] # p # ps else (b # p) # ps)"

definition maxVectorDim :: nat where "maxVectorDim = 16000"

fun parseElems :: "sqlenv \<Rightarrow> bytes list \<Rightarrow> string + f32 list" where
  "parseElems X [] = Inr []"
| "parseElems X (p # ps) =
     (let p = TrimSpace p
      in if p = [] then Inl ''malformed vector literal''
         else case ParseFloat X 32 p of
             None \<Rightarrow> Inl ''malformed vector literal''
           | Some f \<Rightarrow>
               if IsNaN f \<or> IsInf f then Inl ''malformed vector literal''
               else (case parseElems X ps of Inl e \<Rightarrow> Inl e | Inr v \<Rightarrow> Inr (narrow X f # v)))"

definition parseVectorText :: "sqlenv \<Rightarrow> bytes \<Rightarrow> string + f32 list" where
  "parseVectorText X s =
     (let t = TrimSpace s
      in if length t < 2 \<or> hd t \<noteq> 91 \<or> last t \<noteq> 93 then Inl ''malformed vector literal''
         else let body = butlast (tl t)
         in if TrimSpace body = [] then Inl ''malformed vector literal''
            else let parts = splitOn 44 body
            in if length parts > maxVectorDim then Inl ''vector cannot have more dimensions''
               else parseElems X parts)"

section \<open>Casts\<close>

definition castTextToNumeric :: "sqlenv \<Rightarrow> bytes \<Rightarrow> Type \<Rightarrow> string + Value" where
  "castTextToNumeric X s target =
     (if target = TypeInt
      then (case ParseInt (TrimSpace s) of
          Some i \<Rightarrow> Inr (intV i)
        | None \<Rightarrow> (case ParseFloat X 64 (TrimSpace s) of
            None \<Rightarrow> Inl ''cannot cast as integer''
          | Some f \<Rightarrow> Inr (doubleV f)))
      else (case ParseFloat X 64 (TrimSpace s) of
          None \<Rightarrow> Inl ''cannot cast as double precision''
        | Some f \<Rightarrow> Inr (doubleV f)))"

text \<open>
  \<^verbatim>\<open>strings.ToLower\<close> on the spellings compared below: a string with a non-ASCII rune equals none of them,
  except that the Kelvin sign and the dotted capital I lower to ASCII; neither occurs in a spelling that
  could match, because no spelling has a k or an i.
\<close>

definition lowerASCII :: "bytes \<Rightarrow> bytes" where
  "lowerASCII s = map (\<lambda>c. if 65 \<le> c \<and> c \<le> 90 then c + 32 else c) s"

definition castTextToBool :: "bytes \<Rightarrow> string + bool" where
  "castTextToBool s =
     (let t = lowerASCII (TrimSpace s)
      in if t \<in> set (map str [''t'', ''true'', ''y'', ''yes'', ''on'', ''1'']) then Inr True
         else if t \<in> set (map str [''f'', ''false'', ''n'', ''no'', ''off'', ''0'']) then Inr False
         else Inl ''cannot cast as boolean'')"

definition timestampFormats :: "bytes list" where
  "timestampFormats = map str [''2006-01-02T15:04:05.999999999Z07:00'', ''2006-01-02T15:04:05Z07:00'',
     ''2006-01-02 15:04:05.999999999-07:00'', ''2006-01-02 15:04:05.999999999-07'', ''2006-01-02 15:04:05.999999999'',
     ''2006-01-02 15:04:05'', ''2006-01-02'', ''2006-01'', ''2006'']"

fun firstParse :: "sqlenv \<Rightarrow> bytes \<Rightarrow> bytes list \<Rightarrow> string + int" where
  "firstParse X s [] = Inl ''cannot cast as timestamp''"
| "firstParse X s (f # fs) = (case timeParse X f s of Some t \<Rightarrow> Inr t | None \<Rightarrow> firstParse X s fs)"

definition castTextToTimestamp :: "sqlenv \<Rightarrow> bytes \<Rightarrow> string + int" where
  "castTextToTimestamp X s = firstParse X (TrimSpace s) timestampFormats"

definition castTextToBytea :: "sqlenv \<Rightarrow> bytes \<Rightarrow> string + bytes" where
  "castTextToBytea X s = (case b64Decode X (TrimSpace s) of None \<Rightarrow> Inl ''cannot cast as bytea'' | Some b \<Rightarrow> Inr b)"

text \<open>\<^verbatim>\<open>int64(f)\<close>: the integer part where it is in range, and what the machine answers elsewhere.\<close>

definition intOfFloat :: "sqlenv \<Rightarrow> f64 \<Rightarrow> i64" where
  "intOfFloat X f = (if - (2 ^ 63) \<le> truncF f \<and> truncF f < 2 ^ 63 then word_of_int (truncF f) else intOverflow X f)"

text \<open>\<^verbatim>\<open>math.MaxInt64\<close> and \<^verbatim>\<open>math.MinInt64\<close> as floats: both powers of two.\<close>

definition castDoubleToInt :: "sqlenv \<Rightarrow> f64 \<Rightarrow> string + Value" where
  "castDoubleToInt X f =
     (if fless 0x43E0000000000000 f \<or> fless f 0xC3E0000000000000 \<or> IsNaN f then Inl ''integer out of range''
      else Inr (intV (intOfFloat X f)))"

definition CastTo :: "sqlenv \<Rightarrow> Value \<Rightarrow> Type \<Rightarrow> string + Value" where
  "CastTo X v target =
     (if IsNull v \<or> v_T v = target \<or> target = TypeAny then Inr v
      else case (target, v_T v) of
          (TypeInt, TypeDouble) \<Rightarrow> castDoubleToInt X (v_F v)
        | (TypeInt, TypeText) \<Rightarrow> (case ParseInt (TrimSpace (v_S v)) of
              Some i \<Rightarrow> Inr (intV i)
            | None \<Rightarrow> (case ParseFloat X 64 (TrimSpace (v_S v)) of
                Some f \<Rightarrow> castDoubleToInt X f
              | None \<Rightarrow> Inl ''cannot cast as integer''))
        | (TypeInt, TypeBool) \<Rightarrow> Inr (intV (if v_B v then 1 else 0))
        | (TypeDouble, TypeInt) \<Rightarrow> Inr (doubleV (floatOfInt (v_I v)))
        | (TypeDouble, TypeText) \<Rightarrow> (case ParseFloat X 64 (TrimSpace (v_S v)) of
              Some f \<Rightarrow> Inr (doubleV f)
            | None \<Rightarrow> Inl ''cannot cast as double precision'')
        | (TypeBool, TypeText) \<Rightarrow> (case castTextToBool (v_S v) of Inl e \<Rightarrow> Inl e | Inr b \<Rightarrow> Inr (boolV b))
        | (TypeBool, TypeInt) \<Rightarrow> Inr (boolV (v_I v \<noteq> 0))
        | (TypeText, TypeBool) \<Rightarrow> Inr (textV (if v_B v then str ''true'' else str ''false''))
        | (TypeText, TypeInt) \<Rightarrow> Inr (textV (FormatText X v))
        | (TypeText, TypeDouble) \<Rightarrow> Inr (textV (FormatText X v))
        | (TypeText, TypeTimestamp) \<Rightarrow> Inr (textV (FormatText X v))
        | (TypeText, TypeVector) \<Rightarrow> Inr (textV (FormatText X v))
        | (TypeText, TypeBytea) \<Rightarrow> Inr (textV (b64Encode X (v_Raw v)))
        | (TypeBytea, TypeText) \<Rightarrow> (case castTextToBytea X (v_S v) of Inl e \<Rightarrow> Inl e | Inr b \<Rightarrow> Inr (byteaV b))
        | (TypeTimestamp, TypeText) \<Rightarrow> (case castTextToTimestamp X (v_S v) of Inl e \<Rightarrow> Inl e | Inr t \<Rightarrow> Inr (timeV t))
        | (TypeVector, TypeText) \<Rightarrow> (case parseVectorText X (v_S v) of Inl e \<Rightarrow> Inl e | Inr vec \<Rightarrow> Inr (vectorV vec))
        | _ \<Rightarrow> Inl ''cannot cast'')"

section \<open>Comparison\<close>

definition cmp :: "'a :: linorder \<Rightarrow> 'a \<Rightarrow> int" where
  "cmp a b = (if a < b then - 1 else if a > b then 1 else 0)"

definition compareNumeric :: "Value \<Rightarrow> Value \<Rightarrow> int" where
  "compareNumeric a b =
     (if v_T a = TypeInt \<and> v_T b = TypeInt then cmp (sint (v_I a)) (sint (v_I b))
      else let af = asFloat a; bf = asFloat b
        in if IsNaN af \<and> IsNaN bf then 0
           else if IsNaN af then 1
           else if IsNaN bf then - 1
           else if fless af bf then - 1
           else if fless bf af then 1
           else 0)"

definition boolCompare :: "bool \<Rightarrow> bool \<Rightarrow> int" where
  "boolCompare a b = (if a = b then 0 else if \<not> a then - 1 else 1)"

text \<open>The bytewise comparison: the first difference decides, then the lengths.\<close>

fun bytesCompare :: "bytes \<Rightarrow> bytes \<Rightarrow> int" where
  "bytesCompare (x # xs) (y # ys) = (if x \<noteq> y then (if x < y then - 1 else 1) else bytesCompare xs ys)"
| "bytesCompare [] [] = 0"
| "bytesCompare [] _ = - 1"
| "bytesCompare _ [] = 1"

definition Compare :: "sqlenv \<Rightarrow> Value \<Rightarrow> Value \<Rightarrow> string + int" where
  "Compare X a b =
     (if isNumeric a \<and> isNumeric b then Inr (compareNumeric a b)
      else if v_T a = TypeText \<and> v_T b = TypeText then Inr (cmp (v_S a) (v_S b))
      else if v_T a = TypeBool \<and> v_T b = TypeBool then Inr (boolCompare (v_B a) (v_B b))
      else if v_T a = TypeBytea \<and> v_T b = TypeBytea then Inr (bytesCompare (v_Raw a) (v_Raw b))
      else if v_T a = TypeTimestamp \<and> v_T b = TypeTimestamp then Inr (cmp (v_TS a) (v_TS b))
      else if isNumeric a \<and> v_T b = TypeText then
        (case castTextToNumeric X (v_S b) (v_T a) of Inl e \<Rightarrow> Inl e | Inr nb \<Rightarrow> Inr (compareNumeric a nb))
      else if v_T a = TypeText \<and> isNumeric b then
        (case castTextToNumeric X (v_S a) (v_T b) of Inl e \<Rightarrow> Inl e | Inr na \<Rightarrow> Inr (compareNumeric na b))
      else if v_T a = TypeBool \<and> v_T b = TypeText then
        (case castTextToBool (v_S b) of Inl e \<Rightarrow> Inl e | Inr bb \<Rightarrow> Inr (boolCompare (v_B a) bb))
      else if v_T a = TypeText \<and> v_T b = TypeBool then
        (case castTextToBool (v_S a) of Inl e \<Rightarrow> Inl e | Inr ba \<Rightarrow> Inr (boolCompare ba (v_B b)))
      else if v_T a = TypeTimestamp \<and> v_T b = TypeText then
        (case castTextToTimestamp X (v_S b) of Inl e \<Rightarrow> Inl e | Inr tb \<Rightarrow> Inr (cmp (v_TS a) tb))
      else if v_T a = TypeText \<and> v_T b = TypeTimestamp then
        (case castTextToTimestamp X (v_S a) of Inl e \<Rightarrow> Inl e | Inr ta \<Rightarrow> Inr (cmp ta (v_TS b)))
      else if v_T a = TypeBytea \<and> v_T b = TypeText then
        (case castTextToBytea X (v_S b) of Inl e \<Rightarrow> Inl e | Inr rb \<Rightarrow> Inr (bytesCompare (v_Raw a) rb))
      else if v_T a = TypeText \<and> v_T b = TypeBytea then
        (case castTextToBytea X (v_S a) of Inl e \<Rightarrow> Inl e | Inr ra \<Rightarrow> Inr (bytesCompare ra (v_Raw b)))
      else Inl ''cannot compare'')"

definition sortGroup :: "Type \<Rightarrow> int" where
  "sortGroup t = (case t of TypeNull \<Rightarrow> 0 | TypeBool \<Rightarrow> 1 | TypeInt \<Rightarrow> 2 | TypeDouble \<Rightarrow> 2 | TypeText \<Rightarrow> 3
     | TypeBytea \<Rightarrow> 4 | TypeTimestamp \<Rightarrow> 5 | TypeVector \<Rightarrow> 6 | TypeAny \<Rightarrow> 7)"

definition sortCompare :: "sqlenv \<Rightarrow> Value \<Rightarrow> Value \<Rightarrow> int" where
  "sortCompare X a b =
     (let ga = sortGroup (v_T a); gb = sortGroup (v_T b)
      in if ga \<noteq> gb then (if ga < gb then - 1 else 1)
         else if v_T a = TypeNull then 0
         else case Compare X a b of Inl e \<Rightarrow> 0 | Inr c \<Rightarrow> c)"

section \<open>Arithmetic\<close>

text \<open>Go's signed division truncates; the smallest number divided by -1 is itself.\<close>

definition goDiv :: "i64 \<Rightarrow> i64 \<Rightarrow> i64" where
  "goDiv a b = word_of_int (sint a sdiv sint b)"

definition goMod :: "i64 \<Rightarrow> i64 \<Rightarrow> i64" where
  "goMod a b = word_of_int (sint a smod sint b)"

definition intArith :: "bytes \<Rightarrow> i64 \<Rightarrow> i64 \<Rightarrow> string + Value" where
  "intArith op a b =
     (let int32Wide = inInt32 a \<and> inInt32 b;
          fits = (\<lambda>r. \<not> int32Wide \<or> inInt32 r)
      in if op = str ''+'' then
           (let r = a + b
            in if (0 < sint a \<and> 0 < sint b \<and> sint r < 0) \<or> (sint a < 0 \<and> sint b < 0 \<and> 0 \<le> sint r) then Inl ''bigint out of range''
               else if \<not> fits r then Inl ''integer out of range''
               else Inr (intV r))
         else if op = str ''-'' then
           (let r = a - b
            in if (0 \<le> sint a \<and> sint b < 0 \<and> sint r < 0) \<or> (sint a < 0 \<and> 0 < sint b \<and> 0 \<le> sint r) then Inl ''bigint out of range''
               else if \<not> fits r then Inl ''integer out of range''
               else Inr (intV r))
         else if op = str ''*'' then
           (if a \<noteq> 0 \<and> b \<noteq> 0
            then let r = a * b
              in if goDiv r b \<noteq> a \<or> \<not> fits r then Inl ''integer out of range'' else Inr (intV r)
            else Inr (intV 0))
         else if op = str ''/'' then
           (if b = 0 then Inl ''division by zero'' else Inr (intV (goDiv a b)))
         else if op = str ''%'' then
           (if b = 0 then Inl ''division by zero'' else Inr (intV (goMod a b)))
         else Inl ''unknown operator'')"

definition Arith :: "sqlenv \<Rightarrow> bytes \<Rightarrow> Value \<Rightarrow> Value \<Rightarrow> string + Value" where
  "Arith X op a b =
     (if IsNull a \<or> IsNull b then Inr nullV
      else if \<not> isNumeric a \<or> \<not> isNumeric b then Inr nullV
      else if op \<in> set [str ''&'', str ''|'', str ''^''] then
        (if v_T a \<noteq> TypeInt \<or> v_T b \<noteq> TypeInt then Inr nullV
         else if op = str ''&'' then Inr (intV (v_I a AND v_I b))
         else if op = str ''|'' then Inr (intV (v_I a OR v_I b))
         else Inr (intV (v_I a XOR v_I b)))
      else if v_T a = TypeInt \<and> v_T b = TypeInt then intArith op (v_I a) (v_I b)
      else
        let af = asFloat a; bf = asFloat b
        in if op = str ''+'' then Inr (doubleV (fadd X af bf))
           else if op = str ''-'' then Inr (doubleV (fsub X af bf))
           else if op = str ''*'' then Inr (doubleV (fmul X af bf))
           else if op = str ''/'' then (if feq bf 0 then Inl ''division by zero'' else Inr (doubleV (fdiv X af bf)))
           else if op = str ''%'' then (if feq bf 0 then Inl ''division by zero'' else Inr (doubleV (fmodulo X af bf)))
           else Inl ''unknown operator'')"

end
