(* ===== verification/SQL_Arith.thy ===== *)
theory SQL_Arith
  imports SQL_Value
begin

text \<open>Checked integer arithmetic: which results \<^verbatim>\<open>intArith\<close> answers, and the one overflow it misses.\<close>

section \<open>Signed words\<close>

lemma i64_bounds: "- (2 ^ 63) \<le> sint (a :: i64)" "sint (a :: i64) < 2 ^ 63"
  using sint_greater_eq [of a] sint_lt [of a] by simp_all

lemma i64_wrap: "sint (word_of_int z :: i64) = (z + 2 ^ 63) mod 2 ^ 64 - 2 ^ 63"
  using int_word_sint [where 'a = 64, of z] by simp

lemma i64_id: "- (2 ^ 63) \<le> z \<Longrightarrow> z < 2 ^ 63 \<Longrightarrow> sint (word_of_int z :: i64) = z"
  by (simp add: i64_wrap)

lemma i64_over: "2 ^ 63 \<le> z \<Longrightarrow> z < 2 ^ 64 \<Longrightarrow> sint (word_of_int z :: i64) = z - 2 ^ 64"
  using mod_add_self2 [of "z + 2 ^ 63 - 2 ^ 64" "2 ^ 64 :: int"] by (simp add: i64_wrap add.commute)

lemma i64_under: "- (2 ^ 64) \<le> z \<Longrightarrow> z < - (2 ^ 63) \<Longrightarrow> sint (word_of_int z :: i64) = z + 2 ^ 64"
  using mod_add_self2 [of "z + 2 ^ 63" "2 ^ 64 :: int"] by (simp add: i64_wrap)

lemma i64_word: "word_of_int (sint a) = (a :: i64)"
  by simp

lemma i64_add: "a + b = word_of_int (sint a + sint (b :: i64))"
  and i64_sub: "a - b = word_of_int (sint a - sint (b :: i64))"
  and i64_mul: "a * b = word_of_int (sint a * sint (b :: i64))"
  by simp_all

section \<open>The exact result\<close>

definition exactArith :: "bytes \<Rightarrow> i64 \<Rightarrow> i64 \<Rightarrow> int" where
  "exactArith op a b = (if op = str ''+'' then sint a + sint b else if op = str ''-'' then sint a - sint b else sint a * sint b)"

definition inWidth :: "i64 \<Rightarrow> i64 \<Rightarrow> int \<Rightarrow> bool" where
  "inWidth a b z \<longleftrightarrow> (if inInt32 a \<and> inInt32 b then - (2 ^ 31) \<le> z \<and> z < 2 ^ 31 else - (2 ^ 63) \<le> z \<and> z < 2 ^ 63)"

definition mulSafe :: "bytes \<Rightarrow> i64 \<Rightarrow> i64 \<Rightarrow> bool" where
  "mulSafe op a b \<longleftrightarrow> \<not> (op = str ''*'' \<and> sint a = - (2 ^ 63) \<and> b = - 1)"

lemma inWidth_64: "inWidth a b z \<Longrightarrow> - (2 ^ 63) \<le> z \<and> z < 2 ^ 63"
  by (simp add: inWidth_def split: if_splits)

lemma fits_iff: "- (2 ^ 63) \<le> z \<Longrightarrow> z < 2 ^ 63 \<Longrightarrow>
    (\<not> (inInt32 a \<and> inInt32 b) \<or> inInt32 (word_of_int z)) = inWidth a b z"
  by (auto simp: inWidth_def inInt32_def i64_id)

lemma add_exact:
  "intArith (str ''+'') a b = (let z = sint a + sint b in
     if inWidth a b z then Inr (intV (word_of_int z))
     else if - (2 ^ 63) \<le> z \<and> z < 2 ^ 63 then Inl ''integer out of range'' else Inl ''bigint out of range'')"
proof -
  let ?z = "sint a + sint b"
  have "(2 :: int) ^ 64 = 2 * 2 ^ 63" by simp
  note ba = this i64_bounds [of a] and bb = i64_bounds [of b]
  consider "- (2 ^ 63) \<le> ?z" "?z < 2 ^ 63" | "2 ^ 63 \<le> ?z" | "?z < - (2 ^ 63)" by linarith
  then show ?thesis
  proof cases
    case 1
    then have r: "sint (a + b) = ?z" unfolding i64_add by (rule i64_id)
    then have "\<not> ((0 < sint a \<and> 0 < sint b \<and> sint (a + b) < 0) \<or> (sint a < 0 \<and> sint b < 0 \<and> 0 \<le> sint (a + b)))" by linarith
    with 1 fits_iff [OF 1, of a b] show ?thesis by (auto simp: intArith_def Let_def)
  next
    case 2
    with ba bb have r: "sint (a + b) = ?z - 2 ^ 64" unfolding i64_add by (intro i64_over) linarith+
    then have "0 < sint a \<and> 0 < sint b \<and> sint (a + b) < 0" using 2 ba bb by linarith
    with 2 show ?thesis using inWidth_64 [of a b ?z] by (auto simp: intArith_def Let_def)
  next
    case 3
    with ba bb have r: "sint (a + b) = ?z + 2 ^ 64" unfolding i64_add by (intro i64_under) linarith+
    then have "sint a < 0 \<and> sint b < 0 \<and> 0 \<le> sint (a + b)" using 3 ba bb by linarith
    with 3 show ?thesis using inWidth_64 [of a b ?z] by (auto simp: intArith_def Let_def)
  qed
qed

lemma sub_exact:
  "intArith (str ''-'') a b = (let z = sint a - sint b in
     if inWidth a b z then Inr (intV (word_of_int z))
     else if - (2 ^ 63) \<le> z \<and> z < 2 ^ 63 then Inl ''integer out of range'' else Inl ''bigint out of range'')"
proof -
  let ?z = "sint a - sint b"
  have "(2 :: int) ^ 64 = 2 * 2 ^ 63" by simp
  note ba = this i64_bounds [of a] and bb = i64_bounds [of b]
  consider "- (2 ^ 63) \<le> ?z" "?z < 2 ^ 63" | "2 ^ 63 \<le> ?z" | "?z < - (2 ^ 63)" by linarith
  then show ?thesis
  proof cases
    case 1
    then have r: "sint (a - b) = ?z" unfolding i64_sub by (rule i64_id)
    then have "\<not> ((0 \<le> sint a \<and> sint b < 0 \<and> sint (a - b) < 0) \<or> (sint a < 0 \<and> 0 < sint b \<and> 0 \<le> sint (a - b)))" by linarith
    with 1 fits_iff [OF 1, of a b] show ?thesis by (auto simp: intArith_def Let_def)
  next
    case 2
    with ba bb have r: "sint (a - b) = ?z - 2 ^ 64" unfolding i64_sub by (intro i64_over) linarith+
    then have "0 \<le> sint a \<and> sint b < 0 \<and> sint (a - b) < 0" using 2 ba bb by linarith
    with 2 show ?thesis using inWidth_64 [of a b ?z] by (auto simp: intArith_def Let_def)
  next
    case 3
    with ba bb have r: "sint (a - b) = ?z + 2 ^ 64" unfolding i64_sub by (intro i64_under) linarith+
    then have "sint a < 0 \<and> 0 < sint b \<and> 0 \<le> sint (a - b)" using 3 ba bb by linarith
    with 3 show ?thesis using inWidth_64 [of a b ?z] by (auto simp: intArith_def Let_def)
  qed
qed

lemma nonzero_mult_sdiv:
  assumes "(y :: int) \<noteq> 0"
  shows "x * y sdiv y = x"
proof -
  have "sgn (x * y) * sgn y * (\<bar>x * y\<bar> div \<bar>y\<bar>) = (sgn x * \<bar>x\<bar>) * (sgn y * sgn y)"
    using assms by (simp add: abs_mult sgn_mult)
  also have "sgn y * sgn y = 1" using assms by (simp add: sgn_if)
  finally show ?thesis by (simp add: signed_divide_int_def sgn_mult_abs)
qed

text \<open>The division test of a product: it fails exactly when the product left the range.\<close>

lemma mul_check:
  assumes "b \<noteq> 0" "mulSafe (str ''*'') a b"
  shows "goDiv (a * b) b = a \<longleftrightarrow> - (2 ^ 63) \<le> sint a * sint b \<and> sint a * sint b < 2 ^ 63"
proof -
  let ?z = "sint a * sint b" and ?r = "sint (a * b)"
  have sb: "sint b \<noteq> 0" using assms(1) by (metis i64_word of_int_0)
  show ?thesis
  proof (cases "- (2 ^ 63) \<le> ?z \<and> ?z < 2 ^ 63")
    case True
    then have "?r = ?z" unfolding i64_mul by (intro i64_id) simp_all
    then have "goDiv (a * b) b = word_of_int (?z sdiv sint b)" by (simp only: goDiv_def)
    also have "?z sdiv sint b = sint a"
      by (metis sb nonzero_mult_sdiv)
    finally show ?thesis using True by simp
  next
    case False
    let ?q = "?r sdiv sint b"
    have rz: "?r = (?z + 2 ^ 63) mod 2 ^ 64 - 2 ^ 63" unfolding i64_mul by (rule i64_wrap)
    define k where "k = - ((?z + 2 ^ 63) div 2 ^ 64)"
    have k: "?r - ?z = k * 2 ^ 64"
      unfolding rz k_def using div_mult_mod_eq [of "?z + 2 ^ 63" "2 ^ 64"] by (simp add: algebra_simps)
    have "?r \<noteq> ?z" using False i64_bounds [of "a * b"] by auto
    with k have "1 \<le> \<bar>k\<bar>" by auto
    then have far: "2 ^ 64 \<le> \<bar>?r - ?z\<bar>" unfolding k abs_mult by simp
    have near: "\<bar>?r - ?q * sint b\<bar> < \<bar>sint b\<bar>"
      using smod_int_range [OF sb, of ?r] unfolding minus_sdiv_mult_eq_smod by auto
    have "\<bar>sint b\<bar> \<le> 2 ^ 63" using i64_bounds [of b] by linarith
    with far near have ne: "?q \<noteq> sint a" by auto
    have q: "- (2 ^ 63) \<le> ?q" "?q \<le> 2 ^ 63" using sdiv_int_range [of ?r "sint b"] i64_bounds [of "a * b"] by auto
    have "goDiv (a * b) b \<noteq> a"
    proof
      assume "goDiv (a * b) b = a"
      then have qa: "sint (word_of_int ?q :: i64) = sint a" by (simp only: goDiv_def)
      with ne q i64_id [of ?q] have q63: "?q = 2 ^ 63" by fastforce
      with qa i64_over [of ?q] have a: "sint a = - (2 ^ 63)" by simp
      have "?r = - ?q" using q63 sdiv_int_range [of ?r "sint b"] i64_bounds [of "a * b"] by auto
      then have "?r sdiv sint b = - ?r" "?r \<noteq> 0" using q63 by simp_all
      then have "sint b = - 1" by (metis int_sdiv_negated_is_minus1)
      then have "b = - 1" using i64_word [of b] by simp
      with a assms(2) show False by (simp add: mulSafe_def)
    qed
    with False show ?thesis by simp
  qed
qed

lemma mul_exact:
  assumes "mulSafe (str ''*'') a b"
  shows "intArith (str ''*'') a b = (let z = sint a * sint b in
     if inWidth a b z then Inr (intV (word_of_int z)) else Inl ''integer out of range'')"
proof (cases "a = 0 \<or> b = 0")
  case True
  then show ?thesis by (auto simp: intArith_def Let_def inWidth_def)
next
  case False
  let ?z = "sint a * sint b"
  have r: "a * b = word_of_int ?z" by (rule i64_mul)
  have chk: "goDiv (a * b) b = a \<longleftrightarrow> - (2 ^ 63) \<le> ?z \<and> ?z < 2 ^ 63" using False assms by (intro mul_check) simp_all
  show ?thesis
  proof (cases "- (2 ^ 63) \<le> ?z \<and> ?z < 2 ^ 63")
    case True
    with chk False fits_iff [of ?z a b] show ?thesis by (auto simp: intArith_def Let_def r [symmetric] simp del: of_int_mult)
  next
    case out: False
    with chk False inWidth_64 [of a b ?z] show ?thesis by (auto simp: intArith_def Let_def)
  qed
qed

section \<open>Properties\<close>

text \<open>
  C33. Integer arithmetic is exact or an error. For addition, subtraction and multiplication of two 64-bit
  integers, \<open>intArith\<close> answers the true result exactly when it fits the width of the operands (32 bits when
  both do, 64 bits otherwise), and an out-of-range error otherwise; it never answers a wrapped number. The
  single exception is excluded by \<open>mulSafe\<close>: the smallest integer times -1.
\<close>

theorem intArith_exact:
  assumes "op \<in> set [str ''+'', str ''-'', str ''*'']" "mulSafe op a b"
  shows "if inWidth a b (exactArith op a b)
    then \<exists>r. intArith op a b = Inr (intV r) \<and> sint r = exactArith op a b
    else \<exists>e. intArith op a b = Inl e"
proof -
  let ?z = "exactArith op a b"
  have "intArith op a b = Inr (intV (word_of_int ?z))" if "inWidth a b ?z"
    using assms that add_exact [of a b] sub_exact [of a b] mul_exact [of a b]
    by (auto simp: exactArith_def Let_def simp del: of_int_add of_int_diff of_int_mult)
  moreover have "\<exists>e. intArith op a b = Inl e" if "\<not> inWidth a b ?z"
    using assms that add_exact [of a b] sub_exact [of a b] mul_exact [of a b]
    by (auto simp: exactArith_def Let_def)
  moreover have "inWidth a b ?z \<Longrightarrow> sint (word_of_int ?z :: i64) = ?z" by (rule i64_id) (auto dest: inWidth_64)
  ultimately show ?thesis by auto
qed

theorem intArith_exact_witness:
  "(\<exists>r. intArith (str ''-'') (- 2) 5 = Inr (intV r) \<and> sint r = - 7) \<and> (\<exists>e. intArith (str ''*'') 1000000000 1000000000 = Inl e)"
proof -
  have "inWidth (- 2) 5 (exactArith (str ''-'') (- 2) 5)" "exactArith (str ''-'') (- 2) 5 = - 7" "mulSafe (str ''-'') (- 2) 5"
    "\<not> inWidth 1000000000 1000000000 (exactArith (str ''*'') 1000000000 1000000000)" "mulSafe (str ''*'') 1000000000 1000000000"
    by code_simp+
  then show ?thesis using intArith_exact [of "str ''-''" "- 2" 5] intArith_exact [of "str ''*''" 1000000000 1000000000] by simp
qed

text \<open>
  The check for an overflowing product divides it back; for the smallest integer and -1 both the product and
  the division wrap, and the wrapped product is answered. The quotient of the two is not checked at all.
\<close>

theorem intArith_min_wraps:
  "intArith (str ''*'') (- (2 ^ 63)) (- 1) = Inr (intV (- (2 ^ 63)))" "intArith (str ''/'') (- (2 ^ 63)) (- 1) = Inr (intV (- (2 ^ 63)))"
  by code_simp+

end
