(* ===== verification/SQL_Key.thy ===== *)
theory SQL_Key
  imports SQL_Arith
begin

text \<open>
  The order-preserving key encoding of the SQL engine (\<^verbatim>\<open>pkg/service/sql/keyenc.go\<close>): values of one
  column compare as their encodings do, tuples as the concatenations, and the hexadecimal spelling keeps
  the order.
\<close>

section \<open>The encoding\<close>

definition tagNull :: byte where "tagNull = 1"
definition tagBool :: byte where "tagBool = 2"
definition tagInt :: byte where "tagInt = 3"
definition tagDouble :: byte where "tagDouble = 4"
definition tagText :: byte where "tagText = 5"
definition tagBytea :: byte where "tagBytea = 6"
definition tagTimestamp :: byte where "tagTimestamp = 7"

lemmas tag_defs = tagNull_def tagBool_def tagInt_def tagDouble_def tagText_def tagBytea_def tagTimestamp_def

definition appendOffsetInt64 :: "bytes \<Rightarrow> i64 \<Rightarrow> bytes" where
  "appendOffsetInt64 dst v = dst @ be64 (v XOR push_bit 63 1)"

fun escape :: "bytes \<Rightarrow> bytes" where
  "escape [] = []"
| "escape (b # bs) = (if b = 0 then [0, 0xFF] else [b]) @ escape bs"

definition appendEscaped :: "bytes \<Rightarrow> bytes \<Rightarrow> bytes" where
  "appendEscaped dst data = dst @ escape data @ [0]"

text \<open>\<^verbatim>\<open>math.NaN()\<close>\<close>

definition canonicalNaN :: f64 where "canonicalNaN = 0x7FF8000000000001"

definition doubleBits :: "f64 \<Rightarrow> u64" where
  "doubleBits f =
     (let f = (if feq f 0 then 0 else f);
          f = (if IsNaN f then canonicalNaN else f)
      in if f AND push_bit 63 1 \<noteq> 0 then NOT f else f OR push_bit 63 1)"

text \<open>\<^verbatim>\<open>time.UnixMicro\<close> rounds down.\<close>

definition UnixMicro :: "int \<Rightarrow> i64" where
  "UnixMicro ns = word_of_int (ns div 1000)"

definition encodeKeyValue :: "bytes \<Rightarrow> Value \<Rightarrow> string + bytes" where
  "encodeKeyValue dst v = (case v_T v of
     TypeNull \<Rightarrow> Inr (dst @ [tagNull])
   | TypeBool \<Rightarrow> Inr (dst @ [tagBool, if v_B v then 1 else 0])
   | TypeInt \<Rightarrow> Inr (appendOffsetInt64 (dst @ [tagInt]) (v_I v))
   | TypeDouble \<Rightarrow> Inr ((dst @ [tagDouble]) @ be64 (doubleBits (v_F v)))
   | TypeText \<Rightarrow> Inr (appendEscaped (dst @ [tagText]) (v_S v))
   | TypeBytea \<Rightarrow> Inr (appendEscaped (dst @ [tagBytea]) (v_Raw v))
   | TypeTimestamp \<Rightarrow> Inr (appendOffsetInt64 (dst @ [tagTimestamp]) (UnixMicro (v_TS v)))
   | _ \<Rightarrow> Inl ''cannot use value in a key'')"

fun encodeVals :: "bytes \<Rightarrow> Value list \<Rightarrow> string + bytes" where
  "encodeVals bin [] = Inr bin"
| "encodeVals bin (v # vs) = (case encodeKeyValue bin v of Inl e \<Rightarrow> Inl e | Inr bin \<Rightarrow> encodeVals bin vs)"

definition encodeKey :: "Value list \<Rightarrow> string + bytes" where
  "encodeKey vals = (case encodeVals [] vals of Inl e \<Rightarrow> Inl e | Inr bin \<Rightarrow> Inr (hexString bin))"

section \<open>One value\<close>

text \<open>Values that can be in a key; a timestamp in whole microseconds of the 64-bit range.\<close>

definition keyable :: "Value \<Rightarrow> bool" where
  "keyable v \<longleftrightarrow> v_T v \<noteq> TypeAny \<and> v_T v \<noteq> TypeVector"

definition microTime :: "Value \<Rightarrow> bool" where
  "microTime v \<longleftrightarrow> (v_T v = TypeTimestamp \<longrightarrow> v_TS v mod 1000 = 0 \<and> - (2 ^ 63) \<le> v_TS v div 1000 \<and> v_TS v div 1000 < 2 ^ 63)"

text \<open>Values of one column: the same type, or NULL.\<close>

definition oneColumn :: "Value \<Rightarrow> Value \<Rightarrow> bool" where
  "oneColumn a b \<longleftrightarrow> v_T a = v_T b \<or> v_T a = TypeNull \<or> v_T b = TypeNull"

definition enc :: "Value \<Rightarrow> bytes" where
  "enc v = (case encodeKeyValue [] v of Inl _ \<Rightarrow> [] | Inr b \<Rightarrow> b)"

lemma encodeKeyValue_enc: "keyable v \<Longrightarrow> encodeKeyValue dst v = Inr (dst @ enc v)"
  by (cases "v_T v") (simp_all add: encodeKeyValue_def enc_def keyable_def appendOffsetInt64_def appendEscaped_def)

lemma encodeVals_enc: "list_all keyable vs \<Longrightarrow> encodeVals bin vs = Inr (bin @ List.concat (map enc vs))"
  by (induction vs arbitrary: bin) (simp_all add: encodeKeyValue_enc)

lemma encodeKey_enc: "list_all keyable vs \<Longrightarrow> encodeKey vs = Inr (hexString (List.concat (map enc vs)))"
  by (simp add: encodeKey_def encodeVals_enc)

lemma encodeKeyValue_keyable: "encodeKeyValue dst v = Inr b \<Longrightarrow> keyable v"
  by (cases "v_T v") (simp_all add: encodeKeyValue_def keyable_def)

lemma encodeVals_keyable: "encodeVals bin vs = Inr b \<Longrightarrow> list_all keyable vs"
  by (induction vs arbitrary: bin) (auto split: sum.splits dest: encodeKeyValue_keyable)

lemma encodeKey_keyable: "encodeKey vs = Inr k \<Longrightarrow> list_all keyable vs"
  by (auto simp: encodeKey_def split: sum.splits dest: encodeVals_keyable)

subsection \<open>Numbers\<close>

lemma xor_top: "v XOR push_bit 63 1 = v + (push_bit 63 1 :: u64)"
proof -
  define p :: u64 where "p = push_bit 63 1"
  have p: "bit p n \<longleftrightarrow> n = 63" for n
    unfolding p_def by (simp only: bit_push_bit_iff bit_1_iff possible_bit_word) auto
  have pp: "p + p = 0" by (simp add: p_def push_bit_eq_mult)
  have plus: "w XOR p = w + p" if "\<not> bit w 63" for w :: u64
  proof -
    have d: "w AND p = 0" using that by (intro bit_eqI) (auto simp: bit_and_iff p)
    show ?thesis by (rule disjunctive_add_eq_xor [OF d, symmetric])
  qed
  have "v XOR p = v + p"
  proof (cases "bit v 63")
    case True
    then have "\<not> bit (v XOR p) 63" by (simp add: bit_xor_iff p)
    from plus [OF this] have "v = (v XOR p) + p" by (simp add: xor.assoc)
    then have "v + p = ((v XOR p) + p) + p" by (rule arg_cong)
    then show ?thesis unfolding add.assoc pp by simp
  qed (rule plus)
  then show ?thesis by (simp only: p_def)
qed

lemma offset_unat: "int (unat (v XOR push_bit 63 1 :: i64)) = sint v + 2 ^ 63"
proof -
  have "sint v = sint (word_of_int (uint v) :: i64)" by simp
  then have "sint v = (uint v + 2 ^ 63) mod 2 ^ 64 - 2 ^ 63" by (simp only: i64_wrap)
  moreover have "uint (v + push_bit 63 1) = (uint v + 2 ^ 63) mod 2 ^ 64"
    by (simp add: uint_word_ariths push_bit_eq_mult)
  ultimately show ?thesis unfolding xor_top by (simp only: uint_nat [symmetric] diff_add_cancel)
qed

lemma fmag_take: "fmag f = take_bit 63 f"
  by (simp add: fmag_def take_bit_eq_mask)

lemma uint_fmag: "uint (fmag f) = uint f mod 2 ^ 63"
  by (simp only: fmag_take unsigned_take_bit_eq) (simp add: take_bit_eq_mod)

lemma bit_top: "bit (f :: f64) 63 \<longleftrightarrow> 2 ^ 63 \<le> uint f"
proof -
  have "bit f 63 \<longleftrightarrow> odd (uint f div 2 ^ 63)" using bit_iff_odd [of "uint f" 63] by (simp only: bit_unsigned_iff) simp
  moreover have "uint f div 2 ^ 63 = (if 2 ^ 63 \<le> uint f then 1 else 0)"
    using unsigned_less [of f, where 'a = int] by (auto simp: div_pos_geq)
  ultimately show ?thesis by simp
qed

lemma and_top: "f AND push_bit 63 1 \<noteq> (0 :: f64) \<longleftrightarrow> bit f 63"
proof -
  have p: "bit (push_bit 63 1 :: f64) n \<longleftrightarrow> n = 63" for n
    by (simp only: bit_push_bit_iff bit_1_iff possible_bit_word) auto
  have "f AND push_bit 63 1 = 0" if "\<not> bit f 63" using that by (intro bit_eqI) (auto simp only: bit_and_iff p bit_0_eq bot_apply bot_bool_def)
  moreover have "bit (f AND push_bit 63 1) 63" if "bit f 63" using that by (simp only: bit_and_iff p simp_thms)
  moreover have "\<not> bit (0 :: f64) 63" by simp
  ultimately show ?thesis by metis
qed

lemma or_top: "\<not> bit f 63 \<Longrightarrow> uint (f OR push_bit 63 1 :: f64) = uint f + 2 ^ 63"
proof -
  assume nb: "\<not> bit f 63"
  have "f AND push_bit 63 1 = 0" using nb and_top by blast
  then have "f OR push_bit 63 1 = f + push_bit 63 1" by (rule disjunctive_add_eq_or [symmetric])
  moreover have "uint f + 2 ^ 63 < 2 ^ 64" using nb by (simp add: bit_top)
  ultimately show ?thesis by (simp add: uint_word_ariths push_bit_eq_mult)
qed

lemma uint_not: "uint (NOT f :: f64) = 2 ^ 64 - 1 - uint f"
proof -
  have "NOT f = - 1 - f" by (simp add: not_eq_complement)
  moreover have "uint (- 1 - f) = uint (- 1 :: f64) - uint f" by (subst uint_minus_simple_iff [symmetric]) simp
  moreover have "uint (- 1 :: f64) = 2 ^ 64 - 1" by (simp add: unsigned_minus_1_eq_mask mask_eq_exp_minus_1)
  ultimately show ?thesis by simp
qed

text \<open>The transformed bits of a number, and of a NaN, which is above them all.\<close>

lemma uint_fmag_bounds: "0 \<le> uint (fmag f)" "uint (fmag f) < 2 ^ 63"
  unfolding uint_fmag by simp_all

lemma uint_sign: "uint f = (if bit f 63 then 2 ^ 63 + uint (fmag f) else uint (fmag f))"
proof -
  have lt: "uint f < 2 ^ 64" using unsigned_less [of f, where 'a = int] by simp
  have "uint f mod 2 ^ 63 = uint f - 2 ^ 63" if "2 ^ 63 \<le> uint f"
  proof -
    have "uint f mod 2 ^ 63 = (uint f - 2 ^ 63) mod 2 ^ 63" using that by (intro mod_pos_geq) simp_all
    also have "\<dots> = uint f - 2 ^ 63" using that lt by (intro mod_pos_pos_trivial) simp_all
    finally show ?thesis .
  qed
  then show ?thesis unfolding uint_fmag bit_top by simp
qed

lemma feq_zero: "feq f 0 \<longleftrightarrow> fmag f = 0"
proof -
  have "ford 0 = 0" "\<not> IsNaN 0" by (simp_all add: ford_def IsNaN_def fmag_def)
  moreover have "ford f = 0 \<longleftrightarrow> uint (fmag f) = 0" by (simp add: ford_def)
  ultimately show ?thesis by (auto simp: feq_def IsNaN_def uint_0_iff)
qed

lemma doubleBits_number:
  assumes "\<not> IsNaN f"
  shows "uint (doubleBits f) = 2 ^ 63 + ford f - (if ford f < 0 then 1 else 0)"
proof (cases "fmag f = 0")
  case True
  then have "feq f 0" "ford f = 0" by (simp_all add: feq_zero ford_def)
  moreover have "uint (doubleBits 0) = 2 ^ 63" by code_simp
  ultimately show ?thesis by (simp add: doubleBits_def Let_def feq_zero fmag_def)
next
  case False
  then have mag: "0 < uint (fmag f)" using uint_fmag_bounds [of f] by (simp add: order.strict_iff_order uint_0_iff)
  have db: "doubleBits f = (if bit f 63 then NOT f else f OR push_bit 63 1)"
    using False assms by (simp only: doubleBits_def Let_def feq_zero and_top if_False)
  show ?thesis
  proof (cases "bit f 63")
    case True
    then have "uint (doubleBits f) = 2 ^ 64 - 1 - (2 ^ 63 + uint (fmag f))" using uint_not [of f] uint_sign [of f] by (simp only: db if_True)
    with True mag show ?thesis by (simp add: ford_def)
  next
    case False
    then have "uint (doubleBits f) = uint (fmag f) + 2 ^ 63" unfolding db uint_sign [of f] using or_top [OF False] uint_sign [of f] by simp
    with False mag show ?thesis by (simp add: ford_def)
  qed
qed

lemma doubleBits_NaN: "IsNaN f \<Longrightarrow> doubleBits f = 0xFFF8000000000001"
proof -
  assume n: "IsNaN f"
  then have "\<not> feq f 0" by (simp add: feq_def)
  with n have "doubleBits f = (if canonicalNaN AND push_bit 63 1 \<noteq> 0 then NOT canonicalNaN else canonicalNaN OR push_bit 63 1)"
    by (simp only: doubleBits_def Let_def if_True if_False)
  also have "\<dots> = 0xFFF8000000000001" by code_simp
  finally show ?thesis .
qed

lemma ford_number: "\<not> IsNaN f \<Longrightarrow> ford f \<le> 0x7FF0000000000000"
proof -
  assume "\<not> IsNaN f"
  then have "uint (fmag f) \<le> 0x7FF0000000000000" by (simp add: IsNaN_def not_less word_le_def)
  moreover have "ford f = - uint (fmag f) \<or> ford f = uint (fmag f)" by (simp add: ford_def)
  ultimately show ?thesis using uint_fmag_bounds(1) [of f] by linarith
qed

subsection \<open>Strings\<close>

text \<open>What may follow an encoded value: nothing, or a byte below the escape of a zero.\<close>

definition follows :: "bytes \<Rightarrow> bool" where
  "follows s \<longleftrightarrow> s = [] \<or> hd s < 0xFF"

lemma escape_less: "follows s \<Longrightarrow> x < y \<Longrightarrow> escape x @ 0 # s < escape y @ 0 # t"
proof (induction x arbitrary: y)
  case Nil
  then obtain c y' where "y = c # y'" by (cases y) auto
  with Nil(1) show ?case by (cases s) (auto simp: follows_def word_gt_0)
next
  case (Cons a x)
  then obtain c y' where y: "y = c # y'" by (cases y) auto
  show ?case
  proof (cases "a = c")
    case True
    with Cons y show ?thesis by auto
  next
    case False
    with Cons.prems(2) y have "a < c" by simp
    then show ?thesis using y by (auto simp: word_gt_0)
  qed
qed

lemma less_same_length: "length xs = length ys \<Longrightarrow> xs < ys \<Longrightarrow> xs @ s < ys @ (t :: bytes)"
  by (induction xs ys rule: list_induct2) auto

lemma be64_less: "uint m < uint n \<Longrightarrow> be64 m @ s < be64 n @ t"
  by (rule less_same_length) (simp_all add: be64_less_iff word_less_def)

subsection \<open>Comparison\<close>

lemma cmp_cases: "cmp a b < 0 \<longleftrightarrow> a < b" "cmp a b = 0 \<longleftrightarrow> a = b"
  by (auto simp: cmp_def)

lemma bytesCompare_cmp: "bytesCompare a b = cmp a b"
  by (induction a b rule: bytesCompare.induct) (auto simp: cmp_def)

lemma boolCompare_cmp: "boolCompare a b = cmp a b"
  by (auto simp: boolCompare_def cmp_def)

text \<open>The sort key of a float: its number, or above all numbers.\<close>

lemma compareNumeric_double:
  assumes "v_T a = TypeDouble" "v_T b = TypeDouble"
  shows "compareNumeric a b = cmp (uint (doubleBits (v_F a))) (uint (doubleBits (v_F b)))"
proof -
  let ?f = "v_F a" and ?g = "v_F b"
  have c: "compareNumeric a b = (if IsNaN ?f \<and> IsNaN ?g then 0 else if IsNaN ?f then 1 else if IsNaN ?g then - 1
      else cmp (ford ?f) (ford ?g))"
    using assms by (simp add: compareNumeric_def asFloat_def fless_def cmp_def)
  have nan: "uint (0xFFF8000000000001 :: u64) = 0xFFF8000000000001" by simp
  show ?thesis
  proof (cases "IsNaN ?f \<or> IsNaN ?g")
    case True
    then show ?thesis using ford_number [of ?f] ford_number [of ?g]
      by (cases "IsNaN ?f"; cases "IsNaN ?g") (auto simp: c doubleBits_NaN doubleBits_number cmp_def)
  next
    case False
    then show ?thesis by (auto simp: c doubleBits_number cmp_def)
  qed
qed

section \<open>Order of the encodings\<close>

text \<open>Two values of one column, in the order the engine sorts them.\<close>

lemma sortCompare_column:
  assumes "oneColumn a b" "keyable a" "keyable b"
  shows "sortCompare X a b =
    (if v_T a = TypeNull \<or> v_T b = TypeNull then cmp (v_T a \<noteq> TypeNull) (v_T b \<noteq> TypeNull)
     else case v_T a of
       TypeInt \<Rightarrow> cmp (sint (v_I a)) (sint (v_I b))
     | TypeDouble \<Rightarrow> cmp (uint (doubleBits (v_F a))) (uint (doubleBits (v_F b)))
     | TypeText \<Rightarrow> cmp (v_S a) (v_S b)
     | TypeBytea \<Rightarrow> cmp (v_Raw a) (v_Raw b)
     | TypeTimestamp \<Rightarrow> cmp (v_TS a) (v_TS b)
     | _ \<Rightarrow> cmp (v_B a) (v_B b))"
  using assms compareNumeric_double [of a b]
  by (cases "v_T a"; cases "v_T b")
     (simp_all add: sortCompare_def sortGroup_def Compare_def isNumeric_def oneColumn_def keyable_def cmp_def
        compareNumeric_def bytesCompare_cmp boolCompare_cmp)

lemma sortCompare_swap:
  assumes "oneColumn a b" "keyable a" "keyable b"
  shows "sortCompare X b a = - sortCompare X a b"
proof -
  have "oneColumn b a" using assms(1) by (auto simp: oneColumn_def)
  from sortCompare_column [OF this assms(3,2), of X] sortCompare_column [OF assms, of X] assms show ?thesis
    by (cases "v_T a") (auto simp: oneColumn_def cmp_def)
qed

lemma enc_simps:
  "v_T v = TypeNull \<Longrightarrow> enc v = [tagNull]"
  "v_T v = TypeBool \<Longrightarrow> enc v = [tagBool, if v_B v then 1 else 0]"
  "v_T v = TypeInt \<Longrightarrow> enc v = tagInt # be64 (v_I v XOR push_bit 63 1)"
  "v_T v = TypeDouble \<Longrightarrow> enc v = tagDouble # be64 (doubleBits (v_F v))"
  "v_T v = TypeText \<Longrightarrow> enc v = tagText # escape (v_S v) @ [0]"
  "v_T v = TypeBytea \<Longrightarrow> enc v = tagBytea # escape (v_Raw v) @ [0]"
  "v_T v = TypeTimestamp \<Longrightarrow> enc v = tagTimestamp # be64 (UnixMicro (v_TS v) XOR push_bit 63 1)"
  by (simp_all only: enc_def encodeKeyValue_def appendOffsetInt64_def appendEscaped_def Type.case sum.case append.simps)

lemma offset_less: "sint m < sint n \<Longrightarrow> be64 (m XOR push_bit 63 1) @ s < be64 (n XOR push_bit 63 1) @ t"
  using offset_unat [of m] offset_unat [of n] by (intro be64_less) (simp only: uint_nat)

lemma div_less: "(x :: int) < y \<Longrightarrow> x mod 1000 = 0 \<Longrightarrow> y mod 1000 = 0 \<Longrightarrow> x div 1000 < y div 1000"
  using div_mult_mod_eq [of x 1000] div_mult_mod_eq [of y 1000] by linarith

lemma enc_less:
  assumes col: "oneColumn a b" "keyable a" "keyable b" and ts: "microTime a" "microTime b" and s: "follows s"
    and less: "sortCompare X a b < 0"
  shows "enc a @ s < enc b @ t"
proof (cases "v_T a = TypeNull \<or> v_T b = TypeNull")
  case True
  with less sortCompare_column [OF col, of X] have "v_T a = TypeNull" "v_T b \<noteq> TypeNull" by (auto simp: cmp_def split: if_splits)
  then show ?thesis using col(3) by (cases "v_T b") (simp_all add: enc_simps tag_defs keyable_def)
next
  case False
  then have same: "v_T b = v_T a" using col(1) by (auto simp: oneColumn_def)
  note c = less [unfolded sortCompare_column [OF col, of X]]
  show ?thesis
  proof (cases "v_T a")
    case TypeTimestamp
    with c same False have lt: "v_TS a < v_TS b" by (simp add: cmp_cases)
    then have "v_TS a div 1000 < v_TS b div 1000"
      by (rule div_less) (use ts TypeTimestamp same in \<open>simp_all add: microTime_def\<close>)
    with ts TypeTimestamp same have "sint (UnixMicro (v_TS a)) < sint (UnixMicro (v_TS b))"
      by (simp add: UnixMicro_def i64_id microTime_def)
    with offset_less show ?thesis using TypeTimestamp same by (simp only: enc_simps append.simps Cons_less_Cons) simp
  next
    case TypeInt
    with c same False have "sint (v_I a) < sint (v_I b)" by (simp add: cmp_cases)
    with offset_less show ?thesis using TypeInt same by (simp only: enc_simps append.simps Cons_less_Cons) simp
  qed (use c same False s col(2) in \<open>auto simp: cmp_cases enc_simps keyable_def tag_defs intro: be64_less escape_less\<close>)
qed

lemma enc_equal:
  assumes col: "oneColumn a b" "keyable a" "keyable b" and eq: "sortCompare X a b = 0"
  shows "enc a = enc b"
proof -
  note c = eq [unfolded sortCompare_column [OF col, of X]]
  show ?thesis
  proof (cases "v_T a = TypeNull \<or> v_T b = TypeNull")
    case True
    with c show ?thesis by (auto simp: cmp_cases enc_simps split: if_splits)
  next
    case False
    then have "v_T b = v_T a" using col(1) by (auto simp: oneColumn_def)
    note same = this
    show ?thesis
    proof (cases "v_T a")
      case TypeInt
      with c same have "sint (v_I a) = sint (v_I b)" by (simp add: cmp_cases)
      then have "v_I a = v_I b" by (metis i64_word)
      with TypeInt same show ?thesis by (simp only: enc_simps)
    next
      case TypeDouble
      with c same have "uint (doubleBits (v_F a)) = uint (doubleBits (v_F b))" by (simp add: cmp_cases)
      then have "doubleBits (v_F a) = doubleBits (v_F b)" by (simp only: word_uint_eq_iff)
      with TypeDouble same show ?thesis by (simp only: enc_simps)
    qed (use c False col(2) same in \<open>simp_all add: cmp_cases enc_simps keyable_def\<close>)
  qed
qed

section \<open>Tuples\<close>

text \<open>The first column that differs decides.\<close>

fun tupleCompare :: "sqlenv \<Rightarrow> Value list \<Rightarrow> Value list \<Rightarrow> int" where
  "tupleCompare X (a # as) (b # bs) = (let c = sortCompare X a b in if c \<noteq> 0 then c else tupleCompare X as bs)"
| "tupleCompare X _ _ = 0"

definition encs :: "Value list \<Rightarrow> bytes" where
  "encs vs = List.concat (map enc vs)"

lemma encs_simps [simp]: "encs [] = []" "encs (v # vs) = enc v @ encs vs" "encs (vs @ ws) = encs vs @ encs ws"
  by (simp_all add: encs_def)

lemma enc_head: "keyable v \<Longrightarrow> \<exists>t r. enc v = t # r \<and> t \<le> 7"
  by (cases "v_T v") (simp_all add: enc_simps tag_defs keyable_def)

lemma follows_encs: "list_all keyable vs \<Longrightarrow> follows s \<Longrightarrow> follows (encs vs @ s)"
proof (cases vs)
  case (Cons v ws)
  assume "list_all keyable vs"
  with Cons enc_head [of v] obtain t r where "enc v = t # r" "t \<le> 7" by auto
  then have "t < 0xFF" by (rule_tac le_less_trans [of t 7]) simp_all
  with Cons \<open>enc v = t # r\<close> show ?thesis by (simp add: follows_def)
qed simp

text \<open>A row of key values against another, column by column.\<close>

definition rowKey_ok :: "Value list \<Rightarrow> bool" where
  "rowKey_ok vs \<longleftrightarrow> list_all keyable vs \<and> list_all microTime vs"

lemma encs_less:
  assumes "list_all2 oneColumn as bs" "rowKey_ok as" "rowKey_ok bs" "follows s" "tupleCompare X as bs < 0"
  shows "encs as @ s < encs bs @ t"
  using assms
proof (induction as bs rule: list_all2_induct)
  case (Cons a as b bs)
  show ?case
  proof (cases "sortCompare X a b = 0")
    case True
    then have "enc a = enc b" using Cons by (intro enc_equal) (auto simp: rowKey_ok_def)
    with Cons True show ?thesis by (simp add: rowKey_ok_def append_less_cancel)
  next
    case False
    with Cons.prems have "sortCompare X a b < 0" by simp
    then have "enc a @ (encs as @ s) < enc b @ (encs bs @ t)"
      using Cons by (intro enc_less [where X = X]) (auto simp: rowKey_ok_def follows_encs)
    then show ?thesis by simp
  qed
qed simp

lemma encs_equal:
  assumes "list_all2 oneColumn as bs" "list_all keyable as" "list_all keyable bs" "tupleCompare X as bs = 0"
  shows "encs as = encs bs"
  using assms
proof (induction as bs rule: list_all2_induct)
  case (Cons a as b bs)
  then have "sortCompare X a b = 0" by (auto simp: Let_def split: if_splits)
  with Cons enc_equal [of a b X] show ?case by simp
qed simp

lemma tupleCompare_swap:
  assumes "list_all2 oneColumn as bs" "list_all keyable as" "list_all keyable bs"
  shows "tupleCompare X bs as = - tupleCompare X as bs"
  using assms by (induction as bs rule: list_all2_induct) (auto simp: Let_def sortCompare_swap)

section \<open>Hexadecimal\<close>

lemma hexString_append [simp]: "hexString (x @ y) = hexString x @ hexString y"
  by (induction x) simp_all

lemma hexDigit_less: "a < 16 \<Longrightarrow> b < 16 \<Longrightarrow> hexDigit a < hexDigit b \<longleftrightarrow> a < b"
  by (auto simp: hexDigit_def word_less_nat_alt unat_word_ariths)

lemma hexDigit_range: "a < 16 \<Longrightarrow> 48 \<le> hexDigit a"
  by (auto simp: hexDigit_def word_less_nat_alt word_le_nat_alt unat_word_ariths)

lemma nibbles: "unat (drop_bit 4 (b :: byte)) = unat b div 16" "unat (b AND 15 :: byte) = unat b mod 16"
proof -
  show "unat (drop_bit 4 b) = unat b div 16" 
    using unsigned_less [of b, where 'a = nat]
    by (simp only: unsigned_drop_bit_eq) (simp add: drop_bit_eq_div take_bit_nat_eq_self)
  have "b AND 15 = take_bit 4 b" by (simp add: take_bit_eq_mask mask_eq_exp_minus_1)
  then show "unat (b AND 15) = unat b mod 16" by (simp only: unsigned_take_bit_eq) (simp add: take_bit_eq_mod)
qed

lemma nibble_bounds: "drop_bit 4 (b :: byte) < 16" "b AND 15 < (16 :: byte)"
proof -
  have "unat b < 256" using unsigned_less [of b] by simp
  then show "drop_bit 4 b < 16" by (simp add: word_less_nat_alt nibbles)
  show "b AND 15 < 16" by (simp add: word_less_nat_alt nibbles)
qed

lemma hexDigit_inj: "a < 16 \<Longrightarrow> b < 16 \<Longrightarrow> hexDigit a = hexDigit b \<longleftrightarrow> a = b"
  by (metis hexDigit_less order_less_irrefl linorder_neqE)

lemma less_by_digits: "(a :: nat) < c \<Longrightarrow> a div 16 < c div 16 \<or> a div 16 = c div 16 \<and> a mod 16 < c mod 16"
  using div_le_mono [of a c 16] div_mult_mod_eq [of a 16] div_mult_mod_eq [of c 16]
  by (cases "a div 16 = c div 16") linarith+

text \<open>The spelling keeps the order, also when something below every digit follows.\<close>

lemma hex_less:
  assumes "x < y" "s = [] \<or> hd s < 48"
  shows "hexString x @ s < hexString y"
  using assms
proof (induction x arbitrary: y)
  case Nil
  then obtain c y' where "y = c # y'" by (cases y) auto
  then show ?case using Nil(2) hexDigit_range [OF nibble_bounds(1), of c] by (cases s) auto
next
  case (Cons a x)
  then obtain c y' where y: "y = c # y'" by (cases y) auto
  show ?case
  proof (cases "a = c")
    case True
    with Cons y show ?thesis by simp
  next
    case False
    with Cons.prems(1) y have lt: "a < c" by simp
    then have "unat a div 16 < unat c div 16 \<or> unat a div 16 = unat c div 16 \<and> unat a mod 16 < unat c mod 16"
      unfolding word_less_nat_alt by (rule less_by_digits)
    then have "drop_bit 4 a < drop_bit 4 c \<or> drop_bit 4 a = drop_bit 4 c \<and> a AND 15 < c AND 15"
      by (simp only: word_less_nat_alt word_unat_eq_iff nibbles)
    then have "hexDigit (drop_bit 4 a) < hexDigit (drop_bit 4 c) \<or>
        hexDigit (drop_bit 4 a) = hexDigit (drop_bit 4 c) \<and> hexDigit (a AND 15) < hexDigit (c AND 15)"
      using hexDigit_less nibble_bounds by metis
    then show ?thesis by (auto simp: y)
  qed
qed

lemma hexString_less_iff: "hexString x < hexString y \<longleftrightarrow> x < y"
  using hex_less [of x y "[]"] hex_less [of y x "[]"] by (cases x y rule: linorder_cases) auto

lemma hexString_inj: "hexString x = hexString y \<longleftrightarrow> x = y"
  by (metis hexString_less_iff linorder_neqE order_less_irrefl)

section \<open>Properties\<close>



end
