(* ===== verification/SQL_Lexer.thy ===== *)
theory SQL_Lexer
  imports Go_Text
begin

text \<open>
  The lexer of the SQL engine (\<^verbatim>\<open>pkg/service/sql/lexer.go\<close>) and the token loop of
  \<^verbatim>\<open>ParseStatements\<close>. A lexer is its source and a byte position. The tables of the Unicode package are
  the record \<^verbatim>\<open>unicode\<close>. The token loop has no bound of its own: \<^verbatim>\<open>tokens\<close> answers \<open>None\<close> where it
  does not return.
\<close>

section \<open>Tokens\<close>

datatype tokKind = tkEOF | tkIdent | tkKeyword | tkNumber | tkString | tkOp | tkParam

record token =
  tk_kind :: tokKind
  tk_s :: bytes
  tk_pos :: nat
  tk_orig :: bytes

definition tok :: "tokKind \<Rightarrow> bytes \<Rightarrow> nat \<Rightarrow> token" where
  "tok k s pos = \<lparr>tk_kind = k, tk_s = s, tk_pos = pos, tk_orig = []\<rparr>"

definition labelOf :: "token \<Rightarrow> bytes" where
  "labelOf t = (if tk_orig t \<noteq> [] then tk_orig t else tk_s t)"

definition sqlKeywords :: "bytes set" where
  "sqlKeywords = set (map str [''SELECT'', ''FROM'', ''WHERE'', ''GROUP'', ''BY'', ''ORDER'', ''LIMIT'',
     ''OFFSET'', ''ASC'', ''DESC'', ''DISTINCT'', ''ALL'', ''UNION'', ''AS'',
     ''INSERT'', ''INTO'', ''VALUES'', ''RETURNING'', ''UPDATE'', ''SET'',
     ''DELETE'', ''CREATE'', ''DROP'', ''TABLE'', ''INDEX'', ''UNIQUE'',
     ''PRIMARY'', ''KEY'', ''NOT'', ''NULL'', ''DEFAULT'', ''CHECK'', ''ON'',
     ''IF'', ''EXISTS'', ''AND'', ''OR'', ''IN'', ''LIKE'', ''BETWEEN'', ''IS'',
     ''TRUE'', ''FALSE'', ''CAST'', ''BEGIN'', ''COMMIT'', ''ROLLBACK'',
     ''TRANSACTION'', ''CONSTRAINT'', ''CONFLICT'', ''DO'', ''NOTHING'',
     ''REPLACE''])"

record unicode =
  IsLetter :: "nat \<Rightarrow> bool"
  IsDigitRune :: "nat \<Rightarrow> bool"
  ToUpper :: "bytes \<Rightarrow> bytes"
  ToLower :: "bytes \<Rightarrow> bytes"

record lexer =
  lx_src :: bytes
  lx_i :: nat

text \<open>An error carries its position.\<close>

type_synonym lexerr = "nat \<times> string"

definition rest :: "lexer \<Rightarrow> bytes" where
  "rest lx = drop (lx_i lx) (lx_src lx)"

definition isIdentStart :: "unicode \<Rightarrow> nat \<Rightarrow> bool" where
  "isIdentStart U r \<longleftrightarrow> r = 95 \<or> IsLetter U r"

definition isIdentPart :: "unicode \<Rightarrow> nat \<Rightarrow> bool" where
  "isIdentPart U r \<longleftrightarrow> r = 95 \<or> r = 36 \<or> IsLetter U r \<or> IsDigitRune U r"

section \<open>Blanks and comments\<close>

definition isSpace :: "byte \<Rightarrow> bool" where
  "isSpace c \<longleftrightarrow> c = 32 \<or> c = 9 \<or> c = 13 \<or> c = 10 \<or> c = 11 \<or> c = 12"

definition skipSpace :: "lexer \<Rightarrow> lexer" where
  "skipSpace lx = lx\<lparr>lx_i := lx_i lx + length (takeWhile isSpace (rest lx))\<rparr>"

text \<open>\<^verbatim>\<open>strings.Index\<close>: the first position where the pattern occurs.\<close>

fun indexOf :: "bytes \<Rightarrow> bytes \<Rightarrow> nat option" where
  "indexOf p s = (if prefix p s then Some 0 else case s of [] \<Rightarrow> None | c # cs \<Rightarrow> map_option Suc (indexOf p cs))"

declare indexOf.simps [simp del]

lemma skipSpace_src [simp]: "lx_src (skipSpace lx) = lx_src lx"
  by (simp add: skipSpace_def)

lemma skipSpace_ends: "rest (skipSpace lx) \<noteq> [] \<Longrightarrow> lx_i lx \<le> lx_i (skipSpace lx) \<and> lx_i (skipSpace lx) < length (lx_src lx)"
  by (simp add: rest_def) (simp add: skipSpace_def)

function skipBlanks :: "lexer \<Rightarrow> lexerr + lexer" where
  "skipBlanks lx0 =
     (let lx = skipSpace lx0; s = rest lx
      in if s = [] then Inr lx
         else if prefix [45, 45] s
         then (case indexOf [10] s of
             None \<Rightarrow> skipBlanks (lx\<lparr>lx_i := length (lx_src lx)\<rparr>)
           | Some nl \<Rightarrow> skipBlanks (lx\<lparr>lx_i := lx_i lx + nl + 1\<rparr>))
         else if prefix [47, 42] s
         then (case indexOf [42, 47] (drop 2 s) of
             None \<Rightarrow> Inl (lx_i lx, ''unterminated block comment'')
           | Some stop \<Rightarrow> skipBlanks (lx\<lparr>lx_i := lx_i lx + 2 + stop + 2\<rparr>))
         else Inr lx)"
  by pat_completeness auto
termination
proof (relation "measure (\<lambda>lx. length (lx_src lx) - lx_i lx)", goal_cases)
  case (2 lx0 lx s)
  then show ?case using skipSpace_ends [of lx0] by auto
next
  case (3 lx0 lx s nl)
  have "length (lx_src lx0) - (lx_i (skipSpace lx0) + nl + 1) < length (lx_src lx0) - lx_i lx0"
    using skipSpace_ends [of lx0] 3(1-3) by auto
  with 3 show ?case by simp
next
  case (4 lx0 lx s stop)
  have "length (lx_src lx0) - (lx_i (skipSpace lx0) + 2 + stop + 2) < length (lx_src lx0) - lx_i lx0"
    using skipSpace_ends [of lx0] 4(1-3) by auto
  with 4 show ?case by simp
qed simp

declare skipBlanks.simps [simp del]

section \<open>Scanners\<close>

text \<open>The loop of both quoted forms: a doubled quote stands for one, a single one ends.\<close>

fun quotedLoop :: "byte \<Rightarrow> bytes \<Rightarrow> bytes \<Rightarrow> nat \<Rightarrow> (bytes \<times> nat) option" where
  "quotedLoop q [] b i = None"
| "quotedLoop q (c # cs) b i =
     (if c = q
      then (case cs of
          d # ds \<Rightarrow> if d = q then quotedLoop q ds (b @ [q]) (i + 2) else Some (b, i + 1)
        | [] \<Rightarrow> Some (b, i + 1))
      else quotedLoop q cs (b @ [c]) (i + 1))"

definition scanString :: "lexer \<Rightarrow> nat \<Rightarrow> lexerr + token \<times> lexer" where
  "scanString lx pos = (case quotedLoop 39 (drop 1 (rest lx)) [] (lx_i lx + 1) of
     None \<Rightarrow> Inl (pos, ''unterminated string literal'')
   | Some (b, i) \<Rightarrow> Inr (tok tkString b pos, lx\<lparr>lx_i := i\<rparr>))"

definition scanQuotedIdent :: "lexer \<Rightarrow> nat \<Rightarrow> lexerr + token \<times> lexer" where
  "scanQuotedIdent lx pos = (case quotedLoop 34 (drop 1 (rest lx)) [] (lx_i lx + 1) of
     None \<Rightarrow> Inl (pos, ''unterminated quoted identifier'')
   | Some (b, i) \<Rightarrow> Inr (tok tkIdent b pos, lx\<lparr>lx_i := i\<rparr>))"

definition scanParam :: "lexer \<Rightarrow> nat \<Rightarrow> lexerr + token \<times> lexer" where
  "scanParam lx pos =
     (let ds = takeWhile isDigit (drop 1 (rest lx))
      in if ds = [] then Inl (pos, ''expected digits after $'')
         else Inr (tok tkParam ds pos, lx\<lparr>lx_i := lx_i lx + 1 + length ds\<rparr>))"

text \<open>The length of a number: \<^verbatim>\<open>first\<close> tells that nothing was read yet.\<close>

fun numberLen :: "bool \<Rightarrow> bool \<Rightarrow> bool \<Rightarrow> bytes \<Rightarrow> nat" where
  "numberLen seenDot seenExp first [] = 0"
| "numberLen seenDot seenExp first (c # cs) =
     (if isDigit c then Suc (numberLen seenDot seenExp False cs)
      else if c = 46 \<and> \<not> seenDot \<and> \<not> seenExp then Suc (numberLen True seenExp False cs)
      else if (c = 101 \<or> c = 69) \<and> \<not> seenExp \<and> \<not> first
      then (case cs of
          [] \<Rightarrow> 1
        | d # ds \<Rightarrow> if d = 43 \<or> d = 45 then 2 + numberLen seenDot True False ds else Suc (numberLen seenDot True False cs))
      else 0)"

definition scanNumber :: "lexer \<Rightarrow> nat \<Rightarrow> lexerr + token \<times> lexer" where
  "scanNumber lx pos = (let n = numberLen False False True (rest lx)
     in Inr (tok tkNumber (take n (rest lx)) pos, lx\<lparr>lx_i := lx_i lx + n\<rparr>))"

function identLen :: "unicode \<Rightarrow> bytes \<Rightarrow> nat" where
  "identLen U s =
     (if s = [] \<or> \<not> isIdentPart U (fst (DecodeRune s)) then 0
      else snd (DecodeRune s) + identLen U (drop (snd (DecodeRune s)) s))"
  by pat_completeness auto
termination
  by (relation "measure (length \<circ> snd)") (use DecodeRune_size in auto)

declare identLen.simps [simp del]

definition scanIdent :: "unicode \<Rightarrow> lexer \<Rightarrow> nat \<Rightarrow> lexerr + token \<times> lexer" where
  "scanIdent U lx pos =
     (let n = identLen U (rest lx); word = take n (rest lx); upper = ToUpper U word; lx' = lx\<lparr>lx_i := lx_i lx + n\<rparr>
      in if upper \<in> sqlKeywords then Inr (tok tkKeyword upper pos, lx')
         else Inr ((tok tkIdent (ToLower U word) pos)\<lparr>tk_orig := word\<rparr>, lx'))"

definition multiOps :: "bytes list" where
  "multiOps = map str [''<->'', ''<=>'', ''<#>'', ''!='', ''<>'', ''<='', ''>='', ''||'', ''::'']"

definition singleOps :: bytes where
  "singleOps = str ''+-*/%&|^=<>(),;.''"

definition lexNext :: "unicode \<Rightarrow> lexer \<Rightarrow> lexerr + token \<times> lexer" where
  "lexNext U lx0 = (case skipBlanks lx0 of
     Inl e \<Rightarrow> Inl e
   | Inr lx \<Rightarrow>
       (let pos = lx_i lx
        in case rest lx of
            [] \<Rightarrow> Inr (tok tkEOF [] pos, lx)
          | c # cs \<Rightarrow>
              if c = 39 then scanString lx pos
              else if c = 34 then scanQuotedIdent lx pos
              else if c = 36 then scanParam lx pos
              else if isDigit c then scanNumber lx pos
              else if c = 46 \<and> cs \<noteq> [] \<and> isDigit (hd cs) then scanNumber lx pos
              else if isIdentStart U (unat c) \<or> 0x80 \<le> c then scanIdent U lx pos
              else case find (\<lambda>op. prefix op (c # cs)) multiOps of
                  Some op \<Rightarrow> Inr (tok tkOp (if op = str ''<>'' then str ''!='' else op) pos, lx\<lparr>lx_i := pos + length op\<rparr>)
                | None \<Rightarrow>
                    if c \<in> set singleOps then Inr (tok tkOp [c] pos, lx\<lparr>lx_i := pos + 1\<rparr>)
                    else Inl (pos, ''unexpected character'')))"

section \<open>The token loop\<close>

partial_function (option) tokens :: "unicode \<Rightarrow> lexer \<Rightarrow> token list \<Rightarrow> (lexerr + token list) option" where
  [code]: "tokens U lx toks = (case lexNext U lx of
     Inl e \<Rightarrow> Some (Inl e)
   | Inr (t, lx') \<Rightarrow>
       if tk_kind t = tkEOF then Some (Inr (toks @ [t]))
       else tokens U lx' (toks @ [t]))"

definition lexAll :: "unicode \<Rightarrow> bytes \<Rightarrow> (lexerr + token list) option" where
  "lexAll U src = tokens U \<lparr>lx_src = src, lx_i = 0\<rparr> []"

end
