(* ===== verification/SQL_Ast.thy ===== *)
theory SQL_Ast
  imports SQL_Value SQL_Lexer
begin

text \<open>
  The syntax trees of the SQL engine (\<^verbatim>\<open>pkg/service/sql/ast.go\<close>; \<^verbatim>\<open>Show\<close> of \<^verbatim>\<open>show.go\<close> and
  \<^verbatim>\<open>AlterTable\<close> of \<^verbatim>\<open>alter.go\<close>) and their rendering back to SQL text. A nil expression is
  \<open>None\<close>; the operators are the strings the parser stores.
\<close>

section \<open>Expressions and queries\<close>

datatype Expr =
    Literal Value bytes
  | ColumnRef bytes bytes
  | Unary bytes Expr
  | Binary bytes Expr Expr
  | Between Expr Expr Expr bool
  | InList Expr "Expr list" "Select option" bool
  | Subquery Select bool
  | IsNullE Expr bool
  | FuncCall bytes "Expr list" bool
  | Cast Expr Type bytes nat
  | Param nat
and SelectItem = Star | Item Expr bytes
and TableExpr =
    TableRef bytes bytes
  | SubqueryRef Select bytes bool
  | JoinExpr bytes TableExpr TableExpr "Expr option" "bytes list" bool
and SelectCore = SelectCore bool "SelectItem list" bytes bytes "TableExpr option" "Expr option" "Expr list"
and Select = Select SelectCore "(bool \<times> SelectCore) list" "(Expr \<times> bool) list" "Expr option" "Expr option"

section \<open>Statements\<close>

record ColumnDef =
  cd_Name :: bytes
  cd_Type :: Type
  cd_TypeName :: bytes
  cd_Dim :: nat
  cd_NotNull :: bool
  cd_PrimaryKey :: bool
  cd_Unique :: bool
  cd_Auto :: bool
  cd_Default :: "Expr option"

record CreateTable =
  ct_Name :: bytes
  ct_IfNotExists :: bool
  ct_Columns :: "ColumnDef list"
  ct_PrimaryKey :: "bytes list"
  ct_Uniques :: "bytes list list"
  ct_Checks :: "Expr list"

record CreateIndex =
  ci_Name :: bytes
  ci_Table :: bytes
  ci_Columns :: "bytes list"
  ci_Unique :: bool
  ci_IfNotExists :: bool

record Insert =
  ins_Table :: bytes
  ins_Columns :: "bytes list"
  ins_Rows :: "Expr list list"
  ins_Select :: "Select option"
  ins_Returning :: "SelectItem list"
  ins_OnConflict :: bytes

record AlterTable =
  al_Table :: bytes
  al_Op :: bytes
  al_Col :: ColumnDef
  al_Name :: bytes
  al_NewName :: bytes

datatype Statement =
    SCreateTable CreateTable
  | SDropTable bytes bool
  | SCreateIndex CreateIndex
  | SDropIndex bytes bool
  | SInsert Insert
  | SUpdate bytes "(bytes \<times> Expr) list" "Expr option"
  | SDelete bytes "Expr option"
  | SSelect Select
  | STx bytes
  | SShow bytes bytes
  | SAlter AlterTable

section \<open>Rendering\<close>

text \<open>\<^verbatim>\<open>strings.ReplaceAll(s, q, qq)\<close> for a one-byte quote\<close>

definition doubled :: "byte \<Rightarrow> bytes \<Rightarrow> bytes" where
  "doubled q s = List.concat (map (\<lambda>c. if c = q then [q, q] else [c]) s)"

definition quoteIdent :: "bytes \<Rightarrow> bytes" where
  "quoteIdent s = [34] @ doubled 34 s @ [34]"

text \<open>\<^verbatim>\<open>strings.Join\<close>\<close>

fun joinWith :: "bytes \<Rightarrow> bytes list \<Rightarrow> bytes" where
  "joinWith sep [] = []"
| "joinWith sep [s] = s"
| "joinWith sep (s # t # ss) = s @ sep @ joinWith sep (t # ss)"

fun exprString :: "unicode \<Rightarrow> sqlenv \<Rightarrow> Expr \<Rightarrow> bytes" where
  "exprString U X (Literal v src) =
     (if src \<noteq> [] then src
      else case v_T v of
          TypeNull \<Rightarrow> str ''NULL''
        | TypeText \<Rightarrow> [39] @ doubled 39 (v_S v) @ [39]
        | _ \<Rightarrow> FormatText X v)"
| "exprString U X (ColumnRef t c) = (if t \<noteq> [] then t @ str ''.'' @ c else c)"
| "exprString U X (Unary op x) =
     (if op = str ''NOT'' then str ''NOT '' @ exprString U X x else op @ exprString U X x)"
| "exprString U X (Binary op l r) = exprString U X l @ str '' '' @ op @ str '' '' @ exprString U X r"
| "exprString U X (Between x lo hi neg) =
     exprString U X x @ str '' '' @ (if neg then str ''NOT '' else []) @ str ''BETWEEN '' @ exprString U X lo @
       str '' AND '' @ exprString U X hi"
| "exprString U X (InList x items sub neg) =
     exprString U X x @ str '' '' @ (if neg then str ''NOT '' else []) @ str ''IN ('' @
       joinWith (str '', '') (map (exprString U X) items) @ str '')''"
| "exprString U X (Subquery s ex) = (if ex then str ''EXISTS (SELECT ...)'' else str ''(SELECT ...)'')"
| "exprString U X (IsNullE x neg) = exprString U X x @ (if neg then str '' IS NOT NULL'' else str '' IS NULL'')"
| "exprString U X (FuncCall name args star) =
     (if star then ToUpper U name @ str ''(*)''
      else ToUpper U name @ str ''('' @ joinWith (str '', '') (map (exprString U X) args) @ str '')'')"
| "exprString U X (Cast x t typeName dim) =
     str ''CAST('' @ exprString U X x @ str '' AS '' @ ToLower U typeName @ str '')''"
| "exprString U X (Param n) = str ''$'' @ digits n"

definition labelFor :: "unicode \<Rightarrow> sqlenv \<Rightarrow> Expr \<Rightarrow> bytes \<Rightarrow> bytes" where
  "labelFor U X e alias = (if alias \<noteq> [] then alias else case e of ColumnRef t c \<Rightarrow> c | _ \<Rightarrow> exprString U X e)"

definition isAggregateName :: "bytes \<Rightarrow> bool" where
  "isAggregateName name \<longleftrightarrow> name \<in> set (map str [''count'', ''sum'', ''avg'', ''min'', ''max''])"

fun exprHasAggregate :: "Expr \<Rightarrow> bool" where
  "exprHasAggregate (FuncCall name args star) \<longleftrightarrow> isAggregateName name \<or> (\<exists>a \<in> set args. exprHasAggregate a)"
| "exprHasAggregate (Unary op x) \<longleftrightarrow> exprHasAggregate x"
| "exprHasAggregate (Binary op l r) \<longleftrightarrow> exprHasAggregate l \<or> exprHasAggregate r"
| "exprHasAggregate (Between x lo hi neg) \<longleftrightarrow> exprHasAggregate x \<or> exprHasAggregate lo \<or> exprHasAggregate hi"
| "exprHasAggregate (InList x items sub neg) \<longleftrightarrow> exprHasAggregate x \<or> (\<exists>a \<in> set items. exprHasAggregate a)"
| "exprHasAggregate (IsNullE x neg) \<longleftrightarrow> exprHasAggregate x"
| "exprHasAggregate (Cast x t tn dim) \<longleftrightarrow> exprHasAggregate x"
| "exprHasAggregate _ \<longleftrightarrow> False"

definition litInt :: "i64 \<Rightarrow> Expr" where
  "litInt i = Literal (intV i) (FormatInt i)"

text \<open>\<^verbatim>\<open>exprColumns\<close> (exec.go) and \<^verbatim>\<open>exprHasSubquery\<close> (subquery.go), the checks of a stored expression.\<close>

fun exprColumns :: "Expr \<Rightarrow> bytes list" where
  "exprColumns (ColumnRef t c) = [c]"
| "exprColumns (Unary op x) = exprColumns x"
| "exprColumns (Binary op l r) = exprColumns l @ exprColumns r"
| "exprColumns (Between x lo hi neg) = exprColumns x @ exprColumns lo @ exprColumns hi"
| "exprColumns (InList x items sub neg) = exprColumns x @ List.concat (map exprColumns items)"
| "exprColumns (IsNullE x neg) = exprColumns x"
| "exprColumns (Cast x t tn dim) = exprColumns x"
| "exprColumns (FuncCall name args star) = List.concat (map exprColumns args)"
| "exprColumns _ = []"

fun exprHasSubquery :: "Expr \<Rightarrow> bool" where
  "exprHasSubquery (Subquery s ex) \<longleftrightarrow> True"
| "exprHasSubquery (InList x items sub neg) \<longleftrightarrow> sub \<noteq> None \<or> exprHasSubquery x \<or> (\<exists>a \<in> set items. exprHasSubquery a)"
| "exprHasSubquery (Unary op x) \<longleftrightarrow> exprHasSubquery x"
| "exprHasSubquery (Binary op l r) \<longleftrightarrow> exprHasSubquery l \<or> exprHasSubquery r"
| "exprHasSubquery (Between x lo hi neg) \<longleftrightarrow> exprHasSubquery x \<or> exprHasSubquery lo \<or> exprHasSubquery hi"
| "exprHasSubquery (IsNullE x neg) \<longleftrightarrow> exprHasSubquery x"
| "exprHasSubquery (Cast x t tn dim) \<longleftrightarrow> exprHasSubquery x"
| "exprHasSubquery (FuncCall name args star) \<longleftrightarrow> (\<exists>a \<in> set args. exprHasSubquery a)"
| "exprHasSubquery _ \<longleftrightarrow> False"

section \<open>ASCII\<close>

definition upperASCII :: "bytes \<Rightarrow> bytes" where
  "upperASCII s = map (\<lambda>c. if 97 \<le> c \<and> c \<le> 122 then c - 32 else c) s"

text \<open>The tables of ASCII alone.\<close>

definition asciiUnicode :: unicode where
  "asciiUnicode = \<lparr>IsLetter = \<lambda>r. (65 \<le> r \<and> r \<le> 90) \<or> (97 \<le> r \<and> r \<le> 122), IsDigitRune = \<lambda>r. 48 \<le> r \<and> r \<le> 57,
     ToUpper = upperASCII, ToLower = lowerASCII\<rparr>"

end
