(* ===== verification/SQL_Parser.thy ===== *)
theory SQL_Parser
  imports SQL_Ast
begin

text \<open>
  The parser of the SQL engine: tokens, expressions and types (\<^verbatim>\<open>pkg/service/sql/parser.go\<close>). A parser
  is a function on the tokens from the cursor on: reading past the last one would be the slice panic
  \<open>PPanic\<close>. A syntax error carries its position where the code gives one. The functions that call each
  other recursively do so through the record \<^verbatim>\<open>parsers\<close>; \<^verbatim>\<open>parserAt\<close> in \<^verbatim>\<open>SQL_Statement\<close> ties
  the knot. A \<open>for\<close> loop is \<^verbatim>\<open>whileP\<close>, with one round more than there are tokens.
\<close>

section \<open>Results\<close>

datatype 'a presult = POk 'a "token list" | PErr "nat option" string | PPanic | PFuel

type_synonym 'a parser = "token list \<Rightarrow> 'a presult"

definition ret :: "'a \<Rightarrow> 'a parser" where
  "ret x = (\<lambda>ts. POk x ts)"

definition fail :: "string \<Rightarrow> 'a parser" where
  "fail msg = (\<lambda>ts. PErr None msg)"

definition failAt :: "nat \<Rightarrow> string \<Rightarrow> 'a parser" where
  "failAt pos msg = (\<lambda>ts. PErr (Some pos) msg)"

definition pbind :: "'a parser \<Rightarrow> ('a \<Rightarrow> 'b parser) \<Rightarrow> 'b parser" where
  "pbind p f = (\<lambda>ts. case p ts of
     POk x ts' \<Rightarrow> f x ts'
   | PErr pos msg \<Rightarrow> PErr pos msg
   | PPanic \<Rightarrow> PPanic
   | PFuel \<Rightarrow> PFuel)"

definition pthen :: "'a parser \<Rightarrow> 'b parser \<Rightarrow> 'b parser" where
  "pthen p q = pbind p (\<lambda>_. q)"

primrec loopP :: "nat \<Rightarrow> ('s \<Rightarrow> ('s + 'r) parser) \<Rightarrow> 's \<Rightarrow> 'r parser" where
  "loopP 0 body s = (\<lambda>ts. PFuel)"
| "loopP (Suc n) body s = pbind (body s) (\<lambda>x. case x of Inl s' \<Rightarrow> loopP n body s' | Inr r \<Rightarrow> ret r)"

definition whileP :: "('s \<Rightarrow> ('s + 'r) parser) \<Rightarrow> 's \<Rightarrow> 'r parser" where
  "whileP body s = (\<lambda>ts. loopP (Suc (length ts)) body s ts)"

section \<open>Token helpers\<close>

definition peek :: "token parser" where
  "peek = (\<lambda>ts. case ts of [] \<Rightarrow> PPanic | t # us \<Rightarrow> POk t ts)"

definition nextTok :: "token parser" where
  "nextTok = (\<lambda>ts. case ts of [] \<Rightarrow> PPanic | t # us \<Rightarrow> POk t (if us = [] then ts else us))"

definition isTok :: "tokKind \<Rightarrow> string \<Rightarrow> token \<Rightarrow> bool" where
  "isTok k s t \<longleftrightarrow> tk_kind t = k \<and> tk_s t = str s"

definition acceptTok :: "tokKind \<Rightarrow> string \<Rightarrow> bool parser" where
  "acceptTok k s = pbind peek (\<lambda>t. if isTok k s t then pthen nextTok (ret True) else ret False)"

definition acceptKw :: "string \<Rightarrow> bool parser" where "acceptKw = acceptTok tkKeyword"
definition acceptOp :: "string \<Rightarrow> bool parser" where "acceptOp = acceptTok tkOp"
definition acceptIdent :: "string \<Rightarrow> bool parser" where "acceptIdent = acceptTok tkIdent"

definition peekKw :: "string \<Rightarrow> bool parser" where
  "peekKw kw = pbind peek (\<lambda>t. ret (isTok tkKeyword kw t))"

definition peekIsOp :: "string \<Rightarrow> bool parser" where
  "peekIsOp op = pbind peek (\<lambda>t. ret (isTok tkOp op t))"

definition peekAheadKw :: "nat \<Rightarrow> string \<Rightarrow> bool parser" where
  "peekAheadKw n kw = (\<lambda>ts. POk (n < length ts \<and> isTok tkKeyword kw (ts ! n)) ts)"

definition peekAheadIsOp :: "nat \<Rightarrow> string \<Rightarrow> bool parser" where
  "peekAheadIsOp n op = (\<lambda>ts. POk (n < length ts \<and> isTok tkOp op (ts ! n)) ts)"

definition expectKw :: "string \<Rightarrow> unit parser" where
  "expectKw kw = pbind (acceptKw kw) (\<lambda>b. if b then ret () else pbind peek (\<lambda>t. failAt (tk_pos t) ''expected keyword''))"

definition expectOp :: "string \<Rightarrow> unit parser" where
  "expectOp op = pbind (acceptOp op) (\<lambda>b. if b then ret () else pbind peek (\<lambda>t. failAt (tk_pos t) ''expected operator''))"

definition ident :: "bytes parser" where
  "ident = pbind peek (\<lambda>t. if tk_kind t = tkIdent then pthen nextTok (ret (tk_s t)) else failAt (tk_pos t) ''expected identifier'')"

definition identLabel :: "bytes parser" where
  "identLabel = pbind peek (\<lambda>t. if tk_kind t = tkIdent then pthen nextTok (ret (labelOf t)) else failAt (tk_pos t) ''expected identifier'')"

text \<open>The loop \<^verbatim>\<open>for { x; if acceptOp(",") continue; break }\<close>.\<close>

definition commaList :: "'a parser \<Rightarrow> 'a list parser" where
  "commaList p = whileP (\<lambda>out. pbind p (\<lambda>x. pbind (acceptOp '','') (\<lambda>b. ret (if b then Inl (out @ [x]) else Inr (out @ [x]))))) []"

section \<open>Types\<close>

definition hasDotOrExp :: "bytes \<Rightarrow> bool" where
  "hasDotOrExp s \<longleftrightarrow> 46 \<in> set s \<or> 101 \<in> set s \<or> 69 \<in> set s"

definition parseVectorDim :: "nat \<Rightarrow> nat parser" where
  "parseVectorDim pos = pbind (acceptOp ''('') (\<lambda>b.
     if \<not> b then failAt pos ''VECTOR requires a dimension''
     else pbind peek (\<lambda>t.
       if tk_kind t \<noteq> tkNumber \<or> hasDotOrExp (tk_s t) then failAt (tk_pos t) ''expected an integer vector dimension''
       else pthen nextTok
         (case ParseInt (tk_s t) of
             None \<Rightarrow> failAt (tk_pos t) ''vector dimension out of range''
           | Some dim \<Rightarrow>
               if sint dim < 1 \<or> int maxVectorDim < sint dim then failAt (tk_pos t) ''vector dimension out of range''
               else pthen (expectOp '')'') (ret (nat (sint dim))))))"

definition typeIn :: "token \<Rightarrow> string list \<Rightarrow> bool" where
  "typeIn t names \<longleftrightarrow> tk_s t \<in> set (map str names)"

definition parseType :: "(Type \<times> bytes \<times> nat) parser" where
  "parseType = pbind peek (\<lambda>t.
     if tk_kind t \<noteq> tkIdent then failAt (tk_pos t) ''expected a type name''
     else pthen nextTok
       (if typeIn t [''int'', ''integer'', ''tinyint'', ''smallint'', ''mediumint'', ''int2'', ''int4''] then ret (TypeInt, str ''INTEGER'', 0)
        else if typeIn t [''bigint'', ''int8''] then ret (TypeInt, str ''BIGINT'', 0)
        else if typeIn t [''double'', ''float8''] then
          pthen (acceptIdent ''precision'') (ret (TypeDouble, str ''DOUBLE PRECISION'', 0))
        else if typeIn t [''real''] then ret (TypeDouble, str ''DOUBLE PRECISION'', 0)
        else if typeIn t [''text'', ''clob''] then ret (TypeText, str ''TEXT'', 0)
        else if typeIn t [''varchar'', ''character'', ''char''] then
          pbind (acceptOp ''('') (\<lambda>b.
            if \<not> b then ret (TypeText, str ''TEXT'', 0)
            else pbind peek (\<lambda>n.
              if tk_kind n \<noteq> tkNumber then failAt (tk_pos n) ''expected length''
              else pthen nextTok (pthen (expectOp '')'') (ret (TypeText, str ''TEXT'', 0)))))
        else if typeIn t [''bool'', ''boolean''] then ret (TypeBool, str ''BOOLEAN'', 0)
        else if typeIn t [''serial'', ''serial2'', ''serial4'', ''serial8'', ''smallserial'', ''bigserial''] then ret (TypeInt, str ''SERIAL'', 0)
        else if typeIn t [''uuid''] then ret (TypeText, str ''UUID'', 0)
        else if typeIn t [''bytea'', ''blob'', ''bytes''] then ret (TypeBytea, str ''BYTEA'', 0)
        else if typeIn t [''timestamp'', ''timestamptz'', ''datetime''] then ret (TypeTimestamp, str ''TIMESTAMP'', 0)
        else if typeIn t [''vector''] then
          pbind (parseVectorDim (tk_pos t)) (\<lambda>dim. ret (TypeVector, str ''VECTOR('' @ digits dim @ str '')'', dim))
        else failAt (tk_pos t) ''unknown type''))"

section \<open>Literals\<close>

definition hexVal :: "byte \<Rightarrow> byte option" where
  "hexVal c = (if 48 \<le> c \<and> c \<le> 57 then Some (c - 48)
     else if 97 \<le> c \<and> c \<le> 102 then Some (c - 87)
     else if 65 \<le> c \<and> c \<le> 70 then Some (c - 55)
     else None)"

text \<open>\<^verbatim>\<open>hex.DecodeString\<close> reports a byte that is no digit before an odd length.\<close>

fun hexPairs :: "bytes \<Rightarrow> bytes" where
  "hexPairs (a # b # cs) = (push_bit 4 (the (hexVal a)) OR the (hexVal b)) # hexPairs cs"
| "hexPairs _ = []"

definition decodeHexLiteral :: "bytes \<Rightarrow> string + bytes" where
  "decodeHexLiteral s =
     (if \<exists>c \<in> set s. hexVal c = None then Inl ''invalid hexadecimal digit''
      else if odd (length s) then Inl ''invalid hexadecimal data''
      else Inr (hexPairs s))"

definition numberLiteral :: "sqlenv \<Rightarrow> token \<Rightarrow> Expr parser" where
  "numberLiteral X t =
     (if \<not> hasDotOrExp (tk_s t)
      then (case ParseInt (tk_s t) of
          None \<Rightarrow> failAt (tk_pos t) ''integer out of range''
        | Some i \<Rightarrow> ret (Literal (intV i) (tk_s t)))
      else (case ParseFloat X 64 (tk_s t) of
          None \<Rightarrow> failAt (tk_pos t) ''bad number''
        | Some f \<Rightarrow> ret (Literal (doubleV f) (tk_s t))))"

section \<open>Expressions\<close>

record parsers =
  pExpr :: "nat \<Rightarrow> Expr parser"
  pUnary :: "Expr parser"
  pSelect :: "Select parser"
  pFrom :: "TableExpr parser"

definition infixPrec :: "nat parser" where
  "infixPrec = pbind peek (\<lambda>t ts.
     let is = (\<lambda>ws. tk_s t \<in> set (map str ws))
     in if tk_kind t = tkKeyword then
          (if is [''OR''] then POk 1 ts
           else if is [''AND''] then POk 2 ts
           else if is [''NOT''] then
             (case ts of
                 _ # n # _ \<Rightarrow> POk (if isTok tkKeyword ''LIKE'' n \<or> isTok tkKeyword ''IN'' n \<or> isTok tkKeyword ''BETWEEN'' n then 4 else 0) ts
               | _ \<Rightarrow> PPanic)
           else if is [''IS'', ''IN'', ''LIKE'', ''BETWEEN''] then POk 4 ts
           else POk 0 ts)
        else if tk_kind t \<noteq> tkOp then POk 0 ts
        else if is [''='', ''!=''] then POk 4 ts
        else if is [''<'', ''<='', ''>'', ''>=''] then POk 5 ts
        else if is [''<->'', ''<#>'', ''<=>''] then POk 6 ts
        else if is [''&'', ''|'', ''^''] then POk 6 ts
        else if is [''+'', ''-''] then POk 7 ts
        else if is [''*'', ''/'', ''%''] then POk 8 ts
        else if is [''||''] then POk 9 ts
        else POk 0 ts)"

definition parseCastSuffix :: "Expr \<Rightarrow> Expr parser" where
  "parseCastSuffix = whileP (\<lambda>e. pbind (acceptOp ''::'') (\<lambda>b.
     if b then pbind parseType (\<lambda>(typ, typeName, dim). ret (Inl (Cast e typ typeName dim))) else ret (Inr e)))"

definition parseCallTail :: "unicode \<Rightarrow> parsers \<Rightarrow> bytes \<Rightarrow> Expr parser" where
  "parseCallTail U P name = pbind (acceptOp ''*'') (\<lambda>star.
     if star then pthen (expectOp '')'') (ret (FuncCall (ToLower U name) [] True))
     else pbind (acceptOp '')'') (\<lambda>close.
       if close then ret (FuncCall (ToLower U name) [] False)
       else pbind (commaList (pExpr P 1)) (\<lambda>args. pthen (expectOp '')'') (ret (FuncCall (ToLower U name) args False)))))"

definition parseExprList :: "parsers \<Rightarrow> Expr list parser" where
  "parseExprList P = pthen (expectOp ''('') (pbind (commaList (pExpr P 1)) (\<lambda>out. pthen (expectOp '')'') (ret out)))"

definition parseParenExpr :: "parsers \<Rightarrow> Expr parser" where
  "parseParenExpr P = pthen (expectOp ''('') (pbind (pExpr P 1) (\<lambda>e. pthen (expectOp '')'') (ret e)))"

definition parseInRHS :: "parsers \<Rightarrow> (Expr list \<times> Select option) parser" where
  "parseInRHS P = pbind (peekIsOp ''('') (\<lambda>paren. pbind (peekAheadKw 1 ''SELECT'') (\<lambda>sel.
     if paren \<and> sel
     then pthen nextTok (pbind (pSelect P) (\<lambda>sub. pthen (expectOp '')'') (ret ([], Some sub))))
     else pbind (parseExprList P) (\<lambda>es. ret (es, None))))"

definition parseBetweenTail :: "parsers \<Rightarrow> Expr \<Rightarrow> bool \<Rightarrow> Expr parser" where
  "parseBetweenTail P x neg = pbind (pExpr P 5) (\<lambda>lo. pthen (expectKw ''AND'') (pbind (pExpr P 5) (\<lambda>hi. ret (Between x lo hi neg))))"

definition parsePrimary :: "unicode \<Rightarrow> sqlenv \<Rightarrow> parsers \<Rightarrow> Expr parser" where
  "parsePrimary U X P = pbind peek (\<lambda>t.
     if tk_kind t = tkNumber then pthen nextTok (numberLiteral X t)
     else if tk_kind t = tkString then pthen nextTok
       (let src = [39] @ doubled 39 (tk_s t) @ [39]
        in if prefix [92, 120] (tk_s t) \<or> prefix [92, 88] (tk_s t)
           then (case decodeHexLiteral (drop 2 (tk_s t)) of
               Inl msg \<Rightarrow> failAt (tk_pos t) msg
             | Inr raw \<Rightarrow> ret (Literal (byteaV raw) src))
           else ret (Literal (textV (tk_s t)) src))
     else if tk_kind t = tkParam then pthen nextTok
       (case ParseInt (tk_s t) of
           None \<Rightarrow> failAt (tk_pos t) ''bad positional parameter''
         | Some n \<Rightarrow> if sint n < 1 then failAt (tk_pos t) ''bad positional parameter'' else ret (Param (nat (sint n))))
     else if tk_kind t = tkKeyword then
       (if tk_s t = str ''NULL'' then pthen nextTok (ret (Literal nullV (str ''NULL'')))
        else if tk_s t = str ''TRUE'' then pthen nextTok (ret (Literal (boolV True) (str ''true'')))
        else if tk_s t = str ''FALSE'' then pthen nextTok (ret (Literal (boolV False) (str ''false'')))
        else if tk_s t = str ''CAST'' then
          pthen nextTok (pthen (expectOp ''('') (pbind (pExpr P 1) (\<lambda>x. pthen (expectKw ''AS'')
            (pbind parseType (\<lambda>(typ, typeName, dim). pthen (expectOp '')'') (ret (Cast x typ typeName dim)))))))
        else pbind (peekAheadIsOp 1 ''('') (\<lambda>paren. pbind (peekAheadKw 2 ''SELECT'') (\<lambda>sel.
          if tk_s t = str ''EXISTS'' \<and> paren \<and> sel
          then pthen nextTok (pthen nextTok (pbind (pSelect P) (\<lambda>sub. pthen (expectOp '')'') (ret (Subquery sub True)))))
          else failAt (tk_pos t) ''unexpected keyword in expression'')))
     else if tk_kind t = tkIdent then
       pthen nextTok (pbind (acceptOp ''('') (\<lambda>call.
         if call then parseCallTail U P (tk_s t)
         else pbind (acceptOp ''.'') (\<lambda>dot.
           if dot then pbind ident (\<lambda>col. ret (ColumnRef (tk_s t) col))
           else ret (ColumnRef [] (tk_s t)))))
     else if isTok tkOp ''('' t then
       pthen nextTok (pbind (peekKw ''SELECT'') (\<lambda>sel.
         if sel then pbind (pSelect P) (\<lambda>sub. pthen (expectOp '')'') (ret (Subquery sub False)))
         else pbind (pExpr P 1) (\<lambda>e. pthen (expectOp '')'') (ret e))))
     else failAt (tk_pos t) ''unexpected token in expression'')"

definition parsePostfix :: "unicode \<Rightarrow> sqlenv \<Rightarrow> parsers \<Rightarrow> Expr parser" where
  "parsePostfix U X P = pbind (parsePrimary U X P) parseCastSuffix"

definition negLiteral :: "Value \<Rightarrow> Value" where
  "negLiteral v = (if v_T v = TypeInt then v\<lparr>v_I := - v_I v\<rparr> else v\<lparr>v_F := fneg (v_F v)\<rparr>)"

text \<open>The sign before an operand that \<^verbatim>\<open>parseUnary\<close> has read.\<close>

definition foldSign :: "bool \<Rightarrow> Expr \<Rightarrow> Expr parser" where
  "foldSign neg x =
     (case x of
         Literal v src \<Rightarrow>
           if isNumeric v then
             (if neg then parseCastSuffix (Literal (negLiteral v) (str ''-'' @ src)) else parseCastSuffix x)
           else if neg then ret (Unary (str ''-'') x) else ret x
       | _ \<Rightarrow> if neg then ret (Unary (str ''-'') x) else ret x)"

definition parseUnary :: "unicode \<Rightarrow> sqlenv \<Rightarrow> parsers \<Rightarrow> Expr parser" where
  "parseUnary U X P = pbind peek (\<lambda>t.
     if isTok tkOp ''-'' t \<or> isTok tkOp ''+'' t then
       pthen nextTok (pbind peek (\<lambda>nt.
         let neg = isTok tkOp ''-'' t;
             folded = (if neg \<and> tk_kind nt = tkNumber \<and> \<not> hasDotOrExp (tk_s nt) then ParseInt (str ''-'' @ tk_s nt) else None)
         in case folded of
             Some i \<Rightarrow> pthen nextTok (parseCastSuffix (Literal (intV i) (str ''-'' @ tk_s nt)))
           | None \<Rightarrow> pbind (pUnary P) (foldSign neg)))
     else if isTok tkKeyword ''NOT'' t then
       pthen nextTok (pbind (pExpr P 4) (\<lambda>x. ret (Unary (str ''NOT'') x)))
     else parsePostfix U X P)"

text \<open>One round of the Pratt loop.\<close>

definition notTail :: "parsers \<Rightarrow> nat \<Rightarrow> Expr \<Rightarrow> Expr parser" where
  "notTail P prec lhs = pbind (acceptKw ''LIKE'') (\<lambda>like.
     if like then pbind (pExpr P (prec + 1)) (\<lambda>rhs. ret (Binary (str ''NOT LIKE'') lhs rhs))
     else pbind (acceptKw ''IN'') (\<lambda>isIn.
       if isIn then pbind (parseInRHS P) (\<lambda>(items, sub). ret (InList lhs items sub True))
       else pbind (acceptKw ''BETWEEN'') (\<lambda>btw.
         if btw then parseBetweenTail P lhs True
         else pbind peek (\<lambda>t. failAt (tk_pos t) ''expected LIKE, IN or BETWEEN after NOT''))))"

definition isTail :: "Expr \<Rightarrow> Expr parser" where
  "isTail lhs = pbind (acceptKw ''NOT'') (\<lambda>neg. pthen (expectKw ''NULL'') (ret (IsNullE lhs neg)))"

definition infixTail :: "parsers \<Rightarrow> nat \<Rightarrow> token \<Rightarrow> Expr \<Rightarrow> Expr parser" where
  "infixTail P prec t lhs =
     (if isTok tkKeyword ''IS'' t then isTail lhs
      else if isTok tkKeyword ''NOT'' t then notTail P prec lhs
      else if isTok tkKeyword ''IN'' t then pbind (parseInRHS P) (\<lambda>(items, sub). ret (InList lhs items sub False))
      else if isTok tkKeyword ''BETWEEN'' t then parseBetweenTail P lhs False
      else pbind (pExpr P (prec + 1)) (\<lambda>rhs. ret (Binary (tk_s t) lhs rhs)))"

definition prattStep :: "parsers \<Rightarrow> nat \<Rightarrow> Expr \<Rightarrow> (Expr + Expr) parser" where
  "prattStep P minPrec lhs = pbind infixPrec (\<lambda>prec.
     if prec = 0 \<or> prec < minPrec then ret (Inr lhs)
     else pbind nextTok (\<lambda>t. pbind (infixTail P prec t lhs) (\<lambda>e. ret (Inl e))))"

definition parseExpr :: "unicode \<Rightarrow> sqlenv \<Rightarrow> parsers \<Rightarrow> nat \<Rightarrow> Expr parser" where
  "parseExpr U X P minPrec = pbind (parseUnary U X P) (whileP (prattStep P minPrec))"

end
