(* ===== verification/SQL_Statement.thy ===== *)
theory SQL_Statement
  imports SQL_Parser
begin

text \<open>
  The statements of the SQL engine: FROM clauses (\<^verbatim>\<open>join.go\<close>), queries, INSERT, UPDATE, DELETE and the
  definitions of tables and indexes (\<^verbatim>\<open>parser.go\<close>), ALTER (\<^verbatim>\<open>alter.go\<close>) and SHOW (\<^verbatim>\<open>show.go\<close>);
  \<^verbatim>\<open>parserAt\<close> ties the recursive functions together, one level per token, and
  \<^verbatim>\<open>ParseStatements\<close> and \<^verbatim>\<open>parseExprText\<close> (\<^verbatim>\<open>dml.go\<close>) are the entry points.
\<close>

section \<open>FROM\<close>

definition joinWords :: "bytes set" where
  "joinWords = set (map str [''join'', ''left'', ''right'', ''full'', ''inner'', ''cross'', ''outer'', ''natural'', ''using'', ''lateral''])"

definition parseMaybeAlias :: "bytes parser" where
  "parseMaybeAlias = pbind (acceptKw ''AS'') (\<lambda>b.
     if b then ident
     else pbind peek (\<lambda>t. if tk_kind t = tkIdent \<and> tk_s t \<notin> joinWords then pthen nextTok (ret (tk_s t)) else ret []))"

definition parseTableRef :: "(bytes \<times> bytes) parser" where
  "parseTableRef = pbind ident (\<lambda>table. pbind parseMaybeAlias (\<lambda>alias. ret (table, alias)))"

definition parseTablePrimary :: "parsers \<Rightarrow> TableExpr parser" where
  "parseTablePrimary P = pbind peek (\<lambda>t. pbind (peekAheadIsOp 1 ''('') (\<lambda>paren. pbind (peekAheadKw 2 ''SELECT'') (\<lambda>sel.
     let lateral = isTok tkIdent ''lateral'' t \<and> paren \<and> sel
     in pbind (if lateral then pthen nextTok (ret ()) else ret ()) (\<lambda>_.
       pbind (acceptOp ''('') (\<lambda>b.
         if b then pbind (peekKw ''SELECT'') (\<lambda>isSel.
           if isSel then
             pbind (pSelect P) (\<lambda>sub. pthen (expectOp '')'') (pbind parseMaybeAlias (\<lambda>alias. ret (SubqueryRef sub alias lateral))))
           else pbind (pFrom P) (\<lambda>te. pthen (expectOp '')'') (pbind peek (\<lambda>t.
             if tk_kind t = tkIdent \<and> tk_s t \<notin> joinWords then failAt (tk_pos t) ''aliasing a parenthesized join is not supported''
             else ret te))))
         else pbind parseTableRef (\<lambda>(tbl, alias). ret (TableRef tbl alias)))))))"

definition needJoin :: "string \<Rightarrow> bytes option parser" where
  "needJoin kind = pbind (acceptIdent ''join'') (\<lambda>b.
     if b then ret (Some (str kind)) else pbind peek (\<lambda>t. failAt (tk_pos t) ''expected JOIN''))"

text \<open>No introducer is \<open>None\<close>.\<close>

definition parseJoinIntro :: "bool \<Rightarrow> bytes option parser" where
  "parseJoinIntro natural = pbind peek (\<lambda>t.
     if tk_kind t \<noteq> tkIdent then (if natural then failAt (tk_pos t) ''expected a JOIN after NATURAL'' else ret None)
     else if tk_s t = str ''join'' then pthen nextTok (ret (Some (str ''INNER'')))
     else if tk_s t = str ''inner'' then pthen nextTok (needJoin ''INNER'')
     else if tk_s t \<in> set (map str [''left'', ''right'', ''full'']) then
       pthen nextTok (pthen (acceptIdent ''outer'')
         (if tk_s t = str ''left'' then needJoin ''LEFT'' else if tk_s t = str ''right'' then needJoin ''RIGHT'' else needJoin ''FULL''))
     else if tk_s t = str ''cross'' then
       (if natural then failAt (tk_pos t) ''NATURAL CROSS JOIN is not a thing'' else pthen nextTok (needJoin ''CROSS''))
     else if natural then failAt (tk_pos t) ''expected a JOIN after NATURAL''
     else ret None)"

definition joinTail :: "parsers \<Rightarrow> TableExpr \<Rightarrow> bool \<Rightarrow> bytes \<Rightarrow> TableExpr parser" where
  "joinTail P left natural jt = pbind (parseTablePrimary P) (\<lambda>right.
     if jt = str ''CROSS'' \<or> natural then ret (JoinExpr jt left right None [] natural)
     else pbind (acceptKw ''ON'') (\<lambda>b.
       if b then pbind (pExpr P 1) (\<lambda>e. ret (JoinExpr jt left right (Some e) [] natural))
       else pbind (acceptIdent ''using'') (\<lambda>c.
         if c then pthen (expectOp ''('') (pbind (commaList ident) (\<lambda>cols. pthen (expectOp '')'') (ret (JoinExpr jt left right None cols natural))))
         else pbind peek (\<lambda>t. failAt (tk_pos t) ''expected ON or USING after JOIN''))))"

definition fromStep :: "parsers \<Rightarrow> TableExpr \<Rightarrow> (TableExpr + TableExpr) parser" where
  "fromStep P left = pbind (acceptOp '','') (\<lambda>b.
     if b then pbind (parseTablePrimary P) (\<lambda>right. ret (Inl (JoinExpr (str ''CROSS'') left right None [] False)))
     else pbind (acceptIdent ''natural'') (\<lambda>natural. pbind (parseJoinIntro natural) (\<lambda>intro.
       case intro of
           None \<Rightarrow> ret (Inr left)
         | Some jt \<Rightarrow> pbind (joinTail P left natural jt) (\<lambda>j. ret (Inl j)))))"

definition parseFromClause :: "parsers \<Rightarrow> TableExpr parser" where
  "parseFromClause P = pbind (parseTablePrimary P) (whileP (fromStep P))"

section \<open>SELECT\<close>

definition selectItem :: "parsers \<Rightarrow> SelectItem parser" where
  "selectItem P = pbind (acceptOp ''*'') (\<lambda>b.
     if b then ret Star
     else pbind (pExpr P 1) (\<lambda>e. pbind (acceptKw ''AS'') (\<lambda>as.
       if as then pbind identLabel (\<lambda>a. ret (Item e a))
       else pbind peek (\<lambda>t. if tk_kind t = tkIdent then pthen nextTok (ret (Item e (labelOf t))) else ret (Item e [])))))"

definition parseSelectItems :: "parsers \<Rightarrow> SelectItem list parser" where
  "parseSelectItems P = commaList (selectItem P)"

definition optClause :: "string \<Rightarrow> 'a parser \<Rightarrow> 'a option parser" where
  "optClause kw p = pbind (acceptKw kw) (\<lambda>b. if b then pbind p (\<lambda>x. ret (Some x)) else ret None)"

definition parseSelectCore :: "parsers \<Rightarrow> SelectCore parser" where
  "parseSelectCore P = pthen (expectKw ''SELECT'') (pbind (acceptKw ''DISTINCT'') (\<lambda>distinct.
     pbind (if distinct then ret False else acceptKw ''ALL'') (\<lambda>_.
     pbind (parseSelectItems P) (\<lambda>items.
     pbind (optClause ''FROM'' (parseFromClause P)) (\<lambda>from.
     pbind (optClause ''WHERE'' (pExpr P 1)) (\<lambda>cond.
     pbind (optClause ''GROUP'' (pthen (expectKw ''BY'') (commaList (pExpr P 1)))) (\<lambda>groupBy.
     let gs = (case groupBy of None \<Rightarrow> [] | Some es \<Rightarrow> es)
     in ret (case from of
         None \<Rightarrow> SelectCore distinct items [] [] None cond gs
       | Some (TableRef t a) \<Rightarrow> SelectCore distinct items t a None cond gs
       | Some te \<Rightarrow> SelectCore distinct items [] [] (Some te) cond gs))))))))"

definition orderKey :: "parsers \<Rightarrow> (Expr \<times> bool) parser" where
  "orderKey P = pbind (pExpr P 1) (\<lambda>e. pbind (acceptKw ''DESC'') (\<lambda>desc.
     pbind (if desc then ret False else acceptKw ''ASC'') (\<lambda>_. ret (e, desc))))"

definition unionStep :: "parsers \<Rightarrow> (bool \<times> SelectCore) list \<Rightarrow> ((bool \<times> SelectCore) list + (bool \<times> SelectCore) list) parser" where
  "unionStep P arms = pbind (acceptKw ''UNION'') (\<lambda>b.
     if b then pbind (acceptKw ''ALL'') (\<lambda>all. pbind (parseSelectCore P) (\<lambda>arm. ret (Inl (arms @ [(all, arm)]))))
     else ret (Inr arms))"

definition parseSelect :: "parsers \<Rightarrow> Select parser" where
  "parseSelect P = pbind (parseSelectCore P) (\<lambda>core.
     pbind (whileP (unionStep P) []) (\<lambda>unions.
     pbind (optClause ''ORDER'' (pthen (expectKw ''BY'') (commaList (orderKey P)))) (\<lambda>orderBy.
     pbind (optClause ''LIMIT'' (pExpr P 1)) (\<lambda>limit.
     pbind (optClause ''OFFSET'' (pExpr P 1)) (\<lambda>offset.
     ret (Select core unions (case orderBy of None \<Rightarrow> [] | Some ks \<Rightarrow> ks) limit offset))))))"

section \<open>Definitions of tables and indexes\<close>

definition acceptAscDesc :: "bool parser" where
  "acceptAscDesc = pbind (acceptKw ''DESC'') (\<lambda>b. if b then ret True else acceptKw ''ASC'')"

text \<open>The loop of a list of distinct names; \<^verbatim>\<open>dirs\<close> tells that a direction may follow.\<close>

definition identStep :: "bool \<Rightarrow> string \<Rightarrow> bytes list \<Rightarrow> (bytes list + bytes list) parser" where
  "identStep dirs msg out = pbind ident (\<lambda>id.
     if id \<in> set out then fail msg
     else pbind (if dirs then acceptAscDesc else ret False) (\<lambda>_. pbind (acceptOp '','') (\<lambda>b.
       ret (if b then Inl (out @ [id]) else Inr (out @ [id])))))"

definition parseIdentList :: "bytes list parser" where
  "parseIdentList = pthen (expectOp ''('') (pbind (whileP (identStep True ''column appears twice in constraint'') []) (\<lambda>out.
     pthen (expectOp '')'') (ret out)))"

definition newColumn :: "bytes \<Rightarrow> ColumnDef" where
  "newColumn name = \<lparr>cd_Name = name, cd_Type = TypeAny, cd_TypeName = [], cd_Dim = 0, cd_NotNull = False,
     cd_PrimaryKey = False, cd_Unique = False, cd_Auto = False, cd_Default = None\<rparr>"

definition columnType :: "ColumnDef \<Rightarrow> ColumnDef parser" where
  "columnType col = pbind peek (\<lambda>t.
     if tk_kind t \<noteq> tkIdent then ret col
     else pbind parseType (\<lambda>(typ, typeName, dim).
       let col = col\<lparr>cd_Type := typ, cd_TypeName := typeName, cd_Dim := dim\<rparr>
       in ret (if typeName = str ''SERIAL'' then col\<lparr>cd_TypeName := str ''INTEGER'', cd_Auto := True\<rparr> else col)))"

definition columnStep :: "parsers \<Rightarrow> ColumnDef \<times> Expr list \<Rightarrow> (ColumnDef \<times> Expr list + ColumnDef \<times> Expr list) parser" where
  "columnStep P s = (case s of (col, checks) \<Rightarrow> pbind peek (\<lambda>t.
     if isTok tkIdent ''auto_increment'' t \<or> isTok tkIdent ''autoincrement'' t then
       pthen nextTok (if cd_Auto col then fail ''AUTO_INCREMENT specified twice'' else ret (Inl (col\<lparr>cd_Auto := True\<rparr>, checks)))
     else if isTok tkKeyword ''NOT'' t then
       pthen nextTok (pthen (expectKw ''NULL'')
         (if cd_NotNull col then fail ''NOT NULL specified twice'' else ret (Inl (col\<lparr>cd_NotNull := True\<rparr>, checks))))
     else if isTok tkKeyword ''NULL'' t then pthen nextTok (ret (Inl (col, checks)))
     else if isTok tkKeyword ''PRIMARY'' t then
       pthen nextTok (pthen (expectKw ''KEY'')
         (if cd_PrimaryKey col then fail ''PRIMARY KEY specified twice''
          else pthen acceptAscDesc (ret (Inl (col\<lparr>cd_PrimaryKey := True\<rparr>, checks)))))
     else if isTok tkKeyword ''UNIQUE'' t then pthen nextTok (ret (Inl (col\<lparr>cd_Unique := True\<rparr>, checks)))
     else if isTok tkKeyword ''DEFAULT'' t then
       pthen nextTok (pbind (pExpr P 5) (\<lambda>e. ret (Inl (col\<lparr>cd_Default := Some e\<rparr>, checks))))
     else if isTok tkKeyword ''CHECK'' t then
       pthen nextTok (pbind (parseParenExpr P) (\<lambda>e. ret (Inl (col, checks @ [e]))))
     else ret (Inr (col, checks))))"

definition parseTableItem :: "parsers \<Rightarrow> CreateTable \<Rightarrow> CreateTable parser" where
  "parseTableItem P st = pbind (acceptKw ''CONSTRAINT'') (\<lambda>named.
     pbind (if named then ident else ret []) (\<lambda>_. pbind peek (\<lambda>t.
     if isTok tkKeyword ''PRIMARY'' t then
       pthen nextTok (pthen (expectKw ''KEY'') (pbind parseIdentList (\<lambda>cols.
         if ct_PrimaryKey st \<noteq> [] then fail ''multiple PRIMARY KEY constraints'' else ret (st\<lparr>ct_PrimaryKey := cols\<rparr>))))
     else if isTok tkKeyword ''UNIQUE'' t then
       pthen nextTok (pbind parseIdentList (\<lambda>cols. ret (st\<lparr>ct_Uniques := ct_Uniques st @ [cols]\<rparr>)))
     else if isTok tkKeyword ''CHECK'' t then
       pthen nextTok (pbind (parseParenExpr P) (\<lambda>e. ret (st\<lparr>ct_Checks := ct_Checks st @ [e]\<rparr>)))
     else pbind ident (\<lambda>name. pbind (columnType (newColumn name)) (\<lambda>col.
       pbind (whileP (columnStep P) (col, [])) (\<lambda>(col, checks).
         ret (st\<lparr>ct_Columns := ct_Columns st @ [col], ct_Checks := ct_Checks st @ checks\<rparr>)))))))"

text \<open>\<^verbatim>\<open>IF [NOT] EXISTS\<close>\<close>

definition ifNotExists :: "bool parser" where
  "ifNotExists = pbind (acceptKw ''IF'') (\<lambda>b. if b then pthen (expectKw ''NOT'') (pthen (expectKw ''EXISTS'') (ret True)) else ret False)"

definition ifExists :: "bool parser" where
  "ifExists = pbind (acceptKw ''IF'') (\<lambda>b. if b then pthen (expectKw ''EXISTS'') (ret True) else ret False)"

definition parseCreateTable :: "parsers \<Rightarrow> Statement parser" where
  "parseCreateTable P = pbind ifNotExists (\<lambda>ine. pbind ident (\<lambda>name. pthen (expectOp ''('')
     (pbind (whileP (\<lambda>st. pbind (parseTableItem P st) (\<lambda>st'. pbind (acceptOp '','') (\<lambda>b. ret (if b then Inl st' else Inr st'))))
        \<lparr>ct_Name = name, ct_IfNotExists = ine, ct_Columns = [], ct_PrimaryKey = [], ct_Uniques = [], ct_Checks = []\<rparr>) (\<lambda>st.
     pthen (expectOp '')'') (ret (SCreateTable st))))))"

definition parseCreateIndex :: "bool \<Rightarrow> Statement parser" where
  "parseCreateIndex unique = pbind ifNotExists (\<lambda>ine. pbind (peekKw ''ON'') (\<lambda>on.
     if on \<and> ine then fail ''IF NOT EXISTS requires an explicit index name''
     else pbind (if on then ret [] else ident) (\<lambda>name. pthen (expectKw ''ON'') (pbind ident (\<lambda>tbl. pbind parseIdentList (\<lambda>cols.
       ret (SCreateIndex \<lparr>ci_Name = name, ci_Table = tbl, ci_Columns = cols, ci_Unique = unique, ci_IfNotExists = ine\<rparr>)))))))"

definition parseCreate :: "parsers \<Rightarrow> Statement parser" where
  "parseCreate P = pthen nextTok (pbind (acceptKw ''TABLE'') (\<lambda>table.
     if table then parseCreateTable P
     else pbind (acceptKw ''UNIQUE'') (\<lambda>unique.
       if unique then pthen (expectKw ''INDEX'') (parseCreateIndex True)
       else pbind (acceptKw ''INDEX'') (\<lambda>index.
         if index then parseCreateIndex False
         else pbind peek (\<lambda>t. failAt (tk_pos t) ''expected TABLE or INDEX after CREATE'')))))"

definition parseDrop :: "Statement parser" where
  "parseDrop = pthen nextTok (pbind (acceptKw ''TABLE'') (\<lambda>table.
     if table then pbind ifExists (\<lambda>ie. pbind ident (\<lambda>name. ret (SDropTable name ie)))
     else pbind (acceptKw ''INDEX'') (\<lambda>index.
       if index then pbind ifExists (\<lambda>ie. pbind ident (\<lambda>name. ret (SDropIndex name ie)))
       else pbind peek (\<lambda>t. failAt (tk_pos t) ''expected TABLE or INDEX after DROP''))))"

section \<open>INSERT, UPDATE, DELETE\<close>

definition rowStep :: "parsers \<Rightarrow> Expr list \<Rightarrow> (Expr list + Expr list) parser" where
  "rowStep P row = pbind (pExpr P 1) (\<lambda>e. pbind (acceptOp '','') (\<lambda>b.
     if b then pbind (peekIsOp '')'') (\<lambda>close. ret (if close then Inr (row @ [e]) else Inl (row @ [e])))
     else ret (Inr (row @ [e]))))"

definition valuesRow :: "parsers \<Rightarrow> Expr list parser" where
  "valuesRow P = pthen (expectOp ''('') (pbind (whileP (rowStep P) []) (\<lambda>row. pthen (expectOp '')'') (ret row)))"

definition insertSource :: "parsers \<Rightarrow> Insert \<Rightarrow> Insert parser" where
  "insertSource P st = pbind (acceptKw ''VALUES'') (\<lambda>values.
     if values then pbind (commaList (valuesRow P)) (\<lambda>rows. ret (st\<lparr>ins_Rows := rows\<rparr>))
     else pbind (peekKw ''SELECT'') (\<lambda>sel.
       if sel then pbind (pSelect P) (\<lambda>s. ret (st\<lparr>ins_Select := Some s\<rparr>))
       else pbind peek (\<lambda>t. failAt (tk_pos t) ''expected VALUES or SELECT'')))"

definition onConflict :: "bytes parser" where
  "onConflict = pbind (acceptKw ''ON'') (\<lambda>b.
     if \<not> b then ret []
     else pthen (expectKw ''CONFLICT'') (pthen (expectKw ''DO'') (pbind (acceptKw ''NOTHING'') (\<lambda>nothing.
       if nothing then ret (str ''NOTHING'')
       else pbind (acceptKw ''REPLACE'') (\<lambda>replace.
         if replace then ret (str ''REPLACE'')
         else pbind peek (\<lambda>t. failAt (tk_pos t) ''expected NOTHING or REPLACE after DO''))))))"

definition parseInsert :: "parsers \<Rightarrow> Statement parser" where
  "parseInsert P = pthen nextTok (pthen (expectKw ''INTO'') (pbind ident (\<lambda>tbl. pbind (acceptOp ''('') (\<lambda>paren.
     pbind (if paren then pbind (whileP (identStep False ''column specified twice'') []) (\<lambda>cols. pthen (expectOp '')'') (ret cols)) else ret []) (\<lambda>cols.
     pbind (insertSource P \<lparr>ins_Table = tbl, ins_Columns = cols, ins_Rows = [], ins_Select = None, ins_Returning = [], ins_OnConflict = []\<rparr>) (\<lambda>st.
     pbind onConflict (\<lambda>oc.
     pbind (optClause ''RETURNING'' (parseSelectItems P)) (\<lambda>r.
     ret (SInsert (st\<lparr>ins_OnConflict := oc, ins_Returning := (case r of None \<Rightarrow> [] | Some items \<Rightarrow> items)\<rparr>))))))))))"

definition assignment :: "parsers \<Rightarrow> (bytes \<times> Expr) parser" where
  "assignment P = pbind ident (\<lambda>col. pthen (expectOp ''='') (pbind (pExpr P 1) (\<lambda>e. ret (col, e))))"

definition parseUpdate :: "parsers \<Rightarrow> Statement parser" where
  "parseUpdate P = pthen nextTok (pbind ident (\<lambda>tbl. pthen (expectKw ''SET'') (pbind (commaList (assignment P)) (\<lambda>sets.
     pbind (optClause ''WHERE'' (pExpr P 1)) (\<lambda>w. ret (SUpdate tbl sets w))))))"

definition parseDelete :: "parsers \<Rightarrow> Statement parser" where
  "parseDelete P = pthen nextTok (pthen (expectKw ''FROM'') (pbind ident (\<lambda>tbl.
     pbind (optClause ''WHERE'' (pExpr P 1)) (\<lambda>w. ret (SDelete tbl w)))))"

section \<open>SHOW and ALTER\<close>

definition parseDescribe :: "Statement parser" where
  "parseDescribe = pbind ident (\<lambda>name. ret (SShow (str ''columns'') name))"

definition parseShow :: "Statement parser" where
  "parseShow = pthen nextTok (pbind peek (\<lambda>t.
     if isTok tkIdent ''tables'' t then pthen nextTok (ret (SShow (str ''tables'') []))
     else if isTok tkIdent ''databases'' t then pthen nextTok (ret (SShow (str ''databases'') []))
     else if isTok tkIdent ''columns'' t then
       pthen nextTok (pthen (expectKw ''FROM'') (pbind ident (\<lambda>name. ret (SShow (str ''columns'') name))))
     else if isTok tkIdent ''indexes'' t \<or> isTok tkIdent ''index'' t then
       pthen nextTok (pbind (optClause ''FROM'' ident) (\<lambda>name. ret (SShow (str ''indexes'') (case name of None \<Rightarrow> [] | Some n \<Rightarrow> n))))
     else if isTok tkKeyword ''CREATE'' t then
       pthen nextTok (pthen (expectKw ''TABLE'') (pbind ident (\<lambda>name. ret (SShow (str ''create'') name))))
     else failAt (tk_pos t) ''expected TABLES, DATABASES, COLUMNS FROM, INDEXES or CREATE TABLE after SHOW''))"

definition alterColumnStep :: "parsers \<Rightarrow> ColumnDef \<Rightarrow> (ColumnDef + ColumnDef) parser" where
  "alterColumnStep P col = pbind peek (\<lambda>t.
     if isTok tkKeyword ''NOT'' t then pthen nextTok (pthen (expectKw ''NULL'') (ret (Inl (col\<lparr>cd_NotNull := True\<rparr>))))
     else if isTok tkKeyword ''NULL'' t then pthen nextTok (ret (Inl col))
     else if isTok tkKeyword ''DEFAULT'' t then pthen nextTok (pbind (pExpr P 5) (\<lambda>e. ret (Inl (col\<lparr>cd_Default := Some e\<rparr>))))
     else if isTok tkKeyword ''PRIMARY'' t \<or> isTok tkKeyword ''UNIQUE'' t \<or> isTok tkKeyword ''CHECK'' t
     then fail ''ADD COLUMN takes only NOT NULL and DEFAULT''
     else ret (Inr col))"

definition parseAlterColumnDef :: "parsers \<Rightarrow> ColumnDef parser" where
  "parseAlterColumnDef P = pbind ident (\<lambda>name. pbind peek (\<lambda>t.
     pbind (if tk_kind t \<noteq> tkIdent then ret (newColumn name)
       else pbind parseType (\<lambda>(typ, typeName, dim).
         if typeName = str ''SERIAL'' then fail ''cannot ADD an auto-increment column''
         else ret ((newColumn name)\<lparr>cd_Type := typ, cd_TypeName := typeName, cd_Dim := dim\<rparr>)))
       (whileP (alterColumnStep P))))"

definition parseAlter :: "parsers \<Rightarrow> Statement parser" where
  "parseAlter P = pthen nextTok (pthen (expectKw ''TABLE'') (pbind ident (\<lambda>name.
     let al = \<lparr>al_Table = name, al_Op = [], al_Col = newColumn [], al_Name = [], al_NewName = []\<rparr>
     in pbind (acceptIdent ''add'') (\<lambda>add.
       if add then pthen (acceptIdent ''column'') (pbind (parseAlterColumnDef P) (\<lambda>col.
         ret (SAlter (al\<lparr>al_Op := str ''add'', al_Col := col\<rparr>))))
       else pbind (acceptKw ''DROP'') (\<lambda>dropped.
         if dropped then pthen (acceptIdent ''column'') (pbind ident (\<lambda>cn. ret (SAlter (al\<lparr>al_Op := str ''drop'', al_Name := cn\<rparr>))))
         else pbind (acceptIdent ''rename'') (\<lambda>rename.
           if rename then pbind (acceptIdent ''to'') (\<lambda>to.
             if to then pbind ident (\<lambda>nn. ret (SAlter (al\<lparr>al_Op := str ''rename_table'', al_NewName := nn\<rparr>)))
             else pthen (acceptIdent ''column'') (pbind ident (\<lambda>old. pbind (acceptIdent ''to'') (\<lambda>to.
               if to then pbind ident (\<lambda>nn. ret (SAlter (al\<lparr>al_Op := str ''rename_column'', al_Name := old, al_NewName := nn\<rparr>)))
               else pbind peek (\<lambda>t. failAt (tk_pos t) ''expected TO'')))))
           else pbind peek (\<lambda>t. failAt (tk_pos t) ''expected ADD, DROP or RENAME after ALTER TABLE'')))))))"

section \<open>Statements\<close>

definition parseStatement :: "parsers \<Rightarrow> Statement parser" where
  "parseStatement P = pbind peek (\<lambda>t.
     if isTok tkIdent ''show'' t then parseShow
     else if isTok tkIdent ''describe'' t then pthen nextTok parseDescribe
     else if isTok tkIdent ''alter'' t then parseAlter P
     else if tk_kind t \<noteq> tkKeyword then failAt (tk_pos t) ''expected a statement''
     else if tk_s t = str ''DESC'' then pthen nextTok parseDescribe
     else if tk_s t = str ''SELECT'' then pbind (parseSelect P) (\<lambda>s. ret (SSelect s))
     else if tk_s t = str ''INSERT'' then parseInsert P
     else if tk_s t = str ''UPDATE'' then parseUpdate P
     else if tk_s t = str ''DELETE'' then parseDelete P
     else if tk_s t = str ''CREATE'' then parseCreate P
     else if tk_s t = str ''DROP'' then parseDrop
     else if tk_s t \<in> set (map str [''BEGIN'', ''COMMIT'', ''ROLLBACK'']) then
       pthen nextTok (pthen (acceptKw ''TRANSACTION'') (ret (STx (tk_s t))))
     else failAt (tk_pos t) ''unsupported statement'')"

primrec parserAt :: "unicode \<Rightarrow> sqlenv \<Rightarrow> nat \<Rightarrow> parsers" where
  "parserAt U X 0 = \<lparr>pExpr = \<lambda>m ts. PFuel, pUnary = \<lambda>ts. PFuel, pSelect = \<lambda>ts. PFuel, pFrom = \<lambda>ts. PFuel\<rparr>"
| "parserAt U X (Suc n) = \<lparr>pExpr = parseExpr U X (parserAt U X n), pUnary = parseUnary U X (parserAt U X n),
     pSelect = parseSelect (parserAt U X n), pFrom = parseFromClause (parserAt U X n)\<rparr>"

definition skipSemis :: "unit parser" where
  "skipSemis = whileP (\<lambda>_. pbind (acceptOp '';'') (\<lambda>b. ret (if b then Inl () else Inr ()))) ()"

definition statementStep :: "parsers \<Rightarrow> Statement list \<Rightarrow> (Statement list + Statement list) parser" where
  "statementStep P out = pthen skipSemis (pbind peek (\<lambda>t.
     if tk_kind t = tkEOF then ret (Inr out)
     else pbind (parseStatement P) (\<lambda>st. pbind (acceptOp '';'') (\<lambda>b. pbind peek (\<lambda>t.
       if \<not> b \<and> tk_kind t \<noteq> tkEOF then failAt (tk_pos t) ''expected EOF'' else ret (Inl (out @ [st])))))))"

definition parseTokens :: "unicode \<Rightarrow> sqlenv \<Rightarrow> Statement list parser" where
  "parseTokens U X = (\<lambda>ts. whileP (statementStep (parserAt U X (length ts))) [] ts)"

text \<open>\<open>None\<close>: the token loop does not return.\<close>

definition ParseStatements :: "unicode \<Rightarrow> sqlenv \<Rightarrow> bytes \<Rightarrow> Statement list presult option" where
  "ParseStatements U X src = (case lexAll U src of
     None \<Rightarrow> None
   | Some (Inl (pos, msg)) \<Rightarrow> Some (PErr (Some pos) msg)
   | Some (Inr toks) \<Rightarrow> Some (parseTokens U X toks))"

definition parseExprText :: "unicode \<Rightarrow> sqlenv \<Rightarrow> bytes \<Rightarrow> (string + Expr) option" where
  "parseExprText U X text = (case ParseStatements U X (str ''SELECT '' @ text) of
     None \<Rightarrow> None
   | Some (POk stmts ts) \<Rightarrow> (case stmts of
         [] \<Rightarrow> None
       | SSelect (Select (SelectCore d [Item e alias] tbl al from w g) us os l off) # _ \<Rightarrow> Some (Inr e)
       | _ \<Rightarrow> Some (Inl ''not an expression''))
   | Some (PErr pos msg) \<Rightarrow> Some (Inl msg)
   | Some PPanic \<Rightarrow> None
   | Some PFuel \<Rightarrow> None)"

end
