(* ===== verification/SQL_Eval.thy ===== *)
theory SQL_Eval
  imports SQL_Statement
begin

text \<open>
  Evaluation of expressions against a row (\<^verbatim>\<open>pkg/service/sql/eval.go\<close>), the vector operators
  (\<^verbatim>\<open>vector.go\<close>) and the enforcement of CHECK constraints (\<^verbatim>\<open>dml.go\<close>). A row maps names to values; the nil
  row is \<open>None\<close>.
\<close>

type_synonym row = "bytes \<Rightarrow> Value option"

definition sbind :: "'e + 'a \<Rightarrow> ('a \<Rightarrow> 'e + 'b) \<Rightarrow> 'e + 'b" where
  "sbind m f = (case m of Inl e \<Rightarrow> Inl e | Inr x \<Rightarrow> f x)"

lemma sbind_simps [simp]: "sbind (Inl e) f = Inl e" "sbind (Inr x) f = f x"
  by (simp_all add: sbind_def)

section \<open>Vectors\<close>

definition asVector :: "sqlenv \<Rightarrow> Value \<Rightarrow> string + f32 list" where
  "asVector X v = (if v_T v = TypeVector then Inr (v_Vec v)
     else if v_T v = TypeText then parseVectorText X (v_S v)
     else Inl ''expected a vector'')"

definition checkSameDims :: "f32 list \<Rightarrow> f32 list \<Rightarrow> string + unit" where
  "checkSameDims a b = (if length a \<noteq> length b then Inl ''vector dimension mismatch'' else Inr ())"

definition vecL2Distance :: "sqlenv \<Rightarrow> f32 list \<Rightarrow> f32 list \<Rightarrow> f64" where
  "vecL2Distance X a b = fsqrt X (foldl (\<lambda>sum (x, y). let d = fsub X (widen X x) (widen X y) in fadd X sum (fmul X d d)) 0 (zip a b))"

definition vecInnerProduct :: "sqlenv \<Rightarrow> f32 list \<Rightarrow> f32 list \<Rightarrow> f64" where
  "vecInnerProduct X a b = foldl (\<lambda>sum (x, y). fadd X sum (fmul X (widen X x) (widen X y))) 0 (zip a b)"

definition vecL2Norm :: "sqlenv \<Rightarrow> f32 list \<Rightarrow> f64" where
  "vecL2Norm X a = fsqrt X (foldl (\<lambda>sum x. fadd X sum (fmul X (widen X x) (widen X x))) 0 a)"

text \<open>1.0 and -1.0\<close>

definition f1 :: f64 where "f1 = 0x3FF0000000000000"
definition fm1 :: f64 where "fm1 = 0xBFF0000000000000"

definition vecCosineDistance :: "sqlenv \<Rightarrow> f32 list \<Rightarrow> f32 list \<Rightarrow> string + f64" where
  "vecCosineDistance X a b =
     (let dot = vecInnerProduct X a b; na = vecInnerProduct X a a; nb = vecInnerProduct X b b
      in if feq na 0 \<or> feq nb 0 then Inl ''cosine distance is not defined for zero-magnitude vectors''
         else let sim = fdiv X dot (fsqrt X (fmul X na nb));
                  sim = (if fless f1 sim then f1 else if fless sim fm1 then fm1 else sim)
              in Inr (fsub X f1 sim))"

definition isDistanceOp :: "bytes \<Rightarrow> bool" where
  "isDistanceOp op \<longleftrightarrow> op \<in> set (map str [''<->'', ''<#>'', ''<=>''])"

definition evalVectorDistance :: "sqlenv \<Rightarrow> bytes \<Rightarrow> Value \<Rightarrow> Value \<Rightarrow> string + Value" where
  "evalVectorDistance X op l r =
     (if IsNull l \<or> IsNull r then Inr nullV
      else sbind (asVector X l) (\<lambda>a. sbind (asVector X r) (\<lambda>b. sbind (checkSameDims a b) (\<lambda>_.
        if op = str ''<->'' then Inr (doubleV (vecL2Distance X a b))
        else if op = str ''<#>'' then Inr (doubleV (fneg (vecInnerProduct X a b)))
        else if op = str ''<=>'' then sbind (vecCosineDistance X a b) (\<lambda>d. Inr (doubleV d))
        else Inl ''unknown vector operator''))))"

definition isVectorFuncName :: "bytes \<Rightarrow> bool" where
  "isVectorFuncName name \<longleftrightarrow> name \<in> set (map str [''vector_dims'', ''l2_distance'', ''inner_product'', ''cosine_distance'', ''l2_norm''])"

definition evalVectorFunc :: "sqlenv \<Rightarrow> bytes \<Rightarrow> Value list \<Rightarrow> string + Value" where
  "evalVectorFunc X name args =
     (if name = str ''vector_dims'' \<or> name = str ''l2_norm'' then
        (case args of
            [x] \<Rightarrow> if IsNull x then Inr nullV
              else sbind (asVector X x) (\<lambda>v. Inr (if name = str ''vector_dims'' then intV (of_nat (length v)) else doubleV (vecL2Norm X v)))
          | _ \<Rightarrow> Inl ''expects 1 argument'')
      else
        (case args of
            [x, y] \<Rightarrow> if IsNull x \<or> IsNull y then Inr nullV
              else sbind (asVector X x) (\<lambda>a. sbind (asVector X y) (\<lambda>b. sbind (checkSameDims a b) (\<lambda>_.
                if name = str ''l2_distance'' then Inr (doubleV (vecL2Distance X a b))
                else if name = str ''inner_product'' then Inr (doubleV (vecInnerProduct X a b))
                else if name = str ''cosine_distance'' then sbind (vecCosineDistance X a b) (\<lambda>d. Inr (doubleV d))
                else Inl ''unknown vector function'')))
          | _ \<Rightarrow> Inl ''expects 2 arguments''))"

section \<open>Operators\<close>

text \<open>The truth of a value: \<open>None\<close> is unknown.\<close>

definition truth :: "Value \<Rightarrow> bool option" where
  "truth v = (case v_T v of
     TypeBool \<Rightarrow> Some (v_B v)
   | TypeInt \<Rightarrow> Some (v_I v \<noteq> 0)
   | TypeDouble \<Rightarrow> Some (\<not> feq (v_F v) 0)
   | TypeText \<Rightarrow> (case castTextToBool (v_S v) of Inl e \<Rightarrow> None | Inr b \<Rightarrow> Some b)
   | _ \<Rightarrow> None)"

definition evalCompare :: "sqlenv \<Rightarrow> bytes \<Rightarrow> Value \<Rightarrow> Value \<Rightarrow> string + Value" where
  "evalCompare X op l r =
     (if IsNull l \<or> IsNull r then Inr nullV
      else sbind (Compare X l r) (\<lambda>c.
        if op = str ''='' then Inr (boolV (c = 0))
        else if op = str ''!='' then Inr (boolV (c \<noteq> 0))
        else if op = str ''<'' then Inr (boolV (c < 0))
        else if op = str ''<='' then Inr (boolV (c \<le> 0))
        else if op = str ''>'' then Inr (boolV (c > 0))
        else if op = str ''>='' then Inr (boolV (c \<ge> 0))
        else Inl ''unknown comparison''))"

text \<open>
  The table of \<^verbatim>\<open>likeMatch\<close>, a row per pattern rune: \<^verbatim>\<open>dpRow\<close> goes along the string with the cell to
  the upper left and the cell to the left.
\<close>

fun dpCells :: "nat \<Rightarrow> bool \<Rightarrow> bool \<Rightarrow> bool list \<Rightarrow> nat list \<Rightarrow> bool list" where
  "dpCells p diag left (up # ups) (c # cs) =
     (let cell = (if p = 37 then up \<or> left else if p = 95 then diag else diag \<and> p = c)
      in cell # dpCells p up cell ups cs)"
| "dpCells p diag left _ _ = []"

definition dpRow :: "nat list \<Rightarrow> bool list \<Rightarrow> nat \<Rightarrow> bool list" where
  "dpRow sr prev p = (let first = (p = 37 \<and> hd prev) in first # dpCells p (hd prev) first (tl prev) sr)"

definition likeMatch :: "bytes \<Rightarrow> bytes \<Rightarrow> bool" where
  "likeMatch pat s = (let sr = runesOf s in last (foldl (dpRow sr) (True # replicate (length sr) False) (runesOf pat)))"

definition evalLike :: "sqlenv \<Rightarrow> Value \<Rightarrow> Value \<Rightarrow> bool \<Rightarrow> string + Value" where
  "evalLike X l r negate =
     (if IsNull l \<or> IsNull r then Inr nullV
      else let m = likeMatch (FormatText X r) (FormatText X l) in Inr (boolV (if negate then \<not> m else m)))"

text \<open>The dispatch of \<^verbatim>\<open>evalBinary\<close> for the strict operators.\<close>

definition strictBinary :: "sqlenv \<Rightarrow> bytes \<Rightarrow> Value \<Rightarrow> Value \<Rightarrow> string + Value" where
  "strictBinary X op l r =
     (if op \<in> set (map str [''+'', ''-'', ''*'', ''/'', ''%'', ''&'', ''|'', ''^'']) then Arith X op l r
      else if op \<in> set (map str [''='', ''!='', ''<'', ''<='', ''>'', ''>='']) then evalCompare X op l r
      else if isDistanceOp op then evalVectorDistance X op l r
      else if op = str ''||'' then (if IsNull l \<or> IsNull r then Inr nullV else Inr (textV (FormatText X l @ FormatText X r)))
      else if op = str ''LIKE'' \<or> op = str ''NOT LIKE'' then evalLike X l r (op = str ''NOT LIKE'')
      else Inl ''unknown operator'')"

definition unaryValue :: "bytes \<Rightarrow> Value \<Rightarrow> string + Value" where
  "unaryValue op v =
     (if IsNull v then Inr nullV
      else if op = str ''+'' then Inr (if isNumeric v then v else nullV)
      else if op = str ''-'' then
        Inr (case v_T v of TypeInt \<Rightarrow> intV (- v_I v) | TypeDouble \<Rightarrow> doubleV (fneg (v_F v)) | _ \<Rightarrow> nullV)
      else if op = str ''NOT'' then Inr (case truth v of None \<Rightarrow> nullV | Some b \<Rightarrow> boolV (\<not> b))
      else Inl ''unknown unary operator'')"

text \<open>The right side of \<^verbatim>\<open>evalLogical\<close> once the left one did not decide.\<close>

definition logicalRest :: "bool \<Rightarrow> bool option \<Rightarrow> bool option \<Rightarrow> Value" where
  "logicalRest isAnd l r =
     (if isAnd
      then (if r = Some False then boolV False else case (l, r) of (Some a, Some b) \<Rightarrow> boolV (a \<and> b) | _ \<Rightarrow> nullV)
      else (if r = Some True then boolV True else case (l, r) of (Some a, Some b) \<Rightarrow> boolV (a \<or> b) | _ \<Rightarrow> nullV))"

definition betweenValue :: "sqlenv \<Rightarrow> Value \<Rightarrow> Value \<Rightarrow> Value \<Rightarrow> bool \<Rightarrow> string + Value" where
  "betweenValue X v lo hi neg =
     (if IsNull v \<or> IsNull lo \<or> IsNull hi then Inr nullV
      else sbind (evalCompare X (str ''>='') v lo) (\<lambda>ge. sbind (evalCompare X (str ''<='') v hi) (\<lambda>le.
        let res = (truth ge = Some True \<and> truth le = Some True) in Inr (boolV (if neg then \<not> res else res)))))"

definition castValue :: "sqlenv \<Rightarrow> Value \<Rightarrow> Type \<Rightarrow> nat \<Rightarrow> string + Value" where
  "castValue X v to dim = sbind (CastTo X v to) (\<lambda>cv.
     if to = TypeVector \<and> dim > 0 \<and> \<not> IsNull cv \<and> length (v_Vec cv) \<noteq> dim then Inl ''wrong dimensions'' else Inr cv)"

section \<open>Functions\<close>

definition evalTrim :: "bytes \<Rightarrow> Value list \<Rightarrow> string + Value" where
  "evalTrim name args =
     (let trim = (\<lambda>s cutset.
        if name = str ''ltrim'' then TrimLeft s cutset
        else if name = str ''rtrim'' then TrimRight s cutset
        else TrimRight (TrimLeft s cutset) cutset)
      in case args of
          [x] \<Rightarrow> Inr (if v_T x \<noteq> TypeText then nullV else textV (trim (v_S x) [32]))
        | [x, c] \<Rightarrow> Inr (if v_T x \<noteq> TypeText \<or> v_T c \<noteq> TypeText then nullV else textV (trim (v_S x) (v_S c)))
        | _ \<Rightarrow> Inl ''expects 1 or 2 arguments'')"

definition formatUUID :: "bytes \<Rightarrow> bytes" where
  "formatUUID b = (let h = hexString b
     in take 8 h @ [45] @ take 4 (drop 8 h) @ [45] @ take 4 (drop 12 h) @ [45] @ take 4 (drop 16 h) @ [45] @ take 12 (drop 20 h))"

definition newUUIDv4 :: "sqlenv \<Rightarrow> bytes" where
  "newUUIDv4 X = (let b = rand16 X in formatUUID (b[6 := (b ! 6 AND 0x0f) OR 0x40, 8 := (b ! 8 AND 0x3f) OR 0x80]))"

definition absValue :: "Value \<Rightarrow> string + Value" where
  "absValue v = (case v_T v of
     TypeInt \<Rightarrow> Inr (if sint (v_I v) < 0 then intV (- v_I v) else v)
   | TypeDouble \<Rightarrow> Inr (doubleV (fmag (v_F v)))
   | TypeNull \<Rightarrow> Inr nullV
   | _ \<Rightarrow> Inl ''unknown function'')"

definition coalesceValue :: "Value list \<Rightarrow> Value" where
  "coalesceValue args = (case find (\<lambda>a. \<not> IsNull a) args of None \<Rightarrow> nullV | Some a \<Rightarrow> a)"

definition callFunc :: "unicode \<Rightarrow> sqlenv \<Rightarrow> bytes \<Rightarrow> Value list \<Rightarrow> string + Value" where
  "callFunc U X name args =
     (let is = (\<lambda>n k. name = str n \<and> length args = k)
      in if is ''lower'' 1 then Inr (if v_T (hd args) \<noteq> TypeText then nullV else textV (ToLower U (v_S (hd args))))
         else if is ''upper'' 1 then Inr (if v_T (hd args) \<noteq> TypeText then nullV else textV (ToUpper U (v_S (hd args))))
         else if name \<in> set (map str [''trim'', ''ltrim'', ''rtrim'']) then evalTrim name args
         else if is ''length'' 1 then
           Inr (if IsNull (hd args) then nullV else intV (of_nat (length (runesOf (FormatText X (hd args))))))
         else if is ''typeof'' 1 then Inr (textV (typeofName (hd args)))
         else if is ''now'' 0 then Inr (timeV (clock X))
         else if is ''gen_random_uuid'' 0 then Inr (textV (newUUIDv4 X))
         else if is ''abs'' 1 then absValue (hd args)
         else if name = str ''coalesce'' then Inr (coalesceValue args)
         else if isVectorFuncName name then evalVectorFunc X name args
         else Inl ''unknown function'')"

section \<open>Expressions\<close>

definition columnValue :: "row option \<Rightarrow> bytes \<Rightarrow> bytes \<Rightarrow> string + Value" where
  "columnValue r t c = (case r of
     None \<Rightarrow> Inl ''no table specified''
   | Some m \<Rightarrow> (case m (if t \<noteq> [] then t @ str ''.'' @ c else c) of Some v \<Rightarrow> Inr v | None \<Rightarrow> Inl ''no such column''))"

fun evalExpr :: "unicode \<Rightarrow> sqlenv \<Rightarrow> row option \<Rightarrow> Expr \<Rightarrow> string + Value"
  and evalArgs :: "unicode \<Rightarrow> sqlenv \<Rightarrow> row option \<Rightarrow> Expr list \<Rightarrow> string + Value list"
  and inLoop :: "unicode \<Rightarrow> sqlenv \<Rightarrow> row option \<Rightarrow> Value \<Rightarrow> bool \<Rightarrow> bool \<Rightarrow> Expr list \<Rightarrow> string + Value" where
  "evalExpr U X r (Literal v src) = Inr v"
| "evalExpr U X r (ColumnRef t c) = columnValue r t c"
| "evalExpr U X r (Param n) = Inl ''parameter is not bound''"
| "evalExpr U X r (Unary op x) = sbind (evalExpr U X r x) (unaryValue op)"
| "evalExpr U X r (Binary op a b) =
     (if op = str ''AND'' \<or> op = str ''OR'' then
        sbind (evalExpr U X r a) (\<lambda>lv.
          if op = str ''AND'' \<and> truth lv = Some False then Inr (boolV False)
          else if op = str ''OR'' \<and> truth lv = Some True then Inr (boolV True)
          else sbind (evalExpr U X r b) (\<lambda>rv. Inr (logicalRest (op = str ''AND'') (truth lv) (truth rv))))
      else sbind (evalExpr U X r a) (\<lambda>lv. sbind (evalExpr U X r b) (\<lambda>rv. strictBinary X op lv rv)))"
| "evalExpr U X r (Between x lo hi neg) =
     sbind (evalExpr U X r x) (\<lambda>v. sbind (evalExpr U X r lo) (\<lambda>l. sbind (evalExpr U X r hi) (\<lambda>h. betweenValue X v l h neg)))"
| "evalExpr U X r (InList x items sub neg) =
     sbind (evalExpr U X r x) (\<lambda>v. if IsNull v then Inr nullV else inLoop U X r v neg False items)"
| "evalExpr U X r (IsNullE x neg) = sbind (evalExpr U X r x) (\<lambda>v. Inr (boolV (if neg then \<not> IsNull v else IsNull v)))"
| "evalExpr U X r (Cast x t typeName dim) = sbind (evalExpr U X r x) (\<lambda>v. castValue X v t dim)"
| "evalExpr U X r (FuncCall name args star) =
     (if isAggregateName name then Inl ''aggregate not allowed here''
      else sbind (evalArgs U X r args) (callFunc U X name))"
| "evalExpr U X r (Subquery s ex) = Inl ''cannot evaluate''"
| "evalArgs U X r [] = Inr []"
| "evalArgs U X r (a # as) = sbind (evalExpr U X r a) (\<lambda>v. sbind (evalArgs U X r as) (\<lambda>vs. Inr (v # vs)))"
| "inLoop U X r v neg sawNull [] = Inr (if sawNull then nullV else boolV neg)"
| "inLoop U X r v neg sawNull (item # items) =
     sbind (evalExpr U X r item) (\<lambda>iv.
       if IsNull iv then inLoop U X r v neg True items
       else sbind (Compare X v iv) (\<lambda>c. if c = 0 then Inr (boolV (\<not> neg)) else inLoop U X r v neg sawNull items))"

definition predicateTrue :: "unicode \<Rightarrow> sqlenv \<Rightarrow> Expr option \<Rightarrow> row option \<Rightarrow> string + bool" where
  "predicateTrue U X e r = (case e of
     None \<Rightarrow> Inr True
   | Some x \<Rightarrow> sbind (evalExpr U X r x) (\<lambda>v. Inr (truth v = Some True)))"

section \<open>CHECK constraints\<close>

record checkDef =
  ck_Name :: bytes
  ck_Expr :: bytes

text \<open>\<open>None\<close>: the stored text does not parse because the token loop hangs.\<close>

fun enforceChecks :: "unicode \<Rightarrow> sqlenv \<Rightarrow> checkDef list \<Rightarrow> row \<Rightarrow> (string + unit) option" where
  "enforceChecks U X [] r = Some (Inr ())"
| "enforceChecks U X (chk # cs) r = (case parseExprText U X (ck_Expr chk) of
     None \<Rightarrow> None
   | Some (Inl e) \<Rightarrow> Some (Inl ''corrupt check constraint'')
   | Some (Inr ex) \<Rightarrow> (case evalExpr U X (Some r) ex of
         Inl e \<Rightarrow> Some (Inl e)
       | Inr v \<Rightarrow>
           if IsNull v then enforceChecks U X cs r
           else if truth v \<noteq> Some True then Some (Inl ''row violates check constraint'')
           else enforceChecks U X cs r))"

end
