(* ===== verification/SQL_Eval_Props.thy ===== *)
theory SQL_Eval_Props
  imports SQL_Eval
begin

text \<open>
  Evaluation against its specification: \<^verbatim>\<open>likeMatch\<close> and the meaning of a pattern, AND and OR and the three-valued
  logic of Kleene, and the pointwise meaning of IN.
\<close>

section \<open>LIKE\<close>

text \<open>The piece of the text that one rune of the pattern stands for, and the texts a pattern stands for.\<close>

definition piece :: "nat \<Rightarrow> nat list \<Rightarrow> bool" where
  "piece p u \<longleftrightarrow> p = 37 \<or> (\<exists>c. u = [c] \<and> (p = 95 \<or> c = p))"

definition likes :: "nat list \<Rightarrow> nat list \<Rightarrow> bool" where
  "likes pat s \<longleftrightarrow> (\<exists>us. list_all2 piece pat us \<and> List.concat us = s)"

lemma likes_Nil: "likes [] s \<longleftrightarrow> s = []"
  by (auto simp: likes_def)

lemma likes_snoc: "likes (ps @ [p]) s \<longleftrightarrow> (\<exists>k \<le> length s. likes ps (take k s) \<and> piece p (drop k s))"
proof
  assume "likes (ps @ [p]) s"
  then obtain us u where "list_all2 piece ps us" "piece p u" "List.concat us @ u = s"
    by (auto simp: likes_def list_all2_append1 list_all2_Cons1)
  then show "\<exists>k \<le> length s. likes ps (take k s) \<and> piece p (drop k s)"
    by (intro exI [of _ "length (List.concat us)"]) (auto simp: likes_def)
next
  assume "\<exists>k \<le> length s. likes ps (take k s) \<and> piece p (drop k s)"
  then obtain k us where "list_all2 piece ps us" "List.concat us = take k s" "piece p (drop k s)" by (auto simp: likes_def)
  then show "likes (ps @ [p]) s"
    by (auto simp: likes_def intro!: exI [of _ "us @ [drop k s]"] list_all2_appendI)
qed

text \<open>The recurrence of the table.\<close>

lemma likes_step:
  assumes "j < length sr"
  shows "likes (ps @ [p]) (take (Suc j) sr) \<longleftrightarrow>
    (if p = 37 then likes ps (take (Suc j) sr) \<or> likes (ps @ [p]) (take j sr)
     else if p = 95 then likes ps (take j sr) else likes ps (take j sr) \<and> p = sr ! j)"
proof (cases "p = 37")
  case True
  have "(\<exists>k \<le> Suc j. likes ps (take k sr)) \<longleftrightarrow> likes ps (take (Suc j) sr) \<or> (\<exists>k \<le> j. likes ps (take k sr))"
    by (metis le_Suc_eq)
  with True assms show ?thesis by (simp add: likes_snoc piece_def min_absorb2 cong: conj_cong)
next
  case False
  have "piece p (drop k (take (Suc j) sr)) \<longleftrightarrow> k = j \<and> (p = 95 \<or> sr ! j = p)" if "k \<le> Suc j" for k
  proof (cases "k = j")
    case True
    then show ?thesis using assms False by (auto simp: piece_def take_Suc_conv_app_nth)
  next
    case kj: False
    then have "length (drop k (take (Suc j) sr)) \<noteq> 1" using that assms by auto
    then have "drop k (take (Suc j) sr) \<noteq> [c]" for c by (metis One_nat_def length_Cons list.size(3))
    then show ?thesis using kj False by (auto simp: piece_def)
  qed
  with False assms show ?thesis by (auto simp: likes_snoc intro!: exI [of _ j])
qed

lemma likes_first: "likes (ps @ [p]) [] \<longleftrightarrow> p = 37 \<and> likes ps []"
  by (auto simp: likes_snoc piece_def)

definition tableRow :: "nat list \<Rightarrow> nat list \<Rightarrow> nat \<Rightarrow> bool list" where
  "tableRow ps sr j = map (\<lambda>i. likes ps (take i sr)) [j..<Suc (length sr)]"

lemma tableRow_Cons: "j \<le> length sr \<Longrightarrow> tableRow ps sr j = likes ps (take j sr) # tableRow ps sr (Suc j)"
  by (simp add: tableRow_def upt_conv_Cons del: upt_Suc)

lemma dpCells_row:
  "j \<le> length sr \<Longrightarrow>
   dpCells p (likes ps (take j sr)) (likes (ps @ [p]) (take j sr)) (tableRow ps sr (Suc j)) (drop j sr) = tableRow (ps @ [p]) sr (Suc j)"
proof (induction "length sr - j" arbitrary: j)
  case 0
  then show ?case by (simp add: tableRow_def)
next
  case (Suc n)
  then have j: "j < length sr" by simp
  have "n = length sr - Suc j" using Suc.hyps(2) by simp
  from Suc.hyps(1) [OF this] j
  have IH: "dpCells p (likes ps (take (Suc j) sr)) (likes (ps @ [p]) (take (Suc j) sr)) (tableRow ps sr (Suc (Suc j))) (drop (Suc j) sr)
      = tableRow (ps @ [p]) sr (Suc (Suc j))" by simp
  have "drop j sr = sr ! j # drop (Suc j) sr" using j by (simp add: Cons_nth_drop_Suc)
  moreover have "tableRow qs sr (Suc j) = likes qs (take (Suc j) sr) # tableRow qs sr (Suc (Suc j))" for qs
    using j by (simp add: tableRow_Cons)
  ultimately show ?case using IH likes_step [OF j, of ps p] by (simp add: Let_def)
qed

lemma dpRow_row: "dpRow sr (tableRow ps sr 0) p = tableRow (ps @ [p]) sr 0"
  using dpCells_row [of 0 sr p ps] by (simp add: dpRow_def tableRow_Cons likes_first Let_def)

lemma fold_rows: "foldl (dpRow sr) (tableRow [] sr 0) ps = tableRow ps sr 0"
  by (induction ps rule: rev_induct) (simp_all add: dpRow_row)

lemma first_row: "tableRow [] sr 0 = True # replicate (length sr) False"
proof -
  have "likes [] (take i sr) \<longleftrightarrow> False" if "i \<in> set [Suc 0..<Suc (length sr)]" for i using that by (auto simp: likes_Nil)
  then have "tableRow [] sr (Suc 0) = map (\<lambda>_. False) [Suc 0..<Suc (length sr)]" unfolding tableRow_def by (intro map_cong) auto
  then show ?thesis by (simp add: tableRow_Cons likes_Nil map_replicate_const del: upt_Suc)
qed

text \<open>
  C31. \<^verbatim>\<open>LIKE\<close>: the table of \<^verbatim>\<open>likeMatch\<close> answers exactly whether the runes of the text split into one piece for each
  rune of the pattern, any run for a percent sign, one rune for an underscore, the rune itself otherwise.
\<close>

theorem likeMatch_likes: "likeMatch pat s \<longleftrightarrow> likes (runesOf pat) (runesOf s)"
  unfolding likeMatch_def Let_def first_row [symmetric] fold_rows
  by (simp add: tableRow_def)

section \<open>Three-valued logic\<close>

text \<open>Kleene's connectives: unknown is \<open>None\<close>.\<close>

fun kand :: "bool option \<Rightarrow> bool option \<Rightarrow> bool option" where
  "kand (Some False) _ = Some False"
| "kand _ (Some False) = Some False"
| "kand (Some True) (Some True) = Some True"
| "kand _ _ = None"

fun knot :: "bool option \<Rightarrow> bool option" where
  "knot (Some b) = Some (\<not> b)"
| "knot None = None"

definition kor :: "bool option \<Rightarrow> bool option \<Rightarrow> bool option" where
  "kor a b = knot (kand (knot a) (knot b))"

lemma truth_boolV [simp]: "truth (boolV b) = Some b" "truth nullV = None"
  by (simp_all add: truth_def value_defs)

lemma logicalRest_kleene: "truth (logicalRest True l r) = kand l r" if "l \<noteq> Some False"
  using that by (cases "(l, r)" rule: kand.cases) (auto simp: logicalRest_def split: option.splits)

lemma logicalRest_or: "truth (logicalRest False l r) = kor l r" if "l \<noteq> Some True"
  using that by (cases l; cases r) (auto simp: logicalRest_def kor_def split: option.splits)

lemma kand_false: "kand (Some False) r = Some False" by simp

lemma kor_true: "kor (Some True) r = Some True" by (simp add: kor_def)

text \<open>
  C32. AND, OR and NOT are Kleene's connectives on the truth of their operands whenever both operands
  evaluate, for every type an operand may have.
\<close>

theorem logical_kleene:
  assumes "evalExpr U X r a = Inr va" "evalExpr U X r b = Inr vb"
  shows "map_sum id truth (evalExpr U X r (Binary (str ''AND'') a b)) = Inr (kand (truth va) (truth vb)) \<and>
    map_sum id truth (evalExpr U X r (Binary (str ''OR'') a b)) = Inr (kor (truth va) (truth vb)) \<and>
    map_sum id truth (evalExpr U X r (Unary (str ''NOT'') a)) = Inr (knot (truth va))"
proof (intro conjI)
  show "map_sum id truth (evalExpr U X r (Binary (str ''AND'') a b)) = Inr (kand (truth va) (truth vb))"
    using assms by (cases "truth va = Some False") (simp_all add: logicalRest_kleene)
  show "map_sum id truth (evalExpr U X r (Binary (str ''OR'') a b)) = Inr (kor (truth va) (truth vb))"
    using assms by (cases "truth va = Some True") (simp_all add: logicalRest_or kor_true)
  show "map_sum id truth (evalExpr U X r (Unary (str ''NOT'') a)) = Inr (knot (truth va))"
    using assms by (auto simp: unaryValue_def IsNull_def truth_def [of va] split: option.splits)
qed

theorem logical_kleene_witness:
  "\<forall>U X. map_sum id truth (evalExpr U X None (Binary (str ''AND'') (Literal nullV []) (Literal (boolV False) []))) = Inr (Some False)"
  using logical_kleene [of _ _ None "Literal nullV []" nullV "Literal (boolV False) []" "boolV False"] by simp

end
