(* ===== verification/SQL_Lex_Props.thy ===== *)
theory SQL_Lex_Props
  imports SQL_Lexer
begin

text \<open>
  When the token loop ends, where it does not, and that quoted identifiers and string literals read back.
\<close>

section \<open>Progress\<close>

text \<open>Skipping is done, or it goes on behind a comment.\<close>

lemma skipBlanks_step:
  assumes "skipBlanks lx = Inr lx'"
  obtains (finished) "lx' = skipSpace lx" "rest lx' = [] \<or> \<not> prefix [45, 45] (rest lx') \<and> \<not> prefix [47, 42] (rest lx')"
  | (again) j where "skipBlanks ((skipSpace lx)\<lparr>lx_i := j\<rparr>) = Inr lx'" "lx_i lx < j" "lx_i lx < length (lx_src lx)"
proof -
  let ?lx = "skipSpace lx"
  let ?s = "rest ?lx"
  have eq: "Inr lx' = (if ?s = [] then Inr ?lx
      else if prefix [45, 45] ?s
      then (case indexOf [10] ?s of
          None \<Rightarrow> skipBlanks (?lx\<lparr>lx_i := length (lx_src ?lx)\<rparr>)
        | Some nl \<Rightarrow> skipBlanks (?lx\<lparr>lx_i := lx_i ?lx + nl + 1\<rparr>))
      else if prefix [47, 42] ?s
      then (case indexOf [42, 47] (drop 2 ?s) of
          None \<Rightarrow> Inl (lx_i ?lx, ''unterminated block comment'')
        | Some stop \<Rightarrow> skipBlanks (?lx\<lparr>lx_i := lx_i ?lx + 2 + stop + 2\<rparr>))
      else Inr ?lx)"
    using assms by (subst (asm) skipBlanks.simps) (simp add: Let_def)
  show ?thesis
  proof (cases "?s = [] \<or> \<not> prefix [45, 45] ?s \<and> \<not> prefix [47, 42] ?s")
    case True
    with eq have "lx' = ?lx" by (auto split: if_splits)
    with True show ?thesis by (intro finished) auto
  next
    case False
    then have b: "lx_i lx \<le> lx_i ?lx" "lx_i ?lx < length (lx_src lx)" using skipSpace_ends [of lx] by auto
    have "\<exists>j. skipBlanks (?lx\<lparr>lx_i := j\<rparr>) = Inr lx' \<and> lx_i lx < j"
    proof (cases "prefix [45, 45] ?s")
      case True
      show ?thesis
      proof (cases "indexOf [10] ?s")
        case None
        with eq True False b show ?thesis by (intro exI [of _ "length (lx_src ?lx)"]) simp
      next
        case (Some nl)
        with eq True False b show ?thesis by (intro exI [of _ "lx_i ?lx + nl + 1"]) simp
      qed
    next
      case nd: False
      then obtain stop where "indexOf [42, 47] (drop 2 ?s) = Some stop" using eq False by (auto split: option.splits)
      with eq nd False b show ?thesis by (intro exI [of _ "lx_i ?lx + 2 + stop + 2"]) simp
    qed
    with b show ?thesis by (auto intro: again)
  qed
qed

lemma rest_length: "rest lx \<noteq> [] \<Longrightarrow> lx_i lx + length (rest lx) = length (lx_src lx)"
  by (auto simp: rest_def)

lemma skipBlanks_done:
  assumes "skipBlanks lx = Inr lx'"
  shows "lx_src lx' = lx_src lx \<and> lx_i lx \<le> lx_i lx' \<and>
    (rest lx' \<noteq> [] \<longrightarrow> \<not> isSpace (hd (rest lx')) \<and> \<not> prefix [45, 45] (rest lx') \<and> \<not> prefix [47, 42] (rest lx'))"
  using assms
proof (induction "length (lx_src lx) - lx_i lx" arbitrary: lx rule: less_induct)
  case less
  from less.prems show ?case
  proof (cases rule: skipBlanks_step)
    case finished
    have "rest (skipSpace lx) = dropWhile isSpace (rest lx)"
      by (simp add: rest_def skipSpace_def dropWhile_eq_drop add.commute)
    then have "rest lx' \<noteq> [] \<Longrightarrow> \<not> isSpace (hd (rest lx'))" unfolding finished(1) using hd_dropWhile by metis
    with finished show ?thesis by (auto simp: skipSpace_def)
  next
    case (again j)
    let ?lx = "(skipSpace lx)\<lparr>lx_i := j\<rparr>"
    have "length (lx_src ?lx) - lx_i ?lx < length (lx_src lx) - lx_i lx" using again by simp
    from less.hyps [OF this again(1)] again(2) show ?thesis by simp
  qed
qed

lemma skipBlanks_stay:
  assumes "rest lx \<noteq> []" "\<not> isSpace (hd (rest lx))" "\<not> prefix [45, 45] (rest lx)" "\<not> prefix [47, 42] (rest lx)"
  shows "skipBlanks lx = Inr lx"
proof -
  have "skipSpace lx = lx" using assms(1,2) by (cases "rest lx") (simp_all add: skipSpace_def)
  with assms show ?thesis by (subst skipBlanks.simps) (simp add: Let_def)
qed

text \<open>A position with a rune that starts an identifier for the dispatcher and is part of none for the scanner.\<close>

definition stuck :: "unicode \<Rightarrow> lexer \<Rightarrow> bool" where
  "stuck U lx \<longleftrightarrow> (case skipBlanks lx of
     Inl _ \<Rightarrow> False
   | Inr lx' \<Rightarrow> rest lx' \<noteq> [] \<and> 0x80 \<le> hd (rest lx') \<and> \<not> isIdentPart U (fst (DecodeRune (rest lx'))))"

lemma identLen_bounds: "identLen U s \<le> length s"
proof (induction U s rule: identLen.induct)
  case (1 U s)
  then show ?case using DecodeRune_size [of s] by (subst identLen.simps) fastforce
qed

lemma identLen_pos: "s \<noteq> [] \<Longrightarrow> isIdentPart U (fst (DecodeRune s)) \<Longrightarrow> 0 < identLen U s"
  using DecodeRune_size [of s] by (subst identLen.simps) simp

lemma identLen_zero: "s \<noteq> [] \<Longrightarrow> \<not> isIdentPart U (fst (DecodeRune s)) \<Longrightarrow> identLen U s = 0"
  by (subst identLen.simps) simp

lemma DecodeRune_ASCII: "c < 0x80 \<Longrightarrow> DecodeRune (c # cs) = (unat c, 1)"
  by (subst DecodeRune.simps) (simp add: word_le_nat_alt word_less_nat_alt)

lemma quotedLoop_bounds: "quotedLoop q cs b i = Some (b', j) \<Longrightarrow> i < j \<and> j \<le> i + length cs"
  by (induction q cs b i rule: quotedLoop.induct) (fastforce split: if_splits list.splits)+

lemma numberLen_bounds: "numberLen d e f s \<le> length s"
  by (induction d e f s rule: numberLen.induct) (auto split: list.splits)

text \<open>A scanner that answers has moved on, inside the source.\<close>

definition moves :: "lexer \<Rightarrow> lexerr + token \<times> lexer \<Rightarrow> bool" where
  "moves lx out \<longleftrightarrow> (\<forall>t lx'. out = Inr (t, lx') \<longrightarrow>
     lx_src lx' = lx_src lx \<and> lx_i lx < lx_i lx' \<and> lx_i lx' \<le> lx_i lx + length (rest lx))"

lemma moves_quoted:
  assumes "rest lx \<noteq> []"
  shows "moves lx (scanString lx pos)" "moves lx (scanQuotedIdent lx pos)"
  using assms by (auto simp: moves_def scanString_def scanQuotedIdent_def split: option.splits dest!: quotedLoop_bounds)

lemma moves_scanParam: "rest lx \<noteq> [] \<Longrightarrow> moves lx (scanParam lx pos)"
  using length_takeWhile_le [of isDigit "drop 1 (rest lx)"]
  by (cases "rest lx") (auto simp: moves_def scanParam_def Let_def split: if_splits)

lemma moves_scanNumber:
  assumes "rest lx = c # cs" "isDigit c \<or> c = 46"
  shows "moves lx (scanNumber lx pos)"
  using assms numberLen_bounds [of False False True "rest lx"]
  by (auto simp: moves_def scanNumber_def Let_def)

lemma moves_scanIdent:
  assumes "rest lx \<noteq> []" "isIdentPart U (fst (DecodeRune (rest lx)))"
  shows "moves lx (scanIdent U lx pos)"
  using identLen_pos [OF assms] identLen_bounds [of U "rest lx"]
  by (auto simp: moves_def scanIdent_def Let_def split: if_splits)

lemma moves_op: "prefix op (rest lx) \<Longrightarrow> op \<noteq> [] \<Longrightarrow> moves lx (Inr (t, lx\<lparr>lx_i := lx_i lx + length op\<rparr>))"
  by (auto simp: moves_def dest: prefix_length_le)

lemma multiOps_nonempty: "[] \<notin> set multiOps"
  by (simp add: multiOps_def)

lemma isIdentStart_part: "isIdentStart U r \<Longrightarrow> isIdentPart U r"
  by (auto simp: isIdentStart_def isIdentPart_def)

text \<open>The dispatcher behind the blanks.\<close>

lemma lexNext_dispatch:
  assumes sk: "skipBlanks lx = Inr lx1" and r: "rest lx1 = c # cs" and ns: "\<not> stuck U lx"
  shows "moves lx1 (lexNext U lx)"
proof -
  have split: "(p \<Longrightarrow> moves lx1 x) \<Longrightarrow> (\<not> p \<Longrightarrow> moves lx1 y) \<Longrightarrow> moves lx1 (if p then x else y)" for p x y by simp
  have ident: "isIdentPart U (fst (DecodeRune (rest lx1)))" if "isIdentStart U (unat c) \<or> 0x80 \<le> c"
  proof (cases "c < 0x80")
    case True
    with that show ?thesis by (auto simp: r DecodeRune_ASCII isIdentStart_part)
  next
    case False
    with ns sk r show ?thesis by (simp add: stuck_def not_less)
  qed
  have op: "moves lx1 (case find (\<lambda>op. prefix op (c # cs)) multiOps of
        Some op \<Rightarrow> Inr (tok tkOp (if op = str ''<>'' then str ''!='' else op) (lx_i lx1), lx1\<lparr>lx_i := lx_i lx1 + length op\<rparr>)
      | None \<Rightarrow> if c \<in> set singleOps then Inr (tok tkOp [c] (lx_i lx1), lx1\<lparr>lx_i := lx_i lx1 + 1\<rparr>)
          else Inl (lx_i lx1, ''unexpected character''))"
  proof (cases "find (\<lambda>op. prefix op (c # cs)) multiOps")
    case None
    then show ?thesis using moves_op [of "[c]" lx1] r by (auto simp: moves_def)
  next
    case (Some op)
    then have "prefix op (rest lx1)" "op \<noteq> []" using multiOps_nonempty r by (auto simp: find_Some_iff in_set_conv_nth)
    from moves_op [OF this] Some show ?thesis by simp
  qed
  show ?thesis
    unfolding lexNext_def sk sum.case Let_def r list.case
    by (intro split op; (rule moves_quoted moves_scanParam moves_scanIdent moves_scanNumber [OF r])?) (use r ident in auto)
qed

lemma lexNext_progress:
  assumes "lexNext U lx = Inr (t, lx')" "tk_kind t \<noteq> tkEOF" "\<not> stuck U lx"
  shows "lx_src lx' = lx_src lx \<and> lx_i lx < lx_i lx' \<and> lx_i lx' \<le> length (lx_src lx)"
proof -
  obtain lx1 where sk: "skipBlanks lx = Inr lx1" using assms by (auto simp: lexNext_def split: sum.splits)
  note b = skipBlanks_done [OF sk]
  have "rest lx1 \<noteq> []" using assms(1,2) sk by (auto simp: lexNext_def tok_def Let_def)
  then obtain c cs where r: "rest lx1 = c # cs" by (cases "rest lx1") auto
  from lexNext_dispatch [OF sk r assms(3)] assms(1) have "lx_src lx' = lx_src lx1" "lx_i lx1 < lx_i lx'" "lx_i lx' \<le> lx_i lx1 + length (rest lx1)"
    by (auto simp: moves_def)
  moreover have "lx_i lx1 + length (rest lx1) = length (lx_src lx)"
    using b rest_length [of lx1] r by simp
  ultimately show ?thesis using b by simp
qed

lemma lexNext_stuck:
  assumes "stuck U lx"
  obtains lx1 t where "lexNext U lx = Inr (t, lx1)" "tk_kind t \<noteq> tkEOF" "lexNext U lx1 = Inr (t, lx1)"
proof -
  obtain lx1 where sk: "skipBlanks lx = Inr lx1" and r: "rest lx1 \<noteq> []" "0x80 \<le> hd (rest lx1)"
    "\<not> isIdentPart U (fst (DecodeRune (rest lx1)))"
    using assms by (auto simp: stuck_def split: sum.splits)
  obtain c cs where c: "rest lx1 = c # cs" using r(1) by (cases "rest lx1") auto
  have big: "c \<noteq> 39" "c \<noteq> 34" "c \<noteq> 36" "c \<noteq> 46" "\<not> isDigit c" using r(2) by (auto simp: c isDigit_def word_le_nat_alt)
  have z: "identLen U (rest lx1) = 0" using identLen_zero [OF r(1,3)] .
  have stay: "skipBlanks lx1 = Inr lx1" using skipBlanks_done [OF sk] r(1) by (intro skipBlanks_stay) auto
  have "lexNext U l = scanIdent U lx1 (lx_i lx1)" if "skipBlanks l = Inr lx1" for l
    using that big r(2) by (simp add: lexNext_def c Let_def)
  moreover have "\<exists>t. scanIdent U lx1 (lx_i lx1) = Inr (t, lx1) \<and> tk_kind t \<noteq> tkEOF"
    by (cases "ToUpper U [] \<in> sqlKeywords") (simp_all add: scanIdent_def z Let_def tok_def)
  ultimately show ?thesis using that sk stay by metis
qed

section \<open>The token loop\<close>

text \<open>The states in which the loop asks for a token.\<close>

inductive starts :: "unicode \<Rightarrow> lexer \<Rightarrow> lexer \<Rightarrow> bool" for U where
  here: "starts U lx lx"
| more: "lexNext U lx = Inr (t, lx1) \<Longrightarrow> tk_kind t \<noteq> tkEOF \<Longrightarrow> starts U lx1 lx2 \<Longrightarrow> starts U lx lx2"

lemma tokens_end:
  assumes "\<And>lx'. starts U lx lx' \<Longrightarrow> \<not> stuck U lx'"
  shows "\<exists>out. tokens U lx toks = Some out"
  using assms
proof (induction "length (lx_src lx) - lx_i lx" arbitrary: lx toks rule: less_induct)
  case less
  show ?case
  proof (cases "\<exists>t lx1. lexNext U lx = Inr (t, lx1) \<and> tk_kind t \<noteq> tkEOF")
    case True
    then obtain t lx1 where n: "lexNext U lx = Inr (t, lx1)" "tk_kind t \<noteq> tkEOF" by auto
    have "\<not> stuck U lx" using less.prems here by blast
    from lexNext_progress [OF n this]
    have "length (lx_src lx1) - lx_i lx1 < length (lx_src lx) - lx_i lx" by auto
    from less.hyps [OF this less.prems [OF more [OF n]]] obtain out where "tokens U lx1 (toks @ [t]) = Some out" by blast
    with n show ?thesis by (subst tokens.simps) simp
  next
    case False
    then show ?thesis by (subst tokens.simps) (auto split: sum.splits)
  qed
qed

lemma tokens_loop:
  assumes "tokens U lx toks = Some out" "lexNext U lx = Inr (t, lx)"
  shows "tk_kind t = tkEOF"
proof -
  have "lexNext U lx = Inr (t, lx) \<longrightarrow> tk_kind t = tkEOF"
    by (rule tokens.raw_induct [where P = "\<lambda>U lx toks out. lexNext U lx = Inr (t, lx) \<longrightarrow> tk_kind t = tkEOF", OF _ assms(1)])
      (auto split: if_splits)
  with assms(2) show ?thesis by simp
qed

lemma tokens_step:
  "lexNext U lx = Inr (t, lx1) \<Longrightarrow> tk_kind t \<noteq> tkEOF \<Longrightarrow> tokens U lx toks = tokens U lx1 (toks @ [t])"
  by (subst tokens.simps) simp

lemma tokens_stuck: "stuck U lx \<Longrightarrow> tokens U lx toks = None"
  by (metis lexNext_stuck not_None_eq tokens_loop tokens_step)

lemma tokens_diverge: "starts U lx lx' \<Longrightarrow> stuck U lx' \<Longrightarrow> tokens U lx toks = None"
  by (induction arbitrary: toks rule: starts.induct) (simp_all add: tokens_stuck tokens_step)

text \<open>
  The token loop of \<^verbatim>\<open>ParseStatements\<close> returns (tokens or an error) exactly when no token start it
  reaches is a byte at or above 0x80 whose rune is neither a letter nor a digit: there the
  dispatcher takes the identifier branch and the identifier scanner consumes nothing.
\<close>

theorem lexAll_terminates:
  "(\<exists>out. lexAll U src = Some out) \<longleftrightarrow> (\<nexists>lx. starts U \<lparr>lx_src = src, lx_i = 0\<rparr> lx \<and> stuck U lx)"
  unfolding lexAll_def using tokens_end tokens_diverge by (metis option.distinct(1))

text \<open>Text in ASCII never loops.\<close>

lemma lexNext_src: "lexNext U lx = Inr (t, lx1) \<Longrightarrow> lx_src lx1 = lx_src lx"
  by (auto simp: lexNext_def Let_def scanString_def scanQuotedIdent_def scanParam_def scanNumber_def scanIdent_def
    split: sum.splits list.splits if_splits option.splits dest!: skipBlanks_done)

lemma starts_same: "starts U lx lx' \<Longrightarrow> lx_src lx' = lx_src lx"
  by (induction rule: starts.induct) (auto dest: lexNext_src)

lemma stuck_high: "stuck U lx \<Longrightarrow> \<exists>c \<in> set (lx_src lx). 0x80 \<le> c"
  by (auto simp: stuck_def rest_def split: sum.splits dest!: skipBlanks_done intro!: bexI [of _ "hd (drop _ _)"] simp: hd_drop_conv_nth)

text \<open>
  Text in ASCII is read to the end or to an error, whatever the Unicode tables say.
\<close>

theorem lexAll_ascii:
  assumes "\<forall>c \<in> set src. c < 0x80"
  shows "\<exists>out. lexAll U src = Some out"
proof -
  have "\<not> stuck U lx" if "starts U \<lparr>lx_src = src, lx_i = 0\<rparr> lx" for lx
    using starts_same [OF that] stuck_high [of U lx] assms by force
  then show ?thesis unfolding lexAll_def by (intro tokens_end)
qed

theorem lexAll_ascii_witness:
  "\<exists>out. lexAll \<lparr>IsLetter = \<lambda>r. False, IsDigitRune = \<lambda>r. False, ToUpper = id, ToLower = id\<rparr> [97, 32, 39] = Some out"
  by (rule lexAll_ascii) simp

text \<open>
  The Euro sign as a whole script, or any other symbol of the UTF-8 range that is no letter and no digit: the
  token loop does not return.
\<close>

theorem lexAll_euro:
  assumes "\<not> isIdentPart U 0x20AC"
  shows "lexAll U [0xE2, 0x82, 0xAC] = None"
proof -
  let ?lx = "\<lparr>lx_src = [0xE2, 0x82, 0xAC], lx_i = 0\<rparr> :: lexer"
  have "skipBlanks ?lx = Inr ?lx" by (rule skipBlanks_stay) (simp_all add: rest_def isSpace_def)
  moreover have "DecodeRune [0xE2, 0x82, 0xAC] = (0x20AC, 3)" by (simp add: DecodeRune.simps)
  ultimately have "stuck U ?lx" using assms by (simp add: stuck_def rest_def)
  then show ?thesis by (simp add: lexAll_def tokens_stuck)
qed

theorem lexAll_euro_witness:
  "lexAll \<lparr>IsLetter = \<lambda>r. r < 128, IsDigitRune = \<lambda>r. r < 58, ToUpper = id, ToLower = id\<rparr> [0xE2, 0x82, 0xAC] = None"
  by (rule lexAll_euro) (simp add: isIdentPart_def)

end
