(* ===== verification/SQL_Parse_Props.thy ===== *)
theory SQL_Parse_Props
  imports SQL_Statement SQL_Lex_Props
begin

text \<open>
  The parser returns: on every token sequence the lexer produces, each loop and each recursion makes progress and
  no look-ahead leaves the slice. A small calculus bounds what a parser leaves of the tokens it is given.
\<close>

section \<open>Runs of a parser\<close>

definition tokensOK :: "token list \<Rightarrow> bool" where
  "tokensOK ts \<longleftrightarrow> ts \<noteq> [] \<and> tk_kind (last ts) = tkEOF \<and> (\<forall>t \<in> set (butlast ts). tk_kind t \<noteq> tkEOF)"

text \<open>
  On at most \<open>n\<close> tokens, the first of them satisfying \<open>H\<close>, the parser neither panics nor runs out of rounds,
  and an answer \<open>x\<close> has consumed \<open>K x\<close> tokens or more.
\<close>

definition answers :: "('a \<Rightarrow> nat) \<Rightarrow> nat \<Rightarrow> 'a presult \<Rightarrow> bool" where
  "answers K n out \<longleftrightarrow> (case out of
     POk x us \<Rightarrow> tokensOK us \<and> length us + K x \<le> n
   | PErr pos msg \<Rightarrow> True
   | PPanic \<Rightarrow> False
   | PFuel \<Rightarrow> False)"

definition runsOn :: "(token \<Rightarrow> bool) \<Rightarrow> nat \<Rightarrow> ('a \<Rightarrow> nat) \<Rightarrow> 'a parser \<Rightarrow> bool" where
  "runsOn H n K p \<longleftrightarrow> (\<forall>ts. tokensOK ts \<longrightarrow> length ts \<le> n \<longrightarrow> H (hd ts) \<longrightarrow> answers K (length ts) (p ts))"

abbreviation runs :: "nat \<Rightarrow> ('a \<Rightarrow> nat) \<Rightarrow> 'a parser \<Rightarrow> bool" where
  "runs \<equiv> runsOn (\<lambda>_. True)"

abbreviation takes :: "bool \<Rightarrow> nat" where
  "takes b \<equiv> (if b then 1 else 0)"

named_theorems runs_intro

lemma runsOn_all: "runs n K p \<Longrightarrow> runsOn H n K p"
  by (simp add: runsOn_def)

lemma runs_weaken:
  assumes "runsOn H n J p" "m \<le> n" "\<And>x. K x \<le> J x"
  shows "runsOn H m K p"
proof -
  have "answers K l out" if "answers J l out" for l out
    using that by (auto simp: answers_def split: presult.splits intro: order_trans [OF add_left_mono [OF assms(3)]])
  with assms(1,2) show ?thesis by (auto simp: runsOn_def)
qed

lemma runs_bind:
  assumes p: "runsOn H n J p" and f: "\<And>x. runs (n - J x) (\<lambda>y. K y - J x) (f x)"
  shows "runsOn H n K (pbind p f)"
  unfolding runsOn_def
proof (intro allI impI)
  fix ts
  assume ok: "tokensOK ts" "length ts \<le> n" "H (hd ts)"
  then have a: "answers J (length ts) (p ts)" using p by (simp add: runsOn_def)
  show "answers K (length ts) (pbind p f ts)"
  proof (cases "p ts")
    case (POk x us)
    with a have us: "tokensOK us" "length us + J x \<le> length ts" by (auto simp: answers_def)
    then have "answers (\<lambda>y. K y - J x) (length us) (f x us)" using f [of x] ok(2) by (auto simp: runsOn_def)
    with us show ?thesis using POk by (auto simp: pbind_def answers_def split: presult.splits)
  qed (use a in \<open>auto simp: pbind_def answers_def\<close>)
qed

lemma runs_ret [runs_intro]: "K x = 0 \<Longrightarrow> runsOn H n K (ret x)"
  by (simp add: runsOn_def answers_def ret_def)

lemma runs_fail [runs_intro]: "runsOn H n K (fail msg)" "runsOn H n K (failAt pos msg)"
  by (simp_all add: runsOn_def answers_def fail_def failAt_def)

lemma runs_if [runs_intro]: "(c \<Longrightarrow> runsOn H n K p) \<Longrightarrow> (\<not> c \<Longrightarrow> runsOn H n K q) \<Longrightarrow> runsOn H n K (if c then p else q)"
  by simp

lemma runs_option [runs_intro]:
  "(c = None \<Longrightarrow> runsOn H n K p) \<Longrightarrow> (\<And>x. c = Some x \<Longrightarrow> runsOn H n K (q x)) \<Longrightarrow> runsOn H n K (case c of None \<Rightarrow> p | Some x \<Rightarrow> q x)"
  by (simp split: option.splits)

lemma runs_sum [runs_intro]:
  "(\<And>x. c = Inl x \<Longrightarrow> runsOn H n K (p x)) \<Longrightarrow> (\<And>x. c = Inr x \<Longrightarrow> runsOn H n K (q x)) \<Longrightarrow> runsOn H n K (case c of Inl x \<Rightarrow> p x | Inr x \<Rightarrow> q x)"
  by (simp split: sum.splits)

lemma runs_prod [runs_intro]: "(\<And>x y. c = (x, y) \<Longrightarrow> runsOn H n K (p x y)) \<Longrightarrow> runsOn H n K (case c of (x, y) \<Rightarrow> p x y)"
  by (cases c) simp

lemma runs_tail: "runsOn H n J p \<Longrightarrow> (\<And>x. K x \<le> J x) \<Longrightarrow> runsOn H n K p"
  by (rule runs_weaken) auto

section \<open>Tokens\<close>

lemma tokensOK_Nil [simp]: "\<not> tokensOK []"
  by (simp add: tokensOK_def)

lemma tokensOK_Cons: "tokensOK (t # us) \<longleftrightarrow> (if us = [] then tk_kind t = tkEOF else tk_kind t \<noteq> tkEOF \<and> tokensOK us)"
  by (auto simp: tokensOK_def)

lemma runs_peek [runs_intro]:
  assumes "\<And>t. runsOn (\<lambda>u. u = t) n K (f t)"
  shows "runsOn H n K (pbind peek f)"
proof -
  have "pbind peek f ts = f (hd ts) ts" if "tokensOK ts" for ts
    using that by (cases ts) (auto simp: pbind_def peek_def tokensOK_def)
  with assms show ?thesis by (auto simp: runsOn_def)
qed

text \<open>Reading the token that was seen.\<close>

lemma runs_next [runs_intro]:
  assumes "tk_kind t \<noteq> tkEOF" "runs (n - 1) (\<lambda>y. K y - 1) (f t)"
  shows "runsOn (\<lambda>u. u = t) n K (pbind nextTok f)"
  unfolding runsOn_def
proof (intro allI impI)
  fix ts
  assume "tokensOK ts" and n: "length ts \<le> n" and "hd ts = t"
  then obtain us where ts: "ts = t # us" "us \<noteq> []" "tokensOK us"
    using assms(1) by (cases ts) (auto simp: tokensOK_Cons split: if_splits)
  then have "answers (\<lambda>y. K y - 1) (length us) (f t us)" using assms(2) n by (auto simp: runsOn_def)
  with ts show "answers K (length ts) (pbind nextTok f ts)"
    by (auto simp: pbind_def nextTok_def answers_def split: presult.splits)
qed

lemma isTok_kind: "isTok k s t \<Longrightarrow> tk_kind t = k"
  by (simp add: isTok_def)

lemma runs_acceptTok: "k \<noteq> tkEOF \<Longrightarrow> runsOn H n takes (acceptTok k s)"
  unfolding acceptTok_def pthen_def by (intro runs_intro) (auto dest: isTok_kind)

lemma runs_accept:
  "runsOn H n takes (acceptKw s)" "runsOn H n takes (acceptOp s)" "runsOn H n takes (acceptIdent s)"
  by (simp_all add: acceptKw_def acceptOp_def acceptIdent_def runs_acceptTok)

lemmas runs_accept_bind [runs_intro] = runs_accept [THEN runs_bind] runs_accept [THEN runs_tail]

lemma runs_peek_is [runs_intro]:
  assumes "\<And>t. runsOn (\<lambda>u. u = t) n K (f (isTok tkKeyword s t))"
  shows "runsOn H n K (pbind (peekKw s) f)"
proof -
  have "pbind (peekKw s) f ts = f (isTok tkKeyword s (hd ts)) ts" if "tokensOK ts" for ts
    using that by (cases ts) (simp_all add: pbind_def peekKw_def peek_def ret_def)
  with assms show ?thesis by (auto simp: runsOn_def)
qed

lemma runs_peek_op [runs_intro]:
  assumes "\<And>t. runsOn (\<lambda>u. u = t) n K (f (isTok tkOp s t))"
  shows "runsOn H n K (pbind (peekIsOp s) f)"
proof -
  have "pbind (peekIsOp s) f ts = f (isTok tkOp s (hd ts)) ts" if "tokensOK ts" for ts
    using that by (cases ts) (simp_all add: pbind_def peekIsOp_def peek_def ret_def)
  with assms show ?thesis by (auto simp: runsOn_def)
qed

lemma runs_ahead [runs_intro]:
  assumes "\<And>b. runsOn H n K (f b)"
  shows "runsOn H n K (pbind (peekAheadKw i s) f)" "runsOn H n K (pbind (peekAheadIsOp i s) f)"
  using assms by (simp_all add: runsOn_def pbind_def peekAheadKw_def peekAheadIsOp_def)

lemma runs_expect: "runsOn H n (\<lambda>_. 1) (expectKw s)" "runsOn H n (\<lambda>_. 1) (expectOp s)"
  unfolding expectKw_def expectOp_def by (intro runs_intro; simp)+

lemma runs_ident: "runsOn H n (\<lambda>_. 1) ident" "runsOn H n (\<lambda>_. 1) identLabel"
  unfolding ident_def identLabel_def pthen_def by (intro runs_intro; simp)+

lemmas runs_expect_bind [runs_intro] = runs_expect [THEN runs_bind] runs_ident [THEN runs_bind] runs_ident [THEN runs_tail]

section \<open>Loops\<close>

text \<open>A round that goes on has consumed a token.\<close>

lemma runs_loopP:
  assumes "\<And>s. runs n (\<lambda>x. case x of Inl s' \<Rightarrow> 1 | Inr r \<Rightarrow> 0) (body s)" "n < rounds"
  shows "runs n (\<lambda>_. 0) (loopP rounds body s)"
  using assms
proof (induction rounds arbitrary: n s)
  case (Suc rounds)
  show ?case
    unfolding loopP.simps
  proof (rule runs_bind [OF Suc.prems(1)])
    fix x :: "'a + 'b"
    show "runs (n - (case x of Inl s' \<Rightarrow> 1 | Inr r \<Rightarrow> 0)) (\<lambda>y. 0 - (case x of Inl s' \<Rightarrow> 1 | Inr r \<Rightarrow> 0))
        (case x of Inl s' \<Rightarrow> loopP rounds body s' | Inr r \<Rightarrow> ret r)"
    proof (cases x)
      case (Inl s')
      show ?thesis
      proof (cases n)
        case 0
        then show ?thesis using Inl by (auto simp: runsOn_def tokensOK_def)
      next
        case (Suc m)
        then have "runs m (\<lambda>_. 0) (loopP rounds body s')"
          using Suc.prems(2) by (intro Suc.IH runs_weaken [OF Suc.prems(1)]) auto
        with Inl Suc show ?thesis by simp
      qed
    next
      case (Inr r)
      then show ?thesis by (simp add: runs_ret)
    qed
  qed
qed simp

lemma runs_whileP:
  assumes "\<And>s. runs n (\<lambda>x. case x of Inl s' \<Rightarrow> 1 | Inr r \<Rightarrow> 0) (body s)"
  shows "runs n (\<lambda>_. 0) (whileP body s)"
  unfolding runsOn_def
proof (intro allI impI)
  fix ts
  assume ok: "tokensOK ts" "length ts \<le> n"
  have "runs (length ts) (\<lambda>x. case x of Inl s' \<Rightarrow> 1 | Inr r \<Rightarrow> 0) (body s)" for s using runs_weaken [OF assms ok(2)] by simp
  then have "runs (length ts) (\<lambda>_. 0) (loopP (Suc (length ts)) body s)" by (rule runs_loopP) simp
  with ok(1) show "answers (\<lambda>_. 0) (length ts) (whileP body s ts)" by (auto simp: runsOn_def whileP_def)
qed

lemmas runs_while [runs_intro] = runsOn_all [OF runs_whileP, THEN runs_bind] runsOn_all [OF runs_whileP, THEN runs_tail]

lemma runs_commaList:
  assumes "runs n (\<lambda>_. 1) p"
  shows "runsOn H n (\<lambda>_. 0) (commaList p)"
  unfolding commaList_def by (rule runs_intro runs_bind [OF assms] | simp)+

section \<open>Types and literals\<close>

lemma runs_parseVectorDim: "runsOn H n (\<lambda>_. 0) (parseVectorDim pos)"
  unfolding parseVectorDim_def pthen_def by (rule runs_intro | simp)+

lemma runs_parseType: "runsOn H n (\<lambda>_. 1) parseType"
  unfolding parseType_def pthen_def by (rule runs_intro runs_parseVectorDim [THEN runs_bind] | simp; fail)+

lemma runs_numberLiteral [runs_intro]: "(\<And>x. K x = 0) \<Longrightarrow> runsOn H n K (numberLiteral X t)"
  unfolding numberLiteral_def by (rule runs_intro | simp)+

lemma runs_parseCastSuffix: "runsOn H n (\<lambda>_. 0) (parseCastSuffix e)"
  unfolding parseCastSuffix_def by (rule runs_intro runs_parseType [THEN runs_bind] | simp)+

lemmas runs_types [runs_intro] =
  runs_parseType [THEN runs_bind] runs_parseCastSuffix [THEN runs_bind] runs_parseCastSuffix [THEN runs_tail]

section \<open>Expressions\<close>

text \<open>What the recursive calls of one level promise on at most \<open>n\<close> tokens.\<close>

definition good :: "nat \<Rightarrow> parsers \<Rightarrow> bool" where
  "good n P \<longleftrightarrow> (\<forall>m. runs n (\<lambda>_. 1) (pExpr P m)) \<and> runs n (\<lambda>_. 1) (pUnary P) \<and> runs n (\<lambda>_. 1) (pSelect P) \<and> runs n (\<lambda>_. 1) (pFrom P)"

lemma runs_rec:
  assumes "good n P" "m \<le> n"
  shows "runsOn H m (\<lambda>_. 1) (pExpr P k)" "runsOn H m (\<lambda>_. 1) (pUnary P)" "runsOn H m (\<lambda>_. 1) (pSelect P)" "runsOn H m (\<lambda>_. 1) (pFrom P)"
  using assms by (auto simp: good_def intro: runsOn_all runs_weaken)

lemmas runs_rec_intro [runs_intro] = runs_rec [THEN runs_bind] runs_rec [THEN runs_tail]

lemma runs_exprs: "good n P \<Longrightarrow> m \<le> n \<Longrightarrow> runsOn H m (\<lambda>_. 0) (commaList (pExpr P k))"
  by (rule runs_commaList) (rule runs_rec)

lemmas runs_exprs_intro [runs_intro] = runs_exprs [THEN runs_bind] runs_exprs [THEN runs_tail]

lemma runs_parseCallTail: "good n P \<Longrightarrow> m \<le> n \<Longrightarrow> runsOn H m (\<lambda>_. 0) (parseCallTail U P name)"
  unfolding parseCallTail_def pthen_def by (rule runs_intro | assumption | simp)+

lemma runs_parseExprList: "good n P \<Longrightarrow> m \<le> n \<Longrightarrow> runsOn H m (\<lambda>_. 1) (parseExprList P)"
  unfolding parseExprList_def pthen_def by (rule runs_intro | assumption | simp)+

lemma runs_parseParenExpr: "good n P \<Longrightarrow> m \<le> n \<Longrightarrow> runsOn H m (\<lambda>_. 1) (parseParenExpr P)"
  unfolding parseParenExpr_def pthen_def by (rule runs_intro | assumption | simp)+

lemmas runs_lists [runs_intro] =
  runs_parseCallTail [THEN runs_tail] runs_parseExprList [THEN runs_bind] runs_parseParenExpr [THEN runs_bind]

lemma runs_parseInRHS: "good n P \<Longrightarrow> m \<le> n \<Longrightarrow> runsOn H m (\<lambda>_. 1) (parseInRHS P)"
  unfolding parseInRHS_def pthen_def by (rule runs_intro | assumption | (simp; fail) | (auto dest: isTok_kind; fail))+

lemma runs_parseBetweenTail: "good n P \<Longrightarrow> m \<le> n \<Longrightarrow> runsOn H m (\<lambda>_. 1) (parseBetweenTail P x neg)"
  unfolding parseBetweenTail_def pthen_def by (rule runs_intro | assumption | simp)+

lemmas runs_tails [runs_intro] =
  runs_parseInRHS [THEN runs_bind] runs_parseBetweenTail [THEN runs_bind] runs_parseBetweenTail [THEN runs_tail]

text \<open>\<^verbatim>\<open>EXISTS (SELECT\<close>: both tokens the look-ahead saw are consumed.\<close>

lemma runs_exists [runs_intro]:
  assumes "tk_kind t = tkKeyword" "runs (n - 2) (\<lambda>y. K y - 2) q"
  shows "runsOn (\<lambda>u. u = t) n K (pbind (peekAheadIsOp 1 ''('') (\<lambda>paren. pbind (peekAheadKw 2 s) (\<lambda>sel.
     if c \<and> paren \<and> sel then pbind nextTok (\<lambda>_. pbind nextTok (\<lambda>_. q)) else failAt pos msg)))"
  unfolding runsOn_def
proof (intro allI impI)
  fix ts
  assume ok: "tokensOK ts" and n: "length ts \<le> n" and "hd ts = t"
  have q: "answers (\<lambda>y. K y - 2) (length us) (q us)" if "tokensOK us" "length us \<le> n - 2" for us
    using assms(2) that by (auto simp: runsOn_def)
  show "answers K (length ts) (pbind (peekAheadIsOp 1 ''('') (\<lambda>paren. pbind (peekAheadKw 2 s) (\<lambda>sel.
     if c \<and> paren \<and> sel then pbind nextTok (\<lambda>_. pbind nextTok (\<lambda>_. q)) else failAt pos msg)) ts)"
  proof (cases "c \<and> 2 < length ts \<and> isTok tkOp ''('' (ts ! 1) \<and> isTok tkKeyword s (ts ! 2)")
    case True
    then obtain a b d us where ts: "ts = a # b # d # us" by (auto simp: numeral_2_eq_2 length_Suc_conv less_iff_Suc_add dest!: Suc_le_lessD)
    with ok have "tokensOK (d # us)" by (auto simp: tokensOK_Cons split: if_splits)
    moreover have "length (d # us) \<le> n - 2" using n ts by simp
    ultimately have "answers (\<lambda>y. K y - 2) (length (d # us)) (q (d # us))" by (rule q)
    with True ts show ?thesis
      by (auto simp: pbind_def peekAheadIsOp_def peekAheadKw_def nextTok_def answers_def split: presult.splits)
  next
    case False
    then show ?thesis by (auto simp: pbind_def peekAheadIsOp_def peekAheadKw_def answers_def failAt_def)
  qed
qed

lemma runs_parsePrimary: "good n P \<Longrightarrow> m \<le> Suc n \<Longrightarrow> runsOn H m (\<lambda>_. 1) (parsePrimary U X P)"
  unfolding parsePrimary_def pthen_def Let_def
  by (rule runs_intro | assumption | (simp; fail) | (auto dest: isTok_kind; fail))+

lemma runs_parsePostfix: "good n P \<Longrightarrow> m \<le> Suc n \<Longrightarrow> runsOn H m (\<lambda>_. 1) (parsePostfix U X P)"
  unfolding parsePostfix_def by (rule runs_bind [OF runs_parsePrimary] runs_intro | assumption | simp)+

lemma runs_foldSign: "runsOn H n (\<lambda>_. 0) (foldSign neg x)"
  unfolding foldSign_def by (cases x) (auto intro!: runs_intro)

lemma runs_parseUnary: "good n P \<Longrightarrow> m \<le> Suc n \<Longrightarrow> runsOn H m (\<lambda>_. 1) (parseUnary U X P)"
  unfolding parseUnary_def pthen_def Let_def
  by (rule runs_intro runs_parsePostfix runs_foldSign [THEN runs_tail] | assumption | (simp; fail) | (auto dest: isTok_kind split: if_splits; fail))+

text \<open>An operator is no end of input, and \<^verbatim>\<open>NOT\<close> is never the last token.\<close>

lemma runs_infixPrec [runs_intro]:
  assumes "runsOn H n K (f 0)" "\<And>prec t. tk_kind t \<noteq> tkEOF \<Longrightarrow> runsOn (\<lambda>u. u = t) n K (f prec)"
  shows "runsOn H n K (pbind infixPrec f)"
  unfolding runsOn_def
proof (intro allI impI)
  fix ts
  assume ok: "tokensOK ts" "length ts \<le> n" "H (hd ts)"
  then obtain t us where ts: "ts = t # us" by (cases ts) auto
  show "answers K (length ts) (pbind infixPrec f ts)"
  proof (cases "tk_kind t = tkEOF")
    case True
    then have "infixPrec ts = POk 0 ts" by (simp add: infixPrec_def pbind_def peek_def ts Let_def)
    with assms(1) ok show ?thesis by (simp add: runsOn_def pbind_def)
  next
    case False
    then obtain u vs where us: "us = u # vs" using ok(1) ts by (cases us) (auto simp: tokensOK_Cons)
    define Q where "Q out \<longleftrightarrow> (\<exists>prec. out = POk prec ts)" for out :: "nat presult"
    have "Q (infixPrec ts)"
      by (simp add: infixPrec_def pbind_def peek_def ts us Let_def Q_def)
    then obtain prec where "infixPrec ts = POk prec ts" by (auto simp: Q_def)
    moreover have "answers K (length ts) (f prec ts)"
      using assms(2) [OF False, of prec, unfolded runsOn_def, rule_format, of ts] ok ts by simp
    ultimately show ?thesis by (simp add: pbind_def)
  qed
qed

lemma runs_infixTail: "good n P \<Longrightarrow> m \<le> n \<Longrightarrow> runsOn H m (\<lambda>_. 0) (infixTail P prec t lhs)"
  unfolding infixTail_def isTail_def notTail_def pthen_def by (rule runs_intro | assumption | simp)+

lemma runs_prattStep: "good n P \<Longrightarrow> m \<le> Suc n \<Longrightarrow> runsOn H m (\<lambda>x. case x of Inl s' \<Rightarrow> 1 | Inr r \<Rightarrow> 0) (prattStep P k lhs)"
  unfolding prattStep_def by (rule runs_intro runs_infixTail [THEN runs_bind] | assumption | simp)+

lemma runs_parseExpr: "good n P \<Longrightarrow> m \<le> Suc n \<Longrightarrow> runsOn H m (\<lambda>_. 1) (parseExpr U X P k)"
  unfolding parseExpr_def by (rule runs_parseUnary [THEN runs_bind] runs_intro runs_prattStep | assumption | simp)+

section \<open>Queries\<close>

lemma runs_parseMaybeAlias: "runsOn H n (\<lambda>_. 0) parseMaybeAlias"
  unfolding parseMaybeAlias_def pthen_def by (rule runs_intro | simp)+

lemma runs_parseTableRef: "runsOn H n (\<lambda>_. 1) parseTableRef"
  unfolding parseTableRef_def by (rule runs_intro runs_parseMaybeAlias [THEN runs_bind] | simp)+

lemma runs_lateral:
  "tk_kind t \<noteq> tkEOF \<or> \<not> c \<Longrightarrow> runsOn (\<lambda>u. u = t) n (\<lambda>_. 0) (if c then pthen nextTok (ret ()) else ret ())"
  unfolding pthen_def by (rule runs_intro | simp)+

lemma runs_parseTablePrimary: "good n P \<Longrightarrow> m \<le> Suc n \<Longrightarrow> runsOn H m (\<lambda>_. 1) (parseTablePrimary P)"
  unfolding parseTablePrimary_def Let_def
  by (rule runs_lateral [THEN runs_bind]
      runs_parseMaybeAlias [THEN runs_bind] runs_parseTableRef [THEN runs_bind] runs_intro
    | (simp only: pthen_def; rule runs_intro) | assumption | (simp; fail) | (auto dest: isTok_kind; fail))+

lemma runs_needJoin: "runsOn H n (\<lambda>_. 1) (needJoin kind)"
  unfolding needJoin_def by (rule runs_intro | simp)+

lemma runs_parseJoinIntro: "runsOn H n (\<lambda>x. case x of None \<Rightarrow> 0 | Some jt \<Rightarrow> 1) (parseJoinIntro natural)"
  unfolding parseJoinIntro_def pthen_def by (rule runs_intro runs_needJoin [THEN runs_tail] | (simp; fail) | (simp split: option.splits; fail))+

lemma runs_joinTail: "good n P \<Longrightarrow> m \<le> n \<Longrightarrow> runsOn H m (\<lambda>_. 0) (joinTail P left natural jt)"
  unfolding joinTail_def pthen_def
  by (rule runs_intro runs_parseTablePrimary [THEN runs_bind] runs_commaList [OF runs_ident(1), THEN runs_bind] | assumption | simp)+

lemma runs_fromStep: "good n P \<Longrightarrow> m \<le> Suc n \<Longrightarrow> runsOn H m (\<lambda>x. case x of Inl s' \<Rightarrow> 1 | Inr r \<Rightarrow> 0) (fromStep P left)"
  unfolding fromStep_def
  by (rule runs_intro runs_parseTablePrimary [THEN runs_bind] runs_parseJoinIntro [THEN runs_bind] runs_joinTail [THEN runs_bind] | assumption | simp)+

lemma runs_parseFromClause: "good n P \<Longrightarrow> m \<le> Suc n \<Longrightarrow> runsOn H m (\<lambda>_. 1) (parseFromClause P)"
  unfolding parseFromClause_def by (rule runs_parseTablePrimary [THEN runs_bind] runs_intro runs_fromStep | assumption | simp)+

lemma runs_optClause: "runs (n - 1) (\<lambda>_. 0) p \<Longrightarrow> runsOn H n (\<lambda>_. 0) (optClause kw p)"
  unfolding optClause_def by (rule runs_intro runs_bind [of _ _ "\<lambda>_. 0" p] | simp)+

lemma runs_selectItem: "good n P \<Longrightarrow> m \<le> n \<Longrightarrow> runsOn H m (\<lambda>_. 1) (selectItem P)"
  unfolding selectItem_def pthen_def by (rule runs_intro | assumption | simp)+

lemma runs_parseSelectItems: "good n P \<Longrightarrow> m \<le> n \<Longrightarrow> runsOn H m (\<lambda>_. 0) (parseSelectItems P)"
  unfolding parseSelectItems_def by (rule runs_commaList) (rule runs_selectItem)

lemma runs_optExpr: "good n P \<Longrightarrow> m \<le> n \<Longrightarrow> runsOn H m (\<lambda>_. 0) (optClause kw (pExpr P k))"
  by (rule runs_optClause runs_intro | assumption | (simp; fail) | linarith)+

lemma runs_optFrom: "good n P \<Longrightarrow> m \<le> n \<Longrightarrow> runsOn H m (\<lambda>_. 0) (optClause kw (parseFromClause P))"
  by (rule runs_optClause runs_parseFromClause [THEN runs_tail] | assumption | (simp; fail) | linarith)+

lemma runs_optItems: "good n P \<Longrightarrow> m \<le> n \<Longrightarrow> runsOn H m (\<lambda>_. 0) (optClause kw (parseSelectItems P))"
  by (rule runs_optClause runs_parseSelectItems | assumption | (simp; fail) | linarith)+

lemma runs_optExprs: "good n P \<Longrightarrow> m \<le> n \<Longrightarrow> runsOn H m (\<lambda>_. 0) (optClause kw (pthen (expectKw kw2) (commaList (pExpr P k))))"
  unfolding pthen_def by (rule runs_optClause runs_intro | assumption | (simp; fail) | linarith)+

lemmas runs_optional_bind =
  runs_optExpr [THEN runs_bind] runs_optFrom [THEN runs_bind] runs_optItems [THEN runs_bind] runs_optExprs [THEN runs_bind]

lemma runs_unless: "runsOn H n (\<lambda>_. 0) (if c then ret False else acceptKw kw)"
  by (rule runs_intro | simp)+

lemma runs_parseSelectCore: "good n P \<Longrightarrow> m \<le> Suc n \<Longrightarrow> runsOn H m (\<lambda>_. 1) (parseSelectCore P)"
  unfolding parseSelectCore_def pthen_def [of "expectKw ''SELECT''"] Let_def
  by (rule runs_unless [THEN runs_bind] runs_parseSelectItems [THEN runs_bind] runs_optional_bind runs_intro | assumption | (simp; fail) | linarith)+

lemma runs_orderKey: "good n P \<Longrightarrow> m \<le> n \<Longrightarrow> runsOn H m (\<lambda>_. 1) (orderKey P)"
  unfolding orderKey_def by (rule runs_unless [THEN runs_bind] runs_intro | assumption | simp)+

lemma runs_unionStep: "good n P \<Longrightarrow> m \<le> Suc n \<Longrightarrow> runsOn H m (\<lambda>x. case x of Inl s' \<Rightarrow> 1 | Inr r \<Rightarrow> 0) (unionStep P arms)"
  unfolding unionStep_def by (rule runs_parseSelectCore [THEN runs_bind] runs_intro | assumption | simp)+

lemma runs_orderBy: "good n P \<Longrightarrow> m \<le> n \<Longrightarrow> runsOn H m (\<lambda>_. 0) (optClause kw (pthen (expectKw kw2) (commaList (orderKey P))))"
  unfolding pthen_def
  by (rule runs_optClause runs_commaList [OF runs_orderKey, THEN runs_tail] runs_intro | assumption | (simp; fail) | linarith)+

lemma runs_parseSelect: "good n P \<Longrightarrow> m \<le> Suc n \<Longrightarrow> runsOn H m (\<lambda>_. 1) (parseSelect P)"
  unfolding parseSelect_def
  by (rule runs_parseSelectCore [THEN runs_bind] runs_orderBy [THEN runs_bind] runs_optional_bind runs_unionStep runs_intro | assumption | (simp; fail) | linarith)+

lemma good_parserAt: "good n (parserAt U X n)"
proof (induction n)
  case 0
  then show ?case by (auto simp: good_def runsOn_def)
next
  case (Suc n)
  from runs_parseExpr [OF this] runs_parseUnary [OF this] runs_parseSelect [OF this] runs_parseFromClause [OF this]
  show ?case unfolding good_def [of "Suc n"] parserAt.simps parsers.simps by auto
qed

section \<open>Statements\<close>

lemma runs_acceptAscDesc: "runsOn H n (\<lambda>_. 0) acceptAscDesc"
  unfolding acceptAscDesc_def by (rule runs_intro | simp)+

lemma runs_dirs: "runsOn H n (\<lambda>_. 0) (if dirs then acceptAscDesc else ret False)"
  by (rule runs_acceptAscDesc runs_intro | simp)+

lemma runs_identStep: "runsOn H n (\<lambda>x. case x of Inl s' \<Rightarrow> 1 | Inr r \<Rightarrow> 0) (identStep dirs msg out)"
  unfolding identStep_def by (rule runs_dirs [THEN runs_bind] runs_intro | simp)+

lemma runs_parseIdentList: "runsOn H n (\<lambda>_. 1) parseIdentList"
  unfolding parseIdentList_def pthen_def by (rule runs_identStep runs_intro | simp)+

lemma runs_columnType: "runsOn H n (\<lambda>_. 0) (columnType col)"
  unfolding columnType_def Let_def by (rule runs_intro | simp)+

lemma runs_columnStep: "good n P \<Longrightarrow> m \<le> Suc n \<Longrightarrow> runsOn H m (\<lambda>x. case x of Inl s' \<Rightarrow> 1 | Inr r \<Rightarrow> 0) (columnStep P s)"
  unfolding columnStep_def pthen_def
  by (rule runs_acceptAscDesc [THEN runs_bind] runs_intro | assumption | (simp; fail) | (auto dest: isTok_kind; fail))+

lemma runs_named: "runsOn H n (\<lambda>_. 0) (if c then ident else ret [])"
  by (rule runs_intro | simp)+

lemma runs_unnamed: "runsOn H n (\<lambda>_. 0) (if c then ret [] else ident)"
  by (rule runs_intro | simp)+

lemma runs_parseTableItem: "good n P \<Longrightarrow> m \<le> n \<Longrightarrow> runsOn H m (\<lambda>_. 1) (parseTableItem P st)"
  unfolding parseTableItem_def pthen_def
  by (rule runs_named [THEN runs_bind] runs_parseIdentList [THEN runs_bind] runs_columnType [THEN runs_bind] runs_columnStep runs_intro
    | assumption | (simp; fail) | (auto dest: isTok_kind; fail) | linarith)+

lemma runs_ifExists: "runsOn H n (\<lambda>_. 0) ifNotExists" "runsOn H n (\<lambda>_. 0) ifExists"
  unfolding ifNotExists_def ifExists_def pthen_def by (rule runs_intro | simp)+

lemmas runs_ddl = runs_ifExists [THEN runs_bind] runs_parseIdentList [THEN runs_bind] runs_unnamed [THEN runs_bind]
  runs_parseTableItem [THEN runs_bind]

lemma runs_parseCreateTable: "good n P \<Longrightarrow> m \<le> n \<Longrightarrow> runsOn H m (\<lambda>_. 0) (parseCreateTable P)"
  unfolding parseCreateTable_def pthen_def by (rule runs_ddl runs_intro | assumption | simp)+

lemma runs_parseCreateIndex: "runsOn H n (\<lambda>_. 0) (parseCreateIndex u)"
  unfolding parseCreateIndex_def pthen_def by (rule runs_ddl runs_intro | simp)+

lemma runs_keyword: "tk_kind t \<noteq> tkEOF \<Longrightarrow> runs (n - 1) (\<lambda>_. 0) q \<Longrightarrow> runsOn (\<lambda>u. u = t) n (\<lambda>_. 1) (pbind nextTok (\<lambda>_. q))"
  by (rule runs_next) auto

lemma runs_parseCreate: "good n P \<Longrightarrow> m \<le> n \<Longrightarrow> tk_kind t \<noteq> tkEOF \<Longrightarrow> runsOn (\<lambda>u. u = t) m (\<lambda>_. 1) (parseCreate P)"
  unfolding parseCreate_def pthen_def
  by (rule runs_keyword runs_parseCreateTable [THEN runs_tail] runs_parseCreateIndex [THEN runs_tail] runs_intro | assumption | (simp; fail) | linarith)+

lemma runs_parseDrop: "tk_kind t \<noteq> tkEOF \<Longrightarrow> runsOn (\<lambda>u. u = t) m (\<lambda>_. 1) parseDrop"
  unfolding parseDrop_def pthen_def by (rule runs_keyword runs_ddl runs_intro | assumption | simp)+

lemma runs_rowStep: "good n P \<Longrightarrow> m \<le> n \<Longrightarrow> runsOn H m (\<lambda>x. case x of Inl s' \<Rightarrow> 1 | Inr r \<Rightarrow> 0) (rowStep P row)"
  unfolding rowStep_def by (rule runs_intro | assumption | simp)+

lemma runs_valuesRow: "good n P \<Longrightarrow> m \<le> n \<Longrightarrow> runsOn H m (\<lambda>_. 1) (valuesRow P)"
  unfolding valuesRow_def pthen_def by (rule runs_rowStep runs_intro | assumption | simp)+

lemma runs_insertSource: "good n P \<Longrightarrow> m \<le> n \<Longrightarrow> runsOn H m (\<lambda>_. 0) (insertSource P st)"
  unfolding insertSource_def
  by (rule runs_commaList [OF runs_valuesRow, THEN runs_bind] runs_intro | assumption | (simp; fail) | linarith)+

lemma runs_onConflict: "runsOn H n (\<lambda>_. 0) onConflict"
  unfolding onConflict_def pthen_def by (rule runs_intro | simp)+

lemma runs_columns: "runsOn H n (\<lambda>_. 0) (if c then pbind (whileP (identStep False msg) []) (\<lambda>cols. pthen (expectOp s) (ret cols)) else ret [])"
  unfolding pthen_def by (rule runs_identStep runs_intro | simp)+

lemma runs_parseInsert: "good n P \<Longrightarrow> m \<le> n \<Longrightarrow> tk_kind t \<noteq> tkEOF \<Longrightarrow> runsOn (\<lambda>u. u = t) m (\<lambda>_. 1) (parseInsert P)"
  unfolding parseInsert_def pthen_def [of nextTok] pthen_def [of "expectKw kw" for kw]
  by (rule runs_keyword runs_columns [THEN runs_bind] runs_insertSource [THEN runs_bind] runs_onConflict [THEN runs_bind] runs_optional_bind runs_intro
    | assumption | (simp; fail) | linarith)+

lemma runs_assignment: "good n P \<Longrightarrow> m \<le> n \<Longrightarrow> runsOn H m (\<lambda>_. 1) (assignment P)"
  unfolding assignment_def pthen_def by (rule runs_intro | assumption | simp)+

lemma runs_parseUpdate: "good n P \<Longrightarrow> m \<le> n \<Longrightarrow> tk_kind t \<noteq> tkEOF \<Longrightarrow> runsOn (\<lambda>u. u = t) m (\<lambda>_. 1) (parseUpdate P)"
  unfolding parseUpdate_def pthen_def
  by (rule runs_keyword runs_commaList [OF runs_assignment, THEN runs_bind] runs_optional_bind runs_intro | assumption | (simp; fail) | linarith)+

lemma runs_parseDelete: "good n P \<Longrightarrow> m \<le> n \<Longrightarrow> tk_kind t \<noteq> tkEOF \<Longrightarrow> runsOn (\<lambda>u. u = t) m (\<lambda>_. 1) (parseDelete P)"
  unfolding parseDelete_def pthen_def by (rule runs_keyword runs_optional_bind runs_intro | assumption | (simp; fail) | linarith)+

lemma runs_parseDescribe: "runsOn H n (\<lambda>_. 0) parseDescribe"
  unfolding parseDescribe_def by (rule runs_intro | simp)+

lemma runs_optIdent: "runsOn H n (\<lambda>_. 0) (optClause kw ident)"
  by (rule runs_optClause runs_intro | simp)+

lemma runs_parseShow: "tk_kind t \<noteq> tkEOF \<Longrightarrow> runsOn (\<lambda>u. u = t) m (\<lambda>_. 1) parseShow"
  unfolding parseShow_def pthen_def
  by (rule runs_keyword runs_optIdent [THEN runs_bind] runs_intro | assumption | (simp; fail) | (auto dest: isTok_kind; fail))+

lemma runs_alterColumnStep: "good n P \<Longrightarrow> m \<le> n \<Longrightarrow> runsOn H m (\<lambda>x. case x of Inl s' \<Rightarrow> 1 | Inr r \<Rightarrow> 0) (alterColumnStep P col)"
  unfolding alterColumnStep_def pthen_def by (rule runs_intro | assumption | (simp; fail) | (auto dest: isTok_kind; fail))+

lemma runs_alterType: "runsOn H n (\<lambda>_. 0) (if c then ret x else pbind parseType (\<lambda>(typ, typeName, dim).
    if typeName = s then fail msg else ret (f typ typeName dim)))"
  by (rule runs_intro | simp)+

lemma runs_parseAlterColumnDef: "good n P \<Longrightarrow> m \<le> n \<Longrightarrow> runsOn H m (\<lambda>_. 0) (parseAlterColumnDef P)"
  unfolding parseAlterColumnDef_def
  by (rule runs_alterType [THEN runs_bind] runs_alterColumnStep runs_intro | assumption | (simp; fail) | linarith)+

lemma runs_parseAlter: "good n P \<Longrightarrow> m \<le> n \<Longrightarrow> tk_kind t \<noteq> tkEOF \<Longrightarrow> runsOn (\<lambda>u. u = t) m (\<lambda>_. 1) (parseAlter P)"
  unfolding parseAlter_def pthen_def Let_def
  by (rule runs_keyword runs_parseAlterColumnDef [THEN runs_bind] runs_intro | assumption | (simp; fail) | linarith)+

lemma runs_parseStatement: "good n P \<Longrightarrow> m \<le> n \<Longrightarrow> runsOn H m (\<lambda>_. 1) (parseStatement P)"
  unfolding parseStatement_def pthen_def
  by (rule runs_peek runs_if runs_keyword runs_parseShow runs_parseDescribe runs_parseAlter runs_parseInsert runs_parseUpdate runs_parseDelete
      runs_parseCreate runs_parseDrop runs_parseSelect [THEN runs_bind] runs_intro
    | assumption | (simp; fail) | (auto dest: isTok_kind; fail))+

lemma runs_skipSemis: "runsOn H n (\<lambda>_. 0) skipSemis"
  unfolding skipSemis_def by (rule runs_intro | simp)+

lemma runs_statementStep: "good n P \<Longrightarrow> m \<le> n \<Longrightarrow> runsOn H m (\<lambda>x. case x of Inl s' \<Rightarrow> 1 | Inr r \<Rightarrow> 0) (statementStep P out)"
  unfolding statementStep_def pthen_def
  by (rule runs_skipSemis [THEN runs_bind] runs_parseStatement [THEN runs_bind] runs_intro | assumption | (simp; fail) | linarith)+

lemma parseTokens_answers:
  assumes "tokensOK ts"
  shows "parseTokens U X ts \<noteq> PPanic" "parseTokens U X ts \<noteq> PFuel"
proof -
  have "runs (length ts) (\<lambda>_. 0) (whileP (statementStep (parserAt U X (length ts))) [])"
    by (rule runs_whileP) (rule runs_statementStep [OF good_parserAt order_refl])
  with assms have "answers (\<lambda>_. 0) (length ts) (parseTokens U X ts)" by (auto simp: runsOn_def parseTokens_def)
  then show "parseTokens U X ts \<noteq> PPanic" "parseTokens U X ts \<noteq> PFuel" by (auto simp: answers_def)
qed

lemma tokens_OK:
  assumes "tokens U lx toks = Some (Inr ts)" "\<forall>t \<in> set toks. tk_kind t \<noteq> tkEOF"
  shows "tokensOK ts"
proof -
  let ?Q = "\<lambda>(U :: unicode) (lx :: lexer) toks (out :: lexerr + token list). (\<forall>t \<in> set toks. tk_kind t \<noteq> tkEOF) \<longrightarrow> (\<forall>ts. out = Inr ts \<longrightarrow> tokensOK ts)"
  have "?Q U lx toks (Inr ts)"
  proof (rule tokens.raw_induct [where P = ?Q, OF _ assms(1)])
    fix tk U lx toks out
    assume IH: "\<And>U lx toks y. tk U lx toks = Some y \<Longrightarrow> ?Q U lx toks y"
      and out: "(case lexNext U lx of Inl e \<Rightarrow> Some (Inl e)
        | Inr (t, lx') \<Rightarrow> if tk_kind t = tkEOF then Some (Inr (toks @ [t])) else tk U lx' (toks @ [t])) = Some out"
    show "?Q U lx toks out"
    proof (cases "\<exists>t lx'. lexNext U lx = Inr (t, lx') \<and> tk_kind t \<noteq> tkEOF")
      case True
      then obtain t lx' where t: "lexNext U lx = Inr (t, lx')" "tk_kind t \<noteq> tkEOF" by auto
      with out have "tk U lx' (toks @ [t]) = Some out" by simp
      from IH [OF this] t(2) show ?thesis by simp
    next
      case False
      with out show ?thesis by (auto simp: tokensOK_def split: sum.splits if_splits)
    qed
  qed
  with assms(2) show ?thesis by simp
qed

text \<open>
  C30. Parsing a script always ends without a panic: either the token loop hangs on a rune that is neither letter nor
  digit, or the parser answers statements or an error, within one level of recursion per token and one
  round more than there are tokens in each loop, and no look-ahead leaves the token slice.
\<close>

theorem ParseStatements_total:
  "case ParseStatements U X src of
     None \<Rightarrow> \<exists>lx. starts U \<lparr>lx_src = src, lx_i = 0\<rparr> lx \<and> stuck U lx
   | Some r \<Rightarrow> (\<exists>stmts ts. r = POk stmts ts) \<or> (\<exists>pos msg. r = PErr pos msg)"
proof (cases "lexAll U src")
  case None
  then have "\<exists>lx. starts U \<lparr>lx_src = src, lx_i = 0\<rparr> lx \<and> stuck U lx"
    using tokens_end [of U "\<lparr>lx_src = src, lx_i = 0\<rparr>" "[]"] by (auto simp: lexAll_def)
  then show ?thesis using None by (simp add: ParseStatements_def)
next
  case (Some out)
  show ?thesis
  proof (cases out)
    case (Inl e)
    then show ?thesis using Some by (cases e) (simp add: ParseStatements_def)
  next
    case (Inr toks)
    then have "tokensOK toks" using Some tokens_OK [of U _ "[]"] by (auto simp: lexAll_def)
    from parseTokens_answers [OF this, of U X] Some Inr show ?thesis
      by (cases "parseTokens U X toks") (auto simp: ParseStatements_def)
  qed
qed

end
