(* ===== verification/SQL_Render.thy ===== *)
theory SQL_Render
  imports SQL_Parse_Props SQL_Eval
begin

text \<open>
  Expressions whose rendering needs no parentheses, as token sequences: the parser reads such a sequence back to the
  expression it was made from.
\<close>

section \<open>Renderable expressions\<close>

type_synonym ktok = "tokKind \<times> bytes"

definition kt :: "token \<Rightarrow> ktok" where
  "kt t = (tk_kind t, tk_s t)"

abbreviation KW :: "string \<Rightarrow> ktok" where "KW s \<equiv> (tkKeyword, str s)"
abbreviation OP :: "string \<Rightarrow> ktok" where "OP s \<equiv> (tkOp, str s)"

text \<open>The binding power of an operator, 0 for none, and of an expression.\<close>

definition opPrec :: "bytes \<Rightarrow> nat" where
  "opPrec op =
     (if op = str ''OR'' then 1
      else if op = str ''AND'' then 2
      else if op \<in> set (map str [''='', ''!='', ''LIKE'', ''NOT LIKE'']) then 4
      else if op \<in> set (map str [''<'', ''<='', ''>'', ''>='']) then 5
      else if op \<in> set (map str [''<->'', ''<#>'', ''<=>'', ''&'', ''|'', ''^'']) then 6
      else if op \<in> set (map str [''+'', ''-'']) then 7
      else if op \<in> set (map str [''*'', ''/'', ''%'']) then 8
      else if op = str ''||'' then 9
      else 0)"

fun level :: "Expr \<Rightarrow> nat" where
  "level (Unary op x) = (if op = str ''NOT'' then 3 else 10)"
| "level (Binary op l r) = opPrec op"
| "level (Between x lo hi neg) = 4"
| "level (InList x items sub neg) = 4"
| "level (IsNullE x neg) = 4"
| "level _ = 10"

definition scalarTypes :: "(Type \<times> bytes \<times> ktok list) list" where
  "scalarTypes = map (\<lambda>(t, n, ws). (t, str n, map (\<lambda>w. (tkIdent, str w)) ws))
     [(TypeInt, ''INTEGER'', [''integer'']), (TypeInt, ''BIGINT'', [''bigint'']),
      (TypeDouble, ''DOUBLE PRECISION'', [''double'', ''precision'']), (TypeText, ''TEXT'', [''text'']),
      (TypeBool, ''BOOLEAN'', [''boolean'']), (TypeInt, ''SERIAL'', [''serial'']), (TypeText, ''UUID'', [''uuid'']),
      (TypeBytea, ''BYTEA'', [''bytea'']), (TypeTimestamp, ''TIMESTAMP'', [''timestamp''])]"

definition typeToks :: "Type \<Rightarrow> bytes \<Rightarrow> ktok list" where
  "typeToks t n = (case find (\<lambda>(t', n', ws). t' = t \<and> n' = n) scalarTypes of None \<Rightarrow> [] | Some (t', n', ws) \<Rightarrow> ws)"

definition opToks :: "bytes \<Rightarrow> ktok list" where
  "opToks op = (if op = str ''NOT LIKE'' then [KW ''NOT'', KW ''LIKE'']
     else if op \<in> set (map str [''AND'', ''OR'', ''LIKE'']) then [(tkKeyword, op)] else [(tkOp, op)])"

fun sepToks :: "ktok list list \<Rightarrow> ktok list" where
  "sepToks [] = []"
| "sepToks [ks] = ks"
| "sepToks (ks # ls # kss) = ks @ OP '','' # sepToks (ls # kss)"

definition literalToks :: "Value \<Rightarrow> bytes \<Rightarrow> ktok list" where
  "literalToks v src = (case v_T v of
     TypeNull \<Rightarrow> [KW ''NULL'']
   | TypeBool \<Rightarrow> [if v_B v then KW ''TRUE'' else KW ''FALSE'']
   | TypeText \<Rightarrow> [(tkString, v_S v)]
   | _ \<Rightarrow> if hd src = 45 then [OP ''-'', (tkNumber, tl src)] else [(tkNumber, src)])"

fun exprToks :: "Expr \<Rightarrow> ktok list" where
  "exprToks (Literal v src) = literalToks v src"
| "exprToks (ColumnRef t c) = (if t \<noteq> [] then [(tkIdent, t), OP ''.'', (tkIdent, c)] else [(tkIdent, c)])"
| "exprToks (Unary op x) = (if op = str ''NOT'' then KW ''NOT'' else (tkOp, op)) # exprToks x"
| "exprToks (Binary op l r) = exprToks l @ opToks op @ exprToks r"
| "exprToks (Between x lo hi neg) =
     exprToks x @ (if neg then [KW ''NOT''] else []) @ KW ''BETWEEN'' # exprToks lo @ KW ''AND'' # exprToks hi"
| "exprToks (InList x items sub neg) =
     exprToks x @ (if neg then [KW ''NOT''] else []) @ KW ''IN'' # OP ''('' # sepToks (map exprToks items) @ [OP '')'']"
| "exprToks (IsNullE x neg) = exprToks x @ KW ''IS'' # (if neg then [KW ''NOT''] else []) @ [KW ''NULL'']"
| "exprToks (FuncCall name args star) =
     (tkIdent, name) # OP ''('' # (if star then [OP ''*''] else sepToks (map exprToks args)) @ [OP '')'']"
| "exprToks (Cast x t n dim) = KW ''CAST'' # OP ''('' # exprToks x @ KW ''AS'' # typeToks t n @ [OP '')'']"
| "exprToks _ = []"

text \<open>A literal as the parser makes it, with its spelling; a bytea literal is left out.\<close>

definition numberOK :: "sqlenv \<Rightarrow> Value \<Rightarrow> bytes \<Rightarrow> bool" where
  "numberOK X v s \<longleftrightarrow> s \<noteq> [] \<and>
     (if hasDotOrExp s then \<exists>f. ParseFloat X 64 s = Some f \<and> v = doubleV f else \<exists>i. ParseInt s = Some i \<and> v = intV i)"

definition literalOK :: "sqlenv \<Rightarrow> Value \<Rightarrow> bytes \<Rightarrow> bool" where
  "literalOK X v src \<longleftrightarrow> (case v_T v of
     TypeNull \<Rightarrow> v = nullV \<and> src = str ''NULL''
   | TypeBool \<Rightarrow> v = boolV (v_B v) \<and> src = (if v_B v then str ''true'' else str ''false'')
   | TypeText \<Rightarrow> v = textV (v_S v) \<and> src = [39] @ doubled 39 (v_S v) @ [39] \<and>
       \<not> prefix [92, 120] (v_S v) \<and> \<not> prefix [92, 88] (v_S v)
   | _ \<Rightarrow> (hd src \<noteq> 45 \<and> numberOK X v src) \<or>
       (\<exists>s. src = 45 # s \<and> \<not> hasDotOrExp s \<and> s \<noteq> [] \<and> (\<exists>i. ParseInt src = Some i \<and> v = intV i)) \<or>
       (\<exists>s f. src = 45 # s \<and> hasDotOrExp s \<and> ParseFloat X 64 s = Some f \<and> v = doubleV (fneg f)))"

fun numericLiteral :: "Expr \<Rightarrow> bool" where
  "numericLiteral (Literal v src) \<longleftrightarrow> isNumeric v"
| "numericLiteral _ \<longleftrightarrow> False"

fun isUnary :: "Expr \<Rightarrow> bool" where
  "isUnary (Unary op x) \<longleftrightarrow> True"
| "isUnary _ \<longleftrightarrow> False"

fun renderable :: "unicode \<Rightarrow> sqlenv \<Rightarrow> Expr \<Rightarrow> bool" where
  "renderable U X (Literal v src) \<longleftrightarrow> literalOK X v src"
| "renderable U X (ColumnRef t c) \<longleftrightarrow> True"
| "renderable U X (Unary op x) \<longleftrightarrow> renderable U X x \<and>
     (op = str ''NOT'' \<and> 4 \<le> level x \<or> op = str ''-'' \<and> level x = 10 \<and> \<not> numericLiteral x \<and> \<not> isUnary x)"
| "renderable U X (Binary op l r) \<longleftrightarrow> renderable U X l \<and> renderable U X r \<and> opPrec op \<noteq> 0 \<and> opPrec op \<le> level l \<and> opPrec op < level r"
| "renderable U X (Between x lo hi neg) \<longleftrightarrow> renderable U X x \<and> renderable U X lo \<and> renderable U X hi \<and> 4 \<le> level x \<and> 5 \<le> level lo \<and> 5 \<le> level hi"
| "renderable U X (InList x items sub neg) \<longleftrightarrow> renderable U X x \<and> 4 \<le> level x \<and> sub = None \<and> items \<noteq> [] \<and> (\<forall>i \<in> set items. renderable U X i)"
| "renderable U X (IsNullE x neg) \<longleftrightarrow> renderable U X x \<and> 4 \<le> level x"
| "renderable U X (FuncCall name args star) \<longleftrightarrow> ToLower U name = name \<and> (if star then args = [] else \<forall>a \<in> set args. renderable U X a)"
| "renderable U X (Cast x t n dim) \<longleftrightarrow> renderable U X x \<and> dim = 0 \<and> typeToks t n \<noteq> []"
| "renderable U X _ \<longleftrightarrow> False"

section \<open>Reading tokens\<close>

lemma isTok_kt: "isTok k s t \<longleftrightarrow> kt t = (k, str s)"
  by (auto simp: isTok_def kt_def)

lemma peek_Cons: "peek (t # us) = POk t (t # us)"
  by (simp add: peek_def)

lemma nextTok_Cons: "us \<noteq> [] \<Longrightarrow> nextTok (t # us) = POk t us"
  by (simp add: nextTok_def)

lemma pbind_POk: "p ts = POk x us \<Longrightarrow> pbind p f ts = f x us"
  by (simp add: pbind_def)

lemma pbind_peek: "pbind peek f (t # us) = f t (t # us)"
  by (simp add: pbind_def peek_def)

lemma pbind_next: "us \<noteq> [] \<Longrightarrow> pbind nextTok f (t # us) = f t us"
  by (simp add: pbind_def nextTok_def)

lemma acceptTok_Cons: "us \<noteq> [] \<Longrightarrow> acceptTok k s (t # us) = (if kt t = (k, str s) then POk True us else POk False (t # us))"
  by (simp add: acceptTok_def pbind_peek pthen_def pbind_next isTok_kt ret_def)

lemma acceptTok_no: "kt t \<noteq> (k, str s) \<Longrightarrow> acceptTok k s (t # us) = POk False (t # us)"
  by (simp add: acceptTok_def pbind_peek isTok_kt ret_def)

lemma expectKw_Cons: "us \<noteq> [] \<Longrightarrow> kt t = KW s \<Longrightarrow> expectKw s (t # us) = POk () us"
  by (simp add: expectKw_def acceptKw_def pbind_def acceptTok_Cons ret_def)

lemma expectOp_Cons: "us \<noteq> [] \<Longrightarrow> kt t = OP s \<Longrightarrow> expectOp s (t # us) = POk () us"
  by (simp add: expectOp_def acceptOp_def pbind_def acceptTok_Cons ret_def)

text \<open>What may follow an expression: no call, no qualified name, no cast.\<close>

definition mayFollow :: "token list \<Rightarrow> bool" where
  "mayFollow r \<longleftrightarrow> r \<noteq> [] \<and> kt (hd r) \<noteq> OP ''('' \<and> kt (hd r) \<noteq> OP ''.'' \<and> kt (hd r) \<noteq> OP ''::''"

lemma parseCastSuffix_none: "mayFollow r \<Longrightarrow> parseCastSuffix e r = POk e r"
  by (cases r) (simp_all add: parseCastSuffix_def whileP_def pbind_def acceptOp_def acceptTok_no mayFollow_def ret_def)

text \<open>A loop whose rounds consume, unrolled once.\<close>

lemma loopP_rounds:
  assumes "\<And>s. runs n (\<lambda>x. case x of Inl s' \<Rightarrow> 1 | Inr r \<Rightarrow> 0) (body s)" "tokensOK ts" "length ts \<le> n" "length ts < k" "length ts < l"
  shows "loopP k body s ts = loopP l body s ts"
  using assms(2-)
proof (induction k arbitrary: l s ts)
  case (Suc k)
  then obtain l' where l: "l = Suc l'" by (cases l) auto
  have a: "answers (\<lambda>x. case x of Inl s' \<Rightarrow> 1 | Inr r \<Rightarrow> 0) (length ts) (body s ts)" using assms(1) Suc.prems unfolding runsOn_def by blast
  show ?case
  proof (cases "\<exists>s' us. body s ts = POk (Inl s') us")
    case True
    then obtain s' us where b: "body s ts = POk (Inl s') us" by auto
    with a have us: "tokensOK us" "length us + 1 \<le> length ts" by (auto simp: answers_def)
    with Suc.prems l have "loopP k body s' us = loopP l' body s' us" by (intro Suc.IH) auto
    with b l show ?thesis by (simp add: pbind_def)
  next
    case False
    with l show ?thesis by (auto simp: pbind_def split: presult.splits sum.splits)
  qed
qed simp

lemma whileP_unroll:
  assumes body: "\<And>s. runs n (\<lambda>x. case x of Inl s' \<Rightarrow> 1 | Inr r \<Rightarrow> 0) (body s)" and ok: "tokensOK ts" "length ts \<le> n"
    and step: "body s ts = POk (Inl s') us"
  shows "whileP body s ts = whileP body s' us"
proof -
  have us: "tokensOK us" "length us + 1 \<le> length ts" using body [of s] ok step by (auto simp: runsOn_def answers_def dest!: spec [of _ ts])
  then have "loopP (length ts) body s' us = loopP (Suc (length us)) body s' us" using ok by (intro loopP_rounds [OF body]) auto
  with step show ?thesis by (simp add: whileP_def pbind_def)
qed

lemma whileP_exit: "body s ts = POk (Inr x) us \<Longrightarrow> whileP body s ts = POk x us"
  by (simp add: whileP_def pbind_def ret_def)

section \<open>Reading an expression\<close>

text \<open>
  The parser, given the tokens of the expression and what follows them, reaches its loop with the expression; an
  operand is read outright.
\<close>

definition fits :: "Expr \<Rightarrow> token list \<Rightarrow> token list \<Rightarrow> nat \<Rightarrow> bool" where
  "fits e ts r n \<longleftrightarrow> map kt ts = exprToks e \<and> tokensOK (ts @ r) \<and> length (ts @ r) \<le> Suc n \<and> mayFollow r \<and>
     (\<exists>p \<le> level e. infixPrec r = POk p r)"

definition reads :: "unicode \<Rightarrow> sqlenv \<Rightarrow> Expr \<Rightarrow> bool" where
  "reads U X e \<longleftrightarrow> (\<forall>n m ts r. fits e ts r n \<longrightarrow> m \<le> level e \<longrightarrow>
     parseExpr U X (parserAt U X n) m (ts @ r) = whileP (prattStep (parserAt U X n) m) e r)"

definition readsUnary :: "unicode \<Rightarrow> sqlenv \<Rightarrow> Expr \<Rightarrow> bool" where
  "readsUnary U X e \<longleftrightarrow> (\<forall>n ts r. fits e ts r n \<longrightarrow> parseUnary U X (parserAt U X n) (ts @ r) = POk e r)"

lemma readsUnary_reads: "readsUnary U X e \<Longrightarrow> reads U X e"
  by (simp add: reads_def readsUnary_def parseExpr_def pbind_def)

lemma prattStep_exit: "infixPrec r = POk p r \<Longrightarrow> p = 0 \<or> p < m \<Longrightarrow> prattStep P m e r = POk (Inr e) r"
  by (auto simp: prattStep_def pbind_def ret_def)

lemma parseExpr_reads:
  assumes "reads U X e" "fits e ts r n" "m \<le> level e" "infixPrec r = POk p r" "p = 0 \<or> p < m"
  shows "parseExpr U X (parserAt U X n) m (ts @ r) = POk e r"
  using assms by (simp add: reads_def whileP_exit [OF prattStep_exit])

lemma pExpr_reads:
  assumes "reads U X e" "map kt ts = exprToks e" "tokensOK (ts @ r)" "length (ts @ r) \<le> n" "mayFollow r"
    "infixPrec r = POk p r" "p = 0 \<or> p < m" "m \<le> level e"
  shows "pExpr (parserAt U X n) m (ts @ r) = POk e r"
proof -
  obtain n' where n: "n = Suc n'" using assms(3,4) by (cases n) auto
  have "p \<le> level e" using assms(7,8) by auto
  with assms n have "fits e ts r n'" by (auto simp: fits_def)
  from parseExpr_reads [OF assms(1) this assms(8,6,7)] n show ?thesis by simp
qed

lemma tokensOK_append: "tokensOK (ts @ r) \<Longrightarrow> r \<noteq> [] \<Longrightarrow> tokensOK r"
  by (induction ts) (auto simp: tokensOK_Cons split: if_splits)

subsection \<open>Operators\<close>

lemma prattStep_go:
  assumes "infixPrec (o1 # us) = POk p (o1 # us)" "p \<noteq> 0" "m \<le> p" "us \<noteq> []" "infixTail P p o1 l us = POk e r"
  shows "prattStep P m l (o1 # us) = POk (Inl e) r"
  using assms by (simp add: prattStep_def pbind_def nextTok_def ret_def)

text \<open>An expression read as a left operand and a tail.\<close>

lemma infix_reads:
  assumes l: "reads U X l" and lev: "level e \<le> level l" "level e \<noteq> 0"
    and toks: "exprToks e = exprToks l @ ks" "ks \<noteq> []"
    and tail: "\<And>n o1 us r. map kt (o1 # us) = ks \<Longrightarrow> tokensOK (us @ r) \<Longrightarrow> length (us @ r) \<le> n \<Longrightarrow> mayFollow r \<Longrightarrow>
        \<exists>p \<le> level e. infixPrec r = POk p r \<Longrightarrow>
      mayFollow (o1 # us @ r) \<and> infixPrec (o1 # us @ r) = POk (level e) (o1 # us @ r) \<and>
      infixTail (parserAt U X n) (level e) o1 l (us @ r) = POk e r"
  shows "reads U X e"
  unfolding reads_def
proof (intro allI impI)
  fix n m ts r
  assume f: "fits e ts r n" and m: "m \<le> level e"
  let ?P = "parserAt U X n"
  have "map kt ts = exprToks l @ ks" using f toks by (simp add: fits_def)
  then obtain ts1 ts2 where "ts = ts1 @ ts2" "map kt ts1 = exprToks l" "map kt ts2 = ks" by (auto simp: map_eq_append_conv)
  moreover from this toks(2) obtain o1 us where "ts2 = o1 # us" by (cases ts2) auto
  ultimately have ts: "ts = ts1 @ o1 # us" "map kt ts1 = exprToks l" "map kt (o1 # us) = ks" by simp_all
  have r: "mayFollow r" "r \<noteq> []" "\<exists>p \<le> level e. infixPrec r = POk p r" using f by (auto simp: fits_def mayFollow_def)
  have ok: "tokensOK (o1 # us @ r)" using f r(2) ts(1) tokensOK_append [of ts1 "o1 # us @ r"] by (auto simp: fits_def)
  then have ok': "tokensOK (us @ r)" using r(2) by (simp add: tokensOK_Cons)
  have len: "length (us @ r) \<le> n" "length (o1 # us @ r) \<le> Suc n" using f ts(1) by (auto simp: fits_def)
  note t = tail [OF ts(3) ok' len(1) r(1,3)]
  have "fits l ts1 (o1 # us @ r) n" using f ts t lev by (auto simp: fits_def)
  with l m lev have "parseExpr U X ?P m (ts1 @ o1 # us @ r) = whileP (prattStep ?P m) l (o1 # us @ r)" by (auto simp: reads_def)
  also have "prattStep ?P m l (o1 # us @ r) = POk (Inl e) r" using t m lev r(2) by (intro prattStep_go) auto
  then have "whileP (prattStep ?P m) l (o1 # us @ r) = whileP (prattStep ?P m) e r"
    using ok len by (intro whileP_unroll [OF runs_prattStep [OF good_parserAt order_refl]]) auto
  finally show "parseExpr U X ?P m (ts @ r) = whileP (prattStep ?P m) e r" using ts(1) by simp
qed

lemma infixPrec_op: "kt t = (tkOp, op) \<Longrightarrow> opPrec op \<noteq> 0 \<Longrightarrow> op \<notin> set (map str [''OR'', ''AND'', ''LIKE'', ''NOT LIKE'']) \<Longrightarrow>
  infixPrec (t # us) = POk (opPrec op) (t # us)"
  by (auto simp: infixPrec_def pbind_peek kt_def opPrec_def Let_def split: if_splits)

lemma infixPrec_keyword:
  "kt t = KW ''OR'' \<Longrightarrow> infixPrec (t # us) = POk 1 (t # us)"
  "kt t = KW ''AND'' \<Longrightarrow> infixPrec (t # us) = POk 2 (t # us)"
  "kt t \<in> {KW ''IS'', KW ''IN'', KW ''LIKE'', KW ''BETWEEN''} \<Longrightarrow> infixPrec (t # us) = POk 4 (t # us)"
  "kt t = KW ''NOT'' \<Longrightarrow> kt u \<in> {KW ''LIKE'', KW ''IN'', KW ''BETWEEN''} \<Longrightarrow> infixPrec (t # u # us) = POk 4 (t # u # us)"
  "kt t \<in> {KW ''AS'', KW ''FROM''} \<Longrightarrow> infixPrec (t # us) = POk 0 (t # us)"
  by (auto simp: infixPrec_def pbind_peek kt_def isTok_def Let_def)

lemma infixPrec_close: "kt t \<in> {OP '','', OP '')'', (tkEOF, s)} \<Longrightarrow> infixPrec (t # us) = POk 0 (t # us)"
  by (auto simp: infixPrec_def pbind_peek kt_def Let_def)

lemma binary_reads:
  assumes "reads U X l" "reads U X r" "renderable U X (Binary op l r)"
  shows "reads U X (Binary op l r)"
proof (rule infix_reads [OF assms(1)])
  show "level (Binary op l r) \<le> level l" "level (Binary op l r) \<noteq> 0" "exprToks (Binary op l r) = exprToks l @ (opToks op @ exprToks r)"
    "opToks op @ exprToks r \<noteq> []"
    using assms(3) by (simp_all add: opToks_def)
  fix n o1 us r'
  assume ks: "map kt (o1 # us) = opToks op @ exprToks r" and ok: "tokensOK (us @ r')" and len: "length (us @ r') \<le> n" and fol: "mayFollow r'"
    and p: "\<exists>p \<le> level (Binary op l r). infixPrec r' = POk p r'"
  let ?P = "parserAt U X n"
  from p obtain p' where p': "p' \<le> opPrec op" "infixPrec r' = POk p' r'" by auto
  have rhs: "pExpr ?P (opPrec op + 1) (vs @ r') = POk r r'"
    if "map kt vs = exprToks r" "tokensOK (vs @ r')" "length (vs @ r') \<le> n" for vs
    using assms that fol p' by (intro pExpr_reads [OF assms(2) that fol p'(2)]) auto
  show "mayFollow (o1 # us @ r') \<and> infixPrec (o1 # us @ r') = POk (level (Binary op l r)) (o1 # us @ r') \<and>
      infixTail ?P (level (Binary op l r)) o1 l (us @ r') = POk (Binary op l r) r'"
  proof (cases "op = str ''NOT LIKE''")
    case True
    then obtain u vs where us: "us = u # vs" "kt o1 = KW ''NOT''" "kt u = KW ''LIKE''" "map kt vs = exprToks r"
      using ks by (auto simp: opToks_def)
    moreover have "vs @ r' \<noteq> []" using fol by (auto simp: mayFollow_def)
    moreover have "tokensOK (vs @ r')" using ok us(1) \<open>vs @ r' \<noteq> []\<close> by (auto simp: tokensOK_Cons)
    ultimately show ?thesis using rhs [of vs] len True
      by (auto simp: mayFollow_def infixPrec_keyword infixTail_def notTail_def isTok_kt opPrec_def pbind_def acceptKw_def acceptTok_Cons ret_def)
  next
    case False
    then have us: "map kt us = exprToks r" and o1: "kt o1 = (if op \<in> set (map str [''AND'', ''OR'', ''LIKE'']) then tkKeyword else tkOp, op)"
      using ks by (auto simp: opToks_def split: if_splits)
    have nz: "opPrec op \<noteq> 0" using assms(3) by simp
    show ?thesis
    proof (cases "op \<in> set (map str [''AND'', ''OR'', ''LIKE''])")
      case True
      then show ?thesis using o1 rhs [OF us ok len]
        by (auto simp: mayFollow_def infixPrec_keyword infixTail_def isTok_kt opPrec_def pbind_def ret_def kt_def)
    next
      case sym: False
      then have k: "kt o1 = (tkOp, op)" using o1 by simp
      have "op \<noteq> str ''(''" "op \<noteq> str ''.''" "op \<noteq> str ''::''" using nz by (auto simp: opPrec_def)
      then show ?thesis using k rhs [OF us ok len] sym False nz infixPrec_op [OF k nz]
        by (auto simp: mayFollow_def infixTail_def isTok_kt pbind_def ret_def kt_def)
    qed
  qed
qed

lemma isNull_reads:
  assumes "reads U X x" "4 \<le> level x"
  shows "reads U X (IsNullE x neg)"
proof (rule infix_reads [OF assms(1)])
  fix n o1 us r
  assume ks: "map kt (o1 # us) = KW ''IS'' # (if neg then [KW ''NOT''] else []) @ [KW ''NULL'']" and fol: "mayFollow r"
  have "r \<noteq> []" using fol by (simp add: mayFollow_def)
  with ks show "mayFollow (o1 # us @ r) \<and> infixPrec (o1 # us @ r) = POk (level (IsNullE x neg)) (o1 # us @ r) \<and>
      infixTail (parserAt U X n) (level (IsNullE x neg)) o1 x (us @ r) = POk (IsNullE x neg) r"
    by (cases neg) (auto simp: mayFollow_def infixPrec_keyword infixTail_def isTail_def isTok_kt pthen_def pbind_def acceptKw_def
      acceptTok_Cons expectKw_Cons ret_def)
qed (use assms(2) in simp_all)

lemma betweenTail_reads:
  assumes "reads U X lo" "reads U X hi" "5 \<le> level lo" "5 \<le> level hi"
    and ts: "map kt ts = exprToks lo @ KW ''AND'' # exprToks hi" and ok: "tokensOK (ts @ r)" and len: "length (ts @ r) \<le> n"
    and r: "mayFollow r" "infixPrec r = POk p r" "p \<le> 4"
  shows "parseBetweenTail (parserAt U X n) x neg (ts @ r) = POk (Between x lo hi neg) r"
proof -
  from ts obtain us a vs where ts': "ts = us @ a # vs" "map kt us = exprToks lo" "kt a = KW ''AND''" "map kt vs = exprToks hi"
    by (auto simp: map_eq_append_conv map_eq_Cons_conv)
  have ne: "vs @ r \<noteq> []" using r(1) by (auto simp: mayFollow_def)
  have "tokensOK (a # vs @ r)" using ok ts'(1) tokensOK_append [of us "a # vs @ r"] by simp
  then have ok2: "tokensOK (vs @ r)" using ne by (simp add: tokensOK_Cons split: if_splits)
  have "pExpr (parserAt U X n) 5 (us @ a # vs @ r) = POk lo (a # vs @ r)"
    using assms(1,3) ok len ts' by (intro pExpr_reads [where p = 2]) (auto simp: mayFollow_def infixPrec_keyword)
  moreover have "pExpr (parserAt U X n) 5 (vs @ r) = POk hi r"
    using assms(2,4) ok2 len ts' r by (intro pExpr_reads [where p = p]) auto
  ultimately show ?thesis using ts' ne by (simp add: parseBetweenTail_def pthen_def pbind_def expectKw_Cons ret_def)
qed

lemma between_reads:
  assumes "reads U X x" "reads U X lo" "reads U X hi" "4 \<le> level x" "5 \<le> level lo" "5 \<le> level hi"
  shows "reads U X (Between x lo hi neg)"
proof (rule infix_reads [OF assms(1)])
  fix n o1 us r
  assume ks: "map kt (o1 # us) = (if neg then [KW ''NOT''] else []) @ KW ''BETWEEN'' # exprToks lo @ KW ''AND'' # exprToks hi"
    and ok: "tokensOK (us @ r)" and len: "length (us @ r) \<le> n" and fol: "mayFollow r"
    and "\<exists>p \<le> level (Between x lo hi neg). infixPrec r = POk p r"
  then obtain p where p: "p \<le> 4" "infixPrec r = POk p r" by auto
  note tail = betweenTail_reads [OF assms(2,3,5,6) _ _ _ fol p(2,1)]
  show "mayFollow (o1 # us @ r) \<and> infixPrec (o1 # us @ r) = POk (level (Between x lo hi neg)) (o1 # us @ r) \<and>
      infixTail (parserAt U X n) (level (Between x lo hi neg)) o1 x (us @ r) = POk (Between x lo hi neg) r"
  proof (cases neg)
    case True
    then obtain b vs where us: "us = b # vs" "kt o1 = KW ''NOT''" "kt b = KW ''BETWEEN''" "map kt vs = exprToks lo @ KW ''AND'' # exprToks hi"
      using ks by auto
    have ne: "vs @ r \<noteq> []" using fol by (auto simp: mayFollow_def)
    then have "tokensOK (vs @ r)" "length (vs @ r) \<le> n" using ok len us(1) by (auto simp: tokensOK_Cons)
    from tail [OF us(4) this, of x neg] True us ne show ?thesis
      by (auto simp: mayFollow_def infixPrec_keyword infixTail_def notTail_def isTok_kt pbind_def acceptKw_def acceptTok_Cons ret_def)
  next
    case False
    then have "kt o1 = KW ''BETWEEN''" "map kt us = exprToks lo @ KW ''AND'' # exprToks hi" using ks by auto
    with tail [OF this(2) ok len, of x neg] False show ?thesis
      by (auto simp: mayFollow_def infixPrec_keyword infixTail_def isTok_kt)
  qed
qed (use assms(4) in simp_all)

subsection \<open>Lists\<close>

lemma commaList_reads:
  assumes "\<forall>e \<in> set es. reads U X e \<and> 1 \<le> level e" "es \<noteq> []" "map kt ts = sepToks (map exprToks es)"
    "tokensOK (ts @ c # r)" "length (ts @ c # r) \<le> n" "kt c = OP '')''"
  shows "whileP (\<lambda>out. pbind (pExpr (parserAt U X n) 1) (\<lambda>x. pbind (acceptOp '','') (\<lambda>b. ret (if b then Inl (out @ [x]) else Inr (out @ [x])))))
    acc (ts @ c # r) = POk (acc @ es) (c # r)"
  using assms
proof (induction es arbitrary: acc ts rule: induct_list012)
  case (2 e)
  then have "pExpr (parserAt U X n) 1 (ts @ c # r) = POk e (c # r)"
    by (intro pExpr_reads [where p = 0]) (auto simp: mayFollow_def infixPrec_close)
  with 2(6) show ?case
    by (intro whileP_exit) (simp add: pbind_def acceptOp_def acceptTok_no ret_def)
next
  case (3 e f es)
  let ?P = "parserAt U X n"
  let ?body = "\<lambda>out. pbind (pExpr ?P 1) (\<lambda>x. pbind (acceptOp '','') (\<lambda>b. ret (if b then Inl (out @ [x]) else Inr (out @ [x]))))"
  from 3(5) obtain us d vs where ts: "ts = us @ d # vs" "map kt us = exprToks e" "kt d = OP '',''" "map kt vs = sepToks (map exprToks (f # es))"
    by (auto simp: map_eq_append_conv map_eq_Cons_conv)
  have ok: "tokensOK (d # vs @ c # r)" using 3(6) ts(1) tokensOK_append [of us "d # vs @ c # r"] by simp
  have "pExpr ?P 1 (us @ d # vs @ c # r) = POk e (d # vs @ c # r)"
    using 3 ts by (intro pExpr_reads [where p = 0]) (auto simp: mayFollow_def infixPrec_close)
  then have "?body acc (ts @ c # r) = POk (Inl (acc @ [e])) (vs @ c # r)"
    using ts by (simp add: pbind_def acceptOp_def acceptTok_Cons ret_def)
  moreover have "runs n (\<lambda>x. case x of Inl s' \<Rightarrow> 1 | Inr r \<Rightarrow> 0) (?body out)" for out
    by (rule runs_intro good_parserAt | simp)+
  ultimately have "whileP ?body acc (ts @ c # r) = whileP ?body (acc @ [e]) (vs @ c # r)"
    using 3(6,7) by (intro whileP_unroll) auto
  also have "\<dots> = POk ((acc @ [e]) @ f # es) (c # r)"
    using 3 ts ok by (intro 3(2)) (auto simp: tokensOK_Cons)
  finally show ?case by simp
qed simp

lemma exprList_reads:
  assumes "\<forall>e \<in> set es. reads U X e \<and> 1 \<le> level e" "es \<noteq> []" "map kt ts = sepToks (map exprToks es)"
    "tokensOK (ts @ c # r)" "length (ts @ c # r) \<le> n" "kt c = OP '')''"
  shows "commaList (pExpr (parserAt U X n) 1) (ts @ c # r) = POk es (c # r)"
  using commaList_reads [OF assms, of "[]"] by (simp add: commaList_def)

definition startsExpr :: "ktok list \<Rightarrow> bool" where
  "startsExpr ks \<longleftrightarrow> (\<exists>k ls. ks = k # ls \<and> k \<notin> {KW ''SELECT'', KW ''DISTINCT'', KW ''ALL'', OP ''*'', OP '')''})"

lemma startsExpr_append [simp]: "startsExpr ks \<Longrightarrow> startsExpr (ks @ ls)"
  by (auto simp: startsExpr_def)

lemma startsExpr_Cons: "startsExpr (k # ks) \<longleftrightarrow> k \<notin> {KW ''SELECT'', KW ''DISTINCT'', KW ''ALL'', OP ''*'', OP '')''}"
  by (simp add: startsExpr_def)

lemma exprToks_first: "renderable U X e \<Longrightarrow> startsExpr (exprToks e)"
proof (induction e)
  case (Literal v src)
  then show ?case by (cases "v_T v") (auto simp: literalToks_def startsExpr_Cons)
next
  case (Unary op x)
  then show ?case by (auto simp: startsExpr_Cons)
qed (simp_all add: startsExpr_Cons)

lemma sepToks_first: "es \<noteq> [] \<Longrightarrow> \<forall>e \<in> set es. renderable U X e \<Longrightarrow> startsExpr (sepToks (map exprToks es))"
  by (cases es rule: remdups_adj.cases) (auto intro!: startsExpr_append intro: exprToks_first simp del: str_simps)

lemma inRHS_reads:
  assumes "\<forall>e \<in> set es. reads U X e \<and> 1 \<le> level e \<and> renderable U X e" "es \<noteq> []"
    "map kt ts = OP ''('' # sepToks (map exprToks es) @ [OP '')'']" "tokensOK (ts @ r)" "length (ts @ r) \<le> n" "r \<noteq> []"
  shows "parseInRHS (parserAt U X n) (ts @ r) = POk (es, None) r"
proof -
  from assms(3) obtain a us c where ts: "ts = a # us @ [c]" "kt a = OP ''(''" "map kt us = sepToks (map exprToks es)" "kt c = OP '')''"
    by (auto simp: map_eq_append_conv map_eq_Cons_conv)
  obtain u us' where us: "us = u # us'" "kt u \<noteq> KW ''SELECT''" using sepToks_first [of es U X] assms(1,2) ts(3) by (auto simp: startsExpr_def)
  have ok: "tokensOK (us @ c # r)" using assms(4) ts(1) by (simp add: tokensOK_Cons)
  have "commaList (pExpr (parserAt U X n) 1) (us @ c # r) = POk es (c # r)"
    using assms ts ok by (intro exprList_reads) auto
  then show ?thesis using ts us assms(6)
    by (simp add: parseInRHS_def parseExprList_def peekIsOp_def peekAheadKw_def isTok_kt pthen_def pbind_def peek_def expectOp_Cons ret_def)
qed

lemma inList_reads:
  assumes "reads U X x" "\<forall>e \<in> set es. reads U X e \<and> 1 \<le> level e \<and> renderable U X e" "4 \<le> level x" "es \<noteq> []"
  shows "reads U X (InList x es None neg)"
proof (rule infix_reads [OF assms(1)])
  fix n o1 us r
  assume ks: "map kt (o1 # us) = (if neg then [KW ''NOT''] else []) @ KW ''IN'' # OP ''('' # sepToks (map exprToks es) @ [OP '')'']"
    and ok: "tokensOK (us @ r)" and len: "length (us @ r) \<le> n" and fol: "mayFollow r"
  have r: "r \<noteq> []" using fol by (simp add: mayFollow_def)
  show "mayFollow (o1 # us @ r) \<and> infixPrec (o1 # us @ r) = POk (level (InList x es None neg)) (o1 # us @ r) \<and>
      infixTail (parserAt U X n) (level (InList x es None neg)) o1 x (us @ r) = POk (InList x es None neg) r"
  proof (cases neg)
    case True
    then obtain b vs where us: "us = b # vs" "kt o1 = KW ''NOT''" "kt b = KW ''IN''" "map kt vs = OP ''('' # sepToks (map exprToks es) @ [OP '')'']"
      using ks by auto
    then have "tokensOK (vs @ r)" "length (vs @ r) \<le> n" using ok len r by (auto simp: tokensOK_Cons)
    from inRHS_reads [OF assms(2,4) us(4) this r] True us r show ?thesis
      by (auto simp: mayFollow_def infixPrec_keyword infixTail_def notTail_def isTok_kt pbind_def acceptKw_def acceptTok_Cons ret_def)
  next
    case False
    then have o1: "kt o1 = KW ''IN''" and us: "map kt us = OP ''('' # sepToks (map exprToks es) @ [OP '')'']" using ks by auto
    from inRHS_reads [OF assms(2,4) us ok len r] o1 False show ?thesis
      by (auto simp: mayFollow_def infixPrec_keyword infixTail_def isTok_kt pbind_def ret_def)
  qed
qed (use assms(3) in simp_all)

subsection \<open>Operands\<close>

text \<open>A token that starts neither a signed nor a negated operand.\<close>

lemma parseUnary_postfix:
  assumes "kt t \<noteq> OP ''-''" "kt t \<noteq> OP ''+''" "kt t \<noteq> KW ''NOT''" "parsePrimary U X P (t # us) = POk e r" "mayFollow r"
  shows "parseUnary U X P (t # us) = POk e r"
  using assms by (simp add: parseUnary_def pbind_peek isTok_kt parsePostfix_def pbind_POk parseCastSuffix_none)

lemma columnRef_reads: "readsUnary U X (ColumnRef t c)"
  unfolding readsUnary_def
proof (intro allI impI)
  fix n ts r
  assume f: "fits (ColumnRef t c) ts r n"
  then have r: "mayFollow r" "r \<noteq> []" by (auto simp: fits_def mayFollow_def)
  then obtain a r' where r': "r = a # r'" by (cases r) auto
  have dot: "kt a \<noteq> OP ''.''" "kt a \<noteq> OP ''(''" using r r' by (auto simp: mayFollow_def)
  show "parseUnary U X (parserAt U X n) (ts @ r) = POk (ColumnRef t c) r"
  proof (cases "t = []")
    case True
    then obtain u where u: "ts = [u]" "kt u = (tkIdent, c)" using f by (auto simp: fits_def)
    then have "tk_kind u = tkIdent" "tk_s u = c" by (auto simp: kt_def)
    then have "parsePrimary U X (parserAt U X n) (u # r) = POk (ColumnRef [] c) r"
      using r' dot by (simp add: parsePrimary_def pbind_def peek_def nextTok_def pthen_def acceptOp_def acceptTok_no ret_def)
    with u r True show ?thesis by (auto intro!: parseUnary_postfix)
  next
    case False
    then obtain u v w where ts: "ts = [u, v, w]" "kt u = (tkIdent, t)" "kt v = OP ''.''" "kt w = (tkIdent, c)"
      using f by (auto simp: fits_def)
    then have "tk_kind u = tkIdent" "tk_s u = t" "tk_kind w = tkIdent" "tk_s w = c" by (auto simp: kt_def)
    then have "parsePrimary U X (parserAt U X n) (u # v # w # r) = POk (ColumnRef t c) r"
      using ts r by (simp add: parsePrimary_def pbind_def peek_def nextTok_def pthen_def acceptOp_def acceptTok_Cons ident_def ret_def)
    with ts r False show ?thesis by (auto intro!: parseUnary_postfix)
  qed
qed

lemma numberLiteral_OK: "numberOK X v s \<Longrightarrow> tk_s t = s \<Longrightarrow> numberLiteral X t = ret (Literal v s)"
  by (auto simp: numberOK_def numberLiteral_def split: if_splits)

lemma number_unary:
  assumes "numberOK X v s" "kt t = (tkNumber, s)" "mayFollow r"
  shows "parseUnary U X P (t # r) = POk (Literal v s) r"
proof -
  have k: "tk_kind t = tkNumber" "tk_s t = s" using assms(2) by (auto simp: kt_def)
  have "r \<noteq> []" using assms(3) by (simp add: mayFollow_def)
  then have "parsePrimary U X P (t # r) = POk (Literal v s) r"
    by (simp add: parsePrimary_def pbind_peek k pthen_def pbind_next numberLiteral_OK [OF assms(1) k(2)] ret_def)
  with assms show ?thesis by (intro parseUnary_postfix) auto
qed

lemma keyword_primary:
  assumes "tk_kind t = tkKeyword" "tk_s t = str w" "r \<noteq> []"
  shows "w = ''NULL'' \<Longrightarrow> parsePrimary U X P (t # r) = POk (Literal nullV (str ''NULL'')) r"
    "w = ''TRUE'' \<Longrightarrow> parsePrimary U X P (t # r) = POk (Literal (boolV True) (str ''true'')) r"
    "w = ''FALSE'' \<Longrightarrow> parsePrimary U X P (t # r) = POk (Literal (boolV False) (str ''false'')) r"
  using assms by (simp_all add: parsePrimary_def pbind_peek pthen_def pbind_next ret_def)

lemma string_primary:
  assumes "tk_kind t = tkString" "tk_s t = s" "\<not> prefix [92, 120] s" "\<not> prefix [92, 88] s" "r \<noteq> []"
  shows "parsePrimary U X P (t # r) = POk (Literal (textV s) ([39] @ doubled 39 s @ [39])) r"
  using assms by (simp add: parsePrimary_def pbind_peek pthen_def pbind_next ret_def Let_def)

lemma literal_reads:
  assumes "literalOK X v src"
  shows "readsUnary U X (Literal v src)"
  unfolding readsUnary_def
proof (intro allI impI)
  fix n ts r
  let ?P = "parserAt U X n"
  assume f: "fits (Literal v src) ts r n"
  then have r: "mayFollow r" "r \<noteq> []" and toks: "map kt ts = literalToks v src" by (auto simp: fits_def mayFollow_def)
  have prim: "parseUnary U X ?P (ts @ r) = POk (Literal v src) r" if "ts = [t]" "tk_kind t = k" "tk_s t = s" "k \<in> {tkString, tkKeyword}"
      "(k, s) \<noteq> KW ''NOT''" "parsePrimary U X ?P (t # r) = POk (Literal v src) r" for t k s
    using that r by (auto intro!: parseUnary_postfix simp: kt_def)
  show "parseUnary U X ?P (ts @ r) = POk (Literal v src) r"
  proof (cases "isNumeric v")
    case False
    then consider (n) "v = nullV" "src = str ''NULL''" | (b) b where "v = boolV b" "src = (if b then str ''true'' else str ''false'')"
      | (t) s where "v = textV s" "src = [39] @ doubled 39 s @ [39]" "\<not> prefix [92, 120] s" "\<not> prefix [92, 88] s"
      | (o) "v_T v \<notin> {TypeNull, TypeBool, TypeText, TypeInt, TypeDouble}"
      using assms by (cases "v_T v") (auto simp: literalOK_def isNumeric_def)
    then show ?thesis
    proof cases
      case n
      with toks obtain t where "ts = [t]" "tk_kind t = tkKeyword" "tk_s t = str ''NULL''" by (auto simp: literalToks_def kt_def value_defs)
      then show ?thesis using n keyword_primary(1) [OF _ _ r(2)] by (intro prim) auto
    next
      case b
      with toks obtain t where "ts = [t]" "tk_kind t = tkKeyword" "tk_s t = (if b then str ''TRUE'' else str ''FALSE'')"
        by (cases b) (auto simp: literalToks_def kt_def value_defs)
      then show ?thesis using b keyword_primary(2,3) [OF _ _ r(2)] by (cases b; intro prim) auto
    next
      case t
      with toks obtain u where "ts = [u]" "tk_kind u = tkString" "tk_s u = s" by (auto simp: literalToks_def kt_def value_defs)
      then show ?thesis using t(1,2) string_primary [OF _ _ t(3,4) r(2)] by (intro prim) auto
    next
      case o
      then show ?thesis using assms by (cases "v_T v") (auto simp: literalOK_def numberOK_def value_defs split: if_splits)
    qed
  next
    case num: True
    have ty: "literalToks v src = (if hd src = 45 then [OP ''-'', (tkNumber, tl src)] else [(tkNumber, src)])"
      using num by (auto simp: literalToks_def isNumeric_def)
    consider (p) "hd src \<noteq> 45" "numberOK X v src"
      | (i) s i where "src = 45 # s" "\<not> hasDotOrExp s" "ParseInt src = Some i" "v = intV i"
      | (d) s g where "src = 45 # s" "hasDotOrExp s" "ParseFloat X 64 s = Some g" "v = doubleV (fneg g)"
      using assms num by (auto simp: literalOK_def isNumeric_def)
    then show ?thesis
    proof cases
      case p
      with toks ty obtain t where "ts = [t]" "kt t = (tkNumber, src)" by auto
      with p r show ?thesis by (simp add: number_unary)
    next
      case i
      with toks ty obtain a t where ts: "ts = [a, t]" "kt a = OP ''-''" "tk_kind t = tkNumber" "tk_s t = s" by (auto simp: kt_def)
      with i r show ?thesis
        by (simp add: parseUnary_def pbind_peek isTok_kt pthen_def pbind_next Let_def parseCastSuffix_none)
    next
      case d
      with toks ty obtain a t where ts: "ts = [a, t]" "kt a = OP ''-''" "tk_kind t = tkNumber" "tk_s t = s" "kt t = (tkNumber, s)" by (auto simp: kt_def)
      obtain n' where n: "n = Suc n'" using f ts(1) r(2) by (cases n) (auto simp: fits_def)
      have "numberOK X (doubleV g) s" using d by (auto simp: numberOK_def hasDotOrExp_def)
      from number_unary [OF this ts(5) r(1), of U "parserAt U X n'"]
      have "pUnary ?P (t # r) = POk (Literal (doubleV g) s) r" by (simp add: n)
      then show ?thesis using ts d r
        by (simp add: parseUnary_def pbind_peek isTok_kt pthen_def pbind_next Let_def pbind_POk foldSign_def negLiteral_def
          isNumeric_def value_defs parseCastSuffix_none)
    qed
  qed
qed

lemma funcCall_reads:
  assumes "ToLower U name = name" "if star then args = [] else \<forall>e \<in> set args. reads U X e \<and> 1 \<le> level e \<and> renderable U X e"
  shows "readsUnary U X (FuncCall name args star)"
  unfolding readsUnary_def
proof (intro allI impI)
  fix n ts r
  let ?P = "parserAt U X n"
  let ?mid = "if star then [OP ''*''] else sepToks (map exprToks args)"
  assume f: "fits (FuncCall name args star) ts r n"
  then have r: "mayFollow r" "r \<noteq> []" by (auto simp: fits_def mayFollow_def)
  from f obtain u a us c where ts: "ts = u # a # us @ [c]" "kt u = (tkIdent, name)" "kt a = OP ''(''" "map kt us = ?mid" "kt c = OP '')''"
    by (auto simp: fits_def map_eq_append_conv map_eq_Cons_conv simp del: if_split_asm)
  have ok: "tokensOK (us @ c # r)" "length (us @ c # r) \<le> n" using f ts(1) by (auto simp: fits_def tokensOK_Cons)
  have "parseCallTail U ?P name (us @ c # r) = POk (FuncCall name args star) r"
  proof (cases "us")
    case Nil
    with ts(4) assms have "args = []" "\<not> star" using sepToks_first [of args U X] by (auto simp: startsExpr_def split: if_splits)
    with Nil ts(5) r assms(1) show ?thesis
      by (simp add: parseCallTail_def pbind_def acceptOp_def acceptTok_Cons ret_def)
  next
    case (Cons b bs)
    show ?thesis
    proof (cases star)
      case True
      with Cons ts assms r show ?thesis
        by (auto simp: parseCallTail_def pbind_def acceptOp_def acceptTok_Cons expectOp_Cons pthen_def ret_def)
    next
      case False
      then have args: "args \<noteq> []" "map kt us = sepToks (map exprToks args)" using ts(4) Cons by auto
      then have "commaList (pExpr ?P 1) (us @ c # r) = POk args (c # r)"
        using assms False ok ts(5) by (intro exprList_reads) auto
      moreover have "kt b \<noteq> OP ''*''" "kt b \<noteq> OP '')''"
        using sepToks_first [of args U X] assms args False Cons by (auto simp: startsExpr_def)
      ultimately show ?thesis using Cons assms(1) False ts(5) r
        by (simp add: parseCallTail_def pbind_def acceptOp_def acceptTok_no expectOp_Cons pthen_def ret_def)
    qed
  qed
  moreover have "tk_kind u = tkIdent" "tk_s u = name" using ts(2) by (auto simp: kt_def)
  ultimately have "parsePrimary U X ?P (u # a # us @ c # r) = POk (FuncCall name args star) r"
    using ts(3) by (simp add: parsePrimary_def pbind_def peek_def nextTok_def pthen_def acceptOp_def acceptTok_Cons)
  with ts r show "parseUnary U X ?P (ts @ r) = POk (FuncCall name args star) r" by (auto intro!: parseUnary_postfix)
qed

lemma parseType_scalar:
  assumes "(t, n, ws) \<in> set scalarTypes" "map kt ts = ws" "kt c = OP '')''" "r \<noteq> []"
  shows "parseType (ts @ c # r) = POk (t, n, 0) (c # r)"
  using assms by (auto simp: scalarTypes_def parseType_def pbind_def peek_def nextTok_def pthen_def typeIn_def ret_def kt_def
    acceptIdent_def acceptTok_def isTok_def)

lemma typeToks_scalar:
  assumes "typeToks t n \<noteq> []"
  shows "(t, n, typeToks t n) \<in> set scalarTypes"
proof (cases "find (\<lambda>(t', n', ws). t' = t \<and> n' = n) scalarTypes")
  case None
  with assms show ?thesis by (simp add: typeToks_def)
next
  case (Some x)
  then obtain ws where x: "x = (t, n, ws)" by (cases x) (auto simp: find_Some_iff)
  with Some have "typeToks t n = ws" by (simp add: typeToks_def)
  moreover have "x \<in> set scalarTypes" using Some by (auto simp: find_Some_iff in_set_conv_nth)
  ultimately show ?thesis using x by simp
qed

lemma cast_reads:
  assumes "reads U X x" "1 \<le> level x" "typeToks t n \<noteq> []"
  shows "readsUnary U X (Cast x t n 0)"
  unfolding readsUnary_def
proof (intro allI impI)
  fix k ts r
  let ?P = "parserAt U X k"
  assume f: "fits (Cast x t n 0) ts r k"
  then have r: "mayFollow r" "r \<noteq> []" by (auto simp: fits_def mayFollow_def)
  from f obtain u a xs b ws c where ts: "ts = u # a # xs @ b # ws @ [c]" "kt u = KW ''CAST''" "kt a = OP ''(''" "map kt xs = exprToks x"
      "kt b = KW ''AS''" "map kt ws = typeToks t n" "kt c = OP '')''"
    by (auto simp: fits_def map_eq_append_conv append_eq_map_conv map_eq_Cons_conv Cons_eq_map_conv)
  have ok: "tokensOK (xs @ b # ws @ c # r)" "length (xs @ b # ws @ c # r) \<le> k" using f ts(1) by (auto simp: fits_def tokensOK_Cons)
  have "pExpr ?P 1 (xs @ b # ws @ c # r) = POk x (b # ws @ c # r)"
    using assms ok ts by (intro pExpr_reads [where p = 0]) (auto simp: mayFollow_def infixPrec_keyword)
  moreover have "parseType (ws @ c # r) = POk (t, n, 0) (c # r)"
    using parseType_scalar [OF typeToks_scalar [OF assms(3)] ts(6,7) r(2)] .
  moreover have "tk_kind u = tkKeyword" "tk_s u = str ''CAST''" using ts(2) by (auto simp: kt_def)
  ultimately have "parsePrimary U X ?P (u # a # xs @ b # ws @ c # r) = POk (Cast x t n 0) r"
    using ts r by (simp add: parsePrimary_def pbind_def peek_def nextTok_def pthen_def expectOp_Cons expectKw_Cons ret_def)
  with ts r show "parseUnary U X ?P (ts @ r) = POk (Cast x t n 0) r" by (auto intro!: parseUnary_postfix)
qed

lemma not_reads:
  assumes "reads U X x" "4 \<le> level x"
  shows "readsUnary U X (Unary (str ''NOT'') x)"
  unfolding readsUnary_def
proof (intro allI impI)
  fix n ts r
  assume f: "fits (Unary (str ''NOT'') x) ts r n"
  then obtain u us where ts: "ts = u # us" "kt u = KW ''NOT''" "map kt us = exprToks x" by (auto simp: fits_def)
  from f obtain p where r: "mayFollow r" "r \<noteq> []" "infixPrec r = POk p r" "p \<le> 3" by (auto simp: fits_def mayFollow_def)
  have "tokensOK (us @ r)" "length (us @ r) \<le> n" using f ts(1) r(2) by (auto simp: fits_def tokensOK_Cons)
  then have "pExpr (parserAt U X n) 4 (us @ r) = POk x r" using assms ts r by (intro pExpr_reads [where p = p]) auto
  then show "parseUnary U X (parserAt U X n) (ts @ r) = POk (Unary (str ''NOT'') x) r"
    using ts r(2) by (simp add: parseUnary_def pbind_peek isTok_kt pthen_def pbind_next pbind_POk ret_def)
qed

lemma minus_reads:
  assumes "readsUnary U X x" "level x = 10" "\<not> numericLiteral x" "fst (hd (exprToks x)) \<noteq> tkNumber" "exprToks x \<noteq> []"
  shows "readsUnary U X (Unary (str ''-'') x)"
  unfolding readsUnary_def
proof (intro allI impI)
  fix n ts r
  assume f: "fits (Unary (str ''-'') x) ts r n"
  with assms(5) obtain u v us where ts: "ts = u # v # us" "kt u = OP ''-''" "map kt (v # us) = exprToks x"
    by (cases "exprToks x") (auto simp: fits_def)
  from f obtain p where r: "mayFollow r" "r \<noteq> []" "infixPrec r = POk p r" "p \<le> 10" by (auto simp: fits_def mayFollow_def)
  obtain n' where n: "n = Suc n'" using f ts(1) by (cases n) (auto simp: fits_def)
  have "fits x (v # us) r n'" using f ts r n assms(2) by (auto simp: fits_def tokensOK_Cons)
  then have "pUnary (parserAt U X n) ((v # us) @ r) = POk x r" using assms(1) unfolding readsUnary_def n parserAt.simps parsers.simps by blast
  moreover have "foldSign True x r = POk (Unary (str ''-'') x) r" using assms(3) by (cases x) (auto simp: foldSign_def ret_def)
  moreover have "tk_kind v \<noteq> tkNumber" using assms(4) ts(3) [symmetric] by (auto simp: kt_def)
  ultimately show "parseUnary U X (parserAt U X n) (ts @ r) = POk (Unary (str ''-'') x) r"
    using ts r(2) by (simp add: parseUnary_def pbind_peek isTok_kt pthen_def pbind_next pbind_POk Let_def)
qed

lemma opPrec_ne [simp]: "opPrec op \<noteq> 10"
  by (simp add: opPrec_def)

lemma level_pos: "renderable U X e \<Longrightarrow> 1 \<le> level e"
  by (cases e) auto

lemma operand_first: "renderable U X e \<Longrightarrow> level e = 10 \<Longrightarrow> \<not> isUnary e \<Longrightarrow> \<not> numericLiteral e \<Longrightarrow> fst (hd (exprToks e)) \<noteq> tkNumber"
  by (cases e) (auto simp: literalToks_def literalOK_def isNumeric_def numberOK_def value_defs split: Type.splits if_splits)

lemma renderable_reads: "renderable U X e \<Longrightarrow> reads U X e \<and> (level e = 10 \<longrightarrow> readsUnary U X e)"
proof (induction U X e rule: renderable.induct)
  case (1 U X v src)
  then have "readsUnary U X (Literal v src)" by (simp add: literal_reads)
  then show ?case by (simp add: readsUnary_reads)
next
  case (2 U X t c)
  show ?case using columnRef_reads [of U X t c] by (simp add: readsUnary_reads)
next
  case (3 U X op x)
  then have x: "renderable U X x" "reads U X x" "level x = 10 \<longrightarrow> readsUnary U X x" by auto
  show ?case
  proof (cases "op = str ''NOT''")
    case True
    with 3 x have "readsUnary U X (Unary op x)" by (auto intro!: not_reads simp del: str_simps)
    then show ?thesis by (simp add: readsUnary_reads)
  next
    case False
    with 3(2) have op: "op = str ''-''" "level x = 10" "\<not> numericLiteral x" "\<not> isUnary x" by auto
    moreover have "exprToks x \<noteq> []" using exprToks_first [OF x(1)] by (auto simp: startsExpr_def)
    ultimately have "readsUnary U X (Unary op x)" using x operand_first [OF x(1)] by (auto intro!: minus_reads simp del: str_simps)
    then show ?thesis by (simp add: readsUnary_reads)
  qed
next
  case (4 U X op l r)
  then have "reads U X (Binary op l r)" by (intro binary_reads) auto
  then show ?case by simp
next
  case (5 U X x lo hi neg)
  then have "reads U X (Between x lo hi neg)" by (intro between_reads) auto
  then show ?case by simp
next
  case (6 U X x items sub neg)
  then have "\<forall>i \<in> set items. 1 \<le> level i" using level_pos [of U X] by auto
  with 6 have "reads U X (InList x items None neg)" by (intro inList_reads) auto
  with 6 show ?case by simp
next
  case (7 U X x neg)
  then have "reads U X (IsNullE x neg)" by (intro isNull_reads) auto
  then show ?case by simp
next
  case (8 U X name args star)
  then have "\<not> star \<Longrightarrow> \<forall>a \<in> set args. 1 \<le> level a" using level_pos [of U X] by auto
  with 8 have "readsUnary U X (FuncCall name args star)" by (intro funcCall_reads) auto
  then show ?case by (simp add: readsUnary_reads)
next
  case (9 U X x t n dim)
  then have "readsUnary U X (Cast x t n 0)" using level_pos [of U X x] by (intro cast_reads) auto
  with 9 show ?case by (simp add: readsUnary_reads)
qed simp_all

section \<open>A script of one expression\<close>

text \<open>The query that \<^verbatim>\<open>parseExprText\<close> makes of a text.\<close>

definition exprQuery :: "Expr \<Rightarrow> Statement" where
  "exprQuery e = SSelect (Select (SelectCore False [Item e []] [] [] None None []) [] [] None None)"

lemma acceptTok_EOF: "k \<noteq> tkEOF \<Longrightarrow> kt eof = (tkEOF, s) \<Longrightarrow> acceptTok k w (eof # r) = POk False (eof # r)"
  by (rule acceptTok_no) auto

lemma parseSelect_expr:
  assumes e: "pExpr (parserAt U X n) 1 (ts @ [eof]) = POk e [eof]" and first: "startsExpr (map kt ts)"
    and ts: "kt sel = KW ''SELECT''" "kt eof = (tkEOF, [])"
  shows "parseSelect (parserAt U X n) (sel # ts @ [eof]) = POk (Select (SelectCore False [Item e []] [] [] None None []) [] [] None None) [eof]"
proof -
  let ?P = "parserAt U X n"
  obtain u us where u: "ts = u # us" "kt u \<notin> {KW ''DISTINCT'', KW ''ALL'', OP ''*''}"
    using first by (auto simp: startsExpr_def map_eq_Cons_conv)
  from e have "selectItem ?P (ts @ [eof]) = POk (Item e []) [eof]"
    using u ts(2) by (auto simp: selectItem_def pbind_def acceptOp_def acceptKw_def acceptTok_no peek_def ret_def kt_def)
  then have items: "parseSelectItems ?P (ts @ [eof]) = POk [Item e []] [eof]"
    using ts(2) unfolding parseSelectItems_def commaList_def
    by (intro whileP_exit) (simp add: pbind_def acceptOp_def acceptTok_EOF ret_def)
  have eof: "optClause kw p [eof] = POk None [eof]" for kw and p :: "'a parser"
    using ts(2) by (simp add: optClause_def pbind_def acceptKw_def acceptTok_EOF ret_def)
  have "parseSelectCore ?P (sel # ts @ [eof]) = POk (SelectCore False [Item e []] [] [] None None []) [eof]"
    using ts(1) u items by (simp add: parseSelectCore_def pthen_def pbind_def expectKw_Cons acceptKw_def acceptTok_no eof Let_def ret_def)
  moreover have "whileP (unionStep ?P) [] [eof] = POk [] [eof]"
    using ts(2) by (intro whileP_exit) (simp add: unionStep_def pbind_def acceptKw_def acceptTok_EOF ret_def)
  ultimately show ?thesis by (simp add: parseSelect_def pbind_def eof ret_def)
qed

lemma parseTokens_one:
  assumes e: "pExpr (parserAt U X (length ts)) 1 (us @ [eof]) = POk e [eof]" and first: "startsExpr (map kt us)"
    and t: "ts = sel # us @ [eof]" "kt sel = KW ''SELECT''" "kt eof = (tkEOF, [])" and ok: "tokensOK ts"
  shows "parseTokens U X ts = POk [exprQuery e] [last ts]"
proof -
  let ?P = "parserAt U X (length ts)"
  have "parseSelect ?P (sel # us @ [eof]) = POk (Select (SelectCore False [Item e []] [] [] None None []) [] [] None None) [eof]"
    by (rule parseSelect_expr [OF e first t(2,3)])
  moreover have sel: "tk_kind sel = tkKeyword" "tk_s sel = str ''SELECT''" using t(2) by (auto simp: kt_def)
  ultimately have st: "parseStatement ?P ts = POk (exprQuery e) [eof]"
    using t(1) by (simp add: parseStatement_def pbind_def peek_def isTok_def exprQuery_def ret_def)
  have semi: "skipSemis (a # as) = POk () (a # as)" if "kt a \<noteq> OP '';''" for a as
    unfolding skipSemis_def using that by (intro whileP_exit) (simp add: pbind_def acceptOp_def acceptTok_no ret_def)
  have eof: "tk_kind eof = tkEOF" using t(3) by (simp add: kt_def)
  have "statementStep ?P [] ts = POk (Inl [exprQuery e]) [eof]"
    using st sel t eof semi [of sel] by (simp add: statementStep_def pthen_def pbind_def peek_def acceptOp_def acceptTok_EOF ret_def)
  then have "whileP (statementStep ?P) [] ts = whileP (statementStep ?P) [exprQuery e] [eof]"
    by (rule whileP_unroll [OF runs_statementStep [OF good_parserAt order_refl] ok order_refl])
  also have "\<dots> = POk [exprQuery e] [eof]"
    using eof t(3) semi [of eof] by (intro whileP_exit) (simp add: statementStep_def pthen_def pbind_def peek_def ret_def)
  finally show ?thesis using t(1) by (simp add: parseTokens_def)
qed

lemma parseTokens_expr:
  assumes e: "renderable U X e" and ts: "map kt ts = KW ''SELECT'' # exprToks e @ [(tkEOF, [])]" and ok: "tokensOK ts"
  shows "parseTokens U X ts = POk [exprQuery e] [last ts]"
proof -
  from ts obtain sel us eof where t: "ts = sel # us @ [eof]" "kt sel = KW ''SELECT''" "map kt us = exprToks e" "kt eof = (tkEOF, [])"
    by (auto simp: map_eq_append_conv append_eq_map_conv map_eq_Cons_conv Cons_eq_map_conv)
  have "pExpr (parserAt U X (length ts)) 1 (us @ [eof]) = POk e [eof]"
    using renderable_reads [OF e] level_pos [OF e] t ok
    by (intro pExpr_reads [where p = 0]) (auto simp: mayFollow_def infixPrec_close tokensOK_Cons)
  with exprToks_first [OF e] t ok show ?thesis by (intro parseTokens_one) auto
qed

end
