(* ===== verification/SQL_Check.thy ===== *)
theory SQL_Check
  imports SQL_Render
begin

text \<open>
  CHECK constraints travel as text: the rendering of an expression that needs no parentheses, with plain lower case
  names, lexes and parses back to that expression; \<^verbatim>\<open>enforceChecks\<close> then evaluates what was declared.
\<close>

section \<open>Scanning text\<close>

definition scans :: "unicode \<Rightarrow> bytes \<Rightarrow> ktok \<Rightarrow> bytes \<Rightarrow> bool" where
  "scans U s k s' \<longleftrightarrow> fst k \<noteq> tkEOF \<and> (\<forall>lx. rest lx = s \<longrightarrow> (\<exists>t lx'. lexNext U lx = Inr (t, lx') \<and> kt t = k \<and> rest lx' = s'))"

fun lexesTo :: "unicode \<Rightarrow> bytes \<Rightarrow> ktok list \<Rightarrow> bytes \<Rightarrow> bool" where
  "lexesTo U s [] s' \<longleftrightarrow> s = s'"
| "lexesTo U s (k # ks) s' \<longleftrightarrow> (\<exists>m. scans U s k m \<and> lexesTo U m ks s')"

lemma lexesTo_append: "lexesTo U s ks m \<Longrightarrow> lexesTo U m ls s' \<Longrightarrow> lexesTo U s (ks @ ls) s'"
  by (induction ks arbitrary: s) auto

lemma lexesTo_one: "scans U s k m \<Longrightarrow> lexesTo U m ks s' \<Longrightarrow> lexesTo U s (k # ks) s'"
  by auto

lemma lexNext_empty: "rest lx = [] \<Longrightarrow> \<exists>t lx'. lexNext U lx = Inr (t, lx') \<and> kt t = (tkEOF, []) \<and> tk_kind t = tkEOF"
proof -
  assume r: "rest lx = []"
  then have "skipSpace lx = lx" by (simp add: skipSpace_def)
  with r have "skipBlanks lx = Inr lx" by (subst skipBlanks.simps) (simp add: Let_def)
  with r show ?thesis by (simp add: lexNext_def kt_def tok_def Let_def)
qed

lemma lexesTo_tokens:
  "lexesTo U s ks [] \<Longrightarrow> rest lx = s \<Longrightarrow> \<exists>ts. tokens U lx toks = Some (Inr (toks @ ts)) \<and> map kt ts = ks @ [(tkEOF, [])]"
proof (induction ks arbitrary: s lx toks)
  case Nil
  then obtain t lx' where "lexNext U lx = Inr (t, lx')" "kt t = (tkEOF, [])" "tk_kind t = tkEOF" using lexNext_empty [of lx U] by auto
  then show ?case by (subst tokens.simps) (auto intro!: exI [of _ "[t]"])
next
  case (Cons k ks)
  then obtain m where m: "scans U s k m" "lexesTo U m ks []" by auto
  then obtain t lx' where t: "lexNext U lx = Inr (t, lx')" "kt t = k" "rest lx' = m" using Cons.prems(2) by (auto simp: scans_def)
  moreover have "tk_kind t \<noteq> tkEOF" using m(1) t(2) by (auto simp: scans_def kt_def)
  ultimately have step: "tokens U lx toks = tokens U lx' (toks @ [t])" by (simp add: tokens_step)
  obtain ts where "tokens U lx' (toks @ [t]) = Some (Inr ((toks @ [t]) @ ts))" "map kt ts = ks @ [(tkEOF, [])]"
    using Cons.IH [OF m(2) t(3)] by blast
  with step t(2) show ?case by (intro exI [of _ "t # ts"]) auto
qed

lemma lexesTo_lexAll:
  assumes "lexesTo U s ks []"
  shows "\<exists>ts. lexAll U s = Some (Inr ts) \<and> map kt ts = ks @ [(tkEOF, [])]"
proof -
  have "rest \<lparr>lx_src = s, lx_i = 0\<rparr> = s" by (simp add: rest_def)
  from lexesTo_tokens [OF assms this, of "[]"] show ?thesis by (simp add: lexAll_def)
qed

text \<open>A space before a token.\<close>

lemma skipSpace_space:
  assumes "rest lx = 32 # s"
  shows "skipSpace lx = skipSpace (lx\<lparr>lx_i := lx_i lx + 1\<rparr>)" "rest (lx\<lparr>lx_i := lx_i lx + 1\<rparr>) = s"
proof -
  show r: "rest (lx\<lparr>lx_i := lx_i lx + 1\<rparr>) = s" using assms by (auto simp: rest_def drop_Suc tl_drop [symmetric])
  show "skipSpace lx = skipSpace (lx\<lparr>lx_i := lx_i lx + 1\<rparr>)"
    by (simp add: skipSpace_def assms r [simplified] isSpace_def)
qed

lemma lexNext_space: "rest lx = 32 # s \<Longrightarrow> lexNext U lx = lexNext U (lx\<lparr>lx_i := lx_i lx + 1\<rparr>)"
  by (simp only: lexNext_def skipBlanks.simps [of lx] skipBlanks.simps [of "lx\<lparr>lx_i := lx_i lx + 1\<rparr>"] skipSpace_space(1))

lemma scans_space: "scans U s k s' \<Longrightarrow> scans U (32 # s) k s'"
  unfolding scans_def using lexNext_space skipSpace_space(2) by metis

lemma lexesTo_space: "lexesTo U s ks s' \<Longrightarrow> ks \<noteq> [] \<Longrightarrow> lexesTo U (32 # s) ks s'"
  by (cases ks) (auto intro: scans_space)

text \<open>A token that starts at the cursor.\<close>

lemma scansI:
  assumes "\<not> isSpace c" "\<not> prefix [45, 45] (c # cs)" "\<not> prefix [47, 42] (c # cs)" "fst k \<noteq> tkEOF"
    and "\<And>lx. rest lx = c # cs \<Longrightarrow> skipBlanks lx = Inr lx \<Longrightarrow> \<exists>t lx'. lexNext U lx = Inr (t, lx') \<and> kt t = k \<and> rest lx' = s'"
  shows "scans U (c # cs) k s'"
  unfolding scans_def
proof (intro conjI allI impI assms(4))
  fix lx
  assume "rest lx = c # cs"
  moreover from this assms have "skipBlanks lx = Inr lx" by (intro skipBlanks_stay) auto
  ultimately show "\<exists>t lx'. lexNext U lx = Inr (t, lx') \<and> kt t = k \<and> rest lx' = s'" by (rule assms(5))
qed

lemma rest_advance: "rest lx = w @ s \<Longrightarrow> rest (lx\<lparr>lx_i := lx_i lx + length w\<rparr>) = s"
  by (simp add: rest_def add.commute flip: drop_drop)

section \<open>Words, numbers and strings\<close>

text \<open>What the Unicode tables say of ASCII.\<close>

definition asciiTables :: "unicode \<Rightarrow> bool" where
  "asciiTables U \<longleftrightarrow>
     (\<forall>r < 128. IsLetter U r \<longleftrightarrow> (65 \<le> r \<and> r \<le> 90) \<or> (97 \<le> r \<and> r \<le> 122)) \<and>
     (\<forall>r < 128. IsDigitRune U r \<longleftrightarrow> 48 \<le> r \<and> r \<le> 57) \<and>
     (\<forall>s. (\<forall>c \<in> set s. c < 128) \<longrightarrow> ToUpper U s = upperASCII s \<and> ToLower U s = lowerASCII s)"

definition wordByte :: "byte \<Rightarrow> bool" where
  "wordByte c \<longleftrightarrow> c = 95 \<or> c = 36 \<or> (65 \<le> c \<and> c \<le> 90) \<or> (97 \<le> c \<and> c \<le> 122) \<or> (48 \<le> c \<and> c \<le> 57)"

text \<open>Where a word ends, and where an expression does.\<close>

definition stopper :: "bytes \<Rightarrow> bool" where
  "stopper s \<longleftrightarrow> s = [] \<or> hd s \<in> {32, 44, 41, 40, 46}"

definition delim :: "bytes \<Rightarrow> bool" where
  "delim s \<longleftrightarrow> s = [] \<or> hd s \<in> {32, 44, 41}"

lemma delim_stopper: "delim s \<Longrightarrow> stopper s"
  by (auto simp: delim_def stopper_def)

lemma wordByte_ident: "asciiTables U \<Longrightarrow> c < 128 \<Longrightarrow> isIdentPart U (unat c) \<longleftrightarrow> wordByte c"
  by (auto simp: asciiTables_def isIdentPart_def wordByte_def word_le_nat_alt word_less_nat_alt word_unat_eq_iff)

lemma wordByte_ASCII: "wordByte c \<Longrightarrow> c < 128"
  by (auto simp: wordByte_def word_le_nat_alt word_less_nat_alt)

lemma identLen_word:
  assumes "asciiTables U" "\<forall>c \<in> set w. wordByte c" "stopper s"
  shows "identLen U (w @ s) = length w"
  using assms(2)
proof (induction w)
  case Nil
  show ?case
  proof (cases s)
    case Nil
    then show ?thesis by (simp add: identLen.simps)
  next
    case (Cons c cs)
    then have "c \<in> {32, 44, 41, 40, 46}" using assms(3) by (simp add: stopper_def)
    then have "c < 128" "\<not> wordByte c" by (auto simp: wordByte_def)
    with assms(1) Cons show ?thesis by (subst identLen.simps) (simp add: DecodeRune_ASCII wordByte_ident)
  qed
next
  case (Cons c w)
  then have "c < 128" "wordByte c" by (auto dest: wordByte_ASCII)
  with Cons assms(1) show ?case by (subst identLen.simps) (simp add: DecodeRune_ASCII wordByte_ident)
qed

definition wordStart :: "byte \<Rightarrow> bool" where
  "wordStart c \<longleftrightarrow> c = 95 \<or> (65 \<le> c \<and> c \<le> 90) \<or> (97 \<le> c \<and> c \<le> 122)"

lemma wordStart_dispatch:
  assumes "asciiTables U" "wordStart c"
  shows "\<not> isSpace c" "c \<noteq> 45" "c \<noteq> 47" "c \<noteq> 39" "c \<noteq> 34" "c \<noteq> 36" "\<not> isDigit c" "c \<noteq> 46" "isIdentStart U (unat c)"
proof -
  have "c < 128" using assms(2) by (auto simp: wordStart_def word_le_nat_alt word_less_nat_alt)
  with assms show "isIdentStart U (unat c)"
    by (auto simp: asciiTables_def isIdentStart_def wordStart_def word_le_nat_alt word_less_nat_alt word_unat_eq_iff)
qed (use assms(2) in \<open>auto simp: wordStart_def isSpace_def isDigit_def word_le_nat_alt\<close>)

text \<open>The token of a word.\<close>

definition wordTok :: "unicode \<Rightarrow> bytes \<Rightarrow> ktok" where
  "wordTok U w = (if ToUpper U w \<in> sqlKeywords then (tkKeyword, ToUpper U w) else (tkIdent, ToLower U w))"

lemma scans_word:
  assumes U: "asciiTables U" and w: "w \<noteq> []" "wordStart (hd w)" "\<forall>c \<in> set w. wordByte c" and s: "stopper s"
  shows "scans U (w @ s) (wordTok U w) s"
proof -
  obtain c cs where c: "w = c # cs" using w(1) by (cases w) auto
  note d = wordStart_dispatch [OF U, of c]
  have "scans U (c # cs @ s) (wordTok U w) s"
  proof (rule scansI)
    fix lx
    assume r: "rest lx = c # cs @ s" and sk: "skipBlanks lx = Inr lx"
    have len: "identLen U (rest lx) = length w" using identLen_word [OF U w(3) s] r c by simp
    have adv: "rest (lx\<lparr>lx_i := lx_i lx + length w\<rparr>) = s" using r c by (intro rest_advance) simp
    have "lexNext U lx = scanIdent U lx (lx_i lx)" using sk r d w c by (simp add: lexNext_def Let_def)
    moreover have "take (length w) (rest lx) = w" using r c by simp
    ultimately show "\<exists>t lx'. lexNext U lx = Inr (t, lx') \<and> kt t = wordTok U w \<and> rest lx' = s"
      using adv len by (simp add: scanIdent_def Let_def wordTok_def kt_def tok_def)
  qed (use d w c in \<open>auto simp: wordTok_def\<close>)
  with c show ?thesis by simp
qed

definition upperWord :: "string \<Rightarrow> bool" where
  "upperWord w \<longleftrightarrow> w \<noteq> [] \<and> (\<forall>c \<in> set (str w). 65 \<le> c \<and> c \<le> 90)"

lemma scans_keyword:
  assumes "asciiTables U" "upperWord w" "str w \<in> sqlKeywords" "stopper s"
  shows "scans U (str w @ s) (KW w) s"
proof -
  have b: "\<forall>c \<in> set (str w). wordByte c \<and> wordStart c \<and> c < 128 \<and> \<not> 97 \<le> c"
    using assms(2) by (auto simp: upperWord_def wordByte_def wordStart_def word_le_nat_alt word_less_nat_alt)
  then have "upperASCII (str w) = str w" by (auto simp: upperASCII_def intro!: map_idI)
  then have "wordTok U (str w) = KW w" using assms(1,3) b by (auto simp: wordTok_def asciiTables_def)
  moreover have "str w \<noteq> []" using assms(2) by (simp add: upperWord_def str_def)
  ultimately show ?thesis using scans_word [OF assms(1) _ _ _ assms(4), of "str w"] b by auto
qed

text \<open>Lower case names that are no keyword.\<close>

definition plainName :: "bytes \<Rightarrow> bool" where
  "plainName w \<longleftrightarrow> w \<noteq> [] \<and> (hd w = 95 \<or> 97 \<le> hd w \<and> hd w \<le> 122) \<and>
     (\<forall>c \<in> set w. c = 95 \<or> c = 36 \<or> (97 \<le> c \<and> c \<le> 122) \<or> (48 \<le> c \<and> c \<le> 57)) \<and> upperASCII w \<notin> sqlKeywords"

lemma plainName_bytes:
  assumes "plainName w"
  shows "w \<noteq> []" "wordStart (hd w)" "\<forall>c \<in> set w. wordByte c" "\<forall>c \<in> set w. c < 128" "lowerASCII w = w"
proof -
  show b: "\<forall>c \<in> set w. wordByte c" "wordStart (hd w)" "w \<noteq> []" using assms by (auto simp: plainName_def wordByte_def wordStart_def)
  then show "\<forall>c \<in> set w. c < 128" by (auto dest: wordByte_ASCII)
  have "\<not> (65 \<le> c \<and> c \<le> 90)" if "c \<in> set w" for c using assms that by (auto simp: plainName_def word_le_nat_alt)
  then show "lowerASCII w = w" by (auto simp: lowerASCII_def intro!: map_idI)
qed

lemma scans_name: "asciiTables U \<Longrightarrow> plainName w \<Longrightarrow> stopper s \<Longrightarrow> scans U (w @ s) (tkIdent, w) s"
  using scans_word [of U w s] plainName_bytes [of w] by (auto simp: wordTok_def asciiTables_def plainName_def)

text \<open>A function name is printed in upper case.\<close>

lemma upper_byte:
  fixes c :: byte
  assumes "c = 95 \<or> c = 36 \<or> (97 \<le> c \<and> c \<le> 122) \<or> (48 \<le> c \<and> c \<le> 57)"
  defines "d \<equiv> if 97 \<le> c \<and> c \<le> 122 then c - 32 else c"
  shows "wordByte d" "\<not> 97 \<le> d" "(if 65 \<le> d \<and> d \<le> 90 then d + 32 else d) = c" "c = 95 \<or> 97 \<le> c \<and> c \<le> 122 \<Longrightarrow> wordStart d"
proof -
  have "65 \<le> c - 32 \<and> c - 32 \<le> 90 \<and> \<not> 97 \<le> c - 32" if "97 \<le> c" "c \<le> 122"
    using that by (auto simp: word_le_nat_alt unat_sub)
  then show "wordByte d" "\<not> 97 \<le> d" "(if 65 \<le> d \<and> d \<le> 90 then d + 32 else d) = c" "c = 95 \<or> 97 \<le> c \<and> c \<le> 122 \<Longrightarrow> wordStart d"
    using assms(1) by (auto simp: d_def wordByte_def wordStart_def word_le_nat_alt)
qed

lemma upperASCII_name:
  assumes "plainName w"
  shows "upperASCII w \<noteq> []" "wordStart (hd (upperASCII w))" "\<forall>c \<in> set (upperASCII w). wordByte c"
    "upperASCII (upperASCII w) = upperASCII w" "lowerASCII (upperASCII w) = w"
proof -
  have b: "c = 95 \<or> c = 36 \<or> (97 \<le> c \<and> c \<le> 122) \<or> (48 \<le> c \<and> c \<le> 57)" if "c \<in> set w" for c
    using assms that by (auto simp: plainName_def)
  have w: "w \<noteq> []" "hd w = 95 \<or> 97 \<le> hd w \<and> hd w \<le> 122" using assms by (auto simp: plainName_def)
  then show "upperASCII w \<noteq> []" by (simp add: upperASCII_def)
  show "wordStart (hd (upperASCII w))" using upper_byte(4) [OF b [of "hd w"] w(2)] w(1) by (simp add: upperASCII_def hd_map)
  show "\<forall>c \<in> set (upperASCII w). wordByte c" using upper_byte(1) [OF b] unfolding upperASCII_def set_map by blast
  show "upperASCII (upperASCII w) = upperASCII w" using upper_byte(2) [OF b] by (simp add: upperASCII_def)
  show "lowerASCII (upperASCII w) = w" using upper_byte(3) [OF b] unfolding upperASCII_def lowerASCII_def map_map by (intro map_idI) simp
qed

lemma scans_function:
  assumes "asciiTables U" "plainName w" "stopper s"
  shows "scans U (ToUpper U w @ s) (tkIdent, w) s"
proof -
  note n = upperASCII_name [OF assms(2)]
  have up: "ToUpper U w = upperASCII w" using assms(1) plainName_bytes(4) [OF assms(2)] by (simp add: asciiTables_def)
  have "\<forall>c \<in> set (upperASCII w). c < 128" using n(3) by (auto dest: wordByte_ASCII)
  then have "ToUpper U (upperASCII w) = upperASCII w \<and> ToLower U (upperASCII w) = w" using assms(1) n(4,5) by (simp add: asciiTables_def)
  moreover have "upperASCII w \<notin> sqlKeywords" using assms(2) by (simp add: plainName_def)
  ultimately show ?thesis using scans_word [OF assms(1) n(1-3) assms(3)] up by (simp add: wordTok_def)
qed

text \<open>Numbers.\<close>

definition numberText :: "bytes \<Rightarrow> bool" where
  "numberText s \<longleftrightarrow> s \<noteq> [] \<and> (isDigit (hd s) \<or> hd s = 46 \<and> tl s \<noteq> [] \<and> isDigit (hd (tl s))) \<and> numberLen False False True s = length s"

lemma numberLen_stop: "delim s \<Longrightarrow> numberLen d e f s = 0"
  by (cases s) (auto simp: delim_def isDigit_def)

lemma numberLen_append:
  assumes "delim s"
  shows "numberLen d e f w = length w \<Longrightarrow> numberLen d e f (w @ s) = length w"
proof (induction d e f w rule: numberLen.induct)
  case (1 d e f)
  then show ?case using numberLen_stop [OF assms] by simp
next
  case (2 d e f c cs)
  show ?case
  proof (cases "isDigit c \<or> c = 46 \<and> \<not> d \<and> \<not> e")
    case True
    with 2 show ?thesis by (auto split: if_splits)
  next
    case False
    with 2(5) have x: "(c = 101 \<or> c = 69) \<and> \<not> e \<and> \<not> f" by (auto split: if_splits)
    show ?thesis
    proof (cases cs)
      case Nil
      with False x show ?thesis using assms numberLen_stop [OF assms, of d True False]
        by (cases s) (auto simp: delim_def isDigit_def)
    next
      case (Cons b bs)
      with 2 False x show ?thesis by (auto split: if_splits)
    qed
  qed
qed

lemma scans_number:
  assumes "numberText w" "delim s"
  shows "scans U (w @ s) (tkNumber, w) s"
proof -
  obtain c cs where c: "w = c # cs" using assms(1) by (cases w) (auto simp: numberText_def)
  have d: "isDigit c \<or> c = 46 \<and> cs \<noteq> [] \<and> isDigit (hd cs)" using assms(1) c by (simp add: numberText_def)
  then have nd: "\<not> isSpace c" "c \<noteq> 45" "c \<noteq> 47" "c \<noteq> 39" "c \<noteq> 34" "c \<noteq> 36" by (auto simp: isDigit_def isSpace_def)
  have "scans U (c # cs @ s) (tkNumber, w) s"
  proof (rule scansI)
    fix lx
    assume r: "rest lx = c # cs @ s" and sk: "skipBlanks lx = Inr lx"
    have adv: "rest (lx\<lparr>lx_i := lx_i lx + length w\<rparr>) = s" using r c by (intro rest_advance) simp
    have len: "numberLen False False True (rest lx) = length w"
      using numberLen_append [OF assms(2), of False False True w] assms(1) r c by (simp add: numberText_def)
    have "lexNext U lx = scanNumber lx (lx_i lx)" using sk r d nd by (auto simp: lexNext_def Let_def)
    then show "\<exists>t lx'. lexNext U lx = Inr (t, lx') \<and> kt t = (tkNumber, w) \<and> rest lx' = s"
      using adv len r c by (simp add: scanNumber_def Let_def kt_def tok_def)
  qed (use nd in auto)
  with c show ?thesis by simp
qed

text \<open>Strings.\<close>

lemma quotedLoop_doubled:
  "s = [] \<or> hd s \<noteq> q \<Longrightarrow> quotedLoop q (doubled q w @ q # s) b i = Some (b @ w, i + length (doubled q w) + 1)"
proof (induction w arbitrary: b i)
  case Nil
  then show ?case by (cases s) (simp_all add: doubled_def)
next
  case (Cons c w)
  then show ?case by (cases "c = q") (simp_all add: doubled_def)
qed

lemma scans_string:
  assumes "delim s"
  shows "scans U ([39] @ doubled 39 w @ [39] @ s) (tkString, w) s"
proof -
  have "scans U (39 # doubled 39 w @ 39 # s) (tkString, w) s"
  proof (rule scansI)
    fix lx
    assume r: "rest lx = 39 # doubled 39 w @ 39 # s" and sk: "skipBlanks lx = Inr lx"
    have "s = [] \<or> hd s \<noteq> 39" using assms by (auto simp: delim_def)
    from quotedLoop_doubled [OF this, of w "[]" "lx_i lx + 1"]
    have q: "quotedLoop 39 (drop 1 (rest lx)) [] (lx_i lx + 1) = Some (w, lx_i lx + length (39 # doubled 39 w @ [39]))" using r by simp
    have "rest (lx\<lparr>lx_i := lx_i lx + length (39 # doubled 39 w @ [39])\<rparr>) = s" using r by (intro rest_advance) simp
    with q sk r show "\<exists>t lx'. lexNext U lx = Inr (t, lx') \<and> kt t = (tkString, w) \<and> rest lx' = s"
      by (simp add: lexNext_def scanString_def Let_def kt_def tok_def)
  qed (simp_all add: isSpace_def)
  then show ?thesis by simp
qed

text \<open>Operators and punctuation.\<close>

lemma scans_op:
  assumes U: "asciiTables U" and c: "c \<in> set singleOps \<or> c = 33"
    and nc: "\<not> prefix [45, 45] (c # os @ s)" "\<not> prefix [47, 42] (c # os @ s)" and dot: "c = 46 \<Longrightarrow> os @ s = [] \<or> \<not> isDigit (hd (os @ s))"
    and multi: "find (\<lambda>o1. prefix o1 (c # os @ s)) multiOps = (if c # os \<in> set multiOps then Some (c # os) else None)"
    and op: "c # os \<noteq> str ''<>''" "c # os \<in> set multiOps \<or> os = [] \<and> c \<in> set singleOps"
  shows "scans U (c # os @ s) (tkOp, c # os) s"
proof (rule scansI [OF _ nc])
  have b: "c \<in> {43, 45, 42, 47, 37, 38, 124, 94, 61, 60, 62, 40, 41, 44, 59, 46, 33}" using c by (auto simp: singleOps_def)
  then have nd: "c \<noteq> 39" "c \<noteq> 34" "c \<noteq> 36" "\<not> isDigit c" "\<not> 128 \<le> c" by (auto simp: isDigit_def)
  show "\<not> isSpace c" using b by (auto simp: isSpace_def)
  have "unat c < 128" "unat c \<noteq> 95" "\<not> (65 \<le> unat c \<and> unat c \<le> 90 \<or> 97 \<le> unat c \<and> unat c \<le> 122)" using b by auto
  then have ni: "\<not> isIdentStart U (unat c)" using U by (auto simp: asciiTables_def isIdentStart_def)
  fix lx
  assume r: "rest lx = c # os @ s" and sk: "skipBlanks lx = Inr lx"
  have adv: "rest (lx\<lparr>lx_i := lx_i lx + length (c # os)\<rparr>) = s" using r by (intro rest_advance) simp
  show "\<exists>t lx'. lexNext U lx = Inr (t, lx') \<and> kt t = (tkOp, c # os) \<and> rest lx' = s"
  proof (cases "c # os \<in> set multiOps")
    case True
    with sk r nd ni dot multi op(1) adv show ?thesis by (auto simp: lexNext_def Let_def kt_def tok_def simp del: str_simps)
  next
    case False
    with sk r nd ni dot multi op(2) adv show ?thesis by (auto simp: lexNext_def Let_def kt_def tok_def simp del: str_simps)
  qed
qed simp

lemmas scans_op1 = scans_op [where os = "[]", simplified append_Nil]
lemmas scans_op2 = scans_op [where os = "[d]" for d, simplified append_Cons append_Nil]
lemmas scans_op3 = scans_op [where os = "[d, e]" for d e, simplified append_Cons append_Nil]

lemma scans_punct:
  assumes "asciiTables U"
  shows "scans U (40 # s) (OP ''('') s" "scans U (41 # s) (OP '')'') s" "scans U (44 # s) (OP '','') s"
    "scans U (42 # s) (OP ''*'') s" "s = [] \<or> \<not> isDigit (hd s) \<Longrightarrow> scans U (46 # s) (OP ''.'') s"
    "s = [] \<or> hd s \<noteq> 45 \<Longrightarrow> scans U (45 # s) (OP ''-'') s"
  using scans_op1 [OF assms, of 40 s] scans_op1 [OF assms, of 41 s] scans_op1 [OF assms, of 44 s] scans_op1 [OF assms, of 42 s]
    scans_op1 [OF assms, of 46 s] scans_op1 [OF assms, of 45 s]
  by (cases s; simp add: singleOps_def multiOps_def)+

definition symbolOps :: "bytes list" where
  "symbolOps = map str [''='', ''!='', ''<'', ''<='', ''>'', ''>='', ''<->'', ''<#>'', ''<=>'', ''&'', ''|'', ''^'', ''+'', ''-'', ''*'', ''/'', ''%'', ''||'']"

lemma scans_symbol:
  assumes "asciiTables U" "op \<in> set symbolOps"
  shows "scans U (op @ 32 # s) (tkOp, op) (32 # s)"
proof -
  have 1: "scans U (c # 32 # s) (tkOp, [c]) (32 # s)" if "c \<in> {61, 60, 62, 38, 124, 94, 43, 45, 42, 47, 37}" for c
    using that by (intro scans_op1 [OF assms(1)]) (auto simp: singleOps_def multiOps_def)
  have 2: "scans U (c # d # 32 # s) (tkOp, [c, d]) (32 # s)" if "(c, d) \<in> {(33, 61), (60, 61), (62, 61), (124, 124)}" for c d
    using that by (intro scans_op2 [OF assms(1)]) (auto simp: singleOps_def multiOps_def)
  have 3: "scans U (60 # d # 62 # 32 # s) (tkOp, [60, d, 62]) (32 # s)" if "d \<in> {45, 35, 61}" for d
    using that by (intro scans_op3 [OF assms(1)]) (auto simp: singleOps_def multiOps_def)
  from assms(2) show ?thesis by (auto simp: symbolOps_def intro: 1 2 3)
qed

lemma lexesTo_single: "scans U s k s' \<Longrightarrow> lexesTo U s [k] s'"
  by simp

declare lexesTo.simps(2) [simp del]

section \<open>Expressions\<close>

fun lexable :: "Expr \<Rightarrow> bool" where
  "lexable (Literal v src) \<longleftrightarrow> (isNumeric v \<longrightarrow> numberText (if hd src = 45 then tl src else src))"
| "lexable (ColumnRef t c) \<longleftrightarrow> plainName c \<and> (t = [] \<or> plainName t)"
| "lexable (Unary op x) \<longleftrightarrow> lexable x"
| "lexable (Binary op l r) \<longleftrightarrow> lexable l \<and> lexable r"
| "lexable (Between x lo hi neg) \<longleftrightarrow> lexable x \<and> lexable lo \<and> lexable hi"
| "lexable (InList x items sub neg) \<longleftrightarrow> lexable x \<and> (\<forall>i \<in> set items. lexable i)"
| "lexable (IsNullE x neg) \<longleftrightarrow> lexable x"
| "lexable (FuncCall name args star) \<longleftrightarrow> plainName name \<and> (\<forall>a \<in> set args. lexable a)"
| "lexable (Cast x t n dim) \<longleftrightarrow> lexable x"
| "lexable _ \<longleftrightarrow> False"

definition lexesBack :: "unicode \<Rightarrow> sqlenv \<Rightarrow> Expr \<Rightarrow> bool" where
  "lexesBack U X e \<longleftrightarrow> (\<forall>s. delim s \<longrightarrow> lexesTo U (exprString U X e @ s) (exprToks e) s)"

lemma stopper_Cons [simp]: "stopper (32 # s)" "stopper (40 # s)" "stopper (41 # s)" "stopper (44 # s)" "stopper (46 # s)"
  "delim (32 # s)" "delim (41 # s)" "delim (44 # s)"
  by (simp_all add: stopper_def delim_def)

lemma upperWords:
  "w \<in> set [''NULL'', ''TRUE'', ''FALSE'', ''NOT'', ''AND'', ''OR'', ''LIKE'', ''BETWEEN'', ''IN'', ''IS'', ''AS'', ''CAST'', ''SELECT''] \<Longrightarrow>
   upperWord w \<and> str w \<in> sqlKeywords"
  by (auto simp: upperWord_def sqlKeywords_def)

lemma lexes_kw:
  assumes "asciiTables U" "w \<in> set [''NULL'', ''TRUE'', ''FALSE'', ''NOT'', ''AND'', ''OR'', ''LIKE'', ''BETWEEN'', ''IN'', ''IS'', ''AS'', ''CAST'', ''SELECT'']"
    "stopper m" "lexesTo U m ks s"
  shows "lexesTo U (str w @ m) (KW w # ks) s"
  using scans_keyword [OF assms(1) _ _ assms(3), of w] upperWords [OF assms(2)] assms(4) by (auto intro: lexesTo_one)

lemma lexes_word_space:
  assumes "asciiTables U" "w \<in> set [''NULL'', ''TRUE'', ''FALSE'', ''NOT'', ''AND'', ''OR'', ''LIKE'', ''BETWEEN'', ''IN'', ''IS'', ''AS'', ''CAST'', ''SELECT'']"
    "lexesTo U m ks s" "ks \<noteq> []"
  shows "lexesTo U (str w @ 32 # m) (KW w # ks) s"
  using assms by (intro lexes_kw lexesTo_space) simp_all

lemma bool_word:
  assumes "asciiTables U" "stopper s"
  shows "scans U (str ''true'' @ s) (KW ''TRUE'') s" "scans U (str ''false'' @ s) (KW ''FALSE'') s"
proof -
  have "ToUpper U (str ''true'') = str ''TRUE''" "ToUpper U (str ''false'') = str ''FALSE''"
    using assms(1) by (auto simp: asciiTables_def upperASCII_def)
  then have "wordTok U (str ''true'') = KW ''TRUE''" "wordTok U (str ''false'') = KW ''FALSE''"
    by (auto simp: wordTok_def sqlKeywords_def)
  then show "scans U (str ''true'' @ s) (KW ''TRUE'') s" "scans U (str ''false'' @ s) (KW ''FALSE'') s"
    using scans_word [OF assms(1) _ _ _ assms(2), of "str ''true''"] scans_word [OF assms(1) _ _ _ assms(2), of "str ''false''"]
    by (simp_all add: wordStart_def wordByte_def)
qed

lemma exprToks_nonempty: "renderable U X e \<Longrightarrow> exprToks e \<noteq> []"
  by (drule exprToks_first) (auto simp: startsExpr_def)

text \<open>A number token does not start with a sign.\<close>

lemma literal_lexes:
  assumes U: "asciiTables U" and lit: "literalOK X v src" "lexable (Literal v src)"
  shows "lexesBack U X (Literal v src)"
  unfolding lexesBack_def
proof (intro allI impI)
  fix s
  assume s: "delim s"
  show "lexesTo U (exprString U X (Literal v src) @ s) (exprToks (Literal v src)) s"
  proof (cases "isNumeric v")
    case num: True
    then have toks: "exprToks (Literal v src) = (if hd src = 45 then [OP ''-'', (tkNumber, tl src)] else [(tkNumber, src)])"
      by (auto simp: literalToks_def isNumeric_def)
    have nt: "numberText (if hd src = 45 then tl src else src)" using lit(2) num by simp
    have ne: "src \<noteq> []" using nt lit(1) num by (auto simp: literalOK_def isNumeric_def numberOK_def)
    then have str: "exprString U X (Literal v src) = src" by simp
    show ?thesis
    proof (cases "hd src = 45")
      case True
      then have src: "src = 45 # tl src" using ne by (cases src) auto
      have "tl src \<noteq> []" "hd (tl src) \<noteq> 45" using nt True by (auto simp: numberText_def isDigit_def)
      then have "scans U (45 # tl src @ s) (OP ''-'') (tl src @ s)" by (intro scans_punct(6) [OF U]) (auto simp: hd_append)
      moreover have "scans U (tl src @ s) (tkNumber, tl src) s" using scans_number [OF _ s] nt True by simp
      ultimately have "lexesTo U (45 # tl src @ s) [OP ''-'', (tkNumber, tl src)] s" by (blast intro: lexesTo_one lexesTo_single)
      with True src toks str show ?thesis by (metis append_Cons)
    next
      case False
      then show ?thesis using lexesTo_single [OF scans_number [OF _ s, of src U]] nt toks str by simp
    qed
  next
    case False
    then consider (n) "v = nullV" "src = str ''NULL''" | (t) "v = boolV True" "src = str ''true''" | (f) "v = boolV False" "src = str ''false''"
      | (s) w where "v = textV w" "src = [39] @ doubled 39 w @ [39]"
      using lit(1) by (cases "v_T v") (auto simp: literalOK_def isNumeric_def numberOK_def value_defs split: if_splits)
    then show ?thesis
    proof cases
      case n
      have "lexesTo U (str ''NULL'' @ s) [KW ''NULL''] s" using delim_stopper [OF s] by (intro lexes_kw [OF U]) simp_all
      with n show ?thesis by (simp add: literalToks_def value_defs)
    next
      case t
      then show ?thesis using bool_word [OF U delim_stopper [OF s], THEN lexesTo_single] by (simp add: literalToks_def value_defs)
    next
      case f
      then show ?thesis using bool_word [OF U delim_stopper [OF s], THEN lexesTo_single] by (simp add: literalToks_def value_defs)
    next
      case (s w)
      then show ?thesis using lexesTo_single [OF scans_string [OF \<open>delim s\<close>, of U w]] by (simp add: literalToks_def value_defs)
    qed
  qed
qed

lemma columnRef_lexes:
  assumes U: "asciiTables U" and n: "lexable (ColumnRef t c)"
  shows "lexesBack U X (ColumnRef t c)"
  unfolding lexesBack_def
proof (intro allI impI)
  fix s
  assume s: "delim s"
  have c: "scans U (c @ s) (tkIdent, c) s" using scans_name [OF U _ delim_stopper [OF s]] n by simp
  show "lexesTo U (exprString U X (ColumnRef t c) @ s) (exprToks (ColumnRef t c)) s"
  proof (cases "t = []")
    case True
    with lexesTo_single [OF c] show ?thesis by simp
  next
    case False
    then have "scans U (t @ 46 # c @ s) (tkIdent, t) (46 # c @ s)" using scans_name [OF U, of t] n by simp
    moreover have "hd (c @ s) = hd c" "\<not> isDigit (hd c)" using n plainName_bytes(1,2) [of c] by (auto simp: wordStart_def isDigit_def word_le_nat_alt)
    then have "scans U (46 # c @ s) (OP ''.'') (c @ s)" by (intro scans_punct(5) [OF U]) simp
    ultimately have "lexesTo U (t @ 46 # c @ s) [(tkIdent, t), OP ''.'', (tkIdent, c)] s"
      by (rule lexesTo_one [OF _ lexesTo_one [OF _ lexesTo_single [OF c]]])
    with False show ?thesis by simp
  qed
qed

text \<open>Argument lists end at a closing parenthesis.\<close>

lemma joined_lexes:
  assumes U: "asciiTables U" and es: "\<forall>e \<in> set es. lexesBack U X e \<and> exprToks e \<noteq> []"
  shows "lexesTo U (joinWith (str '', '') (map (exprString U X) es) @ 41 # s) (sepToks (map exprToks es)) (41 # s)"
  using es
proof (induction es rule: induct_list012)
  case (2 e)
  then show ?case by (simp add: lexesBack_def)
next
  case (3 e f es)
  then have IH: "lexesTo U (joinWith (str '', '') (map (exprString U X) (f # es)) @ 41 # s) (sepToks (map exprToks (f # es))) (41 # s)"
    and f: "exprToks f \<noteq> []" by auto
  let ?m = "joinWith (str '', '') (map (exprString U X) (f # es)) @ 41 # s"
  have ne: "sepToks (map exprToks (f # es)) \<noteq> []" using f by (cases es) simp_all
  have "lexesTo U (exprString U X e @ 44 # 32 # ?m) (exprToks e) (44 # 32 # ?m)" using 3 by (simp add: lexesBack_def)
  moreover have "lexesTo U (44 # 32 # ?m) (OP '','' # sepToks (map exprToks (f # es))) (41 # s)"
    using scans_punct(3) [OF U] lexesTo_space [OF IH ne] by (blast intro: lexesTo_one)
  ultimately have "lexesTo U (exprString U X e @ 44 # 32 # ?m) (exprToks e @ OP '','' # sepToks (map exprToks (f # es))) (41 # s)"
    by (rule lexesTo_append)
  then show ?case by simp
qed simp

lemma paren_lexes:
  assumes "asciiTables U" "\<forall>e \<in> set es. lexesBack U X e \<and> exprToks e \<noteq> []"
  shows "lexesTo U (40 # joinWith (str '', '') (map (exprString U X) es) @ 41 # s) (OP ''('' # sepToks (map exprToks es) @ [OP '')'']) s"
  by (rule lexesTo_one [OF scans_punct(1) [OF assms(1)] lexesTo_append [OF joined_lexes [OF assms] lexesTo_single [OF scans_punct(2) [OF assms(1)]]]])

lemma function_lexes:
  assumes U: "asciiTables U" and n: "plainName name" and es: "if star then args = [] else \<forall>e \<in> set args. lexesBack U X e \<and> exprToks e \<noteq> []"
  shows "lexesBack U X (FuncCall name args star)"
  unfolding lexesBack_def
proof (intro allI impI)
  fix s
  have f: "scans U (ToUpper U name @ 40 # m) (tkIdent, name) (40 # m)" for m by (rule scans_function [OF U n]) simp
  show "lexesTo U (exprString U X (FuncCall name args star) @ s) (exprToks (FuncCall name args star)) s"
  proof (cases star)
    case True
    have "lexesTo U (40 # 42 # 41 # s) [OP ''('', OP ''*'', OP '')''] s"
      by (intro lexesTo_one [OF scans_punct(1) [OF U]] lexesTo_one [OF scans_punct(4) [OF U]] lexesTo_single [OF scans_punct(2) [OF U]])
    from lexesTo_one [OF f this] True show ?thesis by simp
  next
    case False
    with es have "\<forall>e \<in> set args. lexesBack U X e \<and> exprToks e \<noteq> []" by simp
    from lexesTo_one [OF f paren_lexes [OF U this, of s]] False show ?thesis by simp
  qed
qed

lemma lower_type: "asciiTables U \<Longrightarrow> (\<forall>c \<in> set n. c < 128) \<Longrightarrow> ToLower U n = lowerASCII n"
  by (simp add: asciiTables_def)

definition typeWords :: "string list" where
  "typeWords = [''integer'', ''bigint'', ''double'', ''precision'', ''text'', ''boolean'', ''serial'', ''uuid'', ''bytea'', ''timestamp'']"

lemma typeWords_plain: "w \<in> set typeWords \<Longrightarrow> plainName (str w)"
  unfolding typeWords_def list.set by (elim insertE emptyE) (simp_all add: plainName_def upperASCII_def sqlKeywords_def)

lemma type_lexes:
  assumes U: "asciiTables U" and t: "(t, n, ws) \<in> set scalarTypes" and s: "stopper s"
  shows "lexesTo U (ToLower U n @ s) ws s"
proof -
  have w: "scans U (str w @ m) (tkIdent, str w) m" if "w \<in> set typeWords" "stopper m" for w m
    by (rule scans_name [OF U typeWords_plain [OF that(1)] that(2)])
  have one: "lexesTo U (ToLower U (str N) @ s) [(tkIdent, str w)] s"
    if "lowerASCII (str N) = str w" "\<forall>c \<in> set (str N). c < 128" "w \<in> set typeWords" for N w
    using lexesTo_single [OF w [OF that(3) s]] that(1) lower_type [OF U that(2)] by simp
  have "ToLower U (str ''DOUBLE PRECISION'') = str ''double'' @ 32 # str ''precision''"
    using lower_type [OF U, of "str ''DOUBLE PRECISION''"] by (simp add: lowerASCII_def)
  moreover have "lexesTo U (str ''double'' @ 32 # str ''precision'' @ s) [(tkIdent, str ''double''), (tkIdent, str ''precision'')] s"
    by (intro lexesTo_one [OF w] lexesTo_single scans_space w s) (simp_all add: typeWords_def)
  ultimately have two: "lexesTo U (ToLower U (str ''DOUBLE PRECISION'') @ s) [(tkIdent, str ''double''), (tkIdent, str ''precision'')] s" by simp
  from t show ?thesis unfolding scalarTypes_def
    by (auto simp: typeWords_def lowerASCII_def simp del: str_simps intro!: two one)
      (auto simp: typeWords_def)
qed

lemma cast_lexes:
  assumes U: "asciiTables U" and x: "lexesBack U X x" and t: "typeToks t n \<noteq> []"
  shows "lexesBack U X (Cast x t n d)"
  unfolding lexesBack_def
proof (intro allI impI)
  fix s
  have "lexesTo U (ToLower U n @ 41 # s) (typeToks t n) (41 # s)" by (rule type_lexes [OF U typeToks_scalar [OF t]]) simp
  from lexesTo_append [OF this lexesTo_one [OF scans_punct(2) [OF U]], of "[]" s]
  have ty: "lexesTo U (ToLower U n @ 41 # s) (typeToks t n @ [OP '')'']) s" by simp
  have "lexesTo U (32 # str ''AS'' @ 32 # ToLower U n @ 41 # s) (KW ''AS'' # typeToks t n @ [OP '')'']) s"
    by (intro lexesTo_space lexes_word_space [OF U _ ty]) simp_all
  moreover have "lexesTo U (exprString U X x @ 32 # m) (exprToks x) (32 # m)" for m using x by (simp add: lexesBack_def)
  ultimately have "lexesTo U (exprString U X x @ 32 # str ''AS'' @ 32 # ToLower U n @ 41 # s) (exprToks x @ KW ''AS'' # typeToks t n @ [OP '')'']) s"
    by (blast intro: lexesTo_append)
  from lexes_kw [OF U _ _ lexesTo_one [OF scans_punct(1) [OF U] this], of "''CAST''"]
  show "lexesTo U (exprString U X (Cast x t n d) @ s) (exprToks (Cast x t n d)) s" by simp
qed

lemma opPrec_cases:
  "opPrec op \<noteq> 0 \<Longrightarrow> op = str ''NOT LIKE'' \<or> op \<in> str ` set [''AND'', ''OR'', ''LIKE''] \<or> op \<in> set symbolOps"
  by (rule ccontr) (simp add: opPrec_def symbolOps_def del: str_simps)

lemma op_lexes:
  assumes U: "asciiTables U" and op: "opPrec op \<noteq> 0" and m: "lexesTo U m ks s" "ks \<noteq> []"
  shows "lexesTo U (op @ 32 # m) (opToks op @ ks) s"
proof -
  note m' = lexesTo_space [OF m]
  consider (n) "op = str ''NOT LIKE''" | (k) w where "op = str w" "w \<in> set [''AND'', ''OR'', ''LIKE'']" | (s) "op \<in> set symbolOps"
    using opPrec_cases [OF op] by (auto simp del: str_simps)
  then show ?thesis
  proof cases
    case n
    have "str ''NOT LIKE'' = str ''NOT'' @ 32 # str ''LIKE''" by simp
    moreover have "lexesTo U (str ''NOT'' @ 32 # str ''LIKE'' @ 32 # m) (KW ''NOT'' # KW ''LIKE'' # ks) s"
      by (intro lexes_word_space [OF U] m) simp_all
    ultimately show ?thesis using n by (simp add: opToks_def)
  next
    case k
    then have "lexesTo U (str w @ 32 # m) (KW w # ks) s" by (intro lexes_word_space [OF U] m) auto
    with k show ?thesis by (auto simp: opToks_def)
  next
    case s
    then have "opToks op = [(tkOp, op)]" by (auto simp: symbolOps_def opToks_def)
    with lexesTo_one [OF scans_symbol [OF U s] m'] show ?thesis by simp
  qed
qed

lemma lexesBack_then:
  assumes "lexesBack U X x" "lexesTo U m ks s" "ks \<noteq> []"
  shows "lexesTo U (exprString U X x @ 32 # m) (exprToks x @ ks) s"
proof -
  have "lexesTo U (exprString U X x @ 32 # m) (exprToks x) (32 # m)" using assms(1) by (simp add: lexesBack_def)
  then show ?thesis by (rule lexesTo_append [OF _ lexesTo_space [OF assms(2,3)]])
qed

lemma binary_lexes:
  assumes "asciiTables U" "lexesBack U X l" "lexesBack U X r" "opPrec op \<noteq> 0" "exprToks r \<noteq> []"
  shows "lexesBack U X (Binary op l r)"
  unfolding lexesBack_def
proof (intro allI impI)
  fix s
  assume "delim s"
  then have "lexesTo U (exprString U X r @ s) (exprToks r) s" using assms(3) by (simp add: lexesBack_def)
  from lexesBack_then [OF assms(2) op_lexes [OF assms(1,4) this assms(5)]] assms(5)
  show "lexesTo U (exprString U X (Binary op l r) @ s) (exprToks (Binary op l r)) s" by simp
qed

text \<open>An optional NOT before a word.\<close>

lemma neg_lexes: "asciiTables U \<Longrightarrow> lexesTo U m ks s \<Longrightarrow> ks \<noteq> [] \<Longrightarrow>
  lexesTo U ((if neg then str ''NOT '' else []) @ m) ((if neg then [KW ''NOT''] else []) @ ks) s"
  using lexes_word_space [of U "''NOT''" m ks s] by (cases neg) simp_all

lemma between_lexes:
  assumes U: "asciiTables U" and x: "lexesBack U X x" "lexesBack U X lo" "lexesBack U X hi" "exprToks lo \<noteq> []" "exprToks hi \<noteq> []"
  shows "lexesBack U X (Between x lo hi neg)"
  unfolding lexesBack_def
proof (intro allI impI)
  fix s
  assume "delim s"
  then have "lexesTo U (exprString U X hi @ s) (exprToks hi) s" using x(3) by (simp add: lexesBack_def)
  then have "lexesTo U (str ''AND'' @ 32 # exprString U X hi @ s) (KW ''AND'' # exprToks hi) s" by (intro lexes_word_space [OF U]) (simp_all add: x(5))
  from lexesBack_then [OF x(2) this]
  have "lexesTo U (exprString U X lo @ 32 # str ''AND'' @ 32 # exprString U X hi @ s) (exprToks lo @ KW ''AND'' # exprToks hi) s" by simp
  then have "lexesTo U (str ''BETWEEN'' @ 32 # exprString U X lo @ 32 # str ''AND'' @ 32 # exprString U X hi @ s)
      (KW ''BETWEEN'' # exprToks lo @ KW ''AND'' # exprToks hi) s" by (intro lexes_word_space [OF U]) simp_all
  from lexesBack_then [OF x(1) neg_lexes [OF U this, of neg]]
  show "lexesTo U (exprString U X (Between x lo hi neg) @ s) (exprToks (Between x lo hi neg)) s" by (cases neg) simp_all
qed

lemma inList_lexes:
  assumes U: "asciiTables U" and x: "lexesBack U X x" "\<forall>e \<in> set es. lexesBack U X e \<and> exprToks e \<noteq> []"
  shows "lexesBack U X (InList x es sub neg)"
  unfolding lexesBack_def
proof (intro allI impI)
  fix s
  have "lexesTo U (str ''IN'' @ 32 # 40 # joinWith (str '', '') (map (exprString U X) es) @ 41 # s)
      (KW ''IN'' # OP ''('' # sepToks (map exprToks es) @ [OP '')'']) s"
    by (intro lexes_word_space [OF U] paren_lexes [OF U x(2)]) simp_all
  from lexesBack_then [OF x(1) neg_lexes [OF U this, of neg]]
  show "lexesTo U (exprString U X (InList x es sub neg) @ s) (exprToks (InList x es sub neg)) s" by (cases neg) simp_all
qed

lemma isNull_lexes:
  assumes U: "asciiTables U" and x: "lexesBack U X x"
  shows "lexesBack U X (IsNullE x neg)"
  unfolding lexesBack_def
proof (intro allI impI)
  fix s
  assume s: "delim s"
  have "lexesTo U (str ''NULL'' @ s) [KW ''NULL''] s" using delim_stopper [OF s] by (intro lexes_kw [OF U]) simp_all
  from neg_lexes [OF U this, of neg]
  have "lexesTo U (str ''IS'' @ 32 # (if neg then str ''NOT '' else []) @ str ''NULL'' @ s) (KW ''IS'' # (if neg then [KW ''NOT''] else []) @ [KW ''NULL'']) s"
    by (intro lexes_word_space [OF U]) simp_all
  from lexesBack_then [OF x this]
  show "lexesTo U (exprString U X (IsNullE x neg) @ s) (exprToks (IsNullE x neg)) s" by (cases neg) simp_all
qed

lemma not_lexes:
  assumes U: "asciiTables U" and x: "lexesBack U X x" "exprToks x \<noteq> []"
  shows "lexesBack U X (Unary (str ''NOT'') x)"
  unfolding lexesBack_def
proof (intro allI impI)
  fix s
  assume "delim s"
  then have "lexesTo U (str ''NOT'' @ 32 # exprString U X x @ s) (KW ''NOT'' # exprToks x) s"
    using x by (intro lexes_word_space [OF U]) (simp_all add: lexesBack_def)
  then show "lexesTo U (exprString U X (Unary (str ''NOT'') x) @ s) (exprToks (Unary (str ''NOT'') x)) s" by simp
qed

text \<open>The text after a minus sign does not make a comment of it.\<close>

lemma operand_text:
  assumes "renderable U X x" "lexable x" "level x = 10" "\<not> numericLiteral x" "\<not> isUnary x" "asciiTables U"
  shows "\<exists>c cs. exprString U X x = c # cs \<and> c \<noteq> 45"
proof -
  have name: "\<exists>c cs. w @ m = c # cs \<and> c \<noteq> 45" if "plainName w" for w m
    using plainName_bytes(1,2) [OF that] by (cases w) (auto simp: wordStart_def)
  show ?thesis
  proof (cases x)
    case (Literal v src)
    with assms show ?thesis by (auto simp: literalOK_def numberOK_def isNumeric_def value_defs split: Type.splits if_splits)
  next
    case (ColumnRef t c)
    with assms(2) show ?thesis using name [of t] name [of c "[]"] by auto
  next
    case (FuncCall n args star)
    then have n: "plainName n" using assms(2) by simp
    then have "ToUpper U n = upperASCII n" using assms(6) plainName_bytes(4) by (simp add: asciiTables_def)
    with upperASCII_name(1,2) [OF n] have "\<exists>c cs. ToUpper U n = c # cs \<and> c \<noteq> 45" by (cases "upperASCII n") (auto simp: wordStart_def)
    with FuncCall show ?thesis by auto
  qed (use assms in auto)
qed

lemma minus_lexes:
  assumes U: "asciiTables U" and x: "lexesBack U X x" "\<exists>c cs. exprString U X x = c # cs \<and> c \<noteq> 45"
  shows "lexesBack U X (Unary (str ''-'') x)"
  unfolding lexesBack_def
proof (intro allI impI)
  fix s
  assume "delim s"
  then have "lexesTo U (exprString U X x @ s) (exprToks x) s" using x(1) by (simp add: lexesBack_def)
  moreover have "scans U (45 # exprString U X x @ s) (OP ''-'') (exprString U X x @ s)" using x(2) by (intro scans_punct(6) [OF U]) auto
  ultimately have "lexesTo U (45 # exprString U X x @ s) (OP ''-'' # exprToks x) s" by (rule lexesTo_one [rotated])
  then show "lexesTo U (exprString U X (Unary (str ''-'') x) @ s) (exprToks (Unary (str ''-'') x)) s" by simp
qed

lemma rendered_lexes:
  assumes U: "asciiTables U"
  shows "renderable U X e \<Longrightarrow> lexable e \<Longrightarrow> lexesBack U X e"
  using U
proof (induction U X e rule: renderable.induct)
  case (3 U X op x)
  then have x: "renderable U X x" "lexable x" "lexesBack U X x" "exprToks x \<noteq> []" using exprToks_nonempty [of U X x] by auto
  show ?case
  proof (cases "op = str ''NOT''")
    case True
    with not_lexes [OF 3(4) x(3,4)] show ?thesis by (simp del: str_simps)
  next
    case False
    with 3(2) have op: "op = str ''-''" "level x = 10" "\<not> numericLiteral x" "\<not> isUnary x" by auto
    from minus_lexes [OF 3(4) x(3) operand_text [OF x(1,2) op(2-4) 3(4)]] op(1) show ?thesis by (simp del: str_simps)
  qed
next
  case (4 U X op l r)
  then show ?case using exprToks_nonempty [of U X r] by (intro binary_lexes) auto
next
  case (5 U X x lo hi neg)
  then show ?case using exprToks_nonempty [of U X lo] exprToks_nonempty [of U X hi] by (intro between_lexes) auto
next
  case (6 U X x items sub neg)
  then show ?case using exprToks_nonempty [of U X] by (intro inList_lexes) auto
next
  case (7 U X x neg)
  then show ?case by (intro isNull_lexes) auto
next
  case (8 U X name args star)
  then show ?case using exprToks_nonempty [of U X] by (intro function_lexes) auto
next
  case (9 U X x t n dim)
  then show ?case by (intro cast_lexes) auto
qed (simp_all add: literal_lexes columnRef_lexes)

section \<open>Stored constraints\<close>

lemma select_lexes: "asciiTables U \<Longrightarrow> lexesTo U s ks [] \<Longrightarrow> ks \<noteq> [] \<Longrightarrow> lexesTo U (str ''SELECT '' @ s) (KW ''SELECT'' # ks) []"
  using lexes_word_space [of U "''SELECT''" s ks "[]"] by simp

lemma parseExprText_tokens:
  assumes U: "asciiTables U" and lex: "lexesTo U text ks []" "ks \<noteq> []"
    and parse: "\<And>ts. map kt ts = KW ''SELECT'' # ks @ [(tkEOF, [])] \<Longrightarrow> tokensOK ts \<Longrightarrow> parseTokens U X ts = POk [exprQuery e] [last ts]"
  shows "parseExprText U X text = Some (Inr e)"
proof -
  obtain ts where ts: "lexAll U (str ''SELECT '' @ text) = Some (Inr ts)" "map kt ts = KW ''SELECT'' # ks @ [(tkEOF, [])]"
    using lexesTo_lexAll [OF select_lexes [OF U lex]] by auto
  have "tokensOK ts" using tokens_OK [of U _ "[]"] ts(1) by (auto simp: lexAll_def)
  from parse [OF ts(2) this] ts(1) show ?thesis by (simp add: parseExprText_def ParseStatements_def exprQuery_def del: str_simps)
qed

lemma rendered_text:
  assumes "asciiTables U" "renderable U X e" "lexable e"
  shows "parseExprText U X (exprString U X e) = Some (Inr e)"
proof (rule parseExprText_tokens [OF assms(1)])
  show "lexesTo U (exprString U X e) (exprToks e) []"
    using rendered_lexes [OF assms] by (auto simp: lexesBack_def delim_def dest: spec [of _ "[]"])
  show "exprToks e \<noteq> []" using exprToks_nonempty [OF assms(2)] .
qed (rule parseTokens_expr [OF assms(2)])

text \<open>
  C29. CHECK and DEFAULT expressions are stored as text: for every expression that the grammar reads without parentheses
  (each operand binds tighter than its operator, \<open>renderable\<close>) and whose names are plain (\<open>lexable\<close>),
  the stored text is read back as the very expression that was declared.
\<close>

theorem check_text_roundtrip:
  assumes "asciiTables U" "renderable U X e" "lexable e"
  shows "parseExprText U X (exprString U X e) = Some (Inr e)"
  using assms by (rule rendered_text)

lemma asciiTables_ascii: "asciiTables asciiUnicode"
  by (simp add: asciiTables_def asciiUnicode_def)

theorem check_text_roundtrip_witness:
  "\<forall>X. parseExprText asciiUnicode X (str ''NOT a IS NULL AND -b <= 7'') =
     Some (Inr (Binary (str ''AND'') (Unary (str ''NOT'') (IsNullE (ColumnRef [] (str ''a'')) False))
       (Binary (str ''<='') (Unary (str ''-'') (ColumnRef [] (str ''b''))) (Literal (intV 7) (str ''7'')))))"
proof
  fix X
  let ?e = "Binary (str ''AND'') (Unary (str ''NOT'') (IsNullE (ColumnRef [] (str ''a'')) False))
       (Binary (str ''<='') (Unary (str ''-'') (ColumnRef [] (str ''b''))) (Literal (intV 7) (str ''7'')))"
  have "literalOK X (intV 7) (str ''7'')"
    by (simp add: literalOK_def numberOK_def hasDotOrExp_def ParseInt_def digitsVal_def isDigit_def value_defs)
  then have "renderable asciiUnicode X ?e" by (simp add: opPrec_def)
  moreover have "lexable ?e"
    by (simp add: plainName_def upperASCII_def sqlKeywords_def numberText_def isDigit_def)
  moreover have "exprString asciiUnicode X ?e = str ''NOT a IS NULL AND -b <= 7''" by simp
  ultimately show "parseExprText asciiUnicode X (str ''NOT a IS NULL AND -b <= 7'') = Some (Inr ?e)"
    using check_text_roundtrip [OF asciiTables_ascii, of X ?e] by (simp del: exprString.simps)
qed

text \<open>A parenthesized OR before an AND, as tokens.\<close>

lemma parenthesized_reads:
  assumes ts: "map kt ts = [KW ''SELECT'', OP ''('', (tkIdent, a), KW ''OR'', (tkIdent, b), OP '')'', KW ''AND'', (tkIdent, c), (tkEOF, [])]"
    and ok: "tokensOK ts"
  defines "inner \<equiv> Binary (str ''OR'') (ColumnRef [] a) (ColumnRef [] b)"
  shows "parseTokens U X ts = POk [exprQuery (Binary (str ''AND'') inner (ColumnRef [] c))] [last ts]"
proof -
  let ?P = "parserAt U X (length ts)"
  obtain sel lp us rp op2 cs eof where t: "ts = sel # (lp # us @ rp # op2 # cs) @ [eof]" "kt sel = KW ''SELECT''" "kt lp = OP ''(''"
      "map kt us = exprToks inner" "kt rp = OP '')''" "kt op2 = KW ''AND''" "map kt cs = exprToks (ColumnRef [] c)" "kt eof = (tkEOF, [])"
    and us: "\<exists>u v w. us = [u, v, w] \<and> kt u = (tkIdent, a)"
  proof -
    from ts obtain t1 t2 t3 t4 t5 t6 t7 t8 t9 where "ts = [t1, t2, t3, t4, t5, t6, t7, t8, t9]" by (auto simp: map_eq_Cons_conv)
    with ts that [of t1 t2 "[t3, t4, t5]" t6 t7 "[t8]" t9] show ?thesis by (simp add: inner_def opToks_def)
  qed
  have r: "renderable U X inner" "renderable U X (ColumnRef [] c)" by (simp_all add: inner_def opPrec_def)
  have ok': "tokensOK (us @ rp # op2 # cs @ [eof])" "tokensOK (cs @ [eof])"
    using ok t(1) tokensOK_append [of us "rp # op2 # cs @ [eof]"] by (auto simp: tokensOK_Cons)
  obtain n where n: "length ts = Suc n" "length (us @ rp # op2 # cs @ [eof]) \<le> n" "length (cs @ [eof]) \<le> n" using t(1) by auto
  let ?Q = "parserAt U X n"
  have inn: "pExpr ?Q 1 (us @ rp # op2 # cs @ [eof]) = POk inner (rp # op2 # cs @ [eof])"
    using renderable_reads [OF r(1)] level_pos [OF r(1)] t ok' n
    by (intro pExpr_reads [where p = 0]) (auto simp: mayFollow_def infixPrec_close)
  have notSel: "\<not> isTok tkKeyword ''SELECT'' (hd us)" using us by (auto simp: isTok_kt)
  have "parsePrimary U X ?Q (lp # us @ rp # op2 # cs @ [eof]) = POk inner (op2 # cs @ [eof])"
    using t(3,5) us inn notSel
    by (auto simp: parsePrimary_def pbind_peek pthen_def pbind_next peekKw_def isTok_def kt_def) 
      (auto simp: pbind_def pthen_def peek_def ret_def expectOp_Cons kt_def)
  then have "parseUnary U X ?Q (lp # us @ rp # op2 # cs @ [eof]) = POk inner (op2 # cs @ [eof])"
    using t(3,6) by (intro parseUnary_postfix) (auto simp: mayFollow_def)
  moreover have "pExpr ?Q 3 (cs @ [eof]) = POk (ColumnRef [] c) [eof]"
    using renderable_reads [OF r(2)] t ok' n by (intro pExpr_reads [where p = 0]) (auto simp: mayFollow_def infixPrec_close)
  then have "prattStep ?Q 1 inner (op2 # cs @ [eof]) = POk (Inl (Binary (str ''AND'') inner (ColumnRef [] c))) [eof]"
    using t(6) by (intro prattStep_go [where p = 2]) (auto simp: infixPrec_keyword infixTail_def isTok_kt pbind_def ret_def kt_def)
  then have "whileP (prattStep ?Q 1) inner (op2 # cs @ [eof]) = whileP (prattStep ?Q 1) (Binary (str ''AND'') inner (ColumnRef [] c)) [eof]"
    using ok' t n by (intro whileP_unroll [OF runs_prattStep [OF good_parserAt order_refl]]) (auto simp: tokensOK_Cons kt_def)
  moreover have "\<dots> = POk (Binary (str ''AND'') inner (ColumnRef [] c)) [eof]"
    using t(8) by (intro whileP_exit prattStep_exit [where p = 0] infixPrec_close) auto
  ultimately have "pExpr ?P 1 ((lp # us @ rp # op2 # cs) @ [eof]) = POk (Binary (str ''AND'') inner (ColumnRef [] c)) [eof]"
    unfolding n(1) by (simp add: parseExpr_def pbind_def)
  from parseTokens_one [OF this _ t(1,2,8) ok] t(3) show ?thesis by (simp add: startsExpr_Cons)
qed

lemma plain_letter: "c \<in> {97, 98, 99} \<Longrightarrow> plainName [c]"
  by (auto simp: plainName_def upperASCII_def sqlKeywords_def)

lemma parenthesized_lexes:
  assumes U: "asciiTables U"
  shows "lexesTo U (str ''(a OR b) AND c'') [OP ''('', (tkIdent, [97]), KW ''OR'', (tkIdent, [98]), OP '')'', KW ''AND'', (tkIdent, [99])] []"
proof -
  have w: "scans U ([c] @ m) (tkIdent, [c]) m" if "c \<in> {97, 98, 99}" "stopper m" for c m by (rule scans_name [OF U plain_letter [OF that(1)] that(2)])
  have "lexesTo U ([99] @ []) [(tkIdent, [99])] []" by (rule lexesTo_single [OF w]) (simp_all add: stopper_def)
  then have "lexesTo U (32 # str ''AND'' @ 32 # [99] @ []) [KW ''AND'', (tkIdent, [99])] []"
    by (intro lexesTo_space lexes_word_space [OF U]) simp_all
  from lexesTo_one [OF w lexesTo_one [OF scans_punct(2) [OF U] this], of 98]
  have "lexesTo U ([98] @ 41 # 32 # str ''AND'' @ 32 # [99] @ []) [(tkIdent, [98]), OP '')'', KW ''AND'', (tkIdent, [99])] []" by simp
  then have "lexesTo U (32 # str ''OR'' @ 32 # [98] @ 41 # 32 # str ''AND'' @ 32 # [99] @ [])
      (KW ''OR'' # [(tkIdent, [98]), OP '')'', KW ''AND'', (tkIdent, [99])]) []"
    by (intro lexesTo_space lexes_word_space [OF U]) simp_all
  from lexesTo_one [OF scans_punct(1) [OF U] lexesTo_one [OF w this, of 97]] show ?thesis by simp
qed

text \<open>
  C37. Parentheses are lost: the constraint \<^verbatim>\<open>CHECK ((a OR b) AND c)\<close> parses to a tree whose rendering is
  \<^verbatim>\<open>a OR b AND c\<close>; a row on which the declared expression is false passes the enforcement of the stored one.
\<close>

theorem check_parentheses_lost:
  assumes "asciiTables U"
  shows "\<exists>e r. parseExprText U X (str ''(a OR b) AND c'') = Some (Inr e) \<and> evalExpr U X (Some r) e = Inr (boolV False) \<and>
    enforceChecks U X [\<lparr>ck_Name = str ''t_check'', ck_Expr = exprString U X e\<rparr>] r = Some (Inr ())"
proof -
  let ?a = "ColumnRef [] [97]" and ?b = "ColumnRef [] [98]" and ?c = "ColumnRef [] [99]"
  let ?e = "Binary (str ''AND'') (Binary (str ''OR'') ?a ?b) ?c" and ?e' = "Binary (str ''OR'') ?a (Binary (str ''AND'') ?b ?c)"
  let ?r = "(\<lambda>n. if n = [97] then Some (boolV True) else Some (boolV False)) :: row"
  have "parseExprText U X (str ''(a OR b) AND c'') = Some (Inr ?e)"
    by (rule parseExprText_tokens [OF assms parenthesized_lexes [OF assms]]) (simp_all add: parenthesized_reads del: str_simps)
  moreover have "evalExpr U X (Some ?r) ?e = Inr (boolV False)"
    by (simp add: columnValue_def truth_def value_defs logicalRest_def)
  moreover have "parseExprText U X (exprString U X ?e') = Some (Inr ?e')"
  proof -
    have "renderable U X ?e'" by (simp add: opPrec_def)
    moreover have "lexable ?e'" by (simp add: plain_letter)
    ultimately show ?thesis using rendered_text [OF assms] by blast
  qed
  then have "parseExprText U X (exprString U X ?e) = Some (Inr ?e')" by simp
  then have "enforceChecks U X [\<lparr>ck_Name = str ''t_check'', ck_Expr = exprString U X ?e\<rparr>] ?r = Some (Inr ())"
    by (simp add: columnValue_def truth_def value_defs IsNull_def del: exprString.simps str_simps) (simp add: truth_def value_defs IsNull_def)?
  ultimately show ?thesis by blast
qed

theorem check_parentheses_lost_witness:
  "\<forall>X. \<exists>e r. parseExprText asciiUnicode X (str ''(a OR b) AND c'') = Some (Inr e) \<and> evalExpr asciiUnicode X (Some r) e = Inr (boolV False) \<and>
    enforceChecks asciiUnicode X [\<lparr>ck_Name = str ''t_check'', ck_Expr = exprString asciiUnicode X e\<rparr>] r = Some (Inr ())"
  using check_parentheses_lost [OF asciiTables_ascii] by blast

end
