(* ===== verification/SQL_Catalog.thy ===== *)
theory SQL_Catalog
  imports SQL_Eval SQL_Key Store
begin

text \<open>
  The catalog and the storage of the SQL engine: schemas and key layout (\<^verbatim>\<open>pkg/service/sql/catalog.go\<close>), the
  stored form of a row (\<^verbatim>\<open>value.go\<close>), the key-value interface the executor runs on and its two implementations
  (\<^verbatim>\<open>store.go\<close>), and the paged scans (\<^verbatim>\<open>exec.go\<close>, \<^verbatim>\<open>planner.go\<close>). A Go map is an association list; a missing
  key reads as the zero value, which is NULL. The JSON library is the record \<^verbatim>\<open>jsonenv\<close>.
\<close>

section \<open>Schemas\<close>

record column =
  c_Name :: bytes
  c_Type :: Type
  c_TypeName :: bytes
  c_Dim :: nat
  c_NotNull :: bool
  c_Unique :: bool
  c_Auto :: bool
  c_Default :: bytes

record indexDef =
  ix_Name :: bytes
  ix_Columns :: "bytes list"
  ix_Unique :: bool

record tableSchema =
  sc_Name :: bytes
  sc_Columns :: "column list"
  sc_PK :: "bytes list"
  sc_Indexes :: "indexDef list"
  sc_Checks :: "checkDef list"
  sc_NextRowID :: i64

definition col :: "tableSchema \<Rightarrow> bytes \<Rightarrow> column option" where
  "col sc name = find (\<lambda>c. c_Name c = name) (sc_Columns sc)"

definition hasPK :: "tableSchema \<Rightarrow> bool" where
  "hasPK sc \<longleftrightarrow> sc_PK sc \<noteq> []"

definition autoCol :: "tableSchema \<Rightarrow> bytes" where
  "autoCol sc = (case find c_Auto (sc_Columns sc) of Some c \<Rightarrow> c_Name c | None \<Rightarrow> [])"

definition orderColumns :: "tableSchema \<Rightarrow> bytes list" where
  "orderColumns sc = map c_Name (sc_Columns sc)"

section \<open>Keys\<close>

definition sqlRoot :: bytes where "sqlRoot = str ''/sql/''"

definition catalogPrefix :: "bytes \<Rightarrow> bytes" where "catalogPrefix db = sqlRoot @ db @ str ''/_catalog/''"
definition catalogKey :: "bytes \<Rightarrow> bytes \<Rightarrow> bytes" where "catalogKey db table = sqlRoot @ db @ str ''/_catalog/'' @ table"
definition tablePrefix :: "bytes \<Rightarrow> bytes \<Rightarrow> bytes" where "tablePrefix db table = sqlRoot @ db @ str ''/'' @ table @ str ''/''"
definition rowKey :: "bytes \<Rightarrow> bytes \<Rightarrow> bytes \<Rightarrow> bytes" where "rowKey db table pkhex = tablePrefix db table @ pkhex"
definition indexPrefix :: "bytes \<Rightarrow> bytes \<Rightarrow> bytes" where "indexPrefix db table = sqlRoot @ db @ str ''/_idx/'' @ table @ str ''/''"

definition oneIndexPrefix :: "bytes \<Rightarrow> bytes \<Rightarrow> bytes \<Rightarrow> bytes" where
  "oneIndexPrefix db table idx = indexPrefix db table @ idx @ str ''/''"

definition indexEntryKey :: "bytes \<Rightarrow> bytes \<Rightarrow> bytes \<Rightarrow> bytes \<Rightarrow> bytes \<Rightarrow> bytes" where
  "indexEntryKey db table idx keyhex pkhex = oneIndexPrefix db table idx @ keyhex @ str ''/'' @ pkhex"

text \<open>\<^verbatim>\<open>strings.TrimPrefix\<close>\<close>

definition TrimPrefix :: "bytes \<Rightarrow> bytes \<Rightarrow> bytes" where
  "TrimPrefix s p = (if prefix p s then drop (length p) s else s)"

definition tableFromCatalogKey :: "bytes \<Rightarrow> bytes \<Rightarrow> bytes" where
  "tableFromCatalogKey key db = TrimPrefix key (catalogPrefix db)"

text \<open>The loop from the last byte is the one of \<^verbatim>\<open>PrefixUpperBound\<close>; here the unbounded end is the empty string.\<close>

definition prefixEnd :: "bytes \<Rightarrow> bytes" where
  "prefixEnd p = (case prefixUpperLoop (rev p) of Some e \<Rightarrow> e | None \<Rightarrow> [])"

type_synonym rowmap = "(bytes \<times> Value) list"

definition rowGet :: "rowmap \<Rightarrow> bytes \<Rightarrow> Value" where
  "rowGet r cn = (case map_of r cn of Some v \<Rightarrow> v | None \<Rightarrow> nullV)"

definition indexKeyHex :: "indexDef \<Rightarrow> rowmap \<Rightarrow> string + bytes" where
  "indexKeyHex idx r = encodeKey (map (rowGet r) (ix_Columns idx))"

definition pkHexFor :: "tableSchema \<Rightarrow> rowmap \<Rightarrow> i64 \<Rightarrow> string + bytes" where
  "pkHexFor sc r rowid =
     (if \<not> hasPK sc then encodeKey [intV rowid]
      else if \<exists>cn \<in> set (sc_PK sc). IsNull (rowGet r cn) then Inl ''primary key column cannot be NULL''
      else encodeKey (map (rowGet r) (sc_PK sc)))"

section \<open>Stored rows\<close>

record taggedValue =
  tv_T :: bytes
  tv_V :: bytes

record jsonenv =
  jString :: "bytes \<Rightarrow> bytes"
  jUnString :: "bytes \<Rightarrow> bytes option"
  jFloat :: "f64 \<Rightarrow> bytes option"
  jUnFloat :: "bytes \<Rightarrow> f64 option"
  jBool :: "bool \<Rightarrow> bytes"
  jUnBool :: "bytes \<Rightarrow> bool option"
  jRow :: "(bytes \<times> taggedValue) list \<Rightarrow> bytes"
  jUnRow :: "bytes \<Rightarrow> (bytes \<times> taggedValue) list option"
  jSchema :: "tableSchema \<Rightarrow> bytes"
  jUnSchema :: "bytes \<Rightarrow> tableSchema option"

definition encodeValueJSON :: "sqlenv \<Rightarrow> jsonenv \<Rightarrow> Value \<Rightarrow> string + taggedValue" where
  "encodeValueJSON X J v = (case v_T v of
     TypeNull \<Rightarrow> Inr \<lparr>tv_T = str ''n'', tv_V = []\<rparr>
   | TypeBool \<Rightarrow> Inr \<lparr>tv_T = str ''b'', tv_V = jBool J (v_B v)\<rparr>
   | TypeInt \<Rightarrow> Inr \<lparr>tv_T = str ''i'', tv_V = FormatInt (v_I v)\<rparr>
   | TypeDouble \<Rightarrow> Inr \<lparr>tv_T = str ''d'', tv_V = (case jFloat J (v_F v) of Some raw \<Rightarrow> raw | None \<Rightarrow> jString J (formatDouble X (v_F v)))\<rparr>
   | TypeText \<Rightarrow> Inr \<lparr>tv_T = str ''s'', tv_V = jString J (v_S v)\<rparr>
   | TypeBytea \<Rightarrow> Inr \<lparr>tv_T = str ''x'', tv_V = jString J (b64Encode X (v_Raw v))\<rparr>
   | TypeTimestamp \<Rightarrow> Inr \<lparr>tv_T = str ''t'', tv_V = jString J (timeFormat X (str ''2006-01-02T15:04:05.999999999Z07:00'') (v_TS v))\<rparr>
   | TypeVector \<Rightarrow> Inr \<lparr>tv_T = str ''v'', tv_V = jString J (formatVector X (v_Vec v))\<rparr>
   | TypeAny \<Rightarrow> Inl ''cannot store value'')"

definition unmarshal :: "'a option \<Rightarrow> string + 'a" where
  "unmarshal r = (case r of None \<Rightarrow> Inl ''unmarshal'' | Some x \<Rightarrow> Inr x)"

definition decodeValueJSON :: "sqlenv \<Rightarrow> jsonenv \<Rightarrow> taggedValue \<Rightarrow> string + Value" where
  "decodeValueJSON X J tv =
     (let raw = tv_V tv; text = unmarshal (jUnString J raw)
      in if tv_T tv = str ''n'' then Inr nullV
         else if tv_T tv = str ''b'' then sbind (unmarshal (jUnBool J raw)) (\<lambda>b. Inr (boolV b))
         else if tv_T tv = str ''i'' then sbind (unmarshal (ParseInt (TrimSpace raw))) (\<lambda>i. Inr (intV i))
         else if tv_T tv = str ''d'' then
           (case jUnFloat J raw of
              Some f \<Rightarrow> Inr (doubleV f)
            | None \<Rightarrow> sbind text (\<lambda>s. sbind (unmarshal (ParseFloat X 64 s)) (\<lambda>f. Inr (doubleV f))))
         else if tv_T tv = str ''s'' then sbind text (\<lambda>s. Inr (textV s))
         else if tv_T tv = str ''x'' then sbind text (\<lambda>s. sbind (unmarshal (b64Decode X s)) (\<lambda>b. Inr (byteaV b)))
         else if tv_T tv = str ''t'' then
           sbind text (\<lambda>s. sbind (unmarshal (timeParse X (str ''2006-01-02T15:04:05.999999999Z07:00'') s)) (\<lambda>t. Inr (timeV t)))
         else if tv_T tv = str ''v'' then sbind text (\<lambda>s. sbind (parseVectorText X s) (\<lambda>vec. Inr (vectorV vec)))
         else Inl ''unknown value tag'')"

fun mapE :: "('a \<Rightarrow> 'e + 'b) \<Rightarrow> 'a list \<Rightarrow> 'e + 'b list" where
  "mapE f [] = Inr []"
| "mapE f (x # xs) = sbind (f x) (\<lambda>y. sbind (mapE f xs) (\<lambda>ys. Inr (y # ys)))"

definition encodeRow :: "sqlenv \<Rightarrow> jsonenv \<Rightarrow> rowmap \<Rightarrow> string + bytes" where
  "encodeRow X J r = sbind (mapE (\<lambda>(k, v). sbind (encodeValueJSON X J v) (\<lambda>tv. Inr (k, tv))) r) (\<lambda>tvs. Inr (jRow J tvs))"

definition decodeRow :: "sqlenv \<Rightarrow> jsonenv \<Rightarrow> bytes \<Rightarrow> string + rowmap" where
  "decodeRow X J data = (case jUnRow J data of
     None \<Rightarrow> Inl ''corrupt row''
   | Some tvs \<Rightarrow> mapE (\<lambda>(k, tv). case decodeValueJSON X J tv of Inl e \<Rightarrow> Inl ''corrupt row column'' | Inr v \<Rightarrow> Inr (k, v)) tvs)"

section \<open>The key-value interface\<close>

record ('s, 't) kvStore =
  kvGet :: "'s \<Rightarrow> bytes \<Rightarrow> string + bytes option"
  kvSet :: "'s \<Rightarrow> bytes \<Rightarrow> bytes \<Rightarrow> string + 's"
  kvDelete :: "'s \<Rightarrow> bytes \<Rightarrow> string + 's"
  kvDeleteRange :: "'s \<Rightarrow> bytes \<Rightarrow> bytes \<Rightarrow> string + 's"
  kvList :: "'s \<Rightarrow> bytes \<Rightarrow> bytes \<Rightarrow> nat \<Rightarrow> string + (bytes \<times> bytes) list \<times> bytes"
  newTx :: "'s \<Rightarrow> 't"
  txGet :: "'s \<Rightarrow> 't \<Rightarrow> bytes \<Rightarrow> string + bytes option"
  txSet :: "'t \<Rightarrow> bytes \<Rightarrow> bytes \<Rightarrow> 't"
  txDelete :: "'t \<Rightarrow> bytes \<Rightarrow> 't"
  txCommit :: "'s \<Rightarrow> 't \<Rightarrow> string + 's"

text \<open>The in-memory store. A Go map keeps one value per key.\<close>

type_synonym mem = "(bytes \<times> bytes) list"

definition memDeleteRange :: "mem \<Rightarrow> bytes \<Rightarrow> bytes \<Rightarrow> mem" where
  "memDeleteRange m start end' = filter (\<lambda>(k, v). \<not> (start \<le> k \<and> (end' = [] \<or> k < end'))) m"

definition memList :: "mem \<Rightarrow> bytes \<Rightarrow> bytes \<Rightarrow> nat \<Rightarrow> (bytes \<times> bytes) list \<times> bytes" where
  "memList m p cursor limit =
     (let keys = sort (filter (\<lambda>k. prefix p k \<and> (cursor = [] \<or> cursor < k)) (map fst m));
          keys = (if limit > 0 \<and> length keys > limit then take limit keys else keys);
          next = (if limit > 0 \<and> length keys = limit then last keys else [])
      in (map (\<lambda>k. (k, the (map_of m k))) keys, next))"

record memTx =
  mt_sets :: mem
  mt_dels :: "bytes list"

definition memTxGet :: "mem \<Rightarrow> memTx \<Rightarrow> bytes \<Rightarrow> bytes option" where
  "memTxGet m t key =
     (if key \<in> set (mt_dels t) then None
      else case map_of (mt_sets t) key of Some v \<Rightarrow> Some v | None \<Rightarrow> map_of m key)"

definition memTxSet :: "memTx \<Rightarrow> bytes \<Rightarrow> bytes \<Rightarrow> memTx" where
  "memTxSet t key value = t\<lparr>mt_dels := removeAll key (mt_dels t), mt_sets := AList.update key value (mt_sets t)\<rparr>"

definition memTxDelete :: "memTx \<Rightarrow> bytes \<Rightarrow> memTx" where
  "memTxDelete t key = t\<lparr>mt_sets := AList.delete key (mt_sets t), mt_dels := List.insert key (mt_dels t)\<rparr>"

definition memTxCommit :: "mem \<Rightarrow> memTx \<Rightarrow> mem" where
  "memTxCommit m t = foldl (\<lambda>m (k, v). AList.update k v m) (foldl (\<lambda>m k. AList.delete k m) m (mt_dels t)) (mt_sets t)"

definition memStore :: "(mem, memTx) kvStore" where
  "memStore = \<lparr>
     kvGet = (\<lambda>m k. Inr (map_of m k)),
     kvSet = (\<lambda>m k v. Inr (AList.update k v m)),
     kvDelete = (\<lambda>m k. Inr (AList.delete k m)),
     kvDeleteRange = (\<lambda>m start end'. Inr (memDeleteRange m start end')),
     kvList = (\<lambda>m p cursor limit. Inr (memList m p cursor limit)),
     newTx = (\<lambda>m. \<lparr>mt_sets = [], mt_dels = []\<rparr>),
     txGet = (\<lambda>m t k. Inr (memTxGet m t k)),
     txSet = memTxSet,
     txDelete = memTxDelete,
     txCommit = (\<lambda>m t. Inr (memTxCommit m t))\<rparr>"

section \<open>Scans\<close>

definition scanBatch :: nat where "scanBatch = 1000"

record storedRow =
  sr_data :: rowmap
  sr_pkhex :: bytes

text \<open>
  The entries of one page, in order, up to the exclusive end; the flag says that the end was met.
\<close>

fun pageLoop :: "('a \<Rightarrow> bytes \<Rightarrow> bytes \<Rightarrow> string + 'a) \<Rightarrow> bytes \<Rightarrow> 'a \<Rightarrow> (bytes \<times> bytes) list \<Rightarrow> string + 'a \<times> bool" where
  "pageLoop fn end' acc [] = Inr (acc, False)"
| "pageLoop fn end' acc ((k, v) # es) =
     (if end' \<noteq> [] \<and> end' \<le> k then Inr (acc, True)
      else sbind (fn acc k v) (\<lambda>acc. pageLoop fn end' acc es))"

text \<open>The page loop of \<^verbatim>\<open>listRange\<close>; \<^verbatim>\<open>scan\<close> has the same loop without an end. It may run forever on a store that keeps
  answering pages: then the result is \<open>None\<close>.\<close>

partial_function (option) pagesLoop ::
    "('s, 't) kvStore \<Rightarrow> 's \<Rightarrow> bytes \<Rightarrow> ('a \<Rightarrow> bytes \<Rightarrow> bytes \<Rightarrow> string + 'a) \<Rightarrow> bytes \<Rightarrow> 'a \<Rightarrow> bytes \<Rightarrow> (string + 'a) option" where
  "pagesLoop S s p fn end' acc cursor = (case kvList S s p cursor scanBatch of
     Inl e \<Rightarrow> Some (Inl e)
   | Inr (entries, next) \<Rightarrow> (case pageLoop fn end' acc entries of
       Inl e \<Rightarrow> Some (Inl e)
     | Inr (acc, stop) \<Rightarrow>
         if stop \<or> next = [] \<or> entries = [] then Some (Inr acc) else pagesLoop S s p fn end' acc next))"

declare pagesLoop.simps [code]

definition addRow :: "sqlenv \<Rightarrow> jsonenv \<Rightarrow> bytes \<Rightarrow> storedRow list \<Rightarrow> bytes \<Rightarrow> bytes \<Rightarrow> string + storedRow list" where
  "addRow X J p out key val = sbind (decodeRow X J val) (\<lambda>cols. Inr (out @ [\<lparr>sr_data = cols, sr_pkhex = TrimPrefix key p\<rparr>]))"

definition scan :: "sqlenv \<Rightarrow> jsonenv \<Rightarrow> ('s, 't) kvStore \<Rightarrow> 's \<Rightarrow> bytes \<Rightarrow> tableSchema \<Rightarrow> (string + storedRow list) option" where
  "scan X J S s db sc = (let p = tablePrefix db (sc_Name sc) in pagesLoop S s p (addRow X J p) [] [] [])"

definition loadSchema :: "jsonenv \<Rightarrow> ('s, 't) kvStore \<Rightarrow> 's \<Rightarrow> bytes \<Rightarrow> bytes \<Rightarrow> string + tableSchema" where
  "loadSchema J S s db table = sbind (kvGet S s (catalogKey db table)) (\<lambda>ent. case ent of
     None \<Rightarrow> Inl ''no such table''
   | Some b \<Rightarrow> unmarshal (jUnSchema J b))"

definition listTables :: "('s, 't) kvStore \<Rightarrow> 's \<Rightarrow> bytes \<Rightarrow> (string + bytes list) option" where
  "listTables S s db = pagesLoop S s (catalogPrefix db) (\<lambda>names key val. Inr (names @ [tableFromCatalogKey key db])) [] [] []"

end
