(* ===== verification/SQL_Planner.thy ===== *)
theory SQL_Planner
  imports SQL_Catalog
begin

text \<open>
  The planner of the SQL engine (\<^verbatim>\<open>pkg/service/sql/planner.go\<close>): the constraints a WHERE clause puts on single
  columns, the key ranges they give, the choice of the access path, the planned scans, and the test whether a scan
  already delivers an ORDER BY.
\<close>

section \<open>Plans\<close>

record keyRange =
  kr_start :: bytes
  kr_end :: bytes

record scanPlan =
  sp_index :: "indexDef option"
  sp_ranges :: "keyRange list"
  sp_keyCols :: "bytes list"
  sp_fixedPrefix :: nat
  sp_TopK :: bool

definition isFullScan :: "scanPlan \<Rightarrow> bool" where
  "isFullScan p \<longleftrightarrow> sp_ranges p = []"

definition describe :: "scanPlan \<Rightarrow> bytes" where
  "describe p =
     (let target = (case sp_index p of None \<Rightarrow> str ''table.Scan'' | Some i \<Rightarrow> str ''index.Scan('' @ ix_Name i @ str '')'')
      in if sp_ranges p = [] then target
         else target @ str '' '' @ joinWith (str '' '') (map (\<lambda>r. str ''['' @ kr_start r @ str '','' @ kr_end r @ str '')'') (sp_ranges p)))"

section \<open>Predicates\<close>

record colConstraint =
  cc_eq :: "Value option"
  cc_in :: "Value list option"
  cc_lo :: "Value option"
  cc_hi :: "Value option"

definition noConstraint :: colConstraint where
  "noConstraint = \<lparr>cc_eq = None, cc_in = None, cc_lo = None, cc_hi = None\<rparr>"

type_synonym constraints = "bytes \<Rightarrow> colConstraint option"

fun splitAnd :: "Expr \<Rightarrow> Expr list \<Rightarrow> Expr list" where
  "splitAnd (Binary op l r) out = (if op = str ''AND'' then splitAnd r (splitAnd l out) else out @ [Binary op l r])"
| "splitAnd e out = out @ [e]"

definition stableFuncs :: "bytes list" where
  "stableFuncs = map str [''lower'', ''upper'', ''trim'', ''ltrim'', ''rtrim'', ''length'', ''typeof'', ''abs'', ''coalesce'',
     ''vector_dims'', ''l2_distance'', ''inner_product'', ''cosine_distance'', ''l2_norm'']"

fun deterministic :: "Expr \<Rightarrow> bool" where
  "deterministic (Literal v src) \<longleftrightarrow> True"
| "deterministic (ColumnRef t c) \<longleftrightarrow> True"
| "deterministic (Param n) \<longleftrightarrow> True"
| "deterministic (Unary op x) \<longleftrightarrow> deterministic x"
| "deterministic (Binary op l r) \<longleftrightarrow> deterministic l \<and> deterministic r"
| "deterministic (Between x lo hi neg) \<longleftrightarrow> deterministic x \<and> deterministic lo \<and> deterministic hi"
| "deterministic (InList x items sub neg) \<longleftrightarrow> deterministic x \<and> (\<forall>i \<in> set items. deterministic i)"
| "deterministic (IsNullE x neg) \<longleftrightarrow> deterministic x"
| "deterministic (Cast x t tn dim) \<longleftrightarrow> deterministic x"
| "deterministic (FuncCall name args star) \<longleftrightarrow> name \<in> set stableFuncs \<and> (\<forall>a \<in> set args. deterministic a)"
| "deterministic (Subquery s ex) \<longleftrightarrow> False"

definition constValue :: "unicode \<Rightarrow> sqlenv \<Rightarrow> Expr \<Rightarrow> Value option" where
  "constValue U X e =
     (if \<not> deterministic e then None
      else case evalExpr U X None e of Inl _ \<Rightarrow> None | Inr v \<Rightarrow> Some v)"

definition maxExactFloatInt :: int where "maxExactFloatInt = 2 ^ 53"

definition coerceForKey :: "sqlenv \<Rightarrow> Value \<Rightarrow> column \<Rightarrow> Value option" where
  "coerceForKey X v c =
     (let T = c_Type c
      in if T = TypeAny \<or> IsNull v then None
         else if T = TypeVector \<or> v_T v = TypeVector then None
         else if (T = TypeInt \<or> T = TypeDouble) \<and> \<not> isNumeric v \<and> v_T v \<noteq> TypeText then None
         else if T = TypeText \<and> v_T v \<noteq> TypeText then None
         else if (T = TypeBool \<or> T = TypeTimestamp \<or> T = TypeBytea) \<and> v_T v \<noteq> T \<and> v_T v \<noteq> TypeText then None
         else if T = TypeNull \<and> v_T v \<noteq> T then None
         else case CastTo X v T of
             Inl _ \<Rightarrow> None
           | Inr cv \<Rightarrow> (case Compare X cv v of
               Inl _ \<Rightarrow> None
             | Inr d \<Rightarrow>
                 if d \<noteq> 0 then None
                 else if T = TypeInt \<and> v_T v \<noteq> TypeInt then
                   (let exactText = (v_T v = TypeText \<and> ParseInt (TrimSpace (v_S v)) \<noteq> None)
                    in if \<not> exactText \<and> (maxExactFloatInt \<le> sint (v_I cv) \<or> sint (v_I cv) \<le> - maxExactFloatInt) then None
                       else Some cv)
                 else Some cv))"

definition mustCompare :: "sqlenv \<Rightarrow> Value \<Rightarrow> Value \<Rightarrow> int" where
  "mustCompare X a b = (case Compare X a b of Inl _ \<Rightarrow> 0 | Inr c \<Rightarrow> c)"

definition getC :: "constraints \<Rightarrow> bytes \<Rightarrow> colConstraint" where
  "getC cons name = (case cons name of None \<Rightarrow> noConstraint | Some c \<Rightarrow> c)"

definition raiseLo :: "sqlenv \<Rightarrow> Value \<Rightarrow> colConstraint \<Rightarrow> colConstraint" where
  "raiseLo X v c = (case cc_lo c of
     None \<Rightarrow> c\<lparr>cc_lo := Some v\<rparr>
   | Some lo \<Rightarrow> if mustCompare X v lo > 0 then c\<lparr>cc_lo := Some v\<rparr> else c)"

definition lowerHi :: "sqlenv \<Rightarrow> Value \<Rightarrow> colConstraint \<Rightarrow> colConstraint" where
  "lowerHi X v c = (case cc_hi c of
     None \<Rightarrow> c\<lparr>cc_hi := Some v\<rparr>
   | Some hi \<Rightarrow> if mustCompare X v hi < 0 then c\<lparr>cc_hi := Some v\<rparr> else c)"

definition flipCmp :: "bytes \<Rightarrow> bytes" where
  "flipCmp op = (if op = str ''<'' then str ''>'' else if op = str ''<='' then str ''>=''
     else if op = str ''>'' then str ''<'' else if op = str ''>='' then str ''<='' else op)"

definition compareC :: "sqlenv \<Rightarrow> bytes \<Rightarrow> Value \<Rightarrow> colConstraint \<Rightarrow> colConstraint" where
  "compareC X op v c =
     (if op = str ''='' then c\<lparr>cc_eq := Some v\<rparr>
      else if op = str ''>'' \<or> op = str ''>='' then raiseLo X v c
      else if op = str ''<'' \<or> op = str ''<='' then lowerHi X v c
      else c)"

definition isColumnRef :: "Expr \<Rightarrow> bool" where
  "isColumnRef e \<longleftrightarrow> (case e of ColumnRef t c \<Rightarrow> True | _ \<Rightarrow> False)"

text \<open>A constant for a column, ready for its keys.\<close>

definition keyConst :: "unicode \<Rightarrow> sqlenv \<Rightarrow> column \<Rightarrow> Expr \<Rightarrow> Value option" where
  "keyConst U X c e = (case constValue U X e of None \<Rightarrow> None | Some v \<Rightarrow> coerceForKey X v c)"

text \<open>The loop over the items of an IN list; \<open>None\<close>: not usable.\<close>

fun inValues :: "unicode \<Rightarrow> sqlenv \<Rightarrow> column \<Rightarrow> Expr list \<Rightarrow> Value list option" where
  "inValues U X c [] = Some []"
| "inValues U X c (item # items) = (case constValue U X item of
     None \<Rightarrow> None
   | Some v \<Rightarrow>
       if IsNull v then inValues U X c items
       else (case coerceForKey X v c of
           None \<Rightarrow> None
         | Some cv \<Rightarrow> map_option ((#) cv) (inValues U X c items)))"

definition refColumn :: "tableSchema \<Rightarrow> Expr \<Rightarrow> column option" where
  "refColumn sc e = (case e of ColumnRef t c \<Rightarrow> col sc c | _ \<Rightarrow> None)"

definition conjStep :: "unicode \<Rightarrow> sqlenv \<Rightarrow> tableSchema \<Rightarrow> constraints \<Rightarrow> Expr \<Rightarrow> constraints" where
  "conjStep U X sc cons e = (case e of
     Binary op l r \<Rightarrow>
       (let (op, colRef, valEx) = (if isColumnRef l then (op, l, r) else (flipCmp op, r, l))
        in case refColumn sc colRef of
            None \<Rightarrow> cons
          | Some c \<Rightarrow> (case keyConst U X c valEx of
              None \<Rightarrow> cons
            | Some cv \<Rightarrow> cons(c_Name c \<mapsto> compareC X op cv (getC cons (c_Name c)))))
   | Between x lo hi neg \<Rightarrow>
       if neg then cons
       else (case refColumn sc x of
           None \<Rightarrow> cons
         | Some c \<Rightarrow> (case (keyConst U X c lo, keyConst U X c hi) of
             (Some clo, Some chi) \<Rightarrow> cons(c_Name c \<mapsto> lowerHi X chi (raiseLo X clo (getC cons (c_Name c))))
           | _ \<Rightarrow> cons))
   | InList x items sub neg \<Rightarrow>
       if neg then cons
       else (case refColumn sc x of
           None \<Rightarrow> cons
         | Some c \<Rightarrow> (case inValues U X c items of
             None \<Rightarrow> cons
           | Some vals \<Rightarrow>
               if vals = [] then cons
               else cons(c_Name c \<mapsto> (let cc = getC cons (c_Name c) in if cc_in cc = None then cc\<lparr>cc_in := Some vals\<rparr> else cc))))
   | _ \<Rightarrow> cons)"

definition analyzeWhere :: "unicode \<Rightarrow> sqlenv \<Rightarrow> tableSchema \<Rightarrow> Expr option \<Rightarrow> constraints" where
  "analyzeWhere U X sc w = (case w of
     None \<Rightarrow> Map.empty
   | Some e \<Rightarrow> foldl (conjStep U X sc) Map.empty (splitAnd e []))"

section \<open>Plan selection\<close>

fun candidateScore :: "bytes list \<Rightarrow> constraints \<Rightarrow> int \<times> int" where
  "candidateScore [] cons = (0, 0)"
| "candidateScore (cn # cols) cons = (case cons cn of
     None \<Rightarrow> (0, 0)
   | Some c \<Rightarrow>
       if cc_eq c \<noteq> None then (case candidateScore cols cons of (eq, extra) \<Rightarrow> (eq + 1, extra))
       else (0, if cc_in c \<noteq> None \<or> cc_lo c \<noteq> None \<or> cc_hi c \<noteq> None then 1 else 0))"

definition typedKey :: "tableSchema \<Rightarrow> bytes list \<Rightarrow> bool" where
  "typedKey sc cols \<longleftrightarrow> (\<forall>cn \<in> set cols. case col sc cn of None \<Rightarrow> False | Some c \<Rightarrow> c_Type c \<noteq> TypeAny)"

text \<open>The leading columns pinned by an equality, and the columns after them.\<close>

fun eqPrefix :: "bytes list \<Rightarrow> constraints \<Rightarrow> Value list \<times> bytes list" where
  "eqPrefix [] cons = ([], [])"
| "eqPrefix (cn # cols) cons = (case cons cn of
     None \<Rightarrow> ([], cn # cols)
   | Some c \<Rightarrow> (case cc_eq c of
       None \<Rightarrow> ([], cn # cols)
     | Some v \<Rightarrow> (case eqPrefix cols cons of (vs, cs) \<Rightarrow> (v # vs, cs))))"

definition hexOf :: "Value \<Rightarrow> bytes option" where
  "hexOf v = (case encodeKey [v] of Inl _ \<Rightarrow> None | Inr h \<Rightarrow> Some h)"

text \<open>Duplicate IN values collapse: in the sorted list an element equal to the one before it is skipped.\<close>

definition prefixRange :: "bytes \<Rightarrow> keyRange" where
  "prefixRange h = \<lparr>kr_start = h, kr_end = prefixEnd h\<rparr>"

definition boundHex :: "bytes \<Rightarrow> Value option \<Rightarrow> bytes option" where
  "boundHex prefixHex b = (case b of None \<Rightarrow> Some prefixHex | Some v \<Rightarrow> map_option ((@) prefixHex) (hexOf v))"

definition buildRanges :: "bytes list \<Rightarrow> constraints \<Rightarrow> (keyRange list \<times> nat) option" where
  "buildRanges cols cons =
     (let (eqVals, tailCols) = eqPrefix cols cons
      in case encodeKey eqVals of
          Inl _ \<Rightarrow> None
        | Inr prefixHex \<Rightarrow>
            let c = (case tailCols of [] \<Rightarrow> noConstraint | cn # _ \<Rightarrow> getC cons cn); n = length eqVals
            in case cc_in c of
                Some vals \<Rightarrow>
                  (case those (map hexOf vals) of
                     None \<Rightarrow> None
                   | Some hs \<Rightarrow> Some (map (\<lambda>h. prefixRange (prefixHex @ h)) (remdups_adj (sort hs)), n))
              | None \<Rightarrow>
                  if cc_lo c \<noteq> None \<or> cc_hi c \<noteq> None then
                    (case (boundHex prefixHex (cc_lo c), boundHex prefixHex (cc_hi c)) of
                       (Some lo, Some hi) \<Rightarrow> Some ([\<lparr>kr_start = lo, kr_end = prefixEnd hi\<rparr>], n)
                     | _ \<Rightarrow> None)
                  else if eqVals \<noteq> [] then Some ([prefixRange prefixHex], n)
                  else None)"

text \<open>One candidate key against the best plan so far, with its score.\<close>

definition considerKey ::
    "tableSchema \<Rightarrow> constraints \<Rightarrow> scanPlan \<times> int \<times> int \<Rightarrow> indexDef option \<times> bytes list \<Rightarrow> scanPlan \<times> int \<times> int" where
  "considerKey sc cons best cand =
     (let (idx, cols) = cand; (plan, bestEq, bestExtra) = best
      in if \<not> typedKey sc cols then best
         else let (eq, extra) = candidateScore cols cons
           in if eq + extra = 0 then best
              else if eq * 2 + extra \<le> bestEq * 2 + bestExtra then best
              else case buildRanges cols cons of
                  None \<Rightarrow> best
                | Some (ranges, fixed) \<Rightarrow>
                    (\<lparr>sp_index = idx, sp_ranges = ranges, sp_keyCols = cols, sp_fixedPrefix = fixed, sp_TopK = False\<rparr>, eq, extra))"

definition fullPlan :: "tableSchema \<Rightarrow> scanPlan" where
  "fullPlan sc = \<lparr>sp_index = None, sp_ranges = [],
     sp_keyCols = (if hasPK sc \<and> typedKey sc (sc_PK sc) then sc_PK sc else []), sp_fixedPrefix = 0, sp_TopK = False\<rparr>"

definition planScan :: "unicode \<Rightarrow> sqlenv \<Rightarrow> tableSchema \<Rightarrow> Expr option \<Rightarrow> scanPlan" where
  "planScan U X sc w =
     (let cons = analyzeWhere U X sc w;
          cands = (if hasPK sc then [(None, sc_PK sc)] else []) @ map (\<lambda>i. (Some i, ix_Columns i)) (sc_Indexes sc)
      in fst (foldl (considerKey sc cons) (fullPlan sc, - 1, 0) cands))"

section \<open>Plan execution\<close>

definition decrementKey :: "bytes \<Rightarrow> bytes" where
  "decrementKey key = butlast key @ [last key - 1, 0xFF]"

definition listRange ::
    "('s, 't) kvStore \<Rightarrow> 's \<Rightarrow> bytes \<Rightarrow> keyRange \<Rightarrow> ('a \<Rightarrow> bytes \<Rightarrow> bytes \<Rightarrow> string + 'a) \<Rightarrow> 'a \<Rightarrow> (string + 'a) option" where
  "listRange S s p r fn acc =
     pagesLoop S s p fn (if kr_end r \<noteq> [] then p @ kr_end r else []) acc
       (if kr_start r \<noteq> [] then decrementKey (p @ kr_start r) else [])"

fun rangesLoop ::
    "('s, 't) kvStore \<Rightarrow> 's \<Rightarrow> bytes \<Rightarrow> ('a \<Rightarrow> bytes \<Rightarrow> bytes \<Rightarrow> string + 'a) \<Rightarrow> keyRange list \<Rightarrow> 'a \<Rightarrow> (string + 'a) option" where
  "rangesLoop S s p fn [] acc = Some (Inr acc)"
| "rangesLoop S s p fn (r # rs) acc = (case listRange S s p r fn acc of
     None \<Rightarrow> None
   | Some (Inl e) \<Rightarrow> Some (Inl e)
   | Some (Inr acc) \<Rightarrow> rangesLoop S s p fn rs acc)"

definition scanTableRanges ::
    "sqlenv \<Rightarrow> jsonenv \<Rightarrow> ('s, 't) kvStore \<Rightarrow> 's \<Rightarrow> bytes \<Rightarrow> tableSchema \<Rightarrow> keyRange list \<Rightarrow> (string + storedRow list) option" where
  "scanTableRanges X J S s db sc ranges =
     (let p = tablePrefix db (sc_Name sc) in rangesLoop S s p (addRow X J p) ranges [])"

text \<open>An index entry leads to its row; an entry whose row is gone is skipped.\<close>

definition fetchRow ::
    "sqlenv \<Rightarrow> jsonenv \<Rightarrow> ('s, 't) kvStore \<Rightarrow> 's \<Rightarrow> bytes \<Rightarrow> tableSchema \<Rightarrow> storedRow list \<Rightarrow> bytes \<Rightarrow> bytes \<Rightarrow> string + storedRow list" where
  "fetchRow X J S s db sc out key val =
     sbind (kvGet S s (rowKey db (sc_Name sc) val)) (\<lambda>raw. case raw of
         None \<Rightarrow> Inr out
       | Some b \<Rightarrow> sbind (decodeRow X J b) (\<lambda>cols. Inr (out @ [\<lparr>sr_data = cols, sr_pkhex = val\<rparr>])))"

definition scanIndexRanges ::
    "sqlenv \<Rightarrow> jsonenv \<Rightarrow> ('s, 't) kvStore \<Rightarrow> 's \<Rightarrow> bytes \<Rightarrow> tableSchema \<Rightarrow> indexDef \<Rightarrow> keyRange list \<Rightarrow> (string + storedRow list) option" where
  "scanIndexRanges X J S s db sc idx ranges =
     rangesLoop S s (oneIndexPrefix db (sc_Name sc) (ix_Name idx)) (fetchRow X J S s db sc) ranges []"

definition runPlan ::
    "sqlenv \<Rightarrow> jsonenv \<Rightarrow> ('s, 't) kvStore \<Rightarrow> 's \<Rightarrow> bytes \<Rightarrow> tableSchema \<Rightarrow> scanPlan \<Rightarrow> (string + storedRow list) option" where
  "runPlan X J S s db sc plan =
     (if isFullScan plan then scan X J S s db sc
      else case sp_index plan of
          None \<Rightarrow> scanTableRanges X J S s db sc (sp_ranges plan)
        | Some idx \<Rightarrow> scanIndexRanges X J S s db sc idx (sp_ranges plan))"

record engine =
  en_db :: bytes
  en_noPlanner :: bool
  en_noTopK :: bool

definition scanFor ::
    "unicode \<Rightarrow> sqlenv \<Rightarrow> jsonenv \<Rightarrow> ('s, 't) kvStore \<Rightarrow> engine \<Rightarrow> 's \<Rightarrow> tableSchema \<Rightarrow> Expr option
      \<Rightarrow> (string + storedRow list) option \<times> scanPlan option" where
  "scanFor U X J S E s sc w =
     (if en_noPlanner E then (scan X J S s (en_db E) sc, None)
      else let plan = planScan U X sc w in (runPlan X J S s (en_db E) sc plan, Some plan))"

section \<open>Order pushdown\<close>

fun orderMatchesCols :: "(Expr \<times> bool) list \<Rightarrow> bytes list \<Rightarrow> bool" where
  "orderMatchesCols [] cols \<longleftrightarrow> True"
| "orderMatchesCols (k # keys) [] \<longleftrightarrow> False"
| "orderMatchesCols ((e, desc) # keys) (cn # cols) \<longleftrightarrow>
     \<not> desc \<and> (case e of ColumnRef t c \<Rightarrow> c = cn | _ \<Rightarrow> False) \<and> orderMatchesCols keys cols"

definition satisfiesOrder :: "scanPlan \<Rightarrow> (Expr \<times> bool) list \<Rightarrow> bool" where
  "satisfiesOrder p keys \<longleftrightarrow> keys \<noteq> [] \<and> sp_keyCols p \<noteq> [] \<and>
     (\<exists>skip \<in> set [0..<Suc (sp_fixedPrefix p)]. orderMatchesCols keys (drop skip (sp_keyCols p)))"

end
