(* ===== verification/SQL_Stable.thy ===== *)
theory SQL_Stable
  imports SQL_Planner
begin

text \<open>
  What an evaluation depends on: an expression the planner calls deterministic has the same value whatever the clock and
  the random source say, and an expression that evaluates without a row has the same value in every row.
\<close>

section \<open>Clock and random source\<close>

definition retimed :: "int \<Rightarrow> bytes \<Rightarrow> sqlenv \<Rightarrow> sqlenv" where
  "retimed t b X = X\<lparr>clock := t, rand16 := b\<rparr>"

lemma retimed_fields [simp]:
  "fadd (retimed t b X) = fadd X" "fsub (retimed t b X) = fsub X" "fmul (retimed t b X) = fmul X" "fdiv (retimed t b X) = fdiv X"
  "fmodulo (retimed t b X) = fmodulo X" "fsqrt (retimed t b X) = fsqrt X" "widen (retimed t b X) = widen X"
  "narrow (retimed t b X) = narrow X" "intOverflow (retimed t b X) = intOverflow X" "ParseFloat (retimed t b X) = ParseFloat X"
  "FormatFloat (retimed t b X) = FormatFloat X" "timeParse (retimed t b X) = timeParse X" "timeFormat (retimed t b X) = timeFormat X"
  "b64Encode (retimed t b X) = b64Encode X" "b64Decode (retimed t b X) = b64Decode X"
  by (simp_all add: retimed_def)

lemma retimed_texts [simp]:
  "formatDouble (retimed t b X) = formatDouble X" "formatVector (retimed t b X) = formatVector X" "FormatText (retimed t b X) = FormatText X"
  by (unfold fun_eq_iff FormatText_def formatDouble_def formatVector_def retimed_fields) simp_all

lemma retimed_parse [simp]: "parseElems (retimed t b X) ps = parseElems X ps" "firstParse (retimed t b X) s fs = firstParse X s fs"
proof -
  show "parseElems (retimed t b X) ps = parseElems X ps" 
  proof (induction ps)
    case (Cons p ps)
    show ?case unfolding parseElems.simps retimed_fields Cons by (rule refl)
  qed simp
  show "firstParse (retimed t b X) s fs = firstParse X s fs" by (induction fs) (simp_all split: option.split)
qed

lemma retimed_casts [simp]:
  "parseVectorText (retimed t b X) = parseVectorText X" "castTextToNumeric (retimed t b X) = castTextToNumeric X"
  "castTextToTimestamp (retimed t b X) = castTextToTimestamp X" "castTextToBytea (retimed t b X) = castTextToBytea X"
  "castDoubleToInt (retimed t b X) = castDoubleToInt X"
  by (unfold fun_eq_iff parseVectorText_def castTextToNumeric_def castTextToTimestamp_def castTextToBytea_def castDoubleToInt_def
      intOfFloat_def retimed_fields retimed_parse) simp_all

lemma retimed_values [simp]:
  "CastTo (retimed t b X) = CastTo X" "Compare (retimed t b X) = Compare X" "Arith (retimed t b X) = Arith X" "asVector (retimed t b X) = asVector X"
  "vecL2Distance (retimed t b X) = vecL2Distance X" "vecInnerProduct (retimed t b X) = vecInnerProduct X" "vecL2Norm (retimed t b X) = vecL2Norm X"
  by (unfold fun_eq_iff CastTo_def Compare_def Arith_def asVector_def vecL2Distance_def vecInnerProduct_def vecL2Norm_def
      retimed_fields retimed_texts retimed_casts) simp_all

lemma retimed_distance [simp]: "vecCosineDistance (retimed t b X) = vecCosineDistance X"
  by (unfold fun_eq_iff vecCosineDistance_def retimed_values retimed_fields) simp_all

lemma retimed_operators [simp]:
  "evalVectorDistance (retimed t b X) = evalVectorDistance X" "evalVectorFunc (retimed t b X) = evalVectorFunc X"
  "evalCompare (retimed t b X) = evalCompare X" "evalLike (retimed t b X) = evalLike X" "castValue (retimed t b X) = castValue X"
  "sortCompare (retimed t b X) = sortCompare X"
  by (unfold fun_eq_iff evalVectorDistance_def evalVectorFunc_def evalCompare_def evalLike_def castValue_def sortCompare_def
      retimed_values retimed_texts retimed_distance) simp_all

lemma retimed_strict [simp]: "strictBinary (retimed t b X) = strictBinary X" "betweenValue (retimed t b X) = betweenValue X"
  by (unfold fun_eq_iff strictBinary_def betweenValue_def retimed_values retimed_operators retimed_texts) simp_all

lemma stable_names: "str ''now'' \<notin> set stableFuncs" "str ''gen_random_uuid'' \<notin> set stableFuncs"
  by (simp_all add: stableFuncs_def)

lemma retimed_callFunc: "name \<in> set stableFuncs \<Longrightarrow> callFunc U (retimed t b X) name = callFunc U X name"
proof -
  assume "name \<in> set stableFuncs"
  then have n: "(name = str ''now'') = False" "(name = str ''gen_random_uuid'') = False" using stable_names by blast+
  show ?thesis unfolding fun_eq_iff callFunc_def Let_def n retimed_operators retimed_texts by simp
qed

lemma evalExpr_deterministic:
  shows "deterministic e \<Longrightarrow> evalExpr U (retimed t b X) r e = evalExpr U X r e"
    and "\<forall>e \<in> set es. deterministic e \<Longrightarrow> evalArgs U (retimed t b X) r es = evalArgs U X r es"
    and "\<forall>e \<in> set items. deterministic e \<Longrightarrow> inLoop U (retimed t b X) r x neg sn items = inLoop U X r x neg sn items"
proof (induction U X r e and U X r es and U X r x neg sn items rule: evalExpr_evalArgs_inLoop.induct)
  case (5 U X r op a c)
  have a: "evalExpr U (retimed t b X) r a = evalExpr U X r a" using 5 by (cases "op = str ''AND'' \<or> op = str ''OR''") simp_all
  show ?case
  proof (cases "op = str ''AND'' \<or> op = str ''OR''")
    case True
    then show ?thesis using 5 a by (auto simp: sbind_def simp del: str_simps split: sum.splits)
  next
    case False
    then have "evalExpr U (retimed t b X) r c = evalExpr U X r c" using 5 by simp
    then show ?thesis unfolding evalExpr.simps a retimed_strict using False by simp
  qed
next
  case (10 U X r name args star)
  then show ?case by (cases "isAggregateName name") (simp_all add: retimed_callFunc)
qed (simp_all add: sbind_def split: sum.splits)

section \<open>Rows\<close>

lemma evalExpr_norow:
  shows "evalExpr U X r e = Inr v \<Longrightarrow> r = None \<Longrightarrow> evalExpr U X r' e = Inr v"
    and "evalArgs U X r es = Inr vs \<Longrightarrow> r = None \<Longrightarrow> evalArgs U X r' es = Inr vs"
    and "inLoop U X r x neg sn items = Inr y \<Longrightarrow> r = None \<Longrightarrow> inLoop U X r' x neg sn items = Inr y"
proof (induction U X r e and U X r es and U X r x neg sn items arbitrary: v and vs and y rule: evalExpr_evalArgs_inLoop.induct)
  case (2 U X r t c)
  then show ?case by (simp add: columnValue_def)
next
  case (5 U X r op a b)
  then show ?case by (auto simp: sbind_def simp del: str_simps split: sum.splits if_splits)
next
  case (15 U X r x neg sawNull item items)
  from 15(4) obtain iv where iv: "evalExpr U X r item = Inr iv" by (cases "evalExpr U X r item") auto
  from 15(1) [OF iv 15(5)] have iv': "evalExpr U X r' item = Inr iv" .
  show ?case
  proof (cases "IsNull iv")
    case True
    with 15(2,4,5) iv iv' show ?thesis by simp
  next
    case False
    with 15(4) iv obtain c where "Compare X x iv = Inr c" by (cases "Compare X x iv") auto
    with False 15(3) [OF False] 15(4,5) iv iv' show ?thesis by (auto split: if_splits)
  qed
qed (auto simp: sbind_def split: sum.splits if_splits)

end
