(* ===== verification/SQL_Store.thy ===== *)
theory SQL_Store
  imports SQL_Catalog
begin

text \<open>
  The contract of the key-value interface, as the executor relies on it, and what the paged scans answer on every
  store that keeps it. The in-memory store keeps it.
\<close>

section \<open>The contract\<close>

text \<open>
  A store that answers: reads, writes and listings act on one map of keys to values; a page is the beginning of the
  sorted list of what lies above the cursor, and a next cursor is the last key of a page. Staged writes are visible
  to their own transaction only, and a commit applies them.
\<close>

definition above :: "(bytes \<rightharpoonup> bytes) \<Rightarrow> bytes \<Rightarrow> bytes \<Rightarrow> (bytes \<times> bytes) set" where
  "above m p c = {(k, v). m k = Some v \<and> prefix p k \<and> (c = [] \<or> c < k)}"

locale kv_store =
  fixes S :: "('s, 't) kvStore" and view :: "'s \<Rightarrow> bytes \<rightharpoonup> bytes" and ok :: "'s \<Rightarrow> bool"
    and staged :: "'s \<Rightarrow> 't \<Rightarrow> bytes \<rightharpoonup> bytes" and tok :: "'s \<Rightarrow> 't \<Rightarrow> bool"
  assumes get: "ok s \<Longrightarrow> kvGet S s k = Inr (view s k)"
    and list: "ok s \<Longrightarrow> 0 < n \<Longrightarrow> p \<noteq> [] \<Longrightarrow> \<exists>L next. sorted_keys L \<and> set L = above (view s) p c \<and>
        kvList S s p c n = Inr (take n L, next) \<and> (if next = [] then length L \<le> n else L \<noteq> [] \<and> next = fst (last (take n L)))"
    and set: "ok s \<Longrightarrow> \<exists>s'. kvSet S s k v = Inr s' \<and> ok s' \<and> view s' = (view s)(k \<mapsto> v)"
    and delete: "ok s \<Longrightarrow> \<exists>s'. kvDelete S s k = Inr s' \<and> ok s' \<and> view s' = (view s)(k := None)"
    and deleteRange: "ok s \<Longrightarrow> \<exists>s'. kvDeleteRange S s lo hi = Inr s' \<and> ok s' \<and>
        view s' = (\<lambda>k. if lo \<le> k \<and> (hi = [] \<or> k < hi) then None else view s k)"
    and tx_new: "ok s \<Longrightarrow> tok s (newTx S s) \<and> staged s (newTx S s) = view s"
    and tx_get: "ok s \<Longrightarrow> tok s t \<Longrightarrow> txGet S s t k = Inr (staged s t k)"
    and tx_set: "ok s \<Longrightarrow> tok s t \<Longrightarrow> tok s (txSet S t k v) \<and> staged s (txSet S t k v) = (staged s t)(k \<mapsto> v)"
    and tx_delete: "ok s \<Longrightarrow> tok s t \<Longrightarrow> tok s (txDelete S t k) \<and> staged s (txDelete S t k) = (staged s t)(k := None)"
    and tx_commit: "ok s \<Longrightarrow> tok s t \<Longrightarrow> \<exists>s'. txCommit S s t = Inr s' \<and> ok s' \<and> view s' = staged s t"

section \<open>Loops over entries\<close>

fun foldE :: "('a \<Rightarrow> 'b \<Rightarrow> 'e + 'a) \<Rightarrow> 'a \<Rightarrow> 'b list \<Rightarrow> 'e + 'a" where
  "foldE f acc [] = Inr acc"
| "foldE f acc (x # xs) = sbind (f acc x) (\<lambda>acc. foldE f acc xs)"

lemma foldE_append: "foldE f acc (xs @ ys) = sbind (foldE f acc xs) (\<lambda>acc. foldE f acc ys)"
  by (induction xs arbitrary: acc) (auto simp: sbind_def split: sum.splits)

lemma pageLoop_append:
  "pageLoop fn e acc (xs @ ys) = sbind (pageLoop fn e acc xs) (\<lambda>(acc, stop). if stop then Inr (acc, True) else pageLoop fn e acc ys)"
proof (induction xs arbitrary: acc)
  case (Cons x xs)
  then show ?case by (cases x; cases "fn acc (fst x) (snd x)") simp_all
qed simp

text \<open>On sorted entries the loop handles exactly those below the end.\<close>

lemma pageLoop_sorted:
  assumes "sorted_keys L"
  shows "sbind (pageLoop fn e acc L) (\<lambda>(acc, stop). Inr acc) =
    foldE (\<lambda>acc (k, v). fn acc k v) acc (filter (\<lambda>(k, v). e = [] \<or> k < e) L)"
  using assms
proof (induction L arbitrary: acc)
  case (Cons x L)
  obtain k v where x: "x = (k, v)" by (cases x)
  show ?case
  proof (cases "e \<noteq> [] \<and> e \<le> k")
    case True
    then have "filter (\<lambda>(k, v). e = [] \<or> k < e) L = []"
      using Cons.prems by (intro filter_False) (fastforce simp: x)
    moreover have "\<not> k < e" using True by (simp add: not_less)
    ultimately show ?thesis using True by (simp add: x)
  next
    case False
    then have "e = [] \<or> k < e" by auto
    with False Cons show ?thesis by (auto simp: x sbind_def split: sum.splits)
  qed
qed simp

lemma foldE_addRow:
  "foldE (\<lambda>acc (k, v). addRow X J p acc k v) out L =
    sbind (mapE (\<lambda>(k, v). sbind (decodeRow X J v) (\<lambda>cols. Inr \<lparr>sr_data = cols, sr_pkhex = TrimPrefix k p\<rparr>)) L) (\<lambda>rows. Inr (out @ rows))"
  by (induction L arbitrary: out) (auto simp: addRow_def sbind_def split: sum.splits)

lemma mapE_Inr: "(\<And>x. x \<in> set xs \<Longrightarrow> f x = Inr (g x)) \<Longrightarrow> mapE f xs = Inr (map g xs)"
  by (induction xs) simp_all

lemma sorted_keys_above:
  assumes "sorted_keys L" "set L = above m p c" "n < length L" "p \<noteq> []"
  shows "set (drop (Suc n) L) = above m p (fst (L ! n))"
proof -
  let ?c = "fst (L ! n)"
  have L: "L = take n L @ L ! n # drop (Suc n) L" by (rule id_take_nth_drop [OF assms(3)])
  have sorted: "\<forall>x \<in> set (take n L). fst x < ?c" "\<forall>y \<in> set (drop (Suc n) L). ?c < fst y"
    using assms(1) by (subst (asm) L; auto simp: sorted_wrt_append)+
  have in_L: "x \<in> set L \<longleftrightarrow> x \<in> set (take n L) \<or> x = L ! n \<or> x \<in> set (drop (Suc n) L)" for x
    by (subst L) auto
  have "L ! n \<in> above m p c" using assms(2,3) nth_mem by metis
  then have c: "c = [] \<or> c < ?c" "?c \<noteq> []" using assms(4) by (auto simp: above_def split: prod.splits)
  show ?thesis
  proof (rule set_eqI)
    fix x :: "bytes \<times> bytes"
    obtain k v where x: "x = (k, v)" by (cases x)
    have "x \<in> above m p ?c \<longleftrightarrow> x \<in> set L \<and> ?c < k"
      using c by (auto simp: assms(2) above_def x)
    also have "\<dots> \<longleftrightarrow> x \<in> set (drop (Suc n) L)" using sorted in_L [of x] by (metis fst_conv less_irrefl less_asym x)
    finally show "x \<in> set (drop (Suc n) L) \<longleftrightarrow> x \<in> above m p ?c" by simp
  qed
qed

context kv_store
begin

text \<open>The page loop goes through everything above the cursor, in order.\<close>

lemma pagesLoop_all:
  assumes "ok s" "p \<noteq> []" "sorted_keys L" "set L = above (view s) p c"
  shows "pagesLoop S s p fn e acc c = Some (sbind (pageLoop fn e acc L) (\<lambda>(acc, stop). Inr acc))"
  using assms(3,4)
proof (induction "length L" arbitrary: L c acc rule: less_induct)
  case less
  obtain L' next' where L': "sorted_keys L'" "set L' = above (view s) p c"
    and page: "kvList S s p c scanBatch = Inr (take scanBatch L', next')"
    and next': "if next' = [] then length L' \<le> scanBatch else L' \<noteq> [] \<and> next' = fst (last (take scanBatch L'))"
    using list [OF assms(1) _ assms(2), of scanBatch c] by (auto simp: scanBatch_def)
  have "L' = L" using L' less.prems by (intro sorted_keys_unique) simp_all
  note page = page [unfolded this] and next' = next' [unfolded this]
  let ?es = "take scanBatch L" and ?rest = "drop scanBatch L"
  have split: "pageLoop fn e acc L = sbind (pageLoop fn e acc ?es) (\<lambda>(acc, stop). if stop then Inr (acc, True) else pageLoop fn e acc ?rest)"
    using pageLoop_append [of fn e acc ?es ?rest] by simp
  show ?case
  proof (cases "next' = []")
    case True
    then have "?es = L" "?rest = []" using next' by simp_all
    then show ?thesis using page True
      by (subst pagesLoop.simps) (auto simp: sbind_def split: sum.splits)
  next
    case False
    let ?n = "min scanBatch (length L) - 1"
    have nz: "L \<noteq> []" "next' = fst (last ?es)" "scanBatch > 0" using False next' by (simp_all add: scanBatch_def)
    then have es: "?es \<noteq> []" by simp
    have last: "last ?es = L ! ?n" using nz by (simp add: last_conv_nth min_def)
    have n: "?n < length L" using nz by (cases L) auto
    have rest: "drop (Suc ?n) L = ?rest" using nz by (auto simp: min_def Suc_diff_le scanBatch_def)
    have above: "set ?rest = above (view s) p next'" "sorted_keys ?rest"
      using sorted_keys_above [OF less.prems n assms(2)] rest last nz(2) less.prems(1)
      by (simp_all add: drop_map [symmetric] sorted_wrt_drop)
    have IH: "pagesLoop S s p fn e a next' = Some (sbind (pageLoop fn e a ?rest) (\<lambda>(acc, stop). Inr acc))" for a
      using nz above by (intro less.hyps) (auto simp: diff_less)
    show ?thesis
    proof (cases "pageLoop fn e acc ?es")
      case (Inl err)
      then show ?thesis using page split by (subst pagesLoop.simps) simp
    next
      case (Inr r)
      obtain a stop where r: "r = (a, stop)" by (cases r)
      show ?thesis using page split False es IH [of a]
        by (subst pagesLoop.simps) (simp add: Inr r)
    qed
  qed
qed

lemma pagesLoop_entries:
  assumes "ok s" "p \<noteq> []" "sorted_keys L" "set L = above (view s) p c"
  shows "pagesLoop S s p fn e acc c = Some (foldE (\<lambda>acc (k, v). fn acc k v) acc (filter (\<lambda>(k, v). e = [] \<or> k < e) L))"
  unfolding pagesLoop_all [OF assms] pageLoop_sorted [OF assms(3)] by (rule refl)

text \<open>Everything with a prefix, in order.\<close>

lemma entries:
  assumes "ok s" "p \<noteq> []"
  obtains L where "sorted_keys L" "set L = above (view s) p c"
  using list [OF assms(1) zero_less_one assms(2), of c] by blast

end

section \<open>The in-memory store\<close>

lemma map_of_memList:
  assumes "distinct (map fst m)" "ks = sort (filter (\<lambda>k. prefix p k \<and> (c = [] \<or> c < k)) (map fst m))"
  shows "sorted_keys (map (\<lambda>k. (k, the (map_of m k))) ks)" "set (map (\<lambda>k. (k, the (map_of m k))) ks) = above (map_of m) p c"
proof -
  show "sorted_keys (map (\<lambda>k. (k, the (map_of m k))) ks)"
    using assms by (simp add: o_def strict_sorted_iff)
  show "set (map (\<lambda>k. (k, the (map_of m k))) ks) = above (map_of m) p c"
    using assms by (force simp: above_def dest: map_of_SomeD)
qed

lemma map_of_updates: "distinct (map fst kvs) \<Longrightarrow> map_of (foldl (\<lambda>m (k, v). AList.update k v m) m kvs) = (\<lambda>k. case map_of kvs k of Some v \<Rightarrow> Some v | None \<Rightarrow> map_of m k)"
proof (induction kvs arbitrary: m)
  case (Cons kv kvs)
  obtain k v where kv: "kv = (k, v)" by (cases kv)
  have "map_of kvs k = None" using Cons.prems by (simp add: kv map_of_eq_None_iff)
  with Cons show ?case by (auto simp: kv fun_eq_iff update_conv' split: option.splits)
qed simp

lemma map_of_deletes: "map_of (foldl (\<lambda>m k. AList.delete k m) m ks) = (\<lambda>k. if k \<in> set ks then None else map_of m k)"
  by (induction ks arbitrary: m) (auto simp: fun_eq_iff delete_conv')

lemma distinct_deletes: "distinct (map fst m) \<Longrightarrow> distinct (map fst (foldl (\<lambda>m k. AList.delete k m) m ks))"
  by (induction ks arbitrary: m) (simp_all add: distinct_delete)

lemma distinct_updates: "distinct (map fst m) \<Longrightarrow> distinct (map fst (foldl (\<lambda>m (k, v). AList.update k v m) m kvs))"
  by (induction kvs arbitrary: m) (auto simp: distinct_update)

lemma memDeleteRange_map: "map_of (memDeleteRange m lo hi) = (\<lambda>k. if lo \<le> k \<and> (hi = [] \<or> k < hi) then None else map_of m k)"
  unfolding memDeleteRange_def by (induction m) (auto simp: fun_eq_iff)

lemma memDeleteRange_distinct: "distinct (map fst m) \<Longrightarrow> distinct (map fst (memDeleteRange m lo hi))"
  unfolding memDeleteRange_def by (rule distinct_map_filter)

definition txTidy :: "memTx \<Rightarrow> bool" where
  "txTidy t \<longleftrightarrow> distinct (map fst (mt_sets t)) \<and> (\<forall>k \<in> set (mt_dels t). k \<notin> fst ` set (mt_sets t))"

lemma mem_delete: "x \<in> set (AList.delete k m) \<longleftrightarrow> x \<in> set m \<and> fst x \<noteq> k"
  by (auto simp: AList.delete_eq split: prod.splits)

lemma memTxCommit_map: "txTidy t \<Longrightarrow> map_of (memTxCommit m t) = memTxGet m t"
proof -
  assume t: "txTidy t"
  then have "map_of (mt_sets t) k = None" if "k \<in> set (mt_dels t)" for k
    using that by (auto simp: txTidy_def map_of_eq_None_iff)
  with t show ?thesis
    by (auto simp: memTxCommit_def memTxGet_def map_of_updates map_of_deletes txTidy_def fun_eq_iff split: option.splits)
qed

lemma memTxCommit_distinct: "distinct (map fst m) \<Longrightarrow> distinct (map fst (memTxCommit m t))"
  by (simp add: memTxCommit_def distinct_updates distinct_deletes)

interpretation mem: kv_store memStore map_of "\<lambda>m. distinct (map fst m)" memTxGet "\<lambda>m. txTidy"
proof
  fix m :: mem and n :: nat and p c :: bytes
  assume d: "distinct (map fst m)" and "0 < n" "p \<noteq> []"
  define ks where "ks = sort (filter (\<lambda>k. prefix p k \<and> (c = [] \<or> c < k)) (map fst m))"
  define L where "L = map (\<lambda>k. (k, the (map_of m k))) ks"
  have L: "sorted_keys L" "set L = above (map_of m) p c" using map_of_memList [OF d ks_def] by (simp_all add: L_def)
  have "kvList memStore m p c n = Inr (take n L, if length (take n ks) = n then last (take n ks) else [])"
    using \<open>0 < n\<close> by (simp only: memStore_def memList_def ks_def [symmetric] L_def Let_def take_map kvStore.simps) auto
  moreover have "last (take n ks) \<noteq> []" if "length (take n ks) = n"
  proof -
    have "last (take n ks) \<in> set ks" using that \<open>0 < n\<close> by (intro in_set_takeD [OF last_in_set]) auto
    then show ?thesis using \<open>p \<noteq> []\<close> by (auto simp: ks_def)
  qed
  moreover have "fst (last (take n L)) = last (take n ks)" if "ks \<noteq> []"
    using that \<open>0 < n\<close> by (simp add: L_def take_map last_map)
  moreover have "ks \<noteq> []" if "length (take n ks) = n" using that \<open>0 < n\<close> by auto
  moreover have "length L = length ks" by (simp add: L_def)
  ultimately show "\<exists>L next. sorted_keys L \<and> set L = above (map_of m) p c \<and> kvList memStore m p c n = Inr (take n L, next) \<and>
      (if next = [] then length L \<le> n else L \<noteq> [] \<and> next = fst (last (take n L)))"
    using L by (intro exI [of _ L] exI [of _ "if length (take n ks) = n then last (take n ks) else []"]) force
next
  fix m :: mem and t k v
  assume "distinct (map fst m)" "txTidy t"
  then show "txTidy (txSet memStore t k v) \<and> memTxGet m (txSet memStore t k v) = (memTxGet m t)(k \<mapsto> v)"
    "txTidy (txDelete memStore t k) \<and> memTxGet m (txDelete memStore t k) = (memTxGet m t)(k := None)"
    by (auto simp: memStore_def memTxSet_def memTxDelete_def memTxGet_def txTidy_def distinct_update distinct_delete
      update_conv' delete_conv' fun_eq_iff dom_update mem_delete image_iff)
qed (auto simp: memStore_def memDeleteRange_map memDeleteRange_distinct memTxCommit_map distinct_update distinct_delete
  update_conv' delete_conv' memTxCommit_distinct memTxGet_def [where t = "\<lparr>mt_sets = [], mt_dels = []\<rparr>"] txTidy_def [of "\<lparr>mt_sets = [], mt_dels = []\<rparr>"] fun_eq_iff)

end
