(* ===== verification/SQL_Types.thy ===== *)
theory SQL_Types
  imports SQL_Eval
begin

text \<open>
  Types of values: a value carries only the field its type tag names, a timestamp fits the 64-bit microseconds of the
  key encoding. Casts answer NULL or the type asked for, and evaluation keeps values canonical.
\<close>

section \<open>Canonical values\<close>

definition timeInRange :: "int \<Rightarrow> bool" where
  "timeInRange t \<longleftrightarrow> - (2 ^ 63) \<le> t div 1000 \<and> t div 1000 < 2 ^ 63"

definition canonical :: "Value \<Rightarrow> bool" where
  "canonical v \<longleftrightarrow> (case v_T v of
     TypeNull \<Rightarrow> v = nullV
   | TypeBool \<Rightarrow> v = boolV (v_B v)
   | TypeInt \<Rightarrow> v = intV (v_I v)
   | TypeDouble \<Rightarrow> v = doubleV (v_F v)
   | TypeText \<Rightarrow> v = textV (v_S v)
   | TypeBytea \<Rightarrow> v = byteaV (v_Raw v)
   | TypeTimestamp \<Rightarrow> v = timeV (v_TS v) \<and> timeInRange (v_TS v)
   | TypeVector \<Rightarrow> v = vectorV (v_Vec v)
   | TypeAny \<Rightarrow> False)"

lemma v_T_simps [simp]:
  "v_T nullV = TypeNull" "v_T (boolV b) = TypeBool" "v_T (intV i) = TypeInt" "v_T (doubleV f) = TypeDouble"
  "v_T (textV s) = TypeText" "v_T (byteaV r) = TypeBytea" "v_T (timeV t) = TypeTimestamp" "v_T (vectorV x) = TypeVector"
  by (simp_all add: value_defs)

lemma v_fields [simp]:
  "v_B (boolV b) = b" "v_I (intV i) = i" "v_F (doubleV f) = f" "v_S (textV s) = s" "v_Raw (byteaV r) = r" "v_TS (timeV t) = t"
  "v_Vec (vectorV x) = x"
  by (simp_all add: value_defs)

lemma canonical_simps [simp]:
  "canonical nullV" "canonical (boolV b)" "canonical (intV i)" "canonical (doubleV f)" "canonical (textV s)" "canonical (byteaV r)"
  "canonical (timeV t) \<longleftrightarrow> timeInRange t" "canonical (vectorV x)"
  by (simp_all add: canonical_def)

text \<open>The clock and the parser of timestamps answer times whose microseconds fit 64 bits (years up to 292277).\<close>

definition timesOK :: "sqlenv \<Rightarrow> bool" where
  "timesOK X \<longleftrightarrow> timeInRange (clock X) \<and> (\<forall>f s t. timeParse X f s = Some t \<longrightarrow> timeInRange t)"

section \<open>Casts\<close>

lemma firstParse_range: "timesOK X \<Longrightarrow> firstParse X s fs = Inr t \<Longrightarrow> timeInRange t"
  by (induction fs) (auto simp: timesOK_def split: option.splits)

lemma castDoubleToInt_Inr: "castDoubleToInt X f = Inr v \<Longrightarrow> \<exists>i. v = intV i"
  by (auto simp: castDoubleToInt_def split: if_splits)

lemma CastTo_Inr:
  assumes "CastTo X v T = Inr cv" "\<not> (IsNull v \<or> v_T v = T \<or> T = TypeAny)"
  shows "v_T cv = T" "timesOK X \<Longrightarrow> canonical cv"
proof -
  have "v_T cv = T \<and> (timesOK X \<longrightarrow> canonical cv)"
    using assms
    by (cases T; cases "v_T v")
       (auto simp: CastTo_def castTextToTimestamp_def split: option.splits sum.splits dest!: castDoubleToInt_Inr firstParse_range)
  then show "v_T cv = T" "timesOK X \<Longrightarrow> canonical cv" by simp_all
qed

lemma CastTo_canonical: "timesOK X \<Longrightarrow> canonical v \<Longrightarrow> CastTo X v T = Inr cv \<Longrightarrow> canonical cv"
  using CastTo_Inr(2) [of X v T cv] by (cases "IsNull v \<or> v_T v = T \<or> T = TypeAny") (simp_all add: CastTo_def)

section \<open>Operators and functions\<close>

lemma intArith_canonical: "intArith op a b = Inr v \<Longrightarrow> canonical v"
  by (auto simp: intArith_def Let_def split: if_splits)

lemma Arith_canonical: "Arith X op a b = Inr v \<Longrightarrow> canonical v"
  by (auto simp: Arith_def Let_def split: if_splits dest: intArith_canonical)

lemma evalCompare_Inr: "evalCompare X op l r = Inr v \<Longrightarrow> v = nullV \<or> (\<exists>b. v = boolV b)"
  by (auto simp: evalCompare_def sbind_def split: if_splits sum.splits)

lemma evalCompare_canonical: "evalCompare X op l r = Inr v \<Longrightarrow> canonical v"
  by (auto dest: evalCompare_Inr)

lemma evalVectorDistance_canonical: "evalVectorDistance X op l r = Inr v \<Longrightarrow> canonical v"
  by (auto simp: evalVectorDistance_def sbind_def split: if_splits sum.splits)

lemma strictBinary_canonical: "strictBinary X op l r = Inr v \<Longrightarrow> canonical v"
  unfolding strictBinary_def
  by (auto simp del: set_map list.set str_simps simp: evalLike_def Let_def split: if_splits
      dest: Arith_canonical evalCompare_canonical evalVectorDistance_canonical)

lemma unaryValue_canonical: "canonical x \<Longrightarrow> unaryValue op x = Inr v \<Longrightarrow> canonical v"
  by (auto simp: unaryValue_def split: if_splits Type.splits option.splits)

lemma betweenValue_canonical: "betweenValue X x lo hi neg = Inr v \<Longrightarrow> canonical v"
  by (auto simp: betweenValue_def sbind_def Let_def split: if_splits sum.splits)

lemma logicalRest_canonical: "canonical (logicalRest a l r)"
  by (auto simp: logicalRest_def split: option.splits)

lemma evalTrim_canonical: "evalTrim name args = Inr v \<Longrightarrow> canonical v"
  by (auto simp: evalTrim_def Let_def split: list.splits if_splits)

lemma evalVectorFunc_canonical: "evalVectorFunc X name args = Inr v \<Longrightarrow> canonical v"
  by (auto simp: evalVectorFunc_def sbind_def split: list.splits if_splits sum.splits)

lemma absValue_canonical: "canonical x \<Longrightarrow> absValue x = Inr v \<Longrightarrow> canonical v"
  by (auto simp: absValue_def split: Type.splits if_splits)

lemma coalesceValue_canonical: "list_all canonical args \<Longrightarrow> canonical (coalesceValue args)"
  by (auto simp: coalesceValue_def list_all_iff find_Some_iff split: option.splits)

lemma callFunc_canonical:
  assumes "timesOK X" "list_all canonical args" "callFunc U X name args = Inr v"
  shows "canonical v"
proof -
  have hd: "canonical (hd args)" if "length args = 1" using assms(2) that by (cases args) simp_all
  show ?thesis using assms(1,3) hd coalesceValue_canonical [OF assms(2)]
    unfolding callFunc_def Let_def
    by (auto simp del: set_map list.set str_simps simp: timesOK_def split: if_splits
        dest: evalTrim_canonical evalVectorFunc_canonical absValue_canonical)
qed

section \<open>Expressions\<close>

text \<open>The literals of an expression.\<close>

fun literals :: "Expr \<Rightarrow> Value list" where
  "literals (Literal v src) = [v]"
| "literals (ColumnRef t c) = []"
| "literals (Param n) = []"
| "literals (Unary op x) = literals x"
| "literals (Binary op l r) = literals l @ literals r"
| "literals (Between x lo hi neg) = literals x @ literals lo @ literals hi"
| "literals (InList x items sub neg) = literals x @ List.concat (map literals items)"
| "literals (IsNullE x neg) = literals x"
| "literals (Cast x t tn dim) = literals x"
| "literals (FuncCall name args star) = List.concat (map literals args)"
| "literals (Subquery s ex) = []"

definition rowCanonical :: "row option \<Rightarrow> bool" where
  "rowCanonical r \<longleftrightarrow> (\<forall>m k v. r = Some m \<longrightarrow> m k = Some v \<longrightarrow> canonical v)"

lemma columnValue_canonical: "rowCanonical r \<Longrightarrow> columnValue r t c = Inr v \<Longrightarrow> canonical v"
  by (auto simp: columnValue_def rowCanonical_def split: option.splits if_splits)

lemma castValue_canonical: "timesOK X \<Longrightarrow> canonical x \<Longrightarrow> castValue X x T dim = Inr v \<Longrightarrow> canonical v"
  by (auto simp: castValue_def sbind_def split: sum.splits if_splits dest: CastTo_canonical)

lemma sbind_Inr: "sbind m f = Inr y \<longleftrightarrow> (\<exists>x. m = Inr x \<and> f x = Inr y)"
  by (auto simp: sbind_def split: sum.splits)

lemma logical_canonical:
  "sbind m (\<lambda>lv. if P lv then Inr (boolV False) else if Q lv then Inr (boolV True)
     else sbind n (\<lambda>rv. Inr (logicalRest A (f lv) (g rv)))) = Inr v \<Longrightarrow> canonical v"
  by (auto simp: sbind_Inr logicalRest_canonical split: if_splits)

lemma evalExpr_canonical:
  shows "timesOK X \<Longrightarrow> rowCanonical r \<Longrightarrow> list_all canonical (literals e) \<Longrightarrow> evalExpr U X r e = Inr v \<Longrightarrow> canonical v"
    and "timesOK X \<Longrightarrow> rowCanonical r \<Longrightarrow> list_all (\<lambda>e. list_all canonical (literals e)) es \<Longrightarrow>
      evalArgs U X r es = Inr vs \<Longrightarrow> list_all canonical vs"
    and "timesOK X \<Longrightarrow> rowCanonical r \<Longrightarrow> list_all (\<lambda>e. list_all canonical (literals e)) items \<Longrightarrow>
      inLoop U X r x neg sn items = Inr y \<Longrightarrow> canonical y"
proof (induction U X r e and U X r es and U X r x neg sn items arbitrary: v and vs and y
    rule: evalExpr_evalArgs_inLoop.induct)
  case (2 U X r t c)
  then show ?case by (simp add: columnValue_canonical)
next
  case (4 U X r op x)
  from 4(5) obtain y where y: "evalExpr U X r x = Inr y" "unaryValue op y = Inr v" by (auto simp: sbind_Inr)
  from 4(4) have "canonical y" by (intro 4(1) [OF 4(2,3) _ y(1)]) simp
  then show ?case using y(2) by (rule unaryValue_canonical)
next
  case (5 U X r op a b)
  show ?case
  proof (cases "op = str ''AND'' \<or> op = str ''OR''")
    case True
    with 5(8) show ?thesis by (simp only: evalExpr.simps if_True) (rule logical_canonical)
  next
    case False
    with 5(8) show ?thesis by (simp only: evalExpr.simps if_False sbind_Inr) (auto intro: strictBinary_canonical)
  qed
next
  case (6 U X r x lo hi neg)
  from 6(7) show ?case by (auto simp: sbind_Inr intro: betweenValue_canonical)
next
  case (7 U X r x items sub neg)
  from 7(6) obtain y where y: "evalExpr U X r x = Inr y" "if IsNull y then v = nullV else inLoop U X r y neg False items = Inr v"
    by (auto simp: sbind_Inr split: if_splits)
  moreover have "list_all (\<lambda>e. list_all canonical (literals e)) items" using 7(5) by (auto simp: list_all_iff)
  ultimately show ?case using 7(2) [OF _ 7(3,4), of y v] by (auto split: if_splits)
next
  case (9 U X r x t tn dim)
  from 9(5) obtain y where y: "evalExpr U X r x = Inr y" "castValue X y t dim = Inr v" by (auto simp: sbind_Inr)
  from 9(4) have "canonical y" by (intro 9(1) [OF 9(2,3) _ y(1)]) simp
  with 9(2) show ?case using y(2) by (rule castValue_canonical)
next
  case (10 U X r name args star)
  from 10(5) obtain vs where vs: "\<not> isAggregateName name" "evalArgs U X r args = Inr vs" "callFunc U X name vs = Inr v"
    by (auto simp: sbind_Inr split: if_splits)
  have "list_all (\<lambda>e. list_all canonical (literals e)) args" using 10(4) by (auto simp: list_all_iff)
  from callFunc_canonical [OF 10(2) 10(1) [OF vs(1) 10(2,3) this vs(2)] vs(3)] show ?case .
next
  case (13 U X r a as)
  from 13(6) obtain y ys where y: "evalExpr U X r a = Inr y" "evalArgs U X r as = Inr ys" "vs = y # ys" by (auto simp: sbind_Inr)
  have "canonical y" using 13(5) by (intro 13(1) [OF 13(3,4) _ y(1)]) simp
  moreover have "list_all canonical ys" using 13(5) by (intro 13(2) [OF 13(3,4) _ y(2)]) simp
  ultimately show ?case using y(3) by simp
next
  case (15 U X r x neg sawNull item items)
  from 15(7) obtain iv where iv: "evalExpr U X r item = Inr iv" by (auto simp: sbind_Inr)
  show ?case
  proof (cases "IsNull iv")
    case True
    with 15(7) iv have "inLoop U X r x neg True items = Inr y" by simp
    with 15(2) [OF True 15(4,5)] 15(6) show ?thesis by simp
  next
    case False
    with 15(7) iv obtain c where c: "Compare X x iv = Inr c" "if c = 0 then y = boolV (\<not> neg) else inLoop U X r x neg sawNull items = Inr y"
      by (auto simp: sbind_Inr split: if_splits)
    with 15(3) [OF False _ 15(4,5)] 15(6) show ?thesis by (auto split: if_splits)
  qed
qed (auto simp: sbind_Inr split: if_splits)

end
