(* ===== verification/SQL_Float.thy ===== *)
theory SQL_Float
  imports SQL_Key
begin

text \<open>
  The conversion of integers to floats keeps their order, and is exact and strictly increasing up to
  \<^verbatim>\<open>2^53\<close> in magnitude.
\<close>

lemma log2_bounds: "0 < n \<Longrightarrow> 2 ^ log2 n \<le> n \<and> n < 2 * 2 ^ log2 n"
proof (induction n rule: log2.induct)
  case (1 n)
  show ?case
  proof (cases "n < 2")
    case True
    with 1 show ?thesis by (auto simp: log2.simps)
  next
    case False
    then have "0 < n div 2" by auto
    with 1(1) [OF False] have "2 ^ log2 (n div 2) \<le> n div 2 \<and> n div 2 < 2 * 2 ^ log2 (n div 2)" by simp
    then have "2 * 2 ^ log2 (n div 2) \<le> n \<and> n < 4 * 2 ^ log2 (n div 2)" by linarith
    with False show ?thesis by (simp add: log2.simps [of n])
  qed
qed

lemma log2_mono: "0 < m \<Longrightarrow> m \<le> n \<Longrightarrow> log2 m \<le> log2 n"
proof (rule ccontr)
  assume mn: "0 < m" "m \<le> n" and "\<not> log2 m \<le> log2 n"
  then have "Suc (log2 n) \<le> log2 m" by simp
  then have "(2 :: nat) ^ Suc (log2 n) \<le> 2 ^ log2 m" by (rule power_increasing) simp
  moreover have "2 ^ log2 m \<le> m" "n < 2 * 2 ^ log2 n" using log2_bounds [of m] log2_bounds [of n] mn by simp_all
  ultimately show False using mn(2) by simp
qed

lemma roundShift_div: "m div 2 ^ s \<le> roundShift s m" "roundShift s m \<le> m div 2 ^ s + 1"
  by (simp_all add: roundShift_def Let_def)

lemma roundShift_mono: "m \<le> n \<Longrightarrow> roundShift s m \<le> roundShift s n"
proof -
  assume le: "m \<le> n"
  then have q: "m div 2 ^ s \<le> n div 2 ^ s" by (rule div_le_mono)
  show ?thesis
  proof (cases "m div 2 ^ s = n div 2 ^ s")
    case True
    have "m div 2 ^ s * 2 ^ s + m mod 2 ^ s \<le> n div 2 ^ s * 2 ^ s + n mod 2 ^ s" using le by (simp only: div_mult_mod_eq)
    with True have "m mod 2 ^ s \<le> n mod 2 ^ s" by simp
    with True show ?thesis by (auto simp: roundShift_def Let_def)
  next
    case False
    with q have "m div 2 ^ s + 1 \<le> n div 2 ^ s" by simp
    then show ?thesis using roundShift_div(2) [of s m] roundShift_div(1) [of n s] by linarith
  qed
qed

text \<open>The bits of a converted natural number, as a number.\<close>

definition significand :: "nat \<Rightarrow> nat" where
  "significand m = (if log2 m \<le> 52 then m * 2 ^ (52 - log2 m) else roundShift (log2 m - 52) m)"

definition fbits :: "nat \<Rightarrow> nat" where
  "fbits m = (if m = 0 then 0 else (log2 m + 1022) * 2 ^ 52 + significand m)"

lemma floatOfNat_fbits: "floatOfNat m = of_nat (fbits m)"
  by (simp add: floatOfNat_def fbits_def significand_def Let_def)

lemma significand_bounds: "0 < m \<Longrightarrow> 2 ^ 52 \<le> significand m \<and> significand m \<le> 2 ^ 53"
proof -
  assume "0 < m"
  note b = log2_bounds [OF this]
  show ?thesis
  proof (cases "log2 m \<le> 52")
    case True
    have p: "(2 :: nat) ^ log2 m * 2 ^ (52 - log2 m) = 2 ^ 52" using True by (simp only: power_add [symmetric] le_add_diff_inverse)
    have "2 ^ log2 m * 2 ^ (52 - log2 m) \<le> m * 2 ^ (52 - log2 m)" using b by (intro mult_le_mono1) simp
    moreover have "m * 2 ^ (52 - log2 m) \<le> (2 * 2 ^ log2 m) * 2 ^ (52 - log2 m)" using b by (intro mult_le_mono1) simp
    moreover have "(2 * 2 ^ log2 m) * 2 ^ (52 - log2 m) = (2 :: nat) ^ 53" by (simp only: mult.assoc p) simp
    ultimately show ?thesis using True by (simp only: significand_def p if_True simp_thms)
  next
    case False
    let ?s = "log2 m - 52"
    have p: "(2 :: nat) ^ 52 * 2 ^ ?s = 2 ^ log2 m" using False by (simp only: power_add [symmetric] le_add_diff_inverse)
    have lo: "2 ^ 52 \<le> m div 2 ^ ?s" using b p by (subst less_eq_div_iff_mult_less_eq) simp_all
    have "m < 2 ^ 53 * 2 ^ ?s" using b p by simp
    then have "m div 2 ^ ?s < 2 ^ 53" by (rule less_mult_imp_div_less)
    with lo show ?thesis using False roundShift_div [of m ?s] roundShift_div(2) [of ?s m] by (simp add: significand_def)
  qed
qed

lemma significand_mono: "0 < m \<Longrightarrow> m \<le> n \<Longrightarrow> log2 m = log2 n \<Longrightarrow> significand m \<le> significand n"
  by (simp add: significand_def roundShift_mono)

lemma exponent_step:
  assumes "0 < m" "log2 m < log2 n" "0 < n"
  shows "fbits m \<le> fbits n" "significand m < 2 ^ 53 \<Longrightarrow> fbits m < fbits n"
proof -
  have "(log2 m + 1022) * 2 ^ 52 + 2 ^ 52 \<le> (log2 n + 1022) * (2 :: nat) ^ 52"
    using assms(2) mult_le_mono1 [of "log2 m + 1023" "log2 n + 1022" "2 ^ 52"] by simp
  moreover have "fbits n \<ge> (log2 n + 1022) * 2 ^ 52 + 2 ^ 52" using significand_bounds [OF assms(3)] assms(3) by (simp add: fbits_def)
  moreover have "fbits m = (log2 m + 1022) * 2 ^ 52 + significand m" using assms(1) by (simp add: fbits_def)
  ultimately show "fbits m \<le> fbits n" "significand m < 2 ^ 53 \<Longrightarrow> fbits m < fbits n" using significand_bounds [OF assms(1)] by simp_all
qed

lemma fbits_mono: "m \<le> n \<Longrightarrow> fbits m \<le> fbits n"
proof (cases "m = 0")
  case False
  assume le: "m \<le> n"
  with False have pos: "0 < m" "0 < n" by simp_all
  with log2_mono [OF pos(1) le] exponent_step(1) [of m n] show ?thesis
    by (cases "log2 m = log2 n") (simp_all add: fbits_def significand_mono le)
qed (simp add: fbits_def)

lemma fbits_strict: "m < n \<Longrightarrow> n \<le> 2 ^ 53 \<Longrightarrow> fbits m < fbits n"
proof (cases "m = 0")
  case True
  assume "m < n"
  with True have "0 < n" by simp
  with True significand_bounds [of n] show ?thesis by (simp add: fbits_def)
next
  case False
  assume less: "m < n" and n: "n \<le> 2 ^ 53"
  with False have pos: "0 < m" "0 < n" by simp_all
  have "2 ^ log2 m < (2 :: nat) ^ 53" using log2_bounds [OF pos(1)] less n by linarith
  then have e: "log2 m \<le> 52" by (subst (asm) power_strict_increasing_iff) simp_all
  show ?thesis
  proof (cases "log2 m = log2 n")
    case True
    with e less have "significand m < significand n" by (simp add: significand_def)
    with True pos show ?thesis by (simp add: fbits_def)
  next
    case False
    with log2_mono [OF pos(1)] less have lt: "log2 m < log2 n" by (simp add: order.strict_iff_order)
    have "m * 2 ^ (52 - log2 m) < (2 * 2 ^ log2 m) * 2 ^ (52 - log2 m)" using log2_bounds [OF pos(1)] by (intro mult_strict_right_mono) simp_all
    also have "\<dots> = 2 ^ 53" using e by (simp add: power_add [symmetric] mult.assoc)
    finally have "significand m < 2 ^ 53" using e by (simp add: significand_def)
    with exponent_step(2) [OF pos(1) lt pos(2)] show ?thesis by simp
  qed
qed

lemma fbits_bound: "m \<le> 2 ^ 63 \<Longrightarrow> fbits m \<le> 1087 * 2 ^ 52"
proof (cases "m = 0")
  case False
  assume m: "m \<le> 2 ^ 63"
  with False have pos: "0 < m" by simp
  have "2 ^ log2 m < (2 :: nat) ^ 64" using log2_bounds [OF pos] m by (intro le_less_trans [of "2 ^ log2 m" m]) simp_all
  then have "log2 m \<le> 63" by (subst (asm) power_strict_increasing_iff) simp_all
  then have "(log2 m + 1022) * (2 :: nat) ^ 52 \<le> 1085 * 2 ^ 52" by (intro mult_le_mono1) simp
  with significand_bounds [OF pos] pos show ?thesis by (simp add: fbits_def)
qed (simp add: fbits_def)

section \<open>Order of converted integers\<close>

lemma ford_of_nat: "n < 2 ^ 63 \<Longrightarrow> ford (of_nat n) = int n" "n < 2 ^ 63 \<Longrightarrow> fmag (of_nat n) = of_nat n"
proof -
  assume n: "n < 2 ^ 63"
  then have u: "uint (of_nat n :: f64) = int n" by (simp add: unsigned_of_nat take_bit_nat_eq_self_iff take_bit_int_eq_self_iff of_nat_take_bit [symmetric])
  have m: "uint (fmag (of_nat n)) = int n" using n by (simp add: uint_fmag u nat_less_iff [symmetric] mod_pos_pos_trivial)
  have "\<not> bit (of_nat n :: f64) 63" using n by (simp add: bit_top u)
  with m show "ford (of_nat n) = int n" by (simp add: ford_def)
  show "fmag (of_nat n) = of_nat n" using m u by (simp only: word_uint_eq_iff)
qed

lemma ford_fneg: "ford (fneg f) = - ford f" "fmag (fneg f) = fmag f"
proof -
  have "uint (fmag (fneg f)) = (uint f + 2 ^ 63) mod 2 ^ 64 mod 2 ^ 63"
    unfolding uint_fmag fneg_def xor_top by (simp add: uint_word_ariths push_bit_eq_mult)
  also have "\<dots> = (uint f + 2 ^ 63) mod 2 ^ 63" by (rule mod_mod_cancel) (rule le_imp_power_dvd, simp)
  finally have m: "uint (fmag (fneg f)) = uint (fmag f)" by (simp add: uint_fmag)
  have p: "bit (push_bit 63 1 :: f64) 63" by (simp add: bit_push_bit_iff)
  have "bit (fneg f) 63 \<longleftrightarrow> \<not> bit f 63" using p by (simp only: fneg_def bit_xor_iff) simp
  with m show "ford (fneg f) = - ford f" by (simp add: ford_def)
  show "fmag (fneg f) = fmag f" using m by (simp only: word_uint_eq_iff)
qed

lemma ford_floatOfInt: "ford (floatOfInt n) = (if sint n < 0 then - int (fbits (nat (- sint n))) else int (fbits (nat (sint n))))"
  and floatOfInt_number: "\<not> IsNaN (floatOfInt n)"
proof -
  have b: "nat (- sint n) \<le> 2 ^ 63" "nat (sint n) \<le> 2 ^ 63" using i64_bounds [of n] by simp_all
  have small: "fbits m < 2 ^ 63" if "m \<le> 2 ^ 63" for m using fbits_bound [OF that] by simp
  show "ford (floatOfInt n) = (if sint n < 0 then - int (fbits (nat (- sint n))) else int (fbits (nat (sint n))))"
    using small [OF b(1)] small [OF b(2)] by (simp add: floatOfInt_def floatOfNat_fbits ford_fneg ford_of_nat)
  have mag: "\<not> IsNaN (of_nat (fbits m))" if "m \<le> 2 ^ 63" for m
  proof -
    have "unat (of_nat (fbits m) :: f64) = fbits m" using small [OF that] by (simp add: unsigned_of_nat take_bit_nat_eq_self)
    then show ?thesis using fbits_bound [OF that] small [OF that] by (simp add: IsNaN_def ford_of_nat word_less_nat_alt)
  qed
  show "\<not> IsNaN (floatOfInt n)"
    using mag [OF b(1)] mag [OF b(2)] by (simp add: floatOfInt_def floatOfNat_fbits IsNaN_def ford_fneg)
qed

lemma floatOfInt_mono: "sint a \<le> sint b \<Longrightarrow> ford (floatOfInt a) \<le> ford (floatOfInt b)"
  using fbits_mono [of "nat (sint a)" "nat (sint b)"] fbits_mono [of "nat (- sint b)" "nat (- sint a)"]
  by (auto simp: ford_floatOfInt)

lemma floatOfInt_strict:
  assumes "sint a < sint b" "\<bar>sint a\<bar> < 2 ^ 53 \<or> \<bar>sint b\<bar> < 2 ^ 53"
  shows "ford (floatOfInt a) < ford (floatOfInt b)"
proof -
  define h where "h = (\<lambda>i :: int. if i < 0 then - int (fbits (nat (- i))) else int (fbits (nat i)))"
  have mono: "h i \<le> h j" if "i \<le> j" for i j
    using that fbits_mono [of "nat i" "nat j"] fbits_mono [of "nat (- j)" "nat (- i)"] by (auto simp: h_def)
  have step: "h i < h (i + 1)" if "- (2 ^ 53) \<le> i" "i < 2 ^ 53" for i
  proof (cases "i < 0")
    case True
    then have "fbits (nat (- (i + 1))) < fbits (nat (- i))" using that by (intro fbits_strict) simp_all
    moreover have "fbits 0 = 0" by (simp add: fbits_def)
    ultimately show ?thesis using True by (cases "i + 1 < 0") (simp_all add: h_def)
  next
    case False
    then have "fbits (nat i) < fbits (nat (i + 1))" using that by (intro fbits_strict) simp_all
    with False show ?thesis by (simp add: h_def)
  qed
  have "h (sint a) < h (sint b)"
    using assms mono [of "sint a + 1" "sint b"] step [of "sint a"] mono [of "sint a" "sint b - 1"] step [of "sint b - 1"]
    by (auto simp: abs_less_iff)
  then show ?thesis by (simp add: h_def ford_floatOfInt)
qed

end
