(* ===== verification/SQL_Plan_Props.thy ===== *)
theory SQL_Plan_Props
  imports SQL_Stable SQL_Store SQL_Types SQL_Float
begin

text \<open>
  The planner never loses a row: the constraints it extracts hold of every row the WHERE clause accepts, the ranges it
  builds contain the keys of those rows, and the planned scan followed by the filter answers what the full scan followed
  by the filter answers.
\<close>

section \<open>Comparison with a constant\<close>

lemma cmp_swap: "cmp b a = - cmp a b"
  by (auto simp: cmp_def)

lemma compareNumeric_swap: "compareNumeric b a = - compareNumeric a b"
  by (auto simp: compareNumeric_def cmp_swap [of "sint (v_I b)"] fless_def Let_def)

lemma Compare_swap: "Compare X a b = Inr d \<Longrightarrow> Compare X b a = Inr (- d)"
  by (cases "v_T a"; cases "v_T b")
     (auto simp: Compare_def isNumeric_def compareNumeric_swap [of a b] cmp_swap [of "v_S a"] cmp_swap [of "v_TS a"]
       cmp_swap [of _ "v_TS b"] boolCompare_cmp bytesCompare_cmp cmp_swap [of "v_B a"] cmp_swap [of _ "v_B b"]
       cmp_swap [of "v_Raw a"] cmp_swap [of _ "v_Raw b"] compareNumeric_swap [of a] compareNumeric_swap [of _ b] split: sum.splits)

lemma compareNumeric_ford:
  assumes "\<not> IsNaN (asFloat a)" "\<not> IsNaN (asFloat b)" "\<not> (v_T a = TypeInt \<and> v_T b = TypeInt)"
  shows "compareNumeric a b = cmp (ford (asFloat a)) (ford (asFloat b))"
  using assms unfolding compareNumeric_def by (auto simp: fless_def cmp_def)

text \<open>An integer against the float it was truncated from, where the guard on the magnitude makes the floats exact.\<close>

lemma truncated_agrees:
  assumes "v_T w = TypeInt" "compareNumeric (intV i) (doubleV f) = 0" "\<not> IsNaN f" "\<bar>sint i\<bar> < 2 ^ 53"
  shows "compareNumeric w (doubleV f) = compareNumeric w (intV i)"
proof -
  have n: "\<not> IsNaN (floatOfInt j)" for j by (rule floatOfInt_number)
  have "ford (floatOfInt i) = ford f" using assms(2,3) n by (simp add: compareNumeric_ford asFloat_def cmp_cases)
  then have "compareNumeric w (doubleV f) = cmp (ford (floatOfInt (v_I w))) (ford (floatOfInt i))"
    using assms(1,3) n by (simp add: compareNumeric_ford asFloat_def)
  also have "\<dots> = cmp (sint (v_I w)) (sint i)"
  proof (cases "sint (v_I w)" "sint i" rule: linorder_cases)
    case less
    with floatOfInt_strict [OF less] assms(4) show ?thesis by (simp add: cmp_def)
  next
    case equal
    then have "v_I w = i" by (metis i64_word)
    then show ?thesis by (simp add: cmp_def)
  next
    case greater
    with floatOfInt_strict [OF greater] assms(4) show ?thesis by (simp add: cmp_def)
  qed
  finally show ?thesis using assms(1) by (simp add: compareNumeric_def)
qed

lemma castDoubleToInt_number: "castDoubleToInt X f = Inr v \<Longrightarrow> \<not> IsNaN f"
  by (auto simp: castDoubleToInt_def split: if_splits)

lemma coerce_types:
  assumes "coerceForKey X v c = Some cv" "v_T v \<noteq> c_Type c"
  shows "c_Type c = TypeInt \<and> v_T v = TypeDouble \<or> c_Type c = TypeInt \<and> v_T v = TypeText \<or>
    c_Type c = TypeDouble \<and> v_T v = TypeInt \<or> c_Type c = TypeDouble \<and> v_T v = TypeText \<or>
    c_Type c = TypeBool \<and> v_T v = TypeText \<or> c_Type c = TypeTimestamp \<and> v_T v = TypeText \<or> c_Type c = TypeBytea \<and> v_T v = TypeText"
  using assms unfolding coerceForKey_def Let_def
  by (cases "c_Type c"; cases "v_T v") (simp_all add: isNumeric_def IsNull_def)

text \<open>A stored value of the column compares with the coerced constant as with the constant itself.\<close>

lemma coerce_agrees:
  assumes "coerceForKey X v c = Some cv" "v_T w = c_Type c"
  shows "v_T cv = c_Type c" "Compare X w v = Inr d \<Longrightarrow> Compare X w cv = Inr d"
proof -
  have nn: "\<not> IsNull v" "c_Type c \<noteq> TypeAny" "c_Type c \<noteq> TypeVector" "v_T v \<noteq> TypeVector"
    using assms(1) by (auto simp: coerceForKey_def Let_def split: if_splits)
  have cast: "CastTo X v (c_Type c) = Inr cv" and zero: "Compare X cv v = Inr 0"
    using assms(1) by (auto simp: coerceForKey_def Let_def split: if_splits sum.splits)
  show t: "v_T cv = c_Type c"
    using CastTo_Inr(1) [OF cast] cast nn by (cases "v_T v = c_Type c") (auto simp: CastTo_def)
  show "Compare X w cv = Inr d" if cw: "Compare X w v = Inr d"
  proof (cases "v_T v = c_Type c")
    case True
    with cast have "cv = v" by (simp add: CastTo_def)
    with cw show ?thesis by simp
  next
    case False
    have small: "\<bar>sint (v_I cv)\<bar> < 2 ^ 53" if "c_Type c = TypeInt" "v_T v = TypeText \<longrightarrow> ParseInt (TrimSpace (v_S v)) = None"
      using assms(1) that cast False nn
      by (auto simp: coerceForKey_def Let_def maxExactFloatInt_def abs_less_iff split: if_splits sum.splits)
    show ?thesis
    proof (cases "c_Type c = TypeInt")
      case True
      show ?thesis
      proof (cases "v_T v")
        case TypeDouble
        then obtain i where i: "cv = intV i" using cast True nn by (auto simp: CastTo_def dest: castDoubleToInt_Inr)
        have f: "\<not> IsNaN (v_F v)" using cast True nn TypeDouble by (auto simp: CastTo_def dest: castDoubleToInt_number)
        have eq: "compareNumeric u v = compareNumeric u (doubleV (v_F v))" for u
          using TypeDouble by (simp add: compareNumeric_def asFloat_def)
        have "compareNumeric cv v = 0" using zero i TypeDouble by (simp add: Compare_def isNumeric_def)
        with truncated_agrees [of w i "v_F v"] f small i eq True TypeDouble assms(2)
        have "compareNumeric w v = compareNumeric w cv" by simp
        with cw True assms(2) TypeDouble i show ?thesis by (simp add: Compare_def isNumeric_def)
      next
        case TypeText
        show ?thesis
        proof (cases "ParseInt (TrimSpace (v_S v))")
          case (Some i)
          with TypeText cast True nn cw assms(2) show ?thesis
            by (auto simp: CastTo_def Compare_def isNumeric_def castTextToNumeric_def)
        next
          case None
          then obtain f where f: "ParseFloat X 64 (TrimSpace (v_S v)) = Some f" "castDoubleToInt X f = Inr cv"
            using TypeText cast True nn by (auto simp: CastTo_def split: option.splits)
          from castDoubleToInt_Inr [OF f(2)] obtain i where i: "cv = intV i" ..
          have "compareNumeric cv (doubleV f) = 0" using zero f i None TypeText by (simp add: Compare_def isNumeric_def castTextToNumeric_def)
          with truncated_agrees [of w i f] castDoubleToInt_number [OF f(2)] small i True None assms(2)
          have "compareNumeric w (doubleV f) = compareNumeric w cv" by simp
          with cw True assms(2) TypeText None f i show ?thesis by (simp add: Compare_def isNumeric_def castTextToNumeric_def)
        qed
      qed (use coerce_types [OF assms(1) False] True in auto)
    next
      case notInt: False
      have num: "compareNumeric w v = compareNumeric w (doubleV (floatOfInt (v_I v)))" if "v_T v = TypeInt" "v_T w = TypeDouble"
        using that by (simp add: compareNumeric_def asFloat_def)
      from coerce_types [OF assms(1) False] notInt consider
          "c_Type c = TypeDouble" "v_T v = TypeInt" | "c_Type c = TypeDouble" "v_T v = TypeText"
        | "c_Type c = TypeBool" "v_T v = TypeText" | "c_Type c = TypeTimestamp" "v_T v = TypeText"
        | "c_Type c = TypeBytea" "v_T v = TypeText" by blast
      then show ?thesis
        by cases (use cast cw nn assms(2) num in \<open>auto simp: CastTo_def Compare_def isNumeric_def castTextToNumeric_def
          split: option.splits sum.splits\<close>)
    qed
  qed
qed

section \<open>What a WHERE clause says of a row\<close>

fun colRefs :: "Expr \<Rightarrow> (bytes \<times> bytes) list" where
  "colRefs (ColumnRef t c) = [(t, c)]"
| "colRefs (Unary op x) = colRefs x"
| "colRefs (Binary op l r) = colRefs l @ colRefs r"
| "colRefs (Between x lo hi neg) = colRefs x @ colRefs lo @ colRefs hi"
| "colRefs (InList x items sub neg) = colRefs x @ List.concat (map colRefs items)"
| "colRefs (IsNullE x neg) = colRefs x"
| "colRefs (Cast x t tn dim) = colRefs x"
| "colRefs (FuncCall name args star) = List.concat (map colRefs args)"
| "colRefs _ = []"

text \<open>The environment of the filter shows the stored row under every name of the expression that is a column of the table.\<close>

definition readsRow :: "tableSchema \<Rightarrow> rowmap \<Rightarrow> row \<Rightarrow> Expr \<Rightarrow> bool" where
  "readsRow sc r m e \<longleftrightarrow> (\<forall>(t, c) \<in> set (colRefs e). col sc c \<noteq> None \<longrightarrow> columnValue (Some m) t c = Inr (rowGet r c))"

text \<open>A stored row has values of the declared types.\<close>

definition typedRow :: "tableSchema \<Rightarrow> rowmap \<Rightarrow> bool" where
  "typedRow sc r \<longleftrightarrow> (\<forall>c \<in> set (sc_Columns sc). let v = rowGet r (c_Name c)
     in canonical v \<and> (IsNull v \<or> c_Type c = TypeAny \<or> v_T v = c_Type c))"

definition accepts :: "unicode \<Rightarrow> sqlenv \<Rightarrow> row \<Rightarrow> Expr \<Rightarrow> bool" where
  "accepts U X m e \<longleftrightarrow> predicateTrue U X (Some e) (Some m) = Inr True"

lemma accepts_iff: "accepts U X m e \<longleftrightarrow> (\<exists>v. evalExpr U X (Some m) e = Inr v \<and> truth v = Some True)"
  by (auto simp: accepts_def predicateTrue_def sbind_def split: sum.splits)

lemma truth_simps [simp]: "truth (boolV b) = Some b" "truth nullV = None"
  by (simp_all add: truth_def)

lemma evalExpr_AND: "evalExpr U X r (Binary (str ''AND'') a b) = sbind (evalExpr U X r a) (\<lambda>lv. if truth lv = Some False then Inr (boolV False)
    else sbind (evalExpr U X r b) (\<lambda>rv. Inr (logicalRest True (truth lv) (truth rv))))"
proof -
  have "(str ''AND'' = str ''OR'') = False" by simp
  then show ?thesis by (simp only: evalExpr.simps simp_thms if_True if_False)
qed

lemma logicalRest_true: "truth (logicalRest True l r) = Some True \<longleftrightarrow> l = Some True \<and> r = Some True"
  by (cases l; cases r) (auto simp: logicalRest_def)

lemma and_true:
  assumes "sbind A (\<lambda>lv. if truth lv = Some False then Inr (boolV False) else sbind B (\<lambda>rv. Inr (logicalRest True (truth lv) (truth rv)))) = Inr v"
    "truth v = Some True"
  shows "(\<exists>lv. A = Inr lv \<and> truth lv = Some True) \<and> (\<exists>rv. B = Inr rv \<and> truth rv = Some True)"
proof -
  from assms obtain lv where l: "A = Inr lv" "truth lv \<noteq> Some False" by (cases A) (auto split: if_splits)
  with assms obtain rv where "B = Inr rv" "v = logicalRest True (truth lv) (truth rv)" by (cases B) auto
  with l assms(2) show ?thesis by (simp add: logicalRest_true)
qed

lemma accepts_and: "accepts U X m (Binary (str ''AND'') a b) \<Longrightarrow> accepts U X m a \<and> accepts U X m b"
  unfolding accepts_iff evalExpr_AND using and_true by blast

lemma splitAnd_conjunct:
  "x \<in> set (splitAnd e out) \<Longrightarrow> x \<in> set out \<or>
    (accepts U X m e \<longrightarrow> accepts U X m x) \<and> set (colRefs x) \<subseteq> set (colRefs e) \<and> set (literals x) \<subseteq> set (literals e)"
proof (induction e out rule: splitAnd.induct)
  case (1 op l r out)
  then show ?case
  proof (cases "op = str ''AND''")
    case True
    with 1(3) have "x \<in> set (splitAnd r (splitAnd l out))" by simp
    from 1(2) [OF True this] 1(1) [OF True] True accepts_and [of U X m l r] show ?thesis by auto
  qed auto
qed auto

text \<open>What the constraints of a column say of its value.\<close>

definition matches :: "sqlenv \<Rightarrow> Value \<Rightarrow> (int \<Rightarrow> bool) \<Rightarrow> Value \<Rightarrow> bool" where
  "matches X w R v \<longleftrightarrow> canonical v \<and> v_T v = v_T w \<and> (\<exists>d. Compare X w v = Inr d \<and> R d)"

definition holds :: "sqlenv \<Rightarrow> Value \<Rightarrow> colConstraint \<Rightarrow> bool" where
  "holds X w c \<longleftrightarrow>
     (\<forall>v. cc_eq c = Some v \<longrightarrow> matches X w (\<lambda>d. d = 0) v) \<and>
     (\<forall>vs. cc_in c = Some vs \<longrightarrow> list_all (matches X w (\<lambda>d. True)) vs \<and> list_ex (matches X w (\<lambda>d. d = 0)) vs) \<and>
     (\<forall>v. cc_lo c = Some v \<longrightarrow> matches X w (\<lambda>d. d \<ge> 0) v) \<and>
     (\<forall>v. cc_hi c = Some v \<longrightarrow> matches X w (\<lambda>d. d \<le> 0) v)"

definition consHold :: "sqlenv \<Rightarrow> tableSchema \<Rightarrow> rowmap \<Rightarrow> constraints \<Rightarrow> bool" where
  "consHold X sc r cons \<longleftrightarrow> (\<forall>name c. cons name = Some c \<longrightarrow> holds X (rowGet r name) c)"

lemma holds_none [simp]: "holds X w noConstraint"
  by (simp add: holds_def noConstraint_def)

lemma holds_getC: "consHold X sc r cons \<Longrightarrow> holds X (rowGet r name) (getC cons name)"
  by (auto simp: consHold_def getC_def split: option.splits)

lemma holds_raiseLo: "holds X w c \<Longrightarrow> matches X w (\<lambda>d. d \<ge> 0) v \<Longrightarrow> holds X w (raiseLo X v c)"
  by (auto simp: holds_def raiseLo_def split: option.splits)

lemma holds_lowerHi: "holds X w c \<Longrightarrow> matches X w (\<lambda>d. d \<le> 0) v \<Longrightarrow> holds X w (lowerHi X v c)"
  by (auto simp: holds_def lowerHi_def split: option.splits)

lemma holds_compareC:
  assumes "holds X w c" "matches X w R v"
    "op = str ''='' \<Longrightarrow> \<forall>d. R d \<longrightarrow> d = 0" "op = str ''>'' \<or> op = str ''>='' \<Longrightarrow> \<forall>d. R d \<longrightarrow> d \<ge> 0"
    "op = str ''<'' \<or> op = str ''<='' \<Longrightarrow> \<forall>d. R d \<longrightarrow> d \<le> 0"
  shows "holds X w (compareC X op v c)"
proof -
  have weaken: "matches X w Q v" if "\<forall>d. R d \<longrightarrow> Q d" for Q using assms(2) that by (auto simp: matches_def)
  show ?thesis
    using assms holds_raiseLo [OF assms(1) weaken] holds_lowerHi [OF assms(1) weaken] weaken [of "\<lambda>d. d = 0"]
    by (auto simp: compareC_def holds_def simp del: str_simps split: if_splits)
qed

lemma consHold_upd: "consHold X sc r cons \<Longrightarrow> holds X (rowGet r name) c \<Longrightarrow> consHold X sc r (cons(name \<mapsto> c))"
  by (auto simp: consHold_def)

section \<open>The constraints hold\<close>

lemma timesOK_retimed: "timesOK X \<Longrightarrow> rowCanonical None \<and> (\<forall>f s t. timeParse X f s = Some t \<longrightarrow> timeInRange t)"
  by (simp add: timesOK_def rowCanonical_def)

lemma constValue_value:
  assumes "constValue U X e = Some v" "timesOK X" "list_all canonical (literals e)"
  shows "evalExpr U (retimed t b X) (Some m) e = Inr v" "canonical v"
proof -
  have d: "deterministic e" and v: "evalExpr U X None e = Inr v"
    using assms(1) by (auto simp: constValue_def split: if_splits sum.splits)
  from evalExpr_norow(1) [OF v refl] evalExpr_deterministic(1) [OF d]
  show "evalExpr U (retimed t b X) (Some m) e = Inr v" by simp
  show "canonical v" by (rule evalExpr_canonical(1) [OF assms(2) _ assms(3) v]) (simp add: rowCanonical_def)
qed

lemma coerce_canonical: "coerceForKey X v c = Some cv \<Longrightarrow> timesOK X \<Longrightarrow> canonical v \<Longrightarrow> canonical cv"
  by (rule CastTo_canonical [of X v "c_Type c"]) (auto simp: coerceForKey_def Let_def split: if_splits sum.splits)

lemma col_Some: "col sc name = Some c \<Longrightarrow> c \<in> set (sc_Columns sc) \<and> c_Name c = name"
  by (auto simp: col_def find_Some_iff)

text \<open>A value of the row that compares with a constant in some way matches the coerced constant in that way.\<close>

lemma coerced_matches:
  assumes "typedRow sc r" "col sc name = Some c" "coerceForKey X v c = Some cv" "timesOK X" "canonical v"
    "\<not> IsNull (rowGet r name)" "Compare X (rowGet r name) v = Inr d" "R d"
  shows "matches X (rowGet r name) R cv"
proof -
  have "c_Type c \<noteq> TypeAny" using assms(3) by (auto simp: coerceForKey_def Let_def)
  with assms(1,6) col_Some [OF assms(2)] have "v_T (rowGet r name) = c_Type c" by (auto simp: typedRow_def Let_def)
  from coerce_agrees [OF assms(3) this] this assms(7,8) coerce_canonical [OF assms(3-5)] show ?thesis by (auto simp: matches_def)
qed

definition compareOps :: "bytes list" where
  "compareOps = map str [''='', ''<'', ''<='', ''>'', ''>='']"

lemma strictBinary_compare: "op \<in> set compareOps \<Longrightarrow> strictBinary X op = evalCompare X op"
  by (auto simp: compareOps_def strictBinary_def fun_eq_iff)

lemma evalExpr_compare: "op \<in> set compareOps \<Longrightarrow>
    evalExpr U X r (Binary op a b) = sbind (evalExpr U X r a) (\<lambda>lv. sbind (evalExpr U X r b) (evalCompare X op lv))"
proof -
  assume op: "op \<in> set compareOps"
  then have "(op = str ''AND'' \<or> op = str ''OR'') = False" by (auto simp: compareOps_def)
  then show ?thesis by (simp only: evalExpr.simps if_False strictBinary_compare [OF op])
qed

lemma compareC_other: "op \<notin> set compareOps \<Longrightarrow> compareC X op v c = c" "op \<notin> set compareOps \<Longrightarrow> compareC X (flipCmp op) v c = c"
  by (auto simp: compareC_def flipCmp_def compareOps_def simp del: str_simps)

lemma evalCompare_true:
  assumes "evalCompare X op l r = Inr v" "truth v = Some True"
  obtains d where "\<not> IsNull l" "\<not> IsNull r" "Compare X l r = Inr d" "op = str ''='' \<Longrightarrow> d = 0"
    "op = str ''>'' \<or> op = str ''>='' \<Longrightarrow> d \<ge> 0" "op = str ''<'' \<or> op = str ''<='' \<Longrightarrow> d \<le> 0"
proof -
  from assms have n: "\<not> IsNull l" "\<not> IsNull r" by (auto simp: evalCompare_def)
  with assms(1) obtain d where d: "Compare X l r = Inr d" by (cases "Compare X l r") (auto simp: evalCompare_def)
  show thesis
    by (rule that [OF n d]) (use assms n d in \<open>auto simp: evalCompare_def\<close>)
qed

lemma readsRow_column:
  "readsRow sc r m (ColumnRef t c) \<Longrightarrow> col sc c = Some cl \<Longrightarrow> evalExpr U X (Some m) (ColumnRef t c) = Inr (rowGet r c)"
  by (simp add: readsRow_def)

lemma compare_holds:
  assumes acc: "accepts U (retimed t b X) m (Binary op l r')" and reads: "readsRow sc r m (Binary op l r')"
    and ok: "typedRow sc r" "timesOK X" "list_all canonical (literals (Binary op l r'))" and cons: "consHold X sc r cons"
  shows "consHold X sc r (conjStep U X sc cons (Binary op l r'))"
proof -
  define op' colRef valEx where "op' = (if isColumnRef l then op else flipCmp op)"
    and "colRef = (if isColumnRef l then l else r')" and "valEx = (if isColumnRef l then r' else l)"
  have step: "conjStep U X sc cons (Binary op l r') = (case refColumn sc colRef of None \<Rightarrow> cons
      | Some c \<Rightarrow> (case keyConst U X c valEx of None \<Rightarrow> cons
        | Some cv \<Rightarrow> cons(c_Name c \<mapsto> compareC X op' cv (getC cons (c_Name c)))))"
    unfolding conjStep_def op'_def colRef_def valEx_def by (cases "isColumnRef l") simp_all
  show ?thesis
  proof (cases "refColumn sc colRef")
    case None
    then show ?thesis using cons by (simp add: step)
  next
    case (Some c)
    then obtain tb cn where ref: "colRef = ColumnRef tb cn" "col sc cn = Some c" by (auto simp: refColumn_def split: Expr.splits)
    have name: "c_Name c = cn" using col_Some [OF ref(2)] by simp
    let ?w = "rowGet r cn"
    have w: "evalExpr U (retimed t b X) (Some m) colRef = Inr ?w"
      unfolding ref(1) by (rule readsRow_column [of sc r]) (use reads ref in \<open>auto simp: readsRow_def colRef_def split: if_splits\<close>)
    show ?thesis
    proof (cases "keyConst U X c valEx")
      case (Some cv)
      then obtain v where v: "constValue U X valEx = Some v" "coerceForKey X v c = Some cv"
        by (auto simp: keyConst_def split: option.splits)
      have lits: "list_all canonical (literals valEx)" using ok(3) by (simp add: valEx_def)
      note val = constValue_value [OF v(1) ok(2) lits]
      have "holds X ?w (compareC X op' cv (getC cons cn))"
      proof (cases "op \<in> set compareOps")
        case False
        then show ?thesis using holds_getC [OF cons] by (simp add: op'_def compareC_other)
      next
        case True
        let ?X = "retimed t b X"
        from acc [unfolded accepts_iff evalExpr_compare [OF True] retimed_operators] obtain u where u: "sbind (evalExpr U ?X (Some m) l) (\<lambda>lv. sbind (evalExpr U ?X (Some m) r') (evalCompare X op lv)) = Inr u"
            "truth u = Some True" by blast
        show ?thesis
        proof (cases "isColumnRef l")
          case True
          then have "evalCompare X op ?w v = Inr u" using u w val(1) by (simp add: colRef_def valEx_def)
          from evalCompare_true [OF this u(2)] obtain d where d: "\<not> IsNull ?w" "Compare X ?w v = Inr d" "op = str ''='' \<Longrightarrow> d = 0"
            "op = str ''>'' \<or> op = str ''>='' \<Longrightarrow> d \<ge> 0" "op = str ''<'' \<or> op = str ''<='' \<Longrightarrow> d \<le> 0" by blast
          have "matches X ?w (\<lambda>e. e = d) cv" by (rule coerced_matches [OF ok(1) ref(2) v(2) ok(2) val(2) d(1,2) refl])
          from holds_compareC [OF holds_getC [OF cons] this] d True show ?thesis by (simp add: op'_def)
        next
          case False
          then have "evalCompare X op v ?w = Inr u" using u w val(1) by (simp add: colRef_def valEx_def)
          from evalCompare_true [OF this u(2)] obtain d where d: "\<not> IsNull ?w" "Compare X v ?w = Inr d" "op = str ''='' \<Longrightarrow> d = 0"
            "op = str ''>'' \<or> op = str ''>='' \<Longrightarrow> d \<ge> 0" "op = str ''<'' \<or> op = str ''<='' \<Longrightarrow> d \<le> 0" by blast
          have "matches X ?w (\<lambda>e. e = - d) cv" by (rule coerced_matches [OF ok(1) ref(2) v(2) ok(2) val(2) d(1) Compare_swap [OF d(2)] refl])
          from holds_compareC [OF holds_getC [OF cons] this, of op'] d(3-) \<open>op \<in> set compareOps\<close> False show ?thesis
            by (auto simp: op'_def flipCmp_def compareOps_def)
        qed
      qed
      with Some \<open>refColumn sc colRef = Some c\<close> cons name show ?thesis by (simp add: step consHold_upd)
    qed (use Some cons in \<open>simp add: step\<close>)
  qed
qed

lemma between_holds:
  assumes acc: "accepts U (retimed t b X) m (Between x lo hi False)" and reads: "readsRow sc r m (Between x lo hi False)"
    and ok: "typedRow sc r" "timesOK X" "list_all canonical (literals (Between x lo hi False))" and cons: "consHold X sc r cons"
  shows "consHold X sc r (conjStep U X sc cons (Between x lo hi False))"
proof (cases "refColumn sc x")
  case (Some c)
  then obtain tb cn where ref: "x = ColumnRef tb cn" "col sc cn = Some c" by (auto simp: refColumn_def split: Expr.splits)
  have name: "c_Name c = cn" using col_Some [OF ref(2)] by simp
  let ?w = "rowGet r cn" and ?X = "retimed t b X"
  have w: "evalExpr U ?X (Some m) x = Inr ?w"
    unfolding ref(1) by (rule readsRow_column [of sc r]) (use reads ref in \<open>auto simp: readsRow_def\<close>)
  show ?thesis
  proof (cases "keyConst U X c lo = None \<or> keyConst U X c hi = None")
    case True
    then show ?thesis using cons by (auto simp: conjStep_def Some split: option.splits)
  next
    case False
    then obtain clo chi l h where k: "constValue U X lo = Some l" "coerceForKey X l c = Some clo" "constValue U X hi = Some h"
        "coerceForKey X h c = Some chi" "keyConst U X c lo = Some clo" "keyConst U X c hi = Some chi"
      by (auto simp: keyConst_def split: option.splits)
    have lits: "list_all canonical (literals lo)" "list_all canonical (literals hi)" using ok(3) by simp_all
    note l = constValue_value [OF k(1) ok(2) lits(1)] and h = constValue_value [OF k(3) ok(2) lits(2)]
    from acc obtain u where u: "betweenValue X ?w l h False = Inr u" "truth u = Some True"
      by (auto simp: accepts_iff w l h)
    then obtain ge le where cmp: "evalCompare X (str ''>='') ?w l = Inr ge" "truth ge = Some True"
        "evalCompare X (str ''<='') ?w h = Inr le" "truth le = Some True"
      unfolding betweenValue_def by (auto simp: sbind_Inr Let_def simp del: str_simps split: if_splits)
    from evalCompare_true [OF cmp(1,2)] obtain d where d: "\<not> IsNull ?w" "Compare X ?w l = Inr d" "d \<ge> 0" by (metis (full_types))
    from evalCompare_true [OF cmp(3,4)] obtain e where e: "Compare X ?w h = Inr e" "e \<le> 0" by (metis (full_types))
    have "matches X ?w (\<lambda>d. d \<ge> 0) clo" by (rule coerced_matches [OF ok(1) ref(2) k(2) ok(2) l(2) d(1,2)]) (rule d(3))
    moreover have "matches X ?w (\<lambda>d. d \<le> 0) chi" by (rule coerced_matches [OF ok(1) ref(2) k(4) ok(2) h(2) d(1) e(1)]) (rule e(2))
    ultimately have "holds X ?w (lowerHi X chi (raiseLo X clo (getC cons cn)))"
      by (intro holds_lowerHi holds_raiseLo holds_getC [OF cons])
    then show ?thesis using cons by (simp add: conjStep_def Some k name consHold_upd)
  qed
qed (use cons in \<open>simp add: conjStep_def\<close>)

lemma inLoop_true:
  "inLoop U X r w False sn items = Inr u \<Longrightarrow> truth u = Some True \<Longrightarrow>
    \<exists>item iv. item \<in> set items \<and> evalExpr U X r item = Inr iv \<and> \<not> IsNull iv \<and> Compare X w iv = Inr 0"
proof (induction items arbitrary: sn)
  case Nil
  then show ?case by (auto split: if_splits)
next
  case (Cons item items)
  from Cons.prems(1) obtain iv where iv: "evalExpr U X r item = Inr iv" by (auto simp: sbind_Inr)
  show ?case
  proof (cases "IsNull iv")
    case True
    with Cons iv show ?thesis by fastforce
  next
    case False
    with Cons.prems(1) iv obtain c where c: "Compare X w iv = Inr c" by (cases "Compare X w iv") auto
    with Cons iv False show ?thesis by (cases "c = 0") fastforce+
  qed
qed

lemma Compare_same: "v_T a = v_T b \<Longrightarrow> keyable a \<Longrightarrow> v_T a \<noteq> TypeNull \<Longrightarrow> Compare X a b = Inr (sortCompare X a b)"
  by (cases "v_T a") (simp_all add: Compare_def keyable_def sortCompare_def isNumeric_def)

lemma inValues_members:
  assumes "inValues U X c items = Some vals" "timesOK X" "\<forall>i \<in> set items. list_all canonical (literals i)"
  shows "\<forall>cv \<in> set vals. canonical cv \<and> v_T cv = c_Type c \<and> c_Type c \<noteq> TypeNull"
    and "\<forall>i \<in> set items. \<exists>v. constValue U X i = Some v \<and> (IsNull v \<or> (\<exists>cv \<in> set vals. coerceForKey X v c = Some cv))"
proof -
  have "(\<forall>cv \<in> set vals. canonical cv \<and> v_T cv = c_Type c \<and> c_Type c \<noteq> TypeNull) \<and>
      (\<forall>i \<in> set items. \<exists>v. constValue U X i = Some v \<and> (IsNull v \<or> (\<exists>cv \<in> set vals. coerceForKey X v c = Some cv)))"
    using assms
  proof (induction items arbitrary: vals)
    case (Cons i items)
    then obtain v where v: "constValue U X i = Some v" by (auto split: option.splits)
    have can: "canonical v" using Cons.prems by (intro constValue_value(2) [OF v]) simp_all
    show ?case
    proof (cases "IsNull v")
      case True
      with v Cons show ?thesis by auto
    next
      case False
      with v Cons.prems(1) obtain cv vs where cv: "coerceForKey X v c = Some cv" "inValues U X c items = Some vs" "vals = cv # vs"
        by (auto split: option.splits)
      have "c_Type c \<noteq> TypeNull" using cv(1) by (auto simp: coerceForKey_def Let_def IsNull_def split: if_splits)
      moreover have "v_T cv = c_Type c" by (rule coerce_agrees(1) [OF cv(1), of "nullV\<lparr>v_T := c_Type c\<rparr>"]) simp
      ultimately show ?thesis using Cons.IH [OF cv(2)] Cons.prems coerce_canonical [OF cv(1) _ can] v cv by auto
    qed
  qed simp
  then show "\<forall>cv \<in> set vals. canonical cv \<and> v_T cv = c_Type c \<and> c_Type c \<noteq> TypeNull"
    "\<forall>i \<in> set items. \<exists>v. constValue U X i = Some v \<and> (IsNull v \<or> (\<exists>cv \<in> set vals. coerceForKey X v c = Some cv))" by simp_all
qed

lemma inList_holds:
  assumes acc: "accepts U (retimed t b X) m (InList x items sub False)" and reads: "readsRow sc r m (InList x items sub False)"
    and ok: "typedRow sc r" "timesOK X" "list_all canonical (literals (InList x items sub False))" and cons: "consHold X sc r cons"
  shows "consHold X sc r (conjStep U X sc cons (InList x items sub False))"
proof (cases "refColumn sc x")
  case (Some c)
  then obtain tb cn where ref: "x = ColumnRef tb cn" "col sc cn = Some c" by (auto simp: refColumn_def split: Expr.splits)
  have name: "c_Name c = cn" using col_Some [OF ref(2)] by simp
  let ?w = "rowGet r cn" and ?X = "retimed t b X"
  have w: "evalExpr U ?X (Some m) x = Inr ?w"
    unfolding ref(1) by (rule readsRow_column [of sc r]) (use reads ref in \<open>auto simp: readsRow_def\<close>)
  have lits: "\<forall>i \<in> set items. list_all canonical (literals i)" using ok(3) by (auto simp: list_all_iff)
  show ?thesis
  proof (cases "inValues U X c items")
    case None
    then show ?thesis using cons by (simp add: conjStep_def Some)
  next
    case vals: (Some vals)
    from acc w obtain u where u: "\<not> IsNull ?w" "inLoop U ?X (Some m) ?w False False items = Inr u" "truth u = Some True"
      by (auto simp: accepts_iff split: if_splits)
    from inLoop_true [OF u(2,3)] obtain item iv where item: "item \<in> set items" "evalExpr U ?X (Some m) item = Inr iv"
      "\<not> IsNull iv" "Compare X ?w iv = Inr 0" by auto
    note mem = inValues_members [OF vals ok(2) lits]
    from mem(2) item(1) obtain v where v: "constValue U X item = Some v" "IsNull v \<or> (\<exists>cv \<in> set vals. coerceForKey X v c = Some cv)" by blast
    have "list_all canonical (literals item)" using lits item(1) by blast
    note val = constValue_value [OF v(1) ok(2) this]
    from val(1) [of t b m] item have "v = iv" by simp
    with v item obtain cv where cv: "cv \<in> set vals" "coerceForKey X v c = Some cv" by auto
    have hit: "matches X ?w (\<lambda>d. d = 0) cv"
      using item(4) \<open>v = iv\<close> by (intro coerced_matches [OF ok(1) ref(2) cv(2) ok(2) val(2) u(1)]) simp_all
    then have T: "v_T ?w = c_Type c" using mem(1) cv(1) by (simp add: matches_def)
    have kw: "keyable ?w" using cv(2) T by (auto simp: keyable_def coerceForKey_def Let_def split: if_splits)
    have "list_all (matches X ?w (\<lambda>d. True)) vals"
      unfolding list_all_iff matches_def using mem(1) T Compare_same [OF _ kw, of _ X] by auto
    then have "holds X ?w (let cc = getC cons cn in if cc_in cc = None then cc\<lparr>cc_in := Some vals\<rparr> else cc)"
      using hit cv(1) holds_getC [OF cons, of cn] by (auto simp: Let_def holds_def list_ex_iff)
    then show ?thesis using cons by (auto simp: conjStep_def Some vals name consHold_upd)
  qed
qed (use cons in \<open>simp add: conjStep_def\<close>)

text \<open>Every constraint the planner extracts holds of every row the clause accepts, whatever the clock says when.\<close>

lemma analyzeWhere_holds:
  assumes "accepts U (retimed t b X) m e" "readsRow sc r m e" "typedRow sc r" "timesOK X" "list_all canonical (literals e)"
  shows "consHold X sc r (analyzeWhere U X sc (Some e))"
proof -
  have step: "consHold X sc r (conjStep U X sc cons x)" if x: "x \<in> set (splitAnd e [])" and c: "consHold X sc r cons" for x cons
  proof -
    from splitAnd_conjunct [OF x, of U "retimed t b X" m] assms
    have acc: "accepts U (retimed t b X) m x" and reads: "readsRow sc r m x" and lits: "list_all canonical (literals x)"
      by (auto simp: readsRow_def list_all_iff)
    note args = acc reads assms(3,4) lits c
    show ?thesis
    proof (cases x)
      case (Binary op l r')
      with compare_holds args show ?thesis by blast
    next
      case (Between y lo hi neg)
      with between_holds [of U t b X m y lo hi sc r cons] args show ?thesis by (cases neg) (simp_all add: conjStep_def)
    next
      case (InList y items sub neg)
      with inList_holds [of U t b X m y items sub sc r cons] args show ?thesis by (cases neg) (simp_all add: conjStep_def)
    qed (use c in \<open>simp_all add: conjStep_def\<close>)
  qed
  have "consHold X sc r (foldl (conjStep U X sc) cons xs)" if "set xs \<subseteq> set (splitAnd e [])" "consHold X sc r cons" for xs cons
    using that by (induction xs arbitrary: cons) (simp_all add: step)
  from this [OF subset_refl, of Map.empty] show ?thesis by (simp add: analyzeWhere_def consHold_def)
qed

end
