(* ===== verification/SQL_Range.thy ===== *)
theory SQL_Range
  imports SQL_Plan_Props
begin

text \<open>
  Key ranges: the ranges built from constraints contain the key of every row the constraints hold of, as a row key and
  as the beginning of an index entry, and a ranged listing reads exactly the entries of its range.
\<close>

section \<open>Order of the encodings\<close>

lemma div_mono_1000: "(x :: int) \<le> y \<Longrightarrow> x div 1000 \<le> y div 1000"
  by (rule zdiv_mono1) simp_all

text \<open>Encodings keep the order of one column's values; timestamps are rounded down to microseconds.\<close>

lemma enc_le:
  assumes "v_T a = v_T b" "keyable a" "canonical a" "canonical b" "v_T a \<noteq> TypeNull" "sortCompare X a b \<le> 0"
  shows "enc a = enc b \<or> (\<forall>s t. follows s \<longrightarrow> enc a @ s < enc b @ t)"
proof -
  have kb: "keyable b" and col: "oneColumn a b" using assms(1,2) by (simp_all add: keyable_def oneColumn_def)
  show ?thesis
  proof (cases "v_T a = TypeTimestamp")
    case True
    let ?m = "\<lambda>v. sint (UnixMicro (v_TS v))"
    have range: "?m v = v_TS v div 1000" if "canonical v" "v_T v = TypeTimestamp" for v
    proof -
      from that have "timeInRange (v_TS v)" by (simp add: canonical_def)
      then show ?thesis by (simp add: UnixMicro_def i64_id timeInRange_def)
    qed
    have "v_TS a \<le> v_TS b" using assms(6) sortCompare_column [OF col assms(2) kb, of X] True assms(1) by (auto simp: cmp_def split: if_splits)
    then have "?m a \<le> ?m b" using range [of a] range [of b] True assms div_mono_1000 by simp
    then consider "?m a < ?m b" | "?m a = ?m b" by linarith
    then show ?thesis
    proof cases
      case 1
      then have "be64 (UnixMicro (v_TS a) XOR push_bit 63 1) @ s < be64 (UnixMicro (v_TS b) XOR push_bit 63 1) @ t" for s t by (rule offset_less)
      then have "enc a @ s < enc b @ t" for s t using True assms(1) by (simp only: enc_simps append.simps Cons_less_Cons simp_thms)
      then show ?thesis by blast
    next
      case 2
      then have "UnixMicro (v_TS a) = UnixMicro (v_TS b)" by (metis i64_word)
      then show ?thesis using True assms(1) by (simp add: enc_simps)
    qed
  next
    case False
    then have "microTime a" "microTime b" using assms(1) by (simp_all add: microTime_def)
    then have "\<forall>s t. follows s \<longrightarrow> enc a @ s < enc b @ t" if "sortCompare X a b < 0" using that enc_less [OF col assms(2) kb] by blast
    moreover have "enc a = enc b" if "sortCompare X a b = 0" using that by (rule enc_equal [OF col assms(2) kb])
    ultimately show ?thesis using assms(6) by (auto simp: order.order_iff_strict)
  qed
qed

section \<open>Prefix ranges\<close>

lemma prefixUpperLoop_nonempty: "prefixUpperLoop xs = Some e \<Longrightarrow> e \<noteq> []"
  by (induction xs) (auto split: if_splits)

lemma prefixEnd_iff: "prefix p k \<longleftrightarrow> p \<le> k \<and> (prefixEnd p = [] \<or> k < prefixEnd p)"
  using prefix_iff_in_bounds [of p k] prefixUpperLoop_nonempty [of "rev p"]
  by (auto simp: in_bounds_def PrefixUpperBound_def prefixEnd_def split: option.splits)

definition inRange :: "keyRange \<Rightarrow> bytes \<Rightarrow> bool" where
  "inRange r k \<longleftrightarrow> kr_start r \<le> k \<and> (kr_end r = [] \<or> k < kr_end r)"

lemma inRange_prefix: "prefix h k \<Longrightarrow> inRange (prefixRange h) k"
  using prefixEnd_iff [of h k] by (simp add: inRange_def prefixRange_def)

text \<open>Below a prefix means below its end.\<close>

lemma less_prefixEnd: "k < p \<or> prefix p k \<Longrightarrow> prefixEnd p = [] \<or> k < prefixEnd p"
  using prefixEnd_iff [of p k] prefixEnd_iff [of p p] by (auto intro: less_trans)

section \<open>The ranges of constraints\<close>

lemma hexOf_enc: "keyable v \<Longrightarrow> hexOf v = Some (hexString (enc v))"
  by (simp add: hexOf_def encodeKey_enc)

lemma matches_keyable: "matches X w R v \<Longrightarrow> keyable w \<Longrightarrow> keyable v"
  by (simp add: matches_def keyable_def)

lemma matches_nonnull: "matches X w R v \<Longrightarrow> v_T w \<noteq> TypeNull"
  by (auto simp: matches_def Compare_def isNumeric_def)

lemma matches_equal: "matches X w (\<lambda>d. d = 0) v \<Longrightarrow> keyable w \<Longrightarrow> enc w = enc v"
  using matches_keyable [of X w _ v] matches_nonnull [of X w _ v] Compare_same [of w v X]
  by (intro enc_equal [of w v X]) (auto simp: matches_def oneColumn_def)

lemma eqPrefix_split:
  assumes "consHold X sc r cons" "eqPrefix cols cons = (vs, rst)" "list_all keyable (map (rowGet r) cols)"
  shows "\<exists>cs. cols = cs @ rst \<and> length cs = length vs \<and> encs vs = encs (map (rowGet r) cs) \<and> list_all keyable vs"
  using assms(2,3)
proof (induction cols arbitrary: vs)
  case (Cons cn cols)
  show ?case
  proof (cases "\<exists>c v. cons cn = Some c \<and> cc_eq c = Some v")
    case True
    then obtain c v where cv: "cons cn = Some c" "cc_eq c = Some v" by blast
    then obtain vs' where vs': "eqPrefix cols cons = (vs', rst)" "vs = v # vs'" using Cons.prems by (auto split: prod.splits)
    from Cons.IH [OF vs'(1)] Cons.prems obtain cs where cs: "cols = cs @ rst" "length cs = length vs'"
      "encs vs' = encs (map (rowGet r) cs)" "list_all keyable vs'" by auto
    have m: "matches X (rowGet r cn) (\<lambda>d. d = 0) v" using assms(1) cv by (simp add: consHold_def holds_def)
    with Cons.prems matches_equal [OF m] matches_keyable [OF m] cs vs' show ?thesis by (intro exI [of _ "cn # cs"]) simp
  next
    case False
    then have "vs = []" "rst = cn # cols" using Cons.prems(1) by (auto split: option.splits)
    then show ?thesis by (intro exI [of _ "[]"]) simp
  qed
qed simp

text \<open>What follows a row's values in a stored key: nothing, or the separator of an index entry.\<close>

definition keyTail :: "bytes \<Rightarrow> bool" where
  "keyTail s \<longleftrightarrow> s = [] \<or> hd s < 48"

lemma hex_le: "x \<le> y \<Longrightarrow> hexString x \<le> hexString y @ s"
  using hexString_less_iff [of x y] by (cases "x = y") (auto simp: prefix_imp_le intro: le_less_trans less_imp_le order_trans)

text \<open>A key after the equality prefix, against the bounds of the next column.\<close>

lemma bound_lo:
  assumes "matches X w (\<lambda>d. d \<ge> 0) v" "keyable w" "canonical w"
  shows "hexString p @ hexString (enc v) \<le> hexString (p @ enc w @ q) @ s"
proof -
  have n: "v_T w \<noteq> TypeNull" by (rule matches_nonnull [OF assms(1)])
  have "sortCompare X v w \<le> 0"
    using assms(1,2) Compare_same [of w v X] n sortCompare_swap [of w v X] matches_keyable [OF assms(1,2)]
    by (auto simp: matches_def oneColumn_def)
  with enc_le [of v w X] assms matches_keyable [OF assms(1,2)] n
  have "enc v = enc w \<or> enc v @ [] < enc w @ q" by (auto simp: matches_def follows_def)
  then have "p @ enc v \<le> p @ enc w @ q" by (auto simp: append_le_cancel prefix_imp_le)
  from hex_le [OF this, of s] show ?thesis by simp
qed

lemma bound_hi:
  assumes "matches X w (\<lambda>d. d \<le> 0) v" "keyable w" "canonical w" "follows q" "keyTail s"
  shows "hexString (p @ enc w @ q) @ s < hexString p @ hexString (enc v) \<or>
    prefix (hexString p @ hexString (enc v)) (hexString (p @ enc w @ q) @ s)"
proof -
  have n: "v_T w \<noteq> TypeNull" by (rule matches_nonnull [OF assms(1)])
  have "sortCompare X w v \<le> 0" using assms(1,2) Compare_same [of w v X] n by (auto simp: matches_def)
  with enc_le [of w v X] assms n have "enc w = enc v \<or> (\<forall>s t. follows s \<longrightarrow> enc w @ s < enc v @ t)" by (auto simp: matches_def)
  with assms(4) have "enc w = enc v \<or> enc w @ q < enc v @ []" by blast
  then show ?thesis
  proof
    assume "enc w = enc v"
    then show ?thesis by simp
  next
    assume "enc w @ q < enc v @ []"
    then have "p @ enc w @ q < p @ enc v" by (simp add: append_less_cancel)
    from hex_less [OF this] assms(5) show ?thesis by (simp add: keyTail_def)
  qed
qed

lemma those_map_hexOf: "list_all keyable vs \<Longrightarrow> those (map hexOf vs) = Some (map (\<lambda>v. hexString (enc v)) vs)"
  by (induction vs) (simp_all add: hexOf_enc)

lemma buildRanges_covers:
  assumes cons: "consHold X sc r cons" and built: "buildRanges cols cons = Some (ranges, n)"
    and key: "list_all keyable (map (rowGet r) cols)" "list_all canonical (map (rowGet r) cols)" and s: "keyTail s"
  shows "\<exists>rg \<in> set ranges. inRange rg (hexString (encs (map (rowGet r) cols)) @ s)"
proof -
  obtain vs rst where pre: "eqPrefix cols cons = (vs, rst)" by (cases "eqPrefix cols cons")
  from eqPrefix_split [OF cons pre key(1)] obtain cs where cs: "cols = cs @ rst" "length cs = length vs"
    "encs vs = encs (map (rowGet r) cs)" "list_all keyable vs" by blast
  let ?p = "encs vs" and ?c = "case rst of [] \<Rightarrow> noConstraint | cn # _ \<Rightarrow> getC cons cn"
  have P: "encodeKey vs = Inr (hexString ?p)" using cs(4) by (simp add: encodeKey_enc encs_def)
  have K: "encs (map (rowGet r) cols) = ?p @ encs (map (rowGet r) rst)" using cs by simp
  note B = built [unfolded buildRanges_def pre Let_def split_beta fst_conv snd_conv P sum.case]
  show ?thesis
  proof (cases "?c = noConstraint \<or> rst = []")
    case True
    then have "?c = noConstraint" by auto
    with B have "ranges = [prefixRange (hexString ?p)]" by (auto simp: noConstraint_def split: if_splits)
    then show ?thesis by (simp add: K inRange_prefix)
  next
    case False
    then obtain cn rst' where rst: "rst = cn # rst'" "?c = getC cons cn" by (cases rst) auto
    let ?w = "rowGet r cn" and ?q = "encs (map (rowGet r) rst')"
    have w: "keyable ?w" "canonical ?w" "follows ?q" using key cs(1) rst follows_encs [of "map (rowGet r) rst'" "[]"] by (simp_all add: follows_def)
    have K': "encs (map (rowGet r) cols) = ?p @ enc ?w @ ?q" using K rst by simp
    have H: "holds X ?w (getC cons cn)" by (rule holds_getC [OF cons])
    show ?thesis
    proof (cases "cc_in (getC cons cn)")
      case (Some vals)
      with H obtain v where v: "v \<in> set vals" "matches X ?w (\<lambda>d. d = 0) v" and all: "list_all (matches X ?w (\<lambda>d. True)) vals"
        by (auto simp: holds_def list_ex_iff)
      have kv: "list_all keyable vals" using all matches_keyable [OF _ w(1)] by (auto simp: list_all_iff)
      have R: "ranges = map (\<lambda>h. prefixRange (hexString ?p @ h)) (remdups_adj (sort (map (\<lambda>v. hexString (enc v)) vals)))"
        using B Some rst(2) by (simp add: those_map_hexOf [OF kv])
      have "prefix (hexString ?p @ hexString (enc v)) (hexString (?p @ enc ?w @ ?q) @ s)"
        using matches_equal [OF v(2) w(1)] by simp
      from inRange_prefix [OF this] v(1) show ?thesis unfolding R K' by auto
    next
      case None
      show ?thesis
      proof (cases "cc_lo (getC cons cn) = None \<and> cc_hi (getC cons cn) = None")
        case True
        with B None rst(2) have "ranges = [prefixRange (hexString ?p)]" by (auto split: if_splits)
        then show ?thesis by (simp add: K inRange_prefix)
      next
        case False
        then have "cc_lo (getC cons cn) \<noteq> None \<or> cc_hi (getC cons cn) \<noteq> None" by simp
        with B None rst(2) obtain lo hi where b: "boundHex (hexString ?p) (cc_lo (getC cons cn)) = Some lo"
            "boundHex (hexString ?p) (cc_hi (getC cons cn)) = Some hi" "ranges = [\<lparr>kr_start = lo, kr_end = prefixEnd hi\<rparr>]"
          by (auto split: option.splits if_splits)
        have "lo \<le> hexString (?p @ enc ?w @ ?q) @ s"
        proof (cases "cc_lo (getC cons cn)")
          case (Some v)
          then have m: "matches X ?w (\<lambda>d. d \<ge> 0) v" using H by (simp add: holds_def)
          with b(1) Some matches_keyable [OF m w(1)] have "lo = hexString ?p @ hexString (enc v)" by (simp add: boundHex_def hexOf_enc)
          with bound_lo [OF m w(1,2)] show ?thesis by simp
        qed (use b(1) in \<open>simp add: boundHex_def prefix_imp_le\<close>)
        moreover have "prefixEnd hi = [] \<or> hexString (?p @ enc ?w @ ?q) @ s < prefixEnd hi"
        proof (cases "cc_hi (getC cons cn)")
          case (Some v)
          then have m: "matches X ?w (\<lambda>d. d \<le> 0) v" using H by (simp add: holds_def)
          with b(2) Some matches_keyable [OF m w(1)] have "hi = hexString ?p @ hexString (enc v)" by (simp add: boundHex_def hexOf_enc)
          with less_prefixEnd [OF bound_hi [OF m w s]] show ?thesis by simp
        qed (use b(2) less_prefixEnd [of "hexString (?p @ enc ?w @ ?q) @ s" "hexString ?p"] in \<open>simp add: boundHex_def\<close>)
        ultimately show ?thesis unfolding K' b(3) by (simp add: inRange_def)
      qed
    qed
  qed
qed

end
