(* ===== verification/SQL_Scan.thy ===== *)
theory SQL_Scan
  imports SQL_Range
begin

text \<open>
  Planned scans: on every store that keeps the contract and every well-formed table, the scan of a plan answers each row
  that the WHERE clause accepts. The one flaw: ranges of an IN list may overlap, and then a row is answered twice.
\<close>

section \<open>Ranged listings\<close>

text \<open>The cursor below an inclusive start: no key without the byte 0xFF lies between.\<close>

lemma decrementKey_less:
  assumes "start \<noteq> []" "last start \<noteq> 0" "list_all (\<lambda>c. c \<noteq> 0xFF) x"
  shows "decrementKey start < x \<longleftrightarrow> start \<le> x"
  using assms
proof (induction start arbitrary: x)
  case (Cons b bs)
  show ?case
  proof (cases "bs = []")
    case True
    then have d: "decrementKey (b # bs) = [b - 1, 0xFF]" by (simp add: decrementKey_def)
    have "unat (b - 1) = unat b - 1" "0 < unat b" using Cons.prems(2) True by (simp_all add: unat_minus_one unat_gt_0)
    then have b: "b - 1 < c \<longleftrightarrow> b \<le> c" for c by (auto simp: word_less_nat_alt word_le_nat_alt)
    show ?thesis
    proof (cases x)
      case (Cons c cs)
      have "\<not> [0xFF] < cs"
      proof (cases cs)
        case (Cons e es)
        then have "e \<noteq> 0xFF" using assms(3) Cons.prems \<open>x = c # cs\<close> by simp
        moreover have "e \<le> 0xFF" using unsigned_less [of e, where 'a = nat] by (simp add: word_le_nat_alt)
        ultimately show ?thesis using Cons by (simp add: not_less)
      qed simp
      then show ?thesis using Cons True d b by (auto simp: less_le)
    qed (simp add: d)
  next
    case False
    then have "decrementKey (b # bs) = b # decrementKey bs" by (simp add: decrementKey_def)
    with Cons False show ?thesis by (cases x) (auto simp: less_le)
  qed
qed simp

lemma hexDigit_below: "hexDigit a \<noteq> 0xFF \<and> hexDigit a \<noteq> 0" if "a < 16"
  using that by (auto simp: hexDigit_def word_less_nat_alt word_unat_eq_iff unat_word_ariths)

lemma hexString_bytes: "c \<in> set (hexString b) \<Longrightarrow> c \<noteq> 0xFF \<and> c \<noteq> 0"
  using hexDigit_below [OF nibble_bounds(1)] hexDigit_below [OF nibble_bounds(2)] by (induction b) auto

definition plainKeys :: "bytes \<Rightarrow> (bytes \<times> bytes) list \<Rightarrow> bool" where
  "plainKeys p L \<longleftrightarrow> (\<forall>(k, v) \<in> set L. prefix p k \<and> list_all (\<lambda>c. c \<noteq> 0xFF) (drop (length p) k))"

definition plainRange :: "keyRange \<Rightarrow> bool" where
  "plainRange r \<longleftrightarrow> (kr_start r \<noteq> [] \<longrightarrow> last (kr_start r) \<noteq> 0)"

lemma decrementKey_append: "start \<noteq> [] \<Longrightarrow> decrementKey (p @ start) = p @ decrementKey start"
  by (simp add: decrementKey_def butlast_append)

context kv_store
begin

lemma listRange_entries:
  assumes "ok s" "p \<noteq> []" "sorted_keys L" "set L = above (view s) p []" "plainKeys p L" "plainRange r"
  shows "listRange S s p r fn acc = Some (foldE (\<lambda>acc (k, v). fn acc k v) acc (filter (\<lambda>(k, v). inRange r (drop (length p) k)) L))"
proof -
  define c where "c = (if kr_start r \<noteq> [] then decrementKey (p @ kr_start r) else [])"
  define e where "e = (if kr_end r \<noteq> [] then p @ kr_end r else [])"
  let ?L = "filter (\<lambda>(k, v). c = [] \<or> c < k) L"
  have a: "set ?L = above (view s) p c" using assms(4) by (auto simp: above_def)
  have b: "sorted_keys ?L" using assms(3) by (simp add: sorted_wrt_filter sorted_wrt_map)
  have loop: "listRange S s p r fn acc = Some (foldE (\<lambda>acc (k, v). fn acc k v) acc (filter (\<lambda>(k, v). e = [] \<or> k < e) ?L))"
    unfolding listRange_def c_def [symmetric] e_def [symmetric] by (rule pagesLoop_entries [OF assms(1,2) b a])
  have "(e = [] \<or> k < e) \<and> (c = [] \<or> c < k) \<longleftrightarrow> inRange r (drop (length p) k)" if "(k, v) \<in> set L" for k v
  proof -
    from that obtain x where k: "k = p @ x" and x: "list_all (\<lambda>c. c \<noteq> 0xFF) x" using assms(5) by (auto simp: plainKeys_def prefix_def)
    have "c = [] \<or> c < k \<longleftrightarrow> kr_start r \<le> x"
    proof (cases "kr_start r = []")
      case False
      then have "c = p @ decrementKey (kr_start r)" by (simp add: c_def decrementKey_append)
      with False assms(2,6) decrementKey_less [OF False _ x] show ?thesis by (simp add: k plainRange_def append_less_cancel)
    qed (simp add: c_def)
    moreover have "e = [] \<or> k < e \<longleftrightarrow> kr_end r = [] \<or> x < kr_end r" using assms(2) by (auto simp: k e_def append_less_cancel)
    ultimately show ?thesis by (auto simp: inRange_def k)
  qed
  then have "filter (\<lambda>(k, v). e = [] \<or> k < e) ?L = filter (\<lambda>(k, v). inRange r (drop (length p) k)) L"
    unfolding filter_filter by (intro filter_cong) auto
  with loop show ?thesis by simp
qed

lemma rangesLoop_entries:
  assumes "ok s" "p \<noteq> []" "sorted_keys L" "set L = above (view s) p []" "plainKeys p L" "list_all plainRange rs"
  shows "rangesLoop S s p fn rs acc =
    Some (foldE (\<lambda>acc (k, v). fn acc k v) acc (List.concat (map (\<lambda>r. filter (\<lambda>(k, v). inRange r (drop (length p) k)) L) rs)))"
  using assms(6)
proof (induction rs arbitrary: acc)
  case (Cons r rs)
  then have "plainRange r" by simp
  note lr = listRange_entries [OF assms(1-5) this, of fn acc]
  show ?case
    using Cons by (cases "foldE (\<lambda>acc (k, v). fn acc k v) acc (filter (\<lambda>(k, v). inRange r (drop (length p) k)) L)")
      (simp_all add: lr foldE_append)
qed simp

end

section \<open>Well-formed tables\<close>

definition storedAt :: "sqlenv \<Rightarrow> jsonenv \<Rightarrow> bytes \<Rightarrow> tableSchema \<Rightarrow> (bytes \<rightharpoonup> bytes) \<Rightarrow> bytes \<Rightarrow> rowmap \<Rightarrow> bool" where
  "storedAt X J db sc m pkhex r \<longleftrightarrow> (\<exists>raw. m (rowKey db (sc_Name sc) pkhex) = Some raw \<and> decodeRow X J raw = Inr r)"

definition rowsOK :: "sqlenv \<Rightarrow> jsonenv \<Rightarrow> bytes \<Rightarrow> tableSchema \<Rightarrow> (bytes \<rightharpoonup> bytes) \<Rightarrow> bool" where
  "rowsOK X J db sc m \<longleftrightarrow> (\<forall>k v. m k = Some v \<longrightarrow> prefix (tablePrefix db (sc_Name sc)) k \<longrightarrow>
     (\<exists>pk r. k = rowKey db (sc_Name sc) (hexString pk) \<and> decodeRow X J v = Inr r \<and> typedRow sc r \<and>
       (hasPK sc \<longrightarrow> encodeKey (map (rowGet r) (sc_PK sc)) = Inr (hexString pk))))"

definition indexOK :: "sqlenv \<Rightarrow> jsonenv \<Rightarrow> bytes \<Rightarrow> tableSchema \<Rightarrow> (bytes \<rightharpoonup> bytes) \<Rightarrow> indexDef \<Rightarrow> bool" where
  "indexOK X J db sc m idx \<longleftrightarrow> (\<forall>pkhex r. storedAt X J db sc m pkhex r \<longrightarrow> (\<exists>kh. indexKeyHex idx r = Inr kh)) \<and> (\<forall>k v. m k = Some v \<and> prefix (oneIndexPrefix db (sc_Name sc) (ix_Name idx)) k \<longleftrightarrow>
     (\<exists>r kh. k = indexEntryKey db (sc_Name sc) (ix_Name idx) kh v \<and> storedAt X J db sc m v r \<and> indexKeyHex idx r = Inr kh))"

definition tableOK :: "sqlenv \<Rightarrow> jsonenv \<Rightarrow> bytes \<Rightarrow> tableSchema \<Rightarrow> (bytes \<rightharpoonup> bytes) \<Rightarrow> bool" where
  "tableOK X J db sc m \<longleftrightarrow> rowsOK X J db sc m \<and> (\<forall>idx \<in> set (sc_Indexes sc). indexOK X J db sc m idx)"

section \<open>The scan of a plan\<close>

lemma encodeKey_hex: "encodeKey vs = Inr h \<Longrightarrow> \<exists>b. h = hexString b"
  by (auto simp: encodeKey_def split: sum.splits)

lemma hexOf_hex: "hexOf v = Some h \<Longrightarrow> \<exists>b. h = hexString b"
  by (auto simp: hexOf_def split: sum.splits dest: encodeKey_hex)

lemma last_hex: "hexString b \<noteq> [] \<Longrightarrow> last (hexString b) \<noteq> 0"
  using hexString_bytes [of "last (hexString b)" b] by simp

lemma plainRange_hex: "kr_start r = hexString b \<Longrightarrow> plainRange r"
  using last_hex [of b] by (simp add: plainRange_def)

lemma those_hexOf_members: "those (map hexOf vs) = Some hs \<Longrightarrow> h \<in> set hs \<Longrightarrow> \<exists>b. h = hexString b"
  by (induction vs arbitrary: hs) (auto split: option.splits dest: hexOf_hex)

lemma buildRanges_plain:
  assumes "buildRanges cols cons = Some (ranges, n)"
  shows "list_all plainRange ranges"
proof -
  obtain vs rst where pre: "eqPrefix cols cons = (vs, rst)" by (cases "eqPrefix cols cons")
  then obtain h where P: "encodeKey vs = Inr h" using assms by (cases "encodeKey vs") (auto simp: buildRanges_def)
  from encodeKey_hex [OF P] obtain b where h: "h = hexString b" ..
  define c where "c = (case rst of [] \<Rightarrow> noConstraint | cn # _ \<Rightarrow> getC cons cn)"
  note B = assms [unfolded buildRanges_def pre Let_def split_beta fst_conv snd_conv P sum.case c_def [symmetric]]
  have plain: "plainRange r" if "kr_start r = h @ hexString b'" for r b'
    using that plainRange_hex [of r "b @ b'"] by (simp add: h)
  have bound: "\<exists>b'. lo = h @ hexString b'" if "boundHex h v = Some lo" for v lo
    using that by (cases v) (auto simp: boundHex_def dest: hexOf_hex intro: exI [of _ "[]"])
  show ?thesis
  proof (cases "cc_in c")
    case (Some vals)
    with B obtain hs where hs: "those (map hexOf vals) = Some hs" "ranges = map (\<lambda>x. prefixRange (h @ x)) (remdups_adj (sort hs))"
      by (auto split: option.splits)
    show ?thesis unfolding list_all_iff hs(2) using those_hexOf_members [OF hs(1)] by (fastforce simp: prefixRange_def intro: plain)
  next
    case None
    with B bound [of "cc_lo c"] plain plainRange_hex [of "prefixRange h" b] show ?thesis
      by (auto simp: prefixRange_def h split: if_splits option.splits)
  qed
qed

definition planKey :: "tableSchema \<Rightarrow> indexDef option \<Rightarrow> bytes list \<Rightarrow> bool" where
  "planKey sc idx cols \<longleftrightarrow> typedKey sc cols \<and>
     (case idx of None \<Rightarrow> hasPK sc \<and> cols = sc_PK sc | Some i \<Rightarrow> i \<in> set (sc_Indexes sc) \<and> cols = ix_Columns i)"

text \<open>A plan with ranges has them from the constraints on the columns of its key.\<close>

definition planned :: "tableSchema \<Rightarrow> constraints \<Rightarrow> scanPlan \<Rightarrow> bool" where
  "planned sc cons plan \<longleftrightarrow> sp_ranges plan = [] \<or>
     (\<exists>n. planKey sc (sp_index plan) (sp_keyCols plan) \<and> buildRanges (sp_keyCols plan) cons = Some (sp_ranges plan, n))"

lemma considerKey_planned:
  assumes "planned sc cons (fst best)" "case idx of None \<Rightarrow> hasPK sc \<and> cols = sc_PK sc | Some i \<Rightarrow> i \<in> set (sc_Indexes sc) \<and> cols = ix_Columns i"
  shows "planned sc cons (fst (considerKey sc cons best (idx, cols)))"
  using assms by (cases best) (auto simp: considerKey_def planned_def planKey_def split: prod.splits option.splits)

lemma planScan_planned: "planned sc (analyzeWhere U X sc w) (planScan U X sc w)"
proof -
  let ?cons = "analyzeWhere U X sc w"
  let ?cands = "(if hasPK sc then [(None, sc_PK sc)] else []) @ map (\<lambda>i. (Some i, ix_Columns i)) (sc_Indexes sc)"
  have "planned sc ?cons (fst (foldl (considerKey sc ?cons) best cs))" if "planned sc ?cons (fst best)" "set cs \<subseteq> set ?cands" for best cs
    using that
  proof (induction cs arbitrary: best)
    case (Cons x cs)
    obtain idx cols where x: "x = (idx, cols)" by (cases x)
    have "case idx of None \<Rightarrow> hasPK sc \<and> cols = sc_PK sc | Some i \<Rightarrow> i \<in> set (sc_Indexes sc) \<and> cols = ix_Columns i"
      using Cons.prems(2) x by (auto split: if_splits)
    from considerKey_planned [OF Cons.prems(1) this] Cons x show ?case by simp
  qed simp
  from this [of "(fullPlan sc, - 1, 0)" ?cands] show ?thesis by (simp add: planScan_def Let_def planned_def fullPlan_def)
qed

definition scannedRow :: "sqlenv \<Rightarrow> jsonenv \<Rightarrow> bytes \<Rightarrow> bytes \<times> bytes \<Rightarrow> storedRow" where
  "scannedRow X J p = (\<lambda>(k, v). \<lparr>sr_data = projr (decodeRow X J v), sr_pkhex = drop (length p) k\<rparr>)"

lemma mapE_rows:
  assumes "\<forall>(k, v) \<in> set L. prefix p k \<and> (\<exists>r. decodeRow X J v = Inr r)"
  shows "mapE (\<lambda>(k, v). sbind (decodeRow X J v) (\<lambda>cols. Inr \<lparr>sr_data = cols, sr_pkhex = TrimPrefix k p\<rparr>)) L = Inr (map (scannedRow X J p) L)"
proof (rule mapE_Inr)
  fix x assume "x \<in> set L"
  then obtain k v r where "x = (k, v)" "prefix p k" "decodeRow X J v = Inr r" using assms by (cases x) auto
  then show "(case x of (k, v) \<Rightarrow> sbind (decodeRow X J v) (\<lambda>cols. Inr \<lparr>sr_data = cols, sr_pkhex = TrimPrefix k p\<rparr>)) = Inr (scannedRow X J p x)"
    by (simp add: scannedRow_def TrimPrefix_def)
qed

lemma tablePrefix_nonempty [simp]: "tablePrefix db t \<noteq> []" "oneIndexPrefix db t i \<noteq> []"
  by (simp_all add: tablePrefix_def oneIndexPrefix_def)

lemma rowsOK_entries:
  assumes "rowsOK X J db sc m" "set L = above m (tablePrefix db (sc_Name sc)) []"
  shows "plainKeys (tablePrefix db (sc_Name sc)) L"
    "\<forall>(k, v) \<in> set L. prefix (tablePrefix db (sc_Name sc)) k \<and> (\<exists>r. decodeRow X J v = Inr r)"
proof -
  have ok: "\<exists>pk r. k = rowKey db (sc_Name sc) (hexString pk) \<and> decodeRow X J v = Inr r" "prefix (tablePrefix db (sc_Name sc)) k"
    if "(k, v) \<in> set L" for k v
  proof -
    from that assms(2) have kv: "m k = Some v" "prefix (tablePrefix db (sc_Name sc)) k" by (auto simp: above_def)
    with assms(1) show "\<exists>pk r. k = rowKey db (sc_Name sc) (hexString pk) \<and> decodeRow X J v = Inr r" unfolding rowsOK_def by blast
    show "prefix (tablePrefix db (sc_Name sc)) k" by (rule kv(2))
  qed
  show "plainKeys (tablePrefix db (sc_Name sc)) L"
    unfolding plainKeys_def using ok hexString_bytes by (fastforce simp: rowKey_def list_all_iff)
  show "\<forall>(k, v) \<in> set L. prefix (tablePrefix db (sc_Name sc)) k \<and> (\<exists>r. decodeRow X J v = Inr r)" using ok by blast
qed

context kv_store
begin

lemma scan_rows:
  assumes "ok s" "rowsOK X J db sc (view s)" "sorted_keys L" "set L = above (view s) (tablePrefix db (sc_Name sc)) []"
  shows "scan X J S s db sc = Some (Inr (map (scannedRow X J (tablePrefix db (sc_Name sc))) L))"
  unfolding scan_def Let_def pagesLoop_entries [OF assms(1) tablePrefix_nonempty(1) assms(3,4)] foldE_addRow
  using mapE_rows [OF rowsOK_entries(2) [OF assms(2,4)]] by simp

lemma scanTableRanges_rows:
  assumes "ok s" "rowsOK X J db sc (view s)" "sorted_keys L" "set L = above (view s) (tablePrefix db (sc_Name sc)) []" "list_all plainRange rs"
  shows "scanTableRanges X J S s db sc rs = Some (Inr (map (scannedRow X J (tablePrefix db (sc_Name sc)))
    (List.concat (map (\<lambda>r. filter (\<lambda>(k, v). inRange r (drop (length (tablePrefix db (sc_Name sc))) k)) L) rs))))"
proof -
  let ?p = "tablePrefix db (sc_Name sc)"
  let ?es = "List.concat (map (\<lambda>r. filter (\<lambda>(k, v). inRange r (drop (length ?p) k)) L) rs)"
  note ok = rowsOK_entries [OF assms(2,4)]
  have "\<forall>(k, v) \<in> set ?es. prefix ?p k \<and> (\<exists>r. decodeRow X J v = Inr r)" using ok(2) by auto
  from mapE_rows [OF this] show ?thesis
    unfolding scanTableRanges_def Let_def rangesLoop_entries [OF assms(1) tablePrefix_nonempty(1) assms(3,4) ok(1) assms(5)] foldE_addRow
    by simp
qed

end

lemma plan_covers:
  assumes key: "planKey sc idx cols" and built: "buildRanges cols cons = Some (ranges, n)"
    and r: "typedRow sc r" "consHold X sc r cons" and enc: "encodeKey (map (rowGet r) cols) = Inr kh" and t: "keyTail t"
  shows "\<exists>rg \<in> set ranges. inRange rg (kh @ t)"
proof -
  have ks: "list_all keyable (map (rowGet r) cols)" by (rule encodeKey_keyable [OF enc])
  then have kh: "kh = hexString (encs (map (rowGet r) cols))" using enc by (simp add: encodeKey_enc encs_def)
  have "canonical (rowGet r cn)" if "cn \<in> set cols" for cn
  proof -
    from that key obtain c where "col sc cn = Some c" by (auto simp: planKey_def typedKey_def split: option.splits)
    with col_Some [OF this] r(1) show ?thesis by (auto simp: typedRow_def Let_def)
  qed
  then have "list_all canonical (map (rowGet r) cols)" by (simp add: list_all_iff)
  from buildRanges_covers [OF r(2) built ks this t] show ?thesis by (simp add: kh)
qed

definition sound :: "sqlenv \<Rightarrow> tableSchema \<Rightarrow> constraints \<Rightarrow> storedRow list \<Rightarrow> storedRow list \<Rightarrow> bool" where
  "sound X sc cons all rows \<longleftrightarrow> set rows \<subseteq> set all \<and> (\<forall>x \<in> set all. consHold X sc (sr_data x) cons \<longrightarrow> x \<in> set rows)"

lemma mem_map: "y \<in> set ys \<Longrightarrow> x = f y \<Longrightarrow> x \<in> set (map f ys)"
  by simp

definition indexRow :: "sqlenv \<Rightarrow> jsonenv \<Rightarrow> bytes \<Rightarrow> tableSchema \<Rightarrow> (bytes \<rightharpoonup> bytes) \<Rightarrow> bytes \<times> bytes \<Rightarrow> storedRow" where
  "indexRow X J db sc m = (\<lambda>(k, v). \<lparr>sr_data = projr (decodeRow X J (the (m (rowKey db (sc_Name sc) v)))), sr_pkhex = v\<rparr>)"

lemma indexOK_lookup:
  assumes "indexOK X J db sc m idx" "storedAt X J db sc m pk r" "indexKeyHex idx r = Inr kh"
  shows "m (indexEntryKey db (sc_Name sc) (ix_Name idx) kh pk) = Some pk"
proof -
  let ?k = "indexEntryKey db (sc_Name sc) (ix_Name idx) kh pk"
  have "\<exists>r kh'. ?k = indexEntryKey db (sc_Name sc) (ix_Name idx) kh' pk \<and> storedAt X J db sc m pk r \<and> indexKeyHex idx r = Inr kh'"
    using assms(2,3) by blast
  with assms(1) [unfolded indexOK_def, THEN conjunct2, THEN spec [of _ ?k], THEN spec [of _ pk]] show ?thesis by (rule_tac conjunct1) (rule iffD2)
qed

lemma indexOK_entry:
  assumes "rowsOK X J db sc m" "indexOK X J db sc m idx" "m k = Some v" "prefix (oneIndexPrefix db (sc_Name sc) (ix_Name idx)) k"
  obtains r kh where "k = oneIndexPrefix db (sc_Name sc) (ix_Name idx) @ kh @ str ''/'' @ v" "storedAt X J db sc m v r"
    "indexKeyHex idx r = Inr kh" "list_all (\<lambda>c. c \<noteq> 0xFF) (kh @ str ''/'' @ v)"
proof -
  from assms(2-4) obtain r kh where e: "k = indexEntryKey db (sc_Name sc) (ix_Name idx) kh v" "storedAt X J db sc m v r" "indexKeyHex idx r = Inr kh"
    unfolding indexOK_def by blast
  from e(3) obtain b where "kh = hexString b" using encodeKey_hex by (auto simp: indexKeyHex_def)
  moreover obtain raw where raw: "m (rowKey db (sc_Name sc) v) = Some raw" using e(2) by (auto simp: storedAt_def)
  have "prefix (tablePrefix db (sc_Name sc)) (rowKey db (sc_Name sc) v)" by (simp add: rowKey_def)
  with raw assms(1) obtain pk where "rowKey db (sc_Name sc) v = rowKey db (sc_Name sc) (hexString pk)" unfolding rowsOK_def by blast
  then have "v = hexString pk" by (simp add: rowKey_def)
  ultimately have "list_all (\<lambda>c. c \<noteq> 0xFF) (kh @ str ''/'' @ v)" using hexString_bytes by (auto simp: list_all_iff)
  with e show thesis by (intro that [of kh r]) (simp_all add: indexEntryKey_def)
qed

context kv_store
begin

lemma foldE_fetch:
  assumes "ok s" "\<forall>(k, v) \<in> set L. \<exists>r. storedAt X J db sc (view s) v r"
  shows "foldE (\<lambda>acc (k, v). fetchRow X J S s db sc acc k v) out L = Inr (out @ map (indexRow X J db sc (view s)) L)"
  using assms(2)
proof (induction L arbitrary: out)
  case (Cons x L)
  obtain k v where x: "x = (k, v)" by (cases x)
  with Cons.prems obtain raw r where "view s (rowKey db (sc_Name sc) v) = Some raw" "decodeRow X J raw = Inr r" by (auto simp: storedAt_def)
  with Cons x show ?case by (simp add: fetchRow_def get [OF assms(1)] indexRow_def)
qed simp

lemma scanIndexRanges_rows:
  assumes "ok s" "rowsOK X J db sc (view s)" "indexOK X J db sc (view s) idx" "sorted_keys L"
    "set L = above (view s) (oneIndexPrefix db (sc_Name sc) (ix_Name idx)) []" "list_all plainRange rs"
  shows "scanIndexRanges X J S s db sc idx rs = Some (Inr (map (indexRow X J db sc (view s))
    (List.concat (map (\<lambda>r. filter (\<lambda>(k, v). inRange r (drop (length (oneIndexPrefix db (sc_Name sc) (ix_Name idx))) k)) L) rs))))"
proof -
  let ?p = "oneIndexPrefix db (sc_Name sc) (ix_Name idx)"
  have ent: "view s k = Some v" "prefix ?p k" if "(k, v) \<in> set L" for k v using that assms(5) by (auto simp: above_def)
  have stored: "\<exists>r. storedAt X J db sc (view s) v r" if "(k, v) \<in> set L" for k v
    using indexOK_entry [OF assms(2,3) ent [OF that]] by blast
  have "list_all (\<lambda>c. c \<noteq> 0xFF) (drop (length ?p) k)" if "(k, v) \<in> set L" for k v
    using indexOK_entry [OF assms(2,3) ent [OF that]] by (metis append_eq_conv_conj)
  then have plain: "plainKeys ?p L" unfolding plainKeys_def using ent by blast
  let ?es = "List.concat (map (\<lambda>r. filter (\<lambda>(k, v). inRange r (drop (length ?p) k)) L) rs)"
  have "rangesLoop S s ?p (fetchRow X J S s db sc) rs [] = Some (foldE (\<lambda>acc (k, v). fetchRow X J S s db sc acc k v) [] ?es)"
    by (rule rangesLoop_entries [OF assms(1) tablePrefix_nonempty(2) assms(4,5) plain assms(6)])
  moreover have "\<forall>(k, v) \<in> set ?es. \<exists>r. storedAt X J db sc (view s) v r" using stored by auto
  ultimately show ?thesis unfolding scanIndexRanges_def by (simp add: foldE_fetch [OF assms(1)])
qed

text \<open>What a row of the full scan is.\<close>

lemma scan_row:
  assumes "ok s" "rowsOK X J db sc (view s)" "scan X J S s db sc = Some (Inr all)" "x \<in> set all"
  obtains raw where "x = \<lparr>sr_data = sr_data x, sr_pkhex = sr_pkhex x\<rparr>" "view s (tablePrefix db (sc_Name sc) @ sr_pkhex x) = Some raw"
    "decodeRow X J raw = Inr (sr_data x)" "typedRow sc (sr_data x)"
    "hasPK sc \<longrightarrow> encodeKey (map (rowGet (sr_data x)) (sc_PK sc)) = Inr (sr_pkhex x)"
proof -
  let ?p = "tablePrefix db (sc_Name sc)"
  obtain L where L: "sorted_keys L" "set L = above (view s) ?p []" by (rule entries [OF assms(1) tablePrefix_nonempty(1)])
  from assms(3,4) scan_rows [OF assms(1,2) L] obtain k raw where k: "(k, raw) \<in> set L" "x = scannedRow X J ?p (k, raw)" by auto
  then have v: "view s k = Some raw" "prefix ?p k" using L(2) by (auto simp: above_def)
  from assms(2) v obtain pk r where "k = rowKey db (sc_Name sc) (hexString pk)" "decodeRow X J raw = Inr r" "typedRow sc r"
    "hasPK sc \<longrightarrow> encodeKey (map (rowGet r) (sc_PK sc)) = Inr (hexString pk)" unfolding rowsOK_def by blast
  with k v show thesis by (intro that [of raw]) (simp_all add: scannedRow_def rowKey_def)
qed

lemma scan_stored:
  assumes "ok s" "rowsOK X J db sc (view s)" "scan X J S s db sc = Some (Inr all)" "storedAt X J db sc (view s) pk r"
  shows "\<lparr>sr_data = r, sr_pkhex = pk\<rparr> \<in> set all"
proof -
  let ?p = "tablePrefix db (sc_Name sc)"
  obtain L where L: "sorted_keys L" "set L = above (view s) ?p []" by (rule entries [OF assms(1) tablePrefix_nonempty(1)])
  from assms(4) obtain raw where raw: "view s (?p @ pk) = Some raw" "decodeRow X J raw = Inr r" by (auto simp: storedAt_def rowKey_def)
  then have "(?p @ pk, raw) \<in> set L" using L(2) by (simp add: above_def)
  moreover have "\<lparr>sr_data = r, sr_pkhex = pk\<rparr> = scannedRow X J ?p (?p @ pk, raw)" using raw(2) by (simp add: scannedRow_def)
  ultimately have "\<lparr>sr_data = r, sr_pkhex = pk\<rparr> \<in> set (map (scannedRow X J ?p) L)" by (rule mem_map)
  then show ?thesis using scan_rows [OF assms(1,2) L] assms(3) by simp
qed

text \<open>The scan of a plan answers rows of the table, and every row its constraints hold of.\<close>

lemma tableRanges_sound:
  assumes "ok s" "rowsOK X J db sc (view s)" "scan X J S s db sc = Some (Inr all)"
    and key: "planKey sc None cols" and built: "buildRanges cols cons = Some (ranges, n)"
  shows "\<exists>rows. scanTableRanges X J S s db sc ranges = Some (Inr rows) \<and> sound X sc cons all rows"
proof -
  let ?p = "tablePrefix db (sc_Name sc)"
  obtain L where L: "sorted_keys L" "set L = above (view s) ?p []" by (rule entries [OF assms(1) tablePrefix_nonempty(1)])
  have all: "all = map (scannedRow X J ?p) L" using scan_rows [OF assms(1,2) L] assms(3) by simp
  let ?es = "List.concat (map (\<lambda>r. filter (\<lambda>(k, v). inRange r (drop (length ?p) k)) L) ranges)"
  have "x \<in> set (map (scannedRow X J ?p) ?es)" if x: "x \<in> set all" "consHold X sc (sr_data x) cons" for x
  proof -
    from scan_row [OF assms(1-3) x(1)] obtain raw where r: "x = \<lparr>sr_data = sr_data x, sr_pkhex = sr_pkhex x\<rparr>"
      "view s (?p @ sr_pkhex x) = Some raw" "decodeRow X J raw = Inr (sr_data x)" "typedRow sc (sr_data x)"
      "hasPK sc \<longrightarrow> encodeKey (map (rowGet (sr_data x)) (sc_PK sc)) = Inr (sr_pkhex x)" by blast
    have "encodeKey (map (rowGet (sr_data x)) cols) = Inr (sr_pkhex x)" using r(5) key by (simp add: planKey_def)
    from plan_covers [OF key built r(4) x(2) this, of "[]"] r(2) L(2) have "(?p @ sr_pkhex x, raw) \<in> set ?es"
      by (auto simp: keyTail_def above_def)
    moreover have "x = scannedRow X J ?p (?p @ sr_pkhex x, raw)" using r(1,3) by (simp add: scannedRow_def)
    ultimately show ?thesis by (rule mem_map)
  qed
  moreover have "set (map (scannedRow X J ?p) ?es) \<subseteq> set all" by (auto simp: all)
  ultimately show ?thesis using scanTableRanges_rows [OF assms(1,2) L buildRanges_plain [OF built]] by (auto simp: sound_def)
qed

lemma indexRanges_sound:
  assumes "ok s" "rowsOK X J db sc (view s)" "scan X J S s db sc = Some (Inr all)" and iok: "indexOK X J db sc (view s) idx"
    and key: "planKey sc (Some idx) cols" and built: "buildRanges cols cons = Some (ranges, n)"
  shows "\<exists>rows. scanIndexRanges X J S s db sc idx ranges = Some (Inr rows) \<and> sound X sc cons all rows"
proof -
  let ?q = "oneIndexPrefix db (sc_Name sc) (ix_Name idx)"
  obtain K where K: "sorted_keys K" "set K = above (view s) ?q []" by (rule entries [OF assms(1) tablePrefix_nonempty(2)])
  let ?es = "List.concat (map (\<lambda>r. filter (\<lambda>(k, v). inRange r (drop (length ?q) k)) K) ranges)"
  have "indexRow X J db sc (view s) (k, v) \<in> set all" if "(k, v) \<in> set K" for k v
  proof -
    have "view s k = Some v" "prefix ?q k" using that K(2) by (auto simp: above_def)
    from indexOK_entry [OF assms(2) iok this] obtain r where st: "storedAt X J db sc (view s) v r" by blast
    then have "indexRow X J db sc (view s) (k, v) = \<lparr>sr_data = r, sr_pkhex = v\<rparr>" by (auto simp: indexRow_def storedAt_def)
    with scan_stored [OF assms(1-3) st] show ?thesis by simp
  qed
  then have "set (map (indexRow X J db sc (view s)) ?es) \<subseteq> set all" by auto
  moreover have "x \<in> set (map (indexRow X J db sc (view s)) ?es)" if x: "x \<in> set all" "consHold X sc (sr_data x) cons" for x
  proof -
    from scan_row [OF assms(1-3) x(1)] obtain raw where r: "x = \<lparr>sr_data = sr_data x, sr_pkhex = sr_pkhex x\<rparr>"
      "view s (tablePrefix db (sc_Name sc) @ sr_pkhex x) = Some raw" "decodeRow X J raw = Inr (sr_data x)" "typedRow sc (sr_data x)" by blast
    then have st: "storedAt X J db sc (view s) (sr_pkhex x) (sr_data x)" by (auto simp: storedAt_def rowKey_def)
    from iok st obtain kh where kh: "indexKeyHex idx (sr_data x) = Inr kh" unfolding indexOK_def by blast
    let ?k = "?q @ kh @ str ''/'' @ sr_pkhex x"
    from indexOK_lookup [OF iok st kh] have "(?k, sr_pkhex x) \<in> set K" using K(2) by (simp add: above_def indexEntryKey_def)
    moreover have "encodeKey (map (rowGet (sr_data x)) cols) = Inr kh" using kh key by (simp add: indexKeyHex_def planKey_def)
    from plan_covers [OF key built r(4) x(2) this, of "str ''/'' @ sr_pkhex x"]
    have "\<exists>rg \<in> set ranges. inRange rg (kh @ str ''/'' @ sr_pkhex x)" by (simp add: keyTail_def)
    ultimately have "(?k, sr_pkhex x) \<in> set ?es" by auto
    moreover have "x = indexRow X J db sc (view s) (?k, sr_pkhex x)" using r(1-3) by (simp add: indexRow_def rowKey_def)
    ultimately show ?thesis by (rule mem_map)
  qed
  ultimately show ?thesis using scanIndexRanges_rows [OF assms(1,2) iok K buildRanges_plain [OF built]] by (auto simp: sound_def)
qed

lemma runPlan_sound:
  assumes "ok s" "tableOK X J db sc (view s)" "scan X J S s db sc = Some (Inr all)" "planned sc cons plan"
  shows "\<exists>rows. runPlan X J S s db sc plan = Some (Inr rows) \<and> sound X sc cons all rows"
proof (cases "sp_ranges plan = []")
  case True
  then show ?thesis using assms(3) by (simp add: runPlan_def isFullScan_def sound_def)
next
  case False
  obtain n where key: "planKey sc (sp_index plan) (sp_keyCols plan)" and built: "buildRanges (sp_keyCols plan) cons = Some (sp_ranges plan, n)"
    using assms(4) False by (auto simp: planned_def)
  have rok: "rowsOK X J db sc (view s)" using assms(2) by (simp add: tableOK_def)
  show ?thesis
  proof (cases "sp_index plan")
    case None
    with tableRanges_sound [OF assms(1) rok assms(3) key [unfolded None] built] False show ?thesis by (simp add: runPlan_def isFullScan_def)
  next
    case (Some idx)
    then have "indexOK X J db sc (view s) idx" using assms(2) key by (simp add: tableOK_def planKey_def)
    from indexRanges_sound [OF assms(1) rok assms(3) this key [unfolded Some] built] False Some show ?thesis by (simp add: runPlan_def isFullScan_def)
  qed
qed

end

end
