(* ===== verification/SQL_Table.thy ===== *)
theory SQL_Table
  imports SQL_Scan
begin

text \<open>
  Adding a row to a table and removing one, on the map of keys to values: both keep the table well-formed, and say
  which rows are stored afterwards. The keys of rows, of index entries and of the catalog lie apart when the names are
  as the parser of names leaves them.
\<close>

section \<open>Names\<close>

definition schemaOK :: "tableSchema \<Rightarrow> bool" where
  "schemaOK sc \<longleftrightarrow> 47 \<notin> set (sc_Name sc) \<and> sc_Name sc \<noteq> str ''_idx'' \<and> sc_Name sc \<noteq> str ''_catalog'' \<and>
     distinct (map ix_Name (sc_Indexes sc)) \<and> (\<forall>idx \<in> set (sc_Indexes sc). 47 \<notin> set (ix_Name idx)) \<and>
     distinct (map c_Name (sc_Columns sc)) \<and>
     (\<forall>c \<in> set (sc_Columns sc). (c_Auto c \<longrightarrow> c_Type c = TypeInt) \<and> (c_TypeName c = str ''UUID'' \<longrightarrow> c_Type c = TypeText))"

lemma cut_at_slash:
  assumes "47 \<notin> set a" "47 \<notin> set b"
  shows "a @ (47 :: byte) # x = b @ 47 # y \<longleftrightarrow> a = b \<and> x = y"
  using assms
proof (induction a arbitrary: b)
  case Nil
  then show ?case by (cases b) auto
next
  case (Cons c a)
  then show ?case by (cases b) auto
qed

lemma cut_prefix:
  assumes "47 \<notin> set a" "47 \<notin> set b"
  shows "prefix (a @ [47 :: byte]) (b @ 47 # y) \<longleftrightarrow> a = b"
proof -
  have "prefix (a @ [47]) (b @ 47 # y) \<longleftrightarrow> (\<exists>z. b @ 47 # y = a @ 47 # z)" by (auto simp: prefix_def)
  also have "\<dots> \<longleftrightarrow> a = b" using cut_at_slash [OF assms(2,1)] by auto
  finally show ?thesis .
qed

lemma hexDigit_no_slash: "a < 16 \<Longrightarrow> 47 \<noteq> hexDigit a"
  by (auto simp: hexDigit_def word_less_nat_alt word_unat_eq_iff unat_word_ariths)

lemma hex_no_slash: "47 \<notin> set (hexString b)"
  using hexDigit_no_slash [OF nibble_bounds(1)] hexDigit_no_slash [OF nibble_bounds(2)] by (induction b) simp_all

lemma indexKeyHex_hex: "indexKeyHex idx r = Inr kh \<Longrightarrow> 47 \<notin> set kh"
  using encodeKey_hex hex_no_slash by (auto simp: indexKeyHex_def)

abbreviation entryKey :: "bytes \<Rightarrow> tableSchema \<Rightarrow> indexDef \<Rightarrow> bytes \<Rightarrow> bytes \<Rightarrow> bytes" where
  "entryKey db sc idx \<equiv> indexEntryKey db (sc_Name sc) (ix_Name idx)"

abbreviation rowAt :: "bytes \<Rightarrow> tableSchema \<Rightarrow> bytes \<Rightarrow> bytes" where
  "rowAt db sc \<equiv> rowKey db (sc_Name sc)"

lemma idx_no_slash: "47 \<notin> set (str ''_idx'')" "47 \<notin> set (str ''_catalog'')"
  by simp_all

lemma key_apart:
  assumes "schemaOK sc"
  shows "\<not> prefix (tablePrefix db (sc_Name sc)) (indexEntryKey db t i kh pk)"
    and "\<not> prefix (tablePrefix db (sc_Name sc)) (catalogKey db t)"
    and "\<not> prefix (oneIndexPrefix db t i) (rowAt db sc pk)"
    and "\<not> prefix (oneIndexPrefix db t i) (catalogKey db t')"
proof -
  note s = assms [unfolded schemaOK_def]
  show "\<not> prefix (tablePrefix db (sc_Name sc)) (indexEntryKey db t i kh pk)"
    using s cut_prefix [of "sc_Name sc" "str ''_idx''"] by (simp add: tablePrefix_def indexEntryKey_def oneIndexPrefix_def indexPrefix_def)
  show "\<not> prefix (tablePrefix db (sc_Name sc)) (catalogKey db t)"
    using s cut_prefix [of "sc_Name sc" "str ''_catalog''"] by (simp add: tablePrefix_def catalogKey_def)
  have "\<not> prefix (str ''_idx'' @ 47 # x) (sc_Name sc @ 47 # y)" for x y
    using s cut_at_slash [of "sc_Name sc" "str ''_idx''"] by (auto simp: prefix_def)
  from this [of "t @ 47 # i @ [47]" pk] show "\<not> prefix (oneIndexPrefix db t i) (rowAt db sc pk)"
    by (simp add: tablePrefix_def rowKey_def oneIndexPrefix_def indexPrefix_def)
  show "\<not> prefix (oneIndexPrefix db t i) (catalogKey db t')"
    by (simp add: catalogKey_def oneIndexPrefix_def indexPrefix_def)
qed

lemma row_entry_apart: "schemaOK sc \<Longrightarrow> rowAt db sc pk \<noteq> indexEntryKey db t i kh pk'" "schemaOK sc \<Longrightarrow> indexEntryKey db t i kh pk' \<noteq> rowAt db sc pk"
  using key_apart(1) [of sc db t i kh pk'] by (metis prefixI rowKey_def)+

lemma entry_prefix:
  assumes "schemaOK sc" "idx \<in> set (sc_Indexes sc)" "idx' \<in> set (sc_Indexes sc)"
  shows "prefix (oneIndexPrefix db (sc_Name sc) (ix_Name idx)) (entryKey db sc idx' kh pk) \<longleftrightarrow> idx = idx'"
proof -
  have "47 \<notin> set (ix_Name idx)" "47 \<notin> set (ix_Name idx')" "inj_on ix_Name (set (sc_Indexes sc))"
    using assms by (auto simp: schemaOK_def distinct_map)
  then show ?thesis using cut_prefix [of "ix_Name idx" "ix_Name idx'"] assms(2,3)
    by (auto simp: indexEntryKey_def oneIndexPrefix_def indexPrefix_def inj_on_def)
qed

lemma entry_inj:
  assumes "schemaOK sc" "idx \<in> set (sc_Indexes sc)" "idx' \<in> set (sc_Indexes sc)" "47 \<notin> set kh" "47 \<notin> set kh'"
  shows "entryKey db sc idx kh pk = entryKey db sc idx' kh' pk' \<longleftrightarrow> idx = idx' \<and> kh = kh' \<and> pk = pk'"
proof
  assume eq: "entryKey db sc idx kh pk = entryKey db sc idx' kh' pk'"
  have "prefix (oneIndexPrefix db (sc_Name sc) (ix_Name idx)) (entryKey db sc idx kh pk)" by (simp add: indexEntryKey_def)
  then have "idx = idx'" using entry_prefix [OF assms(1-3)] eq by metis
  with eq cut_at_slash [OF assms(4,5)] show "idx = idx' \<and> kh = kh' \<and> pk = pk'" by (simp add: indexEntryKey_def)
qed simp

lemma rowAt_inj [simp]: "rowAt db sc pk = rowAt db sc pk' \<longleftrightarrow> pk = pk'"
  by (simp add: rowKey_def)

section \<open>Rows and entries\<close>

definition isEntry :: "bytes \<Rightarrow> tableSchema \<Rightarrow> rowmap \<Rightarrow> bytes \<Rightarrow> bytes \<Rightarrow> bool" where
  "isEntry db sc r pk k \<longleftrightarrow> (\<exists>idx \<in> set (sc_Indexes sc). \<exists>kh. indexKeyHex idx r = Inr kh \<and> k = entryKey db sc idx kh pk)"

definition dropRow :: "bytes \<Rightarrow> tableSchema \<Rightarrow> rowmap \<Rightarrow> bytes \<Rightarrow> (bytes \<rightharpoonup> bytes) \<Rightarrow> bytes \<rightharpoonup> bytes" where
  "dropRow db sc r pk m = (\<lambda>k. if k = rowAt db sc pk \<or> isEntry db sc r pk k then None else m k)"

definition putRow :: "bytes \<Rightarrow> tableSchema \<Rightarrow> rowmap \<Rightarrow> bytes \<Rightarrow> bytes \<Rightarrow> (bytes \<rightharpoonup> bytes) \<Rightarrow> bytes \<rightharpoonup> bytes" where
  "putRow db sc r pk raw m = (\<lambda>k. if isEntry db sc r pk k then Some pk else if k = rowAt db sc pk then Some raw else m k)"

lemma isEntry_not_row: "schemaOK sc \<Longrightarrow> \<not> isEntry db sc r pk (rowAt db sc pk')"
  by (auto simp: isEntry_def row_entry_apart)

lemma isEntry_entry:
  assumes "schemaOK sc" "idx \<in> set (sc_Indexes sc)" "47 \<notin> set kh"
  shows "isEntry db sc r pk (entryKey db sc idx kh pk') \<longleftrightarrow> indexKeyHex idx r = Inr kh \<and> pk = pk'"
  unfolding isEntry_def using entry_inj [OF assms(1,2) _ assms(3)] indexKeyHex_hex assms(2) by metis

lemma storedAt_dropRow:
  "schemaOK sc \<Longrightarrow> storedAt X J db sc (dropRow db sc r pk m) pk' r' \<longleftrightarrow> pk' \<noteq> pk \<and> storedAt X J db sc m pk' r'"
  by (auto simp: storedAt_def dropRow_def isEntry_not_row)

lemma storedAt_putRow:
  "schemaOK sc \<Longrightarrow> storedAt X J db sc (putRow db sc r pk raw m) pk' r' \<longleftrightarrow>
    (if pk' = pk then decodeRow X J raw = Inr r' else storedAt X J db sc m pk' r')"
  by (auto simp: storedAt_def putRow_def isEntry_not_row)

lemma storedAt_other: "schemaOK sc \<Longrightarrow> storedAt X J db sc (m(catalogKey db t := v)) pk r \<longleftrightarrow> storedAt X J db sc m pk r"
proof -
  assume "schemaOK sc"
  then have "rowAt db sc pk \<noteq> catalogKey db t" using key_apart(2) [of sc db t] by (metis prefixI rowKey_def)
  then show ?thesis by (simp add: storedAt_def)
qed

lemma storedAt_fun: "storedAt X J db sc m pk r \<Longrightarrow> storedAt X J db sc m pk r' \<Longrightarrow> r = r'"
  by (auto simp: storedAt_def)

text \<open>What a well-formed table says of a stored row.\<close>

lemma rowsOK_stored:
  assumes "rowsOK X J db sc m" "storedAt X J db sc m pk r"
  shows "typedRow sc r" "hasPK sc \<Longrightarrow> encodeKey (map (rowGet r) (sc_PK sc)) = Inr pk" "\<exists>b. pk = hexString b"
proof -
  from assms(2) obtain raw where raw: "m (rowAt db sc pk) = Some raw" "decodeRow X J raw = Inr r" by (auto simp: storedAt_def)
  moreover have "prefix (tablePrefix db (sc_Name sc)) (rowAt db sc pk)" by (simp add: rowKey_def)
  ultimately obtain pk' r' where "rowAt db sc pk = rowAt db sc (hexString pk')" "decodeRow X J raw = Inr r'" "typedRow sc r'"
    "hasPK sc \<longrightarrow> encodeKey (map (rowGet r') (sc_PK sc)) = Inr (hexString pk')" using assms(1) unfolding rowsOK_def by blast
  with raw(2) show "typedRow sc r" "hasPK sc \<Longrightarrow> encodeKey (map (rowGet r) (sc_PK sc)) = Inr pk" "\<exists>b. pk = hexString b" by auto
qed

lemma rowsOK_iff:
  "rowsOK X J db sc m \<longleftrightarrow> (\<forall>pk raw. m (rowAt db sc pk) = Some raw \<longrightarrow> (\<exists>b r. pk = hexString b \<and> decodeRow X J raw = Inr r \<and> typedRow sc r \<and>
     (hasPK sc \<longrightarrow> encodeKey (map (rowGet r) (sc_PK sc)) = Inr pk)))"
  (is "_ \<longleftrightarrow> (\<forall>pk raw. _ \<longrightarrow> ?ok pk raw)")
proof
  assume ok: "rowsOK X J db sc m"
  show "\<forall>pk raw. m (rowAt db sc pk) = Some raw \<longrightarrow> ?ok pk raw"
  proof (intro allI impI)
    fix pk raw
    assume "m (rowAt db sc pk) = Some raw"
    moreover have "prefix (tablePrefix db (sc_Name sc)) (rowAt db sc pk)" by (simp add: rowKey_def)
    ultimately show "?ok pk raw" using ok unfolding rowsOK_def by (metis rowAt_inj)
  qed
next
  assume ok: "\<forall>pk raw. m (rowAt db sc pk) = Some raw \<longrightarrow> ?ok pk raw"
  show "rowsOK X J db sc m" unfolding rowsOK_def
  proof (intro allI impI)
    fix k v
    assume kv: "m k = Some v" "prefix (tablePrefix db (sc_Name sc)) k"
    then obtain pk where k: "k = rowAt db sc pk" by (auto simp: prefix_def rowKey_def)
    with ok kv show "\<exists>pk r. k = rowAt db sc (hexString pk) \<and> decodeRow X J v = Inr r \<and> typedRow sc r \<and>
       (hasPK sc \<longrightarrow> encodeKey (map (rowGet r) (sc_PK sc)) = Inr (hexString pk))" by blast
  qed
qed

lemma rowsOK_decodes:
  assumes "rowsOK X J db sc m" "m (rowAt db sc pk) = Some raw"
  shows "\<exists>r. decodeRow X J raw = Inr r \<and> storedAt X J db sc m pk r"
  using assms unfolding rowsOK_iff storedAt_def by blast

lemma rowsOK_dropRow:
  assumes "schemaOK sc" "rowsOK X J db sc m"
  shows "rowsOK X J db sc (dropRow db sc r pk m)"
  using assms(2) unfolding rowsOK_iff by (simp add: dropRow_def isEntry_not_row [OF assms(1)])

lemma rowsOK_putRow:
  assumes "schemaOK sc" "rowsOK X J db sc m" "decodeRow X J raw = Inr r'" "typedRow sc r'" "\<exists>b. pk = hexString b"
    "hasPK sc \<Longrightarrow> encodeKey (map (rowGet r') (sc_PK sc)) = Inr pk"
  shows "rowsOK X J db sc (putRow db sc r pk raw m)"
  using assms(2-) unfolding rowsOK_iff by (auto simp: putRow_def isEntry_not_row [OF assms(1)])

lemma rowsOK_other: "schemaOK sc \<Longrightarrow> rowsOK X J db sc (m(catalogKey db t := v)) \<longleftrightarrow> rowsOK X J db sc m"
proof -
  assume "schemaOK sc"
  then have "rowAt db sc pk \<noteq> catalogKey db t" for pk using key_apart(2) [of sc db t] by (metis prefixI rowKey_def)
  then show ?thesis by (simp add: rowsOK_iff)
qed

section \<open>Indexes\<close>

text \<open>The entry of a row in one index.\<close>

definition entryOf :: "bytes \<Rightarrow> tableSchema \<Rightarrow> indexDef \<Rightarrow> rowmap \<Rightarrow> bytes \<Rightarrow> bytes \<Rightarrow> bool" where
  "entryOf db sc idx r pk k \<longleftrightarrow> (\<exists>kh. indexKeyHex idx r = Inr kh \<and> k = entryKey db sc idx kh pk)"

lemma isEntry_of: "isEntry db sc r pk k \<longleftrightarrow> (\<exists>idx \<in> set (sc_Indexes sc). entryOf db sc idx r pk k)"
  by (simp add: isEntry_def entryOf_def)

lemma entryOf_prefix: "entryOf db sc idx r pk k \<Longrightarrow> prefix (oneIndexPrefix db (sc_Name sc) (ix_Name idx)) k"
  by (auto simp: entryOf_def indexEntryKey_def)

lemma isEntry_prefix:
  assumes "schemaOK sc" "idx \<in> set (sc_Indexes sc)" "prefix (oneIndexPrefix db (sc_Name sc) (ix_Name idx)) k"
  shows "isEntry db sc r pk k \<longleftrightarrow> entryOf db sc idx r pk k"
  using assms entry_prefix [OF assms(1,2)] by (auto simp: isEntry_of) (auto simp: entryOf_def)

lemma entryOf_pk:
  assumes "entryOf db sc idx r pk k" "entryOf db sc idx r' pk' k"
  shows "pk = pk'"
proof -
  from assms obtain kh kh' where "indexKeyHex idx r = Inr kh" "indexKeyHex idx r' = Inr kh'" "kh @ 47 # pk = kh' @ 47 # pk'"
    by (auto simp: entryOf_def indexEntryKey_def)
  then show ?thesis using cut_at_slash [OF indexKeyHex_hex indexKeyHex_hex, of idx r kh idx r' kh'] by simp
qed

lemma prefix_not_row: "schemaOK sc \<Longrightarrow> prefix (oneIndexPrefix db t i) k \<Longrightarrow> k \<noteq> rowAt db sc pk"
  using key_apart(3) by metis

lemma indexOK_iff:
  "indexOK X J db sc m idx \<longleftrightarrow> (\<forall>pk r. storedAt X J db sc m pk r \<longrightarrow> (\<exists>kh. indexKeyHex idx r = Inr kh)) \<and>
    (\<forall>k v. prefix (oneIndexPrefix db (sc_Name sc) (ix_Name idx)) k \<longrightarrow>
      (m k = Some v \<longleftrightarrow> (\<exists>r. storedAt X J db sc m v r \<and> entryOf db sc idx r v k)))"
  unfolding indexOK_def using entryOf_prefix unfolding entryOf_def by blast

lemma indexOK_dropRow:
  assumes "schemaOK sc" "indexOK X J db sc m idx" "storedAt X J db sc m pk r" "idx \<in> set (sc_Indexes sc)"
  shows "indexOK X J db sc (dropRow db sc r pk m) idx"
proof -
  note I = assms(2) [unfolded indexOK_iff]
  have "dropRow db sc r pk m k = Some v \<longleftrightarrow> (\<exists>r'. storedAt X J db sc (dropRow db sc r pk m) v r' \<and> entryOf db sc idx r' v k)"
    if p: "prefix (oneIndexPrefix db (sc_Name sc) (ix_Name idx)) k" for k v
  proof -
    have drop: "dropRow db sc r pk m k = (if entryOf db sc idx r pk k then None else m k)"
      using prefix_not_row [OF assms(1) p] isEntry_prefix [OF assms(1,4) p] by (simp add: dropRow_def)
    have old: "m k = Some v \<longleftrightarrow> (\<exists>r'. storedAt X J db sc m v r' \<and> entryOf db sc idx r' v k)" using I p by blast
    show ?thesis
    proof (cases "entryOf db sc idx r pk k")
      case True
      then show ?thesis unfolding drop storedAt_dropRow [OF assms(1)] by (auto dest: entryOf_pk [OF True])
    next
      case False
      have "v \<noteq> pk" if "storedAt X J db sc m v x" "entryOf db sc idx x v k" for x
      proof
        assume v: "v = pk"
        with that(1) have "r = x" by (intro storedAt_fun [OF assms(3)]) simp
        with that(2) False v show False by simp
      qed
      then have "(\<exists>x. storedAt X J db sc m v x \<and> entryOf db sc idx x v k) \<longleftrightarrow>
        (\<exists>x. (v \<noteq> pk \<and> storedAt X J db sc m v x) \<and> entryOf db sc idx x v k)" by (intro ex_cong1) blast
      then show ?thesis unfolding drop storedAt_dropRow [OF assms(1)] if_not_P [OF False] old .
    qed
  qed
  moreover have "\<exists>kh. indexKeyHex idx x = Inr kh" if "storedAt X J db sc (dropRow db sc r pk m) p x" for p x
    using I that unfolding storedAt_dropRow [OF assms(1)] by blast
  ultimately show ?thesis unfolding indexOK_iff by blast
qed

lemma indexOK_putRow:
  assumes "schemaOK sc" "indexOK X J db sc m idx" "m (rowAt db sc pk) = None" "idx \<in> set (sc_Indexes sc)"
    and raw: "decodeRow X J raw = Inr r'" "map_of r' = map_of r" and kh: "indexKeyHex idx r = Inr kh"
  shows "indexOK X J db sc (putRow db sc r pk raw m) idx"
proof -
  note I = assms(2) [unfolded indexOK_iff]
  have same: "rowGet r' = rowGet r" using raw(2) by (simp add: rowGet_def fun_eq_iff)
  then have ent: "entryOf db sc idx r' = entryOf db sc idx r" "indexKeyHex idx r' = Inr kh" using kh by (simp_all only: entryOf_def [abs_def] indexKeyHex_def)
  have free: "\<not> storedAt X J db sc m pk x" for x using assms(3) by (simp add: storedAt_def)
  have "putRow db sc r pk raw m k = Some v \<longleftrightarrow> (\<exists>x. storedAt X J db sc (putRow db sc r pk raw m) v x \<and> entryOf db sc idx x v k)"
    if p: "prefix (oneIndexPrefix db (sc_Name sc) (ix_Name idx)) k" for k v
  proof -
    have put: "putRow db sc r pk raw m k = (if entryOf db sc idx r pk k then Some pk else m k)"
      using prefix_not_row [OF assms(1) p] isEntry_prefix [OF assms(1,4) p] by (simp add: putRow_def)
    have old: "m k = Some v \<longleftrightarrow> (\<exists>x. storedAt X J db sc m v x \<and> entryOf db sc idx x v k)" using I p by blast
    show ?thesis
    proof (cases "entryOf db sc idx r pk k")
      case True
      then show ?thesis unfolding put storedAt_putRow [OF assms(1)] using raw(1) ent(1) by (auto dest: entryOf_pk [OF True])
    next
      case False
      have "\<not> entryOf db sc idx x pk k" if "decodeRow X J raw = Inr x" for x using that raw(1) False ent(1) by simp
      moreover have "v \<noteq> pk" if "storedAt X J db sc m v x" for x using that free by auto
      ultimately have "(\<exists>x. storedAt X J db sc m v x \<and> entryOf db sc idx x v k) \<longleftrightarrow>
        (\<exists>x. (if v = pk then decodeRow X J raw = Inr x else storedAt X J db sc m v x) \<and> entryOf db sc idx x v k)"
        by (cases "v = pk") (simp_all, blast)
      then show ?thesis unfolding put storedAt_putRow [OF assms(1)] if_not_P [OF False] old .
    qed
  qed
  moreover have "\<exists>kh. indexKeyHex idx x = Inr kh" if "storedAt X J db sc (putRow db sc r pk raw m) p x" for p x
    using I that ent(2) raw(1) unfolding storedAt_putRow [OF assms(1)] by (cases "p = pk") (simp, metis)
  ultimately show ?thesis unfolding indexOK_iff by blast
qed

lemma indexOK_other: "schemaOK sc \<Longrightarrow> indexOK X J db sc (m(catalogKey db t := v)) idx \<longleftrightarrow> indexOK X J db sc m idx"
  using key_apart(4) [of sc db "sc_Name sc" "ix_Name idx" t] by (auto simp: indexOK_iff storedAt_other)

section \<open>Tables\<close>

lemma tableOK_dropRow:
  "schemaOK sc \<Longrightarrow> tableOK X J db sc m \<Longrightarrow> storedAt X J db sc m pk r \<Longrightarrow> tableOK X J db sc (dropRow db sc r pk m)"
  using indexOK_dropRow rowsOK_dropRow by (auto simp: tableOK_def)

lemma typedRow_cong: "map_of r' = map_of r \<Longrightarrow> typedRow sc r' = typedRow sc r"
  by (simp add: typedRow_def rowGet_def)

lemma tableOK_putRow:
  assumes "schemaOK sc" "tableOK X J db sc m" "m (rowAt db sc pk) = None"
    and raw: "decodeRow X J raw = Inr r'" "map_of r' = map_of r" and r: "typedRow sc r" "\<exists>b. pk = hexString b"
    and pk: "hasPK sc \<Longrightarrow> encodeKey (map (rowGet r) (sc_PK sc)) = Inr pk"
    and kh: "\<And>idx. idx \<in> set (sc_Indexes sc) \<Longrightarrow> \<exists>kh. indexKeyHex idx r = Inr kh"
  shows "tableOK X J db sc (putRow db sc r pk raw m)"
proof -
  have same: "rowGet r' = rowGet r" using raw(2) by (simp add: rowGet_def fun_eq_iff)
  have "rowsOK X J db sc (putRow db sc r pk raw m)"
    using assms(2) r pk by (intro rowsOK_putRow [OF assms(1) _ raw(1)]) (simp_all add: tableOK_def typedRow_cong [OF raw(2)] same)
  moreover have "indexOK X J db sc (putRow db sc r pk raw m) idx" if "idx \<in> set (sc_Indexes sc)" for idx
  proof -
    have "indexOK X J db sc m idx" using assms(2) that by (simp add: tableOK_def)
    moreover from kh [OF that] obtain h where "indexKeyHex idx r = Inr h" ..
    ultimately show ?thesis using that by (rule_tac indexOK_putRow [where m = m and pk = pk and r = r and raw = raw, OF assms(1) _ assms(3) _ raw(1) raw(2)])
  qed
  ultimately show ?thesis by (simp add: tableOK_def)
qed

lemma tableOK_other: "schemaOK sc \<Longrightarrow> tableOK X J db sc (m(catalogKey db t := v)) \<longleftrightarrow> tableOK X J db sc m"
  by (simp add: tableOK_def rowsOK_other indexOK_other)

end
