(* ===== verification/SQL_DML.thy ===== *)
theory SQL_DML
  imports SQL_Planner
begin

text \<open>
  INSERT, UPDATE and DELETE (\<^verbatim>\<open>pkg/service/sql/dml.go\<close>), the materialization of subqueries (\<^verbatim>\<open>subquery.go\<close>), UUID
  columns (\<^verbatim>\<open>uuid.go\<close>) and the qualified names of a row (\<^verbatim>\<open>join.go\<close>). A computation answers \<open>None\<close> when a loop of the
  code does not return or a parse panics. The evaluation of a query is an argument, applied by the statements that
  have one. A statement sees one state of the store until it commits; before a retry, other clients may have changed it.
\<close>

section \<open>Computations\<close>

type_synonym 'a run = "(string + 'a) option"

definition rbind :: "'a run \<Rightarrow> ('a \<Rightarrow> 'b run) \<Rightarrow> 'b run" where
  "rbind m f = (case m of None \<Rightarrow> None | Some (Inl e) \<Rightarrow> Some (Inl e) | Some (Inr x) \<Rightarrow> f x)"

lemma rbind_simps [simp]: "rbind None f = None" "rbind (Some (Inl e)) f = Some (Inl e)" "rbind (Some (Inr x)) f = f x"
  by (simp_all add: rbind_def)

lemma rbind_cong [fundef_cong]: "m = m' \<Longrightarrow> (\<And>x. m' = Some (Inr x) \<Longrightarrow> f x = f' x) \<Longrightarrow> rbind m f = rbind m' f'"
  by (auto simp: rbind_def split: option.splits sum.splits)

lemma rbind_Inr: "rbind m f = Some (Inr y) \<longleftrightarrow> (\<exists>x. m = Some (Inr x) \<and> f x = Some (Inr y))"
  by (auto simp: rbind_def split: option.splits sum.splits)

fun foldR :: "('a \<Rightarrow> 'b \<Rightarrow> 'a run) \<Rightarrow> 'a \<Rightarrow> 'b list \<Rightarrow> 'a run" where
  "foldR f acc [] = Some (Inr acc)"
| "foldR f acc (x # xs) = rbind (f acc x) (\<lambda>acc. foldR f acc xs)"

fun mapR :: "('a \<Rightarrow> 'b run) \<Rightarrow> 'a list \<Rightarrow> 'b list run" where
  "mapR f [] = Some (Inr [])"
| "mapR f (x # xs) = rbind (f x) (\<lambda>y. rbind (mapR f xs) (\<lambda>ys. Some (Inr (y # ys))))"

lemma mapR_cong [fundef_cong]: "xs = ys \<Longrightarrow> (\<And>x. x \<in> set ys \<Longrightarrow> f x = g x) \<Longrightarrow> mapR f xs = mapR g ys"
proof -
  assume "xs = ys" "\<And>x. x \<in> set ys \<Longrightarrow> f x = g x"
  moreover have "(\<And>x. x \<in> set ys \<Longrightarrow> f x = g x) \<Longrightarrow> mapR f ys = mapR g ys" by (induction ys) simp_all
  ultimately show ?thesis by simp
qed

section \<open>Subqueries\<close>

type_synonym answer = "bytes list \<times> Value list list"

text \<open>\<^verbatim>\<open>runSubquery\<close>, on the evaluation of queries \<open>Q\<close>.\<close>

definition runSubquery :: "(Select \<Rightarrow> answer run) \<Rightarrow> Select \<Rightarrow> answer run" where
  "runSubquery Q s = (case Q s of
     Some (Inl e) \<Rightarrow> Some (Inl (if sublist ''no such column'' e \<or> sublist ''unknown table'' e \<or> sublist ''no table specified'' e
       then e @ '' (correlated subqueries are not supported in expressions)'' else e))
   | r \<Rightarrow> r)"

definition materializeSubquery :: "(Select \<Rightarrow> answer run) \<Rightarrow> Select \<Rightarrow> bool \<Rightarrow> Expr run" where
  "materializeSubquery Q s ex = rbind (runSubquery Q s) (\<lambda>(cols, vals).
     if ex then Some (Inr (Literal (boolV (vals \<noteq> [])) []))
     else if length cols \<noteq> 1 then Some (Inl ''scalar subquery must return one column'')
     else case vals of
         [] \<Rightarrow> Some (Inr (Literal nullV []))
       | [vr] \<Rightarrow> Some (Inr (Literal (hd vr) []))
       | _ \<Rightarrow> Some (Inl ''scalar subquery returned more than one row''))"

fun resolveExpr :: "(Select \<Rightarrow> answer run) \<Rightarrow> Expr \<Rightarrow> Expr run" where
  "resolveExpr Q (Subquery s ex) = materializeSubquery Q s ex"
| "resolveExpr Q (InList x items sub neg) = rbind (resolveExpr Q x) (\<lambda>nx. case sub of
     Some s \<Rightarrow> rbind (runSubquery Q s) (\<lambda>(cols, vals).
       if length cols \<noteq> 1 then Some (Inl ''IN subquery must return one column'')
       else Some (Inr (InList nx (map (\<lambda>vr. Literal (hd vr) []) vals) None neg)))
   | None \<Rightarrow> rbind (mapR (resolveExpr Q) items) (\<lambda>items. Some (Inr (InList nx items None neg))))"
| "resolveExpr Q (Unary op x) = rbind (resolveExpr Q x) (\<lambda>nx. Some (Inr (Unary op nx)))"
| "resolveExpr Q (Binary op l r) = rbind (resolveExpr Q l) (\<lambda>l. rbind (resolveExpr Q r) (\<lambda>r. Some (Inr (Binary op l r))))"
| "resolveExpr Q (Between x lo hi neg) = rbind (resolveExpr Q x) (\<lambda>nx. rbind (resolveExpr Q lo) (\<lambda>lo. rbind (resolveExpr Q hi) (\<lambda>hi.
     Some (Inr (Between nx lo hi neg)))))"
| "resolveExpr Q (IsNullE x neg) = rbind (resolveExpr Q x) (\<lambda>nx. Some (Inr (IsNullE nx neg)))"
| "resolveExpr Q (Cast x t tn dim) = rbind (resolveExpr Q x) (\<lambda>nx. Some (Inr (Cast nx t tn dim)))"
| "resolveExpr Q (FuncCall name args star) = rbind (mapR (resolveExpr Q) args) (\<lambda>args. Some (Inr (FuncCall name args star)))"
| "resolveExpr Q (Literal v src) = Some (Inr (Literal v src))"
| "resolveExpr Q (ColumnRef t c) = Some (Inr (ColumnRef t c))"
| "resolveExpr Q (Param n) = Some (Inr (Param n))"

definition resolveOpt :: "(Select \<Rightarrow> answer run) \<Rightarrow> Expr option \<Rightarrow> Expr option run" where
  "resolveOpt Q e = (case e of None \<Rightarrow> Some (Inr None) | Some x \<Rightarrow> rbind (resolveExpr Q x) (\<lambda>x. Some (Inr (Some x))))"

section \<open>Writing a column\<close>

definition checkVectorDim :: "nat \<Rightarrow> Value \<Rightarrow> string + unit" where
  "checkVectorDim dim v =
     (if v_T v \<noteq> TypeVector \<or> IsNull v then Inr ()
      else if length (v_Vec v) \<noteq> dim then Inl ''column: expected dimensions'' else Inr ())"

definition normalizeUUID :: "unicode \<Rightarrow> bytes \<Rightarrow> string + bytes" where
  "normalizeUUID U s =
     (let hexOnly = filter (\<lambda>c. c \<noteq> 45) s
      in if length s = 36 \<and> (s ! 8 \<noteq> 45 \<or> s ! 13 \<noteq> 45 \<or> s ! 18 \<noteq> 45 \<or> s ! 23 \<noteq> 45) then Inl ''invalid UUID''
         else if length s \<noteq> 36 \<and> length s \<noteq> 32 then Inl ''invalid UUID''
         else case decodeHexLiteral (ToLower U hexOnly) of
             Inl e \<Rightarrow> Inl ''invalid UUID''
           | Inr raw \<Rightarrow> if length raw \<noteq> 16 then Inl ''invalid UUID'' else Inr (formatUUID raw))"

definition coerceUUIDColumn :: "unicode \<Rightarrow> column \<Rightarrow> Value \<Rightarrow> string + Value" where
  "coerceUUIDColumn U c v =
     (if c_TypeName c \<noteq> str ''UUID'' \<or> IsNull v then Inr v
      else sbind (normalizeUUID U (v_S v)) (\<lambda>norm. Inr (textV norm)))"

text \<open>The coercion of a value that is not NULL, the same in \<^verbatim>\<open>completeRow\<close> and \<^verbatim>\<open>applyAssignments\<close>.\<close>

definition coerceColumn :: "unicode \<Rightarrow> sqlenv \<Rightarrow> column \<Rightarrow> Value \<Rightarrow> string + Value" where
  "coerceColumn U X c v =
     (if IsNull v then Inr v
      else sbind (CastTo X v (c_Type c)) (\<lambda>v.
        sbind (if c_Type c = TypeVector then checkVectorDim (c_Dim c) v else Inr ()) (\<lambda>_.
          coerceUUIDColumn U c v)))"

definition evalDefault :: "unicode \<Rightarrow> sqlenv \<Rightarrow> bytes \<Rightarrow> Value run" where
  "evalDefault U X text = (case ParseStatements U X (str ''SELECT '' @ text) of
     None \<Rightarrow> None
   | Some (POk stmts ts) \<Rightarrow> (case stmts of
         [] \<Rightarrow> None
       | SSelect (Select (SelectCore d [it] tbl al from w g) us os l off) # _ \<Rightarrow> (case it of
             Star \<Rightarrow> Some (Inl ''cannot evaluate'')
           | Item e alias \<Rightarrow> Some (evalExpr U X (Some Map.empty) e))
       | _ \<Rightarrow> Some (Inl ''bad default''))
   | Some (PErr pos msg) \<Rightarrow> Some (Inl ''bad default'')
   | Some PPanic \<Rightarrow> None
   | Some PFuel \<Rightarrow> None)"

fun completeCols :: "unicode \<Rightarrow> sqlenv \<Rightarrow> rowmap \<Rightarrow> column list \<Rightarrow> rowmap \<Rightarrow> rowmap run" where
  "completeCols U X src [] out = Some (Inr out)"
| "completeCols U X src (c # cs) out =
     rbind (case map_of src (c_Name c) of
         Some v \<Rightarrow> Some (Inr v)
       | None \<Rightarrow> if c_Default c \<noteq> [] then evalDefault U X (c_Default c) else Some (Inr nullV)) (\<lambda>v.
     rbind (Some (coerceColumn U X c v)) (\<lambda>v.
       if IsNull v \<and> c_NotNull c \<and> \<not> c_Auto c then Some (Inl ''NOT NULL constraint error'')
       else completeCols U X src cs (AList.update (c_Name c) v out)))"

definition completeRow :: "unicode \<Rightarrow> sqlenv \<Rightarrow> tableSchema \<Rightarrow> rowmap \<Rightarrow> rowmap run" where
  "completeRow U X sc src = rbind (completeCols U X src (sc_Columns sc) []) (\<lambda>out.
     if \<exists>(name, v) \<in> set src. col sc name = None then Some (Inl ''table has no column'') else Some (Inr out))"

fun applyAssignments :: "unicode \<Rightarrow> sqlenv \<Rightarrow> tableSchema \<Rightarrow> rowmap \<Rightarrow> (bytes \<times> Expr) list \<Rightarrow> rowmap \<Rightarrow> string + rowmap" where
  "applyAssignments U X sc cur [] out = Inr out"
| "applyAssignments U X sc cur ((cn, e) # as) out = (case col sc cn of
     None \<Rightarrow> Inl ''no such column''
   | Some c \<Rightarrow> sbind (evalExpr U X (Some (map_of cur)) e) (\<lambda>v. sbind (coerceColumn U X c v) (\<lambda>v.
       if IsNull v \<and> c_NotNull c then Inl ''NOT NULL constraint error''
       else applyAssignments U X sc cur as (AList.update cn v out))))"

section \<open>Unique indexes\<close>

definition rowHasNullIn :: "bytes list \<Rightarrow> rowmap \<Rightarrow> bool" where
  "rowHasNullIn cols r \<longleftrightarrow> (\<exists>cn \<in> set cols. IsNull (rowGet r cn))"

definition uniqueErr :: string where "uniqueErr = ''UNIQUE constraint error''"

fun uniqueConflicts ::
    "('s, 't) kvStore \<Rightarrow> 's \<Rightarrow> bytes \<Rightarrow> tableSchema \<Rightarrow> indexDef list \<Rightarrow> rowmap \<Rightarrow> bytes \<Rightarrow> string + bytes list" where
  "uniqueConflicts S s db sc [] r selfPK = Inr []"
| "uniqueConflicts S s db sc (idx # idxs) r selfPK =
     (if \<not> ix_Unique idx \<or> rowHasNullIn (ix_Columns idx) r then uniqueConflicts S s db sc idxs r selfPK
      else sbind (indexKeyHex idx r) (\<lambda>keyhex.
        let p = oneIndexPrefix db (sc_Name sc) (ix_Name idx) @ keyhex @ str ''/''
        in sbind (kvList S s p [] 2) (\<lambda>(entries, next).
          let dups = filter (\<lambda>pk. pk \<noteq> selfPK) (map (\<lambda>(k, v). TrimPrefix k p) entries)
          in if dups \<noteq> [] then Inr dups else uniqueConflicts S s db sc idxs r selfPK)))"

fun uniqueKeysFor :: "indexDef list \<Rightarrow> rowmap \<Rightarrow> string + bytes list" where
  "uniqueKeysFor [] r = Inr []"
| "uniqueKeysFor (idx # idxs) r =
     (if \<not> ix_Unique idx \<or> rowHasNullIn (ix_Columns idx) r then uniqueKeysFor idxs r
      else sbind (indexKeyHex idx r) (\<lambda>keyhex. sbind (uniqueKeysFor idxs r) (\<lambda>ks. Inr ((ix_Name idx @ str ''/'' @ keyhex) # ks))))"

section \<open>Staged index entries\<close>

fun stageIndexWrites :: "('s, 't) kvStore \<Rightarrow> bytes \<Rightarrow> bytes \<Rightarrow> indexDef list \<Rightarrow> rowmap \<Rightarrow> bytes \<Rightarrow> 't \<Rightarrow> string + 't" where
  "stageIndexWrites S db table [] r pkhex tx = Inr tx"
| "stageIndexWrites S db table (idx # idxs) r pkhex tx = sbind (indexKeyHex idx r) (\<lambda>keyhex.
     stageIndexWrites S db table idxs r pkhex (txSet S tx (indexEntryKey db table (ix_Name idx) keyhex pkhex) pkhex))"

fun stageIndexDeletes :: "('s, 't) kvStore \<Rightarrow> bytes \<Rightarrow> bytes \<Rightarrow> indexDef list \<Rightarrow> rowmap \<Rightarrow> bytes \<Rightarrow> 't \<Rightarrow> string + 't" where
  "stageIndexDeletes S db table [] r pkhex tx = Inr tx"
| "stageIndexDeletes S db table (idx # idxs) r pkhex tx = sbind (indexKeyHex idx r) (\<lambda>keyhex.
     stageIndexDeletes S db table idxs r pkhex (txDelete S tx (indexEntryKey db table (ix_Name idx) keyhex pkhex)))"

definition stageRowDelete ::
    "sqlenv \<Rightarrow> jsonenv \<Rightarrow> ('s, 't) kvStore \<Rightarrow> 's \<Rightarrow> bytes \<Rightarrow> tableSchema \<Rightarrow> bytes \<Rightarrow> 't \<Rightarrow> string + 't" where
  "stageRowDelete X J S s db sc pkhex tx = sbind (txGet S s tx (rowKey db (sc_Name sc) pkhex)) (\<lambda>raw. case raw of
     None \<Rightarrow> Inr tx
   | Some b \<Rightarrow> sbind (decodeRow X J b) (\<lambda>old. sbind (stageIndexDeletes S db (sc_Name sc) (sc_Indexes sc) old pkhex tx) (\<lambda>tx.
       Inr (txDelete S tx (rowKey db (sc_Name sc) pkhex)))))"

section \<open>Qualified names\<close>

text \<open>\<^verbatim>\<open>walkExpr\<close> visits the nodes of an expression and does not enter subqueries.\<close>

fun hasQualifiedRef :: "Expr \<Rightarrow> bool" where
  "hasQualifiedRef (ColumnRef t c) \<longleftrightarrow> t \<noteq> []"
| "hasQualifiedRef (Unary op x) \<longleftrightarrow> hasQualifiedRef x"
| "hasQualifiedRef (Binary op l r) \<longleftrightarrow> hasQualifiedRef l \<or> hasQualifiedRef r"
| "hasQualifiedRef (Between x lo hi neg) \<longleftrightarrow> hasQualifiedRef x \<or> hasQualifiedRef lo \<or> hasQualifiedRef hi"
| "hasQualifiedRef (InList x items sub neg) \<longleftrightarrow> hasQualifiedRef x \<or> (\<exists>a \<in> set items. hasQualifiedRef a)"
| "hasQualifiedRef (IsNullE x neg) \<longleftrightarrow> hasQualifiedRef x"
| "hasQualifiedRef (Cast x t tn dim) \<longleftrightarrow> hasQualifiedRef x"
| "hasQualifiedRef (FuncCall name args star) \<longleftrightarrow> (\<exists>a \<in> set args. hasQualifiedRef a)"
| "hasQualifiedRef _ \<longleftrightarrow> False"

definition withQualKeys :: "rowmap \<Rightarrow> bytes \<Rightarrow> tableSchema \<Rightarrow> rowmap" where
  "withQualKeys r qual sc = foldl (\<lambda>out c. AList.update (qual @ str ''.'' @ c_Name c) (rowGet r (c_Name c)) out) r (sc_Columns sc)"

text \<open>The row a WHERE clause of UPDATE and DELETE is evaluated on.\<close>

definition predRow :: "Expr option \<Rightarrow> tableSchema \<Rightarrow> rowmap \<Rightarrow> rowmap" where
  "predRow w sc r = (if (case w of Some e \<Rightarrow> hasQualifiedRef e | None \<Rightarrow> False) then withQualKeys r (sc_Name sc) sc else r)"

section \<open>Transactions\<close>

definition maxTxRetries :: nat where "maxTxRetries = 20"

text \<open>
  The body \<open>fn\<close> of a statement keeps its closure state \<open>c\<close> across attempts. \<open>others n s\<close> is the state that the
  retry with \<open>n\<close> attempts left finds.
\<close>

fun runTx ::
    "('s, 't) kvStore \<Rightarrow> (nat \<Rightarrow> 's \<Rightarrow> 's) \<Rightarrow> nat \<Rightarrow> ('c \<Rightarrow> 's \<Rightarrow> 't \<Rightarrow> ('c \<times> 't \<times> 'r) run) \<Rightarrow> 'c \<Rightarrow> 's \<Rightarrow> ('s \<times> 'r) run" where
  "runTx S others n fn c s = rbind (fn c s (newTx S s)) (\<lambda>(c, tx, r). case txCommit S s tx of
     Inr s' \<Rightarrow> Some (Inr (s', r))
   | Inl e \<Rightarrow> (case n of
         0 \<Rightarrow> Some (Inl e)
       | Suc n' \<Rightarrow> if sublist ''Conflict'' e then runTx S others n' fn c (others n' s) else Some (Inl e)))"

declare runTx.simps [simp del]

section \<open>INSERT\<close>

record ExecResult =
  er_Tag :: bytes
  er_Columns :: "bytes list"
  er_typed :: "Value list list"

definition valueText :: "sqlenv \<Rightarrow> Value \<Rightarrow> bytes option" where
  "valueText X v = (if IsNull v then None else Some (FormatText X v))"

definition textRowOf :: "sqlenv \<Rightarrow> Value list \<Rightarrow> bytes option list" where
  "textRowOf X vals = map (valueText X) vals"

text \<open>\<^verbatim>\<open>ExecResult.Rows\<close> is the text of the typed rows.\<close>

definition er_Rows :: "sqlenv \<Rightarrow> ExecResult \<Rightarrow> bytes option list list" where
  "er_Rows X res = map (textRowOf X) (er_typed res)"

definition returningColumns :: "unicode \<Rightarrow> sqlenv \<Rightarrow> SelectItem list \<Rightarrow> tableSchema \<Rightarrow> bytes list" where
  "returningColumns U X items sc =
     List.concat (map (\<lambda>it. case it of Star \<Rightarrow> orderColumns sc | Item e alias \<Rightarrow> [labelFor U X e alias]) items)"

fun projectValues :: "unicode \<Rightarrow> sqlenv \<Rightarrow> SelectItem list \<Rightarrow> rowmap \<Rightarrow> tableSchema \<Rightarrow> string + Value list" where
  "projectValues U X [] r sc = Inr []"
| "projectValues U X (Star # items) r sc = sbind (projectValues U X items r sc) (\<lambda>vs. Inr (map (rowGet r) (orderColumns sc) @ vs))"
| "projectValues U X (Item e alias # items) r sc =
     sbind (evalExpr U X (Some (map_of r)) e) (\<lambda>v. sbind (projectValues U X items r sc) (\<lambda>vs. Inr (v # vs)))"

record 't insState =
  is_next :: i64
  is_dirty :: bool
  is_unique :: "(bytes \<times> bytes) list"
  is_tx :: 't
  is_count :: nat
  is_returning :: "Value list list"

text \<open>An auto-increment column: NULL draws the next value, a greater value moves the counter.\<close>

definition assignAuto :: "tableSchema \<Rightarrow> rowmap \<Rightarrow> i64 \<Rightarrow> rowmap \<times> i64 \<times> bool" where
  "assignAuto sc full next =
     (let ac = autoCol sc; v = rowGet full ac
      in if ac = [] then (full, next, False)
         else if IsNull v then (AList.update ac (intV (next + 1)) full, next + 1, True)
         else if v_T v = TypeInt \<and> sint next < sint (v_I v) then (full, v_I v, True)
         else (full, next, False))"

text \<open>The rows a new row collides with: the holder of its primary key, else of one of its unique keys.\<close>

definition insertConflicts ::
    "('s, 't) kvStore \<Rightarrow> 's \<Rightarrow> bytes \<Rightarrow> tableSchema \<Rightarrow> (bytes \<times> bytes) list \<Rightarrow> bytes list \<Rightarrow> rowmap \<Rightarrow> bytes \<Rightarrow> bool
      \<Rightarrow> string + (string \<times> bytes list) option" where
  "insertConflicts S s db sc stagedUnique ukeys full pkhex pkTaken =
     (if pkTaken then Inr (Some (''PRIMARY KEY constraint error'', [pkhex]))
      else case find (\<lambda>uk. case map_of stagedUnique uk of Some prev \<Rightarrow> prev \<noteq> pkhex | None \<Rightarrow> False) ukeys of
          Some uk \<Rightarrow> Inr (Some (uniqueErr, [the (map_of stagedUnique uk)]))
        | None \<Rightarrow> sbind (uniqueConflicts S s db sc (sc_Indexes sc) full pkhex) (\<lambda>dups.
            Inr (if dups \<noteq> [] then Some (uniqueErr, dups) else None)))"

fun evictRows ::
    "sqlenv \<Rightarrow> jsonenv \<Rightarrow> ('s, 't) kvStore \<Rightarrow> 's \<Rightarrow> bytes \<Rightarrow> tableSchema \<Rightarrow> bytes list \<Rightarrow> (bytes \<times> bytes) list \<Rightarrow> 't
      \<Rightarrow> string + (bytes \<times> bytes) list \<times> 't" where
  "evictRows X J S s db sc [] uniq tx = Inr (uniq, tx)"
| "evictRows X J S s db sc (oldPK # pks) uniq tx = sbind (stageRowDelete X J S s db sc oldPK tx) (\<lambda>tx.
     evictRows X J S s db sc pks (filter (\<lambda>(k, v). v \<noteq> oldPK) uniq) tx)"

definition insertRow ::
    "unicode \<Rightarrow> sqlenv \<Rightarrow> jsonenv \<Rightarrow> ('s, 't) kvStore \<Rightarrow> bytes \<Rightarrow> Insert \<Rightarrow> tableSchema \<Rightarrow> 's \<Rightarrow> 't insState \<Rightarrow> rowmap \<Rightarrow> 't insState run" where
  "insertRow U X J S db ins sc s st src =
     rbind (completeRow U X sc src) (\<lambda>full.
     let (full, next, moved) = assignAuto sc full (is_next st)
     in rbind (enforceChecks U X (sc_Checks sc) (map_of full)) (\<lambda>_.
     rbind (Some (pkHexFor sc full (next + 1))) (\<lambda>pkhex.
     let st = st\<lparr>is_next := (if hasPK sc then next else next + 1), is_dirty := is_dirty st \<or> moved \<or> \<not> hasPK sc\<rparr>
     in rbind (Some (txGet S s (is_tx st) (rowKey db (sc_Name sc) pkhex))) (\<lambda>cur.
     rbind (Some (uniqueKeysFor (sc_Indexes sc) full)) (\<lambda>ukeys.
     rbind (Some (insertConflicts S s db sc (is_unique st) ukeys full pkhex (cur \<noteq> None))) (\<lambda>dup.
     if dup \<noteq> None \<and> ins_OnConflict ins = str ''NOTHING'' then Some (Inr st)
     else rbind (case dup of
         None \<Rightarrow> Some (Inr (is_unique st, is_tx st))
       | Some (err, pks) \<Rightarrow>
           if ins_OnConflict ins = str ''REPLACE'' then Some (evictRows X J S s db sc pks (is_unique st) (is_tx st)) else Some (Inl err)) (\<lambda>(uniq, tx).
     rbind (Some (encodeRow X J full)) (\<lambda>enc.
     rbind (Some (stageIndexWrites S db (sc_Name sc) (sc_Indexes sc) full pkhex (txSet S tx (rowKey db (sc_Name sc) pkhex) enc))) (\<lambda>tx.
     rbind (if ins_Returning ins = [] then Some (Inr []) else Some (sbind (projectValues U X (ins_Returning ins) full sc) (\<lambda>vs. Inr [vs]))) (\<lambda>ret.
       Some (Inr (st\<lparr>is_unique := foldl (\<lambda>m uk. AList.update uk pkhex m) uniq ukeys, is_tx := tx,
         is_count := is_count st + 1, is_returning := is_returning st @ ret\<rparr>))))))))))))"

definition insertBody ::
    "unicode \<Rightarrow> sqlenv \<Rightarrow> jsonenv \<Rightarrow> ('s, 't) kvStore \<Rightarrow> bytes \<Rightarrow> Insert \<Rightarrow> rowmap list \<Rightarrow> tableSchema \<Rightarrow> 's \<Rightarrow> 't
      \<Rightarrow> (tableSchema \<times> 't \<times> nat \<times> Value list list) run" where
  "insertBody U X J S db ins srcs sc s tx =
     rbind (foldR (insertRow U X J S db ins sc s)
       \<lparr>is_next = sc_NextRowID sc, is_dirty = False, is_unique = [], is_tx = tx, is_count = 0, is_returning = []\<rparr> srcs) (\<lambda>st.
     if is_dirty st
     then let sc = sc\<lparr>sc_NextRowID := is_next st\<rparr>
       in Some (Inr (sc, txSet S (is_tx st) (catalogKey db (sc_Name sc)) (jSchema J sc), is_count st, is_returning st))
     else Some (Inr (sc, is_tx st, is_count st, is_returning st)))"

fun treeReads :: "bytes \<Rightarrow> TableExpr \<Rightarrow> bool"
  and coreReads :: "bytes \<Rightarrow> SelectCore \<Rightarrow> bool"
  and selectReadsTable :: "bytes \<Rightarrow> Select \<Rightarrow> bool" where
  "treeReads table (TableRef t alias) \<longleftrightarrow> t = table"
| "treeReads table (SubqueryRef s alias lateral) \<longleftrightarrow> selectReadsTable table s"
| "treeReads table (JoinExpr kind l r on using lateral) \<longleftrightarrow> treeReads table l \<or> treeReads table r"
| "coreReads table (SelectCore d items t alias from w g) \<longleftrightarrow> t = table \<or> (case from of None \<Rightarrow> False | Some te \<Rightarrow> treeReads table te)"
| "selectReadsTable table (Select core unions ord lim off) \<longleftrightarrow> coreReads table core \<or> (\<exists>arm \<in> set unions. coreReads table (snd arm))"

text \<open>The rows a VALUES list or a query supplies, as columns and values.\<close>

definition bindRow :: "bytes list \<Rightarrow> Value list \<Rightarrow> rowmap" where
  "bindRow cols vals = foldl (\<lambda>r (cn, v). AList.update cn v r) [] (zip cols vals)"

definition valuesSource :: "unicode \<Rightarrow> sqlenv \<Rightarrow> Insert \<Rightarrow> bytes list \<Rightarrow> Expr list \<Rightarrow> string + rowmap" where
  "valuesSource U X ins targetCols exprRow =
     (if length exprRow > length targetCols then Inl ''INSERT has more values than target columns''
      else if ins_Columns ins \<noteq> [] \<and> length exprRow \<noteq> length targetCols then Inl ''INSERT has values but target columns''
      else sbind (evalArgs U X None exprRow) (\<lambda>vals. Inr (bindRow targetCols vals)))"

definition sourceRows :: "unicode \<Rightarrow> sqlenv \<Rightarrow> (Select \<Rightarrow> answer run) \<Rightarrow> Insert \<Rightarrow> bytes list \<Rightarrow> rowmap list run" where
  "sourceRows U X Q ins targetCols =
     rbind (mapR (mapR (resolveExpr Q)) (ins_Rows ins)) (\<lambda>rows. case ins_Select ins of
       Some q \<Rightarrow>
         if selectReadsTable (ins_Table ins) q then Some (Inl ''cannot insert into table from a query reading it'')
         else rbind (Q q) (\<lambda>(cols, vals). Some (Inr (map (bindRow targetCols) vals)))
     | None \<Rightarrow> Some (mapE (valuesSource U X ins targetCols) rows))"

definition execInsert ::
    "unicode \<Rightarrow> sqlenv \<Rightarrow> jsonenv \<Rightarrow> ('s, 't) kvStore \<Rightarrow> (nat \<Rightarrow> 's \<Rightarrow> 's) \<Rightarrow> engine \<Rightarrow> (Select \<Rightarrow> answer run) \<Rightarrow> Insert \<Rightarrow> 's
      \<Rightarrow> ('s \<times> ExecResult) run" where
  "execInsert U X J S others E Q ins s =
     rbind (Some (loadSchema J S s (en_db E) (ins_Table ins))) (\<lambda>sc.
     let targetCols = (if ins_Columns ins = [] then orderColumns sc else ins_Columns ins)
     in if ins_Columns ins \<noteq> [] \<and> (\<exists>cn \<in> set targetCols. col sc cn = None) then Some (Inl ''table has no column'')
     else rbind (sourceRows U X Q ins targetCols) (\<lambda>srcs.
     rbind (runTx S others maxTxRetries (insertBody U X J S (en_db E) ins srcs) sc s) (\<lambda>(s, count, returning).
       Some (Inr (s, \<lparr>er_Tag = str ''INSERT 0 '' @ digits count,
         er_Columns = (if ins_Returning ins = [] then [] else returningColumns U X (ins_Returning ins) sc), er_typed = returning\<rparr>)))))"

section \<open>UPDATE and DELETE\<close>

text \<open>The replacement of the row that a matched key holds now.\<close>

definition replaceRow ::
    "unicode \<Rightarrow> sqlenv \<Rightarrow> jsonenv \<Rightarrow> ('s, 't) kvStore \<Rightarrow> bytes \<Rightarrow> tableSchema \<Rightarrow> (bytes \<times> Expr) list \<Rightarrow> 's \<Rightarrow> 't \<Rightarrow> bytes \<Rightarrow> bytes \<Rightarrow> 't run" where
  "replaceRow U X J S db sc sets s tx pkhex raw =
     rbind (Some (decodeRow X J raw)) (\<lambda>curRow.
     rbind (Some (applyAssignments U X sc curRow sets curRow)) (\<lambda>newRow.
     rbind (enforceChecks U X (sc_Checks sc) (map_of newRow)) (\<lambda>_.
     rbind (Some (pkHexFor sc newRow 0)) (\<lambda>newPK.
     rbind (if newPK \<noteq> pkhex \<and> hasPK sc
         then Some (sbind (txGet S s tx (rowKey db (sc_Name sc) newPK)) (\<lambda>other.
           if other \<noteq> None then Inl ''PRIMARY KEY constraint error'' else Inr ()))
         else Some (Inr ())) (\<lambda>_.
     rbind (Some (uniqueConflicts S s db sc (sc_Indexes sc) newRow newPK)) (\<lambda>dups.
     if dups \<noteq> [] then Some (Inl uniqueErr)
     else rbind (Some (encodeRow X J newRow)) (\<lambda>enc.
     rbind (Some (stageIndexDeletes S db (sc_Name sc) (sc_Indexes sc) curRow pkhex tx)) (\<lambda>tx.
     let tx = (if newPK \<noteq> pkhex then txDelete S tx (rowKey db (sc_Name sc) pkhex) else tx)
     in Some (stageIndexWrites S db (sc_Name sc) (sc_Indexes sc) newRow newPK (txSet S tx (rowKey db (sc_Name sc) newPK) enc))))))))))"

definition updateRow ::
    "unicode \<Rightarrow> sqlenv \<Rightarrow> jsonenv \<Rightarrow> ('s, 't) kvStore \<Rightarrow> bytes \<Rightarrow> tableSchema \<Rightarrow> (bytes \<times> Expr) list \<Rightarrow> Expr option \<Rightarrow> 's
      \<Rightarrow> 't \<times> nat \<Rightarrow> storedRow \<Rightarrow> ('t \<times> nat) run" where
  "updateRow U X J S db sc sets w s = (\<lambda>(tx, count) sr.
     rbind (Some (predicateTrue U X w (Some (map_of (predRow w sc (sr_data sr)))))) (\<lambda>hit.
     if \<not> hit then Some (Inr (tx, count))
     else rbind (Some (txGet S s tx (rowKey db (sc_Name sc) (sr_pkhex sr)))) (\<lambda>cur. case cur of
         None \<Rightarrow> Some (Inr (tx, count))
       | Some raw \<Rightarrow> rbind (replaceRow U X J S db sc sets s tx (sr_pkhex sr) raw) (\<lambda>tx. Some (Inr (tx, count + 1))))))"

definition execUpdate ::
    "unicode \<Rightarrow> sqlenv \<Rightarrow> jsonenv \<Rightarrow> ('s, 't) kvStore \<Rightarrow> (nat \<Rightarrow> 's \<Rightarrow> 's) \<Rightarrow> engine \<Rightarrow> (Select \<Rightarrow> answer run)
      \<Rightarrow> bytes \<Rightarrow> (bytes \<times> Expr) list \<Rightarrow> Expr option \<Rightarrow> 's \<Rightarrow> ('s \<times> ExecResult) run" where
  "execUpdate U X J S others E Q table sets w s =
     rbind (Some (loadSchema J S s (en_db E) table)) (\<lambda>sc.
     rbind (resolveOpt Q w) (\<lambda>w.
     rbind (mapR (\<lambda>(cn, e). rbind (resolveExpr Q e) (\<lambda>e. Some (Inr (cn, e)))) sets) (\<lambda>sets.
     rbind (fst (scanFor U X J S E s sc w)) (\<lambda>rows.
     rbind (runTx S others maxTxRetries (\<lambda>c s tx. rbind (foldR (updateRow U X J S (en_db E) sc sets w s) (tx, 0) rows) (\<lambda>(tx, count).
       Some (Inr (c, tx, count)))) () s) (\<lambda>(s, count).
       Some (Inr (s, \<lparr>er_Tag = str ''UPDATE '' @ digits count, er_Columns = [], er_typed = []\<rparr>)))))))"

definition deleteRow ::
    "unicode \<Rightarrow> sqlenv \<Rightarrow> jsonenv \<Rightarrow> ('s, 't) kvStore \<Rightarrow> bytes \<Rightarrow> tableSchema \<Rightarrow> Expr option \<Rightarrow> 's \<Rightarrow> 't \<times> nat \<Rightarrow> storedRow \<Rightarrow> ('t \<times> nat) run" where
  "deleteRow U X J S db sc w s = (\<lambda>(tx, count) sr.
     rbind (Some (predicateTrue U X w (Some (map_of (predRow w sc (sr_data sr)))))) (\<lambda>hit.
     if \<not> hit then Some (Inr (tx, count))
     else rbind (Some (txGet S s tx (rowKey db (sc_Name sc) (sr_pkhex sr)))) (\<lambda>cur. case cur of
         None \<Rightarrow> Some (Inr (tx, count))
       | Some raw \<Rightarrow>
     rbind (Some (decodeRow X J raw)) (\<lambda>curRow.
     rbind (Some (stageIndexDeletes S db (sc_Name sc) (sc_Indexes sc) curRow (sr_pkhex sr) tx)) (\<lambda>tx.
       Some (Inr (txDelete S tx (rowKey db (sc_Name sc) (sr_pkhex sr)), count + 1)))))))"

definition execDelete ::
    "unicode \<Rightarrow> sqlenv \<Rightarrow> jsonenv \<Rightarrow> ('s, 't) kvStore \<Rightarrow> (nat \<Rightarrow> 's \<Rightarrow> 's) \<Rightarrow> engine \<Rightarrow> (Select \<Rightarrow> answer run)
      \<Rightarrow> bytes \<Rightarrow> Expr option \<Rightarrow> 's \<Rightarrow> ('s \<times> ExecResult) run" where
  "execDelete U X J S others E Q table w s =
     rbind (Some (loadSchema J S s (en_db E) table)) (\<lambda>sc.
     rbind (resolveOpt Q w) (\<lambda>w.
     rbind (fst (scanFor U X J S E s sc w)) (\<lambda>rows.
     rbind (runTx S others maxTxRetries (\<lambda>c s tx. rbind (foldR (deleteRow U X J S (en_db E) sc w s) (tx, 0) rows) (\<lambda>(tx, count).
       Some (Inr (c, tx, count)))) () s) (\<lambda>(s, count).
       Some (Inr (s, \<lparr>er_Tag = str ''DELETE '' @ digits count, er_Columns = [], er_typed = []\<rparr>))))))"

end
