(* ===== verification/SQL_Ref.thy ===== *)
theory SQL_Ref
  imports SQL_Scan Codec
begin

text \<open>
  A concrete environment for the SQL engine: a byte codec in place of JSON and of the
  spellings of numbers and times. It computes, and the theorems are applied to concrete tables in it. Arithmetic on
  doubles is not exercised there.
\<close>

definition refSql :: sqlenv where
  "refSql = \<lparr>fadd = (\<lambda>a b. a), fsub = (\<lambda>a b. a), fmul = (\<lambda>a b. a), fdiv = (\<lambda>a b. a), fmodulo = (\<lambda>a b. a), fsqrt = (\<lambda>a. a),
     widen = ucast, narrow = ucast, intOverflow = (\<lambda>f. 0),
     ParseFloat = (\<lambda>n s. decAll decU64 s), FormatFloat = (\<lambda>n. be64),
     timeParse = (\<lambda>f s. case decAll decInt s of Some t \<Rightarrow> if timeInRange t then Some t else None | None \<Rightarrow> None),
     timeFormat = (\<lambda>f. encInt), b64Encode = encBytes, b64Decode = decAll decBytes, clock = 0, rand16 = replicate 16 0\<rparr>"

lemma timesOK_refSql: "timesOK refSql"
  by (auto simp: timesOK_def refSql_def timeInRange_def split: option.splits if_splits)

definition encType :: "Type \<Rightarrow> bytes" where
  "encType t = [case t of TypeNull \<Rightarrow> 0 | TypeBool \<Rightarrow> 1 | TypeInt \<Rightarrow> 2 | TypeDouble \<Rightarrow> 3 | TypeText \<Rightarrow> 4
     | TypeBytea \<Rightarrow> 5 | TypeTimestamp \<Rightarrow> 6 | TypeAny \<Rightarrow> 7 | TypeVector \<Rightarrow> 8]"

definition decType :: "bytes \<Rightarrow> (Type \<times> bytes) option" where
  "decType bs = (case bs of [] \<Rightarrow> None | b # r \<Rightarrow> Some (if b = 0 then TypeNull else if b = 1 then TypeBool else if b = 2 then TypeInt
     else if b = 3 then TypeDouble else if b = 4 then TypeText else if b = 5 then TypeBytea else if b = 6 then TypeTimestamp
     else if b = 7 then TypeAny else TypeVector, r))"

lemma inverts_type: "inverts encType decType"
  by (auto simp: inverts_def encType_def decType_def split: Type.splits)

definition encColumn :: "column \<Rightarrow> bytes" where
  "encColumn = encPair encBytes (encPair encType (encPair encBytes (encPair encInt (encPair encBool (encPair encBool (encPair encBool encBytes)))))) \<circ>
     (\<lambda>c. (c_Name c, c_Type c, c_TypeName c, int (c_Dim c), c_NotNull c, c_Unique c, c_Auto c, c_Default c))"

definition decColumn :: "bytes \<Rightarrow> (column \<times> bytes) option" where
  "decColumn = (\<lambda>bs. map_option (\<lambda>(y, r). ((\<lambda>(a, b, c, d, e, f, g, h). \<lparr>c_Name = a, c_Type = b, c_TypeName = c, c_Dim = nat d,
       c_NotNull = e, c_Unique = f, c_Auto = g, c_Default = h\<rparr>) y, r))
     (decPair decBytes (decPair decType (decPair decBytes (decPair decInt (decPair decBool (decPair decBool (decPair decBool decBytes)))))) bs))"

lemma inverts_column: "inverts encColumn decColumn"
  by (rule inverts_convI [OF _ _ encColumn_def decColumn_def]) (intro inverts_intros inverts_type inverts_int, simp)

definition encIndex :: "indexDef \<Rightarrow> bytes" where
  "encIndex = encPair encBytes (encPair (encList encBytes) encBool) \<circ> (\<lambda>i. (ix_Name i, ix_Columns i, ix_Unique i))"

definition decIndex :: "bytes \<Rightarrow> (indexDef \<times> bytes) option" where
  "decIndex = (\<lambda>bs. map_option (\<lambda>(y, r). ((\<lambda>(a, b, c). \<lparr>ix_Name = a, ix_Columns = b, ix_Unique = c\<rparr>) y, r))
     (decPair decBytes (decPair (decList decBytes) decBool) bs))"

lemma inverts_index: "inverts encIndex decIndex"
  by (rule inverts_convI [OF _ _ encIndex_def decIndex_def]) (intro inverts_intros, simp)

definition encCheck :: "checkDef \<Rightarrow> bytes" where
  "encCheck = encPair encBytes encBytes \<circ> (\<lambda>c. (ck_Name c, ck_Expr c))"

definition decCheck :: "bytes \<Rightarrow> (checkDef \<times> bytes) option" where
  "decCheck = (\<lambda>bs. map_option (\<lambda>(y, r). ((\<lambda>(a, b). \<lparr>ck_Name = a, ck_Expr = b\<rparr>) y, r)) (decPair decBytes decBytes bs))"

lemma inverts_check: "inverts encCheck decCheck"
  by (rule inverts_convI [OF _ _ encCheck_def decCheck_def]) (intro inverts_intros, simp)

definition encSchema :: "tableSchema \<Rightarrow> bytes" where
  "encSchema = encPair encBytes (encPair (encList encColumn) (encPair (encList encBytes) (encPair (encList encIndex) (encPair (encList encCheck) be64)))) \<circ>
     (\<lambda>t. (sc_Name t, sc_Columns t, sc_PK t, sc_Indexes t, sc_Checks t, sc_NextRowID t))"

definition decSchema :: "bytes \<Rightarrow> (tableSchema \<times> bytes) option" where
  "decSchema = (\<lambda>bs. map_option (\<lambda>(y, r). ((\<lambda>(a, b, c, d, e, f). \<lparr>sc_Name = a, sc_Columns = b, sc_PK = c, sc_Indexes = d,
       sc_Checks = e, sc_NextRowID = f\<rparr>) y, r))
     (decPair decBytes (decPair (decList decColumn) (decPair (decList decBytes) (decPair (decList decIndex) (decPair (decList decCheck) decU64)))) bs))"

lemma inverts_schema: "inverts encSchema decSchema"
  by (rule inverts_convI [OF _ _ encSchema_def decSchema_def]) (intro inverts_intros inverts_column inverts_index inverts_check, simp)

definition encTagged :: "taggedValue \<Rightarrow> bytes" where
  "encTagged = encPair encBytes encBytes \<circ> (\<lambda>t. (tv_T t, tv_V t))"

definition decTagged :: "bytes \<Rightarrow> (taggedValue \<times> bytes) option" where
  "decTagged = (\<lambda>bs. map_option (\<lambda>(y, r). ((\<lambda>(a, b). \<lparr>tv_T = a, tv_V = b\<rparr>) y, r)) (decPair decBytes decBytes bs))"

lemma inverts_tagged: "inverts encTagged decTagged"
  by (rule inverts_convI [OF _ _ encTagged_def decTagged_def]) (intro inverts_intros, simp)

definition refJson :: jsonenv where
  "refJson = \<lparr>jString = encBytes, jUnString = decAll decBytes,
     jFloat = (\<lambda>f. if IsNaN f \<or> IsInf f then None else Some (2 # be64 f)),
     jUnFloat = (\<lambda>bs. case bs of [] \<Rightarrow> None | b # r \<Rightarrow> if b = 2 then decAll decU64 r else None),
     jBool = encBool, jUnBool = decAll decBool,
     jRow = encList (encPair encBytes encTagged), jUnRow = decAll (decList (decPair decBytes decTagged)),
     jSchema = encSchema, jUnSchema = decAll decSchema\<rparr>"

end
