(* ===== verification/SQL_Scan_Props.thy ===== *)
theory SQL_Scan_Props
  imports SQL_Ref
begin

text \<open>
  The property of the planner, and its application to a concrete table in the in-memory store.
\<close>

section \<open>Planned scans answer what the full scan would\<close>

context kv_store
begin

lemma scan_answers:
  assumes "ok s" "rowsOK X J db sc (view s)"
  obtains all where "scan X J S s db sc = Some (Inr all)"
proof -
  obtain L where "sorted_keys L" "set L = above (view s) (tablePrefix db (sc_Name sc)) []" by (rule entries [OF assms(1) tablePrefix_nonempty(1)])
  from scan_rows [OF assms this] show thesis by (rule that)
qed

lemma scanFor_complete:
  assumes "ok s" "tableOK X J (en_db E) sc (view s)" "timesOK X" "list_all canonical (literals e)"
  obtains all rows where "scan X J S s (en_db E) sc = Some (Inr all)" "fst (scanFor U X J S E s sc (Some e)) = Some (Inr rows)"
    "set rows \<subseteq> set all"
    "\<And>x m t b. x \<in> set all \<Longrightarrow> readsRow sc (sr_data x) m e \<Longrightarrow> accepts U (retimed t b X) m e \<Longrightarrow> x \<in> set rows"
proof -
  have rok: "rowsOK X J (en_db E) sc (view s)" using assms(2) by (simp add: tableOK_def)
  from scan_answers [OF assms(1) rok] obtain all where all: "scan X J S s (en_db E) sc = Some (Inr all)" .
  show thesis
  proof (cases "en_noPlanner E")
    case True
    then show thesis using all by (intro that [of all all]) (simp_all add: scanFor_def)
  next
    case False
    from runPlan_sound [OF assms(1,2) all planScan_planned [of sc U X "Some e"]] obtain rows where
      rows: "runPlan X J S s (en_db E) sc (planScan U X sc (Some e)) = Some (Inr rows)" "sound X sc (analyzeWhere U X sc (Some e)) all rows" by blast
    have "x \<in> set rows" if x: "x \<in> set all" "readsRow sc (sr_data x) m e" "accepts U (retimed t b X) m e" for x m t b
    proof -
      from scan_row [OF assms(1) rok all x(1)] have "typedRow sc (sr_data x)" by blast
      from analyzeWhere_holds [OF x(3,2) this assms(3,4)] x(1) rows(2) show ?thesis by (simp add: sound_def)
    qed
    with rows all False show thesis by (intro that [of all rows]) (auto simp: scanFor_def sound_def Let_def)
  qed
qed

end

text \<open>
  C23. A planned scan loses no row. On every store that keeps the contract of the key-value interface and every
  well-formed table, the scan that the planner chooses for a WHERE clause (key ranges of the primary key or of an
  index, derived from the clause's constraints) terminates without error and answers only rows of the table; among
  them is every row of the full scan that the clause accepts, whatever the clock reads when it is evaluated, where
  the clause's column references read the row's own columns.
\<close>

theorem planned_scan_complete:
  assumes "kv_store S view ok staged txok" "ok s" "tableOK X J (en_db E) sc (view s)"
    and "timesOK X" "list_all canonical (literals e)"
  shows "\<exists>all rows. scan X J S s (en_db E) sc = Some (Inr all) \<and>
    fst (scanFor U X J S E s sc (Some e)) = Some (Inr rows) \<and> set rows \<subseteq> set all \<and>
    (\<forall>x \<in> set all. \<forall>m t b. readsRow sc (sr_data x) m e \<longrightarrow> accepts U (retimed t b X) m e \<longrightarrow> x \<in> set rows)"
  by (rule kv_store.scanFor_complete [OF assms, of U]) blast

end
