(* ===== verification/SQL_DML_Props.thy ===== *)
theory SQL_DML_Props
  imports SQL_Table SQL_DML SQL_Scan_Props
begin

text \<open>
  INSERT, UPDATE and DELETE on every store that keeps the contract: what they leave of a well-formed table.
\<close>

section \<open>Staged rows\<close>

lemma cleared: "(\<lambda>k. if P k then None else (m(a := None)) k) = (\<lambda>k. if k = a \<or> P k then None else m k)"
  by (simp add: fun_eq_iff)

lemma filled: "(\<lambda>k. if P k then Some v else (m(a \<mapsto> v)) k) = (\<lambda>k. if k = a \<or> P k then Some v else m k)"
  by (simp add: fun_eq_iff)

lemma entry_Cons: "indexKeyHex idx r = Inr kh \<Longrightarrow>
    (\<exists>i \<in> set (idx # idxs). \<exists>kh. indexKeyHex i r = Inr kh \<and> k = indexEntryKey db t (ix_Name i) kh pk) \<longleftrightarrow>
    k = indexEntryKey db t (ix_Name idx) kh pk \<or> (\<exists>i \<in> set idxs. \<exists>kh. indexKeyHex i r = Inr kh \<and> k = indexEntryKey db t (ix_Name i) kh pk)"
  by auto

context kv_store
begin

lemma stageIndexDeletes_staged:
  assumes "ok s" "tok s tx" "\<And>idx. idx \<in> set idxs \<Longrightarrow> \<exists>kh. indexKeyHex idx r = Inr kh"
  shows "\<exists>tx'. stageIndexDeletes S db t idxs r pk tx = Inr tx' \<and> tok s tx' \<and>
    staged s tx' = (\<lambda>k. if \<exists>idx \<in> set idxs. \<exists>kh. indexKeyHex idx r = Inr kh \<and> k = indexEntryKey db t (ix_Name idx) kh pk then None else staged s tx k)"
  using assms(2,3)
proof (induction idxs arbitrary: tx)
  case (Cons idx idxs)
  from Cons.prems(2) [of idx] obtain kh where kh: "indexKeyHex idx r = Inr kh" by auto
  let ?tx = "txDelete S tx (indexEntryKey db t (ix_Name idx) kh pk)"
  have tx: "tok s ?tx" "staged s ?tx = (staged s tx)(indexEntryKey db t (ix_Name idx) kh pk := None)"
    using tx_delete [OF assms(1) Cons.prems(1)] by simp_all
  have "\<exists>kh. indexKeyHex x r = Inr kh" if "x \<in> set idxs" for x using Cons.prems(2) that by simp
  from Cons.IH [OF tx(1) this, unfolded tx(2) cleared] kh show ?case unfolding entry_Cons [OF kh] by simp
qed simp

lemma stageIndexWrites_staged:
  assumes "ok s" "tok s tx" "stageIndexWrites S db t idxs r pk tx = Inr tx'"
  shows "tok s tx' \<and> (\<forall>idx \<in> set idxs. \<exists>kh. indexKeyHex idx r = Inr kh) \<and>
    staged s tx' = (\<lambda>k. if \<exists>idx \<in> set idxs. \<exists>kh. indexKeyHex idx r = Inr kh \<and> k = indexEntryKey db t (ix_Name idx) kh pk then Some pk else staged s tx k)"
  using assms(2,3)
proof (induction idxs arbitrary: tx)
  case (Cons idx idxs)
  from Cons.prems(2) obtain kh where kh: "indexKeyHex idx r = Inr kh" by (cases "indexKeyHex idx r") auto
  let ?tx = "txSet S tx (indexEntryKey db t (ix_Name idx) kh pk) pk"
  have tx: "tok s ?tx" "staged s ?tx = (staged s tx)(indexEntryKey db t (ix_Name idx) kh pk \<mapsto> pk)"
    using tx_set [OF assms(1) Cons.prems(1)] by simp_all
  have "stageIndexWrites S db t idxs r pk ?tx = Inr tx'" using Cons.prems(2) kh by simp
  from Cons.IH [OF tx(1) this, unfolded tx(2) filled] kh show ?case unfolding entry_Cons [OF kh] by simp
qed simp

lemma stageDelete_staged:
  assumes "ok s" "tok s tx" "schemaOK sc" "tableOK X J db sc (staged s tx)" "storedAt X J db sc (staged s tx) pk r"
  shows "\<exists>tx'. stageIndexDeletes S db (sc_Name sc) (sc_Indexes sc) r pk tx = Inr tx' \<and> tok s (txDelete S tx' (rowAt db sc pk)) \<and>
    staged s (txDelete S tx' (rowAt db sc pk)) = dropRow db sc r pk (staged s tx)"
proof -
  have "\<exists>kh. indexKeyHex idx r = Inr kh" if "idx \<in> set (sc_Indexes sc)" for idx
    using assms(4,5) that by (auto simp: tableOK_def indexOK_iff)
  from stageIndexDeletes_staged [OF assms(1,2) this, of "sc_Indexes sc" db "sc_Name sc" pk] obtain tx' where
    tx': "stageIndexDeletes S db (sc_Name sc) (sc_Indexes sc) r pk tx = Inr tx'" "tok s tx'"
      "staged s tx' = (\<lambda>k. if isEntry db sc r pk k then None else staged s tx k)" unfolding isEntry_def by blast
  from tx_delete [OF assms(1) tx'(2), of "rowAt db sc pk"] tx'(1,3) show ?thesis by (auto simp: dropRow_def fun_eq_iff)
qed

end

section \<open>DELETE\<close>

text \<open>The clause says yes or no of a row, and its column names read that row.\<close>

definition hits :: "unicode \<Rightarrow> sqlenv \<Rightarrow> tableSchema \<Rightarrow> Expr \<Rightarrow> rowmap \<Rightarrow> bool" where
  "hits U X sc e r \<longleftrightarrow> predicateTrue U X (Some e) (Some (map_of (predRow (Some e) sc r))) = Inr True"

definition decides :: "unicode \<Rightarrow> sqlenv \<Rightarrow> tableSchema \<Rightarrow> Expr \<Rightarrow> rowmap \<Rightarrow> bool" where
  "decides U X sc e r \<longleftrightarrow> readsRow sc r (map_of (predRow (Some e) sc r)) e \<and>
     (\<exists>b. predicateTrue U X (Some e) (Some (map_of (predRow (Some e) sc r))) = Inr b)"

context kv_store
begin

lemma deleteRow_staged:
  assumes "ok s" "tok s tx" "schemaOK sc" "tableOK X J db sc (staged s tx)" "decides U X sc e (sr_data x)"
  shows "\<exists>tx'. deleteRow U X J S db sc (Some e) s (tx, n) x =
      Some (Inr (tx', n + (if hits U X sc e (sr_data x) \<and> (\<exists>r. storedAt X J db sc (staged s tx) (sr_pkhex x) r) then 1 else 0))) \<and>
    tok s tx' \<and> tableOK X J db sc (staged s tx') \<and>
    (\<forall>pk r. storedAt X J db sc (staged s tx') pk r \<longleftrightarrow> storedAt X J db sc (staged s tx) pk r \<and> \<not> (hits U X sc e (sr_data x) \<and> pk = sr_pkhex x))"
proof -
  obtain b where b: "predicateTrue U X (Some e) (Some (map_of (predRow (Some e) sc (sr_data x)))) = Inr b" using assms(5) by (auto simp: decides_def)
  let ?pk = "sr_pkhex x"
  note get = tx_get [OF assms(1,2), of "rowAt db sc ?pk"]
  show ?thesis
  proof (cases "hits U X sc e (sr_data x)")
    case False
    then show ?thesis using b assms(2,4) by (auto simp: deleteRow_def hits_def)
  next
    case hit: True
    then have p: "predicateTrue U X (Some e) (Some (map_of (predRow (Some e) sc (sr_data x)))) = Inr True" by (simp add: hits_def)
    show ?thesis
    proof (cases "staged s tx (rowAt db sc ?pk)")
      case None
      then show ?thesis using p hit get assms(2,4) by (auto simp: deleteRow_def storedAt_def)
    next
      case (Some raw)
      then obtain r where r: "decodeRow X J raw = Inr r" "storedAt X J db sc (staged s tx) ?pk r"
        using rowsOK_decodes [of X J db sc "staged s tx" ?pk raw] assms(4) by (auto simp: tableOK_def)
      from stageDelete_staged [OF assms(1-4) r(2)] obtain tx' where tx': "stageIndexDeletes S db (sc_Name sc) (sc_Indexes sc) r ?pk tx = Inr tx'"
        "tok s (txDelete S tx' (rowAt db sc ?pk))" "staged s (txDelete S tx' (rowAt db sc ?pk)) = dropRow db sc r ?pk (staged s tx)" by blast
      have "deleteRow U X J S db sc (Some e) s (tx, n) x = Some (Inr (txDelete S tx' (rowAt db sc ?pk), n + 1))"
        using p get Some r(1) tx'(1) by (simp add: deleteRow_def)
      then show ?thesis using tx' hit r(2) tableOK_dropRow [OF assms(3,4) r(2)] by (auto simp: storedAt_dropRow [OF assms(3)])
    qed
  qed
qed

lemma deleteLoop_staged:
  assumes "ok s" "schemaOK sc" "tok s tx" "tableOK X J db sc (staged s tx)" "\<forall>x \<in> set rows. decides U X sc e (sr_data x)"
  shows "\<exists>tx'. foldR (deleteRow U X J S db sc (Some e) s) (tx, n) rows =
      Some (Inr (tx', n + card {pk. (\<exists>r. storedAt X J db sc (staged s tx) pk r) \<and> (\<exists>x \<in> set rows. hits U X sc e (sr_data x) \<and> pk = sr_pkhex x)})) \<and>
    tok s tx' \<and> tableOK X J db sc (staged s tx') \<and>
    (\<forall>pk r. storedAt X J db sc (staged s tx') pk r \<longleftrightarrow> storedAt X J db sc (staged s tx) pk r \<and> \<not> (\<exists>x \<in> set rows. hits U X sc e (sr_data x) \<and> pk = sr_pkhex x))"
  using assms(3-5)
proof (induction rows arbitrary: tx n)
  case (Cons x rows)
  let ?st = "\<lambda>m pk. \<exists>r. storedAt X J db sc m pk r" and ?h = "\<lambda>x. hits U X sc e (sr_data x)"
  let ?A = "\<lambda>m xs. {pk. ?st m pk \<and> (\<exists>x \<in> set xs. ?h x \<and> pk = sr_pkhex x)}"
  from Cons.prems(3) have "decides U X sc e (sr_data x)" by simp
  from deleteRow_staged [OF assms(1) Cons.prems(1) assms(2) Cons.prems(2) this, of n] obtain tx1 where
    step: "deleteRow U X J S db sc (Some e) s (tx, n) x = Some (Inr (tx1, n + (if ?h x \<and> ?st (staged s tx) (sr_pkhex x) then 1 else 0)))"
    and tx1: "tok s tx1" "tableOK X J db sc (staged s tx1)"
      "\<forall>pk r. storedAt X J db sc (staged s tx1) pk r \<longleftrightarrow> storedAt X J db sc (staged s tx) pk r \<and> \<not> (?h x \<and> pk = sr_pkhex x)" by blast
  let ?n = "n + (if ?h x \<and> ?st (staged s tx) (sr_pkhex x) then 1 else 0)"
  from Cons.IH [OF tx1(1,2), of ?n] Cons.prems(3) obtain tx' where
    rest: "foldR (deleteRow U X J S db sc (Some e) s) (tx1, ?n) rows = Some (Inr (tx', ?n + card (?A (staged s tx1) rows)))"
    and tx': "tok s tx'" "tableOK X J db sc (staged s tx')"
      "\<forall>pk r. storedAt X J db sc (staged s tx') pk r \<longleftrightarrow> storedAt X J db sc (staged s tx1) pk r \<and> \<not> (\<exists>x \<in> set rows. ?h x \<and> pk = sr_pkhex x)" by auto
  have fin: "finite (?A (staged s tx1) rows)" by (rule finite_subset [of _ "sr_pkhex ` set rows"]) auto
  have "?A (staged s tx) (x # rows) = (if ?h x \<and> ?st (staged s tx) (sr_pkhex x) then insert (sr_pkhex x) (?A (staged s tx1) rows) else ?A (staged s tx1) rows)"
    using tx1(3) by auto
  moreover have "?h x \<Longrightarrow> sr_pkhex x \<notin> ?A (staged s tx1) rows" using tx1(3) by auto
  ultimately have "?n + card (?A (staged s tx1) rows) = n + card (?A (staged s tx) (x # rows))" using fin by simp
  with step rest tx' tx1(3) show ?case by auto
qed simp

end

section \<open>Statements\<close>

lemma mapR_same: "(\<And>x. x \<in> set xs \<Longrightarrow> f x = Some (Inr x)) \<Longrightarrow> mapR f xs = Some (Inr xs)"
  by (induction xs) simp_all

lemma resolveExpr_same: "\<not> exprHasSubquery e \<Longrightarrow> resolveExpr Q e = Some (Inr e)"
  by (induction Q e rule: resolveExpr.induct) (simp_all add: mapR_same)

context kv_store
begin

lemma runTx_commits:
  assumes "ok s" "fn c s (newTx S s) = Some (Inr (c', tx, r))" "tok s tx"
  shows "\<exists>s'. runTx S others n fn c s = Some (Inr (s', r)) \<and> ok s' \<and> view s' = staged s tx"
  using tx_commit [OF assms(1,3)] assms(2) by (auto simp: runTx.simps)

lemma scan_stored_iff:
  assumes "ok s" "rowsOK X J db sc (view s)" "scan X J S s db sc = Some (Inr all)"
  shows "storedAt X J db sc (view s) pk r \<longleftrightarrow> \<lparr>sr_data = r, sr_pkhex = pk\<rparr> \<in> set all"
proof
  show "storedAt X J db sc (view s) pk r \<Longrightarrow> \<lparr>sr_data = r, sr_pkhex = pk\<rparr> \<in> set all" by (rule scan_stored [OF assms])
next
  assume "\<lparr>sr_data = r, sr_pkhex = pk\<rparr> \<in> set all"
  from scan_row [OF assms this] show "storedAt X J db sc (view s) pk r" by (auto simp: storedAt_def rowKey_def)
qed

lemma execDelete_deletes:
  assumes "ok s" "loadSchema J S s (en_db E) table = Inr sc" "schemaOK sc" "tableOK X J (en_db E) sc (view s)"
    and X: "timesOK X" and e: "\<not> exprHasSubquery e" "list_all canonical (literals e)"
    and dec: "\<And>pk r. storedAt X J (en_db E) sc (view s) pk r \<Longrightarrow> decides U X sc e r"
  shows "\<exists>s'. execDelete U X J S others E Q table (Some e) s = Some (Inr (s', \<lparr>er_Tag = str ''DELETE '' @
      digits (card {pk. \<exists>r. storedAt X J (en_db E) sc (view s) pk r \<and> hits U X sc e r}), er_Columns = [], er_typed = []\<rparr>)) \<and>
    ok s' \<and> tableOK X J (en_db E) sc (view s') \<and>
    (\<forall>pk r. storedAt X J (en_db E) sc (view s') pk r \<longleftrightarrow> storedAt X J (en_db E) sc (view s) pk r \<and> \<not> hits U X sc e r)"
proof -
  let ?db = "en_db E" and ?v = "view s"
  let ?st = "storedAt X J ?db sc ?v"
  have rok: "rowsOK X J ?db sc ?v" using assms(4) by (simp add: tableOK_def)
  obtain all rows where all: "scan X J S s ?db sc = Some (Inr all)" and rows: "fst (scanFor U X J S E s sc (Some e)) = Some (Inr rows)"
    "set rows \<subseteq> set all" and acc: "\<And>x m t b. x \<in> set all \<Longrightarrow> readsRow sc (sr_data x) m e \<Longrightarrow> accepts U (retimed t b X) m e \<Longrightarrow> x \<in> set rows"
    using scanFor_complete [OF assms(1,4) X e(2), of U] by blast
  have st: "?st pk r \<longleftrightarrow> \<lparr>sr_data = r, sr_pkhex = pk\<rparr> \<in> set all" for pk r by (rule scan_stored_iff [OF assms(1) rok all])
  then have st_row: "?st (sr_pkhex x) (sr_data x)" if "x \<in> set all" for x using that by (cases x) simp
  have hit_rows: "(\<exists>x \<in> set rows. hits U X sc e (sr_data x) \<and> pk = sr_pkhex x) \<longleftrightarrow> hits U X sc e r" if r: "?st pk r" for pk r
  proof
    assume "\<exists>x \<in> set rows. hits U X sc e (sr_data x) \<and> pk = sr_pkhex x"
    then obtain x where "x \<in> set all" "hits U X sc e (sr_data x)" "pk = sr_pkhex x" using rows(2) by blast
    with st_row [of x] storedAt_fun [OF r] show "hits U X sc e r" by auto
  next
    assume h: "hits U X sc e r"
    then have "accepts U (retimed (clock X) (rand16 X) X) (map_of (predRow (Some e) sc r)) e" by (simp add: hits_def accepts_def retimed_def)
    moreover have "readsRow sc r (map_of (predRow (Some e) sc r)) e" using dec [OF r] by (simp add: decides_def)
    ultimately have "\<lparr>sr_data = r, sr_pkhex = pk\<rparr> \<in> set rows" using acc [of "\<lparr>sr_data = r, sr_pkhex = pk\<rparr>"] st r by simp
    with h show "\<exists>x \<in> set rows. hits U X sc e (sr_data x) \<and> pk = sr_pkhex x" by force
  qed
  have new: "tok s (newTx S s)" "staged s (newTx S s) = ?v" using tx_new [OF assms(1)] by simp_all
  have "\<forall>x \<in> set rows. decides U X sc e (sr_data x)" using st_row dec rows(2) by blast
  from deleteLoop_staged [OF assms(1,3) new(1), of X J ?db rows U e 0] this assms(4) obtain tx' where
    loop: "foldR (deleteRow U X J S ?db sc (Some e) s) (newTx S s, 0) rows =
      Some (Inr (tx', card {pk. (\<exists>r. ?st pk r) \<and> (\<exists>x \<in> set rows. hits U X sc e (sr_data x) \<and> pk = sr_pkhex x)}))"
    and tx': "tok s tx'" "tableOK X J ?db sc (staged s tx')"
      "\<forall>pk r. storedAt X J ?db sc (staged s tx') pk r \<longleftrightarrow> ?st pk r \<and> \<not> (\<exists>x \<in> set rows. hits U X sc e (sr_data x) \<and> pk = sr_pkhex x)"
    by (auto simp: new(2))
  have "{pk. (\<exists>r. ?st pk r) \<and> (\<exists>x \<in> set rows. hits U X sc e (sr_data x) \<and> pk = sr_pkhex x)} = {pk. \<exists>r. ?st pk r \<and> hits U X sc e r}" using hit_rows by blast
  note loop = loop [unfolded this]
  define fn where "fn = (\<lambda>(c :: unit) s tx. rbind (foldR (deleteRow U X J S ?db sc (Some e) s) (tx, 0 :: nat) rows) (\<lambda>(tx, count). Some (Inr (c, tx, count))))"
  have "fn () s (newTx S s) = Some (Inr ((), tx', card {pk. \<exists>r. ?st pk r \<and> hits U X sc e r}))" by (simp add: fn_def loop)
  from runTx_commits [where fn = fn and c = "()" and others = others and n = maxTxRetries, OF assms(1) this tx'(1)] obtain s' where s': "ok s'" "view s' = staged s tx'"
    and run: "runTx S others maxTxRetries fn () s = Some (Inr (s', card {pk. \<exists>r. ?st pk r \<and> hits U X sc e r}))" by blast
  have "execDelete U X J S others E Q table (Some e) s = Some (Inr (s', \<lparr>er_Tag = str ''DELETE '' @
      digits (card {pk. \<exists>r. ?st pk r \<and> hits U X sc e r}), er_Columns = [], er_typed = []\<rparr>))"
    unfolding execDelete_def using assms(2) rows(1) run [unfolded fn_def] by (simp add: resolveOpt_def resolveExpr_same [OF e(1)])
  moreover have "storedAt X J ?db sc (view s') pk r \<longleftrightarrow> ?st pk r \<and> \<not> hits U X sc e r" for pk r
    unfolding s'(2) using tx'(3) hit_rows [of pk r] by blast
  ultimately show ?thesis using s' tx'(2) by (intro exI [of _ s']) simp
qed

end

end
