(* ===== verification/SQL_Insert.thy ===== *)
theory SQL_Insert
  imports SQL_DML_Props
begin

text \<open>
  INSERT: a completed row has values of the declared types; staging it keeps the table well-formed; without
  ON CONFLICT DO REPLACE the rows of the table stay and the unique indexes stay unique.
\<close>

section \<open>Completed rows\<close>

definition fitsColumn :: "column \<Rightarrow> Value \<Rightarrow> bool" where
  "fitsColumn c v \<longleftrightarrow> canonical v \<and> (IsNull v \<or> c_Type c = TypeAny \<or> v_T v = c_Type c)"

lemma typedRow_fits: "typedRow sc r \<longleftrightarrow> (\<forall>c \<in> set (sc_Columns sc). fitsColumn c (rowGet r (c_Name c)))"
  by (simp add: typedRow_def fitsColumn_def Let_def)

definition columnOK :: "column \<Rightarrow> bool" where
  "columnOK c \<longleftrightarrow> (c_Auto c \<longrightarrow> c_Type c = TypeInt) \<and> (c_TypeName c = str ''UUID'' \<longrightarrow> c_Type c = TypeText)"

lemma schemaOK_columns: "schemaOK sc \<Longrightarrow> distinct (map c_Name (sc_Columns sc)) \<and> list_all columnOK (sc_Columns sc)"
  by (simp add: schemaOK_def columnOK_def list_all_iff)

lemma CastTo_type: "CastTo X v T = Inr cv \<Longrightarrow> IsNull v \<or> T = TypeAny \<or> v_T cv = T"
  using CastTo_Inr(1) [of X v T cv] by (cases "IsNull v \<or> v_T v = T \<or> T = TypeAny") (auto simp: CastTo_def)

lemma coerceColumn_fits:
  assumes "timesOK X" "columnOK c" "canonical v" "coerceColumn U X c v = Inr w"
  shows "fitsColumn c w"
proof (cases "IsNull v")
  case True
  then show ?thesis using assms(3,4) by (simp add: coerceColumn_def fitsColumn_def)
next
  case False
  then obtain cv where cv: "CastTo X v (c_Type c) = Inr cv" "coerceUUIDColumn U c cv = Inr w"
    using assms(4) by (auto simp: coerceColumn_def sbind_Inr split: if_splits)
  have "canonical cv" "c_Type c = TypeAny \<or> v_T cv = c_Type c"
    using CastTo_canonical [OF assms(1,3) cv(1)] CastTo_type [OF cv(1)] False by simp_all
  with cv(2) assms(2) show ?thesis by (auto simp: coerceUUIDColumn_def fitsColumn_def columnOK_def sbind_Inr split: if_splits)
qed

lemma rowGet_update: "rowGet (AList.update n v r) cn = (if cn = n then v else rowGet r cn)"
  by (simp add: rowGet_def update_conv)

definition defaultsOK :: "unicode \<Rightarrow> sqlenv \<Rightarrow> column list \<Rightarrow> bool" where
  "defaultsOK U X cs \<longleftrightarrow> (\<forall>c \<in> set cs. \<forall>v. c_Default c \<noteq> [] \<longrightarrow> evalDefault U X (c_Default c) = Some (Inr v) \<longrightarrow> canonical v)"

definition canonicalRow :: "rowmap \<Rightarrow> bool" where
  "canonicalRow r \<longleftrightarrow> (\<forall>n v. map_of r n = Some v \<longrightarrow> canonical v)"

lemma completeCols_fits:
  assumes "timesOK X" "canonicalRow src"
  shows "completeCols U X src cs out = Some (Inr full) \<Longrightarrow> distinct (map c_Name cs) \<Longrightarrow> list_all columnOK cs \<Longrightarrow> defaultsOK U X cs \<Longrightarrow>
    (\<forall>c \<in> set cs. fitsColumn c (rowGet full (c_Name c))) \<and> (\<forall>n. n \<notin> c_Name ` set cs \<longrightarrow> rowGet full n = rowGet out n)"
proof (induction cs arbitrary: out)
  case (Cons c cs)
  from Cons.prems(1) obtain v w where
    v: "(case map_of src (c_Name c) of Some v \<Rightarrow> Some (Inr v)
       | None \<Rightarrow> if c_Default c \<noteq> [] then evalDefault U X (c_Default c) else Some (Inr nullV)) = Some (Inr v)"
    and w: "coerceColumn U X c v = Inr w" and rest: "completeCols U X src cs (AList.update (c_Name c) w out) = Some (Inr full)"
    by (auto simp: rbind_Inr split: if_splits)
  have "canonical v" using v assms(2) Cons.prems(4) by (auto simp: canonicalRow_def defaultsOK_def split: option.splits if_splits)
  then have "fitsColumn c w" using coerceColumn_fits [OF assms(1) _ _ w] Cons.prems(3) by simp
  moreover have "(\<forall>c \<in> set cs. fitsColumn c (rowGet full (c_Name c))) \<and> (\<forall>n. n \<notin> c_Name ` set cs \<longrightarrow> rowGet full n = rowGet (AList.update (c_Name c) w out) n)"
    using Cons.IH [OF rest] Cons.prems(2-4) by (simp add: defaultsOK_def)
  ultimately show ?case using Cons.prems(2) by (auto simp: rowGet_update)
qed simp

lemma completeRow_typed:
  assumes "timesOK X" "canonicalRow src" "schemaOK sc" "defaultsOK U X (sc_Columns sc)" "completeRow U X sc src = Some (Inr full)"
  shows "typedRow sc full"
  using completeCols_fits [OF assms(1,2)] assms(3-) schemaOK_columns [OF assms(3)]
  by (auto simp: typedRow_fits completeRow_def rbind_Inr split: if_splits)

lemma assignAuto_typed:
  assumes "schemaOK sc" "typedRow sc full"
  shows "typedRow sc (fst (assignAuto sc full next))"
proof -
  have "fitsColumn c (intV i)" if c: "c \<in> set (sc_Columns sc)" "c_Name c = autoCol sc" "autoCol sc \<noteq> []" for c i
  proof -
    from c(2,3) obtain a where "find c_Auto (sc_Columns sc) = Some a" "autoCol sc = c_Name a" by (auto simp: autoCol_def split: option.splits)
    then have "a \<in> set (sc_Columns sc)" "c_Auto a" "c_Name a = c_Name c" using c(2) by (auto simp: find_Some_iff)
    then have "c_Auto c" using c(1) schemaOK_columns [OF assms(1)] by (metis distinct_map inj_onD)
    then show ?thesis using c(1) schemaOK_columns [OF assms(1)] by (simp add: fitsColumn_def columnOK_def list_all_iff)
  qed
  with assms(2) show ?thesis by (auto simp: typedRow_fits assignAuto_def Let_def rowGet_update)
qed

section \<open>The table after an INSERT\<close>

text \<open>The row survives its storage format.\<close>

definition keeps :: "sqlenv \<Rightarrow> jsonenv \<Rightarrow> rowmap \<Rightarrow> bool" where
  "keeps X J r \<longleftrightarrow> (\<forall>raw. encodeRow X J r = Inr raw \<longrightarrow> (\<exists>r'. decodeRow X J raw = Inr r' \<and> map_of r' = map_of r))"

definition insertable :: "unicode \<Rightarrow> sqlenv \<Rightarrow> jsonenv \<Rightarrow> tableSchema \<Rightarrow> rowmap \<Rightarrow> bool" where
  "insertable U X J sc src \<longleftrightarrow> canonicalRow src \<and>
     (\<forall>full next. completeRow U X sc src = Some (Inr full) \<longrightarrow> keeps X J (fst (assignAuto sc full next)))"

lemma pkHexFor_Inr: "pkHexFor sc r n = Inr pk \<Longrightarrow> (\<exists>b. pk = hexString b) \<and> (hasPK sc \<longrightarrow> encodeKey (map (rowGet r) (sc_PK sc)) = Inr pk)"
  by (auto simp: pkHexFor_def split: if_splits dest: encodeKey_hex)

text \<open>The parts of a successful step.\<close>

lemma insertRow_cases:
  assumes "insertRow U X J S db ins sc s st src = Some (Inr st')"
  obtains full n pkhex cur ukeys dup where
    "completeRow U X sc src = Some (Inr full)" "pkHexFor sc (fst (assignAuto sc full (is_next st))) n = Inr pkhex"
    "txGet S s (is_tx st) (rowAt db sc pkhex) = Inr cur" "uniqueKeysFor (sc_Indexes sc) (fst (assignAuto sc full (is_next st))) = Inr ukeys"
    "insertConflicts S s db sc (is_unique st) ukeys (fst (assignAuto sc full (is_next st))) pkhex (cur \<noteq> None) = Inr dup"
    "dup \<noteq> None \<and> ins_OnConflict ins = str ''NOTHING'' \<and> is_tx st' = is_tx st \<and> is_unique st' = is_unique st \<or>
     (\<exists>uniq tx raw. (dup = None \<and> uniq = is_unique st \<and> tx = is_tx st \<or>
         (\<exists>err pks. dup = Some (err, pks) \<and> ins_OnConflict ins = str ''REPLACE'' \<and> evictRows X J S s db sc pks (is_unique st) (is_tx st) = Inr (uniq, tx))) \<and>
       encodeRow X J (fst (assignAuto sc full (is_next st))) = Inr raw \<and>
       stageIndexWrites S db (sc_Name sc) (sc_Indexes sc) (fst (assignAuto sc full (is_next st))) pkhex (txSet S tx (rowAt db sc pkhex) raw) = Inr (is_tx st') \<and>
       is_unique st' = foldl (\<lambda>m uk. AList.update uk pkhex m) uniq ukeys)"
proof -
  from assms obtain full where full: "completeRow U X sc src = Some (Inr full)" by (auto simp: insertRow_def rbind_Inr)
  obtain fl nx mv where a: "assignAuto sc full (is_next st) = (fl, nx, mv)" by (metis prod_cases3)
  show thesis
    using assms full a that [of full "nx + 1"]
    by (auto simp: insertRow_def rbind_Inr Let_def a sbind_Inr split: if_splits option.splits prod.splits)
qed

lemma rowsOK_free: "rowsOK X J db sc m \<Longrightarrow> m (rowAt db sc pk) = None \<longleftrightarrow> \<not> (\<exists>r. storedAt X J db sc m pk r)"
  using rowsOK_decodes [of X J db sc m pk] by (cases "m (rowAt db sc pk)") (auto simp: storedAt_def)

context kv_store
begin

lemma stageRowDelete_staged:
  assumes "ok s" "schemaOK sc" "tok s tx" "tableOK X J db sc (staged s tx)" "stageRowDelete X J S s db sc pk tx = Inr tx'"
  shows "tok s tx' \<and> tableOK X J db sc (staged s tx') \<and>
    (\<forall>p r. storedAt X J db sc (staged s tx') p r \<longleftrightarrow> storedAt X J db sc (staged s tx) p r \<and> p \<noteq> pk)"
proof (cases "staged s tx (rowAt db sc pk)")
  case None
  then have "tx' = tx" using assms(5) by (simp add: stageRowDelete_def tx_get [OF assms(1,3)])
  then show ?thesis using assms(3,4) None by (auto simp: storedAt_def)
next
  case (Some raw)
  from rowsOK_decodes [where X = X and J = J and m = "staged s tx" and sc = sc and pk = pk, OF _ Some] assms(4) obtain r where r: "decodeRow X J raw = Inr r" "storedAt X J db sc (staged s tx) pk r"
    by (auto simp: tableOK_def)
  from stageDelete_staged [OF assms(1,3,2,4) r(2)] obtain t where "stageIndexDeletes S db (sc_Name sc) (sc_Indexes sc) r pk tx = Inr t"
    "tok s (txDelete S t (rowAt db sc pk))" "staged s (txDelete S t (rowAt db sc pk)) = dropRow db sc r pk (staged s tx)" by blast
  moreover from this have "tx' = txDelete S t (rowAt db sc pk)" using assms(5) Some r(1) by (simp add: stageRowDelete_def tx_get [OF assms(1,3)])
  ultimately show ?thesis using tableOK_dropRow [OF assms(2,4) r(2)] by (auto simp: storedAt_dropRow [OF assms(2)])
qed

lemma evictRows_staged:
  assumes "ok s" "schemaOK sc" "tok s tx" "tableOK X J db sc (staged s tx)" "evictRows X J S s db sc pks uniq tx = Inr (uniq', tx')"
  shows "tok s tx' \<and> tableOK X J db sc (staged s tx') \<and>
    (\<forall>p r. storedAt X J db sc (staged s tx') p r \<longleftrightarrow> storedAt X J db sc (staged s tx) p r \<and> p \<notin> set pks)"
  using assms(3-)
proof (induction pks arbitrary: uniq tx)
  case (Cons pk pks)
  from Cons.prems(3) obtain t where t: "stageRowDelete X J S s db sc pk tx = Inr t"
    "evictRows X J S s db sc pks (filter (\<lambda>(k, v). v \<noteq> pk) uniq) t = Inr (uniq', tx')" by (auto simp: sbind_Inr)
  note d = stageRowDelete_staged [OF assms(1,2) Cons.prems(1,2) t(1)]
  with Cons.IH [OF _ _ t(2)] show ?case by auto
qed simp

lemma putRow_staged:
  assumes "ok s" "schemaOK sc" "tok s tx" "tableOK X J db sc (staged s tx)" "staged s tx (rowAt db sc pk) = None"
    and r: "typedRow sc r" "keeps X J r" "encodeRow X J r = Inr raw" and pk: "pkHexFor sc r n = Inr pk"
    and w: "stageIndexWrites S db (sc_Name sc) (sc_Indexes sc) r pk (txSet S tx (rowAt db sc pk) raw) = Inr tx'"
  obtains r' where "tok s tx'" "tableOK X J db sc (staged s tx')" "map_of r' = map_of r"
    "\<forall>idx \<in> set (sc_Indexes sc). \<exists>kh. indexKeyHex idx r = Inr kh"
    "\<forall>p x. storedAt X J db sc (staged s tx') p x \<longleftrightarrow> (if p = pk then x = r' else storedAt X J db sc (staged s tx) p x)"
proof -
  from r(2,3) obtain r' where r': "decodeRow X J raw = Inr r'" "map_of r' = map_of r" by (auto simp: keeps_def)
  have set1: "tok s (txSet S tx (rowAt db sc pk) raw)" "staged s (txSet S tx (rowAt db sc pk) raw) = (staged s tx)(rowAt db sc pk \<mapsto> raw)"
    using tx_set [OF assms(1,3)] by simp_all
  from stageIndexWrites_staged [OF assms(1) set1(1) w] have tx': "tok s tx'" "\<forall>idx \<in> set (sc_Indexes sc). \<exists>kh. indexKeyHex idx r = Inr kh"
    "staged s tx' = putRow db sc r pk raw (staged s tx)" unfolding isEntry_def [symmetric] set1(2) by (auto simp: putRow_def fun_eq_iff)
  have "tableOK X J db sc (staged s tx')" unfolding tx'(3)
    using pkHexFor_Inr [OF pk] tx'(2) by (intro tableOK_putRow [OF assms(2,4,5) r'(1) r'(2) r(1)]) simp_all
  then show thesis using tx' r' by (intro that [of r']) (auto simp: storedAt_putRow [OF assms(2)])
qed

end

text \<open>A state of the loop, and a step of it.\<close>

definition keepsRows :: "sqlenv \<Rightarrow> jsonenv \<Rightarrow> bytes \<Rightarrow> tableSchema \<Rightarrow> (bytes \<rightharpoonup> bytes) \<Rightarrow> (bytes \<rightharpoonup> bytes) \<Rightarrow> bool" where
  "keepsRows X J db sc m m' \<longleftrightarrow> (\<forall>pk r. storedAt X J db sc m pk r \<longrightarrow> storedAt X J db sc m' pk r)"

context kv_store
begin

lemma insertRow_step:
  assumes "ok s" "schemaOK sc" "tok s (is_tx st)" "tableOK X J db sc (staged s (is_tx st))"
    and src: "timesOK X" "defaultsOK U X (sc_Columns sc)" "insertable U X J sc src" and run: "insertRow U X J S db ins sc s st src = Some (Inr st')"
  obtains "is_tx st' = is_tx st" "is_unique st' = is_unique st"
    | r n pk ukeys uniq tx raw where "typedRow sc r" "keeps X J r" "encodeRow X J r = Inr raw" "pkHexFor sc r n = Inr pk"
      "uniqueKeysFor (sc_Indexes sc) r = Inr ukeys" "tok s tx" "tableOK X J db sc (staged s tx)" "staged s tx (rowAt db sc pk) = None"
      "stageIndexWrites S db (sc_Name sc) (sc_Indexes sc) r pk (txSet S tx (rowAt db sc pk) raw) = Inr (is_tx st')"
      "is_unique st' = foldl (\<lambda>m uk. AList.update uk pk m) uniq ukeys"
      "ins_OnConflict ins \<noteq> str ''REPLACE'' \<longrightarrow> tx = is_tx st \<and> uniq = is_unique st \<and> insertConflicts S s db sc uniq ukeys r pk False = Inr None"
proof (rule insertRow_cases [OF run])
  fix full n pk cur ukeys dup
  let ?r = "fst (assignAuto sc full (is_next st))" and ?m = "staged s (is_tx st)"
  assume full: "completeRow U X sc src = Some (Inr full)" and pk: "pkHexFor sc ?r n = Inr pk" and cur: "txGet S s (is_tx st) (rowAt db sc pk) = Inr cur"
    and keys: "uniqueKeysFor (sc_Indexes sc) ?r = Inr ukeys"
    and dup: "insertConflicts S s db sc (is_unique st) ukeys ?r pk (cur \<noteq> None) = Inr dup"
    and rest: "dup \<noteq> None \<and> ins_OnConflict ins = str ''NOTHING'' \<and> is_tx st' = is_tx st \<and> is_unique st' = is_unique st \<or>
     (\<exists>uniq tx raw. (dup = None \<and> uniq = is_unique st \<and> tx = is_tx st \<or>
         (\<exists>err pks. dup = Some (err, pks) \<and> ins_OnConflict ins = str ''REPLACE'' \<and> evictRows X J S s db sc pks (is_unique st) (is_tx st) = Inr (uniq, tx))) \<and>
       encodeRow X J ?r = Inr raw \<and> stageIndexWrites S db (sc_Name sc) (sc_Indexes sc) ?r pk (txSet S tx (rowAt db sc pk) raw) = Inr (is_tx st') \<and>
       is_unique st' = foldl (\<lambda>m uk. AList.update uk pk m) uniq ukeys)"
  have typed: "typedRow sc ?r" using assignAuto_typed [OF assms(2)] completeRow_typed [OF src(1) _ assms(2) src(2) full] src(3) by (simp add: insertable_def)
  have kept: "keeps X J ?r" using src(3) full by (simp add: insertable_def)
  have cur': "cur = ?m (rowAt db sc pk)" using cur tx_get [OF assms(1,3)] by simp
  have plain: "cur = None" if "dup = None" using dup that by (auto simp: insertConflicts_def split: if_splits)
  have evicted: "tok s tx \<and> tableOK X J db sc (staged s tx) \<and> staged s tx (rowAt db sc pk) = None"
    if e: "dup = Some (err, pks)" "evictRows X J S s db sc pks (is_unique st) (is_tx st) = Inr (uniq, tx)" for err pks uniq tx
  proof -
    from evictRows_staged [OF assms(1-4) e(2)] have ev: "tok s tx" "tableOK X J db sc (staged s tx)"
      "\<forall>p r. storedAt X J db sc (staged s tx) p r \<longleftrightarrow> storedAt X J db sc ?m p r \<and> p \<notin> set pks" by simp_all
    have "cur \<noteq> None \<Longrightarrow> pks = [pk]" using dup e(1) by (simp add: insertConflicts_def)
    then have "\<not> (\<exists>r. storedAt X J db sc (staged s tx) pk r)" using ev(3) cur' by (cases cur) (auto simp: storedAt_def)
    with ev rowsOK_free [of X J db sc "staged s tx" pk] show ?thesis by (simp add: tableOK_def)
  qed
  note put = that(2) [OF typed kept _ pk keys]
  from rest show thesis
  proof (elim disjE exE conjE)
    fix uniq tx raw
    assume a: "encodeRow X J ?r = Inr raw" "stageIndexWrites S db (sc_Name sc) (sc_Indexes sc) ?r pk (txSet S tx (rowAt db sc pk) raw) = Inr (is_tx st')"
      "is_unique st' = foldl (\<lambda>m uk. AList.update uk pk m) uniq ukeys" and d: "dup = None" "uniq = is_unique st" "tx = is_tx st"
    show thesis using put [OF a(1) _ _ _ a(2,3)] assms(3,4) plain [OF d(1)] cur' dup d by simp
  next
    fix uniq tx raw err pks
    assume a: "encodeRow X J ?r = Inr raw" "stageIndexWrites S db (sc_Name sc) (sc_Indexes sc) ?r pk (txSet S tx (rowAt db sc pk) raw) = Inr (is_tx st')"
      "is_unique st' = foldl (\<lambda>m uk. AList.update uk pk m) uniq ukeys" and d: "dup = Some (err, pks)" "ins_OnConflict ins = str ''REPLACE''"
      "evictRows X J S s db sc pks (is_unique st) (is_tx st) = Inr (uniq, tx)"
    show thesis using put [OF a(1) _ _ _ a(2,3)] evicted [OF d(1,3)] d(2) by simp
  qed (rule that(1))
qed

lemma insertRow_table:
  assumes "ok s" "schemaOK sc" "tok s (is_tx st)" "tableOK X J db sc (staged s (is_tx st))"
    and src: "timesOK X" "defaultsOK U X (sc_Columns sc)" "insertable U X J sc src" and run: "insertRow U X J S db ins sc s st src = Some (Inr st')"
  shows "tok s (is_tx st') \<and> tableOK X J db sc (staged s (is_tx st')) \<and>
    (ins_OnConflict ins \<noteq> str ''REPLACE'' \<longrightarrow> keepsRows X J db sc (staged s (is_tx st)) (staged s (is_tx st')))"
proof (rule insertRow_step [OF assms])
  assume "is_tx st' = is_tx st"
  then show ?thesis using assms(3,4) by (simp add: keepsRows_def)
next
  fix r n pk ukeys uniq tx raw
  assume r: "typedRow sc r" "keeps X J r" "encodeRow X J r = Inr raw" "pkHexFor sc r n = Inr pk" and tx: "tok s tx" "tableOK X J db sc (staged s tx)"
    "staged s tx (rowAt db sc pk) = None" and w: "stageIndexWrites S db (sc_Name sc) (sc_Indexes sc) r pk (txSet S tx (rowAt db sc pk) raw) = Inr (is_tx st')"
    and oc: "ins_OnConflict ins \<noteq> str ''REPLACE'' \<longrightarrow> tx = is_tx st \<and> uniq = is_unique st \<and> insertConflicts S s db sc uniq ukeys r pk False = Inr None"
  show ?thesis
  proof (rule putRow_staged [OF assms(1,2) tx r w])
    fix r'
    assume p: "tok s (is_tx st')" "tableOK X J db sc (staged s (is_tx st'))"
      "\<forall>p x. storedAt X J db sc (staged s (is_tx st')) p x \<longleftrightarrow> (if p = pk then x = r' else storedAt X J db sc (staged s tx) p x)"
    then show ?thesis using oc tx(3) by (auto simp: keepsRows_def storedAt_def)
  qed
qed

end

section \<open>Unique indexes\<close>

definition uniqueOK :: "sqlenv \<Rightarrow> jsonenv \<Rightarrow> bytes \<Rightarrow> tableSchema \<Rightarrow> (bytes \<rightharpoonup> bytes) \<Rightarrow> bool" where
  "uniqueOK X J db sc m \<longleftrightarrow> (\<forall>idx \<in> set (sc_Indexes sc). ix_Unique idx \<longrightarrow> (\<forall>pk r pk' r'. storedAt X J db sc m pk r \<longrightarrow> storedAt X J db sc m pk' r' \<longrightarrow>
     \<not> rowHasNullIn (ix_Columns idx) r \<longrightarrow> \<not> rowHasNullIn (ix_Columns idx) r' \<longrightarrow> indexKeyHex idx r = indexKeyHex idx r' \<longrightarrow> pk = pk'))"

text \<open>A row of the transaction is a row of the snapshot, or its unique keys are noted under its primary key.\<close>

definition claimed :: "sqlenv \<Rightarrow> jsonenv \<Rightarrow> bytes \<Rightarrow> tableSchema \<Rightarrow> (bytes \<rightharpoonup> bytes) \<Rightarrow> (bytes \<times> bytes) list \<Rightarrow> (bytes \<rightharpoonup> bytes) \<Rightarrow> bool" where
  "claimed X J db sc base uniq m \<longleftrightarrow> (\<forall>pk r. storedAt X J db sc m pk r \<longrightarrow> storedAt X J db sc base pk r \<or>
     (\<forall>idx \<in> set (sc_Indexes sc). ix_Unique idx \<longrightarrow> \<not> rowHasNullIn (ix_Columns idx) r \<longrightarrow>
       (\<forall>kh. indexKeyHex idx r = Inr kh \<longrightarrow> map_of uniq (ix_Name idx @ str ''/'' @ kh) = Some pk)))"

lemma uniqueKeysFor_mem:
  "uniqueKeysFor idxs r = Inr ks \<Longrightarrow> k \<in> set ks \<longleftrightarrow> (\<exists>idx \<in> set idxs. ix_Unique idx \<and> \<not> rowHasNullIn (ix_Columns idx) r \<and>
     (\<exists>kh. indexKeyHex idx r = Inr kh \<and> k = ix_Name idx @ str ''/'' @ kh))"
proof (induction idxs arbitrary: ks)
  case (Cons i idxs)
  show ?case
  proof (cases "\<not> ix_Unique i \<or> rowHasNullIn (ix_Columns i) r")
    case True
    then have "uniqueKeysFor idxs r = Inr ks" using Cons.prems by (auto split: if_splits)
    from Cons.IH [OF this] True show ?thesis by auto
  next
    case False
    then obtain kh ks' where i: "indexKeyHex i r = Inr kh" and ks': "uniqueKeysFor idxs r = Inr ks'" and ks: "ks = (ix_Name i @ str ''/'' @ kh) # ks'"
      using Cons.prems by (auto simp: sbind_Inr)
    from False i show ?thesis unfolding ks list.set insert_iff Cons.IH [OF ks'] bex_simps by simp
  qed
qed simp

lemma map_of_claims: "map_of (foldl (\<lambda>m uk. AList.update uk pk m) uniq ks) k = (if k \<in> set ks then Some pk else map_of uniq k)"
  by (induction ks arbitrary: uniq) (simp_all add: update_conv')

lemma first_two:
  assumes "sorted_keys L" "(k, v) \<in> set L" "\<forall>x \<in> set (take 2 L). fst x = c"
  shows "k = c"
proof -
  consider "L = []" | x where "L = [x]" | x y L' where "L = x # y # L'" by (cases L; cases "tl L") auto
  then show ?thesis
  proof cases
    case 3
    then have "fst x = c" "fst y = c" using assms(3) by (simp_all add: numeral_2_eq_2)
    moreover have "fst x < fst y" using assms(1) 3 by simp
    ultimately show ?thesis by simp
  qed (use assms in auto)
qed

context kv_store
begin

lemma uniqueConflicts_none:
  assumes "ok s" "uniqueConflicts S s db sc idxs r self = Inr []" "idx \<in> set idxs" "ix_Unique idx" "\<not> rowHasNullIn (ix_Columns idx) r"
    "indexKeyHex idx r = Inr kh" "view s (entryKey db sc idx kh pk) = Some v"
  shows "pk = self"
  using assms(2,3)
proof (induction idxs)
  case (Cons i idxs)
  show ?case
  proof (cases "i = idx")
    case False
    then show ?thesis using Cons by (auto simp: sbind_Inr Let_def split: if_splits prod.splits)
  next
    case True
    let ?p = "oneIndexPrefix db (sc_Name sc) (ix_Name idx) @ kh @ str ''/''"
    obtain L next' where L: "sorted_keys L" "set L = above (view s) ?p []" "kvList S s ?p [] 2 = Inr (take 2 L, next')"
      using list [OF assms(1), of 2 ?p "[]"] by auto
    have none: "\<forall>x \<in> set (take 2 L). TrimPrefix (fst x) ?p = self"
      using Cons.prems(1) L(3) True assms(4-6) by (auto simp: Let_def sbind_Inr filter_empty_conv split: if_splits)
    have "prefix ?p (fst x)" if "x \<in> set (take 2 L)" for x using in_set_takeD [OF that] L(2) by (auto simp: above_def)
    with none have "\<forall>x \<in> set (take 2 L). fst x = ?p @ self" by (metis TrimPrefix_def append_eq_conv_conj prefix_def)
    moreover have "(?p @ pk, v) \<in> set L" using assms(7) L(2) by (simp add: above_def indexEntryKey_def)
    ultimately have "?p @ pk = ?p @ self" by (rule_tac first_two [OF L(1)])
    then show ?thesis by simp
  qed
qed simp

text \<open>No other row holds a unique key of the new row.\<close>

lemma new_row_unique:
  assumes "ok s" "schemaOK sc" "tableOK X J db sc (view s)" "claimed X J db sc (view s) uniq m"
    and none: "insertConflicts S s db sc uniq ukeys r pk taken = Inr None" and keys: "uniqueKeysFor (sc_Indexes sc) r = Inr ukeys"
    and idx: "idx \<in> set (sc_Indexes sc)" "ix_Unique idx" "\<not> rowHasNullIn (ix_Columns idx) r" "indexKeyHex idx r = Inr kh"
    and x: "storedAt X J db sc m p x" "\<not> rowHasNullIn (ix_Columns idx) x" "indexKeyHex idx x = Inr kh"
  shows "p = pk"
proof (cases "storedAt X J db sc (view s) p x")
  case True
  have "indexOK X J db sc (view s) idx" using assms(3) idx(1) by (simp add: tableOK_def)
  from indexOK_lookup [OF this True x(3)] have "view s (entryKey db sc idx kh p) = Some p" .
  moreover have "uniqueConflicts S s db sc (sc_Indexes sc) r pk = Inr []"
    using none by (auto simp: insertConflicts_def sbind_Inr split: if_splits option.splits)
  ultimately show ?thesis using uniqueConflicts_none [OF assms(1) _ idx] by blast
next
  case False
  then have "map_of uniq (ix_Name idx @ str ''/'' @ kh) = Some p" using assms(4) x idx(1,2) by (auto simp: claimed_def)
  moreover have "ix_Name idx @ str ''/'' @ kh \<in> set ukeys" using uniqueKeysFor_mem [OF keys] idx by blast
  moreover have "find (\<lambda>uk. case map_of uniq uk of Some prev \<Rightarrow> prev \<noteq> pk | None \<Rightarrow> False) ukeys = None"
    using none unfolding insertConflicts_def
    by (cases "find (\<lambda>uk. case map_of uniq uk of Some prev \<Rightarrow> prev \<noteq> pk | None \<Rightarrow> False) ukeys") (simp_all split: if_splits)
  ultimately show ?thesis by (auto simp: find_None_iff)
qed

end

text \<open>Adding a row whose unique keys no other row holds.\<close>

definition clashFree :: "sqlenv \<Rightarrow> jsonenv \<Rightarrow> bytes \<Rightarrow> tableSchema \<Rightarrow> (bytes \<rightharpoonup> bytes) \<Rightarrow> bytes \<Rightarrow> rowmap \<Rightarrow> bool" where
  "clashFree X J db sc m pk r \<longleftrightarrow> (\<forall>idx \<in> set (sc_Indexes sc). ix_Unique idx \<longrightarrow> \<not> rowHasNullIn (ix_Columns idx) r \<longrightarrow>
     (\<forall>p x. storedAt X J db sc m p x \<longrightarrow> \<not> rowHasNullIn (ix_Columns idx) x \<longrightarrow> indexKeyHex idx x = indexKeyHex idx r \<longrightarrow> p = pk))"

lemma uniqueOK_put:
  assumes put: "\<forall>p x. storedAt X J db sc m' p x \<longleftrightarrow> (if p = pk then x = r else storedAt X J db sc m p x)"
    and "uniqueOK X J db sc m" "clashFree X J db sc m pk r"
  shows "uniqueOK X J db sc m'"
  unfolding uniqueOK_def
proof (intro ballI allI impI)
  fix idx p x p' x'
  assume a: "idx \<in> set (sc_Indexes sc)" "ix_Unique idx" "storedAt X J db sc m' p x" "storedAt X J db sc m' p' x'"
    "\<not> rowHasNullIn (ix_Columns idx) x" "\<not> rowHasNullIn (ix_Columns idx) x'" "indexKeyHex idx x = indexKeyHex idx x'"
  have new: "y = r" if "storedAt X J db sc m' pk y" for y using that put by simp
  have old: "storedAt X J db sc m q y" if "storedAt X J db sc m' q y" "q \<noteq> pk" for q y using that put by simp
  have clash: "q = pk" if "storedAt X J db sc m q y" "\<not> rowHasNullIn (ix_Columns idx) r" "\<not> rowHasNullIn (ix_Columns idx) y" "indexKeyHex idx y = indexKeyHex idx r" for q y
    using assms(3) a(1,2) that unfolding clashFree_def by blast
  consider "p = pk" "p' = pk" | "p = pk" "p' \<noteq> pk" | "p \<noteq> pk" "p' = pk" | "p \<noteq> pk" "p' \<noteq> pk" by blast
  then show "p = p'"
  proof cases
    case 2
    then show ?thesis using new [of x] a clash [OF old [OF a(4)]] by simp
  next
    case 3
    then show ?thesis using new [of x'] a clash [OF old [OF a(3)]] by simp
  next
    case 4
    then show ?thesis using assms(2) a(1,2,5-7) old [OF a(3)] old [OF a(4)] unfolding uniqueOK_def by blast
  qed simp
qed

lemma claimed_put:
  assumes put: "\<forall>p x. storedAt X J db sc m' p x \<longleftrightarrow> (if p = pk then x = r else storedAt X J db sc m p x)"
    and "schemaOK sc" "claimed X J db sc base uniq m" "clashFree X J db sc m pk r" and keys: "uniqueKeysFor (sc_Indexes sc) r = Inr ukeys"
  shows "claimed X J db sc base (foldl (\<lambda>m uk. AList.update uk pk m) uniq ukeys) m'"
  unfolding claimed_def map_of_claims
proof (intro allI impI)
  fix p x
  assume st: "storedAt X J db sc m' p x"
  have apart: "ix_Name idx @ str ''/'' @ kh \<notin> set ukeys"
    if i: "idx \<in> set (sc_Indexes sc)" "ix_Unique idx" "\<not> rowHasNullIn (ix_Columns idx) x" "indexKeyHex idx x = Inr kh" and p: "p \<noteq> pk" for idx kh
  proof
    assume "ix_Name idx @ str ''/'' @ kh \<in> set ukeys"
    then obtain i' kh' where e: "i' \<in> set (sc_Indexes sc)" "\<not> rowHasNullIn (ix_Columns i') r" "indexKeyHex i' r = Inr kh'"
      "ix_Name idx @ 47 # kh = ix_Name i' @ 47 # kh'" unfolding uniqueKeysFor_mem [OF keys] by auto
    have "47 \<notin> set (ix_Name idx)" "47 \<notin> set (ix_Name i')" using assms(2) i(1) e(1) by (auto simp: schemaOK_def)
    with e(4) have k: "ix_Name idx = ix_Name i'" "kh = kh'" by (simp_all add: cut_at_slash)
    then have "idx = i'" using assms(2) i(1) e(1) by (auto simp: schemaOK_def distinct_map inj_on_def)
    moreover have "storedAt X J db sc m p x" using st put p by simp
    ultimately show False using assms(4) i e(2,3) k(2) p unfolding clashFree_def by metis
  qed
  show "storedAt X J db sc base p x \<or> (\<forall>idx \<in> set (sc_Indexes sc). ix_Unique idx \<longrightarrow> \<not> rowHasNullIn (ix_Columns idx) x \<longrightarrow>
     (\<forall>kh. indexKeyHex idx x = Inr kh \<longrightarrow> (if ix_Name idx @ str ''/'' @ kh \<in> set ukeys then Some pk else map_of uniq (ix_Name idx @ str ''/'' @ kh)) = Some p))"
  proof (cases "p = pk")
    case True
    with st put have "x = r" by simp
    then show ?thesis using True uniqueKeysFor_mem [OF keys] by auto
  next
    case False
    with st put have "storedAt X J db sc m p x" by simp
    then show ?thesis using assms(3) apart [OF _ _ _ _ False] unfolding claimed_def by simp
  qed
qed

context kv_store
begin

lemma insertRow_unique:
  assumes "ok s" "schemaOK sc" "tok s (is_tx st)" "tableOK X J db sc (staged s (is_tx st))"
    and src: "timesOK X" "defaultsOK U X (sc_Columns sc)" "insertable U X J sc src" and run: "insertRow U X J S db ins sc s st src = Some (Inr st')"
    and base: "tableOK X J db sc (view s)" and oc: "ins_OnConflict ins \<noteq> str ''REPLACE''"
    and inv: "uniqueOK X J db sc (staged s (is_tx st))" "claimed X J db sc (view s) (is_unique st) (staged s (is_tx st))"
  shows "uniqueOK X J db sc (staged s (is_tx st')) \<and> claimed X J db sc (view s) (is_unique st') (staged s (is_tx st'))"
proof (rule insertRow_step [OF assms(1-8)])
  assume "is_tx st' = is_tx st" "is_unique st' = is_unique st"
  then show ?thesis using inv by simp
next
  fix r n pk ukeys uniq tx raw
  assume r: "typedRow sc r" "keeps X J r" "encodeRow X J r = Inr raw" "pkHexFor sc r n = Inr pk" and keys: "uniqueKeysFor (sc_Indexes sc) r = Inr ukeys"
    and tx: "tok s tx" "tableOK X J db sc (staged s tx)" "staged s tx (rowAt db sc pk) = None"
    and w: "stageIndexWrites S db (sc_Name sc) (sc_Indexes sc) r pk (txSet S tx (rowAt db sc pk) raw) = Inr (is_tx st')"
    and uniq: "is_unique st' = foldl (\<lambda>m uk. AList.update uk pk m) uniq ukeys"
    and plain: "ins_OnConflict ins \<noteq> str ''REPLACE'' \<longrightarrow> tx = is_tx st \<and> uniq = is_unique st \<and> insertConflicts S s db sc uniq ukeys r pk False = Inr None"
  from plain oc have e: "tx = is_tx st" "uniq = is_unique st" and none: "insertConflicts S s db sc uniq ukeys r pk False = Inr None" by blast+
  show ?thesis
  proof (rule putRow_staged [OF assms(1,2) tx r w])
    fix r'
    assume same: "map_of r' = map_of r" and kh: "\<forall>idx \<in> set (sc_Indexes sc). \<exists>kh. indexKeyHex idx r = Inr kh"
      and put: "\<forall>p x. storedAt X J db sc (staged s (is_tx st')) p x \<longleftrightarrow> (if p = pk then x = r' else storedAt X J db sc (staged s tx) p x)"
    have "rowGet r' = rowGet r" using same by (simp add: rowGet_def fun_eq_iff)
    then have r': "indexKeyHex idx r' = indexKeyHex idx r" "rowHasNullIn cs r' = rowHasNullIn cs r" for idx cs
      by (simp_all only: indexKeyHex_def rowHasNullIn_def)
    have "uniqueKeysFor idxs r' = uniqueKeysFor idxs r" for idxs by (induction idxs) (simp_all add: r')
    then have keys': "uniqueKeysFor (sc_Indexes sc) r' = Inr ukeys" using keys by simp
    have inv': "claimed X J db sc (view s) uniq (staged s tx)" using inv(2) e by simp
    have "clashFree X J db sc (staged s tx) pk r'" unfolding clashFree_def r'
    proof (intro ballI allI impI)
      fix idx p x
      assume i: "idx \<in> set (sc_Indexes sc)" "ix_Unique idx" "\<not> rowHasNullIn (ix_Columns idx) r" and x: "storedAt X J db sc (staged s tx) p x"
        "\<not> rowHasNullIn (ix_Columns idx) x" "indexKeyHex idx x = indexKeyHex idx r"
      from kh i(1) obtain k where "indexKeyHex idx r = Inr k" by blast
      with new_row_unique [OF assms(1,2) base inv' none keys i _ x(1,2)] x(3) show "p = pk" by simp
    qed
    then show ?thesis using uniqueOK_put [OF put] claimed_put [OF put assms(2) inv' _ keys'] inv(1) uniq e by simp
  qed
qed

end

section \<open>The statement\<close>

lemma foldR_inv:
  assumes "\<And>a b c. P a \<Longrightarrow> b \<in> set xs \<Longrightarrow> f a b = Some (Inr c) \<Longrightarrow> P c"
  shows "P a \<Longrightarrow> foldR f a xs = Some (Inr c) \<Longrightarrow> P c"
  using assms
proof (induction xs arbitrary: a)
  case (Cons x xs)
  from Cons.prems(2) obtain d where d: "f a x = Some (Inr d)" "foldR f d xs = Some (Inr c)" by (auto simp: rbind_Inr)
  have "P d" using Cons.prems(1,3) d(1) by (meson list.set_intros(1))
  then show ?case using Cons.IH [OF _ d(2)] Cons.prems(3) by (meson list.set_intros(2))
qed simp

definition targetCols :: "tableSchema \<Rightarrow> Insert \<Rightarrow> bytes list" where
  "targetCols sc ins = (if ins_Columns ins = [] then orderColumns sc else ins_Columns ins)"

context kv_store
begin

lemma runTx_result:
  assumes "ok s" "runTx S others n fn c s = Some (Inr (s', r))" "\<And>c' tx r. fn c s (newTx S s) = Some (Inr (c', tx, r)) \<Longrightarrow> tok s tx"
  obtains c' tx where "fn c s (newTx S s) = Some (Inr (c', tx, r))" "ok s'" "view s' = staged s tx"
proof -
  from assms(2) obtain c' tx r' where body: "fn c s (newTx S s) = Some (Inr (c', tx, r'))" by (auto simp: runTx.simps [of S others n fn c s] rbind_Inr)
  from tx_commit [OF assms(1) assms(3) [OF body]] obtain t where "txCommit S s tx = Inr t" "ok t" "view t = staged s tx" by blast
  with body assms(2) show thesis by (intro that) (auto simp: runTx.simps [of S others n fn c s])
qed

definition insInv :: "sqlenv \<Rightarrow> jsonenv \<Rightarrow> bytes \<Rightarrow> Insert \<Rightarrow> tableSchema \<Rightarrow> 's \<Rightarrow> 't insState \<Rightarrow> bool" where
  "insInv X J db ins sc s st \<longleftrightarrow> tok s (is_tx st) \<and> tableOK X J db sc (staged s (is_tx st)) \<and>
     (ins_OnConflict ins \<noteq> str ''REPLACE'' \<longrightarrow> keepsRows X J db sc (view s) (staged s (is_tx st)) \<and>
       (uniqueOK X J db sc (view s) \<longrightarrow> uniqueOK X J db sc (staged s (is_tx st)) \<and> claimed X J db sc (view s) (is_unique st) (staged s (is_tx st))))"

lemma insertRow_inv:
  assumes "ok s" "schemaOK sc" "timesOK X" "defaultsOK U X (sc_Columns sc)" "insertable U X J sc src" "tableOK X J db sc (view s)"
    "insInv X J db ins sc s st" "insertRow U X J S db ins sc s st src = Some (Inr st')"
  shows "insInv X J db ins sc s st'"
proof -
  have st: "tok s (is_tx st)" "tableOK X J db sc (staged s (is_tx st))" using assms(7) by (simp_all add: insInv_def)
  note step = insertRow_table [OF assms(1,2) st assms(3-5,8)]
  have "keepsRows X J db sc (view s) (staged s (is_tx st'))" if "ins_OnConflict ins \<noteq> str ''REPLACE''"
    using that step assms(7) unfolding insInv_def keepsRows_def by blast
  moreover have "uniqueOK X J db sc (staged s (is_tx st')) \<and> claimed X J db sc (view s) (is_unique st') (staged s (is_tx st'))"
    if "ins_OnConflict ins \<noteq> str ''REPLACE''" "uniqueOK X J db sc (view s)"
    using insertRow_unique [OF assms(1,2) st assms(3-5,8,6) that(1)] assms(7) that unfolding insInv_def by blast
  ultimately show ?thesis using step unfolding insInv_def by blast
qed

lemma execInsert_keeps:
  assumes "ok s" "loadSchema J S s (en_db E) (ins_Table ins) = Inr sc" "schemaOK sc" "tableOK X J (en_db E) sc (view s)"
    and X: "timesOK X" "defaultsOK U X (sc_Columns sc)"
    and src: "\<And>srcs. sourceRows U X Q ins (targetCols sc ins) = Some (Inr srcs) \<Longrightarrow> list_all (insertable U X J sc) srcs"
    and run: "execInsert U X J S others E Q ins s = Some (Inr (s', res))"
  shows "ok s' \<and> tableOK X J (en_db E) sc (view s') \<and> (ins_OnConflict ins \<noteq> str ''REPLACE'' \<longrightarrow>
    keepsRows X J (en_db E) sc (view s) (view s') \<and> (uniqueOK X J (en_db E) sc (view s) \<longrightarrow> uniqueOK X J (en_db E) sc (view s')))"
proof -
  let ?db = "en_db E" and ?body = "insertBody U X J S (en_db E) ins"
  obtain srcs count ret where srcs: "sourceRows U X Q ins (targetCols sc ins) = Some (Inr srcs)"
    and tx: "runTx S others maxTxRetries (?body srcs) sc s = Some (Inr (s', count, ret))"
    using run assms(2) by (auto simp: execInsert_def rbind_Inr Let_def targetCols_def split: if_splits)
  let ?st0 = "\<lparr>is_next = sc_NextRowID sc, is_dirty = False, is_unique = [], is_tx = newTx S s, is_count = 0, is_returning = []\<rparr>"
  have new: "tok s (newTx S s)" "staged s (newTx S s) = view s" using tx_new [OF assms(1)] by simp_all
  have start: "insInv X J ?db ins sc s ?st0" using assms(4) new by (simp add: insInv_def keepsRows_def claimed_def)
  have loop: "insInv X J ?db ins sc s st" if st: "foldR (insertRow U X J S ?db ins sc s) ?st0 srcs = Some (Inr st)" for st
    by (rule foldR_inv [where P = "insInv X J ?db ins sc s", OF _ start st])
      (use insertRow_inv [OF assms(1,3) X _ assms(4)] src [OF srcs] in \<open>auto simp: list_all_iff\<close>)
  have body: "\<exists>st v. insInv X J ?db ins sc s st \<and> tok s t \<and> (staged s t = staged s (is_tx st) \<or> staged s t = (staged s (is_tx st))(catalogKey ?db (sc_Name sc) \<mapsto> v))"
    if b: "?body srcs sc s (newTx S s) = Some (Inr (sc', t, r))" for sc' t r
  proof -
    from b obtain st where st: "foldR (insertRow U X J S ?db ins sc s) ?st0 srcs = Some (Inr st)"
      "t = is_tx st \<or> t = txSet S (is_tx st) (catalogKey ?db (sc_Name sc)) (jSchema J (sc\<lparr>sc_NextRowID := is_next st\<rparr>))"
      by (auto simp: insertBody_def rbind_Inr Let_def split: if_splits)
    have "tok s (is_tx st)" using loop [OF st(1)] by (simp add: insInv_def)
    then show ?thesis using loop [OF st(1)] st(2) tx_set [OF assms(1)] by (intro exI [of _ st]) auto
  qed
  have "tok s t" if "?body srcs sc s (newTx S s) = Some (Inr (sc', t, r))" for sc' t r using body [OF that] by blast
  then obtain c' t where t: "?body srcs sc s (newTx S s) = Some (Inr (c', t, count, ret))" and s': "ok s'" "view s' = staged s t"
    by (rule runTx_result [OF assms(1) tx])
  from body [OF t] obtain st v where "insInv X J ?db ins sc s st"
    and v: "staged s t = staged s (is_tx st) \<or> staged s t = (staged s (is_tx st))(catalogKey ?db (sc_Name sc) \<mapsto> v)" by blast
  moreover have "tableOK X J ?db sc (view s') = tableOK X J ?db sc (staged s (is_tx st))"
    using v s'(2) tableOK_other [OF assms(3)] by auto
  moreover have "storedAt X J ?db sc (view s') = storedAt X J ?db sc (staged s (is_tx st))"
    using v s'(2) storedAt_other [OF assms(3)] by (intro ext) auto
  ultimately show ?thesis using s'(1) by (simp add: insInv_def keepsRows_def uniqueOK_def)
qed

end

end
