(* ===== verification/SQL_Update.thy ===== *)
theory SQL_Update
  imports SQL_Insert
begin

text \<open>
  UPDATE on a table with a primary key keeps the table well-formed.
\<close>

section \<open>Assigned rows\<close>

lemma decodeValueJSON_canonical: "timesOK X \<Longrightarrow> decodeValueJSON X J tv = Inr v \<Longrightarrow> canonical v"
  by (auto simp: decodeValueJSON_def Let_def sbind_Inr unmarshal_def timesOK_def simp del: str_simps split: if_splits option.splits)

lemma mapE_mem: "mapE f xs = Inr ys \<Longrightarrow> y \<in> set ys \<Longrightarrow> \<exists>x \<in> set xs. f x = Inr y"
  by (induction xs arbitrary: ys) (auto simp: sbind_Inr)

lemma decodeRow_canonical:
  assumes "timesOK X" "decodeRow X J raw = Inr r"
  shows "canonicalRow r"
  unfolding canonicalRow_def
proof (intro allI impI)
  fix n v
  assume "map_of r n = Some v"
  then have "(n, v) \<in> set r" by (rule map_of_SomeD)
  with assms(2) obtain tv where "decodeValueJSON X J tv = Inr v"
    by (auto simp: decodeRow_def split: option.splits dest!: mapE_mem split: sum.splits)
  with assms(1) show "canonical v" by (rule decodeValueJSON_canonical)
qed

lemma applyAssignments_typed:
  assumes "timesOK X" "schemaOK sc" "canonicalRow cur" "list_all (\<lambda>(cn, e). list_all canonical (literals e)) sets"
  shows "typedRow sc out \<Longrightarrow> applyAssignments U X sc cur sets out = Inr new \<Longrightarrow> typedRow sc new"
  using assms(4)
proof (induction sets arbitrary: out)
  case (Cons a as)
  obtain cn e where a: "a = (cn, e)" by (cases a)
  from Cons.prems(2) a obtain c v w where c: "col sc cn = Some c" "evalExpr U X (Some (map_of cur)) e = Inr v" "coerceColumn U X c v = Inr w"
    "applyAssignments U X sc cur as (AList.update cn w out) = Inr new" by (auto simp: sbind_Inr split: option.splits if_splits)
  have "rowCanonical (Some (map_of cur))" using assms(3) by (simp add: rowCanonical_def canonicalRow_def)
  then have "canonical v" using evalExpr_canonical(1) [OF assms(1) _ _ c(2)] Cons.prems(3) a by simp
  moreover have cm: "c \<in> set (sc_Columns sc)" "c_Name c = cn" using c(1) by (auto simp: col_def find_Some_iff)
  ultimately have "fitsColumn c w" using coerceColumn_fits [OF assms(1) _ _ c(3)] schemaOK_columns [OF assms(2)] by (simp add: list_all_iff)
  moreover have "c' = c" if "c' \<in> set (sc_Columns sc)" "c_Name c' = cn" for c'
    using that cm schemaOK_columns [OF assms(2)] by (auto simp: distinct_map inj_on_def)
  ultimately have "typedRow sc (AList.update cn w out)" using Cons.prems(1) by (auto simp: typedRow_fits rowGet_update)
  with Cons.IH [OF _ c(4)] Cons.prems(3) show ?case by simp
qed simp

section \<open>The table after an UPDATE\<close>

text \<open>\<open>P\<close> is a property of the stored rows that the assignments keep, strong enough for a new row to survive its storage format.\<close>

definition updatable :: "unicode \<Rightarrow> sqlenv \<Rightarrow> jsonenv \<Rightarrow> tableSchema \<Rightarrow> (bytes \<times> Expr) list \<Rightarrow> (rowmap \<Rightarrow> bool) \<Rightarrow> bool" where
  "updatable U X J sc sets P \<longleftrightarrow> list_all (\<lambda>(cn, e). \<not> exprHasSubquery e \<and> list_all canonical (literals e)) sets \<and>
     (\<forall>cur new raw. P cur \<longrightarrow> typedRow sc cur \<longrightarrow> applyAssignments U X sc cur sets cur = Inr new \<longrightarrow> encodeRow X J new = Inr raw \<longrightarrow>
       (\<exists>r'. decodeRow X J raw = Inr r' \<and> map_of r' = map_of new \<and> P r'))"

definition tableWith :: "sqlenv \<Rightarrow> jsonenv \<Rightarrow> bytes \<Rightarrow> tableSchema \<Rightarrow> (rowmap \<Rightarrow> bool) \<Rightarrow> (bytes \<rightharpoonup> bytes) \<Rightarrow> bool" where
  "tableWith X J db sc P m \<longleftrightarrow> tableOK X J db sc m \<and> (\<forall>pk r. storedAt X J db sc m pk r \<longrightarrow> P r)"

lemma if_Inl_Inr: "(if b then Some (Inl e) else m) = Some (Inr y) \<longleftrightarrow> \<not> b \<and> m = Some (Inr y)"
  by simp

lemma if_check: "(if b then Some (if o1 \<noteq> None then Inl e else Inr ()) else Some (Inr ())) = Some (Inr u) \<longleftrightarrow> (b \<longrightarrow> o1 = None)"
  by simp

lemma Some_Inr: "Some x = Some (Inr y) \<longleftrightarrow> x = Inr y"
  by simp

context kv_store
begin

lemma replaceRow_cases:
  assumes "ok s" "tok s tx" "replaceRow U X J S db sc sets s tx pk raw = Some (Inr tx')"
  obtains cur new newPK enc tx1 where "decodeRow X J raw = Inr cur" "applyAssignments U X sc cur sets cur = Inr new" "pkHexFor sc new 0 = Inr newPK"
      "newPK \<noteq> pk \<and> hasPK sc \<longrightarrow> staged s tx (rowAt db sc newPK) = None" "encodeRow X J new = Inr enc"
      "stageIndexDeletes S db (sc_Name sc) (sc_Indexes sc) cur pk tx = Inr tx1"
      "stageIndexWrites S db (sc_Name sc) (sc_Indexes sc) new newPK
        (txSet S (if newPK \<noteq> pk then txDelete S tx1 (rowAt db sc pk) else tx1) (rowAt db sc newPK) enc) = Inr tx'"
proof -
  have "\<exists>cur new newPK enc tx1. decodeRow X J raw = Inr cur \<and> applyAssignments U X sc cur sets cur = Inr new \<and> pkHexFor sc new 0 = Inr newPK \<and>
      (newPK \<noteq> pk \<and> hasPK sc \<longrightarrow> staged s tx (rowAt db sc newPK) = None) \<and> encodeRow X J new = Inr enc \<and>
      stageIndexDeletes S db (sc_Name sc) (sc_Indexes sc) cur pk tx = Inr tx1 \<and>
      stageIndexWrites S db (sc_Name sc) (sc_Indexes sc) new newPK
        (txSet S (if newPK \<noteq> pk then txDelete S tx1 (rowAt db sc pk) else tx1) (rowAt db sc newPK) enc) = Inr tx'"
    using assms(3) unfolding replaceRow_def tx_get [OF assms(1,2)]
    by (simp only: rbind_Inr Let_def if_Inl_Inr if_check sbind_simps Some_Inr) blast
  then show thesis using that by blast
qed

lemma replaceRow_table:
  assumes "ok s" "schemaOK sc" "hasPK sc" "timesOK X" "updatable U X J sc sets P" "tok s tx" "tableWith X J db sc P (staged s tx)"
    and raw: "staged s tx (rowAt db sc pk) = Some raw" and run: "replaceRow U X J S db sc sets s tx pk raw = Some (Inr tx')"
  shows "tok s tx' \<and> tableWith X J db sc P (staged s tx')"
proof (rule replaceRow_cases [OF assms(1,6) run])
  let ?m = "staged s tx"
  fix cur new newPK raw' tx1
  assume cur: "decodeRow X J raw = Inr cur" and new: "applyAssignments U X sc cur sets cur = Inr new"
    and pk: "pkHexFor sc new 0 = Inr newPK" and free: "newPK \<noteq> pk \<and> hasPK sc \<longrightarrow> ?m (rowAt db sc newPK) = None"
    and enc: "encodeRow X J new = Inr raw'" and del: "stageIndexDeletes S db (sc_Name sc) (sc_Indexes sc) cur pk tx = Inr tx1"
    and w: "stageIndexWrites S db (sc_Name sc) (sc_Indexes sc) new newPK
        (txSet S (if newPK \<noteq> pk then txDelete S tx1 (rowAt db sc pk) else tx1) (rowAt db sc newPK) raw') = Inr tx'" (is "stageIndexWrites _ _ _ _ _ _ (txSet _ ?tx2 _ _) = _")
  have tab: "tableOK X J db sc ?m" and rows: "\<And>p r. storedAt X J db sc ?m p r \<Longrightarrow> P r" using assms(7) by (auto simp: tableWith_def)
  have st: "storedAt X J db sc ?m pk cur" using raw cur by (simp add: storedAt_def)
  have rok: "rowsOK X J db sc ?m" and iok: "\<And>idx. idx \<in> set (sc_Indexes sc) \<Longrightarrow> indexOK X J db sc ?m idx" using tab by (simp_all add: tableOK_def)
  have typed: "typedRow sc cur" by (rule rowsOK_stored(1) [OF rok st])
  have "list_all (\<lambda>(cn, e). list_all canonical (literals e)) sets" using assms(5) unfolding updatable_def by (auto simp: list_all_iff)
  then have new': "typedRow sc new" by (rule applyAssignments_typed [OF assms(4,2) decodeRow_canonical [OF assms(4) cur] _ typed new])
  obtain r' where r': "decodeRow X J raw' = Inr r'" "map_of r' = map_of new" "P r'"
    using assms(5) rows [OF st] typed new enc unfolding updatable_def by blast
  have "\<exists>kh. indexKeyHex idx cur = Inr kh" if "idx \<in> set (sc_Indexes sc)" for idx using iok [OF that] st unfolding indexOK_iff by blast
  from stageIndexDeletes_staged [OF assms(1,6) this, of "sc_Indexes sc" db "sc_Name sc" pk] del
  have tx1: "tok s tx1" "staged s tx1 = (\<lambda>k. if isEntry db sc cur pk k then None else ?m k)" unfolding isEntry_def by auto
  have tx2: "tok s ?tx2" "staged s ?tx2 = (if newPK \<noteq> pk then (staged s tx1)(rowAt db sc pk := None) else staged s tx1)"
    using tx1(1) tx_delete [OF assms(1) tx1(1)] by simp_all
  have "tok s (txSet S ?tx2 (rowAt db sc newPK) raw')" "staged s (txSet S ?tx2 (rowAt db sc newPK) raw') = (staged s ?tx2)(rowAt db sc newPK \<mapsto> raw')"
    using tx_set [OF assms(1) tx2(1)] by simp_all
  from stageIndexWrites_staged [OF assms(1) this(1) w, unfolded this(2)] have tx': "tok s tx'" "\<forall>idx \<in> set (sc_Indexes sc). \<exists>kh. indexKeyHex idx new = Inr kh"
    "staged s tx' = (\<lambda>k. if isEntry db sc new newPK k then Some newPK else ((staged s ?tx2)(rowAt db sc newPK \<mapsto> raw')) k)" unfolding isEntry_def by auto
  have put: "staged s tx' = putRow db sc new newPK raw' (dropRow db sc cur pk ?m)"
    unfolding tx'(3) tx2(2) tx1(2) by (auto simp: putRow_def dropRow_def fun_eq_iff)
  have "dropRow db sc cur pk ?m (rowAt db sc newPK) = None" using free assms(3) by (auto simp: dropRow_def)
  from tableOK_putRow [OF assms(2) tableOK_dropRow [OF assms(2) tab st] this r'(1) r'(2) new'] tx'(2) pkHexFor_Inr [OF pk]
  have "tableOK X J db sc (staged s tx')" unfolding put by blast
  moreover have "P r" if "storedAt X J db sc (staged s tx') p r" for p r
    using that r'(1,3) rows unfolding put storedAt_putRow [OF assms(2)] storedAt_dropRow [OF assms(2)] by (cases "p = newPK") auto
  ultimately show ?thesis using tx'(1) by (simp add: tableWith_def)
qed

lemma updateRow_table:
  assumes "ok s" "schemaOK sc" "hasPK sc" "timesOK X" "updatable U X J sc sets P" "tok s tx" "tableWith X J db sc P (staged s tx)"
    "updateRow U X J S db sc sets w s (tx, n) x = Some (Inr (tx', n'))"
  shows "tok s tx' \<and> tableWith X J db sc P (staged s tx')"
  using assms(6-8) replaceRow_table [OF assms(1-7)]
  by (auto simp: updateRow_def rbind_Inr tx_get [OF assms(1,6)] split: if_splits option.splits)

lemma execUpdate_keeps:
  assumes "ok s" "loadSchema J S s (en_db E) table = Inr sc" "schemaOK sc" "hasPK sc" "tableWith X J (en_db E) sc P (view s)"
    and X: "timesOK X" "updatable U X J sc sets P" and w: "pred_option (\<lambda>e. \<not> exprHasSubquery e) w"
    and run: "execUpdate U X J S others E Q table sets w s = Some (Inr (s', res))"
  shows "ok s' \<and> tableWith X J (en_db E) sc P (view s')"
proof -
  let ?db = "en_db E"
  have resolved: "resolveOpt Q w = Some (Inr w)" using w by (cases w) (simp_all add: resolveOpt_def resolveExpr_same)
  have "mapR (\<lambda>(cn, e). rbind (resolveExpr Q e) (\<lambda>e. Some (Inr (cn, e)))) sets = Some (Inr sets)"
    using X(2) by (intro mapR_same) (auto simp: updatable_def list_all_iff resolveExpr_same)
  with run assms(2) obtain rows count where
    tx: "runTx S others maxTxRetries (\<lambda>c s tx. rbind (foldR (updateRow U X J S ?db sc sets w s) (tx, 0) rows) (\<lambda>(tx, count).
       Some (Inr (c, tx, count)))) () s = Some (Inr (s', count))" (is "runTx _ _ _ ?fn _ _ = _")
    by (auto simp: execUpdate_def rbind_Inr resolved)
  have new: "tok s (newTx S s)" "staged s (newTx S s) = view s" using tx_new [OF assms(1)] by simp_all
  have loop: "tok s t \<and> tableWith X J ?db sc P (staged s t)"
    if "foldR (updateRow U X J S ?db sc sets w s) (newTx S s, 0) rows = Some (Inr (t, n))" for t n
  proof -
    have "(\<lambda>(t, n). tok s t \<and> tableWith X J ?db sc P (staged s t)) (t, n)"
    proof (rule foldR_inv [OF _ _ that])
      fix a x b
      assume "case a of (t, n) \<Rightarrow> tok s t \<and> tableWith X J ?db sc P (staged s t)" "updateRow U X J S ?db sc sets w s a x = Some (Inr b)"
      then show "case b of (t, n) \<Rightarrow> tok s t \<and> tableWith X J ?db sc P (staged s t)"
        using updateRow_table [OF assms(1,3,4) X] by (cases a; cases b) blast
    qed (simp add: new assms(5))
    then show ?thesis by simp
  qed
  have "tok s t" if "?fn () s (newTx S s) = Some (Inr (c', t, r))" for c' t r using that loop by (auto simp: rbind_Inr)
  then obtain c' t where t: "?fn () s (newTx S s) = Some (Inr (c', t, count))" and s': "ok s'" "view s' = staged s t"
    by (rule runTx_result [OF assms(1) tx])
  from t have "tableWith X J ?db sc P (staged s t)" using loop by (auto simp: rbind_Inr)
  with s' show ?thesis by simp
qed

end

end
