(* ===== verification/SQL_Row.thy ===== *)
theory SQL_Row
  imports SQL_Insert
begin

text \<open>
  The stored form of a row: decoding what was encoded gives the row back, on every JSON library that keeps its laws.
\<close>

section \<open>Integers\<close>

lemma unat_digit: "d < 10 \<Longrightarrow> unat (of_nat (48 + d) :: byte) = 48 + d"
  by (simp only: unat_of_nat) simp

lemma digits_isDigit: "list_all isDigit (digits n)"
proof (induction n rule: digits.induct)
  case (1 n)
  have "isDigit (of_nat (48 + d))" if "d < 10" for d
    using that unat_digit [OF that] by (simp add: isDigit_def word_le_nat_alt del: of_nat_add)
  with 1 show ?case by (subst digits.simps) simp
qed

lemma digitsVal_snoc: "digitsVal (ds @ [d]) = digitsVal ds * 10 + int (unat d - 48)"
  by (simp add: digitsVal_def)

lemma digitsVal_digits: "digitsVal (digits n) = int n"
proof (induction n rule: digits.induct)
  case (1 n)
  show ?case
  proof (cases "n < 10")
    case True
    then show ?thesis using unat_digit [of n] by (subst digits.simps) (simp add: digitsVal_def del: of_nat_add)
  next
    case False
    then have "digitsVal (digits n) = int (n div 10) * 10 + int (n mod 10)"
      using 1 unat_digit [of "n mod 10"] by (subst digits.simps) (simp add: digitsVal_snoc del: of_nat_add)
    also have "\<dots> = int n" by (metis div_mult_mod_eq of_nat_add of_nat_mult of_nat_numeral)
    finally show ?thesis .
  qed
qed

lemma digits_nonempty: "digits n \<noteq> []"
  by (subst digits.simps) simp

lemma digits_no_sign: "hd (digits n) \<noteq> 45" "hd (digits n) \<noteq> 43" "isDigit (hd (digits n))" "isDigit (last (digits n))"
proof -
  have "isDigit (hd (digits n))" "isDigit (last (digits n))" using digits_isDigit [of n] digits_nonempty [of n] by (simp_all add: list_all_iff)
  then show "hd (digits n) \<noteq> 45" "hd (digits n) \<noteq> 43" "isDigit (hd (digits n))" "isDigit (last (digits n))" by (auto simp: isDigit_def)
qed

lemma ParseInt_FormatInt: "ParseInt (FormatInt i) = Some i"
proof -
  have r: "- (2 ^ 63) \<le> sint i" "sint i < 2 ^ 63" using sint_greater_eq [of i] sint_lt [of i] by simp_all
  show ?thesis
  proof (cases "sint i < 0")
    case True
    then have "FormatInt i = 45 # digits (nat (- sint i))" by (simp add: FormatInt_def)
    with True r digits_isDigit digits_nonempty show ?thesis by (simp add: ParseInt_def Let_def digitsVal_digits)
  next
    case False
    then have f: "FormatInt i = digits (nat (sint i))" by (simp add: FormatInt_def)
    obtain c cs where c: "digits (nat (sint i)) = c # cs" "c \<noteq> 45" "c \<noteq> 43"
      using digits_no_sign [of "nat (sint i)"] digits_nonempty [of "nat (sint i)"] by (cases "digits (nat (sint i))") auto
    have "ParseInt (FormatInt i) = (let n = digitsVal (digits (nat (sint i))) in if n < - (2 ^ 63) \<or> 2 ^ 63 \<le> n then None else Some (word_of_int n))"
      using c digits_isDigit [of "nat (sint i)"] by (simp add: ParseInt_def f Let_def)
    then show ?thesis using False r by (simp add: digitsVal_digits)
  qed
qed

text \<open>No digit or sign is white space.\<close>

lemma trimFront_none:
  assumes "s \<noteq> []" "\<forall>r \<in> set runes. r \<noteq> [] \<longrightarrow> hd r \<noteq> hd s"
  shows "trimFront runes s = s"
proof -
  have "find (\<lambda>r. r \<noteq> [] \<and> take (length r) s = r) runes = None"
    using assms by (auto simp: find_None_iff) (metis hd_take length_greater_0_conv)
  then show ?thesis by (simp add: trimFront.simps)
qed

lemma TrimSpace_FormatInt: "TrimSpace (FormatInt i) = FormatInt i"
proof -
  have ne: "FormatInt i \<noteq> []" by (simp add: FormatInt_def digits_nonempty)
  have h: "isDigit (hd (FormatInt i)) \<or> hd (FormatInt i) = 45" and l: "isDigit (last (FormatInt i))"
    using digits_no_sign digits_nonempty by (simp_all add: FormatInt_def)
  have "hd r \<noteq> c" if "r \<in> set spaceRunes" "isDigit c \<or> c = 45" for r c using that by (auto simp: spaceRunes_def isDigit_def)
  then have "trimFront spaceRunes (FormatInt i) = FormatInt i" using h by (intro trimFront_none [OF ne]) blast
  moreover have "last r \<noteq> c" if "r \<in> set spaceRunes" "isDigit c" for r c using that by (auto simp: spaceRunes_def isDigit_def)
  then have "trimFront (map rev spaceRunes) (rev (FormatInt i)) = rev (FormatInt i)"
    using l ne by (intro trimFront_none) (auto simp: hd_rev)
  ultimately show ?thesis by (simp add: TrimSpace_def)
qed

section \<open>Rows\<close>

text \<open>RFC 3339 writes the years 0 to 9999.\<close>

definition timeWritable :: "int \<Rightarrow> bool" where
  "timeWritable t \<longleftrightarrow> - 62167219200 * 10 ^ 9 \<le> t \<and> t < 253402300800 * 10 ^ 9"

abbreviation rfc3339 :: bytes where "rfc3339 \<equiv> str ''2006-01-02T15:04:05.999999999Z07:00''"

text \<open>What the encoder writes as a value.\<close>

definition rawValue :: "jsonenv \<Rightarrow> bytes \<Rightarrow> bool" where
  "rawValue J raw \<longleftrightarrow> raw = [] \<or> (\<exists>s. raw = jString J s) \<or> (\<exists>b. raw = jBool J b) \<or> (\<exists>f. jFloat J f = Some raw) \<or> (\<exists>i. raw = FormatInt i)"

text \<open>
  The laws of the libraries. JSON keeps the texts of \<open>textOK\<close> (valid UTF-8; invalid bytes are replaced), finite
  floats, booleans, and objects up to the order of their members; the float, base64 and time formats are inverted by their parsers.
\<close>

locale row_json =
  fixes X :: sqlenv and J :: jsonenv and textOK :: "bytes \<Rightarrow> bool"
  assumes string: "textOK s \<Longrightarrow> jUnString J (jString J s) = Some s"
    and bool: "jUnBool J (jBool J b) = Some b"
    and float: "jFloat J f = Some raw \<Longrightarrow> jUnFloat J raw = Some f"
    and float_finite: "jFloat J f = None \<Longrightarrow> IsNaN f \<or> IsInf f"
    and float_string: "jUnFloat J (jString J s) = None"
    and float_text: "IsInf f \<Longrightarrow> textOK (FormatFloat X 64 f) \<and> ParseFloat X 64 (FormatFloat X 64 f) = Some f"
    and base64: "textOK (b64Encode X raw) \<and> b64Decode X (b64Encode X raw) = Some raw"
    and time: "timeWritable t \<Longrightarrow> textOK (timeFormat X rfc3339 t) \<and> timeParse X rfc3339 (timeFormat X rfc3339 t) = Some t"
    and row: "distinct (map fst tvs) \<Longrightarrow> (\<And>k tv. (k, tv) \<in> set tvs \<Longrightarrow> textOK k \<and> textOK (tv_T tv) \<and> rawValue J (tv_V tv)) \<Longrightarrow>
      \<exists>tvs'. jUnRow J (jRow J tvs) = Some tvs' \<and> map_of tvs' = map_of tvs \<and> distinct (map fst tvs')"
    and tags: "list_all (\<lambda>c. c < 128) s \<Longrightarrow> textOK s"

text \<open>A value that survives: its text is kept, its time is writable, it is no NaN and no vector.\<close>

definition storable :: "(bytes \<Rightarrow> bool) \<Rightarrow> Value \<Rightarrow> bool" where
  "storable textOK v \<longleftrightarrow> canonical v \<and> (case v_T v of TypeText \<Rightarrow> textOK (v_S v) | TypeDouble \<Rightarrow> \<not> IsNaN (v_F v)
     | TypeTimestamp \<Rightarrow> timeWritable (v_TS v) | TypeVector \<Rightarrow> False | _ \<Rightarrow> True)"

context row_json
begin

lemma value_roundtrip:
  assumes "storable textOK v"
  obtains tv where "encodeValueJSON X J v = Inr tv" "decodeValueJSON X J tv = Inr v" "textOK (tv_T tv)" "rawValue J (tv_V tv)"
proof (cases "v_T v")
  case TypeDouble
  then have v: "v = doubleV (v_F v)" and nan: "\<not> IsNaN (v_F v)" using assms by (simp_all add: storable_def canonical_def)
  show thesis
  proof (cases "jFloat J (v_F v)")
    case None
    then have "IsInf (v_F v)" using float_finite nan by blast
    with TypeDouble None v float_text [of "v_F v"] float_string string tags show thesis
      by (intro that [of "\<lparr>tv_T = str ''d'', tv_V = jString J (formatDouble X (v_F v))\<rparr>"])
        (auto simp: encodeValueJSON_def decodeValueJSON_def formatDouble_def unmarshal_def rawValue_def Let_def)
  next
    case (Some raw)
    with TypeDouble v float [OF Some] tags show thesis
      by (intro that [of "\<lparr>tv_T = str ''d'', tv_V = raw\<rparr>"]) (auto simp: encodeValueJSON_def decodeValueJSON_def rawValue_def)
  qed
next
  case TypeText
  with assms string tags show thesis
    by (intro that [of "\<lparr>tv_T = str ''s'', tv_V = jString J (v_S v)\<rparr>"])
      (auto simp: storable_def canonical_def encodeValueJSON_def decodeValueJSON_def unmarshal_def rawValue_def)
next
  case TypeBytea
  with assms string tags base64 [of "v_Raw v"] show thesis
    by (intro that [of "\<lparr>tv_T = str ''x'', tv_V = jString J (b64Encode X (v_Raw v))\<rparr>"])
      (auto simp: storable_def canonical_def encodeValueJSON_def decodeValueJSON_def unmarshal_def rawValue_def)
next
  case TypeTimestamp
  with assms string tags time [of "v_TS v"] show thesis
    by (intro that [of "\<lparr>tv_T = str ''t'', tv_V = jString J (timeFormat X rfc3339 (v_TS v))\<rparr>"])
      (auto simp: storable_def canonical_def encodeValueJSON_def decodeValueJSON_def unmarshal_def rawValue_def)
next
  case TypeInt
  with assms tags show thesis
    by (intro that [of "\<lparr>tv_T = str ''i'', tv_V = FormatInt (v_I v)\<rparr>"])
      (auto simp: storable_def canonical_def encodeValueJSON_def decodeValueJSON_def unmarshal_def rawValue_def TrimSpace_FormatInt ParseInt_FormatInt)
next
  case TypeBool
  with assms tags bool [of "v_B v"] show thesis
    by (intro that [of "\<lparr>tv_T = str ''b'', tv_V = jBool J (v_B v)\<rparr>"])
      (auto simp: storable_def canonical_def encodeValueJSON_def decodeValueJSON_def unmarshal_def rawValue_def)
next
  case TypeNull
  with assms tags show thesis
    by (intro that [of "\<lparr>tv_T = str ''n'', tv_V = []\<rparr>"])
      (auto simp: storable_def canonical_def encodeValueJSON_def decodeValueJSON_def rawValue_def)
qed (use assms in \<open>simp_all add: storable_def canonical_def\<close>)

end

lemma map_of_map_snd: "map_of (map (\<lambda>(k, v). (k, f v)) xs) = map_option f \<circ> map_of xs"
  by (rule map_of_map)

context row_json
begin

lemma row_kept:
  assumes "distinct (map fst r)" "\<And>k v. (k, v) \<in> set r \<Longrightarrow> textOK k \<and> storable textOK v"
  obtains raw r' where "encodeRow X J r = Inr raw" "decodeRow X J raw = Inr r'" "map_of r' = map_of r"
proof -
  define tv where "tv v = projr (encodeValueJSON X J v)" for v
  define val where "val t = projr (decodeValueJSON X J t)" for t
  have v: "encodeValueJSON X J v = Inr (tv v) \<and> decodeValueJSON X J (tv v) = Inr v \<and> textOK (tv_T (tv v)) \<and> rawValue J (tv_V (tv v))"
    if "(k, v) \<in> set r" for k v
    using value_roundtrip [of v] assms(2) [OF that] unfolding tv_def by (metis sum.sel(2))
  let ?tvs = "map (\<lambda>(k, v). (k, tv v)) r"
  have "mapE (\<lambda>(k, v). sbind (encodeValueJSON X J v) (\<lambda>t. Inr (k, t))) r = Inr ?tvs" using v by (intro mapE_Inr) fastforce
  then have enc: "encodeRow X J r = Inr (jRow J ?tvs)" by (simp add: encodeRow_def)
  have "distinct (map fst ?tvs)" using assms(1) by (simp add: comp_def case_prod_beta)
  moreover have "textOK k \<and> textOK (tv_T t) \<and> rawValue J (tv_V t)" if "(k, t) \<in> set ?tvs" for k t using that v assms(2) by auto
  ultimately obtain tvs' where tvs': "jUnRow J (jRow J ?tvs) = Some tvs'" "map_of tvs' = map_of ?tvs" "distinct (map fst tvs')" using row by meson
  have dec: "decodeValueJSON X J t = Inr (val t)" if t: "(k, t) \<in> set tvs'" for k t
  proof -
    from t have "map_of ?tvs k = Some t" using tvs'(2,3) by (metis map_of_is_SomeI)
    then obtain v' where "(k, v') \<in> set r" "t = tv v'" by (auto simp: map_of_map_snd dest: map_of_SomeD)
    then show ?thesis using v by (auto simp: val_def)
  qed
  then have "mapE (\<lambda>(k, t). case decodeValueJSON X J t of Inl e \<Rightarrow> Inl ''corrupt row column'' | Inr v \<Rightarrow> Inr (k, v)) tvs' = Inr (map (\<lambda>(k, t). (k, val t)) tvs')"
    by (intro mapE_Inr) fastforce
  then have "decodeRow X J (jRow J ?tvs) = Inr (map (\<lambda>(k, t). (k, val t)) tvs')" using tvs'(1) by (simp add: decodeRow_def)
  moreover have "map_of (map (\<lambda>(k, t). (k, val t)) tvs') k = map_of r k" for k
    using v by (cases "map_of r k") (auto simp: map_of_map_snd tvs'(2) val_def dest: map_of_SomeD)
  ultimately show thesis using enc by (intro that [of "jRow J ?tvs" "map (\<lambda>(k, t). (k, val t)) tvs'"]) (simp_all add: fun_eq_iff)
qed

lemma storable_keeps:
  assumes "distinct (map fst r)" "\<And>k v. (k, v) \<in> set r \<Longrightarrow> textOK k \<and> storable textOK v"
  shows "keeps X J r"
  using row_kept [OF assms] unfolding keeps_def by (metis sum.inject(2))

end

text \<open>
  C27. A stored row is read back. On every JSON, base64, float and time library that keeps its laws, a row of
  distinct column names whose values are storable (text that JSON keeps, times of the years 0 to 9999, no NaN, no
  vector) is encoded, and decoding the bytes gives a row with the same value under every name.
\<close>

theorem row_roundtrip:
  assumes "row_json X J textOK" "distinct (map fst r)" "\<forall>(k, v) \<in> set r. textOK k \<and> storable textOK v"
  shows "\<exists>raw r'. encodeRow X J r = Inr raw \<and> decodeRow X J raw = Inr r' \<and> map_of r' = map_of r"
  using row_json.row_kept [OF assms(1,2)] assms(3) by (metis (no_types, lifting) case_prodD)

text \<open>The concrete environment keeps the laws, for all texts.\<close>

interpretation refRows: row_json refSql refJson "\<lambda>_. True"
proof
  show "\<exists>tvs'. jUnRow refJson (jRow refJson tvs) = Some tvs' \<and> map_of tvs' = map_of tvs \<and> distinct (map fst tvs')"
    if "distinct (map fst tvs)" for tvs :: "(bytes \<times> taggedValue) list"
    using that decAll_inverts [OF inverts_list [OF inverts_pair [OF inverts_bytes inverts_tagged]]] by (simp add: refJson_def)
  show "jUnFloat refJson raw = Some f" if "jFloat refJson f = Some raw" for f raw
    using that decAll_inverts [OF inverts_u64] by (auto simp: refJson_def split: if_splits)
  show "jUnFloat refJson (jString refJson s) = None" for s by (cases s) (simp_all add: refJson_def)
  show "True \<and> timeParse refSql rfc3339 (timeFormat refSql rfc3339 t) = Some t" if "timeWritable t" for t
  proof -
    have "1000 * (t div 1000) \<le> t" "t < 1000 * (t div 1000) + 1000" by linarith+
    moreover have "- 62167219200000000000 \<le> t" "t < 253402300800000000000" using that by (simp_all add: timeWritable_def)
    ultimately have "- 9223372036854775808 \<le> t div 1000" "t div 1000 < 9223372036854775808" by linarith+
    then have "timeInRange t" by (simp add: timeInRange_def)
    then show ?thesis using decAll_inverts [OF inverts_int] by (simp add: refSql_def)
  qed
qed (simp_all add: refJson_def refSql_def decAll_inverts inverts_bytes inverts_bool inverts_u64 split: if_splits)

theorem row_roundtrip_witness:
  "\<exists>raw r'. encodeRow refSql refJson [(str ''id'', intV 7), (str ''name'', textV (str ''x''))] = Inr raw \<and>
     decodeRow refSql refJson raw = Inr r' \<and> map_of r' = map_of [(str ''id'', intV 7), (str ''name'', textV (str ''x''))]"
  by (rule row_roundtrip [OF refRows.row_json_axioms]) (simp_all add: storable_def)

end
