(* ===== verification/SQL_Sample.thy ===== *)
theory SQL_Sample
  imports SQL_Update SQL_Row
begin

text \<open>
  A concrete table in the in-memory store, filled by INSERT statements: the theorems of the executor are applied to it.
\<close>

definition sampleEngine :: engine where
  "sampleEngine = \<lparr>en_db = str ''d'', en_noPlanner = False, en_noTopK = False\<rparr>"

definition intColumn :: "string \<Rightarrow> column" where
  "intColumn n = \<lparr>c_Name = str n, c_Type = TypeInt, c_TypeName = str ''INTEGER'', c_Dim = 0, c_NotNull = False, c_Unique = False,
     c_Auto = False, c_Default = []\<rparr>"

text \<open>\<^verbatim>\<open>CREATE TABLE t (id INTEGER PRIMARY KEY, u INTEGER UNIQUE)\<close>\<close>

definition sampleTable :: tableSchema where
  "sampleTable = \<lparr>sc_Name = str ''t'', sc_Columns = [intColumn ''id'', intColumn ''u''], sc_PK = [str ''id''],
     sc_Indexes = [\<lparr>ix_Name = str ''uniq_u'', ix_Columns = [str ''u''], ix_Unique = True\<rparr>], sc_Checks = [], sc_NextRowID = 0\<rparr>"

definition lit :: "int \<Rightarrow> Expr" where
  "lit i = Literal (intV (word_of_int i)) []"

definition cref :: "string \<Rightarrow> Expr" where
  "cref c = ColumnRef [] (str c)"

definition noQuery :: "Select \<Rightarrow> answer run" where
  "noQuery = (\<lambda>_. None)"

definition insertStmt :: "int list list \<Rightarrow> string \<Rightarrow> Insert" where
  "insertStmt rows oc = \<lparr>ins_Table = str ''t'', ins_Columns = [], ins_Rows = map (map lit) rows, ins_Select = None, ins_Returning = [],
     ins_OnConflict = str oc\<rparr>"

abbreviation runInsert :: "Insert \<Rightarrow> mem \<Rightarrow> (mem \<times> ExecResult) run" where
  "runInsert \<equiv> execInsert asciiUnicode refSql refJson memStore (\<lambda>n s. s) sampleEngine noQuery"

abbreviation runUpdate :: "(bytes \<times> Expr) list \<Rightarrow> Expr option \<Rightarrow> mem \<Rightarrow> (mem \<times> ExecResult) run" where
  "runUpdate \<equiv> execUpdate asciiUnicode refSql refJson memStore (\<lambda>n s. s) sampleEngine noQuery (str ''t'')"

abbreviation runDelete :: "Expr option \<Rightarrow> mem \<Rightarrow> (mem \<times> ExecResult) run" where
  "runDelete \<equiv> execDelete asciiUnicode refSql refJson memStore (\<lambda>n s. s) sampleEngine noQuery (str ''t'')"

abbreviation sampleOK :: "mem \<Rightarrow> bool" where
  "sampleOK m \<equiv> tableOK refSql refJson (en_db sampleEngine) sampleTable (map_of m)"

definition emptyStore :: "tableSchema \<Rightarrow> mem" where
  "emptyStore sc = [(catalogKey (en_db sampleEngine) (sc_Name sc), jSchema refJson sc)]"

text \<open>The integers of the rows a full scan answers.\<close>

definition rowInts :: "tableSchema \<Rightarrow> mem \<Rightarrow> int list list run" where
  "rowInts sc m = rbind (scan refSql refJson memStore m (en_db sampleEngine) sc) (\<lambda>rows.
     Some (Inr (map (\<lambda>r. map (\<lambda>(k, v). sint (v_I v)) (sr_data r)) rows)))"

text \<open>The table with the rows (1, 10) and (2, 20).\<close>

definition twoRows :: mem where
  "twoRows = (case runInsert (insertStmt [[1, 10], [2, 20]] '''') (emptyStore sampleTable) of Some (Inr (m, r)) \<Rightarrow> m | _ \<Rightarrow> [])"

lemma twoRows_inserted:
  "runInsert (insertStmt [[1, 10], [2, 20]] '''') (emptyStore sampleTable) =
     Some (Inr (twoRows, \<lparr>er_Tag = str ''INSERT 0 2'', er_Columns = [], er_typed = []\<rparr>))"
  by code_simp

lemma twoRows_schema: "loadSchema refJson memStore twoRows (en_db sampleEngine) (str ''t'') = Inr sampleTable"
  by code_simp

lemma twoRows_ints: "rowInts sampleTable twoRows = Some (Inr [[1, 10], [2, 20]])"
  by code_simp

section \<open>The sample table is well-formed\<close>

lemma sampleTable_ok: "schemaOK sampleTable" "hasPK sampleTable" "defaultsOK U X (sc_Columns sampleTable)"
  by (simp_all add: schemaOK_def sampleTable_def intColumn_def hasPK_def defaultsOK_def)

lemma sample_engine [simp]: "en_db sampleEngine = str ''d''"
  by (simp add: sampleEngine_def)

lemma empty_ok: "sampleOK (emptyStore sampleTable)" "uniqueOK refSql refJson (en_db sampleEngine) sampleTable (map_of (emptyStore sampleTable))"
proof -
  let ?m = "map_of (emptyStore sampleTable)" and ?db = "en_db sampleEngine"
  have m: "?m = Map.empty(catalogKey ?db (sc_Name sampleTable) \<mapsto> jSchema refJson sampleTable)" by (simp add: emptyStore_def)
  have none: "\<not> storedAt X J ?db sampleTable Map.empty pk r" for X J pk r by (simp add: storedAt_def)
  have "tableOK refSql refJson ?db sampleTable Map.empty"
    unfolding tableOK_def rowsOK_def indexOK_def using none by blast
  then show "sampleOK (emptyStore sampleTable)" unfolding m by (simp only: tableOK_other [OF sampleTable_ok(1)])
  show "uniqueOK refSql refJson ?db sampleTable ?m" unfolding m uniqueOK_def storedAt_other [OF sampleTable_ok(1)] using none by blast
qed

text \<open>A row of integers survives its storage format.\<close>

lemma ints_kept:
  assumes "distinct (map fst r)" "list_all (\<lambda>(k, v). \<exists>i. v = intV i) r"
  shows "keeps refSql refJson r"
  using assms by (intro refRows.storable_keeps) (auto simp: list_all_iff storable_def)

definition twoSources :: "rowmap list" where
  "twoSources = [[(str ''id'', intV 1), (str ''u'', intV 10)], [(str ''id'', intV 2), (str ''u'', intV 20)]]"

lemma twoRows_sources:
  "sourceRows asciiUnicode refSql noQuery (insertStmt [[1, 10], [2, 20]] '''') (targetCols sampleTable (insertStmt [[1, 10], [2, 20]] '''')) =
     Some (Inr twoSources)"
  by code_simp

lemma twoSources_complete: "list_all (\<lambda>src. completeRow asciiUnicode refSql sampleTable src = Some (Inr src)) twoSources"
  by code_simp

lemma twoSources_insertable: "list_all (insertable asciiUnicode refSql refJson sampleTable) twoSources"
proof -
  have "insertable asciiUnicode refSql refJson sampleTable src" if src: "src \<in> set twoSources" for src
  proof -
    have ints: "distinct (map fst src)" "list_all (\<lambda>(k, v). \<exists>i. v = intV i) src" using src by (auto simp: twoSources_def)
    have "canonicalRow src" using src by (auto simp: twoSources_def canonicalRow_def split: if_splits)
    moreover have "completeRow asciiUnicode refSql sampleTable src = Some (Inr src)" using twoSources_complete src by (simp add: list_all_iff)
    moreover have "fst (assignAuto sampleTable src n) = src" for n by (simp add: assignAuto_def autoCol_def sampleTable_def intColumn_def)
    ultimately show ?thesis using ints_kept [OF ints] by (simp add: insertable_def)
  qed
  then show ?thesis by (simp add: list_all_iff)
qed

lemma empty_schema: "loadSchema refJson memStore (emptyStore sampleTable) (en_db sampleEngine) (ins_Table (insertStmt rows oc)) = Inr sampleTable"
proof -
  have "loadSchema refJson memStore (emptyStore sampleTable) (en_db sampleEngine) (str ''t'') = Inr sampleTable" by code_simp
  then show ?thesis by (simp add: insertStmt_def)
qed

lemma twoRows_ok: "distinct (map fst twoRows)" "sampleOK twoRows" "uniqueOK refSql refJson (en_db sampleEngine) sampleTable (map_of twoRows)"
proof -
  have "distinct (map fst twoRows) \<and> sampleOK twoRows \<and> (ins_OnConflict (insertStmt [[1, 10], [2, 20]] '''') \<noteq> str ''REPLACE'' \<longrightarrow>
      keepsRows refSql refJson (en_db sampleEngine) sampleTable (map_of (emptyStore sampleTable)) (map_of twoRows) \<and>
      (uniqueOK refSql refJson (en_db sampleEngine) sampleTable (map_of (emptyStore sampleTable)) \<longrightarrow>
        uniqueOK refSql refJson (en_db sampleEngine) sampleTable (map_of twoRows)))"
  proof (rule mem.execInsert_keeps [OF _ empty_schema sampleTable_ok(1) empty_ok(1) timesOK_refSql sampleTable_ok(3) _ twoRows_inserted])
    show "list_all (insertable asciiUnicode refSql refJson sampleTable) srcs"
      if "sourceRows asciiUnicode refSql noQuery (insertStmt [[1, 10], [2, 20]] '''') (targetCols sampleTable (insertStmt [[1, 10], [2, 20]] '''')) = Some (Inr srcs)" for srcs
      using that twoSources_insertable unfolding twoRows_sources by simp
  qed (simp add: emptyStore_def)
  then show "distinct (map fst twoRows)" "sampleOK twoRows" "uniqueOK refSql refJson (en_db sampleEngine) sampleTable (map_of twoRows)"
    using empty_ok(2) by (simp_all add: insertStmt_def)
qed

text \<open>The rows stored in it.\<close>

lemma twoRows_scan: "scan refSql refJson memStore twoRows (en_db sampleEngine) sampleTable = Some (Inr [
   \<lparr>sr_data = [(str ''id'', intV 1), (str ''u'', intV 10)], sr_pkhex = hexString (3 # 0x80 # replicate 6 0 @ [1])\<rparr>,
   \<lparr>sr_data = [(str ''id'', intV 2), (str ''u'', intV 20)], sr_pkhex = hexString (3 # 0x80 # replicate 6 0 @ [2])\<rparr>])"
  by code_simp

end
