(* ===== verification/SQL_Exec_Props.thy ===== *)
theory SQL_Exec_Props
  imports SQL_Sample
begin

text \<open>
  The properties of the SQL statements, each applied to the sample table, and the flaws the model shows on it.
\<close>

section \<open>Planned scans\<close>

text \<open>\<^verbatim>\<open>WHERE u >= 15\<close>, which the planner answers from the index.\<close>

definition uAbove :: Expr where
  "uAbove = Binary (str ''>='') (cref ''u'') (lit 15)"

lemma uAbove_ok: "\<not> exprHasSubquery uAbove" "list_all canonical (literals uAbove)"
  by (simp_all add: uAbove_def cref_def lit_def)

theorem planned_scan_complete_witness:
  "sp_index (planScan asciiUnicode refSql sampleTable (Some uAbove)) \<noteq> None \<and>
   (\<exists>all rows. scan refSql refJson memStore twoRows (en_db sampleEngine) sampleTable = Some (Inr all) \<and>
    fst (scanFor asciiUnicode refSql refJson memStore sampleEngine twoRows sampleTable (Some uAbove)) = Some (Inr rows) \<and> set rows \<subseteq> set all \<and>
    (\<forall>x \<in> set all. \<forall>m t b. readsRow sampleTable (sr_data x) m uAbove \<longrightarrow> accepts asciiUnicode (retimed t b refSql) m uAbove \<longrightarrow> x \<in> set rows))"
proof
  show "sp_index (planScan asciiUnicode refSql sampleTable (Some uAbove)) \<noteq> None" by code_simp
qed (rule planned_scan_complete [OF mem.kv_store_axioms twoRows_ok(1,2) timesOK_refSql uAbove_ok(2)])

section \<open>DELETE\<close>

text \<open>
  C26. DELETE removes exactly the rows its clause holds of. On every store that keeps the contract and every well-formed
  table, for a clause without subqueries that says yes or no of every row: the statement succeeds, reports the number of
  rows the clause holds of, and leaves a well-formed table that stores every other row and no other.
\<close>

theorem delete_exact:
  assumes "kv_store S view ok staged txok" "ok s" "loadSchema J S s (en_db E) table = Inr sc" "schemaOK sc"
    and "tableOK X J (en_db E) sc (view s)" "timesOK X" "\<not> exprHasSubquery e" "list_all canonical (literals e)"
    and "\<forall>pk r. storedAt X J (en_db E) sc (view s) pk r \<longrightarrow> decides U X sc e r"
  shows "\<exists>s'. execDelete U X J S others E Q table (Some e) s = Some (Inr (s', \<lparr>er_Tag = str ''DELETE '' @
      digits (card {pk. \<exists>r. storedAt X J (en_db E) sc (view s) pk r \<and> hits U X sc e r}), er_Columns = [], er_typed = []\<rparr>)) \<and>
    ok s' \<and> tableOK X J (en_db E) sc (view s') \<and>
    (\<forall>pk r. storedAt X J (en_db E) sc (view s') pk r \<longleftrightarrow> storedAt X J (en_db E) sc (view s) pk r \<and> \<not> hits U X sc e r)"
  using assms(9) by (intro kv_store.execDelete_deletes [OF assms(1-8)]) blast

definition sampleRow :: "int \<Rightarrow> int \<Rightarrow> rowmap" where
  "sampleRow a b = [(str ''id'', intV (word_of_int a)), (str ''u'', intV (word_of_int b))]"

lemma twoRows_stored:
  assumes "storedAt refSql refJson (en_db sampleEngine) sampleTable (map_of twoRows) pk r"
  shows "r \<in> set [sampleRow 1 10, sampleRow 2 20]"
  using mem.scan_stored_iff [OF twoRows_ok(1) _ twoRows_scan, of pk r] twoRows_ok(2) assms by (auto simp: tableOK_def sampleRow_def)

lemma uAbove_decides: "list_all (decides asciiUnicode refSql sampleTable uAbove) [sampleRow 1 10, sampleRow 2 20]"
proof -
  have "list_all (\<lambda>r. readsRow sampleTable r (map_of (predRow (Some uAbove) sampleTable r)) uAbove \<and>
      (case predicateTrue asciiUnicode refSql (Some uAbove) (Some (map_of (predRow (Some uAbove) sampleTable r))) of Inr b \<Rightarrow> True | Inl e \<Rightarrow> False))
    [sampleRow 1 10, sampleRow 2 20]" by code_simp
  then show ?thesis by (auto simp: decides_def split: sum.splits)
qed

theorem delete_exact_witness:
  "\<exists>s'. runDelete (Some uAbove) twoRows = Some (Inr (s', \<lparr>er_Tag = str ''DELETE '' @
      digits (card {pk. \<exists>r. storedAt refSql refJson (en_db sampleEngine) sampleTable (map_of twoRows) pk r \<and> hits asciiUnicode refSql sampleTable uAbove r}),
      er_Columns = [], er_typed = []\<rparr>)) \<and>
    distinct (map fst s') \<and> sampleOK s' \<and>
    (\<forall>pk r. storedAt refSql refJson (en_db sampleEngine) sampleTable (map_of s') pk r \<longleftrightarrow>
      storedAt refSql refJson (en_db sampleEngine) sampleTable (map_of twoRows) pk r \<and> \<not> hits asciiUnicode refSql sampleTable uAbove r)"
proof (rule delete_exact [OF mem.kv_store_axioms twoRows_ok(1) twoRows_schema sampleTable_ok(1) twoRows_ok(2) timesOK_refSql uAbove_ok])
  show "\<forall>pk r. storedAt refSql refJson (en_db sampleEngine) sampleTable (map_of twoRows) pk r \<longrightarrow> decides asciiUnicode refSql sampleTable uAbove r"
    using twoRows_stored uAbove_decides unfolding list_all_iff by blast
qed

section \<open>INSERT\<close>



section \<open>UPDATE\<close>


text \<open>\<^verbatim>\<open>UPDATE t SET u = 30 WHERE u >= 15\<close>\<close>

definition raisedRow :: mem where
  "raisedRow = (case runUpdate [(str ''u'', lit 30)] (Some uAbove) twoRows of Some (Inr (m, r)) \<Rightarrow> m | _ \<Rightarrow> [])"

lemma raisedRow_updated:
  "runUpdate [(str ''u'', lit 30)] (Some uAbove) twoRows = Some (Inr (raisedRow, \<lparr>er_Tag = str ''UPDATE 1'', er_Columns = [], er_typed = []\<rparr>))"
  by code_simp

definition idAndU :: "rowmap \<Rightarrow> bool" where
  "idAndU r \<longleftrightarrow> (\<exists>a b. r = [(str ''id'', intV a), (str ''u'', intV b)])"

lemma ints_exact:
  assumes "encodeRow refSql refJson [(str ''id'', intV a), (str ''u'', intV b)] = Inr raw"
  shows "decodeRow refSql refJson raw = Inr [(str ''id'', intV a), (str ''u'', intV b)]"
proof -
  let ?tvs = "[(str ''id'', \<lparr>tv_T = str ''i'', tv_V = FormatInt a\<rparr>), (str ''u'', \<lparr>tv_T = str ''i'', tv_V = FormatInt b\<rparr>)]"
  have "raw = jRow refJson ?tvs" using assms by (simp add: encodeRow_def encodeValueJSON_def)
  moreover have "jUnRow refJson (jRow refJson ?tvs) = Some ?tvs"
    using decAll_inverts [OF inverts_list [OF inverts_pair [OF inverts_bytes inverts_tagged]]] by (simp add: refJson_def)
  ultimately show ?thesis by (simp add: decodeRow_def decodeValueJSON_def unmarshal_def TrimSpace_FormatInt ParseInt_FormatInt)
qed

lemma setU_updatable: "updatable asciiUnicode refSql refJson sampleTable [(str ''u'', lit 30)] idAndU"
proof -
  have set: "applyAssignments asciiUnicode refSql sampleTable [(str ''id'', intV a), (str ''u'', intV b)] [(str ''u'', lit 30)]
      [(str ''id'', intV a), (str ''u'', intV b)] = Inr [(str ''id'', intV a), (str ''u'', intV 30)]" for a b
    by (simp add: sampleTable_def col_def intColumn_def lit_def coerceColumn_def CastTo_def coerceUUIDColumn_def IsNull_def)
  show ?thesis
    unfolding updatable_def
  proof (intro conjI allI impI)
    fix cur new raw
    assume "idAndU cur" "applyAssignments asciiUnicode refSql sampleTable cur [(str ''u'', lit 30)] cur = Inr new" and raw: "encodeRow refSql refJson new = Inr raw"
    then obtain a where new: "new = [(str ''id'', intV a), (str ''u'', intV 30)]" using set unfolding idAndU_def by fastforce
    have "decodeRow refSql refJson raw = Inr new" using ints_exact [of a 30 raw] raw unfolding new by blast
    moreover have "idAndU new" unfolding new idAndU_def by blast
    ultimately show "\<exists>r'. decodeRow refSql refJson raw = Inr r' \<and> map_of r' = map_of new \<and> idAndU r'" by blast
  qed (simp add: lit_def)
qed


section \<open>Flaws\<close>


text \<open>\<^verbatim>\<open>CREATE TABLE t (id INTEGER, u INTEGER)\<close>: rows under row identifiers.\<close>

definition rowidTable :: tableSchema where
  "rowidTable = sampleTable\<lparr>sc_PK := [], sc_Indexes := []\<rparr>"


text \<open>\<^verbatim>\<open>CREATE TABLE t (b BYTEA PRIMARY KEY, n INTEGER)\<close>\<close>

definition byteaTable :: tableSchema where
  "byteaTable = sampleTable\<lparr>sc_Columns := [(intColumn ''b'')\<lparr>c_Type := TypeBytea, c_TypeName := str ''BYTEA''\<rparr>, intColumn ''n''],
     sc_PK := [str ''b''], sc_Indexes := []\<rparr>"

definition byteaInsert :: Insert where
  "byteaInsert = (insertStmt [] '''')\<lparr>ins_Rows := [[Literal (byteaV []) [], lit 1], [Literal (byteaV [0]) [], lit 1]]\<rparr>"

text \<open>\<^verbatim>\<open>WHERE b IN ('\x', '\x00')\<close>\<close>

definition bothKeys :: Expr where
  "bothKeys = InList (cref ''b'') [Literal (byteaV []) [], Literal (byteaV [0]) []] None False"


section \<open>Types\<close>



end
